(* ===== verification/Prelude.thy ===== *)
theory Prelude
  imports Main "HOL-Library.Word" "HOL-Library.Monad_Syntax"
begin

text \<open>
  The prelude of the everdb-native development: the fixed-width integer types of
  \<open>src/src/types.h\<close>, the convention for C functions that can go wrong, and the word,
  list and option facts that the component theories share.

  Conventions.  A C function that returns an error code and writes output parameters is a
  HOL function that returns \<open>(code, outputs, state)\<close> inside \<open>option\<close>.  The value
  \<open>None\<close> stands for an execution that never returns to its caller in a defined way: an
  access outside the mapped file or through a pointer that a remapping has made stale, a
  division by zero, a call of \<open>abort\<close>, an endless loop or an unbounded recursion.  A
  theorem that an operation returns \<open>Some\<close> therefore also says that it is memory safe
  and terminates.  The macro \<open>CHECK(e)\<close> of \<open>util.h\<close> becomes a test of the code
  that the call returned.
\<close>

unbundle bit_operations_syntax

type_synonym u8 = "8 word"
type_synonym u16 = "16 word"
type_synonym u32 = "32 word"
type_synonym u64 = "64 word"

named_theorems layout \<open>field offsets and sizes of the on-disk structures\<close>
named_theorems defined_simps \<open>accesses that are inside the mapping\<close>

subsection \<open>Undefined behaviour\<close>

text \<open>\<open>require P\<close> lets an execution continue only if \<open>P\<close> holds.\<close>

definition require :: "bool \<Rightarrow> unit option" where
  "require P = (if P then Some () else None)"

lemma require_simps [simp]:
  "require True = Some ()"
  "require False = None"
  by (simp_all add: require_def)

lemma require_Some [simp]: "require P = Some u \<longleftrightarrow> P"
  by (simp add: require_def)

lemma bind_require_Some [simp]:
  "Option.bind (require P) f = Some y \<longleftrightarrow> P \<and> f () = Some y"
  by (cases P) simp_all

subsection \<open>32-bit arithmetic\<close>

lemma u32_lt: "unat (x :: u32) < 2 ^ 32"
  using unsigned_less [of x] by simp

lemma u32_eqI: "unat (x :: u32) = unat y \<Longrightarrow> x = y"
  by (rule word_unat_eq_iff [THEN iffD2])

lemma unat_add_u32:
  "unat x + unat y < 2 ^ 32 \<Longrightarrow> unat (x + y :: u32) = unat x + unat y"
  by (simp add: unat_word_ariths)

lemma unat_Suc_u32:
  "unat x + 1 < 2 ^ 32 \<Longrightarrow> unat (x + 1 :: u32) = unat x + 1"
  by (simp add: unat_word_ariths)

lemma unat_mult_u32:
  "unat x * unat y < 2 ^ 32 \<Longrightarrow> unat (x * y :: u32) = unat x * unat y"
  by (simp add: unat_word_ariths)

lemma unat_sub_u32:
  "unat y \<le> unat x \<Longrightarrow> unat (x - y :: u32) = unat x - unat y"
  by (simp add: unat_sub word_le_nat_alt)

lemma unat_of_nat_u32: "n < 2 ^ 32 \<Longrightarrow> unat (word_of_nat n :: u32) = n"
  by (simp add: unat_of_nat)

lemma of_nat_u32_inj:
  "m < 2 ^ 32 \<Longrightarrow> n < 2 ^ 32 \<Longrightarrow> (word_of_nat m :: u32) = word_of_nat n \<longleftrightarrow> m = n"
  by (metis unat_of_nat_u32)

subsection \<open>Splitting a 32-bit value into bytes\<close>

lemma add_chain:
  "a2 = c * b1 + a1 \<Longrightarrow> a3 = d * b2 + a2 \<Longrightarrow> n = e * b3 + a3 \<Longrightarrow>
   a1 + c * b1 + d * b2 + e * b3 = (n :: nat)"
  by simp

lemma split_bytes:
  assumes "(n :: nat) < 2 ^ 32"
  shows "n mod 2^8 + 2^8 * (n div 2^8 mod 2^8) + 2^16 * (n div 2^16 mod 2^8) +
     2^24 * (n div 2^24 mod 2^8) = n"
proof -
  have 1: "n mod 2^16 = 2^8 * (n div 2^8 mod 2^8) + n mod 2^8"
    using mod_mult2_eq [of n "2^8" "2^8"] by (simp only: power_add [symmetric]) simp
  have 2: "n mod 2^24 = 2^16 * (n div 2^16 mod 2^8) + n mod 2^16"
    using mod_mult2_eq [of n "2^16" "2^8"] by (simp only: power_add [symmetric]) simp
  have 3: "n = 2^24 * (n div 2^24) + n mod 2^24"
    by (rule mult_div_mod_eq [symmetric])
  have 4: "n div 2^24 mod 2^8 = n div 2^24"
    using assms by (simp add: less_mult_imp_div_less)
  show ?thesis unfolding 4 by (rule add_chain [OF 1 2 3])
qed

lemma unat_byte:
  "unat (ucast (drop_bit k (v :: u32)) :: u8) = unat v div 2 ^ k mod 2 ^ 8"
proof -
  have "unat (drop_bit k v) = unat v div 2 ^ k"
    unfolding unat_drop_bit_eq by (rule drop_bit_eq_div)
  then show ?thesis by (simp add: unsigned_ucast_eq take_bit_eq_mod del: drop_bit_eq_div)
qed

end
