(* ===== verification/Memory.thy ===== *)
theory Memory
  imports Prelude
begin

text \<open>
  Byte-addressed memory: the mapped database file.  32-bit fields are stored little-endian,
  as on the platforms the code is built for, so that fields of different structures of a
  union overlap the way they do in C.  The loads and stores of this theory are total; the
  bounds of the mapping are checked by the accessors of theory \<open>Core\<close>.
\<close>

type_synonym mem = "nat \<Rightarrow> u8"

definition ld32 :: "mem \<Rightarrow> nat \<Rightarrow> u32" where
  "ld32 m a = word_of_nat (unat (m a) + 2 ^ 8 * unat (m (a + 1)) +
     2 ^ 16 * unat (m (a + 2)) + 2 ^ 24 * unat (m (a + 3)))"

definition st32 :: "mem \<Rightarrow> nat \<Rightarrow> u32 \<Rightarrow> mem" where
  "st32 m a v = m(a := ucast v, a + 1 := ucast (drop_bit 8 v),
     a + 2 := ucast (drop_bit 16 v), a + 3 := ucast (drop_bit 24 v))"

definition ld_bytes :: "mem \<Rightarrow> nat \<Rightarrow> nat \<Rightarrow> u8 list" where
  "ld_bytes m a n = map (\<lambda>i. m (a + i)) [0..<n]"

definition st_bytes :: "mem \<Rightarrow> nat \<Rightarrow> u8 list \<Rightarrow> mem" where
  "st_bytes m a bs = (\<lambda>x. if a \<le> x \<and> x < a + length bs then bs ! (x - a) else m x)"

subsection \<open>What a store leaves alone\<close>

text \<open>\<open>same_at m m' a n\<close>: the two memories agree on the \<open>n\<close> bytes at \<open>a\<close>.\<close>

definition same_at :: "mem \<Rightarrow> mem \<Rightarrow> nat \<Rightarrow> nat \<Rightarrow> bool" where
  "same_at m m' a n \<longleftrightarrow> (\<forall>x. a \<le> x \<longrightarrow> x < a + n \<longrightarrow> m' x = m x)"

text \<open>\<open>same_outside m m' a n\<close>: they differ at most there.\<close>

definition same_outside :: "mem \<Rightarrow> mem \<Rightarrow> nat \<Rightarrow> nat \<Rightarrow> bool" where
  "same_outside m m' a n \<longleftrightarrow> (\<forall>x. x < a \<or> a + n \<le> x \<longrightarrow> m' x = m x)"

lemma same_outside_refl [simp]: "same_outside m m a n"
  by (simp add: same_outside_def)

lemma same_outside_trans:
  "same_outside m1 m2 a n \<Longrightarrow> same_outside m2 m3 a n \<Longrightarrow> same_outside m1 m3 a n"
  by (simp add: same_outside_def)

lemma same_outside_mono:
  "same_outside m m' a n \<Longrightarrow> b \<le> a \<Longrightarrow> a + n \<le> b + k \<Longrightarrow> same_outside m m' b k"
  by (auto simp: same_outside_def)

lemma same_outside_same_at:
  "same_outside m m' a n \<Longrightarrow> b + k \<le> a \<or> a + n \<le> b \<Longrightarrow> same_at m m' b k"
  by (auto simp: same_outside_def same_at_def)

lemma st32_outside: "same_outside m (st32 m a v) a 4"
  by (auto simp: same_outside_def st32_def)

lemma st_bytes_outside: "same_outside m (st_bytes m a bs) a (length bs)"
  by (auto simp: same_outside_def st_bytes_def)

lemma upd_outside: "same_outside m (m(a := b)) a 1"
  by (auto simp: same_outside_def)

lemma ld32_same: "same_at m m' a 4 \<Longrightarrow> ld32 m' a = ld32 m a"
  by (simp add: same_at_def ld32_def)

lemma ld_bytes_same: "same_at m m' a n \<Longrightarrow> ld_bytes m' a n = ld_bytes m a n"
  by (simp add: same_at_def ld_bytes_def)

lemma same_at_sub: "same_at m m' a n \<Longrightarrow> a \<le> b \<Longrightarrow> b + k \<le> a + n \<Longrightarrow> same_at m m' b k"
  by (simp add: same_at_def)

lemma ld_bytes_same_iff: "ld_bytes m' a n = ld_bytes m a n \<longleftrightarrow> same_at m m' a n"
proof -
  have "same_at m m' a n" if "\<forall>i < n. m' (a + i) = m (a + i)"
    unfolding same_at_def
  proof (intro allI impI)
    fix x assume "a \<le> x" "x < a + n"
    then show "m' x = m x" using that [rule_format, of "x - a"] by simp
  qed
  then show ?thesis by (auto simp: ld_bytes_def same_at_def)
qed

subsection \<open>Reading back\<close>

lemma length_ld_bytes [simp]: "length (ld_bytes m a n) = n"
  by (simp add: ld_bytes_def)

lemma nth_ld_bytes [simp]: "i < n \<Longrightarrow> ld_bytes m a n ! i = m (a + i)"
  by (simp add: ld_bytes_def)

lemma ld32_st32_same [simp]: "ld32 (st32 m a v) a = v"
  using unat_byte [of 0 v] unat_byte [of 8 v] unat_byte [of 16 v] unat_byte [of 24 v]
    split_bytes [OF u32_lt [of v]]
  by (simp add: ld32_def st32_def)

lemma ld32_st32_other: "a + 4 \<le> b \<or> b + 4 \<le> a \<Longrightarrow> ld32 (st32 m a v) b = ld32 m b"
  by (rule ld32_same, rule same_outside_same_at [OF st32_outside]) auto

lemma ld_bytes_st_bytes_same [simp]: "ld_bytes (st_bytes m a bs) a (length bs) = bs"
  by (rule nth_equalityI) (simp_all add: st_bytes_def)

lemma ld_bytes_st_bytes_inside:
  "off + n \<le> length bs \<Longrightarrow> ld_bytes (st_bytes m a bs) (a + off) n = take n (drop off bs)"
  by (rule nth_equalityI) (simp_all add: st_bytes_def)

lemma ld_bytes_split: "ld_bytes m a (n + k) = ld_bytes m a n @ ld_bytes m (a + n) k"
  by (rule nth_equalityI) (auto simp: nth_append)

lemma ld_bytes_sub:
  "off + k \<le> n \<Longrightarrow> take k (drop off (ld_bytes m a n)) = ld_bytes m (a + off) k"
  by (rule nth_equalityI) (simp_all add: add.assoc)

lemma byte_digits:
  assumes "u0 < 256" "u1 < 256" "u2 < 256" "(u3 :: nat) < 256"
  defines "n \<equiv> u0 + 2 ^ 8 * u1 + 2 ^ 16 * u2 + 2 ^ 24 * u3"
  shows "n < 2 ^ 32" "n div 2 ^ 0 mod 2 ^ 8 = u0" "n div 2 ^ 8 mod 2 ^ 8 = u1"
    "n div 2 ^ 16 mod 2 ^ 8 = u2" "n div 2 ^ 24 mod 2 ^ 8 = u3"
proof -
  have p8: "(2 :: nat) ^ 8 = 256" by simp
  have n: "n = u0 + 256 * (u1 + 256 * (u2 + 256 * u3))" by (simp add: n_def)
  have d8: "n div 256 = u1 + 256 * (u2 + 256 * u3)" using assms(1) n by simp
  then have d16: "n div 256 div 256 = u2 + 256 * u3" using assms(2) by simp
  then have d24: "n div 256 div 256 div 256 = u3" using assms(3) by simp
  show "n < 2 ^ 32" using n assms(1-4) by simp
  have m: "(u + 256 * w) mod 256 = u" if "u < 256" for u w :: nat using that by simp
  show "n div 2 ^ 0 mod 2 ^ 8 = u0" unfolding n power_0 div_by_1 p8 by (rule m [OF assms(1)])
  show "n div 2 ^ 8 mod 2 ^ 8 = u1" unfolding p8 d8 by (rule m [OF assms(2)])
  show "n div 2 ^ 16 mod 2 ^ 8 = u2" using d16 assms(3) by (simp add: div_mult2_eq [symmetric])
  show "n div 2 ^ 24 mod 2 ^ 8 = u3" using d24 assms(4) by (simp add: div_mult2_eq [symmetric])
qed

lemma ld32_byte:
  "ucast (ld32 m a) = m a" "ucast (drop_bit 8 (ld32 m a)) = m (a + 1)"
  "ucast (drop_bit 16 (ld32 m a)) = m (a + 2)" "ucast (drop_bit 24 (ld32 m a)) = m (a + 3)"
proof -
  have u: "unat (b :: u8) < 256" for b using unsigned_less [of b] by simp
  note d = byte_digits [OF u [of "m a"] u [of "m (a + 1)"] u [of "m (a + 2)"] u [of "m (a + 3)"]]
  have v: "unat (ld32 m a) = unat (m a) + 2 ^ 8 * unat (m (a + 1)) + 2 ^ 16 * unat (m (a + 2)) +
      2 ^ 24 * unat (m (a + 3))"
    unfolding ld32_def by (rule unat_of_nat_u32 [OF d(1)])
  have "unat (ucast (drop_bit 0 (ld32 m a)) :: u8) = unat (m a)"
    "unat (ucast (drop_bit 8 (ld32 m a)) :: u8) = unat (m (a + 1))"
    "unat (ucast (drop_bit 16 (ld32 m a)) :: u8) = unat (m (a + 2))"
    "unat (ucast (drop_bit 24 (ld32 m a)) :: u8) = unat (m (a + 3))"
    unfolding unat_byte v by (rule d(2-5))+
  then show "ucast (ld32 m a) = m a" "ucast (drop_bit 8 (ld32 m a)) = m (a + 1)"
    "ucast (drop_bit 16 (ld32 m a)) = m (a + 2)" "ucast (drop_bit 24 (ld32 m a)) = m (a + 3)"
    by (simp_all add: word_unat_eq_iff)
qed

lemma st32_ld32 [simp]: "st32 m a (ld32 m a) = m"
  unfolding st32_def ld32_byte by simp

lemma ld32_zero:
  assumes "ld32 m a = 0" and "i < 4"
  shows "m (a + i) = 0"
proof -
  have "i \<in> {0, 1, 2, 3}" using assms(2) by auto
  then show ?thesis using ld32_byte [of m a] assms(1) by auto
qed

end
