(* ===== verification/Core.thy ===== *)
theory Core
  imports Memory Mem_Hash
begin

text \<open>
  The database handle of \<open>src/src/core.h\<close>, access to the mapped file through pointers, and
  the block API (\<open>edb_allocate_block\<close>, \<open>edb_modify_block\<close>, \<open>edb_free_block\<close>) as an
  interface that the page tables, arrays and B+ trees are clients of.

  \<open>db->data\<close> is the base of a shared mapping of the file.  The model keeps the bytes
  (\<open>data\<close>), whether the pointer is non-null (\<open>mapped\<close>), whether the mapping is writable
  (\<open>prot_write\<close>) and a counter of the mappings made so far (\<open>epoch\<close>).  A pointer into
  the mapping is a pair of the epoch it was computed in and its byte offset: once the file
  has been remapped, an access through it is undefined, which is the hazard that the note in
  \<open>freelist.c\<close> warns of.  The linked list of transactions is a list, innermost first.
\<close>

definition BLOCK_SIZE :: nat where "BLOCK_SIZE = 4096"
definition EDB_FREELIST_PRIMARY :: u32 where "EDB_FREELIST_PRIMARY = 1"
definition EDB_FREELIST_SECONDARY :: u32 where "EDB_FREELIST_SECONDARY = 2"
definition EDB_OBJLIST :: u32 where "EDB_OBJLIST = 3"
definition EDB_USER_DATA :: u32 where "EDB_USER_DATA = 4"

record txn_state =
  ts_nblocks :: u32
  ts_blocks :: mem_hash

record edb =
  readonly :: bool
  h_file :: int
  disk_len :: nat
  data :: mem
  mapped :: bool
  prot_write :: bool
  epoch :: nat
  filesize :: u64
  nblocks :: u32
  freelist :: u32
  objlist :: u32
  txn_id :: u32
  txn :: "txn_state list"

subsection \<open>Pointers into the mapping\<close>

type_synonym ptr = "nat \<times> nat"

text \<open>
  The macros \<open>BLOCK\<close>, \<open>PAGE_TABLE\<close>, \<open>INDEX_PAGE\<close>, \<open>PAGE_TABLE_ARRAY\<close> and \<open>BTREE\<close>.
  The offset is a product of a u32 and an \<open>int\<close> constant, so it wraps around at 4 GiB.
\<close>

definition BLOCK :: "edb \<Rightarrow> u32 \<Rightarrow> ptr" where
  "BLOCK s b = (epoch s, unat (b * 4096))"

definition live :: "edb \<Rightarrow> ptr \<Rightarrow> nat \<Rightarrow> nat \<Rightarrow> bool" where
  "live s p off n \<longleftrightarrow> mapped s \<and> fst p = epoch s \<and> snd p + off + n \<le> unat (filesize s)"

definition rd8 :: "edb \<Rightarrow> ptr \<Rightarrow> nat \<Rightarrow> u8 option" where
  "rd8 s p off = (if live s p off 1 then Some (data s (snd p + off)) else None)"

definition rd32 :: "edb \<Rightarrow> ptr \<Rightarrow> nat \<Rightarrow> u32 option" where
  "rd32 s p off = (if live s p off 4 then Some (ld32 (data s) (snd p + off)) else None)"

definition rd_bytes :: "edb \<Rightarrow> ptr \<Rightarrow> nat \<Rightarrow> nat \<Rightarrow> u8 list option" where
  "rd_bytes s p off n = (if live s p off n then Some (ld_bytes (data s) (snd p + off) n) else None)"

definition wr8 :: "edb \<Rightarrow> ptr \<Rightarrow> nat \<Rightarrow> u8 \<Rightarrow> edb option" where
  "wr8 s p off v = (if live s p off 1 \<and> prot_write s
     then Some (s\<lparr>data := (data s)(snd p + off := v)\<rparr>) else None)"

definition wr32 :: "edb \<Rightarrow> ptr \<Rightarrow> nat \<Rightarrow> u32 \<Rightarrow> edb option" where
  "wr32 s p off v = (if live s p off 4 \<and> prot_write s
     then Some (s\<lparr>data := st32 (data s) (snd p + off) v\<rparr>) else None)"

definition wr_bytes :: "edb \<Rightarrow> ptr \<Rightarrow> nat \<Rightarrow> u8 list \<Rightarrow> edb option" where
  "wr_bytes s p off bs = (if live s p off (length bs) \<and> prot_write s
     then Some (s\<lparr>data := st_bytes (data s) (snd p + off) bs\<rparr>) else None)"

subsection \<open>Blocks\<close>

text \<open>
  \<open>block_ok s b\<close>: block \<open>b\<close> lies inside the mapped file, below the 4 GiB at which block
  offsets wrap, and may be written.  Its fields are then \<open>w32 s b off\<close> and
  \<open>w8 s b off\<close>, and \<open>blk s b\<close> is its content.
\<close>

definition block_ok :: "edb \<Rightarrow> u32 \<Rightarrow> bool" where
  "block_ok s b \<longleftrightarrow> mapped s \<and> prot_write s \<and> unat b < 2 ^ 20 \<and>
     4096 * unat b + 4096 \<le> unat (filesize s)"

definition w32 :: "edb \<Rightarrow> u32 \<Rightarrow> nat \<Rightarrow> u32" where
  "w32 s b off = ld32 (data s) (4096 * unat b + off)"

definition w8 :: "edb \<Rightarrow> u32 \<Rightarrow> nat \<Rightarrow> u8" where
  "w8 s b off = data s (4096 * unat b + off)"

definition bytes :: "edb \<Rightarrow> u32 \<Rightarrow> nat \<Rightarrow> nat \<Rightarrow> u8 list" where
  "bytes s b off n = ld_bytes (data s) (4096 * unat b + off) n"

definition blk :: "edb \<Rightarrow> u32 \<Rightarrow> u8 list" where
  "blk s b = bytes s b 0 4096"

definition set32 :: "edb \<Rightarrow> u32 \<Rightarrow> nat \<Rightarrow> u32 \<Rightarrow> edb" where
  "set32 s b off v = s\<lparr>data := st32 (data s) (4096 * unat b + off) v\<rparr>"

definition set8 :: "edb \<Rightarrow> u32 \<Rightarrow> nat \<Rightarrow> u8 \<Rightarrow> edb" where
  "set8 s b off v = s\<lparr>data := (data s)(4096 * unat b + off := v)\<rparr>"

definition set_bytes :: "edb \<Rightarrow> u32 \<Rightarrow> nat \<Rightarrow> u8 list \<Rightarrow> edb" where
  "set_bytes s b off bs = s\<lparr>data := st_bytes (data s) (4096 * unat b + off) bs\<rparr>"

text \<open>\<open>writes_only s s' b\<close>: \<open>s'\<close> differs from \<open>s\<close> only in bytes of block \<open>b\<close>.\<close>

definition writes_only :: "edb \<Rightarrow> edb \<Rightarrow> u32 \<Rightarrow> bool" where
  "writes_only s s' b \<longleftrightarrow>
     s' = s\<lparr>data := data s'\<rparr> \<and> same_outside (data s) (data s') (4096 * unat b) 4096"

lemma BLOCK_offset:
  "unat b < 2 ^ 20 \<Longrightarrow> unat (b * 4096 :: u32) = 4096 * unat b"
  by (subst unat_mult_u32) simp_all

lemma live_BLOCK:
  "block_ok s b \<Longrightarrow> epoch s = epoch s0 \<Longrightarrow> off + n \<le> 4096 \<Longrightarrow> live s (BLOCK s0 b) off n"
  by (simp add: live_def BLOCK_def block_ok_def BLOCK_offset)

lemma rd32_ok [defined_simps]:
  "block_ok s b \<Longrightarrow> epoch s = epoch s0 \<Longrightarrow> off + 4 \<le> 4096 \<Longrightarrow>
   rd32 s (BLOCK s0 b) off = Some (w32 s b off)"
  using live_BLOCK [of s b s0 off 4]
  by (simp add: rd32_def w32_def BLOCK_def BLOCK_offset block_ok_def)

lemma rd8_ok [defined_simps]:
  "block_ok s b \<Longrightarrow> epoch s = epoch s0 \<Longrightarrow> off + 1 \<le> 4096 \<Longrightarrow>
   rd8 s (BLOCK s0 b) off = Some (w8 s b off)"
  using live_BLOCK [of s b s0 off 1]
  by (simp add: rd8_def w8_def BLOCK_def BLOCK_offset block_ok_def)

lemma rd_bytes_ok [defined_simps]:
  "block_ok s b \<Longrightarrow> epoch s = epoch s0 \<Longrightarrow> off + n \<le> 4096 \<Longrightarrow>
   rd_bytes s (BLOCK s0 b) off n = Some (bytes s b off n)"
  using live_BLOCK [of s b s0 off n]
  by (simp add: rd_bytes_def bytes_def BLOCK_def BLOCK_offset block_ok_def)

lemma wr32_ok [defined_simps]:
  "block_ok s b \<Longrightarrow> epoch s = epoch s0 \<Longrightarrow> off + 4 \<le> 4096 \<Longrightarrow>
   wr32 s (BLOCK s0 b) off v = Some (set32 s b off v)"
  using live_BLOCK [of s b s0 off 4]
  by (simp add: wr32_def set32_def BLOCK_def BLOCK_offset block_ok_def)

lemma wr8_ok [defined_simps]:
  "block_ok s b \<Longrightarrow> epoch s = epoch s0 \<Longrightarrow> off + 1 \<le> 4096 \<Longrightarrow>
   wr8 s (BLOCK s0 b) off v = Some (set8 s b off v)"
  using live_BLOCK [of s b s0 off 1]
  by (simp add: wr8_def set8_def BLOCK_def BLOCK_offset block_ok_def)

lemma wr_bytes_ok [defined_simps]:
  "block_ok s b \<Longrightarrow> epoch s = epoch s0 \<Longrightarrow> off + length bs \<le> 4096 \<Longrightarrow>
   wr_bytes s (BLOCK s0 b) off bs = Some (set_bytes s b off bs)"
  using live_BLOCK [of s b s0 off "length bs"]
  by (simp add: wr_bytes_def set_bytes_def BLOCK_def BLOCK_offset block_ok_def)

subsection \<open>Stores and the fields of blocks\<close>

lemma set_fields [simp]:
  "readonly (set32 s b off v) = readonly s" "readonly (set8 s b off w) = readonly s"
  "readonly (set_bytes s b off bs) = readonly s"
  "h_file (set32 s b off v) = h_file s" "h_file (set8 s b off w) = h_file s"
  "h_file (set_bytes s b off bs) = h_file s"
  "disk_len (set32 s b off v) = disk_len s" "disk_len (set8 s b off w) = disk_len s"
  "disk_len (set_bytes s b off bs) = disk_len s"
  "mapped (set32 s b off v) = mapped s" "mapped (set8 s b off w) = mapped s"
  "mapped (set_bytes s b off bs) = mapped s"
  "prot_write (set32 s b off v) = prot_write s" "prot_write (set8 s b off w) = prot_write s"
  "prot_write (set_bytes s b off bs) = prot_write s"
  "epoch (set32 s b off v) = epoch s" "epoch (set8 s b off w) = epoch s"
  "epoch (set_bytes s b off bs) = epoch s"
  "filesize (set32 s b off v) = filesize s" "filesize (set8 s b off w) = filesize s"
  "filesize (set_bytes s b off bs) = filesize s"
  "nblocks (set32 s b off v) = nblocks s" "nblocks (set8 s b off w) = nblocks s"
  "nblocks (set_bytes s b off bs) = nblocks s"
  "freelist (set32 s b off v) = freelist s" "freelist (set8 s b off w) = freelist s"
  "freelist (set_bytes s b off bs) = freelist s"
  "objlist (set32 s b off v) = objlist s" "objlist (set8 s b off w) = objlist s"
  "objlist (set_bytes s b off bs) = objlist s"
  "txn_id (set32 s b off v) = txn_id s" "txn_id (set8 s b off w) = txn_id s"
  "txn_id (set_bytes s b off bs) = txn_id s"
  "txn (set32 s b off v) = txn s" "txn (set8 s b off w) = txn s"
  "txn (set_bytes s b off bs) = txn s"
  by (simp_all add: set32_def set8_def set_bytes_def)

lemma block_ok_set [simp]:
  "block_ok (set32 s b off v) b' = block_ok s b'" "block_ok (set8 s b off w) b' = block_ok s b'"
  "block_ok (set_bytes s b off bs) b' = block_ok s b'"
  by (simp_all add: block_ok_def)

text \<open>The bytes at offset \<open>off\<close> of one block and at \<open>off'\<close> of another never overlap.\<close>

lemma blocks_apart:
  assumes "b \<noteq> (b' :: u32)" and "off + n \<le> 4096" and "off' + k \<le> 4096"
  shows "4096 * unat b + off + n \<le> 4096 * unat b' + off' \<or>
    4096 * unat b' + off' + k \<le> 4096 * unat b + off"
proof -
  have "unat b < unat b' \<or> unat b' < unat b"
    using assms(1) u32_eqI linorder_neqE_nat by blast
  then have "4096 * unat b + 4096 \<le> 4096 * unat b' \<or> 4096 * unat b' + 4096 \<le> 4096 * unat b"
    by auto
  then show ?thesis using assms(2,3) by linarith
qed

lemma w32_outside:
  "same_outside (data s) (data s') (4096 * unat b + off) n \<Longrightarrow>
   b \<noteq> b' \<and> off + n \<le> 4096 \<and> off' + 4 \<le> 4096 \<or> b = b' \<and> (off + n \<le> off' \<or> off' + 4 \<le> off) \<Longrightarrow>
   w32 s' b' off' = w32 s b' off'"
  unfolding w32_def using blocks_apart [of b b' off n off' 4]
  by (intro ld32_same same_outside_same_at) auto

lemma w8_outside:
  "same_outside (data s) (data s') (4096 * unat b + off) n \<Longrightarrow>
   b \<noteq> b' \<and> off + n \<le> 4096 \<and> off' + 1 \<le> 4096 \<or> b = b' \<and> (off + n \<le> off' \<or> off' + 1 \<le> off) \<Longrightarrow>
   w8 s' b' off' = w8 s b' off'"
  unfolding w8_def same_outside_def using blocks_apart [of b b' off n off' 1] by auto

lemma bytes_outside:
  "same_outside (data s) (data s') (4096 * unat b + off) n \<Longrightarrow>
   b \<noteq> b' \<and> off + n \<le> 4096 \<and> off' + k \<le> 4096 \<or> b = b' \<and> (off + n \<le> off' \<or> off' + k \<le> off) \<Longrightarrow>
   bytes s' b' off' k = bytes s b' off' k"
  unfolding bytes_def using blocks_apart [of b b' off n off' k]
  by (intro ld_bytes_same same_outside_same_at) auto

lemma set_outside:
  "same_outside (data s) (data (set32 s b off v)) (4096 * unat b + off) 4"
  "same_outside (data s) (data (set8 s b off w)) (4096 * unat b + off) 1"
  "same_outside (data s) (data (set_bytes s b off bs)) (4096 * unat b + off) (length bs)"
  by (simp_all add: set32_def set8_def set_bytes_def st32_outside st_bytes_outside
      upd_outside [unfolded One_nat_def])

lemma read_back [simp]:
  "w32 (set32 s b off v) b off = v"
  "w8 (set8 s b off w) b off = w"
  "length bs = n \<Longrightarrow> bytes (set_bytes s b off bs) b off n = bs"
  by (auto simp: w32_def set32_def w8_def set8_def bytes_def set_bytes_def)

lemma read_other [simp]:
  "b \<noteq> b' \<and> off + 4 \<le> 4096 \<and> off' + 4 \<le> 4096 \<or> b = b' \<and> (off + 4 \<le> off' \<or> off' + 4 \<le> off) \<Longrightarrow>
   w32 (set32 s b off v) b' off' = w32 s b' off'"
  "b \<noteq> b' \<and> off + 1 \<le> 4096 \<and> off' + 4 \<le> 4096 \<or> b = b' \<and> (off + 1 \<le> off' \<or> off' + 4 \<le> off) \<Longrightarrow>
   w32 (set8 s b off w) b' off' = w32 s b' off'"
  "b \<noteq> b' \<and> off + length bs \<le> 4096 \<and> off' + 4 \<le> 4096 \<or>
     b = b' \<and> (off + length bs \<le> off' \<or> off' + 4 \<le> off) \<Longrightarrow>
   w32 (set_bytes s b off bs) b' off' = w32 s b' off'"
  "b \<noteq> b' \<and> off + 4 \<le> 4096 \<and> off' + 1 \<le> 4096 \<or> b = b' \<and> (off + 4 \<le> off' \<or> off' + 1 \<le> off) \<Longrightarrow>
   w8 (set32 s b off v) b' off' = w8 s b' off'"
  "b \<noteq> b' \<and> off + length bs \<le> 4096 \<and> off' + 1 \<le> 4096 \<or>
     b = b' \<and> (off + length bs \<le> off' \<or> off' + 1 \<le> off) \<Longrightarrow>
   w8 (set_bytes s b off bs) b' off' = w8 s b' off'"
  "b \<noteq> b' \<and> off + 4 \<le> 4096 \<and> off' + k \<le> 4096 \<or> b = b' \<and> (off + 4 \<le> off' \<or> off' + k \<le> off) \<Longrightarrow>
   bytes (set32 s b off v) b' off' k = bytes s b' off' k"
  "b \<noteq> b' \<and> off + 1 \<le> 4096 \<and> off' + k \<le> 4096 \<or> b = b' \<and> (off + 1 \<le> off' \<or> off' + k \<le> off) \<Longrightarrow>
   bytes (set8 s b off w) b' off' k = bytes s b' off' k"
  "b \<noteq> b' \<and> off + length bs \<le> 4096 \<and> off' + k \<le> 4096 \<or>
     b = b' \<and> (off + length bs \<le> off' \<or> off' + k \<le> off) \<Longrightarrow>
   bytes (set_bytes s b off bs) b' off' k = bytes s b' off' k"
  by (auto intro!: w32_outside w8_outside bytes_outside set_outside)

text \<open>Two aligned fields of a block are the same or do not overlap.\<close>

lemma aligned_apart: "4 dvd (i :: nat) \<Longrightarrow> 4 dvd j \<Longrightarrow> i \<noteq> j \<Longrightarrow> i + 4 \<le> j \<or> j + 4 \<le> i"
  by (elim dvdE) auto

lemma w32_set32_aligned:
  assumes "4 dvd off" and "4 dvd off'" and "off + 4 \<le> 4096" and "off' + 4 \<le> 4096"
  shows "w32 (set32 s b off v) b' off' = (if b = b' \<and> off = off' then v else w32 s b' off')"
  using assms aligned_apart [of off off'] by (cases "b = b'"; cases "off = off'") auto

subsection \<open>Frames\<close>

lemma bytes_of_blk: "off + n \<le> 4096 \<Longrightarrow> bytes s b off n = take n (drop off (blk s b))"
  by (simp add: blk_def bytes_def ld_bytes_sub)

lemma blk_bytes: "blk s' b = blk s b \<Longrightarrow> off + n \<le> 4096 \<Longrightarrow> bytes s' b off n = bytes s b off n"
  by (simp add: bytes_of_blk)

lemma blk_same_at:
  "blk s' b = blk s b \<longleftrightarrow> same_at (data s) (data s') (4096 * unat b) 4096"
  by (simp add: blk_def bytes_def ld_bytes_same_iff)

lemma blk_w32: "blk s' b = blk s b \<Longrightarrow> off + 4 \<le> 4096 \<Longrightarrow> w32 s' b off = w32 s b off"
  unfolding blk_same_at w32_def by (rule ld32_same, rule same_at_sub) auto

lemma blk_w8: "blk s' b = blk s b \<Longrightarrow> off + 1 \<le> 4096 \<Longrightarrow> w8 s' b off = w8 s b off"
  unfolding blk_same_at w8_def same_at_def by simp

lemma blk_set [simp]:
  "b \<noteq> b' \<Longrightarrow> off + 4 \<le> 4096 \<Longrightarrow> blk (set32 s b off v) b' = blk s b'"
  "b \<noteq> b' \<Longrightarrow> off + 1 \<le> 4096 \<Longrightarrow> blk (set8 s b off w) b' = blk s b'"
  "b \<noteq> b' \<Longrightarrow> off + length bs \<le> 4096 \<Longrightarrow> blk (set_bytes s b off bs) b' = blk s b'"
  by (simp_all add: blk_def)

lemma writes_only_refl [simp]: "writes_only s s b"
  by (simp add: writes_only_def)

lemma writes_only_trans:
  assumes "writes_only s1 s2 b" and "writes_only s2 s3 b"
  shows "writes_only s1 s3 b"
proof -
  have "s3 = s1\<lparr>data := data s3\<rparr>"
    using assms unfolding writes_only_def by (metis (no_types) edb.surjective edb.update_convs(4))
  then show ?thesis using assms same_outside_trans unfolding writes_only_def by blast
qed

lemma writes_only_set:
  "off + 4 \<le> 4096 \<Longrightarrow> writes_only s (set32 s b off v) b"
  "off + 1 \<le> 4096 \<Longrightarrow> writes_only s (set8 s b off w) b"
  "off + length bs \<le> 4096 \<Longrightarrow> writes_only s (set_bytes s b off bs) b"
  using set_outside(1) [of s b off v] set_outside(2) [of s b off w] set_outside(3) [of s b off bs]
  by (auto simp: writes_only_def set32_def set8_def set_bytes_def elim!: same_outside_mono)

lemma writes_only_step:
  "writes_only s0 s b \<Longrightarrow> off + 4 \<le> 4096 \<Longrightarrow> writes_only s0 (set32 s b off v) b"
  "writes_only s0 s b \<Longrightarrow> off + 1 \<le> 4096 \<Longrightarrow> writes_only s0 (set8 s b off w) b"
  "writes_only s0 s b \<Longrightarrow> off + length bs \<le> 4096 \<Longrightarrow> writes_only s0 (set_bytes s b off bs) b"
  using writes_only_set writes_only_trans by metis+

lemma writes_only_fields:
  "writes_only s s' b \<Longrightarrow> mapped s' = mapped s \<and> prot_write s' = prot_write s \<and>
     epoch s' = epoch s \<and> filesize s' = filesize s \<and> nblocks s' = nblocks s \<and>
     freelist s' = freelist s \<and> objlist s' = objlist s \<and> txn_id s' = txn_id s \<and>
     txn s' = txn s \<and> readonly s' = readonly s \<and> disk_len s' = disk_len s \<and> h_file s' = h_file s"
  unfolding writes_only_def by (elim conjE, cases s, cases s') simp

lemma writes_only_blk: "writes_only s s' b \<Longrightarrow> b \<noteq> b' \<Longrightarrow> blk s' b' = blk s b'"
  using blocks_apart [of b b' 0 4096 0 4096]
  by (auto simp: writes_only_def blk_same_at intro: same_outside_same_at)

subsection \<open>The block API as an interface\<close>

text \<open>
  \<open>edb_allocate_block\<close>, \<open>edb_modify_block\<close> and \<open>edb_free_block\<close> as seen by their
  callers.  The functions of \<open>page.c\<close>, \<open>array.c\<close> and \<open>btree.c\<close> take them as an
  argument: the freelist is itself such an array, so the transaction layer calls the
  array code, which calls the transaction layer again; theory \<open>Txn\<close> ties that knot.
\<close>

record block_api =
  api_alloc :: "edb \<Rightarrow> (int \<times> u32 \<times> edb) option"
  api_modify :: "edb \<Rightarrow> u32 \<Rightarrow> (int \<times> u32 \<times> edb) option"
  api_free :: "edb \<Rightarrow> u32 \<Rightarrow> (int \<times> edb) option"

text \<open>
  What a provider promises to a client that only allocates and modifies.  \<open>inv\<close> is the
  provider's invariant, \<open>priv s\<close> the blocks that the running transaction may write in
  place, \<open>room s\<close> a number of allocations that will succeed.
\<close>

locale block_alloc =
  fixes api :: block_api
    and inv :: "edb \<Rightarrow> bool"
    and priv :: "edb \<Rightarrow> u32 set"
    and room :: "edb \<Rightarrow> nat"
  assumes priv_ok: "inv s \<Longrightarrow> b \<in> priv s \<Longrightarrow> block_ok s b"
    and priv_nonzero: "inv s \<Longrightarrow> 0 \<notin> priv s"
    and inv_writes: "inv s \<Longrightarrow> b \<in> priv s \<Longrightarrow> writes_only s s' b \<Longrightarrow> inv s'"
    and priv_writes: "inv s \<Longrightarrow> b \<in> priv s \<Longrightarrow> writes_only s s' b \<Longrightarrow> priv s' = priv s"
    and room_writes: "inv s \<Longrightarrow> b \<in> priv s \<Longrightarrow> writes_only s s' b \<Longrightarrow> room s' = room s"
    and alloc_ok: "inv s \<Longrightarrow> 0 < room s \<Longrightarrow>
      \<exists>b s'. api_alloc api s = Some (0, b, s') \<and> inv s' \<and> b \<notin> priv s \<and>
        priv s' = insert b (priv s) \<and> room s \<le> Suc (room s') \<and>
        objlist s' = objlist s \<and> txn_id s' = txn_id s \<and> (\<forall>c \<in> priv s. blk s' c = blk s c)"
    and modify_ok: "inv s \<Longrightarrow> b \<in> priv s \<Longrightarrow> api_modify api s b = Some (0, b, s)"

text \<open>A client that also frees blocks.\<close>

locale block_device = block_alloc +
  assumes free_ok: "inv s \<Longrightarrow> b \<in> priv s \<Longrightarrow>
      \<exists>s'. api_free api s b = Some (0, s') \<and> inv s' \<and> priv s' = priv s - {b} \<and>
        room s \<le> room s' \<and> objlist s' = objlist s \<and> txn_id s' = txn_id s \<and>
        (\<forall>c \<in> priv s. blk s' c = blk s c)"

end
