(* ===== verification/Io.thy ===== *)
theory Io
  imports Core
begin

text \<open>
  Opening, sizing and closing the database file (\<open>src/src/io.c\<close>, the Linux branches).

  The operating system is a parameter: \<open>os\<close> says what \<open>open\<close> and \<open>fstat\<close> return and
  whether \<open>posix_fallocate\<close>, \<open>ftruncate\<close> and \<open>mmap\<close> succeed for a handle and a size.  Their effect when they
  succeed is modelled: the file grows by zero bytes or is cut, and the mapping is a new one
  (\<open>epoch\<close>) of the file's content, writable unless the handle is read-only.  A mapping of
  length 0 always fails, as POSIX requires.
\<close>

record os =
  os_open :: "string \<Rightarrow> bool \<Rightarrow> bool \<Rightarrow> int"
  os_fstat :: "int \<Rightarrow> int"
  os_size :: "int \<Rightarrow> u64"
  os_content :: "int \<Rightarrow> mem"
  os_falloc :: "int \<Rightarrow> nat \<Rightarrow> bool"
  os_ftruncate :: "int \<Rightarrow> nat \<Rightarrow> bool"
  os_mmap :: "int \<Rightarrow> nat \<Rightarrow> bool"

abbreviation EDB_ERR_IO_FILE_OPEN :: int where "EDB_ERR_IO_FILE_OPEN \<equiv> 2001"
abbreviation EDB_ERR_IO_FILE_SIZE :: int where "EDB_ERR_IO_FILE_SIZE \<equiv> 2002"
abbreviation EDB_ERR_IO_SIZE_MAX :: int where "EDB_ERR_IO_SIZE_MAX \<equiv> 2003"

text \<open>The handle after \<open>calloc\<close> or \<open>memset\<close>.\<close>

definition zero_edb :: edb where
  "zero_edb = \<lparr>readonly = False, h_file = 0, disk_len = 0, data = (\<lambda>_. 0), mapped = False,
     prot_write = False, epoch = 0, filesize = 0, nblocks = 0, freelist = 0, objlist = 0,
     txn_id = 0, txn = []\<rparr>"

definition io_map_close :: "edb \<Rightarrow> edb" where
  "io_map_close s = s\<lparr>mapped := False\<rparr>"

definition io_close :: "edb \<Rightarrow> int \<times> edb" where
  "io_close s =
     (let s = io_map_close s;
          s = (if 0 \<le> h_file s then s\<lparr>h_file := 0\<rparr> else s)
      in (0, s\<lparr>filesize := 0, nblocks := 0\<rparr>))"

text \<open>The effects of \<open>posix_fallocate\<close>, \<open>ftruncate\<close> and \<open>mmap\<close>.\<close>

definition falloc_file :: "edb \<Rightarrow> nat \<Rightarrow> edb" where
  "falloc_file s n = s\<lparr>data := (\<lambda>a. if a < disk_len s then data s a else 0),
     disk_len := max (disk_len s) n\<rparr>"

definition ftruncate_file :: "edb \<Rightarrow> nat \<Rightarrow> edb" where
  "ftruncate_file s n = s\<lparr>data := (\<lambda>a. if a < min n (disk_len s) then data s a else 0),
     disk_len := n\<rparr>"

definition mmap_file :: "edb \<Rightarrow> edb" where
  "mmap_file s = s\<lparr>mapped := True, prot_write := \<not> readonly s, epoch := Suc (epoch s)\<rparr>"

text \<open>The path to the label \<open>err\<close> of \<open>io_resize\<close>.\<close>

definition io_resize_err :: "edb \<Rightarrow> edb" where
  "io_resize_err s = (io_map_close s)\<lparr>filesize := 0, nblocks := 0\<rparr>"

text \<open>
  The new size is the u32 product \<open>nblocks << BLOCK_BITS\<close> before it is widened to u64, so it
  wraps around at 4 GiB.
\<close>

definition io_resize :: "os \<Rightarrow> edb \<Rightarrow> u32 \<Rightarrow> int \<times> edb" where
  "io_resize os s nb =
     (if 0xffffff00 \<le> nb then (EDB_ERR_IO_SIZE_MAX, s)
      else let fsize = (ucast (push_bit 12 nb) :: u64);
               n = unat fsize;
               s = io_map_close s
           in if filesize s < fsize \<and> \<not> os_falloc os (h_file s) n then (-11, io_resize_err s)
              else let s = (if filesize s < fsize then falloc_file s n else s)
                   in if fsize < filesize s \<and> \<not> os_ftruncate os (h_file s) n
                      then (-12, io_resize_err s)
                      else let s = (if fsize < filesize s then ftruncate_file s n else s)
                           in if n = 0 \<or> \<not> os_mmap os (h_file s) n then (-9, io_resize_err s)
                              else (0, (mmap_file s)\<lparr>filesize := fsize, nblocks := nb\<rparr>))"

text \<open>The path to the label \<open>err\<close> of \<open>io_open\<close>: the handle ends up zeroed.\<close>

definition io_open_err :: "int \<Rightarrow> int \<times> edb" where
  "io_open_err err = (err, zero_edb)"

definition io_open :: "os \<Rightarrow> string \<Rightarrow> bool \<Rightarrow> bool \<Rightarrow> int \<times> edb" where
  "io_open os fname ro overwrite =
     (if ro \<and> overwrite then io_open_err (-4)
      else let fd = os_open os fname ro overwrite;
               s = zero_edb\<lparr>readonly := ro, h_file := fd\<rparr>
           in if fd < 0 then io_open_err EDB_ERR_IO_FILE_OPEN
              else if os_fstat os fd < 0 then io_open_err EDB_ERR_IO_FILE_SIZE
              else let s = s\<lparr>filesize := os_size os fd, disk_len := unat (os_size os fd),
                             data := os_content os fd\<rparr>
                   in if filesize s AND 4095 \<noteq> 0 then io_open_err (-5)
                      else let nb = (ucast (drop_bit 12 (filesize s)) :: u32);
                               (err, s) = io_resize os s (if nb = 0 then 1 else nb)
                           in if err \<noteq> 0 then io_open_err err else (0, s))"

subsection \<open>What resizing does\<close>

text \<open>The size in bytes is computed in 32 bits\<close>

lemma push_bit_wraps: "unat (ucast (push_bit 12 (nb :: u32)) :: u64) = 4096 * (unat nb mod 2 ^ 20)"
proof -
  have "unat (push_bit 12 nb) = (unat nb * 2 ^ 12) mod 2 ^ 32"
    by (simp add: push_bit_eq_mult unat_word_ariths)
  also have "\<dots> = 2 ^ 12 * (unat nb mod 2 ^ 20)"
    using mult_mod_right [of "2 ^ 12 :: nat" "unat nb" "2 ^ 20"] by (simp add: mult.commute)
  finally have p: "unat (push_bit 12 nb) = 4096 * (unat nb mod 2 ^ 20)" by simp
  moreover have "unat (ucast (push_bit 12 nb) :: u64) = take_bit 64 (unat (push_bit 12 nb))"
    by (simp add: unsigned_ucast_eq)
  moreover have "unat (push_bit 12 nb) < 2 ^ 64" unfolding p using mod_less_divisor [of "2 ^ 20" "unat nb"] by simp
  ultimately show ?thesis by (simp add: take_bit_nat_eq_self)
qed

lemma unat_push_bit_12:
  "unat nb < 2 ^ 20 \<Longrightarrow> unat (ucast (push_bit 12 (nb :: u32)) :: u64) = 4096 * unat nb"
  by (simp add: push_bit_wraps)

lemma io_resize_grow:
  assumes nb: "nblocks s \<le> nb" "unat nb < 2 ^ 20" "0 < unat nb"
    and s: "unat (filesize s) = 4096 * unat (nblocks s)" "disk_len s = unat (filesize s)"
    and os: "\<And>n. os_falloc os (h_file s) n" "\<And>n. os_mmap os (h_file s) n"
  shows "\<exists>s'. io_resize os s nb = (0, s') \<and> mapped s' \<and> prot_write s' = (\<not> readonly s) \<and>
    nblocks s' = nb \<and> unat (filesize s') = 4096 * unat nb \<and> disk_len s' = unat (filesize s') \<and>
    (\<forall>a < disk_len s. data s' a = data s a) \<and>
    (\<forall>a. disk_len s \<le> a \<longrightarrow> nblocks s < nb \<longrightarrow> data s' a = 0) \<and>
    readonly s' = readonly s \<and> h_file s' = h_file s \<and> freelist s' = freelist s \<and>
    objlist s' = objlist s \<and> txn_id s' = txn_id s \<and> txn s' = txn s \<and> epoch s' = Suc (epoch s)"
proof -
  have f: "unat (ucast (push_bit 12 nb) :: u64) = 4096 * unat nb" by (rule unat_push_bit_12 [OF nb(2)])
  have le: "unat (nblocks s) \<le> unat nb" using nb(1) by (simp add: word_le_nat_alt)
  have max: "\<not> 0xffffff00 \<le> nb" using nb(2) by (simp add: word_le_nat_alt)
  have c: "filesize s < ucast (push_bit 12 nb) \<longleftrightarrow> nblocks s < nb"
    "\<not> ucast (push_bit 12 nb) < filesize s"
    using f s le by (simp_all add: word_less_nat_alt)
  show ?thesis
  proof (cases "nblocks s < nb")
    case True
    then show ?thesis
      using f s nb(3) max c os
      by (simp add: io_resize_def io_map_close_def falloc_file_def mmap_file_def Let_def
          word_less_nat_alt)
  next
    case False
    then have "nb = nblocks s" using nb(1) by simp
    then show ?thesis
      using f s nb(3) max c os False
      by (simp add: io_resize_def io_map_close_def mmap_file_def Let_def)
  qed
qed

end
