(* ===== verification/Page.thy ===== *)
theory Page
  imports Core
begin

text \<open>
  Page tables (\<open>src/src/page.h\<close>, \<open>src/src/page.c\<close>): a block whose first half lists
  up to 512 data blocks directly, whose second half lists index pages of 1024 data blocks
  each, and whose last word is the number of data blocks.  That word is also the last slot
  of the list of index pages.  Each function takes the block API as its first argument and
  re-reads the table after every call of it, as the code does.
\<close>

abbreviation EDB_ERR_PAGE_OUT_OF_BOUNDS :: int where "EDB_ERR_PAGE_OUT_OF_BOUNDS \<equiv> 3101"

definition LEVEL_ONE :: u32 where "LEVEL_ONE = 512"

definition INDEX0 :: "u32 \<Rightarrow> u32" where
  "INDEX0 index = drop_bit 10 (index - LEVEL_ONE)"

definition INDEX1 :: "u32 \<Rightarrow> u32" where
  "INDEX1 index = (index - LEVEL_ONE) AND 1023"

subsection \<open>Fields of a page table and of an index page\<close>

text \<open>An index past the end of one of the arrays is undefined.\<close>

definition pt_nblocks :: "edb \<Rightarrow> ptr \<Rightarrow> u32 option" where
  "pt_nblocks s pt = rd32 s pt 4092"

definition pt_set_nblocks :: "edb \<Rightarrow> ptr \<Rightarrow> u32 \<Rightarrow> edb option" where
  "pt_set_nblocks s pt v = wr32 s pt 4092 v"

definition pt_data_block :: "edb \<Rightarrow> ptr \<Rightarrow> nat \<Rightarrow> u32 option" where
  "pt_data_block s pt i = (if i < 512 then rd32 s pt (4 * i) else None)"

definition pt_set_data_block :: "edb \<Rightarrow> ptr \<Rightarrow> nat \<Rightarrow> u32 \<Rightarrow> edb option" where
  "pt_set_data_block s pt i v = (if i < 512 then wr32 s pt (4 * i) v else None)"

definition pt_index_block :: "edb \<Rightarrow> ptr \<Rightarrow> nat \<Rightarrow> u32 option" where
  "pt_index_block s pt i = (if i < 512 then rd32 s pt (2048 + 4 * i) else None)"

definition pt_set_index_block :: "edb \<Rightarrow> ptr \<Rightarrow> nat \<Rightarrow> u32 \<Rightarrow> edb option" where
  "pt_set_index_block s pt i v = (if i < 512 then wr32 s pt (2048 + 4 * i) v else None)"

definition ip_data_block :: "edb \<Rightarrow> ptr \<Rightarrow> nat \<Rightarrow> u32 option" where
  "ip_data_block s ip i = (if i < 1024 then rd32 s ip (4 * i) else None)"

definition ip_set_data_block :: "edb \<Rightarrow> ptr \<Rightarrow> nat \<Rightarrow> u32 \<Rightarrow> edb option" where
  "ip_set_data_block s ip i v = (if i < 1024 then wr32 s ip (4 * i) v else None)"

subsection \<open>Operations\<close>

definition page_read_host_index :: "edb \<Rightarrow> u32 \<Rightarrow> u32 \<Rightarrow> (int \<times> u32) option" where
  "page_read_host_index s root index =
     do { n \<leftarrow> pt_nblocks s (BLOCK s root);
          if n \<le> index then Some (EDB_ERR_PAGE_OUT_OF_BOUNDS, -1)
          else if n = 0 then Some (0, root)
          else if index < LEVEL_ONE then
            do { b \<leftarrow> pt_data_block s (BLOCK s root) (unat index); Some (0, b) }
          else
            do { ib \<leftarrow> pt_index_block s (BLOCK s root) (unat (INDEX0 index));
                 b \<leftarrow> ip_data_block s (BLOCK s ib) (unat (INDEX1 index));
                 Some (0, b) } }"

definition page_write_host_index ::
  "block_api \<Rightarrow> edb \<Rightarrow> u32 \<Rightarrow> u32 \<Rightarrow> (int \<times> u32 \<times> edb) option"
where
  "page_write_host_index api s root index =
     do { n \<leftarrow> pt_nblocks s (BLOCK s root);
          if n \<le> index then Some (EDB_ERR_PAGE_OUT_OF_BOUNDS, -1, s)
          else if n = 0 then
            do { (err, root, s) \<leftarrow> api_modify api s root;
                 if err \<noteq> 0 then Some (err, -1, s) else Some (0, root, s) }
          else if index < LEVEL_ONE then
            do { (err, root, s) \<leftarrow> api_modify api s root;
                 if err \<noteq> 0 then Some (err, -1, s)
                 else do { b \<leftarrow> pt_data_block s (BLOCK s root) (unat index);
                           (err, b, s) \<leftarrow> api_modify api s b;
                           if err \<noteq> 0 then Some (err, -1, s) else Some (0, b, s) } }
          else
            do { (err, root, s) \<leftarrow> api_modify api s root;
                 if err \<noteq> 0 then Some (err, -1, s)
                 else do { ib \<leftarrow> pt_index_block s (BLOCK s root) (unat (INDEX0 index));
                           (err, ib, s) \<leftarrow> api_modify api s ib;
                           if err \<noteq> 0 then Some (err, -1, s)
                           else do { b \<leftarrow> ip_data_block s (BLOCK s ib) (unat (INDEX1 index));
                                     (err, b, s) \<leftarrow> api_modify api s b;
                                     if err \<noteq> 0 then Some (err, -1, s)
                                     else Some (0, b, s) } } } }"

definition page_init :: "edb \<Rightarrow> u32 \<Rightarrow> edb option" where
  "page_init s root = wr_bytes s (BLOCK s root) 0 (replicate 4096 0)"

text \<open>The four loops of \<open>page_resize\<close>, in the order of the code.\<close>

partial_function (option) page_grow_data ::
  "block_api \<Rightarrow> u32 \<Rightarrow> u32 \<Rightarrow> edb \<Rightarrow> (int \<times> edb) option"
where
  "page_grow_data api root n s =
     do { k \<leftarrow> pt_nblocks s (BLOCK s root);
          if k < n \<and> k < LEVEL_ONE then
            do { (err, new_block, s) \<leftarrow> api_alloc api s;
                 if err \<noteq> 0 then Some (err, s)
                 else do { k \<leftarrow> pt_nblocks s (BLOCK s root);
                           s \<leftarrow> pt_set_nblocks s (BLOCK s root) (k + 1);
                           s \<leftarrow> pt_set_data_block s (BLOCK s root) (unat k) new_block;
                           page_grow_data api root n s } }
          else Some (0, s) }"

partial_function (option) page_grow_index ::
  "block_api \<Rightarrow> u32 \<Rightarrow> u32 \<Rightarrow> edb \<Rightarrow> (int \<times> edb) option"
where
  "page_grow_index api root n s =
     do { k \<leftarrow> pt_nblocks s (BLOCK s root);
          if k < n then
            do { index_block \<leftarrow> pt_index_block s (BLOCK s root) (unat (INDEX0 k));
                 (err, index_block, s) \<leftarrow>
                   (if index_block = 0 then api_alloc api s else api_modify api s index_block);
                 if err \<noteq> 0 then Some (err, s)
                 else do { s \<leftarrow> pt_set_index_block s (BLOCK s root) (unat (INDEX0 k)) index_block;
                           (err, new_block, s) \<leftarrow> api_alloc api s;
                           if err \<noteq> 0 then Some (err, s)
                           else do { s \<leftarrow> ip_set_data_block s (BLOCK s index_block)
                                            (unat (INDEX1 k)) new_block;
                                     k' \<leftarrow> pt_nblocks s (BLOCK s root);
                                     s \<leftarrow> pt_set_nblocks s (BLOCK s root) (k' + 1);
                                     page_grow_index api root n s } } }
          else Some (0, s) }"

partial_function (option) page_shrink_index ::
  "block_api \<Rightarrow> u32 \<Rightarrow> u32 \<Rightarrow> edb \<Rightarrow> (int \<times> edb) option"
where
  "page_shrink_index api root n s =
     do { k \<leftarrow> pt_nblocks s (BLOCK s root);
          if n < k \<and> LEVEL_ONE < k then
            do { index_block \<leftarrow> pt_index_block s (BLOCK s root) (unat (INDEX0 (k - 1)));
                 data_block \<leftarrow> ip_data_block s (BLOCK s index_block) (unat (INDEX1 (k - 1)));
                 (err, s) \<leftarrow> api_free api s data_block;
                 if err \<noteq> 0 then Some (err, s)
                 else do { s \<leftarrow> ip_set_data_block s (BLOCK s index_block) (unat (INDEX1 (k - 1))) 0;
                           k' \<leftarrow> pt_nblocks s (BLOCK s root);
                           (err, index_block, s) \<leftarrow>
                             (if INDEX1 (k' - 1) = 0
                              then do { (err, s) \<leftarrow> api_free api s index_block; Some (err, 0, s) }
                              else api_modify api s index_block);
                           if err \<noteq> 0 then Some (err, s)
                           else do { s \<leftarrow> pt_set_index_block s (BLOCK s root)
                                            (unat (INDEX0 (k - 1))) index_block;
                                     k' \<leftarrow> pt_nblocks s (BLOCK s root);
                                     s \<leftarrow> pt_set_nblocks s (BLOCK s root) (k' - 1);
                                     page_shrink_index api root n s } } }
          else Some (0, s) }"

partial_function (option) page_shrink_data ::
  "block_api \<Rightarrow> u32 \<Rightarrow> u32 \<Rightarrow> edb \<Rightarrow> (int \<times> edb) option"
where
  "page_shrink_data api root n s =
     do { k \<leftarrow> pt_nblocks s (BLOCK s root);
          if n < k then
            do { data_block \<leftarrow> pt_data_block s (BLOCK s root) (unat (k - 1));
                 (err, s) \<leftarrow> api_free api s data_block;
                 if err \<noteq> 0 then Some (err, s)
                 else do { k' \<leftarrow> pt_nblocks s (BLOCK s root);
                           s \<leftarrow> pt_set_nblocks s (BLOCK s root) (k' - 1);
                           s \<leftarrow> pt_set_data_block s (BLOCK s root) (unat (k' - 1)) 0;
                           page_shrink_data api root n s } }
          else Some (0, s) }"

declare page_grow_data.simps [code] page_grow_index.simps [code]
declare page_shrink_index.simps [code] page_shrink_data.simps [code]

definition page_resize :: "block_api \<Rightarrow> edb \<Rightarrow> u32 \<Rightarrow> u32 \<Rightarrow> (int \<times> edb) option" where
  "page_resize api s root n =
     do { (err, root, s) \<leftarrow> api_modify api s root;
          if err \<noteq> 0 then Some (err, s)
          else do { (err, s) \<leftarrow> page_grow_data api root n s;
          if err \<noteq> 0 then Some (err, s)
          else do { (err, s) \<leftarrow> page_grow_index api root n s;
          if err \<noteq> 0 then Some (err, s)
          else do { (err, s) \<leftarrow> page_shrink_index api root n s;
          if err \<noteq> 0 then Some (err, s)
          else page_shrink_data api root n s } } } }"

end
