(* ===== verification/Edb_Array.thy ===== *)
theory Edb_Array
  imports Page
begin

text \<open>
  Arrays of fixed-size items (\<open>src/src/array.h\<close>, \<open>src/src/array.c\<close>).  The root block of an
  array is a page table with a header in its last 12 bytes: the item size, the length and
  the number of data blocks.  While that number is 0 the array is small and its items lie in
  the first 4084 bytes of the root itself; otherwise they lie in the data blocks.

  Pointers to the root (\<open>pt\<close>) are computed where the code computes them, so that a use
  after a call that remapped the file is undefined.  Item sizes of 0 are a division by zero.
  \<open>malloc\<close> is taken to succeed.  A buffer of the caller is a list of bytes.
\<close>

abbreviation ERR_ARRAY_INDEX_OUT_OF_BOUNDS :: int where "ERR_ARRAY_INDEX_OUT_OF_BOUNDS \<equiv> 3201"

subsection \<open>Fields of the header\<close>

definition pt_item_size :: "edb \<Rightarrow> ptr \<Rightarrow> u8 option" where
  "pt_item_size s pt = rd8 s pt 4084"

definition pt_set_item_size :: "edb \<Rightarrow> ptr \<Rightarrow> u8 \<Rightarrow> edb option" where
  "pt_set_item_size s pt v = wr8 s pt 4084 v"

definition pt_length :: "edb \<Rightarrow> ptr \<Rightarrow> u32 option" where
  "pt_length s pt = rd32 s pt 4088"

definition pt_set_length :: "edb \<Rightarrow> ptr \<Rightarrow> u32 \<Rightarrow> edb option" where
  "pt_set_length s pt v = wr32 s pt 4088 v"

text \<open>\<open>BLOCK_SIZE - sizeof(array_header) - sizeof(page_header)\<close>\<close>

definition ARRAY_DATA_SIZE :: nat where "ARRAY_DATA_SIZE = 4084"

definition small_capacity :: "u8 \<Rightarrow> u32 option" where
  "small_capacity sz = (if sz = 0 then None else Some (word_of_nat (ARRAY_DATA_SIZE div unat sz)))"

definition items_per_block :: "u8 \<Rightarrow> u32 option" where
  "items_per_block sz = (if sz = 0 then None else Some (word_of_nat (BLOCK_SIZE div unat sz)))"

subsection \<open>Operations\<close>

definition array_init :: "edb \<Rightarrow> u32 \<Rightarrow> u8 \<Rightarrow> (int \<times> edb) option" where
  "array_init s root item_size =
     do { s \<leftarrow> page_init s root;
          s \<leftarrow> pt_set_item_size s (BLOCK s root) item_size;
          Some (0, s) }"

definition array_length :: "edb \<Rightarrow> u32 \<Rightarrow> u32 option" where
  "array_length s root = pt_length s (BLOCK s root)"

definition array_capacity :: "edb \<Rightarrow> u32 \<Rightarrow> u32 option" where
  "array_capacity s root =
     do { n \<leftarrow> pt_nblocks s (BLOCK s root);
          sz \<leftarrow> pt_item_size s (BLOCK s root);
          if n = 0 then small_capacity sz
          else do { ipb \<leftarrow> items_per_block sz; Some (n * ipb) } }"

text \<open>\<open>memcpy\<close> of \<open>n\<close> bytes from a buffer of which \<open>length buf\<close> bytes were filled.\<close>

definition copy_back :: "edb \<Rightarrow> ptr \<Rightarrow> nat \<Rightarrow> u8 list \<Rightarrow> edb option" where
  "copy_back s p n buf = do { require (n \<le> length buf); wr_bytes s p 0 (take n buf) }"

text \<open>The two ways of \<open>array_resize\<close>: to a small array, and to a number of data blocks.\<close>

definition array_shrink_small ::
  "block_api \<Rightarrow> edb \<Rightarrow> u32 \<Rightarrow> u32 \<Rightarrow> (int \<times> edb) option"
where
  "array_shrink_small api s root small =
     do { let pt = BLOCK s root;
          (err, first_page, s) \<leftarrow> page_write_host_index api s root 0;
          if err \<noteq> 0 then Some (err, s)
          else do { sz \<leftarrow> pt_item_size s pt;
                    buf \<leftarrow> rd_bytes s (BLOCK s first_page) 0 (unat (small * ucast sz));
                    (err, s) \<leftarrow> page_resize api s root 0;
                    if err \<noteq> 0 then Some (err, s)
                    else do { sz \<leftarrow> pt_item_size s (BLOCK s root);
                              s \<leftarrow> copy_back s (BLOCK s root) (unat (small * ucast sz)) buf;
                              Some (0, s) } } }"

definition array_resize_blocks ::
  "block_api \<Rightarrow> edb \<Rightarrow> u32 \<Rightarrow> u32 \<Rightarrow> u32 \<Rightarrow> (int \<times> ptr \<times> edb) option"
where
  "array_resize_blocks api s root small nb =
     do { let pt = BLOCK s root;
          n \<leftarrow> pt_nblocks s pt;
          sz \<leftarrow> pt_item_size s pt;
          (buf, s) \<leftarrow>
            (if n = 0
             then do { buf \<leftarrow> rd_bytes s pt 0 (unat (small * ucast sz));
                       s \<leftarrow> wr_bytes s pt 0 (replicate (unat (small * ucast sz)) 0);
                       Some (buf, s) }
             else Some ([], s));
          (err, s) \<leftarrow> page_resize api s root nb;
          if err \<noteq> 0 then Some (err, pt, s)
          else do { let pt = BLOCK s root;
                    if n = 0
                    then do { (err, first_page, s) \<leftarrow> page_write_host_index api s root 0;
                              if err \<noteq> 0 then Some (err, pt, s)
                              else do { sz \<leftarrow> pt_item_size s pt;
                                        s \<leftarrow> copy_back s (BLOCK s first_page)
                                               (unat (small * ucast sz)) buf;
                                        Some (0, pt, s) } }
                    else Some (0, pt, s) } }"

definition array_resize :: "block_api \<Rightarrow> edb \<Rightarrow> u32 \<Rightarrow> u32 \<Rightarrow> (int \<times> edb) option" where
  "array_resize api s root capacity =
     do { let pt = BLOCK s root;
          current \<leftarrow> array_capacity s root;
          if capacity = current then Some (0, s)
          else do { sz \<leftarrow> pt_item_size s pt;
                    small \<leftarrow> small_capacity sz;
                    if capacity \<le> small
                    then do { n \<leftarrow> pt_nblocks s pt;
                              (err, s) \<leftarrow> (if n \<noteq> 0 then array_shrink_small api s root small
                                         else Some (0, s));
                              if err \<noteq> 0 then Some (err, s)
                              else do { len \<leftarrow> pt_length s (BLOCK s root);
                                        s \<leftarrow> (if small < len
                                             then pt_set_length s (BLOCK s root) small
                                             else Some s);
                                        Some (0, s) } }
                    else do { ipb \<leftarrow> items_per_block sz;
                              let nb = (capacity + ipb - 1) div ipb;
                              let new_capacity = nb * ipb;
                              n \<leftarrow> pt_nblocks s pt;
                              (err, pt, s) \<leftarrow> (if n = nb then Some (0, pt, s)
                                             else array_resize_blocks api s root small nb);
                              if err \<noteq> 0 then Some (err, s)
                              else do { len \<leftarrow> pt_length s pt;
                                        s \<leftarrow> (if new_capacity < len
                                             then pt_set_length s pt new_capacity
                                             else Some s);
                                        Some (0, s) } } } }"

text \<open>
  \<open>array_data\<close> returns a pointer to an item, or \<open>NULL\<close> (the inner \<open>None\<close>).  It asks for
  write access even when \<open>array_get\<close> calls it, and aborts when that fails.
\<close>

definition array_data :: "block_api \<Rightarrow> edb \<Rightarrow> u32 \<Rightarrow> u32 \<Rightarrow> (ptr option \<times> edb) option" where
  "array_data api s root index =
     do { let pt = BLOCK s root;
          len \<leftarrow> pt_length s pt;
          if len \<le> index then Some (None, s)
          else do { n \<leftarrow> pt_nblocks s pt;
                    if n = 0
                    then do { sz \<leftarrow> pt_item_size s pt;
                              Some (Some (fst pt, snd pt + unat (index * ucast sz)), s) }
                    else do { sz \<leftarrow> pt_item_size s pt;
                              ipb \<leftarrow> items_per_block sz;
                              (err, page, s) \<leftarrow> page_write_host_index api s root (index div ipb);
                              if err \<noteq> 0 then None
                              else do { let block = BLOCK s page;
                                        sz \<leftarrow> pt_item_size s pt;
                                        Some (Some (fst block,
                                          snd block + unat ((index mod ipb) * ucast sz)), s) } } } }"

definition array_get ::
  "block_api \<Rightarrow> edb \<Rightarrow> u32 \<Rightarrow> u32 \<Rightarrow> (int \<times> u8 list \<times> edb) option"
where
  "array_get api s root index =
     do { let pt = BLOCK s root;
          (element, s) \<leftarrow> array_data api s root index;
          case element of
            None \<Rightarrow> Some (ERR_ARRAY_INDEX_OUT_OF_BOUNDS, [], s)
          | Some p \<Rightarrow> do { sz \<leftarrow> pt_item_size s pt;
                           d \<leftarrow> rd_bytes s p 0 (unat sz);
                           Some (0, d, s) } }"

definition array_set ::
  "block_api \<Rightarrow> edb \<Rightarrow> u32 \<Rightarrow> u32 \<Rightarrow> u8 list \<Rightarrow> (int \<times> edb) option"
where
  "array_set api s root index d =
     do { let pt = BLOCK s root;
          (element, s) \<leftarrow> array_data api s root index;
          case element of
            None \<Rightarrow> Some (ERR_ARRAY_INDEX_OUT_OF_BOUNDS, s)
          | Some p \<Rightarrow> do { sz \<leftarrow> pt_item_size s pt;
                           require (unat sz \<le> length d);
                           s \<leftarrow> wr_bytes s p 0 (take (unat sz) d);
                           Some (0, s) } }"

definition array_push :: "block_api \<Rightarrow> edb \<Rightarrow> u32 \<Rightarrow> u8 list \<Rightarrow> (int \<times> edb) option" where
  "array_push api s root d =
     do { let pt = BLOCK s root;
          capacity \<leftarrow> array_capacity s root;
          len \<leftarrow> pt_length s pt;
          (err, pt, s) \<leftarrow>
            (if capacity < len + 1
             then do { (err, s) \<leftarrow> array_resize api s root (len + 1);
                       Some (err, BLOCK s root, s) }
             else Some (0, pt, s));
          if err \<noteq> 0 then Some (err, s)
          else do { len \<leftarrow> pt_length s pt;
                    s \<leftarrow> pt_set_length s pt (len + 1);
                    len \<leftarrow> pt_length s pt;
                    array_set api s root (len - 1) d } }"

definition array_pop :: "block_api \<Rightarrow> edb \<Rightarrow> u32 \<Rightarrow> (int \<times> u8 list \<times> edb) option" where
  "array_pop api s root =
     do { let pt = BLOCK s root;
          len \<leftarrow> pt_length s pt;
          (err, d, s) \<leftarrow> array_get api s root (len - 1);
          if err \<noteq> 0 then Some (err, d, s)
          else do { len \<leftarrow> pt_length s pt;
                    s \<leftarrow> pt_set_length s pt (len - 1);
                    Some (0, d, s) } }"

end
