(* ===== verification/Math.thy ===== *)
theory Math
  imports Prelude
begin

text \<open>\<open>next_power_of_two\<close> of \<open>src/src/math.h\<close>: the step by which the file grows.\<close>

definition next_power_of_two :: "u32 \<Rightarrow> u32" where
  "next_power_of_two x0 =
     (let x1 = x0 OR drop_bit 1 x0;
          x2 = x1 OR drop_bit 2 x1;
          x3 = x2 OR drop_bit 4 x2;
          x4 = x3 OR drop_bit 8 x3;
          x5 = x4 OR drop_bit 16 x4
      in x5 + 1)"

text \<open>After the round with shift \<open>w\<close> a bit is set if one of the \<open>2 * w\<close> bits from it up was.\<close>

definition smeared :: "u32 \<Rightarrow> nat \<Rightarrow> u32 \<Rightarrow> bool" where
  "smeared x w y \<longleftrightarrow> (\<forall>n. bit y n \<longleftrightarrow> (\<exists>k < w. bit x (n + k)))"

lemma smeared_refl: "smeared x 1 x"
  by (simp add: smeared_def)

lemma smeared_step:
  assumes "smeared x w y" and "w2 = w + w"
  shows "smeared x w2 (y OR drop_bit w y)"
proof -
  have "(\<exists>k < w + w. bit x (n + k)) \<longleftrightarrow> (\<exists>k < w. bit x (n + k)) \<or> (\<exists>k < w. bit x (n + w + k))" for n
  proof
    assume "\<exists>k < w + w. bit x (n + k)"
    then obtain k where k: "k < w + w" "bit x (n + k)" by blast
    show "(\<exists>k < w. bit x (n + k)) \<or> (\<exists>k < w. bit x (n + w + k))"
    proof (cases "k < w")
      case False
      then have "k - w < w" "bit x (n + w + (k - w))" using k by simp_all
      then show ?thesis by blast
    qed (use k in blast)
  next
    assume "(\<exists>k < w. bit x (n + k)) \<or> (\<exists>k < w. bit x (n + w + k))"
    then show "\<exists>k < w + w. bit x (n + k)"
    proof
      assume "\<exists>k < w. bit x (n + w + k)"
      then obtain k where "k < w" "bit x (n + (w + k))" by (auto simp: add.assoc)
      then show ?thesis by (intro exI [of _ "w + k"]) simp
    qed (meson trans_less_add1)
  qed
  then show ?thesis using assms by (simp add: smeared_def bit_or_iff bit_drop_bit_eq add.commute)
qed

lemma next_power_of_two_smear:
  "\<exists>y. smeared x 32 y \<and> next_power_of_two x = y + 1"
proof -
  define x1 where "x1 = x OR drop_bit 1 x"
  define x2 where "x2 = x1 OR drop_bit 2 x1"
  define x3 where "x3 = x2 OR drop_bit 4 x2"
  define x4 where "x4 = x3 OR drop_bit 8 x3"
  define x5 where "x5 = x4 OR drop_bit 16 x4"
  have "smeared x 2 x1" unfolding x1_def by (rule smeared_step [OF smeared_refl]) simp
  then have "smeared x 4 x2" unfolding x2_def by (rule smeared_step) simp
  then have "smeared x 8 x3" unfolding x3_def by (rule smeared_step) simp
  then have "smeared x 16 x4" unfolding x4_def by (rule smeared_step) simp
  then have "smeared x 32 x5" unfolding x5_def by (rule smeared_step) simp
  moreover have "next_power_of_two x = x5 + 1"
    unfolding next_power_of_two_def Let_def x5_def x4_def x3_def x2_def x1_def by (rule refl)
  ultimately show ?thesis by blast
qed

text \<open>A value of exactly \<open>n\<close> bits is smeared to a mask of \<open>n\<close> ones.\<close>

lemma smeared_mask:
  assumes y: "smeared x 32 y" and lo: "x \<noteq> 0 \<Longrightarrow> 2 ^ (n - 1) \<le> unat x" and hi: "unat x < 2 ^ n"
    and n: "n \<le> 32" "x = 0 \<Longrightarrow> n = 0"
  shows "y = mask n"
proof (rule bit_word_eqI)
  fix i assume i: "i < LENGTH(32)"
  have xbit: "bit x j \<longleftrightarrow> bit (unat x) j" for j
    by (simp add: bit_unsigned_iff)
  have top: "\<not> bit (unat x) j" if "n \<le> j" for j
  proof -
    have "unat x < 2 ^ j" using hi that by (meson less_le_trans one_le_numeral power_increasing)
    then show ?thesis by (simp add: bit_iff_odd)
  qed
  have low: "bit (unat x) (n - 1)" if "x \<noteq> 0"
  proof -
    have "n \<noteq> 0" using hi that by (cases n) (auto simp: unat_eq_0)
    then have "unat x < 2 ^ (n - 1) * 2" using hi by (cases n) simp_all
    then have "unat x div 2 ^ (n - 1) = 1" using lo [OF that]
      by (intro div_nat_eqI) (simp_all)
    then show ?thesis by (simp add: bit_iff_odd)
  qed
  show "bit y i \<longleftrightarrow> bit (mask n :: u32) i"
  proof (cases "i < n")
    case True
    then have x: "x \<noteq> 0" using n(2) by auto
    have "i + (n - 1 - i) = n - 1" "n - 1 - i < 32" using True n(1) by simp_all
    then have "bit y i" using y low [OF x] xbit unfolding smeared_def by metis
    then show ?thesis using True i by (simp add: bit_mask_iff)
  next
    case False
    then have "\<not> bit x (i + k)" for k using top [of "i + k"] xbit by simp
    then show ?thesis using y False by (simp add: smeared_def bit_mask_iff)
  qed
qed

lemma mask_plus_1: "n < 32 \<Longrightarrow> unat (mask n + 1 :: u32) = 2 ^ n"
proof -
  assume n: "n < 32"
  have "(mask n + 1 :: u32) = word_of_nat (2 ^ n)" by (simp add: mask_eq_exp_minus_1)
  moreover have "(2 :: nat) ^ n < 2 ^ 32" using n by (intro power_strict_increasing) simp_all
  ultimately show ?thesis by (simp only: unat_of_nat_u32)
qed

lemma next_power_of_two_range:
  assumes "2 ^ (n - 1) \<le> unat x" and "unat x < 2 ^ n" and "n \<le> 31" and "0 < n"
  shows "unat (next_power_of_two x) = 2 ^ n"
proof -
  obtain y where y: "smeared x 32 y" "next_power_of_two x = y + 1"
    using next_power_of_two_smear by blast
  have "x \<noteq> 0" using assms(1) by (metis not_less_zero not_one_le_zero unat_0 le_zero_eq power_not_zero zero_neq_numeral)
  then have "y = mask n" using smeared_mask [OF y(1)] assms by simp
  then show ?thesis using y(2) mask_plus_1 [of n] assms(3) by simp
qed

lemma next_power_of_two_0: "next_power_of_two 0 = 1"
  by (simp add: next_power_of_two_def)

end
