(* ===== verification/Txn.thy ===== *)
theory Txn
  imports Io Edb_Array Math
begin

text \<open>
  The freelist (\<open>src/src/freelist.c\<close>) and transactions (\<open>src/src/txn.c\<close>).

  A transaction records for each block it touched whether it allocated it, freed it or
  copied it from another block (copy on write).  The freelist is itself an array in the
  database, so that allocating a block calls the array code, which may ask for write access
  to a block, which may allocate a block.  The functions take the block API that they call
  as an argument, and \<open>txn_api\<close> at the end ties the knot with the depth of the calls that
  are left; \<open>Txn_Correct\<close> shows that depth 2 is enough.

  The list \<open>txn s\<close> is the linked list of transactions, the innermost first.
\<close>

definition ALLOCATED :: u32 where "ALLOCATED = 0xffffff01"
definition FREED :: u32 where "FREED = 0xffffff02"

abbreviation EDB_ERR_TXN_NO_TRANSACTION :: int where "EDB_ERR_TXN_NO_TRANSACTION \<equiv> 2001"
abbreviation EDB_ERR_TXN_INVALID_BLOCK :: int where "EDB_ERR_TXN_INVALID_BLOCK \<equiv> 2003"
abbreviation EDB_ERR_TXN_NOT_IMPLEMENTED :: int where "EDB_ERR_TXN_NOT_IMPLEMENTED \<equiv> 2099"

definition txn_state_new :: txn_state where
  "txn_state_new = \<lparr>ts_nblocks = 0, ts_blocks = mem_hash_new\<rparr>"

text \<open>\<open>mem_hash_get(db->txn->blocks, k)\<close> and \<open>mem_hash_set(db->txn->blocks, k, v)\<close>\<close>

definition get_state :: "edb \<Rightarrow> u32 \<Rightarrow> u32 option" where
  "get_state s k = (case txn s of [] \<Rightarrow> None | ts # _ \<Rightarrow> mem_hash_get (ts_blocks ts) k)"

definition set_state :: "edb \<Rightarrow> u32 \<Rightarrow> u32 \<Rightarrow> edb option" where
  "set_state s k v = (case txn s of [] \<Rightarrow> None
     | ts # rest \<Rightarrow> do { t \<leftarrow> mem_hash_set (ts_blocks ts) k v;
                       Some (s\<lparr>txn := ts\<lparr>ts_blocks := t\<rparr> # rest\<rparr>) })"

text \<open>A u32 as a buffer of four bytes, and back.\<close>

definition u32_bytes :: "u32 \<Rightarrow> u8 list" where
  "u32_bytes v = [ucast v, ucast (drop_bit 8 v), ucast (drop_bit 16 v), ucast (drop_bit 24 v)]"

definition bytes_u32 :: "u8 list \<Rightarrow> u32 option" where
  "bytes_u32 d = (if length d = 4 then Some (ld32 (\<lambda>i. d ! i) 0) else None)"

text \<open>\<open>memcpy\<close> of a whole block\<close>

definition copy_block :: "edb \<Rightarrow> u32 \<Rightarrow> u32 \<Rightarrow> edb option" where
  "copy_block s to from =
     do { bs \<leftarrow> rd_bytes s (BLOCK s from) 0 BLOCK_SIZE;
          wr_bytes s (BLOCK s to) 0 bs }"

subsection \<open>The freelist\<close>

text \<open>The loop that pushes the new blocks of a grown file.\<close>

partial_function (option) freelist_push_range :: "block_api \<Rightarrow> u32 \<Rightarrow> edb \<Rightarrow> (int \<times> edb) option" where
  "freelist_push_range api i s =
     (if i < nblocks s then
        do { (err, s) \<leftarrow> array_push api s (freelist s) (u32_bytes i);
             if err \<noteq> 0 then Some (err, s) else freelist_push_range api (i + 1) s }
      else Some (0, s))"

declare freelist_push_range.simps [code]

definition freelist_allocate_block :: "os \<Rightarrow> block_api \<Rightarrow> edb \<Rightarrow> (int \<times> u32 \<times> edb) option" where
  "freelist_allocate_block os api s =
     do { (err, fl, s) \<leftarrow> api_modify api s (freelist s);
          if err \<noteq> 0 then Some (err, 0, s)
          else do { let s = s\<lparr>freelist := fl\<rparr>;
                    len \<leftarrow> array_length s (freelist s);
                    if 0 < len
                    then do { (err, d, s) \<leftarrow> array_pop api s (freelist s);
                              if err \<noteq> 0 then Some (err, 0, s)
                              else do { b \<leftarrow> bytes_u32 d; Some (0, b, s) } }
                    else let nb = nblocks s;
                             step = next_power_of_two (drop_bit 3 nb);
                             (err, s) = io_resize os s ((nb + step) AND NOT (step - 1))
                         in if err \<noteq> 0 then Some (err, 0, s)
                            else do { (err, s) \<leftarrow> freelist_push_range api (nb + 1) s;
                                      if err \<noteq> 0 then Some (err, 0, s)
                                      else Some (0, nb, s) } } }"

text \<open>A block below \<open>EDB_USER_DATA\<close> is refused with its own number as the error code.\<close>

definition freelist_free_block :: "block_api \<Rightarrow> edb \<Rightarrow> u32 \<Rightarrow> (int \<times> edb) option" where
  "freelist_free_block api s block =
     (if block < EDB_USER_DATA then Some (uint block, s)
      else do { (err, fl, s) \<leftarrow> api_modify api s (freelist s);
                if err \<noteq> 0 then Some (err, s)
                else do { let s = s\<lparr>freelist := fl\<rparr>;
                          array_push api s (freelist s) (u32_bytes block) } })"

subsection \<open>Blocks in a transaction\<close>

definition txn_allocate_block :: "os \<Rightarrow> block_api \<Rightarrow> edb \<Rightarrow> (int \<times> u32 \<times> edb) option" where
  "txn_allocate_block os api s =
     (if txn s = [] then Some (EDB_ERR_TXN_NO_TRANSACTION, 0, s)
      else do { (err, b, s) \<leftarrow> freelist_allocate_block os api s;
                if err \<noteq> 0 then Some (err, 0, s)
                else do { s \<leftarrow> set_state s b ALLOCATED; Some (0, b, s) } })"

text \<open>The result of \<open>freelist_free_block\<close> is ignored in \<open>txn_free_block\<close>.\<close>

definition txn_free_block :: "block_api \<Rightarrow> edb \<Rightarrow> u32 \<Rightarrow> (int \<times> edb) option" where
  "txn_free_block api s block =
     (if txn s = [] then Some (EDB_ERR_TXN_NO_TRANSACTION, s)
      else do { st \<leftarrow> get_state s block;
                if st = ALLOCATED
                then do { s \<leftarrow> set_state s block 0;
                          (_, s) \<leftarrow> freelist_free_block api s block;
                          Some (0, s) }
                else if st = FREED then Some (EDB_ERR_TXN_INVALID_BLOCK, s)
                else if st \<noteq> 0
                then do { s \<leftarrow> set_state s block 0;
                          s \<leftarrow> set_state s st FREED;
                          (_, s) \<leftarrow> freelist_free_block api s block;
                          Some (0, s) }
                else do { s \<leftarrow> set_state s block FREED; Some (0, s) } })"

definition txn_modify_block :: "os \<Rightarrow> block_api \<Rightarrow> edb \<Rightarrow> u32 \<Rightarrow> (int \<times> u32 \<times> edb) option" where
  "txn_modify_block os api s block =
     (if txn s = [] then Some (EDB_ERR_TXN_NO_TRANSACTION, 0, s)
      else do { st \<leftarrow> get_state s block;
                if st = ALLOCATED then Some (0, block, s)
                else if st = FREED then Some (-1, 0, s)
                else if st \<noteq> 0 then Some (0, block, s)
                else do { (err, nb, s) \<leftarrow> freelist_allocate_block os api s;
                          if err \<noteq> 0 then Some (err, 0, s)
                          else do { s \<leftarrow> copy_block s nb block;
                                    s \<leftarrow> set_state s nb block;
                                    Some (0, nb, s) } } })"

text \<open>
  The mutual recursion of the transaction layer and the array code.  \<open>txn_api os d\<close> allows
  calls nested \<open>d\<close> deep; a deeper one is undefined.
\<close>

fun txn_api :: "os \<Rightarrow> nat \<Rightarrow> block_api" where
  "txn_api os 0 = \<lparr>api_alloc = (\<lambda>s. None), api_modify = (\<lambda>s b. None), api_free = (\<lambda>s b. None)\<rparr>"
| "txn_api os (Suc d) =
     \<lparr>api_alloc = txn_allocate_block os (txn_api os d),
      api_modify = txn_modify_block os (txn_api os d),
      api_free = txn_free_block (txn_api os d)\<rparr>"

subsection \<open>Begin\<close>

definition txn_begin_master :: "edb \<Rightarrow> (int \<times> edb) option" where
  "txn_begin_master s =
     (if freelist s \<noteq> EDB_FREELIST_PRIMARY then Some (3111, s)
      else if objlist s \<noteq> EDB_OBJLIST then Some (3112, s)
      else do { s \<leftarrow> copy_block s EDB_FREELIST_SECONDARY EDB_FREELIST_PRIMARY;
                s \<leftarrow> set_state s EDB_FREELIST_SECONDARY EDB_FREELIST_PRIMARY;
                Some (0, s\<lparr>freelist := EDB_FREELIST_SECONDARY\<rparr>) })"

definition txn_begin :: "block_api \<Rightarrow> edb \<Rightarrow> (int \<times> edb) option" where
  "txn_begin api s =
     (let ts = txn_state_new\<lparr>ts_nblocks := nblocks s\<rparr> in
      if txn s = []
      then do { (err, s) \<leftarrow> txn_begin_master (s\<lparr>txn := [ts]\<rparr>);
                if err \<noteq> 0 then Some (err, s) else Some (0, s\<lparr>txn_id := txn_id s + 1\<rparr>) }
      else do { (err, fl, s) \<leftarrow> api_modify api s (freelist s);
                let s = (if err = 0 then s\<lparr>freelist := fl\<rparr> else s);
                Some (EDB_ERR_TXN_NOT_IMPLEMENTED, s) })"

subsection \<open>Commit\<close>

text \<open>
  The loop over the block table of the outermost transaction.  Freeing a block may change
  that table, so each iteration reads the capacity and the entry again.
\<close>

partial_function (option) commit_master_loop :: "block_api \<Rightarrow> nat \<Rightarrow> edb \<Rightarrow> (int \<times> edb) option" where
  "commit_master_loop api i s =
     (let t = ts_blocks (hd (txn s)); e = mh_entries t ! i in
      if txn s = [] then None
      else if unat (mh_capacity t) \<le> i then Some (0, s)
      else if length (mh_entries t) \<le> i then None
      else if item_k e = 0 \<or> item_k e = EDB_FREELIST_SECONDARY then commit_master_loop api (Suc i) s
      else if item_k e = objlist s
      then do { s \<leftarrow> copy_block s EDB_OBJLIST (objlist s);
                (err, s) \<leftarrow> freelist_free_block api s (item_k e);
                if err \<noteq> 0 then Some (err, s)
                else commit_master_loop api (Suc i) (s\<lparr>objlist := EDB_OBJLIST\<rparr>) }
      else if item_v e = ALLOCATED then commit_master_loop api (Suc i) s
      else do { (err, s) \<leftarrow> freelist_free_block api s (if item_v e = FREED then item_k e else item_v e);
                if err \<noteq> 0 then Some (err, s) else commit_master_loop api (Suc i) s })"

declare commit_master_loop.simps [code]

definition txn_commit_master :: "block_api \<Rightarrow> edb \<Rightarrow> (int \<times> edb) option" where
  "txn_commit_master api s =
     (case txn s of
        [] \<Rightarrow> Some (EDB_ERR_TXN_NO_TRANSACTION, s)
      | _ # _ # _ \<Rightarrow> Some (-3, s)
      | [ts] \<Rightarrow>
          do { st \<leftarrow> mem_hash_get (ts_blocks ts) EDB_FREELIST_SECONDARY;
               if st \<noteq> EDB_FREELIST_PRIMARY then Some (-4, s)
               else do { (err, s) \<leftarrow> commit_master_loop api 0 s;
                         if err \<noteq> 0 then Some (err, s)
                         else do { s \<leftarrow> copy_block s EDB_FREELIST_PRIMARY (freelist s);
                                   Some (0, s\<lparr>freelist := EDB_FREELIST_PRIMARY, txn := [],
                                             txn_id := txn_id s + 1\<rparr>) } } })"

text \<open>\<open>mem_hash_set(parent->blocks, k, v)\<close> and the merge of an inner transaction into its parent\<close>

definition set_parent :: "edb \<Rightarrow> u32 \<Rightarrow> u32 \<Rightarrow> edb option" where
  "set_parent s k v = (case txn s of
       ts # parent # rest \<Rightarrow> do { t \<leftarrow> mem_hash_set (ts_blocks parent) k v;
                                  Some (s\<lparr>txn := ts # parent\<lparr>ts_blocks := t\<rparr> # rest\<rparr>) }
     | _ \<Rightarrow> None)"

definition get_parent :: "edb \<Rightarrow> u32 \<Rightarrow> u32 option" where
  "get_parent s k = (case txn s of
       ts # parent # rest \<Rightarrow> mem_hash_get (ts_blocks parent) k
     | _ \<Rightarrow> None)"

definition merge_entry :: "block_api \<Rightarrow> edb \<Rightarrow> u32 \<Rightarrow> u32 \<Rightarrow> (int \<times> edb) option" where
  "merge_entry api s k v =
     (if v = ALLOCATED then do { s \<leftarrow> set_parent s k ALLOCATED; Some (0, s) }
      else if v = FREED
      then do { old \<leftarrow> get_parent s k;
                if old = ALLOCATED
                then do { s \<leftarrow> set_parent s k 0;
                          (_, s) \<leftarrow> freelist_free_block api s k;
                          Some (0, s) }
                else if old = FREED then Some (-902, s)
                else if old \<noteq> 0
                then do { s \<leftarrow> set_parent s k 0; s \<leftarrow> set_parent s old FREED; Some (0, s) }
                else do { s \<leftarrow> set_parent s k FREED; Some (0, s) } }
      else do { old \<leftarrow> get_parent s v;
                if old = ALLOCATED
                then do { (_, s) \<leftarrow> freelist_free_block api s v; Some (0, s) }
                else if old = FREED then Some (-903, s)
                else if old \<noteq> 0
                then do { (_, s) \<leftarrow> freelist_free_block api s v;
                          s \<leftarrow> set_parent s k old;
                          Some (0, s) }
                else do { s \<leftarrow> set_parent s k v; Some (0, s) } })"

partial_function (option) commit_merge_loop :: "block_api \<Rightarrow> nat \<Rightarrow> edb \<Rightarrow> (int \<times> edb) option" where
  "commit_merge_loop api i s =
     (let t = ts_blocks (hd (txn s)); e = mh_entries t ! i in
      if txn s = [] then None
      else if unat (mh_capacity t) \<le> i then Some (0, s)
      else if length (mh_entries t) \<le> i then None
      else if item_k e = 0 then commit_merge_loop api (Suc i) s
      else do { (err, s) \<leftarrow> merge_entry api s (item_k e) (item_v e);
                if err \<noteq> 0 then Some (err, s) else commit_merge_loop api (Suc i) s })"

declare commit_merge_loop.simps [code]

definition txn_commit :: "block_api \<Rightarrow> edb \<Rightarrow> (int \<times> edb) option" where
  "txn_commit api s =
     (case txn s of
        [] \<Rightarrow> Some (EDB_ERR_TXN_NO_TRANSACTION, s)
      | [ts] \<Rightarrow> txn_commit_master api s
      | _ # _ # _ \<Rightarrow>
          do { (err, s) \<leftarrow> commit_merge_loop api 0 s;
               if err \<noteq> 0 then Some (err, s)
               else Some (0, s\<lparr>txn := tl (txn s), txn_id := txn_id s + 1\<rparr>) })"

subsection \<open>Abort\<close>

definition txn_abort_master :: "os \<Rightarrow> edb \<Rightarrow> (int \<times> edb) option" where
  "txn_abort_master os s =
     (case txn s of
        [] \<Rightarrow> None
      | ts # _ \<Rightarrow>
          let s = s\<lparr>freelist := EDB_FREELIST_PRIMARY, objlist := EDB_OBJLIST\<rparr>;
              (err, s) = io_resize os s (ts_nblocks ts)
          in if err \<noteq> 0 then Some (err, s)
             else Some (0, s\<lparr>txn := [], txn_id := txn_id s + 1\<rparr>))"

fun abort_loop :: "block_api \<Rightarrow> mem_hash_item list \<Rightarrow> edb \<Rightarrow> (int \<times> edb) option" where
  "abort_loop api [] s = Some (0, s)"
| "abort_loop api (e # es) s =
     (if item_k e = 0 \<or> item_v e = FREED then abort_loop api es s
      else do { (err, s) \<leftarrow> freelist_free_block api s (item_k e);
                if err \<noteq> 0 then Some (err, s) else abort_loop api es s })"

definition txn_abort :: "os \<Rightarrow> block_api \<Rightarrow> edb \<Rightarrow> (int \<times> edb) option" where
  "txn_abort os api s =
     (case txn s of
        [] \<Rightarrow> Some (EDB_ERR_TXN_NO_TRANSACTION, s)
      | [ts] \<Rightarrow> txn_abort_master os s
      | ts # parents \<Rightarrow>
          let (err, s) = io_resize os (s\<lparr>txn := parents\<rparr>) (ts_nblocks ts)
          in if err \<noteq> 0 then Some (err, s)
             else do { (err, s) \<leftarrow> abort_loop api (take (unat (mh_capacity (ts_blocks ts)))
                                                   (mh_entries (ts_blocks ts))) s;
                       if err \<noteq> 0 then Some (err, s)
                       else Some (0, s\<lparr>txn_id := txn_id s + 1\<rparr>) })"

end
