(* ===== verification/Mem_Hash_Correct.thy ===== *)
theory Mem_Hash_Correct
  imports Mem_Hash
begin

text \<open>
  Correctness of the hash table of \<open>Mem_Hash\<close>.  \<open>probe_covers\<close>: every slot is on the
  probe sequence of every key.  \<open>mh_inv\<close>: the table is empty, or its capacity is one of
  \<open>HASH_SIZES\<close>, at most half full plus one, its count is right, its free slots hold 0, and
  each stored key is at the first slot where its probe loop stops.  \<open>mh_map\<close> is the map
  that the table stores, 0 for an absent key.  The last subsection shows that
  \<open>mem_hash_set\<close> and \<open>mem_hash_get\<close> terminate, keep the invariant and are update and
  lookup of that map, through growth and rehashing.
\<close>


subsection \<open>Probing visits every slot\<close>

lemma even_unat: "even (unat (b :: u32)) \<longleftrightarrow> even b"
  using bit_unsigned_iff [of b 0] by (simp add: bit_0)

lemma odd_factor_cancel:
  assumes "(a :: u32) * b = 0" and "odd b"
  shows "a = 0"
proof -
  have "unat (a * b) = 0" using assms(1) by simp
  then have "2^32 dvd unat a * unat b"
    by (simp add: unat_word_ariths mod_eq_0_iff_dvd)
  moreover have "odd (unat b)" using assms(2) by (simp add: even_unat)
  then have "coprime (2^32) (unat b)" by (simp only: coprime_power_left_iff coprime_left_2_iff_odd) simp
  ultimately have "2^32 dvd unat a" by (simp add: coprime_dvd_mult_left_iff)
  then have "unat a = 0" using u32_lt [of a] by (meson dvd_imp_le linorder_not_less neq0_conv)
  then show ?thesis by (intro u32_eqI) simp
qed

lemma inj_on_pronic: "inj_on (\<lambda>i :: u32. i * i + i) {i. even i}"
proof (rule inj_onI)
  fix i j :: u32
  assume ij: "i \<in> {i. even i}" "j \<in> {i. even i}" and eq: "i * i + i = j * j + j"
  have "(i - j) * (i + j + 1) = (i * i + i) - (j * j + j)"
    by (simp add: algebra_simps)
  then have "(i - j) * (i + j + 1) = 0" by (simp add: eq)
  moreover have "odd (i + j + 1)" using ij by simp
  ultimately have "i - j = 0" by (rule odd_factor_cancel)
  then show "i = j" by simp
qed

lemma pronic_surj:
  assumes "even (c :: u32)"
  shows "\<exists>i :: u32. i * i + i = c"
proof -
  have "(\<lambda>i :: u32. i * i + i) ` {i. even i} = {i. even i}"
    by (rule endo_inj_surj [OF _ _ inj_on_pronic]) auto
  then show ?thesis using assms by (metis (mono_tags, lifting) imageE mem_Collect_eq)
qed

lemma probe_offset_surj:
  assumes "y < 2 ^ 31"
  shows "\<exists>i. mem_hash_probe h i = h + word_of_nat y"
proof -
  have y2: "unat (word_of_nat (2 * y) :: u32) = 2 * y"
    using assms by (intro unat_of_nat_u32) simp
  have "even (word_of_nat (2 * y) :: u32)" using y2 even_unat [of "word_of_nat (2 * y)"] by simp
  then obtain i :: u32 where i: "i * i + i = word_of_nat (2 * y)" using pronic_surj by blast
  have "unat ((word_of_nat (2 * y) :: u32) div 2) = y" using y2 by (simp add: unat_div)
  then have "(word_of_nat (2 * y) :: u32) div 2 = word_of_nat y" using assms
    by (intro u32_eqI) (simp add: unat_of_nat)
  then have "mem_hash_probe h i = h + word_of_nat y" using i by (simp add: mem_hash_probe_def)
  then show ?thesis by blast
qed

lemma probe_covers:
  assumes "0 < unat c" and "unat c \<le> 2 ^ 30" and "j < unat c"
  shows "\<exists>i. unat (mem_hash_probe h i mod c) = j"
proof -
  define p where "p = unat c"
  have "\<exists>y < 2 ^ 31. unat (h + word_of_nat y) mod p = j"
  proof (cases "unat h + p \<le> 2 ^ 32")
    case True
    define y where "y = (j + p - unat h mod p) mod p"
    have yp: "y < p" using assms(1) by (simp add: y_def p_def)
    then have "unat (word_of_nat y :: u32) = y" using assms(2) by (simp add: unat_of_nat p_def)
    then have "unat (h + word_of_nat y) = unat h + y"
      using True yp by (simp add: unat_add_u32)
    moreover have "(unat h + y) mod p = j"
    proof -
      have "unat h mod p \<le> j + p" using assms(1) by (simp add: p_def trans_le_add2)
      then have "(unat h mod p + (j + p - unat h mod p)) mod p = j"
        using assms(3) by (simp add: p_def)
      then show ?thesis by (simp add: y_def mod_simps)
    qed
    ultimately show ?thesis using yp assms(2) by (intro exI [of _ y]) (simp add: p_def)
  next
    case False
    define y where "y = 2 ^ 32 - unat h + j"
    have y: "y < 2 ^ 31" using False assms by (simp add: y_def p_def)
    have "unat (h + word_of_nat y) = (unat h + y) mod 2 ^ 32"
      using y by (simp add: unat_word_ariths unat_of_nat)
    also have "unat h + y = 2 ^ 32 + j" using u32_lt [of h] by (simp add: y_def)
    also have "(2 ^ 32 + j) mod 2 ^ 32 = j" using assms(2,3) by simp
    finally have "unat (h + word_of_nat y) mod p = j" using assms(3) by (simp add: p_def)
    with y show ?thesis by blast
  qed
  then obtain y where y: "y < 2 ^ 31" "unat (h + word_of_nat y) mod p = j" by blast
  obtain i where "mem_hash_probe h i = h + word_of_nat y" using probe_offset_surj [OF y(1)] by blast
  then have "unat (mem_hash_probe h i mod c) = j" using y(2) by (simp add: unat_mod p_def)
  then show ?thesis by blast
qed

subsection \<open>The probe loop returns the first slot that stops it\<close>

definition slot :: "mem_hash \<Rightarrow> u32 \<Rightarrow> nat \<Rightarrow> nat" where
  "slot t k d = unat (mem_hash_probe (mem_hash_hash k) (word_of_nat d) mod mh_capacity t)"

definition key_at :: "mem_hash \<Rightarrow> nat \<Rightarrow> u32" where
  "key_at t j = item_k (mh_entries t ! j)"

definition stops :: "mem_hash \<Rightarrow> u32 \<Rightarrow> nat \<Rightarrow> bool" where
  "stops t k j \<longleftrightarrow> key_at t j = 0 \<or> key_at t j = k"

definition first_stop :: "mem_hash \<Rightarrow> u32 \<Rightarrow> nat \<Rightarrow> bool" where
  "first_stop t k j \<longleftrightarrow>
     (\<exists>d. slot t k d = j \<and> stops t k j \<and> (\<forall>d' < d. \<not> stops t k (slot t k d')))"

definition mh_shape :: "mem_hash \<Rightarrow> bool" where
  "mh_shape t \<longleftrightarrow> 0 < unat (mh_capacity t) \<and> unat (mh_capacity t) \<le> 2 ^ 30 \<and>
     length (mh_entries t) = unat (mh_capacity t)"

lemma slot_lt: "mh_shape t \<Longrightarrow> slot t k d < length (mh_entries t)"
  by (simp add: slot_def mh_shape_def unat_mod)

lemma first_stop_unique:
  assumes "first_stop t k i" and "first_stop t k j"
  shows "i = j"
proof -
  obtain d where d: "slot t k d = i" "stops t k i" "\<forall>d' < d. \<not> stops t k (slot t k d')"
    using assms(1) by (auto simp: first_stop_def)
  obtain e where e: "slot t k e = j" "stops t k j" "\<forall>d' < e. \<not> stops t k (slot t k d')"
    using assms(2) by (auto simp: first_stop_def)
  have "d = e" using d e by (metis linorder_neqE_nat)
  then show ?thesis using d(1) e(1) by simp
qed

lemma mem_hash_find_from:
  assumes shape: "mh_shape t"
    and stop: "stops t k (slot t k (i + d))"
    and run: "\<forall>d' < d. \<not> stops t k (slot t k (i + d'))"
  shows "mem_hash_find t k (mem_hash_hash k) (word_of_nat i) = Some (slot t k (i + d))"
  using stop run
proof (induction d arbitrary: i)
  case 0
  then show ?case using shape slot_lt [OF shape, of k i]
    by (subst mem_hash_find.simps)
       (auto simp: slot_def [symmetric] stops_def key_at_def mh_shape_def Let_def)
next
  case (Suc d)
  have "\<not> stops t k (slot t k i)" using Suc.prems(2) by (metis add_0_right zero_less_Suc)
  then have "mem_hash_find t k (mem_hash_hash k) (word_of_nat i) =
      mem_hash_find t k (mem_hash_hash k) (word_of_nat (Suc i))"
    using shape slot_lt [OF shape, of k i]
    by (subst mem_hash_find.simps)
       (auto simp: slot_def [symmetric] stops_def key_at_def mh_shape_def Let_def add.commute)
  also have "\<dots> = Some (slot t k (Suc i + d))"
  proof (rule Suc.IH)
    show "stops t k (slot t k (Suc i + d))" using Suc.prems(1) by simp
    show "\<forall>d' < d. \<not> stops t k (slot t k (Suc i + d'))"
      using Suc.prems(2) by (metis Suc_less_eq add_Suc_shift)
  qed
  finally show ?case by simp
qed

lemma mem_hash_find_first:
  "mh_shape t \<Longrightarrow> first_stop t k j \<Longrightarrow> mem_hash_find t k (mem_hash_hash k) 0 = Some j"
  using mem_hash_find_from [of t k 0] by (auto simp: first_stop_def)

lemma first_stop_exists:
  assumes shape: "mh_shape t" and free: "j < length (mh_entries t)" "stops t k j"
  shows "\<exists>j. first_stop t k j"
proof -
  obtain i where "unat (mem_hash_probe (mem_hash_hash k) i mod mh_capacity t) = j"
    using probe_covers [of "mh_capacity t" j] shape free by (auto simp: mh_shape_def)
  then have "slot t k (unat i) = j" by (simp add: slot_def)
  then have ex: "stops t k (slot t k (unat i))" using free by simp
  define d where "d = (LEAST d. stops t k (slot t k d))"
  have "stops t k (slot t k d)" unfolding d_def using ex by (rule LeastI)
  moreover have "\<forall>d' < d. \<not> stops t k (slot t k d')" unfolding d_def using not_less_Least by blast
  ultimately show ?thesis by (auto simp: first_stop_def)
qed

lemma first_stop_lt: "mh_shape t \<Longrightarrow> first_stop t k j \<Longrightarrow> j < length (mh_entries t)"
  by (auto simp: first_stop_def slot_lt)

lemma first_stop_stops: "first_stop t k j \<Longrightarrow> stops t k j"
  by (auto simp: first_stop_def)

subsection \<open>The table invariant and the map it stores\<close>

definition used :: "mem_hash_item \<Rightarrow> bool" where
  "used e \<longleftrightarrow> item_k e \<noteq> 0"

definition mh_table :: "mem_hash \<Rightarrow> bool" where
  "mh_table t \<longleftrightarrow> mh_capacity t \<in> set HASH_SIZES \<and>
     length (mh_entries t) = unat (mh_capacity t) \<and>
     unat (mh_count t) = length (filter used (mh_entries t)) \<and>
     2 * unat (mh_count t) \<le> unat (mh_capacity t) + 1 \<and>
     (\<forall>j < length (mh_entries t). key_at t j = 0 \<longrightarrow> item_v (mh_entries t ! j) = 0) \<and>
     (\<forall>j < length (mh_entries t). key_at t j \<noteq> 0 \<longrightarrow> first_stop t (key_at t j) j)"

definition mh_inv :: "mem_hash \<Rightarrow> bool" where
  "mh_inv t \<longleftrightarrow> t = mem_hash_new \<or> mh_table t"

definition mh_map :: "mem_hash \<Rightarrow> u32 \<Rightarrow> u32" where
  "mh_map t k = (if k = 0 then 0 else
     case List.find (\<lambda>e. item_k e = k) (mh_entries t) of None \<Rightarrow> 0 | Some e \<Rightarrow> item_v e)"

definition mh_keys :: "mem_hash \<Rightarrow> u32 set" where
  "mh_keys t = item_k ` set (filter used (mh_entries t))"

lemma HASH_SIZES_bounds:
  "c \<in> set HASH_SIZES \<Longrightarrow> 3 \<le> unat c \<and> unat c \<le> 6420683 \<and> odd (unat c)"
  by (auto simp: HASH_SIZES_def)

lemma mh_table_shape: "mh_table t \<Longrightarrow> mh_shape t"
  using HASH_SIZES_bounds [of "mh_capacity t"] by (auto simp: mh_table_def mh_shape_def)

lemma mh_table_free:
  assumes "mh_table t"
  shows "\<exists>j < length (mh_entries t). key_at t j = 0"
proof (rule ccontr)
  assume "\<not> ?thesis"
  then have "\<forall>e \<in> set (mh_entries t). used e" by (auto simp: key_at_def used_def in_set_conv_nth)
  then have "filter used (mh_entries t) = mh_entries t" by simp
  then show False using assms HASH_SIZES_bounds [of "mh_capacity t"] by (auto simp: mh_table_def)
qed

lemma mh_table_find:
  assumes "mh_table t"
  shows "\<exists>j. mem_hash_find t k (mem_hash_hash k) 0 = Some j \<and> first_stop t k j \<and>
     j < length (mh_entries t)"
proof -
  note shape = mh_table_shape [OF assms]
  obtain j0 where "j0 < length (mh_entries t)" "stops t k j0"
    using mh_table_free [OF assms] by (auto simp: stops_def)
  then obtain j where j: "first_stop t k j" using first_stop_exists [OF shape] by blast
  then show ?thesis using mem_hash_find_first [OF shape j] first_stop_lt [OF shape j] by blast
qed

lemma mh_table_same_key:
  assumes "mh_table t" and "i < length (mh_entries t)" and "key_at t i = k" and "k \<noteq> 0"
    and "first_stop t k j"
  shows "i = j"
  using assms first_stop_unique by (auto simp: mh_table_def)

lemma mh_map_at:
  assumes "mh_table t" and "j < length (mh_entries t)" and "key_at t j = k" and "k \<noteq> 0"
  shows "mh_map t k = item_v (mh_entries t ! j)"
proof -
  have "first_stop t k j" using assms by (auto simp: mh_table_def)
  then have one: "\<And>i. i < length (mh_entries t) \<Longrightarrow> key_at t i = k \<Longrightarrow> i = j"
    using mh_table_same_key assms by blast
  have "List.find (\<lambda>e. item_k e = k) (mh_entries t) = Some (mh_entries t ! j)"
    unfolding find_Some_iff
  proof (intro exI [of _ j] conjI allI impI)
    fix i assume "i < j"
    then show "item_k (mh_entries t ! i) \<noteq> k" using one [of i] assms(2) by (auto simp: key_at_def)
  qed (use assms in \<open>auto simp: key_at_def\<close>)
  then show ?thesis using assms(4) by (simp add: mh_map_def)
qed

lemma mh_map_none:
  "\<forall>j < length (mh_entries t). key_at t j \<noteq> k \<Longrightarrow> mh_map t k = 0"
  by (auto simp: mh_map_def key_at_def in_set_conv_nth find_Some_iff split: option.splits)

lemma mem_hash_get_table:
  assumes "mh_table t" and "k \<noteq> 0"
  shows "mem_hash_get t k = Some (mh_map t k)"
proof -
  obtain j where j: "mem_hash_find t k (mem_hash_hash k) 0 = Some j" "first_stop t k j"
      "j < length (mh_entries t)"
    using mh_table_find [OF assms(1)] by blast
  have "mh_map t k = item_v (mh_entries t ! j)"
  proof (cases "key_at t j = k")
    case True
    then show ?thesis using mh_map_at assms j(3) by blast
  next
    case False
    then have zero: "key_at t j = 0" using first_stop_stops [OF j(2)] by (simp add: stops_def)
    have "\<forall>i < length (mh_entries t). key_at t i \<noteq> k"
      using mh_table_same_key [OF assms(1) _ _ assms(2) j(2)] False by blast
    then show ?thesis using mh_map_none zero assms(1) j(3) by (simp add: mh_table_def)
  qed
  then show ?thesis using j(1) mh_table_shape [OF assms(1)]
    by (auto simp: mem_hash_get_def mh_shape_def)
qed

lemma length_filter_update:
  "j < length xs \<Longrightarrow> length (filter P (xs[j := x])) + (if P (xs ! j) then 1 else 0) =
     length (filter P xs) + (if P x then 1 else 0)"
  by (subst (4) id_take_nth_drop [of j]) (simp_all add: upd_conv_take_nth_drop)

subsection \<open>Insertion\<close>

definition put_at :: "mem_hash \<Rightarrow> nat \<Rightarrow> u32 \<Rightarrow> u32 \<Rightarrow> mem_hash" where
  "put_at t j k v =
     t\<lparr>mh_count := (if item_k (mh_entries t ! j) = 0 then mh_count t + 1 else mh_count t),
       mh_entries := (mh_entries t)[j := \<lparr>item_k = k, item_v = v\<rparr>]\<rparr>"

lemma slot_put_at [simp]: "slot (put_at t j k v) = slot t"
  by (intro ext) (simp add: slot_def put_at_def)

lemma length_put_at [simp]: "length (mh_entries (put_at t j k v)) = length (mh_entries t)"
  by (simp add: put_at_def)

lemma key_at_put_at:
  "j < length (mh_entries t) \<Longrightarrow>
   key_at (put_at t j k v) i = (if i = j then k else key_at t i)"
  by (simp add: key_at_def put_at_def nth_list_update)

lemma first_stop_put_at:
  assumes shape: "mh_shape t" and j: "first_stop t k j"
    and old: "first_stop t k' i" "key_at t i = k'" "k' \<noteq> 0"
  shows "first_stop (put_at t j k v) k' i"
proof -
  have jl: "j < length (mh_entries t)" by (rule first_stop_lt [OF shape j])
  obtain d where d: "slot t k' d = i" "\<forall>d' < d. \<not> stops t k' (slot t k' d')"
    using old(1) by (auto simp: first_stop_def)
  have "\<not> stops (put_at t j k v) k' (slot t k' d')" if "d' < d" for d'
  proof -
    have n: "\<not> stops t k' (slot t k' d')" using d(2) that by blast
    show ?thesis
    proof (cases "slot t k' d' = j")
      case True
      then have "key_at t j \<noteq> 0" and "key_at t j \<noteq> k'" using n by (auto simp: stops_def)
      then have "key_at t j = k" using first_stop_stops [OF j] by (auto simp: stops_def)
      then show ?thesis using True n jl by (simp add: stops_def key_at_put_at)
    next
      case False
      then show ?thesis using n jl by (simp add: stops_def key_at_put_at)
    qed
  qed
  moreover have "stops (put_at t j k v) k' i"
  proof (cases "i = j")
    case True
    then show ?thesis using old j jl first_stop_stops [OF j] by (auto simp: stops_def key_at_put_at)
  next
    case False
    then show ?thesis using old jl by (simp add: stops_def key_at_put_at)
  qed
  ultimately show ?thesis using d(1) by (auto simp: first_stop_def)
qed

lemma first_stop_put_at_new:
  assumes shape: "mh_shape t" and j: "first_stop t k j"
  shows "first_stop (put_at t j k v) k j"
proof -
  have jl: "j < length (mh_entries t)" by (rule first_stop_lt [OF shape j])
  obtain d where d: "slot t k d = j" "stops t k j" "\<forall>d' < d. \<not> stops t k (slot t k d')"
    using j by (auto simp: first_stop_def)
  have "\<not> stops (put_at t j k v) k (slot t k d')" if "d' < d" for d'
  proof -
    have "key_at t (slot t k d') \<noteq> 0" "key_at t (slot t k d') \<noteq> k"
      using d(3) that by (auto simp: stops_def)
    moreover from this have "slot t k d' \<noteq> j" using d(2) by (auto simp: stops_def)
    ultimately show ?thesis using jl by (simp add: stops_def key_at_put_at)
  qed
  moreover have "stops (put_at t j k v) k j" using jl by (simp add: stops_def key_at_put_at)
  ultimately show ?thesis using d(1) unfolding first_stop_def slot_put_at by blast
qed

lemma used_key_at: "used (mh_entries t ! j) \<longleftrightarrow> key_at t j \<noteq> 0"
  by (simp add: used_def key_at_def)

lemma count_put_at:
  assumes "mh_table t" and "j < length (mh_entries t)" and "k \<noteq> 0"
  shows "unat (mh_count (put_at t j k v)) = length (filter used (mh_entries (put_at t j k v)))"
    and "unat (mh_count (put_at t j k v)) =
      (if key_at t j = 0 then unat (mh_count t) + 1 else unat (mh_count t))"
proof -
  have c: "unat (mh_count t) = length (filter used (mh_entries t))"
    and small: "2 * unat (mh_count t) \<le> unat (mh_capacity t) + 1"
    using assms(1) by (auto simp: mh_table_def)
  have "unat (mh_capacity t) \<le> 6420683"
    using assms(1) HASH_SIZES_bounds by (auto simp: mh_table_def)
  then have "unat (mh_count t + 1) = unat (mh_count t) + 1"
    using small by (intro unat_Suc_u32) simp
  then show "unat (mh_count (put_at t j k v)) =
      (if key_at t j = 0 then unat (mh_count t) + 1 else unat (mh_count t))"
    by (simp add: put_at_def key_at_def)
  then show "unat (mh_count (put_at t j k v)) = length (filter used (mh_entries (put_at t j k v)))"
    using length_filter_update [OF assms(2), of used "\<lparr>item_k = k, item_v = v\<rparr>"] c assms(3)
    by (simp add: put_at_def used_key_at) (simp add: used_def split: if_splits)
qed

lemma mh_table_put_at:
  assumes t: "mh_table t" and j: "first_stop t k j" and k: "k \<noteq> 0"
    and room: "2 * unat (mh_count t) + 1 \<le> unat (mh_capacity t)"
  shows "mh_table (put_at t j k v)"
proof -
  note shape = mh_table_shape [OF t]
  have jl: "j < length (mh_entries t)" by (rule first_stop_lt [OF shape j])
  have cap: "mh_capacity (put_at t j k v) = mh_capacity t" by (simp add: put_at_def)
  have "first_stop (put_at t j k v) (key_at (put_at t j k v) i) i"
    if "i < length (mh_entries t)" "key_at (put_at t j k v) i \<noteq> 0" for i
  proof (cases "i = j")
    case True
    then show ?thesis using first_stop_put_at_new [OF shape j] jl by (simp add: key_at_put_at)
  next
    case False
    then have i: "key_at t i \<noteq> 0" using that jl by (simp add: key_at_put_at)
    then have "first_stop t (key_at t i) i" using t that by (simp add: mh_table_def)
    from first_stop_put_at [OF shape j this refl i] show ?thesis
      using False jl by (simp add: key_at_put_at)
  qed
  moreover have "item_v (mh_entries (put_at t j k v) ! i) = 0"
    if "i < length (mh_entries t)" "key_at (put_at t j k v) i = 0" for i
  proof (cases "i = j")
    case True
    then show ?thesis using that k jl by (simp add: key_at_put_at)
  next
    case False
    then have "key_at t i = 0" using that jl by (simp add: key_at_put_at)
    then show ?thesis using that(1) t False by (simp add: mh_table_def put_at_def)
  qed
  moreover have "2 * unat (mh_count (put_at t j k v)) \<le> unat (mh_capacity t) + 1"
    unfolding count_put_at(2) [OF t jl k] using room by simp
  ultimately show ?thesis
    using count_put_at(1) [OF t jl k, of v] cap t by (auto simp: mh_table_def)
qed

lemma mem_hash_put_table:
  assumes t: "mh_table t" and k: "k \<noteq> 0"
    and room: "2 * unat (mh_count t) + 1 \<le> unat (mh_capacity t)"
  obtains t' where "mem_hash_put t k v = Some t'" "mh_table t'" "mh_map t' = (mh_map t)(k := v)"
    "mh_keys t' = insert k (mh_keys t)" "mh_capacity t' = mh_capacity t"
    "unat (mh_count t') = (if k \<in> mh_keys t then unat (mh_count t) else unat (mh_count t) + 1)"
proof -
  obtain j where j: "mem_hash_find t k (mem_hash_hash k) 0 = Some j" "first_stop t k j"
      "j < length (mh_entries t)"
    using mh_table_find [OF t] by blast
  define t' where "t' = put_at t j k v"
  have t': "mh_table t'" unfolding t'_def by (rule mh_table_put_at [OF t j(2) k room])
  have put: "mem_hash_put t k v = Some t'" by (simp add: mem_hash_put_def j(1) t'_def put_at_def)
  have len: "length (mh_entries t') = length (mh_entries t)" by (simp add: t'_def)
  have key: "key_at t' i = (if i = j then k else key_at t i)" for i
    using j(3) by (simp add: t'_def key_at_put_at)
  have val: "mh_entries t' ! i = mh_entries t ! i" if "i \<noteq> j" for i
    using that by (simp add: t'_def put_at_def)
  have jk: "key_at t j = 0 \<or> key_at t j = k"
    using first_stop_stops [OF j(2)] by (simp add: stops_def)
  have keys: "x \<in> mh_keys s \<longleftrightarrow> x \<noteq> 0 \<and> (\<exists>i < length (mh_entries s). key_at s i = x)" for x s
    by (force simp: mh_keys_def key_at_def used_def in_set_conv_nth)
  have map: "mh_map t' x = ((mh_map t)(k := v)) x" for x
  proof (cases "x = 0 \<or> x = k")
    case True
    then show ?thesis
      using mh_map_at [OF t', of j k] j(3) key [of j] k len
      by (auto simp: mh_map_def [of _ 0] t'_def put_at_def)
  next
    case False
    show ?thesis
    proof (cases "\<exists>i < length (mh_entries t). key_at t i = x")
      case True
      then obtain i where i: "i < length (mh_entries t)" "key_at t i = x" by blast
      then have "i \<noteq> j" using jk False by auto
      then show ?thesis
        using mh_map_at [OF t i] mh_map_at [OF t', of i x] i False key [of i] val [of i] len by simp
    next
      case none: False
      have "\<forall>i < length (mh_entries t'). key_at t' i \<noteq> x" using none False key len by auto
      then show ?thesis using none False by (simp add: mh_map_none)
    qed
  qed
  have kin: "k \<in> mh_keys t \<longleftrightarrow> key_at t j = k"
  proof
    assume "k \<in> mh_keys t"
    then obtain i where "i < length (mh_entries t)" "key_at t i = k" by (auto simp: keys)
    then show "key_at t j = k" using mh_table_same_key [OF t _ _ k j(2)] by metis
  qed (use j(3) k in \<open>auto simp: keys\<close>)
  show thesis
  proof (rule that [OF put t'])
    show "mh_map t' = (mh_map t)(k := v)" using map by (rule ext)
    show "mh_keys t' = insert k (mh_keys t)"
    proof (rule set_eqI)
      fix x show "x \<in> mh_keys t' \<longleftrightarrow> x \<in> insert k (mh_keys t)"
        using j(3) jk k by (auto simp: keys len key)
    qed
    show "mh_capacity t' = mh_capacity t" by (simp add: t'_def put_at_def)
    show "unat (mh_count t') = (if k \<in> mh_keys t then unat (mh_count t) else unat (mh_count t) + 1)"
      using count_put_at(2) [OF t j(3) k, of v] kin jk k by (auto simp: t'_def)
  qed
qed

subsection \<open>Growing\<close>

lemma hash_size_loop_Some:
  "hash_size_loop xs c = Some x \<Longrightarrow> x \<in> set xs \<and> c \<le> x"
  by (induction xs) (auto split: if_splits)

lemma hash_size_loop_ex:
  "y \<in> set xs \<Longrightarrow> c \<le> y \<Longrightarrow> \<exists>x. hash_size_loop xs c = Some x"
  by (induction xs) auto

lemma mh_keys_bound: "mh_table t \<Longrightarrow> finite (mh_keys t)"
  by (simp add: mh_keys_def)

lemma mem_hash_set_no_grow:
  "mh_count t * 2 + 1 \<le> mh_capacity t \<Longrightarrow> mem_hash_set_d (Suc d) t k v = mem_hash_put t k v"
  using leD by auto

lemma unat_load:
  "unat c < 2 ^ 30 \<Longrightarrow> unat (c * 2 + 1 :: u32) = 2 * unat c + 1"
proof -
  assume c: "unat c < 2 ^ 30"
  have "unat (c * 2) = unat c * 2" using c by (subst unat_mult_u32) simp_all
  then show ?thesis using c by (subst unat_Suc_u32) simp_all
qed

definition mh_empty :: "u32 \<Rightarrow> mem_hash" where
  "mh_empty c = \<lparr>mh_count = 0, mh_capacity = c,
     mh_entries = replicate (unat c) \<lparr>item_k = 0, item_v = 0\<rparr>\<rparr>"

lemma mh_empty:
  assumes "c \<in> set HASH_SIZES"
  shows "mh_table (mh_empty c)" "mh_map (mh_empty c) = (\<lambda>_. 0)" "mh_keys (mh_empty c) = {}"
proof -
  have "filter used (replicate (unat c) \<lparr>item_k = 0, item_v = 0\<rparr>) = []"
    by (simp add: used_def)
  then show "mh_table (mh_empty c)" "mh_keys (mh_empty c) = {}"
    using assms by (auto simp: mh_table_def mh_empty_def key_at_def mh_keys_def)
  show "mh_map (mh_empty c) = (\<lambda>_. 0)"
  proof (rule ext)
    fix k show "mh_map (mh_empty c) k = 0"
      by (cases "k = 0") (auto simp: mh_map_def mh_empty_def find_Some_iff split: option.splits)
  qed
qed

lemma mem_hash_rehash_table:
  assumes "mh_table t" and "distinct (map item_k (filter used es))"
    and "item_k ` set (filter used es) \<inter> mh_keys t = {}"
    and "2 * (unat (mh_count t) + length (filter used es)) \<le> unat (mh_capacity t) + 1"
  shows "\<exists>t'. mem_hash_rehash (mem_hash_set_d (Suc d)) es t = Some t' \<and> mh_table t' \<and>
    mh_keys t' = mh_keys t \<union> item_k ` set (filter used es) \<and>
    mh_capacity t' = mh_capacity t \<and>
    unat (mh_count t') = unat (mh_count t) + length (filter used es) \<and>
    (\<forall>k. k \<notin> item_k ` set (filter used es) \<longrightarrow> mh_map t' k = mh_map t k) \<and>
    (\<forall>e \<in> set (filter used es). mh_map t' (item_k e) = item_v e)"
  using assms
proof (induction es arbitrary: t)
  case Nil
  then show ?case by simp
next
  case (Cons e es)
  show ?case
  proof (cases "used e")
    case False
    then show ?thesis using Cons by (simp add: used_def)
  next
    case True
    then have k: "item_k e \<noteq> 0" by (simp add: used_def)
    have cap: "unat (mh_capacity t) \<le> 6420683"
      using Cons.prems(1) HASH_SIZES_bounds by (auto simp: mh_table_def)
    have room: "2 * unat (mh_count t) + 1 \<le> unat (mh_capacity t)"
      using Cons.prems(4) True by simp
    then have "mh_count t * 2 + 1 \<le> mh_capacity t"
      using cap by (simp add: word_le_nat_alt unat_load)
    then have "mem_hash_set_d (Suc d) t (item_k e) (item_v e) = mem_hash_put t (item_k e) (item_v e)"
      by (rule mem_hash_set_no_grow)
    moreover obtain t1 where t1: "mem_hash_put t (item_k e) (item_v e) = Some t1" "mh_table t1"
        "mh_map t1 = (mh_map t)(item_k e := item_v e)" "mh_keys t1 = insert (item_k e) (mh_keys t)"
        "mh_capacity t1 = mh_capacity t"
        "unat (mh_count t1) = (if item_k e \<in> mh_keys t then unat (mh_count t) else unat (mh_count t) + 1)"
      by (rule mem_hash_put_table [OF Cons.prems(1) k room])
    moreover have fresh: "item_k e \<notin> mh_keys t" using Cons.prems(3) True by auto
    moreover obtain t' where t': "mem_hash_rehash (mem_hash_set_d (Suc d)) es t1 = Some t'" "mh_table t'"
        "mh_keys t' = mh_keys t1 \<union> item_k ` set (filter used es)" "mh_capacity t' = mh_capacity t1"
        "unat (mh_count t') = unat (mh_count t1) + length (filter used es)"
        "\<forall>k. k \<notin> item_k ` set (filter used es) \<longrightarrow> mh_map t' k = mh_map t1 k"
        "\<forall>e \<in> set (filter used es). mh_map t' (item_k e) = item_v e"
    proof -
      have 1: "distinct (map item_k (filter used es))" using Cons.prems(2) True by simp
      have 2: "item_k ` set (filter used es) \<inter> mh_keys t1 = {}"
        using Cons.prems(2,3) True t1(4) by auto
      have 3: "2 * (unat (mh_count t1) + length (filter used es)) \<le> unat (mh_capacity t1) + 1"
        using Cons.prems(4) True t1(5,6) fresh by simp
      show thesis using Cons.IH [OF t1(2) 1 2 3] that by blast
    qed
    moreover have "item_k e \<notin> item_k ` set (filter used es)" using Cons.prems(2) True by auto
    ultimately show ?thesis
      using True k by (intro exI [of _ t']) (auto simp del: mem_hash_set_d.simps)
  qed
qed

lemma mh_table_distinct:
  assumes t: "mh_table t"
  shows "distinct (map item_k (filter used (mh_entries t)))"
proof -
  have inj: "i = j" if "i < length (mh_entries t)" "j < length (mh_entries t)"
    "key_at t i = key_at t j" "key_at t j \<noteq> 0" for i j
    using mh_table_same_key [OF t that(1,3,4)] t that by (auto simp: mh_table_def)
  have "distinct (map item_k (filter used es))"
    if "\<And>i j. i < length es \<Longrightarrow> j < length es \<Longrightarrow> item_k (es ! i) = item_k (es ! j) \<Longrightarrow>
      item_k (es ! j) \<noteq> 0 \<Longrightarrow> i = j" for es
    using that
  proof (induction es)
    case (Cons e es)
    have "item_k e \<notin> item_k ` set (filter used es)"
    proof
      assume "item_k e \<in> item_k ` set (filter used es)"
      then obtain i where "i < length es" "item_k (es ! i) = item_k e" "item_k (es ! i) \<noteq> 0"
        by (auto simp: used_def in_set_conv_nth)
      then show False using Cons.prems [of 0 "Suc i"] by simp
    qed
    moreover have "distinct (map item_k (filter used es))"
      by (rule Cons.IH) (use Cons.prems in force)
    ultimately show ?case by simp
  qed simp
  then show ?thesis using inj by (simp add: key_at_def)
qed

lemma mh_map_entries:
  "mh_table t \<Longrightarrow> e \<in> set (filter used (mh_entries t)) \<Longrightarrow> mh_map t (item_k e) = item_v e"
  by (auto simp: in_set_conv_nth used_def mh_map_at key_at_def)

lemma mh_map_outside: "k \<notin> mh_keys t \<Longrightarrow> mh_map t k = 0"
  by (cases "k = 0")
    (auto simp: mh_map_def mh_keys_def used_def find_Some_iff in_set_conv_nth split: option.splits)

lemma mh_count_card: "mh_table t \<Longrightarrow> unat (mh_count t) = card (mh_keys t)"
  using distinct_card [OF mh_table_distinct] by (simp add: mh_table_def mh_keys_def)

lemma mh_new [simp]: "mh_keys mem_hash_new = {}" "mh_map mem_hash_new = (\<lambda>_. 0)" "mh_inv mem_hash_new"
  by (auto simp: mem_hash_new_def mh_keys_def mh_map_def mh_inv_def)

lemma mem_hash_resize_table:
  assumes t: "mh_inv t" and full: "mh_capacity t < mh_count t * 2 + 1"
    and small: "unat (mh_count t) \<le> 3210341"
  shows "\<exists>t'. mem_hash_resize (mem_hash_set_d (Suc d)) t = Some t' \<and> mh_table t' \<and>
    mh_map t' = mh_map t \<and> mh_keys t' = mh_keys t \<and> mh_count t' = mh_count t \<and>
    2 * unat (mh_count t) + 1 \<le> unat (mh_capacity t')"
proof -
  have load: "unat (mh_count t * 2 + 1) = 2 * unat (mh_count t) + 1"
    using small by (intro unat_load) simp
  have "mh_count t * 2 + 1 \<le> 6420683" using load small by (simp add: word_le_nat_alt)
  moreover have "6420683 \<in> set HASH_SIZES" by (simp add: HASH_SIZES_def)
  ultimately obtain c where c: "hash_size_loop HASH_SIZES (mh_count t * 2 + 1) = Some c"
    using hash_size_loop_ex by blast
  then have cs: "c \<in> set HASH_SIZES" "mh_count t * 2 + 1 \<le> c" using hash_size_loop_Some by blast+
  have big: "\<not> c \<le> mh_capacity t" using full cs(2) by (meson leD order_trans)
  have room: "2 * unat (mh_count t) + 1 \<le> unat c" using cs(2) load by (simp add: word_le_nat_alt)
  have cnt: "unat (mh_count t) = length (filter used (mh_entries t))"
    and dis: "distinct (map item_k (filter used (mh_entries t)))"
    using t mh_table_distinct by (auto simp: mh_inv_def mh_table_def mem_hash_new_def)
  have zero: "unat (mh_count (mh_empty c)) = 0" "mh_capacity (mh_empty c) = c"
    by (simp_all add: mh_empty_def)
  obtain t' where t': "mem_hash_rehash (mem_hash_set_d (Suc d)) (mh_entries t) (mh_empty c) = Some t'"
      "mh_table t'" "mh_keys t' = mh_keys t" "mh_capacity t' = c"
      "unat (mh_count t') = unat (mh_count t)"
      "\<forall>k. k \<notin> mh_keys t \<longrightarrow> mh_map t' k = 0"
      "\<forall>e \<in> set (filter used (mh_entries t)). mh_map t' (item_k e) = item_v e"
  proof -
    have 1: "item_k ` set (filter used (mh_entries t)) \<inter> mh_keys (mh_empty c) = {}"
      by (simp add: mh_empty(3) [OF cs(1)])
    have 2: "2 * (unat (mh_count (mh_empty c)) + length (filter used (mh_entries t)))
        \<le> unat (mh_capacity (mh_empty c)) + 1"
      unfolding zero cnt [symmetric] using room by simp
    show thesis
      using mem_hash_rehash_table [OF mh_empty(1) [OF cs(1)] dis 1 2, of d] that
      unfolding mh_empty(2,3) [OF cs(1)] zero cnt [symmetric] mh_keys_def [symmetric] by auto
  qed
  have "mh_map t' k = mh_map t k" for k
  proof (cases "k \<in> mh_keys t")
    case True
    then have "mh_table t" using t by (auto simp: mh_inv_def)
    then show ?thesis using True t'(7) mh_map_entries by (auto simp: mh_keys_def)
  next
    case False
    then show ?thesis using t'(6) by (simp add: mh_map_outside)
  qed
  then have "mh_map t' = mh_map t" by (rule ext)
  moreover have "mh_count t' = mh_count t" using t'(5) by (rule u32_eqI)
  moreover have "mem_hash_resize (mem_hash_set_d (Suc d)) t = Some t'"
    using t'(1) big by (simp add: mem_hash_resize_def c mh_empty_def)
  ultimately show ?thesis using t'(2-4) room by blast
qed

subsection \<open>The operations implement a map\<close>

lemma mem_hash_set_d_correct:
  assumes t: "mh_inv t" and k: "k \<noteq> 0" and small: "card (mh_keys t) \<le> 3210341"
  shows "\<exists>t'. mem_hash_set_d (Suc (Suc d)) t k v = Some t' \<and> mh_inv t' \<and>
    mh_map t' = (mh_map t)(k := v) \<and> mh_keys t' = insert k (mh_keys t)"
proof -
  have small': "unat (mh_count t) \<le> 3210341"
    using t small mh_count_card by (auto simp: mh_inv_def mem_hash_new_def)
  then have load: "unat (mh_count t * 2 + 1) = 2 * unat (mh_count t) + 1"
    by (intro unat_load) simp
  obtain t1 where t1: "(if mh_capacity t < mh_count t * 2 + 1
        then mem_hash_resize (mem_hash_set_d (Suc d)) t else Some t) = Some t1"
      "mh_table t1" "mh_map t1 = mh_map t" "mh_keys t1 = mh_keys t"
      "2 * unat (mh_count t1) + 1 \<le> unat (mh_capacity t1)"
  proof (cases "mh_capacity t < mh_count t * 2 + 1")
    case True
    then show thesis using mem_hash_resize_table [OF t True small', of d] that by auto
  next
    case False
    then have "mh_table t" using t by (auto simp: mh_inv_def mem_hash_new_def)
    moreover have "2 * unat (mh_count t) + 1 \<le> unat (mh_capacity t)"
      using False load by (simp add: not_less word_le_nat_alt)
    ultimately show thesis using False that [of t] by auto
  qed
  obtain t' where "mem_hash_put t1 k v = Some t'" "mh_table t'" "mh_map t' = (mh_map t1)(k := v)"
    "mh_keys t' = insert k (mh_keys t1)"
    by (rule mem_hash_put_table [OF t1(2) k t1(5)])
  then show ?thesis using t1 by (auto simp: mh_inv_def)
qed

lemma mem_hash_set_depth:
  assumes "mh_inv t" and "k \<noteq> 0" and "card (mh_keys t) \<le> 3210341"
  shows "\<exists>t'. mem_hash_set t k v = Some t' \<and> mh_inv t' \<and>
    mh_map t' = (mh_map t)(k := v) \<and> mh_keys t' = insert k (mh_keys t)"
  using mem_hash_set_d_correct [OF assms, of 0 v] by (simp add: mem_hash_set_def numeral_2_eq_2)

lemma mem_hash_get_inv:
  "mh_inv t \<Longrightarrow> k \<noteq> 0 \<Longrightarrow> mem_hash_get t k = Some (mh_map t k)"
  using mem_hash_get_table [of t k]
  by (cases "mh_table t") (simp_all add: mh_inv_def mem_hash_get_def, simp add: mem_hash_new_def mh_map_def)

end
