(* ===== verification/Page_Correct.thy ===== *)
theory Page_Correct
  imports Page
begin

text \<open>
  Correctness of page tables over any provider of the block API.  \<open>pages s root\<close> is the
  list of host blocks that a table maps its indices to.  \<open>page_resize\<close> extends that list
  with freshly allocated blocks or cuts it and frees the rest; \<open>page_read_host_index\<close> and
  \<open>page_write_host_index\<close> index it.  The lemmas are proved inside the interface locales of
  \<open>Core\<close>; theory \<open>Txn_Correct\<close> interprets those on the transaction layer.
\<close>

subsection \<open>The host blocks of a table\<close>

definition PT_MAX :: nat where "PT_MAX = 512 + 509 * 1024"

definition pt_n :: "edb \<Rightarrow> u32 \<Rightarrow> nat" where
  "pt_n s root = unat (w32 s root 4092)"

definition index_page :: "edb \<Rightarrow> u32 \<Rightarrow> nat \<Rightarrow> u32" where
  "index_page s root j = w32 s root (2048 + 4 * j)"

definition host :: "edb \<Rightarrow> u32 \<Rightarrow> nat \<Rightarrow> u32" where
  "host s root i =
     (if i < 512 then w32 s root (4 * i)
      else w32 s (index_page s root ((i - 512) div 1024)) (4 * ((i - 512) mod 1024)))"

definition pages :: "edb \<Rightarrow> u32 \<Rightarrow> u32 list" where
  "pages s root = map (host s root) [0..<pt_n s root]"

text \<open>The number of index pages that a table of \<open>n\<close> data blocks uses.\<close>

definition n_index :: "nat \<Rightarrow> nat" where
  "n_index n = (n - 512 + 1023) div 1024"

definition index_pages :: "edb \<Rightarrow> u32 \<Rightarrow> u32 list" where
  "index_pages s root = map (index_page s root) [0..<n_index (pt_n s root)]"

text \<open>
  A well-formed table: at most \<open>PT_MAX\<close> blocks (beyond, the list of index pages would
  reach the array header and the block count), all blocks private and different, and no
  index page recorded beyond those in use.
\<close>

definition pt_ok :: "u32 set \<Rightarrow> edb \<Rightarrow> u32 \<Rightarrow> bool" where
  "pt_ok P s root \<longleftrightarrow> pt_n s root \<le> PT_MAX \<and>
     distinct (root # index_pages s root @ pages s root) \<and>
     set (root # index_pages s root @ pages s root) \<subseteq> P \<and>
     (\<forall>j < 509. n_index (pt_n s root) \<le> j \<longrightarrow> index_page s root j = 0)"

lemma length_pages [simp]: "length (pages s root) = pt_n s root"
  by (simp add: pages_def)

lemma length_index_pages [simp]: "length (index_pages s root) = n_index (pt_n s root)"
  by (simp add: index_pages_def)

lemma nth_pages: "i < pt_n s root \<Longrightarrow> pages s root ! i = host s root i"
  by (simp add: pages_def)

lemma nth_index_pages: "j < n_index (pt_n s root) \<Longrightarrow> index_pages s root ! j = index_page s root j"
  by (simp add: index_pages_def)

lemma n_index_small [simp]: "n \<le> 512 \<Longrightarrow> n_index n = 0"
  by (simp add: n_index_def)

lemma n_index_Suc:
  "512 \<le> n \<Longrightarrow> n_index (Suc n) = Suc ((n - 512) div 1024)"
  by (simp add: n_index_def Suc_diff_le)

lemma n_index_cases:
  "512 \<le> n \<Longrightarrow> n_index n = (if (n - 512) mod 1024 = 0 then (n - 512) div 1024 else Suc ((n - 512) div 1024))"
proof -
  define a where "a = n - 512"
  have "(a + 1023) div 1024 = (if a mod 1024 = 0 then a div 1024 else Suc (a div 1024))"
    by (auto simp: div_add1_eq [of a 1023])
  then show ?thesis by (simp add: n_index_def a_def)
qed

lemma n_index_mono: "m \<le> n \<Longrightarrow> n_index m \<le> n_index n"
  by (simp add: n_index_def div_le_mono)

lemma n_index_bound: "n \<le> PT_MAX \<Longrightarrow> n_index n \<le> 509"
  using n_index_mono [of n PT_MAX] by (simp add: n_index_def PT_MAX_def)

lemma index_lt_n_index: "512 \<le> i \<Longrightarrow> i < n \<Longrightarrow> (i - 512) div 1024 < n_index n"
  using n_index_mono [of "Suc i" n] by (simp add: n_index_Suc)

lemma u32_513 [simp]: "unat LEVEL_ONE = 512"
  by (simp add: LEVEL_ONE_def)

lemma INDEX_unat:
  assumes "512 \<le> unat k"
  shows "unat (INDEX0 k) = (unat k - 512) div 1024" "unat (INDEX1 k) = (unat k - 512) mod 1024"
proof -
  have d: "unat (k - LEVEL_ONE) = unat k - 512" using assms by (simp add: unat_sub_u32)
  have "unat (INDEX0 k) = unat (k - LEVEL_ONE) div 2 ^ 10"
    unfolding INDEX0_def unat_drop_bit_eq by (rule drop_bit_eq_div)
  then show "unat (INDEX0 k) = (unat k - 512) div 1024" using d by simp
  have "INDEX1 k = take_bit 10 (k - LEVEL_ONE)"
    by (simp add: INDEX1_def take_bit_eq_mask mask_eq_exp_minus_1)
  then have "unat (INDEX1 k) = unat (k - LEVEL_ONE) mod 2 ^ 10"
    by (simp add: unat_mod take_bit_eq_mod)
  then show "unat (INDEX1 k) = (unat k - 512) mod 1024" using d by simp
qed

lemma lt_LEVEL_ONE: "k < LEVEL_ONE \<longleftrightarrow> unat k < 512" "LEVEL_ONE < k \<longleftrightarrow> 512 < unat k"
  by (simp_all add: word_less_nat_alt)

subsection \<open>Accessors inside a private block\<close>

lemma pt_access:
  assumes "block_ok s root" and "epoch s = epoch s0"
  shows "pt_nblocks s (BLOCK s0 root) = Some (w32 s root 4092)"
    and "pt_set_nblocks s (BLOCK s0 root) v = Some (set32 s root 4092 v)"
    and "i < 512 \<Longrightarrow> pt_data_block s (BLOCK s0 root) i = Some (w32 s root (4 * i))"
    and "i < 512 \<Longrightarrow> pt_set_data_block s (BLOCK s0 root) i v = Some (set32 s root (4 * i) v)"
    and "i < 512 \<Longrightarrow> pt_index_block s (BLOCK s0 root) i = Some (index_page s root i)"
    and "i < 512 \<Longrightarrow> pt_set_index_block s (BLOCK s0 root) i v = Some (set32 s root (2048 + 4 * i) v)"
    and "i < 1024 \<Longrightarrow> ip_data_block s (BLOCK s0 root) i = Some (w32 s root (4 * i))"
    and "i < 1024 \<Longrightarrow> ip_set_data_block s (BLOCK s0 root) i v = Some (set32 s root (4 * i) v)"
  using assms
  by (simp_all add: pt_nblocks_def pt_set_nblocks_def pt_data_block_def pt_set_data_block_def
      pt_index_block_def pt_set_index_block_def ip_data_block_def ip_set_data_block_def
      defined_simps index_page_def)

text \<open>What the view of a table depends on.\<close>

lemma pages_cong:
  assumes "pt_n s' root = pt_n s root"
    and "\<And>i. i < pt_n s root \<Longrightarrow> host s' root i = host s root i"
  shows "pages s' root = pages s root"
  using assms by (simp add: pages_def)

lemma pages_snoc:
  assumes "pt_n s' root = Suc (pt_n s root)"
    and "\<And>i. i < pt_n s root \<Longrightarrow> host s' root i = host s root i"
  shows "pages s' root = pages s root @ [host s' root (pt_n s root)]"
  using assms by (simp add: pages_def)

lemma host_in_pages: "i < pt_n s root \<Longrightarrow> host s root i \<in> set (pages s root)"
  by (simp add: pages_def)

lemma index_in_index_pages: "j < n_index (pt_n s root) \<Longrightarrow> index_page s root j \<in> set (index_pages s root)"
  by (simp add: index_pages_def)

subsection \<open>Growing\<close>

context block_alloc begin

text \<open>What a run of allocations for the table at \<open>root\<close> may change.\<close>

definition grows :: "u32 \<Rightarrow> edb \<Rightarrow> edb \<Rightarrow> u32 list \<Rightarrow> u32 list \<Rightarrow> bool" where
  "grows root s s' bs ixs \<longleftrightarrow>
     inv s' \<and> pt_ok (priv s') s' root \<and> pages s' root = pages s root @ bs \<and>
     index_pages s' root = index_pages s root @ ixs \<and> priv s' = priv s \<union> set bs \<union> set ixs \<and>
     set (bs @ ixs) \<inter> priv s = {} \<and> room s \<le> room s' + length bs + length ixs \<and>
     objlist s' = objlist s \<and> txn_id s' = txn_id s \<and>
     bytes s' root 4084 8 = bytes s root 4084 8 \<and>
     (\<forall>c \<in> priv s - insert root (set (index_pages s root)). blk s' c = blk s c)"

lemma grows_refl: "inv s \<Longrightarrow> pt_ok (priv s) s root \<Longrightarrow> grows root s s [] []"
  by (simp add: grows_def)

lemma grows_trans:
  assumes "grows root s s1 bs ixs" and "grows root s1 s2 bs' ixs'"
  shows "grows root s s2 (bs @ bs') (ixs @ ixs')"
  using assms unfolding grows_def by (auto simp: Ball_def)

text \<open>The pages of a table and their content, before and after an allocation.\<close>

lemma alloc_host:
  assumes ok: "pt_ok (priv s) s root" and same: "\<forall>c \<in> priv s. blk s1 c = blk s c"
  shows "w32 s1 root 4092 = w32 s root 4092"
    and "j < 512 \<Longrightarrow> index_page s1 root j = index_page s root j"
    and "i < pt_n s root \<Longrightarrow> host s1 root i = host s root i"
    and "bytes s1 root 4084 8 = bytes s root 4084 8"
proof -
  have root: "blk s1 root = blk s root" using ok same by (auto simp: pt_ok_def)
  show "w32 s1 root 4092 = w32 s root 4092" by (rule blk_w32 [OF root]) simp
  show ix: "index_page s1 root j = index_page s root j" if "j < 512" for j
    unfolding index_page_def by (rule blk_w32 [OF root]) (use that in simp)
  show "bytes s1 root 4084 8 = bytes s root 4084 8" by (rule blk_bytes [OF root]) simp
  show "host s1 root i = host s root i" if i: "i < pt_n s root"
  proof (cases "i < 512")
    case True
    then show ?thesis by (simp add: host_def blk_w32 [OF root])
  next
    case False
    let ?j = "(i - 512) div 1024"
    have j: "?j < n_index (pt_n s root)" using index_lt_n_index [of i] i False by simp
    then have j512: "?j < 512" using n_index_bound [of "pt_n s root"] ok by (simp add: pt_ok_def)
    have "index_page s root ?j \<in> priv s"
      using index_in_index_pages [OF j] ok by (auto simp: pt_ok_def)
    then have "blk s1 (index_page s root ?j) = blk s (index_page s root ?j)" using same by blast
    from blk_w32 [OF this] show ?thesis using False ix [OF j512] by (simp add: host_def)
  qed
qed

lemma grow_data_step:
  assumes s: "inv s" "pt_ok (priv s) s root" and k: "pt_n s root < 512"
    and a: "inv s1" "b \<notin> priv s" "priv s1 = insert b (priv s)" "room s \<le> Suc (room s1)"
      "objlist s1 = objlist s" "txn_id s1 = txn_id s" "\<forall>c \<in> priv s. blk s1 c = blk s c"
  defines "s2 \<equiv> set32 (set32 s1 root 4092 (w32 s root 4092 + 1)) root (4 * pt_n s root) b"
  shows "grows root s s2 [b] []"
proof -
  note h = alloc_host [OF s(2) a(7)]
  have root: "root \<in> priv s" "root \<in> priv s1" using s(2) a(3) by (auto simp: pt_ok_def)
  have w: "writes_only s1 s2 root"
    unfolding s2_def using k by (intro writes_only_step writes_only_refl) simp_all
  have inv2: "inv s2" "priv s2 = insert b (priv s)" "room s2 = room s1"
    using inv_writes [OF a(1) root(2) w] priv_writes [OF a(1) root(2) w]
      room_writes [OF a(1) root(2) w] a(3) by simp_all
  have n2: "pt_n s2 root = Suc (pt_n s root)"
    using k by (simp add: s2_def pt_n_def unat_Suc_u32)
  have host2: "host s2 root i = host s root i" if "i < pt_n s root" for i
  proof -
    have "w32 s2 root (4 * i) = w32 s1 root (4 * i)" using that k by (simp add: s2_def)
    then show ?thesis using h(3) [OF that] that k by (simp add: host_def)
  qed
  have new: "host s2 root (pt_n s root) = b" using k by (simp add: s2_def host_def)
  have pages2: "pages s2 root = pages s root @ [b]"
    using pages_snoc [OF n2 host2] new by simp
  have ix2: "index_pages s2 root = []" "index_pages s root = []"
    using k n2 by (simp_all add: index_pages_def)
  have "index_page s2 root j = index_page s root j" if "j < 509" for j
    using that k h(2) [of j] by (simp add: s2_def index_page_def)
  moreover have "bytes s2 root 4084 8 = bytes s root 4084 8"
    using k h(4) by (simp add: s2_def)
  moreover have "blk s2 c = blk s c" if "c \<in> priv s" "c \<noteq> root" for c
    using that a(7) k by (simp add: s2_def)
  ultimately show ?thesis
    using s(2) k inv2 n2 pages2 ix2 a w writes_only_fields [OF w]
    by (auto simp: grows_def pt_ok_def PT_MAX_def)
qed

lemma page_grow_data_ok:
  assumes "inv s" and "pt_ok (priv s) s root" and "min (unat n) 512 - pt_n s root \<le> room s"
  shows "\<exists>s' bs. page_grow_data api root n s = Some (0, s') \<and> grows root s s' bs [] \<and>
    pt_n s' root = max (pt_n s root) (min (unat n) 512)"
  using assms
proof (induction "min (unat n) 512 - pt_n s root" arbitrary: s)
  case 0
  have "block_ok s root" using 0 priv_ok by (auto simp: pt_ok_def)
  moreover have "\<not> (unat (w32 s root 4092) < unat n \<and> unat (w32 s root 4092) < 512)"
    using 0(1) by (auto simp: pt_n_def)
  ultimately have "page_grow_data api root n s = Some (0, s)"
    by (subst page_grow_data.simps) (auto simp: pt_access lt_LEVEL_ONE word_less_nat_alt)
  then show ?case using 0 grows_refl by (auto simp: max_def)
next
  case (Suc m)
  have ok: "block_ok s root" and k: "pt_n s root < 512" "pt_n s root < unat n"
    using Suc.hyps(2) Suc.prems priv_ok by (auto simp: pt_ok_def)
  obtain b s1 where a: "api_alloc api s = Some (0, b, s1)" "inv s1" "b \<notin> priv s"
      "priv s1 = insert b (priv s)" "room s \<le> Suc (room s1)" "objlist s1 = objlist s"
      "txn_id s1 = txn_id s" "\<forall>c \<in> priv s. blk s1 c = blk s c"
    using alloc_ok [OF Suc.prems(1)] Suc.hyps(2) Suc.prems(3) by force
  define s2 where "s2 = set32 (set32 s1 root 4092 (w32 s root 4092 + 1)) root (4 * pt_n s root) b"
  have g: "grows root s s2 [b] []"
    unfolding s2_def by (rule grow_data_step [OF Suc.prems(1,2) k(1) a(2-8)])
  have ok1: "block_ok s1 root" using priv_ok [OF a(2)] a(4) Suc.prems(2) by (auto simp: pt_ok_def)
  have "w32 s1 root 4092 = w32 s root 4092" by (rule alloc_host(1) [OF Suc.prems(2) a(8)])
  then have step: "page_grow_data api root n s = page_grow_data api root n s2"
    using k ok ok1 a(1) by (subst page_grow_data.simps)
      (simp add: pt_access pt_n_def lt_LEVEL_ONE word_less_nat_alt s2_def)
  have n2: "pt_n s2 root = Suc (pt_n s root)"
    using g by (metis grows_def length_pages length_append_singleton)
  have "\<exists>s' bs. page_grow_data api root n s2 = Some (0, s') \<and> grows root s2 s' bs [] \<and>
      pt_n s' root = max (pt_n s2 root) (min (unat n) 512)"
    using g Suc n2 by (intro Suc.hyps(1)) (auto simp: grows_def)
  then obtain s' bs where s': "page_grow_data api root n s2 = Some (0, s')" "grows root s2 s' bs []"
      "pt_n s' root = max (pt_n s2 root) (min (unat n) 512)"
    by blast
  have "grows root s s' ([b] @ bs) ([] @ [])" by (rule grows_trans [OF g s'(2)])
  then show ?case using step s'(1,3) n2 k by (auto simp: max_def)
qed

end

context block_alloc begin

text \<open>
  Filling the next slot of an index page \<open>ib\<close> that is already recorded in the table.  \<open>L\<close>
  are the recorded index pages, \<open>ib\<close> the last of them.
\<close>

lemma grow_index_fill:
  fixes root :: u32 and s :: edb and t :: edb and s2 :: edb and b :: u32
  defines "j \<equiv> (pt_n s root - 512) div 1024" and "i0 \<equiv> (pt_n s root - 512) mod 1024"
  assumes n: "512 \<le> pt_n s root" "pt_n s root < PT_MAX"
    and ixs: "set ixs \<inter> priv s = {}"
    and t: "inv t" "priv t = priv s \<union> set ixs" "room s \<le> room t + length ixs"
      "objlist t = objlist s" "txn_id t = txn_id s" "bytes t root 4084 8 = bytes s root 4084 8"
      "\<forall>c \<in> priv s - {root}. blk t c = blk s c"
    and view: "w32 t root 4092 = w32 s root 4092"
      "\<And>i. i < pt_n s root \<Longrightarrow> host t root i = host s root i"
      "index_pages s root @ ixs = map (index_page t root) [0..<Suc j]"
      "\<forall>j' < 509. Suc j \<le> j' \<longrightarrow> index_page t root j' = 0"
      "distinct (root # (index_pages s root @ ixs) @ pages s root)"
      "set (root # (index_pages s root @ ixs) @ pages s root) \<subseteq> priv t"
    and a: "inv s2" "b \<notin> priv t" "priv s2 = insert b (priv t)" "room t \<le> Suc (room s2)"
      "objlist s2 = objlist t" "txn_id s2 = txn_id t" "\<forall>c \<in> priv t. blk s2 c = blk t c"
  defines "s4 \<equiv> set32 (set32 s2 (index_page t root j) (4 * i0) b) root 4092 (w32 s root 4092 + 1)"
  shows "grows root s s4 [b] ixs"
proof -
  let ?ib = "index_page t root j" and ?L = "index_pages s root @ ixs"
  have i0: "i0 < 1024" by (simp add: i0_def)
  have j509: "j < 509" using n by (simp add: j_def PT_MAX_def less_mult_imp_div_less)
  have L: "length ?L = Suc j" "j' \<le> j \<Longrightarrow> ?L ! j' = index_page t root j'" for j'
    using view(3) by (simp_all del: upt_Suc)
  have inL: "index_page t root j' \<in> set ?L" if "j' \<le> j" for j'
    using L that by (metis le_imp_less_Suc nth_mem)
  have ib: "?ib \<in> set ?L" "?ib \<in> priv t" "?ib \<noteq> root" using inL [of j] view(5,6) by auto
  have root: "root \<in> priv t" using view(6) by simp
  have froot: "w32 s2 root off = w32 t root off" if "off + 4 \<le> 4096" for off
    using blk_w32 a(7) root that by blast
  define s3 where "s3 = set32 s2 ?ib (4 * i0) b"
  have w3: "writes_only s2 s3 ?ib" unfolding s3_def using i0 by (intro writes_only_set) simp
  have p2: "?ib \<in> priv s2" "root \<in> priv s2" using ib root a(3) by auto
  note in3 = inv_writes [OF a(1) p2(1) w3] and pr3 = priv_writes [OF a(1) p2(1) w3]
    and ro3 = room_writes [OF a(1) p2(1) w3]
  have s4: "s4 = set32 s3 root 4092 (w32 s root 4092 + 1)" by (simp add: s4_def s3_def)
  have w4: "writes_only s3 s4 root" unfolding s4 by (intro writes_only_set) simp
  have p3: "root \<in> priv s3" using p2 pr3 by simp
  note in4 = inv_writes [OF in3 p3 w4] and pr4 = priv_writes [OF in3 p3 w4]
    and ro4 = room_writes [OF in3 p3 w4]
  have priv4: "priv s4 = insert b (priv s \<union> set ixs)" using pr4 pr3 a(3) t(2) by simp
  have n4: "pt_n s4 root = Suc (pt_n s root)"
    using n by (simp add: s4 pt_n_def unat_Suc_u32 PT_MAX_def)
  have root4: "w32 s4 root off = w32 t root off" if "off + 8 \<le> 4096" for off
    using that froot [of off] ib(3) i0 by (simp add: s4 s3_def)
  have ix4: "index_page s4 root j' = index_page t root j'" if "j' < 511" for j'
    unfolding index_page_def by (rule root4) (use that in simp)
  have other4: "w32 s4 p off = w32 t p off"
    if "p \<in> priv t" "p \<noteq> root" "off + 4 \<le> 4096" "p = ?ib \<Longrightarrow> off + 4 \<le> 4 * i0 \<or> 4 * i0 + 4 \<le> off" for p off
  proof -
    have "w32 s4 p off = w32 s2 p off" using that i0 ib(3) by (cases "p = ?ib") (auto simp: s4 s3_def)
    also have "\<dots> = w32 t p off" using blk_w32 a(7) that by blast
    finally show ?thesis .
  qed
  have host4: "host s4 root i = host s root i" if i: "i < pt_n s root" for i
  proof (cases "i < 512")
    case True
    then show ?thesis using root4 [of "4 * i"] view(2) [OF i] by (simp add: host_def)
  next
    case False
    let ?j = "(i - 512) div 1024"
    have jj: "?j \<le> j" using i False by (simp add: j_def div_le_mono)
    have p: "index_page t root ?j \<in> priv t" "index_page t root ?j \<noteq> root"
      using inL [OF jj] view(5,6) by auto
    have "w32 s4 (index_page t root ?j) (4 * ((i - 512) mod 1024)) =
        w32 t (index_page t root ?j) (4 * ((i - 512) mod 1024))"
    proof (rule other4 [OF p])
      show "4 * ((i - 512) mod 1024) + 4 \<le> 4096" by (simp add: Suc_le_eq)
      assume "index_page t root ?j = ?ib"
      then have "?L ! ?j = ?L ! j" using L(2) jj by simp
      moreover have "distinct ?L" using view(5) by auto
      moreover have "?j < length ?L" "j < length ?L" using L(1) jj by simp_all
      ultimately have "?j = j" using nth_eq_iff_index_eq by blast
      moreover have "i - 512 \<noteq> pt_n s root - 512" using i False by simp
      ultimately have "(i - 512) mod 1024 \<noteq> i0" unfolding i0_def j_def
        by (metis div_mult_mod_eq)
      then show "4 * ((i - 512) mod 1024) + 4 \<le> 4 * i0 \<or> 4 * i0 + 4 \<le> 4 * ((i - 512) mod 1024)"
        by linarith
    qed
    then show ?thesis using ix4 [of ?j] jj j509 False view(2) [OF i] by (simp add: host_def)
  qed
  have new: "host s4 root (pt_n s root) = b"
    using n(1) ix4 [of j] j509 ib(3) i0 by (simp add: host_def s4 s3_def flip: j_def i0_def)
  have pages4: "pages s4 root = pages s root @ [b]" using pages_snoc [OF n4 host4] new by simp
  have "index_pages s4 root = map (index_page s4 root) [0..<Suc j]"
    unfolding index_pages_def n4 n_index_Suc [OF n(1)] j_def ..
  also have "\<dots> = ?L" unfolding view(3) using ix4 j509 by (auto simp del: upt_Suc)
  finally have ixs4: "index_pages s4 root = ?L" .
  have zero4: "\<forall>j' < 509. n_index (pt_n s4 root) \<le> j' \<longrightarrow> index_page s4 root j' = 0"
    using view(4) ix4 n4 n_index_Suc [OF n(1)] by (simp add: j_def)
  have "set (root # ?L @ pages s root @ [b]) \<subseteq> priv s4"
    using view(6) priv4 t(2) by auto
  moreover have "b \<notin> set (root # ?L @ pages s root)" using view(6) a(2) by blast
  then have "distinct (root # ?L @ pages s root @ [b])" using view(5) by auto
  moreover have "pt_n s4 root \<le> PT_MAX" using n4 n(2) by simp
  ultimately have "pt_ok (priv s4) s4 root"
    unfolding pt_ok_def pages4 ixs4 append_assoc using zero4 by blast
  moreover have "bytes s4 root 4084 8 = bytes s root 4084 8"
  proof -
    have "bytes s4 root 4084 8 = bytes s2 root 4084 8" using ib(3) i0 by (simp add: s4 s3_def)
    also have "\<dots> = bytes t root 4084 8" by (rule blk_bytes) (use a(7) root in auto)
    finally show ?thesis using t(6) by simp
  qed
  moreover have "blk s4 c = blk s c" if "c \<in> priv s" "c \<noteq> root" "c \<notin> set (index_pages s root)" for c
  proof -
    have "c \<noteq> ?ib" using that ib(1) ixs by auto
    then have "blk s4 c = blk s2 c" using that i0 by (simp add: s4 s3_def)
    also have "\<dots> = blk t c" using a(7) that t(2) by blast
    finally show ?thesis using t(7) that by simp
  qed
  moreover have "objlist s4 = objlist s" "txn_id s4 = txn_id s"
    using a(5,6) t(4,5) by (simp_all add: s4 s3_def)
  ultimately show ?thesis
    unfolding grows_def using in4 pages4 ixs4 priv4 ixs a(2,4) t(2,3) ro3 ro4 by auto
qed

end

context block_alloc begin

text \<open>
  After the first half of an iteration: the index page of slot \<open>pt_n s root\<close> is recorded,
  \<open>ixs\<close> are the index pages that were allocated for it (none or one).
\<close>

definition index_ready :: "u32 \<Rightarrow> edb \<Rightarrow> edb \<Rightarrow> u32 list \<Rightarrow> bool" where
  "index_ready root s t ixs \<longleftrightarrow>
     set ixs \<inter> priv s = {} \<and> inv t \<and> priv t = priv s \<union> set ixs \<and>
     room s \<le> room t + length ixs \<and> objlist t = objlist s \<and> txn_id t = txn_id s \<and>
     bytes t root 4084 8 = bytes s root 4084 8 \<and> (\<forall>c \<in> priv s - {root}. blk t c = blk s c) \<and>
     w32 t root 4092 = w32 s root 4092 \<and> (\<forall>i < pt_n s root. host t root i = host s root i) \<and>
     index_pages s root @ ixs = map (index_page t root) [0..<Suc ((pt_n s root - 512) div 1024)] \<and>
     (\<forall>j < 509. Suc ((pt_n s root - 512) div 1024) \<le> j \<longrightarrow> index_page t root j = 0) \<and>
     distinct (root # (index_pages s root @ ixs) @ pages s root) \<and>
     set (root # (index_pages s root @ ixs) @ pages s root) \<subseteq> priv t"

lemma index_ready_new:
  fixes root :: u32 and s :: edb
  defines "j \<equiv> (pt_n s root - 512) div 1024"
  assumes s: "inv s" "pt_ok (priv s) s root" and n: "512 \<le> pt_n s root" "pt_n s root < PT_MAX"
    and z: "(pt_n s root - 512) mod 1024 = 0"
    and a: "inv s1" "b \<notin> priv s" "priv s1 = insert b (priv s)" "room s \<le> Suc (room s1)"
      "objlist s1 = objlist s" "txn_id s1 = txn_id s" "\<forall>c \<in> priv s. blk s1 c = blk s c"
  defines "t \<equiv> set32 s1 root (2048 + 4 * j) b"
  shows "index_ready root s t [b]"
proof -
  note h = alloc_host [OF s(2) a(7)]
  have nj: "n_index (pt_n s root) = j" using n_index_cases [OF n(1)] z by (simp add: j_def)
  have j: "j < 509" using n by (simp add: j_def PT_MAX_def less_mult_imp_div_less)
  have root: "root \<in> priv s" "root \<in> priv s1" using s(2) a(3) by (auto simp: pt_ok_def)
  have w: "writes_only s1 t root" unfolding t_def using j by (intro writes_only_set) simp
  have ix: "index_page t root j' = (if j' = j then b else index_page s root j')" if "j' < 511" for j'
    using that j h(2) [of j'] w32_set32_aligned [of "2048 + 4 * j" "2048 + 4 * j'" s1 root b root]
    by (auto simp: t_def index_page_def)
  have nz: "index_page s root j' \<in> priv s \<and> index_page s root j' \<noteq> root" if "j' < j" for j'
    using index_in_index_pages [of j' s root] s(2) that nj by (auto simp: pt_ok_def)
  have host: "host t root i = host s root i" if i: "i < pt_n s root" for i
  proof (cases "i < 512")
    case True
    then have "host t root i = host s1 root i" using j by (simp add: host_def t_def)
    then show ?thesis using h(3) [OF i] by simp
  next
    case False
    let ?j = "(i - 512) div 1024"
    have jj: "?j < j" using index_lt_n_index [of i "pt_n s root"] i False nj by simp
    have "w32 t (index_page s root ?j) off = w32 s1 (index_page s root ?j) off" if "off + 4 \<le> 4096" for off
      using nz [OF jj] that j by (auto simp: t_def)
    then have "host t root i = host s1 root i"
      using False jj j ix [of ?j] h(2) [of ?j] by (simp add: host_def Suc_le_eq)
    then show ?thesis using h(3) [OF i] by simp
  qed
  have lst: "index_pages s root @ [b] = map (index_page t root) [0..<Suc j]"
    unfolding index_pages_def nj using ix j by simp
  have zero: "\<forall>j' < 509. Suc j \<le> j' \<longrightarrow> index_page t root j' = 0"
    using ix s(2) nj by (auto simp: pt_ok_def)
  have "bytes t root 4084 8 = bytes s root 4084 8" using j h(4) by (simp add: t_def)
  moreover have "\<forall>c \<in> priv s - {root}. blk t c = blk s c" using a(7) writes_only_blk [OF w] by (intro ballI) (metis DiffE singletonI)
  moreover have "w32 t root 4092 = w32 s root 4092" using j h(1) by (simp add: t_def)
  moreover have "distinct (root # (index_pages s root @ [b]) @ pages s root)"
    "set (root # (index_pages s root @ [b]) @ pages s root) \<subseteq> priv s1"
    using s(2) a(2,3) by (auto simp: pt_ok_def)
  moreover have "inv t" "priv t = priv s1" "room t = room s1"
    using inv_writes [OF a(1) root(2) w] priv_writes [OF a(1) root(2) w]
      room_writes [OF a(1) root(2) w] by simp_all
  ultimately show ?thesis
    unfolding index_ready_def using lst zero host a writes_only_fields [OF w] by (simp add: j_def)
qed

lemma index_ready_old:
  fixes root :: u32 and s :: edb
  defines "j \<equiv> (pt_n s root - 512) div 1024"
  assumes s: "inv s" "pt_ok (priv s) s root" and n: "512 \<le> pt_n s root" "pt_n s root < PT_MAX"
    and z: "(pt_n s root - 512) mod 1024 \<noteq> 0"
  defines "t \<equiv> set32 s root (2048 + 4 * j) (index_page s root j)"
  shows "index_ready root s t []"
proof -
  have nj: "n_index (pt_n s root) = Suc j" using n_index_cases [OF n(1)] z by (simp add: j_def)
  have j: "j < 509" using n by (simp add: j_def PT_MAX_def less_mult_imp_div_less)
  have root: "root \<in> priv s" using s(2) by (auto simp: pt_ok_def)
  have "t = s"
    by (simp add: t_def set32_def index_page_def w32_def st32_ld32)
  then show ?thesis
    using s nj j by (auto simp: index_ready_def pt_ok_def index_pages_def simp flip: j_def)
qed

end

context block_alloc begin

text \<open>One iteration: the number of allocations it takes, and its effect.\<close>

definition grow_cost :: "nat \<Rightarrow> nat \<Rightarrow> nat" where
  "grow_cost k n = (n - k) + (n_index n - n_index k)"

lemma grow_cost_Suc:
  assumes "512 \<le> k" and "k < n"
  shows "grow_cost k n = Suc (grow_cost (Suc k) n) + (if (k - 512) mod 1024 = 0 then 1 else 0)"
proof -
  define d where "d = (k - 512) div 1024"
  have "n_index (Suc k) = Suc d" "Suc d \<le> n_index n"
    "n_index k = (if (k - 512) mod 1024 = 0 then d else Suc d)"
    using n_index_mono [of "Suc k" n] n_index_Suc [of k] n_index_cases [of k] assms
    by (simp_all add: d_def)
  then show ?thesis using assms(2) unfolding grow_cost_def by arith
qed

lemma grow_index_page:
  fixes root :: u32 and s :: edb
  defines "j \<equiv> (pt_n s root - 512) div 1024" and "z \<equiv> (pt_n s root - 512) mod 1024 = 0"
  assumes s: "inv s" "pt_ok (priv s) s root" and n: "512 \<le> pt_n s root" "pt_n s root < PT_MAX"
    and room: "z \<longrightarrow> 0 < room s"
  shows "\<exists>ib s1 t ixs. (if index_page s root j = 0 then api_alloc api s
        else api_modify api s (index_page s root j)) = Some (0, ib, s1) \<and>
      pt_set_index_block s1 (BLOCK s1 root) j ib = Some t \<and> index_page t root j = ib \<and>
      length ixs = (if z then 1 else 0) \<and> index_ready root s t ixs"
proof (cases z)
  case True
  have j: "j < 509" using n by (simp add: j_def PT_MAX_def less_mult_imp_div_less)
  have "index_page s root j = 0"
    using s(2) n_index_cases [OF n(1)] True j by (simp add: pt_ok_def j_def z_def)
  moreover obtain b s1 where a: "api_alloc api s = Some (0, b, s1)" "inv s1" "b \<notin> priv s"
      "priv s1 = insert b (priv s)" "room s \<le> Suc (room s1)" "objlist s1 = objlist s"
      "txn_id s1 = txn_id s" "\<forall>c \<in> priv s. blk s1 c = blk s c"
    using alloc_ok [OF s(1)] room True by force
  moreover have "block_ok s1 root" using priv_ok [OF a(2)] a(4) s(2) by (auto simp: pt_ok_def)
  moreover have "index_ready root s (set32 s1 root (2048 + 4 * j) b) [b]"
    using index_ready_new [OF s n _ a(2-8)] True by (simp add: j_def z_def)
  ultimately show ?thesis
    using True j by (intro exI [of _ b] exI [of _ s1] exI [of _ "set32 s1 root (2048 + 4 * j) b"]
        exI [of _ "[b]"]) (simp add: pt_access, simp add: index_page_def)
next
  case False
  have j: "j < 509" using n by (simp add: j_def PT_MAX_def less_mult_imp_div_less)
  let ?ib = "index_page s root j"
  have "?ib \<in> priv s"
    using index_in_index_pages [of j s root] s(2) n_index_cases [OF n(1)] False
    by (auto simp: pt_ok_def j_def z_def)
  then have "?ib \<noteq> 0" "api_modify api s ?ib = Some (0, ?ib, s)"
    using priv_nonzero [OF s(1)] modify_ok [OF s(1)] by auto
  moreover have "block_ok s root" using priv_ok [OF s(1)] s(2) by (auto simp: pt_ok_def)
  moreover have "index_ready root s (set32 s root (2048 + 4 * j) ?ib) []"
    using index_ready_old [OF s n] False by (simp add: j_def z_def)
  ultimately show ?thesis
    using False j by (intro exI [of _ ?ib] exI [of _ s]
        exI [of _ "set32 s root (2048 + 4 * j) ?ib"] exI [of _ "[]"])
      (simp add: pt_access, simp add: index_page_def)
qed

lemma grow_index_step:
  fixes root :: u32 and s :: edb
  assumes s: "inv s" "pt_ok (priv s) s root" and n: "512 \<le> pt_n s root" "pt_n s root < PT_MAX"
    and kn: "pt_n s root < unat n" and room: "grow_cost (pt_n s root) (unat n) \<le> room s"
  shows "\<exists>s' b ixs. page_grow_index api root n s = page_grow_index api root n s' \<and>
      grows root s s' [b] ixs \<and> grow_cost (Suc (pt_n s root)) (unat n) \<le> room s'"
proof -
  let ?j = "(pt_n s root - 512) div 1024" and ?i0 = "(pt_n s root - 512) mod 1024"
  let ?k = "w32 s root 4092"
  have cost: "grow_cost (pt_n s root) (unat n) =
      Suc (grow_cost (Suc (pt_n s root)) (unat n)) + (if ?i0 = 0 then 1 else 0)"
    by (rule grow_cost_Suc [OF n(1) kn])
  have j: "?j < 509" using n by (simp add: PT_MAX_def less_mult_imp_div_less)
  have k: "unat (INDEX0 ?k) = ?j" "unat (INDEX1 ?k) = ?i0"
    using INDEX_unat [of ?k] n(1) by (simp_all add: pt_n_def)
  obtain ib s1 t ixs where t:
      "(if index_page s root ?j = 0 then api_alloc api s
        else api_modify api s (index_page s root ?j)) = Some (0, ib, s1)"
      "pt_set_index_block s1 (BLOCK s1 root) ?j ib = Some t" "index_page t root ?j = ib"
      "length ixs = (if ?i0 = 0 then 1 else 0)" and ready: "index_ready root s t ixs"
    using grow_index_page [OF s n] cost room by force
  note r = ready [unfolded index_ready_def]
  obtain b s2 where a: "api_alloc api t = Some (0, b, s2)" "inv s2" "b \<notin> priv t"
      "priv s2 = insert b (priv t)" "room t \<le> Suc (room s2)" "objlist s2 = objlist t"
      "txn_id s2 = txn_id t" "\<forall>c \<in> priv t. blk s2 c = blk t c"
    using alloc_ok [of t] r cost room t(4) by (auto split: if_splits)
  define s4 where "s4 = set32 (set32 s2 ib (4 * ?i0) b) root 4092 (?k + 1)"
  have g: "grows root s s4 [b] ixs"
    unfolding s4_def t(3) [symmetric]
    by (rule grow_index_fill [OF n _ _ _ _ _ _ _ _ _ _ _ _ _ _ a(2-8)]) (use r in blast)+
  have "index_pages s root @ ixs = map (index_page t root) [0..<Suc ?j]" using r by blast
  then have "ib \<in> set (index_pages s root @ ixs)" using t(3) by simp
  moreover have "set (root # (index_pages s root @ ixs) @ pages s root) \<subseteq> priv t"
    "distinct (root # (index_pages s root @ ixs) @ pages s root)" using r by blast+
  ultimately have ib: "ib \<in> priv t" "ib \<noteq> root" and root: "root \<in> priv t" by auto
  have "block_ok s root" "block_ok s2 root" "block_ok s2 ib"
    using priv_ok s a(2,4) ib r by (auto simp: pt_ok_def)
  moreover have "w32 s2 root 4092 = ?k"
    using blk_w32 [of s2 root t 4092] a(8) root ready by (simp add: index_ready_def)
  moreover have "?i0 < 1024" "?k < n" using kn by (simp_all add: word_less_nat_alt pt_n_def)
  ultimately have "page_grow_index api root n s = page_grow_index api root n s4"
    using t(1,2) a(1) k j ib
    by (subst page_grow_index.simps) (simp add: pt_access s4_def)
  moreover have "grow_cost (Suc (pt_n s root)) (unat n) \<le> room s4"
    using g cost room t(4) by (auto simp: grows_def split: if_splits)
  ultimately show ?thesis using g by blast
qed

lemma page_grow_index_ok:
  assumes "inv s" and "pt_ok (priv s) s root" and "512 \<le> pt_n s root \<or> unat n \<le> pt_n s root"
    and "unat n \<le> PT_MAX" and "grow_cost (pt_n s root) (unat n) \<le> room s"
  shows "\<exists>s' bs ixs. page_grow_index api root n s = Some (0, s') \<and> grows root s s' bs ixs \<and>
    pt_n s' root = max (pt_n s root) (unat n)"
  using assms
proof (induction "unat n - pt_n s root" arbitrary: s)
  case 0
  have "block_ok s root" using 0 priv_ok by (auto simp: pt_ok_def)
  moreover have "\<not> w32 s root 4092 < n"
    using 0(1) by (simp add: pt_n_def word_less_nat_alt)
  ultimately have "page_grow_index api root n s = Some (0, s)"
    by (subst page_grow_index.simps) (simp add: pt_access)
  then show ?case using 0 grows_refl by (auto simp: max_def)
next
  case (Suc m)
  have kn: "pt_n s root < unat n" "512 \<le> pt_n s root" "pt_n s root < PT_MAX"
    using Suc.hyps(2) Suc.prems(3,4) by auto
  obtain s2 b ixs where g: "page_grow_index api root n s = page_grow_index api root n s2"
      "grows root s s2 [b] ixs" "grow_cost (Suc (pt_n s root)) (unat n) \<le> room s2"
    using grow_index_step [OF Suc.prems(1,2) kn(2,3,1) Suc.prems(5)] by blast
  have n2: "pt_n s2 root = Suc (pt_n s root)"
    using g(2) by (metis grows_def length_pages length_append_singleton)
  have s2: "inv s2" "pt_ok (priv s2) s2 root" using g(2) unfolding grows_def by blast+
  have "\<exists>s' bs ixs. page_grow_index api root n s2 = Some (0, s') \<and> grows root s2 s' bs ixs \<and>
      pt_n s' root = max (pt_n s2 root) (unat n)"
    by (rule Suc.hyps(1)) (use s2 g(3) n2 Suc.hyps(2) kn Suc.prems(4) in auto)
  then obtain s' bs ixs' where s': "page_grow_index api root n s2 = Some (0, s')" "grows root s2 s' bs ixs'"
      "pt_n s' root = max (pt_n s2 root) (unat n)"
    by blast
  have "grows root s s' ([b] @ bs) (ixs @ ixs')" by (rule grows_trans [OF g(2) s'(2)])
  then show ?case using g(1) s'(1,3) n2 kn by (auto simp: max_def)
qed

end

subsection \<open>Shrinking\<close>

context block_device begin

text \<open>What a run of frees for the table at \<open>root\<close> may change.\<close>

definition shrinks :: "u32 \<Rightarrow> edb \<Rightarrow> edb \<Rightarrow> u32 list \<Rightarrow> u32 list \<Rightarrow> bool" where
  "shrinks root s s' bs ixs \<longleftrightarrow>
     inv s' \<and> pt_ok (priv s') s' root \<and> pages s root = pages s' root @ bs \<and>
     index_pages s root = index_pages s' root @ ixs \<and> priv s' = priv s - set bs - set ixs \<and>
     room s \<le> room s' \<and> objlist s' = objlist s \<and> txn_id s' = txn_id s \<and>
     bytes s' root 4084 8 = bytes s root 4084 8 \<and>
     (\<forall>c \<in> priv s' - insert root (set (index_pages s root)). blk s' c = blk s c)"

lemma shrinks_refl: "inv s \<Longrightarrow> pt_ok (priv s) s root \<Longrightarrow> shrinks root s s [] []"
  by (simp add: shrinks_def)

lemma shrinks_trans:
  "shrinks root s s1 bs ixs \<Longrightarrow> shrinks root s1 s2 bs' ixs' \<Longrightarrow>
   shrinks root s s2 (bs' @ bs) (ixs' @ ixs)"
  unfolding shrinks_def by auto

text \<open>
  Removing the last block of a table, from what the code wrote: the count, the slot of the
  block (in the table or in index page \<open>ib\<close>) and, when the index page was freed, its slot.
\<close>

lemma shrink_last:
  fixes root :: u32 and s t :: edb
  assumes s: "inv s" "pt_ok (priv s) s root" and Suc: "pt_n s root = Suc k"
    and t: "inv t" "priv t = priv s - {host s root k} - set ixs" "room s \<le> room t"
      "objlist t = objlist s" "txn_id t = txn_id s" "bytes t root 4084 8 = bytes s root 4084 8"
      "\<forall>c \<in> priv t - insert root (set (index_pages s root)). blk t c = blk s c"
    and view: "w32 t root 4092 = w32 s root 4092 - 1"
      "\<And>i. i < k \<Longrightarrow> host t root i = host s root i"
      "\<And>j. j < 509 \<Longrightarrow> index_page t root j = (if n_index k \<le> j then 0 else index_page s root j)"
    and ixs: "index_pages s root = map (index_page s root) [0..<n_index k] @ ixs"
  shows "shrinks root s t [host s root k] ixs"
proof -
  have n: "pt_n t root = k"
    using view(1) Suc by (simp add: pt_n_def unat_sub_u32 word_le_nat_alt)
  have pages: "pages s root = pages t root @ [host s root k]"
    unfolding pages_def n Suc using view(2) by simp
  have k509: "n_index k \<le> 509"
    using n_index_bound [of k] s(2) Suc by (simp add: pt_ok_def)
  have index: "index_pages s root = index_pages t root @ ixs"
    unfolding ixs unfolding index_pages_def n using view(3) k509 by simp
  have d: "distinct (root # (index_pages t root @ ixs) @ pages t root @ [host s root k])"
    "set (root # (index_pages t root @ ixs) @ pages t root @ [host s root k]) \<subseteq> priv s"
    using s(2) unfolding pt_ok_def pages index by blast+
  then have "pt_ok (priv t) t root"
    using s(2) n Suc view(3) unfolding pt_ok_def t(2) by auto
  then show ?thesis unfolding shrinks_def using pages index t by simp
qed

lemma shrink_data_step:
  assumes s: "inv s" "pt_ok (priv s) s root" and n: "unat n < pt_n s root" "pt_n s root \<le> 512"
  shows "\<exists>s' b. page_shrink_data api root n s = page_shrink_data api root n s' \<and>
    shrinks root s s' [b] []"
proof -
  let ?w = "w32 s root 4092"
  obtain k where kn: "pt_n s root = Suc k" using n by (cases "pt_n s root") simp_all
  have root: "root \<in> priv s" and b: "host s root k \<in> priv s" "host s root k \<noteq> root"
    using host_in_pages [of k s root] kn n s(2) by (auto simp: pt_ok_def)
  obtain s1 where f: "api_free api s (host s root k) = Some (0, s1)" "inv s1"
      "priv s1 = priv s - {host s root k}" "room s \<le> room s1" "objlist s1 = objlist s"
      "txn_id s1 = txn_id s" "\<forall>c \<in> priv s. blk s1 c = blk s c"
    using free_ok [OF s(1) b(1)] by blast
  define s2 where "s2 = set32 (set32 s1 root 4092 (?w - 1)) root (4 * k) 0"
  note h = alloc_host [OF s(2) f(7)]
  have root1: "root \<in> priv s1" using root b f(3) by simp
  have w: "writes_only s1 s2 root"
    unfolding s2_def using n kn by (intro writes_only_step writes_only_refl) simp_all
  have inv2: "inv s2" "priv s2 = priv s1" "room s2 = room s1"
    using inv_writes [OF f(2) root1 w] priv_writes [OF f(2) root1 w]
      room_writes [OF f(2) root1 w] by simp_all
  have w1: "unat (?w - 1) = k" "n < ?w"
    using n kn by (simp_all add: pt_n_def unat_sub_u32 word_le_nat_alt word_less_nat_alt)
  have "shrinks root s s2 [host s root k] []"
  proof (rule shrink_last)
    show "host s2 root i = host s root i" if "i < k" for i
    proof -
      have i: "i < 511" using that n kn by linarith
      then have "w32 s2 root (4 * i) = w32 s1 root (4 * i)" using that by (simp add: s2_def)
      then show ?thesis using h(3) [of i] that i kn by (simp add: host_def)
    qed
    show "index_page s2 root j = (if n_index k \<le> j then 0 else index_page s root j)"
      if "j < 509" for j
      using that n kn h(2) [of j] s(2) by (simp add: s2_def index_page_def pt_ok_def)
    show "bytes s2 root 4084 8 = bytes s root 4084 8" using n kn h(4) by (simp add: s2_def)
    show "\<forall>c \<in> priv s2 - insert root (set (index_pages s root)). blk s2 c = blk s c"
      using writes_only_blk [OF w] f(3,7) inv2(2) by (intro ballI) (metis DiffD1 DiffD2 insertI1)
  qed (use s n kn f inv2 writes_only_fields [OF w] in \<open>simp_all add: s2_def index_pages_def\<close>)
  moreover have "block_ok s root" "block_ok s1 root" using priv_ok s f(2) root root1 by blast+
  then have "page_shrink_data api root n s = page_shrink_data api root n s2"
    using w1 kn n f(1) h(1)
    by (subst page_shrink_data.simps) (simp add: pt_access host_def s2_def)
  ultimately show ?thesis by blast
qed

lemma page_shrink_data_ok:
  assumes "inv s" and "pt_ok (priv s) s root" and "pt_n s root \<le> max 512 (unat n)"
  shows "\<exists>s' bs. page_shrink_data api root n s = Some (0, s') \<and> shrinks root s s' bs [] \<and>
    pt_n s' root = min (pt_n s root) (unat n)"
  using assms
proof (induction "pt_n s root - unat n" arbitrary: s)
  case 0
  have "block_ok s root" using 0 priv_ok by (auto simp: pt_ok_def)
  moreover have "\<not> n < w32 s root 4092"
    using 0(1) by (simp add: pt_n_def word_less_nat_alt)
  ultimately have "page_shrink_data api root n s = Some (0, s)"
    by (subst page_shrink_data.simps) (simp add: pt_access)
  then show ?case using 0 shrinks_refl by (auto simp: min_def)
next
  case (Suc m)
  have k: "unat n < pt_n s root" "pt_n s root \<le> 512" using Suc.hyps(2) Suc.prems(3) by auto
  obtain s2 b where g: "page_shrink_data api root n s = page_shrink_data api root n s2"
      "shrinks root s s2 [b] []"
    using shrink_data_step [OF Suc.prems(1,2) k] by blast
  have s2: "inv s2" "pt_ok (priv s2) s2 root" using g(2) unfolding shrinks_def by blast+
  have n2: "Suc (pt_n s2 root) = pt_n s root"
    using g(2) by (metis shrinks_def length_pages length_append_singleton)
  have "\<exists>s' bs. page_shrink_data api root n s2 = Some (0, s') \<and> shrinks root s2 s' bs [] \<and>
      pt_n s' root = min (pt_n s2 root) (unat n)"
    by (rule Suc.hyps(1)) (use s2 n2 Suc.hyps(2) k in auto)
  then obtain s' bs where s': "page_shrink_data api root n s2 = Some (0, s')"
      "shrinks root s2 s' bs []" "pt_n s' root = min (pt_n s2 root) (unat n)"
    by blast
  have "shrinks root s s' (bs @ [b]) ([] @ [])" by (rule shrinks_trans [OF g(2) s'(2)])
  then show ?case using g(1) s'(1,3) n2 k by (auto simp: min_def)
qed

end

context block_device begin

text \<open>
  An iteration of the loop that shrinks the index pages, up to the test of the index page:
  the data block is freed and its slot cleared.
\<close>

lemma shrink_index_clear:
  fixes root :: u32 and s :: edb and n :: u32
  defines "k \<equiv> pt_n s root - 1"
  defines "j \<equiv> (k - 512) div 1024" and "i0 \<equiv> (k - 512) mod 1024"
  assumes s: "inv s" "pt_ok (priv s) s root" and n: "unat n < pt_n s root" "512 < pt_n s root"
  shows "\<exists>s2. page_shrink_index api root n s =
      do { (err, index_block, s) \<leftarrow>
             (if i0 = 0
              then do { (err, s) \<leftarrow> api_free api s2 (index_page s root j); Some (err, 0, s) }
              else api_modify api s2 (index_page s root j));
           if err \<noteq> 0 then Some (err, s)
           else do { s \<leftarrow> pt_set_index_block s (BLOCK s root) j index_block;
                     k' \<leftarrow> pt_nblocks s (BLOCK s root);
                     s \<leftarrow> pt_set_nblocks s (BLOCK s root) (k' - 1);
                     page_shrink_index api root n s } } \<and>
    inv s2 \<and> priv s2 = priv s - {host s root k} \<and> room s \<le> room s2 \<and>
    objlist s2 = objlist s \<and> txn_id s2 = txn_id s \<and>
    (\<forall>c \<in> priv s - {index_page s root j}. blk s2 c = blk s c) \<and>
    (\<forall>i < 1024. i \<noteq> i0 \<longrightarrow> w32 s2 (index_page s root j) (4 * i) = w32 s (index_page s root j) (4 * i))"
proof -
  let ?w = "w32 s root 4092" and ?ib = "index_page s root j"
  have nk: "pt_n s root = Suc k" using n by (simp add: k_def)
  then have k512: "512 \<le> k" using n by simp
  have jn: "j < n_index (pt_n s root)"
    using index_lt_n_index [of k "pt_n s root"] k512 nk by (simp add: j_def)
  have j: "j < 509" using jn n_index_bound [of "pt_n s root"] s(2) by (simp add: pt_ok_def)
  have i0: "i0 < 1024" by (simp add: i0_def)
  have host: "host s root k = w32 s ?ib (4 * i0)" using k512 by (simp add: host_def j_def i0_def)
  have in_s: "?ib \<in> priv s" "host s root k \<in> priv s" "root \<in> priv s"
    and ne: "?ib \<noteq> root" "host s root k \<noteq> root" "?ib \<noteq> host s root k"
    using index_in_index_pages [OF jn] host_in_pages [of k s root] nk s(2)
    by (auto simp: pt_ok_def)
  have w1: "unat (?w - 1) = k" using nk by (simp add: pt_n_def unat_sub_u32 word_le_nat_alt)
  have lt: "n < ?w" "LEVEL_ONE < ?w" using n by (simp_all add: pt_n_def word_less_nat_alt)
  have ix: "unat (INDEX0 (?w - 1)) = j" "unat (INDEX1 (?w - 1)) = i0"
    using INDEX_unat [of "?w - 1"] w1 k512 by (simp_all add: j_def i0_def)
  have z: "INDEX1 (?w - 1) = 0 \<longleftrightarrow> i0 = 0" using ix(2) by (metis unat_eq_zero)
  obtain s1 where f: "api_free api s (host s root k) = Some (0, s1)" "inv s1"
      "priv s1 = priv s - {host s root k}" "room s \<le> room s1" "objlist s1 = objlist s"
      "txn_id s1 = txn_id s" "\<forall>c \<in> priv s. blk s1 c = blk s c"
    using free_ok [OF s(1) in_s(2)] by blast
  define s2 where "s2 = set32 s1 ?ib (4 * i0) 0"
  have p1: "?ib \<in> priv s1" "root \<in> priv s1" using in_s ne f(3) by auto
  have w: "writes_only s1 s2 ?ib" unfolding s2_def using i0 by (intro writes_only_set) simp
  have ok: "block_ok s root" "block_ok s ?ib" "block_ok s1 root" "block_ok s1 ?ib"
    using priv_ok s(1) f(2) in_s p1 by blast+
  have "w32 s2 root 4092 = ?w"
    using blk_w32 [of s1 root s 4092] f(7) in_s ne i0 by (simp add: s2_def)
  then have step: "page_shrink_index api root n s =
      do { (err, index_block, s) \<leftarrow>
             (if i0 = 0
              then do { (err, s) \<leftarrow> api_free api s2 (index_page s root j); Some (err, 0, s) }
              else api_modify api s2 (index_page s root j));
           if err \<noteq> 0 then Some (err, s)
           else do { s \<leftarrow> pt_set_index_block s (BLOCK s root) j index_block;
                     k' \<leftarrow> pt_nblocks s (BLOCK s root);
                     s \<leftarrow> pt_set_nblocks s (BLOCK s root) (k' - 1);
                     page_shrink_index api root n s } }"
    using lt ix j i0 f(1) host ok z
    by (subst page_shrink_index.simps) (simp add: pt_access s2_def cong: if_cong)
  have "w32 s2 ?ib (4 * i) = w32 s ?ib (4 * i)" if "i < 1024" "i \<noteq> i0" for i
  proof -
    have "w32 s2 ?ib (4 * i) = w32 s1 ?ib (4 * i)"
      using that i0 w32_set32_aligned [of "4 * i0" "4 * i" s1 ?ib 0 ?ib] by (simp add: s2_def)
    then show ?thesis using blk_w32 [of s1 ?ib s "4 * i"] f(7) in_s that by simp
  qed
  moreover have "blk s2 c = blk s c" if "c \<in> priv s" "c \<noteq> ?ib" for c
    using that f(7) writes_only_blk [OF w] by metis
  ultimately show ?thesis
    using step f inv_writes [OF f(2) p1(1) w] priv_writes [OF f(2) p1(1) w]
      room_writes [OF f(2) p1(1) w] writes_only_fields [OF w]
    by (intro exI [of _ s2]) simp
qed

text \<open>The rest of the iteration: the index page is freed when its first slot was the one.\<close>

lemma shrink_index_page:
  assumes s2: "inv s2" "ib \<in> priv s2"
  shows "\<exists>ib' s3. (if z then do { (err, s) \<leftarrow> api_free api s2 ib; Some (err, 0, s) }
      else api_modify api s2 ib) = Some (0, ib', s3) \<and> ib' = (if z then 0 else ib) \<and> inv s3 \<and>
    priv s3 = priv s2 - set (if z then [ib] else []) \<and> room s2 \<le> room s3 \<and>
    objlist s3 = objlist s2 \<and> txn_id s3 = txn_id s2 \<and> (\<forall>c \<in> priv s2. blk s3 c = blk s2 c)"
proof (cases z)
  case True
  then show ?thesis using free_ok [OF s2] by auto
next
  case False
  then show ?thesis using modify_ok [OF s2] s2 by auto
qed

lemma shrink_index_step:
  fixes root :: u32 and s :: edb
  assumes s: "inv s" "pt_ok (priv s) s root" and n: "unat n < pt_n s root" "512 < pt_n s root"
  shows "\<exists>s' b ixs. page_shrink_index api root n s = page_shrink_index api root n s' \<and>
    shrinks root s s' [b] ixs"
proof -
  obtain k where nk: "pt_n s root = Suc k" using n by (cases "pt_n s root") simp_all
  have k512: "512 \<le> k" using nk n by simp
  define j where "j = (k - 512) div 1024"
  define i0 where "i0 = (k - 512) mod 1024"
  define z where "z \<longleftrightarrow> i0 = 0"
  let ?w = "w32 s root 4092" and ?ib = "index_page s root j"
  define ixs where "ixs = (if z then [?ib] else [])"
  obtain s2 where step: "page_shrink_index api root n s =
      do { (err, index_block, s) \<leftarrow>
             (if z then do { (err, s) \<leftarrow> api_free api s2 ?ib; Some (err, 0, s) }
              else api_modify api s2 ?ib);
           if err \<noteq> 0 then Some (err, s)
           else do { s \<leftarrow> pt_set_index_block s (BLOCK s root) j index_block;
                     k' \<leftarrow> pt_nblocks s (BLOCK s root);
                     s \<leftarrow> pt_set_nblocks s (BLOCK s root) (k' - 1);
                     page_shrink_index api root n s } }"
    and 2: "inv s2" "priv s2 = priv s - {host s root k}" "room s \<le> room s2"
      "objlist s2 = objlist s" "txn_id s2 = txn_id s"
      "\<forall>c \<in> priv s - {?ib}. blk s2 c = blk s c"
      "\<forall>i < 1024. i \<noteq> i0 \<longrightarrow> w32 s2 ?ib (4 * i) = w32 s ?ib (4 * i)"
    using shrink_index_clear [OF s n] unfolding nk diff_Suc_1 z_def i0_def j_def by blast
  have jn: "j < n_index (Suc k)"
    using index_lt_n_index [of k "Suc k"] k512 by (simp add: j_def)
  have nk': "n_index (Suc k) = Suc j" "n_index k = (if z then j else Suc j)"
    using n_index_Suc [OF k512] n_index_cases [OF k512] by (simp_all add: j_def z_def i0_def)
  have j: "j < 509" using jn n_index_bound [of "Suc k"] s(2) nk by (simp add: pt_ok_def)
  have in_s: "?ib \<in> priv s" "host s root k \<in> priv s" "root \<in> priv s"
    and ne: "?ib \<noteq> root" "host s root k \<noteq> root" "?ib \<noteq> host s root k"
    using index_in_index_pages [of j s root] jn host_in_pages [of k s root] nk s(2)
    by (auto simp: pt_ok_def)
  have "?ib \<in> priv s2" using in_s ne 2(2) by simp
  then obtain s3 where 3: "(if z then do { (err, s) \<leftarrow> api_free api s2 ?ib; Some (err, 0, s) }
        else api_modify api s2 ?ib) = Some (0, if z then 0 else ?ib, s3)" "inv s3"
      "priv s3 = priv s2 - set ixs" "room s2 \<le> room s3" "objlist s3 = objlist s2"
      "txn_id s3 = txn_id s2" "\<forall>c \<in> priv s2. blk s3 c = blk s2 c"
    using shrink_index_page [OF 2(1), of ?ib z] unfolding ixs_def by blast
  define s5 where "s5 = set32 (set32 s3 root (2048 + 4 * j) (if z then 0 else ?ib)) root 4092 (?w - 1)"
  have root3: "root \<in> priv s3" using in_s ne 2(2) 3(3) by (simp add: ixs_def)
  have w: "writes_only s3 s5 root"
    unfolding s5_def using j by (intro writes_only_step writes_only_refl) simp_all
  have blk3: "blk s3 c = blk s c" if "c \<in> priv s2" "c \<noteq> ?ib" for c
    using that 2(2,6) 3(7) by simp
  then have root_w: "w32 s3 root off = w32 s root off" if "off + 4 \<le> 4096" for off
    using blk_w32 [of s3 root s off] in_s ne 2(2) that by simp
  have "block_ok s3 root" by (rule priv_ok [OF 3(2) root3])
  then have step5: "page_shrink_index api root n s = page_shrink_index api root n s5"
    unfolding step 3(1) using j root_w [of 4092] by (simp add: pt_access s5_def)
  have ix: "index_page s5 root j' = (if n_index k \<le> j' then 0 else index_page s root j')"
    if "j' < 509" for j'
    using that j nk' nk s(2) root_w [of "2048 + 4 * j'"]
      w32_set32_aligned [of "2048 + 4 * j" "2048 + 4 * j'" s3 root "if z then 0 else ?ib" root]
    by (auto simp: s5_def index_page_def pt_ok_def)
  have "shrinks root s s5 [host s root k] ixs"
  proof (rule shrink_last [OF s nk])
    show "host s5 root i = host s root i" if i: "i < k" for i
    proof (cases "i < 512")
      case True
      then show ?thesis using root_w [of "4 * i"] j by (simp add: host_def s5_def)
    next
      case False
      define jj where "jj = (i - 512) div 1024"
      define ii where "ii = (i - 512) mod 1024"
      let ?p = "index_page s root jj"
      have jk: "jj < n_index k" using index_lt_n_index [of i k] i False by (simp add: jj_def)
      then have jj: "jj < n_index (pt_n s root)" using nk nk' by (simp split: if_splits)
      have j509: "jj < 509" using jk nk' j by (simp split: if_splits)
      have p: "?p \<in> priv s2" "?p \<noteq> root"
        using index_in_index_pages [OF jj] host_in_pages [of k s root] nk s(2) 2(2)
        by (auto simp: pt_ok_def)
      have ii: "ii < 1024" by (simp add: ii_def)
      have "w32 s5 ?p (4 * ii) = w32 s3 ?p (4 * ii)"
        using blk_w32 [OF writes_only_blk [OF w]] p(2) ii by simp
      also have "\<dots> = w32 s ?p (4 * ii)"
      proof (cases "?p = ?ib")
        case True
        then have "jj = j" using s(2) jj jn nk
          by (metis pt_ok_def distinct.simps(2) distinct_append length_index_pages
              nth_eq_iff_index_eq nth_index_pages)
        moreover have "i - 512 \<noteq> k - 512" using i False by simp
        ultimately have "ii \<noteq> i0" unfolding ii_def i0_def jj_def j_def
          by (metis div_mult_mod_eq)
        then show ?thesis using True 2(7) 3(7) ii p(1) blk_w32 [of s3 ?ib s2 "4 * ii"] by simp
      next
        case False
        then show ?thesis using blk_w32 [OF blk3 [OF p(1)]] ii by simp
      qed
      finally show ?thesis
        using False ix [OF j509] jk by (simp add: host_def jj_def ii_def)
    qed
    show "bytes s5 root 4084 8 = bytes s root 4084 8"
      using j blk_bytes [of s3 root s 4084 8] blk3 [of root] in_s ne 2(2) by (simp add: s5_def)
    show "\<forall>c \<in> priv s5 - insert root (set (index_pages s root)). blk s5 c = blk s c"
    proof
      fix c assume c: "c \<in> priv s5 - insert root (set (index_pages s root))"
      then have "c \<in> priv s2" "c \<noteq> ?ib"
        using priv_writes [OF 3(2) root3 w] 3(3) index_in_index_pages [of j s root] jn nk by auto
      then show "blk s5 c = blk s c"
        using c blk3 writes_only_blk [OF w, of c] by auto
    qed
    show "index_pages s root = map (index_page s root) [0..<n_index k] @ ixs"
      using nk' by (simp add: index_pages_def nk ixs_def)
    show "w32 s5 root 4092 = ?w - 1" by (simp add: s5_def)
    show "inv s5" by (rule inv_writes [OF 3(2) root3 w])
    show "priv s5 = priv s - {host s root k} - set ixs"
      using priv_writes [OF 3(2) root3 w] 2(2) 3(3) by simp
    show "room s \<le> room s5" using room_writes [OF 3(2) root3 w] 2(3) 3(4) by simp
    show "objlist s5 = objlist s" "txn_id s5 = txn_id s"
      using 2(4,5) 3(5,6) by (simp_all add: s5_def)
  qed (rule ix)
  then show ?thesis using step5 by blast
qed

end

context block_device begin

lemma page_shrink_index_ok:
  assumes "inv s" and "pt_ok (priv s) s root"
  shows "\<exists>s' bs ixs. page_shrink_index api root n s = Some (0, s') \<and> shrinks root s s' bs ixs \<and>
    pt_n s' root = min (pt_n s root) (max 512 (unat n))"
  using assms
proof (induction "pt_n s root - max 512 (unat n)" arbitrary: s)
  case 0
  have "block_ok s root" using 0 priv_ok by (auto simp: pt_ok_def)
  moreover have "\<not> (n < w32 s root 4092 \<and> LEVEL_ONE < w32 s root 4092)"
    using 0(1) by (auto simp: pt_n_def word_less_nat_alt)
  ultimately have "page_shrink_index api root n s = Some (0, s)"
    by (subst page_shrink_index.simps) (auto simp: pt_access)
  then show ?case using 0 shrinks_refl by (auto simp: min_def)
next
  case (Suc m)
  have k: "unat n < pt_n s root" "512 < pt_n s root" using Suc.hyps(2) by auto
  obtain s2 b ixs where g: "page_shrink_index api root n s = page_shrink_index api root n s2"
      "shrinks root s s2 [b] ixs"
    using shrink_index_step [OF Suc.prems(1,2) k] by blast
  have s2: "inv s2" "pt_ok (priv s2) s2 root" using g(2) unfolding shrinks_def by blast+
  have n2: "Suc (pt_n s2 root) = pt_n s root"
    using g(2) by (metis shrinks_def length_pages length_append_singleton)
  have "\<exists>s' bs ixs. page_shrink_index api root n s2 = Some (0, s') \<and> shrinks root s2 s' bs ixs \<and>
      pt_n s' root = min (pt_n s2 root) (max 512 (unat n))"
    by (rule Suc.hyps(1)) (use s2 n2 Suc.hyps(2) k in auto)
  then obtain s' bs ixs' where s': "page_shrink_index api root n s2 = Some (0, s')"
      "shrinks root s2 s' bs ixs'" "pt_n s' root = min (pt_n s2 root) (max 512 (unat n))"
    by blast
  have "shrinks root s s' (bs @ [b]) (ixs' @ ixs)" by (rule shrinks_trans [OF g(2) s'(2)])
  then show ?case using g(1) s'(1,3) n2 k by (auto simp: min_def)
qed

end

context block_alloc begin

lemma loops_idle:
  assumes "inv s" and "pt_ok (priv s) s root"
  shows "pt_n s root \<le> unat n \<Longrightarrow> page_shrink_index api root n s = Some (0, s)"
    and "pt_n s root \<le> unat n \<Longrightarrow> page_shrink_data api root n s = Some (0, s)"
    and "unat n \<le> pt_n s root \<Longrightarrow> page_grow_data api root n s = Some (0, s)"
    and "unat n \<le> pt_n s root \<Longrightarrow> page_grow_index api root n s = Some (0, s)"
proof -
  have ok: "block_ok s root" using assms priv_ok by (auto simp: pt_ok_def)
  show "page_shrink_index api root n s = Some (0, s)" "page_shrink_data api root n s = Some (0, s)"
    if "pt_n s root \<le> unat n"
    using that ok by (subst page_shrink_index.simps page_shrink_data.simps;
      simp add: pt_access pt_n_def word_less_nat_alt)+
  show "page_grow_data api root n s = Some (0, s)" "page_grow_index api root n s = Some (0, s)"
    if "unat n \<le> pt_n s root"
    using that ok by (subst page_grow_data.simps page_grow_index.simps;
      simp add: pt_access pt_n_def word_less_nat_alt)+
qed

text \<open>\<open>page_resize\<close> extends a table with new blocks, or cuts it and frees the rest.\<close>

lemma page_resize_grow:
  assumes s: "inv s" "pt_ok (priv s) s root" and n: "pt_n s root \<le> unat n" "unat n \<le> PT_MAX"
    and room: "grow_cost (pt_n s root) (unat n) \<le> room s"
  shows "\<exists>s' bs ixs. page_resize api s root n = Some (0, s') \<and> grows root s s' bs ixs \<and>
    pt_n s' root = unat n"
proof -
  have mod: "api_modify api s root = Some (0, root, s)"
    using modify_ok [OF s(1)] s(2) by (auto simp: pt_ok_def)
  have room0: "min (unat n) 512 - pt_n s root \<le> room s"
    using room unfolding grow_cost_def by linarith
  obtain s1 bs where 1: "page_grow_data api root n s = Some (0, s1)" "grows root s s1 bs []"
      "pt_n s1 root = max (pt_n s root) (min (unat n) 512)"
    using page_grow_data_ok [OF s room0] by blast
  have s1: "inv s1" "pt_ok (priv s1) s1 root" using 1(2) unfolding grows_def by blast+
  have len: "pt_n s1 root = pt_n s root + length bs"
    using 1(2) by (metis grows_def length_pages length_append)
  have "n_index (pt_n s1 root) = n_index (pt_n s root)" using 1(3) n by (simp add: max_def)
  moreover have "room s \<le> room s1 + length bs" using 1(2) by (simp add: grows_def)
  moreover have "pt_n s1 root \<le> unat n" using 1(3) n by simp
  ultimately have room1: "grow_cost (pt_n s1 root) (unat n) \<le> room s1"
    using room len unfolding grow_cost_def by linarith
  obtain s2 bs' ixs where 2: "page_grow_index api root n s1 = Some (0, s2)" "grows root s1 s2 bs' ixs"
      "pt_n s2 root = max (pt_n s1 root) (unat n)"
    using page_grow_index_ok [OF s1, of n] 1(3) n room1 by (auto simp: max_def min_def split: if_splits)
  have s2: "inv s2" "pt_ok (priv s2) s2 root" using 2(2) unfolding grows_def by blast+
  have n2: "pt_n s2 root = unat n" using 2(3) 1(3) n by simp
  have "page_resize api s root n = Some (0, s2)"
    using mod 1(1) 2(1) loops_idle [OF s2, of n] n2 by (simp add: page_resize_def)
  then show ?thesis using grows_trans [OF 1(2) 2(2)] n2 by blast
qed

end

context block_device begin

lemma page_resize_shrink:
  assumes s: "inv s" "pt_ok (priv s) s root" and n: "unat n \<le> pt_n s root"
  shows "\<exists>s' bs ixs. page_resize api s root n = Some (0, s') \<and> shrinks root s s' bs ixs \<and>
    pt_n s' root = unat n"
proof -
  have mod: "api_modify api s root = Some (0, root, s)"
    using modify_ok [OF s(1)] s(2) by (auto simp: pt_ok_def)
  obtain s1 bs ixs where 1: "page_shrink_index api root n s = Some (0, s1)" "shrinks root s s1 bs ixs"
      "pt_n s1 root = min (pt_n s root) (max 512 (unat n))"
    using page_shrink_index_ok [OF s, of n] by blast
  have s1: "inv s1" "pt_ok (priv s1) s1 root" using 1(2) unfolding shrinks_def by blast+
  obtain s2 bs' where 2: "page_shrink_data api root n s1 = Some (0, s2)" "shrinks root s1 s2 bs' []"
      "pt_n s2 root = min (pt_n s1 root) (unat n)"
    using page_shrink_data_ok [OF s1, of n] 1(3) by auto
  have "page_resize api s root n = Some (0, s2)"
    using mod 1(1) 2(1) loops_idle(3,4) [OF s n] by (simp add: page_resize_def)
  then show ?thesis using shrinks_trans [OF 1(2) 2(2)] 1(3) 2(3) n by auto
qed

end

subsection \<open>Reading and writing through a table\<close>

lemma page_read_host_index_ok:
  assumes "\<forall>c \<in> P. block_ok s c" and "pt_ok P s root"
  shows "page_read_host_index s root i = (if unat i < pt_n s root
    then Some (0, pages s root ! unat i) else Some (EDB_ERR_PAGE_OUT_OF_BOUNDS, -1))"
proof -
  have ok: "block_ok s root" using assms by (simp add: pt_ok_def)
  have "page_read_host_index s root i = Some (0, host s root (unat i))"
    if i: "unat i < pt_n s root" "512 \<le> unat i"
  proof -
    let ?j = "(unat i - 512) div 1024"
    have jn: "?j < n_index (pt_n s root)" using index_lt_n_index i by simp
    then have "?j < 509" using n_index_bound [of "pt_n s root"] assms(2) by (simp add: pt_ok_def)
    moreover have "block_ok s (index_page s root ?j)"
      using index_in_index_pages [OF jn] assms by (auto simp: pt_ok_def)
    ultimately show ?thesis
      using i ok INDEX_unat [OF i(2)]
      by (simp add: page_read_host_index_def pt_access word_le_nat_alt lt_LEVEL_ONE host_def
          pt_n_def) (use unat_eq_zero in force)
  qed
  moreover have "page_read_host_index s root i = Some (0, host s root (unat i))"
    if i: "unat i < pt_n s root" "unat i < 512"
    using i ok by (simp add: page_read_host_index_def pt_access word_le_nat_alt lt_LEVEL_ONE host_def
          pt_n_def) (use unat_eq_zero in force)
  moreover have "page_read_host_index s root i = Some (EDB_ERR_PAGE_OUT_OF_BOUNDS, -1)"
    if "\<not> unat i < pt_n s root"
    using that ok by (simp add: page_read_host_index_def pt_access word_le_nat_alt pt_n_def)
  ultimately show ?thesis by (cases "unat i < 512") (auto simp: nth_pages)
qed

context block_alloc begin

text \<open>In a private table nothing has to be copied: a write access is a read access.\<close>

lemma page_write_host_index_ok:
  assumes s: "inv s" "pt_ok (priv s) s root" and i: "unat i < pt_n s root"
  shows "page_write_host_index api s root i = Some (0, pages s root ! unat i, s)"
proof -
  have root: "root \<in> priv s" and b: "host s root (unat i) \<in> priv s"
    using s(2) host_in_pages [OF i] by (auto simp: pt_ok_def)
  have ok: "block_ok s root" by (rule priv_ok [OF s(1) root])
  have m: "api_modify api s root = Some (0, root, s)"
    "api_modify api s (host s root (unat i)) = Some (0, host s root (unat i), s)"
    using modify_ok [OF s(1)] root b by blast+
  have nz: "w32 s root 4092 \<noteq> 0" "\<not> w32 s root 4092 \<le> i"
    using i by (auto simp: pt_n_def word_le_nat_alt)
  show ?thesis
  proof (cases "unat i < 512")
    case True
    then show ?thesis using m nz ok
      by (simp add: page_write_host_index_def pt_access lt_LEVEL_ONE host_def nth_pages [OF i])
  next
    case False
    let ?j = "(unat i - 512) div 1024"
    have jn: "?j < n_index (pt_n s root)" using index_lt_n_index i False by simp
    then have j: "?j < 509" using n_index_bound [of "pt_n s root"] s(2) by (simp add: pt_ok_def)
    have ib: "index_page s root ?j \<in> priv s"
      using index_in_index_pages [OF jn] s(2) by (auto simp: pt_ok_def)
    have "api_modify api s (index_page s root ?j) = Some (0, index_page s root ?j, s)"
      by (rule modify_ok [OF s(1) ib])
    then show ?thesis
      using m nz ok j False INDEX_unat [of i] priv_ok [OF s(1) ib]
      by (simp add: page_write_host_index_def pt_access lt_LEVEL_ONE host_def nth_pages [OF i])
  qed
qed

end

end
