(* ===== verification/Edb_Array_Correct.thy ===== *)
theory Edb_Array_Correct
  imports Edb_Array Page_Correct
begin

text \<open>
  Correctness of arrays: \<open>arr s root\<close> is the list of items of the array at \<open>root\<close>, wherever
  they are stored, and \<open>arr_ok P s root\<close> the invariant of an array all of whose blocks are
  in \<open>P\<close>.  The operations refine the list operations, through both layouts and the moves
  between them.
\<close>

subsection \<open>Items and their places\<close>

definition isz :: "edb \<Rightarrow> u32 \<Rightarrow> nat" where "isz s root = unat (w8 s root 4084)"
definition alen :: "edb \<Rightarrow> u32 \<Rightarrow> nat" where "alen s root = unat (w32 s root 4088)"
definition small :: "edb \<Rightarrow> u32 \<Rightarrow> nat" where "small s root = 4084 div isz s root"
definition ipb :: "edb \<Rightarrow> u32 \<Rightarrow> nat" where "ipb s root = 4096 div isz s root"

definition acap :: "edb \<Rightarrow> u32 \<Rightarrow> nat" where
  "acap s root = (if pt_n s root = 0 then small s root else pt_n s root * ipb s root)"

definition place :: "edb \<Rightarrow> u32 \<Rightarrow> nat \<Rightarrow> u32 \<times> nat" where
  "place s root i =
     (if pt_n s root = 0 then (root, i * isz s root)
      else (pages s root ! (i div ipb s root), (i mod ipb s root) * isz s root))"

definition item :: "edb \<Rightarrow> u32 \<Rightarrow> nat \<Rightarrow> u8 list" where
  "item s root i = bytes s (fst (place s root i)) (snd (place s root i)) (isz s root)"

definition arr :: "edb \<Rightarrow> u32 \<Rightarrow> u8 list list" where
  "arr s root = map (item s root) [0..<alen s root]"

text \<open>
  A small array keeps the bytes behind its last item zero, because they become part of the
  list of index pages when it grows.
\<close>

definition arr_shape :: "u32 set \<Rightarrow> edb \<Rightarrow> u32 \<Rightarrow> bool" where
  "arr_shape P s root \<longleftrightarrow> root \<in> P \<and> 0 < isz s root \<and>
     (if pt_n s root = 0
      then \<forall>off. small s root * isz s root \<le> off \<longrightarrow> off < 4084 \<longrightarrow> w8 s root off = 0
      else pt_ok P s root)"

definition arr_ok :: "u32 set \<Rightarrow> edb \<Rightarrow> u32 \<Rightarrow> bool" where
  "arr_ok P s root \<longleftrightarrow> arr_shape P s root \<and> alen s root \<le> acap s root"

lemma arr_ok_shape: "arr_ok P s root \<Longrightarrow> arr_shape P s root"
  by (simp add: arr_ok_def)

lemmas arr_ok_defs = arr_ok_def arr_shape_def

text \<open>The blocks of an array.\<close>

definition afoot :: "edb \<Rightarrow> u32 \<Rightarrow> u32 set" where
  "afoot s root = insert root (set (index_pages s root) \<union> set (pages s root))"

lemma afoot_small: "pt_n s root = 0 \<Longrightarrow> afoot s root = {root}"
  by (simp add: afoot_def index_pages_def pages_def)

lemma afoot_private: "arr_ok P s root \<Longrightarrow> afoot s root \<subseteq> P"
  by (cases "pt_n s root = 0") (simp add: afoot_small arr_ok_defs, auto simp: arr_ok_defs pt_ok_def afoot_def)

lemma length_arr [simp]: "length (arr s root) = alen s root"
  by (simp add: arr_def)

lemma nth_arr: "i < alen s root \<Longrightarrow> arr s root ! i = item s root i"
  by (simp add: arr_def)

lemma length_bytes [simp]: "length (bytes s b off n) = n"
  by (simp add: bytes_def)

lemma length_item [simp]: "length (item s root i) = isz s root"
  by (simp add: item_def)

lemma isz_bound: "isz s root < 256"
  using unsigned_less [of "w8 s root 4084"] by (simp add: isz_def)

lemma ipb_bounds:
  assumes "0 < isz s root"
  shows "0 < ipb s root" "ipb s root \<le> 4096" "ipb s root * isz s root \<le> 4096"
    "small s root * isz s root \<le> 4084" "small s root \<le> 4084" "small s root \<le> ipb s root" "0 < small s root"
proof -
  show "0 < ipb s root" "0 < small s root"
    using assms isz_bound [of s root] by (simp_all add: ipb_def small_def div_greater_zero_iff)
  show "ipb s root \<le> 4096" "small s root \<le> 4084" by (simp_all add: ipb_def small_def)
  show "ipb s root * isz s root \<le> 4096" "small s root * isz s root \<le> 4084"
    using div_times_less_eq_dividend [of 4096 "isz s root"] div_times_less_eq_dividend [of 4084 "isz s root"]
    by (simp_all add: ipb_def small_def)
  show "small s root \<le> ipb s root" by (simp add: ipb_def small_def div_le_mono)
qed

lemma slot_fits: "i < n \<Longrightarrow> n * w \<le> m \<Longrightarrow> i * w + w \<le> (m :: nat)"
  by (metis Suc_leI add.commute le_trans mult_Suc mult_le_mono1)

lemma slots_apart: "i \<noteq> j \<Longrightarrow> i * w + w \<le> j * w \<or> j * w + w \<le> (i * w :: nat)"
  by (metis add.commute linorder_neqE_nat mult_Suc mult_le_mono1 Suc_leI)

lemma place_props:
  assumes ok: "arr_shape P s root" and i: "i < acap s root"
  shows "fst (place s root i) \<in> P"
    and "snd (place s root i) + isz s root \<le> (if pt_n s root = 0 then small s root * isz s root else 4096)"
    and "pt_n s root \<noteq> 0 \<Longrightarrow> fst (place s root i) \<in> set (pages s root) \<and>
      i div ipb s root < pt_n s root"
proof -
  have sz: "0 < isz s root" using ok by (simp add: arr_ok_defs)
  note b = ipb_bounds [OF sz]
  show 3: "fst (place s root i) \<in> set (pages s root) \<and> i div ipb s root < pt_n s root"
    if "pt_n s root \<noteq> 0"
  proof -
    have "i div ipb s root < pt_n s root" using i that b(1) by (simp add: acap_def less_mult_imp_div_less)
    then show ?thesis using that by (simp add: place_def)
  qed
  show "fst (place s root i) \<in> P"
  proof (cases "pt_n s root = 0")
    case True
    then show ?thesis using ok by (simp add: place_def arr_ok_defs)
  next
    case False
    then show ?thesis using 3 ok by (auto simp: arr_ok_defs pt_ok_def)
  qed
  show "snd (place s root i) + isz s root \<le> (if pt_n s root = 0 then small s root * isz s root else 4096)"
  proof (cases "pt_n s root = 0")
    case True
    then show ?thesis using i slot_fits [OF _ order_refl, of i] by (simp add: place_def acap_def)
  next
    case False
    have "i mod ipb s root < ipb s root" using b(1) by simp
    then show ?thesis using slot_fits [OF _ b(3)] False by (simp add: place_def)
  qed
qed

lemma place_in_afoot:
  "arr_shape P s root \<Longrightarrow> i < acap s root \<Longrightarrow> fst (place s root i) \<in> afoot s root"
  using place_props(3) [of P s root i]
  by (cases "pt_n s root = 0") (auto simp: afoot_def place_def)

lemma places_apart:
  assumes ok: "arr_ok P s root" and i: "i < acap s root" and j: "j < acap s root" and ij: "i \<noteq> j"
  shows "fst (place s root i) \<noteq> fst (place s root j) \<or>
    snd (place s root i) + isz s root \<le> snd (place s root j) \<or>
    snd (place s root j) + isz s root \<le> snd (place s root i)"
proof (cases "pt_n s root = 0")
  case True
  then show ?thesis using slots_apart [OF ij] by (simp add: place_def)
next
  case False
  show ?thesis
  proof (cases "i div ipb s root = j div ipb s root")
    case True
    then have "i mod ipb s root \<noteq> j mod ipb s root" using ij by (metis div_mult_mod_eq)
    then show ?thesis using slots_apart False by (simp add: place_def)
  next
    case d: False
    have "distinct (pages s root)" using ok False by (simp add: arr_ok_defs pt_ok_def)
    then have "fst (place s root i) \<noteq> fst (place s root j)"
      using place_props(3) [OF arr_ok_shape [OF ok] i False] place_props(3) [OF arr_ok_shape [OF ok] j False] d False
      by (simp add: place_def nth_eq_iff_index_eq)
    then show ?thesis ..
  qed
qed

subsection \<open>What the view depends on\<close>

lemma arr_cong:
  assumes "isz s' root = isz s root" and "alen s' root = alen s root"
    and "\<And>i. i < alen s root \<Longrightarrow> item s' root i = item s root i"
  shows "arr s' root = arr s root"
  using assms by (simp add: arr_def)

text \<open>The view of a page table, and of an array, depends on the table and index pages.\<close>

lemma pages_frame:
  assumes root: "\<And>off. off + 4 \<le> 4084 \<or> off = 4092 \<Longrightarrow> w32 s' root off = w32 s root off"
    and ix: "\<And>c. c \<in> set (index_pages s root) \<Longrightarrow> blk s' c = blk s c"
    and n: "pt_n s root \<le> PT_MAX"
  shows "pt_n s' root = pt_n s root" "pages s' root = pages s root"
    "index_pages s' root = index_pages s root"
    "j < 509 \<Longrightarrow> index_page s' root j = index_page s root j"
proof -
  show n': "pt_n s' root = pt_n s root" using root [of 4092] by (simp add: pt_n_def)
  show ip: "index_page s' root j = index_page s root j" if "j < 509" for j
    unfolding index_page_def by (rule root) (use that in simp)
  have nb: "n_index (pt_n s root) \<le> 509" by (rule n_index_bound [OF n])
  show "index_pages s' root = index_pages s root"
    unfolding index_pages_def n' using ip nb by simp
  have "host s' root i = host s root i" if i: "i < pt_n s root" for i
  proof (cases "i < 512")
    case True
    then show ?thesis using root [of "4 * i"] by (simp add: host_def)
  next
    case False
    let ?j = "(i - 512) div 1024"
    have j: "?j < n_index (pt_n s root)" using index_lt_n_index i False by simp
    have "w32 s' (index_page s root ?j) (4 * ((i - 512) mod 1024)) =
        w32 s (index_page s root ?j) (4 * ((i - 512) mod 1024))"
      by (rule blk_w32 [OF ix [OF index_in_index_pages [OF j]]]) (simp add: Suc_le_eq)
    then show ?thesis using ip [of ?j] j nb False by (simp add: host_def)
  qed
  then show "pages s' root = pages s root" using n' by (simp add: pages_def)
qed

subsection \<open>Writing an item\<close>

lemma arr_header_frame:
  assumes "bytes s' root 4084 8 = bytes s root 4084 8"
  shows "isz s' root = isz s root" "alen s' root = alen s root"
proof -
  have "same_at (data s) (data s') (4096 * unat root + 4084) 8"
    using assms by (simp add: bytes_def ld_bytes_same_iff)
  then have "w8 s' root 4084 = w8 s root 4084" "w32 s' root 4088 = w32 s root 4088"
    unfolding w8_def w32_def by (auto simp: same_at_def intro!: ld32_same)
  then show "isz s' root = isz s root" "alen s' root = alen s root"
    by (simp_all add: isz_def alen_def)
qed

lemma set_item:
  fixes root :: u32 and s :: edb and i :: nat and d :: "u8 list"
  assumes ok: "arr_ok P s root" and i: "i < acap s root" and d: "length d = isz s root"
  defines "s' \<equiv> set_bytes s (fst (place s root i)) (snd (place s root i)) d"
  shows "writes_only s s' (fst (place s root i))" "fst (place s root i) \<in> P"
    and "pt_n s' root = pt_n s root" "isz s' root = isz s root" "alen s' root = alen s root"
    and "j < acap s root \<Longrightarrow> item s' root j = (if j = i then d else item s root j)"
    and "arr_ok P s' root" and "afoot s' root = afoot s root"
proof -
  let ?b = "fst (place s root i)" and ?off = "snd (place s root i)"
  have sz: "0 < isz s root" using ok by (simp add: arr_ok_defs)
  note ib = ipb_bounds [OF sz]
  note p = place_props [OF arr_ok_shape [OF ok] i]
  have fit: "?off + isz s root \<le> 4096" using p(2) ib(4) by (auto split: if_splits)
  show w: "writes_only s s' ?b" unfolding s'_def using fit d by (intro writes_only_set) simp
  show "?b \<in> P" by (rule p(1))
  have big: "?b \<noteq> root" "?b \<notin> set (index_pages s root)" "pt_n s root \<le> PT_MAX" if "pt_n s root \<noteq> 0"
    using p(3) [OF that] ok that by (auto simp: arr_ok_defs pt_ok_def)
  have lo: "?off + isz s root \<le> small s root * isz s root" if "?b = root"
    using big(1) that p(2) by (cases "pt_n s root = 0") simp_all
  have far: "w32 s' root off = w32 s root off" if "off + 4 \<le> 4096" "?b \<noteq> root \<or> 4084 \<le> off" for off
  proof (cases "?b = root")
    case True
    then show ?thesis using that lo ib(4) d unfolding s'_def by (intro read_other(3)) linarith
  next
    case False
    then show ?thesis using that fit d unfolding s'_def by (intro read_other(3)) simp
  qed
  have far8: "w8 s' root off = w8 s root off" if "off < 4096" "?b \<noteq> root \<or> small s root * isz s root \<le> off" for off
  proof (cases "?b = root")
    case True
    then show ?thesis using that lo ib(4) d unfolding s'_def by (intro read_other(5)) linarith
  next
    case False
    then show ?thesis using that fit d unfolding s'_def by (intro read_other(5)) simp
  qed
  show n': "pt_n s' root = pt_n s root" and len': "alen s' root = alen s root"
    using far [of 4092] far [of 4088] by (simp_all add: pt_n_def alen_def)
  show isz': "isz s' root = isz s root"
    using far8 [of 4084] ib(4) by (simp add: isz_def)
  have blk': "blk s' c = blk s c" if "c \<noteq> ?b" for c using writes_only_blk [OF w] that by metis
  have view: "pages s' root = pages s root" "index_pages s' root = index_pages s root"
    "\<And>j. j < 509 \<Longrightarrow> index_page s' root j = index_page s root j" if n0: "pt_n s root \<noteq> 0"
  proof -
    have r: "w32 s' root off = w32 s root off" if "off + 4 \<le> 4084 \<or> off = 4092" for off
      using far big(1) [OF n0] that by auto
    have x: "blk s' c = blk s c" if "c \<in> set (index_pages s root)" for c
      by (rule blk') (use that big(2) [OF n0] in blast)
    note f = pages_frame [OF r x big(3) [OF n0]]
    show "pages s' root = pages s root" "index_pages s' root = index_pages s root"
      "\<And>j. j < 509 \<Longrightarrow> index_page s' root j = index_page s root j"
      using f by auto
  qed
  show "afoot s' root = afoot s root"
    using n' view by (cases "pt_n s root = 0") (simp_all add: afoot_small, simp add: afoot_def)
  have place': "place s' root j = place s root j" for j
    using n' isz' view by (simp add: place_def ipb_def)
  have cap': "acap s' root = acap s root" "small s' root = small s root"
    using n' isz' by (simp_all add: acap_def small_def ipb_def)
  show "item s' root j = (if j = i then d else item s root j)" if j: "j < acap s root"
  proof (cases "j = i")
    case True
    then show ?thesis using d isz' place' by (simp add: item_def s'_def)
  next
    case False
    have "snd (place s root j) + isz s root \<le> 4096"
      using place_props(2) [OF arr_ok_shape [OF ok] j] ib(4) by (auto split: if_splits)
    then have "bytes s' (fst (place s root j)) (snd (place s root j)) (isz s root) =
        bytes s (fst (place s root j)) (snd (place s root j)) (isz s root)"
      using places_apart [OF ok i j] False fit d by (auto simp: s'_def)
    then show ?thesis using False isz' place' by (simp add: item_def)
  qed
  show "arr_ok P s' root"
  proof (cases "pt_n s root = 0")
    case True
    then show ?thesis using ok far8 n' isz' len' cap' by (simp add: arr_ok_defs)
  next
    case False
    then show ?thesis using ok view n' isz' len' cap' by (simp add: arr_ok_defs pt_ok_def)
  qed
qed

text \<open>Writing the length moves no item.\<close>

lemma set_length:
  fixes root :: u32 and s :: edb and n :: u32
  assumes ok: "arr_shape P s root" and n: "unat n \<le> acap s root"
  defines "s' \<equiv> set32 s root 4088 n"
  shows "arr_ok P s' root" and "pt_n s' root = pt_n s root" "isz s' root = isz s root"
    and "alen s' root = unat n" "acap s' root = acap s root"
    and "\<And>j. j < acap s root \<Longrightarrow> place s' root j = place s root j"
    and "\<And>j. j < acap s root \<Longrightarrow> item s' root j = item s root j"
    and "afoot s' root = afoot s root"
proof -
  have sz: "0 < isz s root" using ok by (simp add: arr_ok_defs)
  note ib = ipb_bounds [OF sz]
  show n': "pt_n s' root = pt_n s root" and i': "isz s' root = isz s root" and l': "alen s' root = unat n"
    by (simp_all add: s'_def pt_n_def isz_def alen_def)
  then show c': "acap s' root = acap s root" by (simp add: acap_def small_def ipb_def)
  have view: "pages s' root = pages s root" "index_pages s' root = index_pages s root"
    "\<And>j. j < 509 \<Longrightarrow> index_page s' root j = index_page s root j" if n0: "pt_n s root \<noteq> 0"
  proof -
    have w: "writes_only s s' root" unfolding s'_def by (rule writes_only_set) simp
    have "root \<notin> set (index_pages s root)" "pt_n s root \<le> PT_MAX"
      using ok n0 by (auto simp: arr_ok_defs pt_ok_def)
    then have "\<And>c. c \<in> set (index_pages s root) \<Longrightarrow> blk s' c = blk s c" "pt_n s root \<le> PT_MAX"
      using writes_only_blk [OF w] by metis+
    moreover have "w32 s' root off = w32 s root off" if "off + 4 \<le> 4084 \<or> off = 4092" for off
      using that by (auto simp: s'_def)
    ultimately show "pages s' root = pages s root" "index_pages s' root = index_pages s root"
      "\<And>j. j < 509 \<Longrightarrow> index_page s' root j = index_page s root j"
      using pages_frame [where root = root and s' = s' and s = s] by auto
  qed
  show "afoot s' root = afoot s root"
    using n' view by (cases "pt_n s root = 0") (simp_all add: afoot_small, simp add: afoot_def)
  show pl: "place s' root j = place s root j" for j
    using n' i' view by (simp add: place_def ipb_def)
  show "item s' root j = item s root j" if j: "j < acap s root" for j
  proof -
    have "snd (place s root j) + isz s root \<le> 4084 \<or>
      fst (place s root j) \<noteq> root \<and> snd (place s root j) + isz s root \<le> 4096"
      using place_props(2,3) [OF ok j] ib(4) ok by (auto simp: arr_ok_defs pt_ok_def split: if_splits)
    then have "bytes s' (fst (place s root j)) (snd (place s root j)) (isz s root) =
        bytes s (fst (place s root j)) (snd (place s root j)) (isz s root)"
      by (auto simp: s'_def)
    then show ?thesis using i' pl by (simp add: item_def)
  qed
  show "arr_ok P s' root"
  proof (cases "pt_n s root = 0")
    case True
    then show ?thesis using ok n n' i' l' c' by (simp add: arr_ok_defs s'_def small_def)
  next
    case False
    then show ?thesis using ok n view n' i' l' c' by (simp add: arr_ok_defs pt_ok_def)
  qed
qed

subsection \<open>Accessors\<close>

lemma arr_access:
  assumes "block_ok s root" and "epoch s = epoch s0"
  shows "pt_item_size s (BLOCK s0 root) = Some (w8 s root 4084)"
    and "pt_length s (BLOCK s0 root) = Some (w32 s root 4088)"
    and "pt_set_length s (BLOCK s0 root) v = Some (set32 s root 4088 v)"
    and "pt_set_item_size s (BLOCK s0 root) u = Some (set8 s root 4084 u)"
  using assms by (simp_all add: pt_item_size_def pt_length_def pt_set_length_def
      pt_set_item_size_def defined_simps)

lemma capacity_access:
  assumes "0 < isz s root"
  shows "small_capacity (w8 s root 4084) = Some (word_of_nat (small s root))"
    and "items_per_block (w8 s root 4084) = Some (word_of_nat (ipb s root))"
    and "unat (word_of_nat (small s root) :: u32) = small s root"
    and "unat (word_of_nat (ipb s root) :: u32) = ipb s root"
proof -
  have "w8 s root 4084 \<noteq> 0" using assms by (auto simp: isz_def)
  then show "small_capacity (w8 s root 4084) = Some (word_of_nat (small s root))"
    "items_per_block (w8 s root 4084) = Some (word_of_nat (ipb s root))"
    by (simp_all add: small_capacity_def items_per_block_def ARRAY_DATA_SIZE_def BLOCK_SIZE_def
        small_def ipb_def isz_def)
  show "unat (word_of_nat (small s root) :: u32) = small s root"
    "unat (word_of_nat (ipb s root) :: u32) = ipb s root"
    using ipb_bounds [OF assms] by (intro unat_of_nat_u32; simp)+
qed

lemma acap_bound:
  assumes "arr_ok P s root"
  shows "acap s root \<le> PT_MAX * 4096"
proof -
  have sz: "0 < isz s root" using assms by (simp add: arr_ok_defs)
  show ?thesis
  proof (cases "pt_n s root = 0")
    case True
    then show ?thesis using ipb_bounds(5) [OF sz] by (simp add: acap_def PT_MAX_def)
  next
    case False
    then have "pt_n s root \<le> PT_MAX" using assms by (simp add: arr_ok_defs pt_ok_def)
    then show ?thesis using False mult_le_mono [OF _ ipb_bounds(2) [OF sz]] by (simp add: acap_def)
  qed
qed

lemma array_capacity_ok:
  assumes ok: "arr_ok P s root" and b: "block_ok s root"
  shows "\<exists>c. array_capacity s root = Some c \<and> unat c = acap s root"
proof -
  have sz: "0 < isz s root" using ok by (simp add: arr_ok_defs)
  note c = capacity_access [OF sz]
  show ?thesis
  proof (cases "pt_n s root = 0")
    case True
    then have "w32 s root 4092 = 0" by (simp add: pt_n_def unat_eq_zero)
    then show ?thesis using c b True by (simp add: array_capacity_def pt_access arr_access acap_def)
  next
    case False
    then have "w32 s root 4092 \<noteq> 0" by (auto simp: pt_n_def)
    moreover have "unat (w32 s root 4092 * word_of_nat (ipb s root)) = acap s root"
      using acap_bound [OF ok] False c(4)
      by (subst unat_mult_u32) (simp_all add: acap_def pt_n_def PT_MAX_def)
    ultimately show ?thesis using c b by (simp add: array_capacity_def pt_access arr_access)
  qed
qed

lemma array_length_ok: "block_ok s root \<Longrightarrow> \<exists>n. array_length s root = Some n \<and> unat n = alen s root"
  by (simp add: array_length_def arr_access alen_def)

text \<open>A pointer to offset \<open>off\<close> of a block.\<close>

definition at :: "ptr \<Rightarrow> nat \<Rightarrow> ptr" where "at p off = (fst p, snd p + off)"

lemma at_access:
  "rd_bytes s (at p off) 0 n = rd_bytes s p off n"
  "wr_bytes s (at p off) 0 bs = wr_bytes s p off bs"
  by (simp_all add: at_def rd_bytes_def wr_bytes_def live_def)

lemma unat_item_offset:
  assumes "unat i * unat sz < 2 ^ 32"
  shows "unat (i * ucast (sz :: u8) :: u32) = unat i * unat sz"
proof -
  have "unat sz < 256" using unsigned_less [of sz, where 'a = nat] by simp
  then have "unat (ucast sz :: u32) = unat sz"
    by (simp add: unsigned_ucast_eq take_bit_nat_eq_self_iff)
  then show ?thesis using assms by (subst unat_mult_u32) simp_all
qed

subsection \<open>Reading and writing items\<close>

text \<open>
  The array may be accessed in place: its blocks are mapped, and asking for write access to
  a data block changes nothing.  This holds of any small array in a mapped block, and of
  any array whose blocks are private to the running transaction.
\<close>

definition in_place :: "block_api \<Rightarrow> u32 set \<Rightarrow> edb \<Rightarrow> u32 \<Rightarrow> bool" where
  "in_place api P s root \<longleftrightarrow> arr_ok P s root \<and> (\<forall>c \<in> P. block_ok s c) \<and>
     (pt_n s root \<noteq> 0 \<longrightarrow> (\<forall>i. unat i < pt_n s root \<longrightarrow>
        page_write_host_index api s root i = Some (0, pages s root ! unat i, s)))"

lemma in_place_root: "in_place api P s root \<Longrightarrow> block_ok s root"
  by (auto simp: in_place_def arr_ok_defs)

lemma in_place_place:
  assumes a: "in_place api P s root" and i: "i < alen s root"
  shows "block_ok s (fst (place s root i))" "snd (place s root i) + isz s root \<le> 4096"
    "i < acap s root"
proof -
  have ok: "arr_ok P s root" using a by (simp add: in_place_def)
  then show i': "i < acap s root" using i by (simp add: arr_ok_defs)
  show "block_ok s (fst (place s root i))"
    using place_props(1) [OF arr_ok_shape [OF ok] i'] a by (simp add: in_place_def)
  have "0 < isz s root" using ok by (simp add: arr_ok_defs)
  then show "snd (place s root i) + isz s root \<le> 4096"
    using place_props(2) [OF arr_ok_shape [OF ok] i'] ipb_bounds(4) [of s root] by (auto split: if_splits)
qed

lemma array_data_ok:
  assumes a: "in_place api P s root"
  shows "array_data api s root i = (if unat i < alen s root
    then Some (Some (at (BLOCK s (fst (place s root (unat i)))) (snd (place s root (unat i)))), s)
    else Some (None, s))"
proof -
  have ok: "arr_ok P s root" using a by (simp add: in_place_def)
  have b: "block_ok s root" by (rule in_place_root [OF a])
  have sz: "0 < isz s root" using ok by (simp add: arr_ok_defs)
  note ib = ipb_bounds [OF sz] and c = capacity_access [OF sz]
  show ?thesis
  proof (cases "unat i < alen s root")
    case False
    then show ?thesis using b by (simp add: array_data_def Let_def arr_access alen_def word_le_nat_alt)
  next
    case i: True
    then have ni: "\<not> w32 s root 4088 \<le> i" by (simp add: alen_def word_le_nat_alt)
    have icap: "unat i < acap s root" using i ok by (simp add: arr_ok_defs)
    show ?thesis
    proof (cases "pt_n s root = 0")
      case True
      then have n0: "w32 s root 4092 = 0" by (simp add: pt_n_def unat_eq_zero)
      have "unat i * isz s root \<le> 4084"
        using icap True slot_fits [OF _ ib(4), of "unat i"] by (simp add: acap_def)
      then have "unat (i * ucast (w8 s root 4084)) = unat i * isz s root"
        unfolding isz_def by (intro unat_item_offset) simp
      then show ?thesis using ni n0 i b True
        by (simp add: array_data_def Let_def arr_access pt_access place_def at_def)
    next
      case False
      then have n0: "w32 s root 4092 \<noteq> 0" by (auto simp: pt_n_def)
      let ?q = "i div word_of_nat (ipb s root)" and ?r = "i mod word_of_nat (ipb s root)"
      have q: "unat ?q = unat i div ipb s root" "unat ?r = unat i mod ipb s root"
        using c(4) by (simp_all add: unat_div_distrib unat_mod_distrib)
      have "unat ?q < pt_n s root" unfolding q by (rule place_props(3) [OF arr_ok_shape [OF ok] icap False, THEN conjunct2])
      then have w: "page_write_host_index api s root ?q = Some (0, pages s root ! unat ?q, s)"
        using a False by (simp add: in_place_def)
      have "unat ?r * isz s root \<le> 4096"
        using q(2) ib(1) slot_fits [OF _ ib(3), of "unat ?r"] by simp
      then have "unat (?r * ucast (w8 s root 4084)) = unat ?r * isz s root"
        unfolding isz_def by (intro unat_item_offset) simp
      then show ?thesis using ni n0 i b False w q c(2)
        by (simp add: array_data_def Let_def arr_access pt_access place_def at_def)
    qed
  qed
qed

lemma array_get_ok:
  assumes a: "in_place api P s root"
  shows "array_get api s root i = (if unat i < alen s root
    then Some (0, arr s root ! unat i, s) else Some (ERR_ARRAY_INDEX_OUT_OF_BOUNDS, [], s))"
  using array_data_ok [OF a, of i] in_place_root [OF a] in_place_place [OF a, of "unat i"]
  by (simp add: array_get_def Let_def arr_access at_access rd_bytes_ok nth_arr item_def isz_def)

text \<open>The state that a store of item \<open>i\<close> leads to.\<close>

definition put_item :: "edb \<Rightarrow> u32 \<Rightarrow> nat \<Rightarrow> u8 list \<Rightarrow> edb" where
  "put_item s root i d =
     set_bytes s (fst (place s root i)) (snd (place s root i)) (take (isz s root) d)"

lemma array_set_eq:
  assumes a: "in_place api P s root" and d: "isz s root \<le> length d"
  shows "array_set api s root i d = (if unat i < alen s root
    then Some (0, put_item s root (unat i) d) else Some (ERR_ARRAY_INDEX_OUT_OF_BOUNDS, s))"
  using array_data_ok [OF a, of i] in_place_root [OF a] in_place_place [OF a, of "unat i"] d
  by (simp add: array_set_def Let_def arr_access at_access wr_bytes_ok put_item_def isz_def)

lemma put_item_ok:
  assumes ok: "arr_ok P s root" and i: "i < alen s root" and d: "isz s root \<le> length d"
  shows "arr (put_item s root i d) root = (arr s root)[i := take (isz s root) d]"
    and "arr_ok P (put_item s root i d) root"
    and "pt_n (put_item s root i d) root = pt_n s root"
    and "isz (put_item s root i d) root = isz s root"
    and "alen (put_item s root i d) root = alen s root"
    and "afoot (put_item s root i d) root = afoot s root"
    and "writes_only s (put_item s root i d) (fst (place s root i))"
proof -
  have icap: "i < acap s root" using i ok by (simp add: arr_ok_defs)
  have len: "length (take (isz s root) d) = isz s root" using d by simp
  note f = set_item [OF ok icap len, folded put_item_def]
  show "arr_ok P (put_item s root i d) root" "pt_n (put_item s root i d) root = pt_n s root"
    "isz (put_item s root i d) root = isz s root" "alen (put_item s root i d) root = alen s root"
    "afoot (put_item s root i d) root = afoot s root"
    "writes_only s (put_item s root i d) (fst (place s root i))"
    using f by simp_all
  show "arr (put_item s root i d) root = (arr s root)[i := take (isz s root) d]"
  proof (rule nth_equalityI)
    fix j assume "j < length (arr (put_item s root i d) root)"
    then have j: "j < alen s root" using f by simp
    then have "j < acap s root" using ok by (simp add: arr_ok_defs)
    then show "arr (put_item s root i d) root ! j = (arr s root)[i := take (isz s root) d] ! j"
      using f(6) [of j] f(5) j i by (simp add: nth_arr nth_list_update)
  qed (use f in simp)
qed

lemma in_place_small:
  "arr_ok P s root \<Longrightarrow> \<forall>c \<in> P. block_ok s c \<Longrightarrow> pt_n s root = 0 \<Longrightarrow> in_place api P s root"
  by (simp add: in_place_def)

subsection \<open>Push without growth, and pop\<close>

definition bump :: "edb \<Rightarrow> u32 \<Rightarrow> edb" where
  "bump s root = set32 s root 4088 (w32 s root 4088 + 1)"

lemma bump_ok:
  assumes ok: "arr_ok P s root" and room: "alen s root < acap s root"
  shows "arr_ok P (bump s root) root" "pt_n (bump s root) root = pt_n s root"
    "isz (bump s root) root = isz s root" "alen (bump s root) root = Suc (alen s root)"
    "acap (bump s root) root = acap s root"
    "take (alen s root) (arr (bump s root) root) = arr s root"
    "writes_only s (bump s root) root" "afoot (bump s root) root = afoot s root"
proof -
  have n: "unat (w32 s root 4088 + 1) = Suc (alen s root)"
    using room acap_bound [OF ok] by (simp add: alen_def PT_MAX_def unat_Suc_u32)
  note f = set_length [OF arr_ok_shape [OF ok], of "w32 s root 4088 + 1", folded bump_def]
  show l: "arr_ok P (bump s root) root" "pt_n (bump s root) root = pt_n s root"
    "isz (bump s root) root = isz s root" "alen (bump s root) root = Suc (alen s root)"
    "acap (bump s root) root = acap s root" "afoot (bump s root) root = afoot s root"
    using f n room by simp_all
  show "writes_only s (bump s root) root" unfolding bump_def by (rule writes_only_set) simp
  show "take (alen s root) (arr (bump s root) root) = arr s root"
    by (rule nth_equalityI) (use f n room l(4) in \<open>auto simp: nth_arr\<close>)
qed

lemma array_push_room:
  assumes a: "in_place api P s root" "in_place api P (bump s root) root"
    and room: "alen s root < acap s root" and d: "isz s root \<le> length d"
  shows "array_push api s root d = Some (0, put_item (bump s root) root (alen s root) d)"
proof -
  have ok: "arr_ok P s root" using a(1) by (simp add: in_place_def)
  note b = bump_ok [OF ok room]
  obtain c where c: "array_capacity s root = Some c" "unat c = acap s root"
    using array_capacity_ok [OF ok in_place_root [OF a(1)]] by blast
  have n: "unat (w32 s root 4088 + 1) = Suc (alen s root)"
    using room acap_bound [OF ok] by (simp add: alen_def PT_MAX_def unat_Suc_u32)
  have "\<not> c < w32 s root 4088 + 1" using n c(2) room by (simp add: word_less_nat_alt)
  then have "array_push api s root d = array_set api (bump s root) root (w32 s root 4088) d"
    using c(1) in_place_root [OF a(1)]
    by (simp add: array_push_def Let_def arr_access bump_def)
  also have "\<dots> = Some (0, put_item (bump s root) root (alen s root) d)"
    using array_set_eq [OF a(2), of d "w32 s root 4088"] b d by (simp add: alen_def)
  finally show ?thesis .
qed

lemma push_item_ok:
  assumes ok: "arr_ok P s root" and room: "alen s root < acap s root" and d: "isz s root \<le> length d"
  defines "s' \<equiv> put_item (bump s root) root (alen s root) d"
  shows "arr s' root = arr s root @ [take (isz s root) d]" "arr_ok P s' root"
    and "pt_n s' root = pt_n s root" "isz s' root = isz s root" "acap s' root = acap s root"
    and "writes_only (bump s root) s' (fst (place (bump s root) root (alen s root)))"
    and "fst (place (bump s root) root (alen s root)) \<in> afoot s root"
    and "afoot s' root = afoot s root"
proof -
  note b = bump_ok [OF ok room]
  have i: "alen s root < alen (bump s root) root" using b(4) by simp
  note p = put_item_ok [OF b(1) i, of d, unfolded b(3), OF d, folded s'_def]
  have "arr (bump s root) root = arr s root @ [item (bump s root) root (alen s root)]"
    using b(4,6) by (simp add: arr_def)
  then have "(arr (bump s root) root)[alen s root := take (isz s root) d] =
      arr s root @ [take (isz s root) d]"
    by (metis length_arr list_update_length)
  then show "arr s' root = arr s root @ [take (isz s root) d]" using p(1) by simp
  show "arr_ok P s' root" "pt_n s' root = pt_n s root" "isz s' root = isz s root"
    "afoot s' root = afoot s root"
    "writes_only (bump s root) s' (fst (place (bump s root) root (alen s root)))"
    using p b by simp_all
  then show "acap s' root = acap s root" using p by (simp add: acap_def small_def ipb_def b)
  show "fst (place (bump s root) root (alen s root)) \<in> afoot s root"
    using place_in_afoot [OF arr_ok_shape [OF b(1)], of "alen s root"] b(5,8) room by simp
qed

definition drop_last :: "edb \<Rightarrow> u32 \<Rightarrow> edb" where
  "drop_last s root = set32 s root 4088 (w32 s root 4088 - 1)"

lemma drop_last_ok:
  assumes ok: "arr_ok P s root" and ne: "0 < alen s root"
  shows "arr (drop_last s root) root = butlast (arr s root)" "arr_ok P (drop_last s root) root"
    "pt_n (drop_last s root) root = pt_n s root" "isz (drop_last s root) root = isz s root"
    "alen (drop_last s root) root = alen s root - 1"
    "acap (drop_last s root) root = acap s root"
    "writes_only s (drop_last s root) root" "afoot (drop_last s root) root = afoot s root"
proof -
  have n: "unat (w32 s root 4088 - 1) = alen s root - 1"
    using ne by (simp add: alen_def unat_sub_u32 word_le_nat_alt Suc_le_eq)
  moreover have le: "alen s root \<le> acap s root" using ok by (simp add: arr_ok_defs)
  ultimately have "unat (w32 s root 4088 - 1) \<le> acap s root" by simp
  note f = set_length [OF arr_ok_shape [OF ok] this, folded drop_last_def]
  show l: "arr_ok P (drop_last s root) root"
    "pt_n (drop_last s root) root = pt_n s root" "isz (drop_last s root) root = isz s root"
    "alen (drop_last s root) root = alen s root - 1" "acap (drop_last s root) root = acap s root"
    "afoot (drop_last s root) root = afoot s root"
    using f n by simp_all
  show "writes_only s (drop_last s root) root"
    unfolding drop_last_def by (rule writes_only_set) simp
  show "arr (drop_last s root) root = butlast (arr s root)"
    by (rule nth_equalityI) (use f(7) l(4) le in \<open>auto simp: nth_arr nth_butlast\<close>)
qed

lemma array_pop_ok:
  assumes a: "in_place api P s root"
  shows "array_pop api s root = (if 0 < alen s root
    then Some (0, last (arr s root), drop_last s root)
    else Some (ERR_ARRAY_INDEX_OUT_OF_BOUNDS, [], s))"
proof -
  have b: "block_ok s root" by (rule in_place_root [OF a])
  show ?thesis
  proof (cases "0 < alen s root")
    case True
    have n: "unat (w32 s root 4088 - 1) = alen s root - 1"
      using True by (simp add: alen_def unat_sub_u32 word_le_nat_alt Suc_le_eq)
    have "arr s root \<noteq> []" using True by (metis length_arr length_greater_0_conv)
    then have "arr s root ! (alen s root - 1) = last (arr s root)" by (simp add: last_conv_nth)
    then show ?thesis using array_get_ok [OF a, of "w32 s root 4088 - 1"] n True b
      by (simp add: array_pop_def Let_def arr_access drop_last_def)
  next
    case False
    then have "w32 s root 4088 = 0" by (simp add: alen_def unat_eq_zero)
    then show ?thesis using array_get_ok [OF a, of "-1"] False b
      by (simp add: array_pop_def Let_def arr_access)
  qed
qed

subsection \<open>Operations of a transaction on an array of private blocks\<close>

context block_alloc begin

lemma in_place_priv: "inv s \<Longrightarrow> arr_ok (priv s) s root \<Longrightarrow> in_place api (priv s) s root"
  using priv_ok page_write_host_index_ok unfolding in_place_def
  by (cases "pt_n s root = 0") (auto simp: arr_ok_defs)

text \<open>What an operation on the array at \<open>root\<close> may change.\<close>

definition arr_step :: "u32 \<Rightarrow> edb \<Rightarrow> edb \<Rightarrow> bool" where
  "arr_step root s s' \<longleftrightarrow>
     inv s' \<and> arr_ok (priv s') s' root \<and> isz s' root = isz s root \<and>
     priv s' - afoot s' root = priv s - afoot s root \<and>
     objlist s' = objlist s \<and> txn_id s' = txn_id s \<and>
     (\<forall>c \<in> priv s - afoot s root. blk s' c = blk s c)"

lemma arr_step_refl: "inv s \<Longrightarrow> arr_ok (priv s) s root \<Longrightarrow> arr_step root s s"
  by (simp add: arr_step_def)

lemma arr_step_trans: "arr_step root s s1 \<Longrightarrow> arr_step root s1 s2 \<Longrightarrow> arr_step root s s2"
  by (simp add: arr_step_def)

lemma arr_step_write:
  assumes s: "inv s" "arr_ok (priv s) s root" and b: "b \<in> afoot s root"
    and w: "writes_only s s' b" and ok: "arr_ok (priv s) s' root"
    and same: "isz s' root = isz s root" "afoot s' root = afoot s root"
  shows "arr_step root s s'" "room s' = room s"
proof -
  have bp: "b \<in> priv s" using afoot_private [OF s(2)] b by blast
  note i = inv_writes [OF s(1) bp w] and p = priv_writes [OF s(1) bp w]
  show "room s' = room s" by (rule room_writes [OF s(1) bp w])
  have "blk s' c = blk s c" if "c \<in> priv s - afoot s root" for c
    using that b writes_only_blk [OF w] by (metis DiffD2)
  then show "arr_step root s s'"
    unfolding arr_step_def using i p ok same writes_only_fields [OF w] by simp
qed

lemma array_set_step:
  assumes s: "inv s" "arr_ok (priv s) s root" and i: "unat i < alen s root" and d: "isz s root \<le> length d"
  shows "\<exists>s'. array_set api s root i d = Some (0, s') \<and> arr_step root s s' \<and> room s' = room s \<and>
    arr s' root = (arr s root)[unat i := take (isz s root) d]"
proof -
  let ?s' = "put_item s root (unat i) d"
  note p = put_item_ok [OF s(2) i d]
  have "fst (place s root (unat i)) \<in> afoot s root"
    using place_in_afoot [OF arr_ok_shape [OF s(2)]] i s(2) by (simp add: arr_ok_defs)
  then have "arr_step root s ?s'" "room ?s' = room s"
    using arr_step_write [OF s _ p(7,2,4,6)] by blast+
  then show ?thesis using array_set_eq [OF in_place_priv [OF s] d, of i] i p(1) by simp
qed

lemma array_push_room_step:
  assumes s: "inv s" "arr_ok (priv s) s root" and room: "alen s root < acap s root"
    and d: "isz s root \<le> length d"
  shows "\<exists>s'. array_push api s root d = Some (0, s') \<and> arr_step root s s' \<and> room s' = room s \<and>
    arr s' root = arr s root @ [take (isz s root) d]"
proof -
  let ?s1 = "bump s root" and ?s2 = "put_item (bump s root) root (alen s root) d"
  note b = bump_ok [OF s(2) room] and p = push_item_ok [OF s(2) room d]
  have root: "root \<in> afoot s root" by (simp add: afoot_def)
  have 1: "arr_step root s ?s1" "room ?s1 = room s"
    using arr_step_write [OF s root b(7,1,3,8)] by blast+
  have inv1: "inv ?s1" "arr_ok (priv ?s1) ?s1 root" using 1(1) unfolding arr_step_def by blast+
  have priv1: "priv ?s1 = priv s"
    using priv_writes [OF s(1) _ b(7)] afoot_private [OF s(2)] root by blast
  have 2: "arr_step root ?s1 ?s2" "room ?s2 = room ?s1"
    using arr_step_write [OF inv1, of "fst (place ?s1 root (alen s root))" ?s2] p b priv1 by simp_all
  have "array_push api s root d = Some (0, ?s2)"
    using array_push_room [OF in_place_priv [OF s] _ room d] in_place_priv [OF inv1] priv1 by simp
  then show ?thesis using arr_step_trans [OF 1(1) 2(1)] 1(2) 2(2) p(1) by simp
qed

lemma array_pop_step:
  assumes s: "inv s" "arr_ok (priv s) s root" and ne: "0 < alen s root"
  shows "\<exists>s'. array_pop api s root = Some (0, last (arr s root), s') \<and> arr_step root s s' \<and>
    room s' = room s \<and> arr s' root = butlast (arr s root)"
proof -
  note d = drop_last_ok [OF s(2) ne]
  have root: "root \<in> afoot s root" by (simp add: afoot_def)
  have "arr_step root s (drop_last s root)" "room (drop_last s root) = room s"
    using arr_step_write [OF s root d(7,2,4,8)] by blast+
  then show ?thesis using array_pop_ok [OF in_place_priv [OF s]] ne d(1) by simp
qed

end

subsection \<open>Growing an array\<close>

lemma bytes_set_inside:
  "off + n \<le> length d \<Longrightarrow> bytes (set_bytes s b 0 d) b off n = take n (drop off d)"
  using ld_bytes_st_bytes_inside [of off n d] by (simp add: bytes_def set_bytes_def)

lemma bytes_sub: "off + k \<le> n \<Longrightarrow> take k (drop off (bytes s b 0 n)) = bytes s b off k"
  using ld_bytes_sub [of off k n] by (simp add: bytes_def)

context block_alloc begin

lemma growsD:
  assumes "grows root s s' bs ixs"
  shows "inv s'" "pt_ok (priv s') s' root" "pages s' root = pages s root @ bs"
    "index_pages s' root = index_pages s root @ ixs" "priv s' = priv s \<union> set bs \<union> set ixs"
    "(set bs \<union> set ixs) \<inter> priv s = {}" "objlist s' = objlist s" "txn_id s' = txn_id s"
    "\<forall>c \<in> priv s - insert root (set (index_pages s root)). blk s' c = blk s c"
    "bytes s' root 4084 8 = bytes s root 4084 8" "room s \<le> room s' + length bs + length ixs"
  using assms unfolding grows_def set_append by blast+

lemma grows_pages:
  assumes ok: "arr_ok (priv s) s root" and n: "pt_n s root \<noteq> 0" and g: "grows root s s' bs ixs"
  shows "arr_step root s s'" "arr s' root = arr s root"
proof -
  have sz: "0 < isz s root" using ok by (simp add: arr_ok_defs)
  have pt: "pt_ok (priv s) s root" using ok n by (simp add: arr_ok_defs)
  note g' = growsD [OF g]
  note h = arr_header_frame [of s' root s]
  have hd: "isz s' root = isz s root" "alen s' root = alen s root"
    using h g by (simp_all add: grows_def)
  have ipb': "ipb s' root = ipb s root" by (simp add: ipb_def hd)
  have n': "pt_n s' root = pt_n s root + length bs"
    using g'(3) by (metis length_pages length_append)
  have cap: "acap s root \<le> acap s' root" using n n' ipb' by (simp add: acap_def)
  have items: "item s' root i = item s root i" if i: "i < acap s root" for i
  proof -
    have q: "i div ipb s root < pt_n s root" "fst (place s root i) \<in> set (pages s root)"
      using place_props(3) [OF arr_ok_shape [OF ok] i n] by simp_all
    have pl: "place s' root i = place s root i"
      using q(1) n n' ipb' hd g'(3) by (simp add: place_def nth_append)
    have "fst (place s root i) \<in> priv s - insert root (set (index_pages s root))"
      using q(2) pt by (auto simp: pt_ok_def)
    then have "blk s' (fst (place s root i)) = blk s (fst (place s root i))" using g'(9) by blast
    moreover have "snd (place s root i) + isz s root \<le> 4096" using place_props(2) [OF arr_ok_shape [OF ok] i] n by simp
    ultimately show ?thesis unfolding item_def pl hd by (rule blk_bytes)
  qed
  show "arr s' root = arr s root"
    by (rule arr_cong) (use hd items ok in \<open>simp_all add: arr_ok_defs\<close>)
  have foot: "afoot s' root = afoot s root \<union> set bs \<union> set ixs"
    by (auto simp: afoot_def g'(3,4))
  have "arr_ok (priv s') s' root"
    using ok g'(2) n' n hd cap sz by (auto simp: arr_ok_defs pt_ok_def)
  moreover have "priv s' - afoot s' root = priv s - afoot s root"
    unfolding foot g'(5) using g'(6) by blast
  moreover have "\<forall>c \<in> priv s - afoot s root. blk s' c = blk s c"
    using g'(9) by (auto simp: afoot_def)
  ultimately show "arr_step root s s'" using g' hd by (simp add: arr_step_def)
qed

end

text \<open>The small array's items are saved, the root is cleared and the items are written back.\<close>

definition clear_small :: "edb \<Rightarrow> u32 \<Rightarrow> edb" where
  "clear_small s root = set_bytes s root 0 (replicate (small s root * isz s root) 0)"

lemma bytes_zero: "i < n \<Longrightarrow> w8 (set_bytes s b 0 (replicate n 0)) b i = 0"
  by (simp add: w8_def set_bytes_def st_bytes_def)

lemma w32_zero:
  assumes "\<And>i. i < 4 \<Longrightarrow> w8 s b (off + i) = 0"
  shows "w32 s b off = 0"
  using assms [of 0] assms [of 1] assms [of 2] assms [of 3]
  by (simp add: w32_def w8_def ld32_def add.assoc)

context block_alloc begin

lemma clear_small_ok:
  assumes s: "inv s" "arr_ok (priv s) s root" and n: "pt_n s root = 0"
  defines "s1 \<equiv> clear_small s root"
  shows "writes_only s s1 root" "inv s1" "priv s1 = priv s" "room s1 = room s"
    and "pt_ok (priv s1) s1 root" "pt_n s1 root = 0"
    and "bytes s1 root 4084 8 = bytes s root 4084 8"
proof -
  have sz: "0 < isz s root" and root: "root \<in> priv s" using s(2) by (simp_all add: arr_ok_defs)
  note ib = ipb_bounds [OF sz]
  show w: "writes_only s s1 root"
    unfolding s1_def clear_small_def using ib(4) by (intro writes_only_set) simp
  show inv1: "inv s1" and priv1: "priv s1 = priv s" and "room s1 = room s"
    using inv_writes [OF s(1) root w] priv_writes [OF s(1) root w] room_writes [OF s(1) root w] by simp_all
  show n1: "pt_n s1 root = 0" and "bytes s1 root 4084 8 = bytes s root 4084 8"
    using n ib(4) by (simp_all add: s1_def clear_small_def pt_n_def)
  have z: "w8 s1 root i = 0" if "i < 4084" for i
  proof (cases "i < small s root * isz s root")
    case True
    then show ?thesis by (simp add: s1_def clear_small_def bytes_zero)
  next
    case False
    then have "w8 s1 root i = w8 s root i" using that by (simp add: s1_def clear_small_def)
    then show ?thesis using s(2) n that False by (simp add: arr_ok_defs)
  qed
  have "index_page s1 root j = 0" if "j < 509" for j
    unfolding index_page_def by (rule w32_zero, rule z) (use that in simp)
  then show "pt_ok (priv s1) s1 root"
    using n1 root priv1 by (simp add: pt_ok_def index_pages_def pages_def)
qed

lemma grow_small:
  assumes s: "inv s" "arr_ok (priv s) s root" and n: "pt_n s root = 0"
    and g: "grows root (clear_small s root) s2 bs ixs" and bs: "bs \<noteq> []"
  defines "s3 \<equiv> set_bytes s2 (hd bs) 0 (bytes s root 0 (small s root * isz s root))"
  shows "arr_step root s s3" "arr s3 root = arr s root" "room s3 = room s2"
    "pt_n s3 root = length bs" "isz s2 root = isz s root" "alen s2 root = alen s root"
proof -
  let ?s1 = "clear_small s root" and ?m = "small s root * isz s root"
  have sz: "0 < isz s root" and root: "root \<in> priv s" using s(2) by (simp_all add: arr_ok_defs)
  note ib = ipb_bounds [OF sz] and c = clear_small_ok [OF s n]
  note d = growsD [OF g]
  have p0: "pages ?s1 root = []" "index_pages ?s1 root = []"
    using c(6) by (simp_all add: pages_def index_pages_def)
  have g': "inv s2" "pt_ok (priv s2) s2 root" "pages s2 root = bs"
    "index_pages s2 root = ixs" "priv s2 = priv s \<union> set bs \<union> set ixs"
    "(set bs \<union> set ixs) \<inter> priv s = {}" "objlist s2 = objlist s" "txn_id s2 = txn_id s"
    "\<forall>c \<in> priv s - {root}. blk s2 c = blk ?s1 c" "bytes s2 root 4084 8 = bytes s root 4084 8"
    using d(1,2) d(3-)[unfolded c(3,7) p0] writes_only_fields [OF c(1)] by simp_all
  have n2: "pt_n s2 root = length bs" using g'(3) by (metis length_pages)
  show h2: "isz s2 root = isz s root" "alen s2 root = alen s root"
    using arr_header_frame [OF g'(10)] .
  have "root \<notin> set bs" "set bs \<inter> set (index_pages s2 root) = {}"
    using g'(2,3) by (auto simp: pt_ok_def)
  moreover have "hd bs \<in> set bs" using bs by simp
  ultimately have b: "hd bs \<in> set bs" "hd bs \<in> priv s2" "hd bs \<noteq> root" "hd bs \<notin> set (index_pages s2 root)"
    unfolding g'(5) by auto
  have w: "writes_only s2 s3 (hd bs)"
    unfolding s3_def using ib(4) by (intro writes_only_set) simp
  note inv3 = inv_writes [OF g'(1) b(2) w] and priv3 = priv_writes [OF g'(1) b(2) w]
  show room3: "room s3 = room s2" by (rule room_writes [OF g'(1) b(2) w])
  have blk3: "blk s3 c = blk s2 c" if "c \<noteq> hd bs" for c using writes_only_blk [OF w] that by metis
  have root3: "blk s3 root = blk s2 root" by (rule blk3) (use b(3) in simp)
  have n2max: "pt_n s2 root \<le> PT_MAX" using g'(2) by (simp add: pt_ok_def)
  have r: "w32 s3 root off = w32 s2 root off" if "off + 4 \<le> 4084 \<or> off = 4092" for off
    by (rule blk_w32 [OF root3]) (use that in auto)
  have x: "blk s3 c = blk s2 c" if "c \<in> set (index_pages s2 root)" for c
    by (rule blk3) (use that b(4) in blast)
  note f = pages_frame [OF r x n2max]
  have h3: "isz s3 root = isz s root" "alen s3 root = alen s root"
    using arr_header_frame [of s3 root s2] blk_bytes [OF root3] h2 by simp_all
  show n3: "pt_n s3 root = length bs" using f(1) n2 by simp
  have len: "0 < length bs" using bs by simp
  have ne: "pt_n s3 root \<noteq> 0" using n3 len by simp
  have ipb3: "ipb s3 root = ipb s root" by (simp add: ipb_def h3)
  have items: "item s3 root i = item s root i" if i: "i < small s root" for i
  proof -
    have "i < ipb s root" using i ib(6) by simp
    then have pl: "place s3 root i = (hd bs, i * isz s root)"
      using len n3 ipb3 h3 f(2) g'(3) by (simp add: place_def hd_conv_nth)
    have fit: "i * isz s root + isz s root \<le> ?m" by (rule slot_fits [OF i order_refl])
    have "item s3 root i = bytes s root (i * isz s root) (isz s root)"
      using pl h3 bytes_set_inside [of "i * isz s root" "isz s root"] bytes_sub fit
      by (simp add: item_def s3_def)
    then show ?thesis using n by (simp add: item_def place_def)
  qed
  have small: "alen s root \<le> small s root" using s(2) n by (simp add: arr_ok_defs acap_def)
  show "arr s3 root = arr s root" by (rule arr_cong) (use h3 items small in simp_all)
  have pt3: "pt_ok (priv s3) s3 root" using g'(2) priv3 f by (simp add: pt_ok_def)
  have "small s root \<le> length bs * ipb s root"
    using mult_le_mono [of 1 "length bs" "small s root" "ipb s root"] ib(6) len by simp
  then have ok3: "arr_ok (priv s3) s3 root"
    unfolding arr_ok_defs acap_def if_not_P [OF ne] n3 ipb3 h3
    using pt3 root g'(5) priv3 sz small bs by simp
  have foot: "afoot s3 root = insert root (set bs \<union> set ixs)" "afoot s root = {root}"
    using f(2,3) g'(3,4) n by (auto simp: afoot_def pages_def index_pages_def)
  have "priv s3 - afoot s3 root = priv s - afoot s root"
    unfolding foot priv3 g'(5) using g'(6) by blast
  moreover have "blk s3 c = blk s c" if "c \<in> priv s - afoot s root" for c
  proof -
    have cc: "c \<in> priv s - {root}" "c \<noteq> hd bs" using that b(1) g'(6) by (auto simp: foot(2))
    then have "blk s3 c = blk ?s1 c" using blk3 g'(9) by simp
    also have "\<dots> = blk s c" using writes_only_blk [OF c(1)] cc by (metis DiffD2 singletonI)
    finally show ?thesis .
  qed
  ultimately show "arr_step root s s3"
    using inv3 ok3 h3 g'(7,8) writes_only_fields [OF w] by (simp add: arr_step_def)
qed

end

text \<open>The number of data blocks for \<open>c\<close> items.\<close>

definition blocks_for :: "edb \<Rightarrow> u32 \<Rightarrow> nat \<Rightarrow> nat" where
  "blocks_for s root c = (c + ipb s root - 1) div ipb s root"

lemma blocks_for_bounds:
  assumes "0 < isz s root"
  shows "c \<le> blocks_for s root c * ipb s root"
    and "c \<le> m * ipb s root \<Longrightarrow> blocks_for s root c \<le> m"
    and "m * ipb s root < c \<Longrightarrow> m < blocks_for s root c"
proof -
  have p: "0 < ipb s root" by (rule ipb_bounds(1) [OF assms])
  show c: "c \<le> blocks_for s root c * ipb s root"
  proof -
    let ?x = "c + ipb s root - 1"
    have "?x = ?x div ipb s root * ipb s root + ?x mod ipb s root" by (rule div_mult_mod_eq [symmetric])
    moreover have "?x mod ipb s root < ipb s root" using p by simp
    ultimately show ?thesis unfolding blocks_for_def using p by linarith
  qed
  show "blocks_for s root c \<le> m" if "c \<le> m * ipb s root"
  proof -
    have "c + ipb s root - 1 < Suc m * ipb s root" using that p by simp
    then have "blocks_for s root c < Suc m" unfolding blocks_for_def by (rule less_mult_imp_div_less)
    then show ?thesis by simp
  qed
  show "m < blocks_for s root c" if "m * ipb s root < c"
  proof (rule ccontr)
    assume "\<not> m < blocks_for s root c"
    then have "blocks_for s root c * ipb s root \<le> m * ipb s root" by simp
    then show False using that c by linarith
  qed
qed

text \<open>The same in the 32-bit arithmetic of the code.\<close>

lemma blocks_for_word:
  assumes sz: "0 < isz s root" and c: "unat c \<le> PT_MAX * ipb s root" "0 < unat c"
  defines "w \<equiv> (word_of_nat (ipb s root) :: u32)"
  shows "unat ((c + w - 1) div w) = blocks_for s root (unat c)"
    and "unat ((c + w - 1) div w * w) = blocks_for s root (unat c) * ipb s root"
proof -
  note ib = ipb_bounds [OF sz] and w = capacity_access(4) [OF sz, folded w_def]
  have "PT_MAX * ipb s root \<le> PT_MAX * 4096" using ib(2) by simp
  then have big: "unat c + ipb s root < 2 ^ 32" using c(1) ib(2) by (simp add: PT_MAX_def)
  then have "unat (c + w) = unat c + ipb s root" using w by (simp add: unat_add_u32)
  then have "unat (c + w - 1) = unat c + ipb s root - 1"
    using c(2) unat_sub_u32 [of 1 "c + w"] by simp
  then show nb: "unat ((c + w - 1) div w) = blocks_for s root (unat c)"
    using w by (simp add: unat_div_distrib blocks_for_def)
  have "blocks_for s root (unat c) * ipb s root \<le> PT_MAX * 4096"
    using blocks_for_bounds(2) [OF sz c(1)] ib(2) by (rule mult_le_mono)
  then show "unat ((c + w - 1) div w * w) = blocks_for s root (unat c) * ipb s root"
    using nb w by (subst unat_mult_u32) (simp_all add: PT_MAX_def)
qed

lemma small_bytes:
  assumes sz: "0 < isz s root"
  shows "unat (word_of_nat (small s root) * ucast (w8 s root 4084) :: u32) = small s root * isz s root"
  using ipb_bounds(4) [OF sz] capacity_access(3) [OF sz] unat_item_offset [of "word_of_nat (small s root)" "w8 s root 4084"]
  by (simp add: isz_def)

context block_alloc begin

lemma array_resize_blocks_grow:
  assumes s: "inv s" "arr_ok (priv s) s root" and nb: "pt_n s root < unat nb" "unat nb \<le> PT_MAX"
    and room: "grow_cost (pt_n s root) (unat nb) \<le> room s"
  shows "\<exists>pt s'. array_resize_blocks api s root (word_of_nat (small s root)) nb = Some (0, pt, s') \<and>
    pt = BLOCK s' root \<and> arr_step root s s' \<and> arr s' root = arr s root \<and> pt_n s' root = unat nb \<and>
    room s \<le> room s' + grow_cost (pt_n s root) (unat nb)"
proof -
  have sz: "0 < isz s root" and root: "root \<in> priv s" using s(2) by (simp_all add: arr_ok_defs)
  note ib = ipb_bounds [OF sz]
  have ok: "block_ok s root" by (rule priv_ok [OF s(1) root])
  show ?thesis
  proof (cases "pt_n s root = 0")
    case True
    let ?s1 = "clear_small s root" and ?m = "small s root * isz s root"
    have w0: "w32 s root 4092 = 0" using True by (simp add: pt_n_def unat_eq_zero)
    note c = clear_small_ok [OF s True]
    have "pt_ok (priv ?s1) ?s1 root" "pt_n ?s1 root \<le> unat nb" "grow_cost (pt_n ?s1 root) (unat nb) \<le> room ?s1"
      using c(4-6) room True by simp_all
    then obtain s2 bs ixs where r: "page_resize api ?s1 root nb = Some (0, s2)"
        "grows root ?s1 s2 bs ixs" "pt_n s2 root = unat nb"
      using page_resize_grow [OF c(2)] nb(2) by blast
    note d = growsD [OF r(2)]
    have bs: "pages s2 root = bs" using d(3) c(6) by (simp add: pages_def)
    then have ne: "bs \<noteq> []" "length bs = unat nb" using r(3) nb(1) by (auto simp flip: length_pages)
    define s3 where "s3 = set_bytes s2 (hd bs) 0 (bytes s root 0 ?m)"
    note g = grow_small [OF s True r(2) ne(1), folded s3_def]
    have hd: "hd bs \<in> priv s2" using d(5) ne(1) by simp
    have wr: "page_write_host_index api s2 root 0 = Some (0, hd bs, s2)"
      using page_write_host_index_ok [OF d(1,2), of 0] r(3) nb(1) bs ne(1) by (simp add: hd_conv_nth)
    have ok2: "block_ok s2 root" "block_ok s2 (hd bs)"
      using priv_ok [OF d(1)] d(5) c(3) root hd by auto
    have w82: "w8 s2 root 4084 = w8 s root 4084"
      using g(5) by (simp add: isz_def word_unat_eq_iff)
    have "length ixs = n_index (unat nb)"
      using d(4) c(6) r(3) by (metis append_Nil index_pages_def length_index_pages list.map_disc_iff n_index_small le0 upt_0 upt_eq_Nil_conv)
    then have "room s \<le> room s3 + grow_cost (pt_n s root) (unat nb)"
      using d(11) c(4) g(3) ne(2) True by (simp add: grow_cost_def)
    moreover have "array_resize_blocks api s root (word_of_nat (small s root)) nb = Some (0, BLOCK s2 root, s3)"
      using ok ok2 w0 w82 r(1) wr ib(4) small_bytes [OF sz]
      by (simp add: array_resize_blocks_def Let_def pt_access arr_access rd_bytes_ok wr_bytes_ok
          clear_small_def copy_back_def s3_def)
    ultimately show ?thesis using g ne(2) by (auto simp: BLOCK_def s3_def)
  next
    case False
    have w0: "w32 s root 4092 \<noteq> 0" using False by (auto simp: pt_n_def)
    have pt: "pt_ok (priv s) s root" using s(2) False by (simp add: arr_ok_defs)
    obtain s2 bs ixs where r: "page_resize api s root nb = Some (0, s2)"
        "grows root s s2 bs ixs" "pt_n s2 root = unat nb"
      using page_resize_grow [OF s(1) pt _ nb(2) room] nb(1) by auto
    note d = growsD [OF r(2)] and g = grows_pages [OF s(2) False r(2)]
    have "length bs = unat nb - pt_n s root" "length ixs = n_index (unat nb) - n_index (pt_n s root)"
      using d(3,4) r(3) by (metis length_pages length_append diff_add_inverse,
        metis length_index_pages length_append diff_add_inverse)
    then have "room s \<le> room s2 + grow_cost (pt_n s root) (unat nb)"
      using d(11) by (simp add: grow_cost_def)
    moreover have "array_resize_blocks api s root (word_of_nat (small s root)) nb = Some (0, BLOCK s2 root, s2)"
      using ok w0 r(1) by (simp add: array_resize_blocks_def Let_def pt_access arr_access)
    ultimately show ?thesis using g r(3) by simp
  qed
qed

lemma array_resize_grow:
  assumes s: "inv s" "arr_ok (priv s) s root" and c: "acap s root < unat c" "unat c \<le> PT_MAX * ipb s root"
    and room: "grow_cost (pt_n s root) (blocks_for s root (unat c)) \<le> room s"
  shows "\<exists>s'. array_resize api s root c = Some (0, s') \<and> arr_step root s s' \<and>
    arr s' root = arr s root \<and> acap s' root = blocks_for s root (unat c) * ipb s root \<and>
    room s \<le> room s' + grow_cost (pt_n s root) (blocks_for s root (unat c))"
proof -
  have sz: "0 < isz s root" and root: "root \<in> priv s" using s(2) by (simp_all add: arr_ok_defs)
  note ib = ipb_bounds [OF sz] and cp = capacity_access [OF sz]
  let ?w = "word_of_nat (ipb s root) :: u32"
  define nb where "nb = (c + ?w - 1) div ?w"
  have c0: "0 < unat c" using c(1) by simp
  note nbw = blocks_for_word [OF sz c(2) c0, folded nb_def] and bf = blocks_for_bounds [OF sz]
  have ok: "block_ok s root" by (rule priv_ok [OF s(1) root])
  obtain cc where cc: "array_capacity s root = Some cc" "unat cc = acap s root"
    using array_capacity_ok [OF s(2) ok] by blast
  have n: "pt_n s root < unat nb"
    unfolding nbw(1) using c(1) by (cases "pt_n s root = 0") (auto simp: acap_def intro: bf(3))
  have "small s root \<le> acap s root" using ib(6) by (cases "pt_n s root") (auto simp: acap_def)
  then have cmp: "c \<noteq> cc" "\<not> c \<le> word_of_nat (small s root)" "w32 s root 4092 \<noteq> nb"
    using c(1) cc(2) cp(3) n by (auto simp: word_le_nat_alt pt_n_def)
  have max: "unat nb \<le> PT_MAX" unfolding nbw(1) by (rule bf(2) [OF c(2)])
  obtain pt s' where r: "array_resize_blocks api s root (word_of_nat (small s root)) nb = Some (0, pt, s')"
      "pt = BLOCK s' root" "arr_step root s s'" "arr s' root = arr s root" "pt_n s' root = unat nb"
      "room s \<le> room s' + grow_cost (pt_n s root) (unat nb)"
    using array_resize_blocks_grow [OF s n max] room nbw(1) by auto
  have s': "inv s'" "root \<in> priv s'" "isz s' root = isz s root"
    using r(3) by (simp_all add: arr_step_def arr_ok_defs)
  have ok': "block_ok s' root" by (rule priv_ok [OF s'(1,2)])
  have len: "alen s' root = alen s root" using r(4) by (metis length_arr)
  have "alen s root \<le> acap s root" using s(2) by (simp add: arr_ok_defs)
  then have "\<not> nb * ?w < w32 s' root 4088"
    using len nbw(2) c(1) bf(1) [of "unat c"] by (simp add: word_less_nat_alt alen_def)
  then have "array_resize api s root c = Some (0, s')"
    using ok ok' cc(1) cmp cp(1,2) r(1,2)
    by (simp add: array_resize_def Let_def arr_access pt_access flip: nb_def)
  moreover have "acap s' root = blocks_for s root (unat c) * ipb s root"
    using r(5) nbw(1) s'(3) n by (simp add: acap_def ipb_def)
  ultimately show ?thesis using r nbw(1) by simp
qed

end

subsection \<open>Push\<close>

context block_alloc begin

text \<open>The number of allocations that a push takes.\<close>

definition push_cost :: "edb \<Rightarrow> u32 \<Rightarrow> nat" where
  "push_cost s root = (if alen s root < acap s root then 0
     else grow_cost (pt_n s root) (blocks_for s root (Suc (alen s root))))"

lemma array_push_step:
  assumes s: "inv s" "arr_ok (priv s) s root" and max: "alen s root < PT_MAX * ipb s root"
    and room: "push_cost s root \<le> room s" and d: "isz s root \<le> length d"
  shows "\<exists>s'. array_push api s root d = Some (0, s') \<and> arr_step root s s' \<and>
    room s \<le> room s' + push_cost s root \<and> arr s' root = arr s root @ [take (isz s root) d]"
proof (cases "alen s root < acap s root")
  case True
  then show ?thesis using array_push_room_step [OF s True d] by fastforce
next
  case False
  have sz: "0 < isz s root" and root: "root \<in> priv s" using s(2) by (simp_all add: arr_ok_defs)
  have ok: "block_ok s root" by (rule priv_ok [OF s(1) root])
  have full: "alen s root = acap s root" using False s(2) by (simp add: arr_ok_def)
  let ?c = "w32 s root 4088 + 1"
  have c: "unat ?c = Suc (alen s root)"
    using full acap_bound [OF s(2)] by (simp add: alen_def PT_MAX_def unat_Suc_u32)
  obtain s1 where r: "array_resize api s root ?c = Some (0, s1)" "arr_step root s s1"
      "arr s1 root = arr s root" "acap s1 root = blocks_for s root (unat ?c) * ipb s root"
      "room s \<le> room s1 + push_cost s root"
    using array_resize_grow [OF s, of ?c] c full max room False by (auto simp: push_cost_def)
  have s1: "inv s1" "arr_ok (priv s1) s1 root" "isz s1 root = isz s root"
    using r(2) unfolding arr_step_def by blast+
  have ok1: "block_ok s1 root" using priv_ok [OF s1(1)] s1(2) by (simp add: arr_ok_defs)
  have len1: "alen s1 root = alen s root" using r(3) by (metis length_arr)
  have room1: "alen s1 root < acap s1 root"
    using blocks_for_bounds(1) [OF sz, of "unat ?c"] c r(4) len1 by simp
  have d1: "isz s1 root \<le> length d" using d s1(3) by simp
  obtain cc cc1 where cc: "array_capacity s root = Some cc" "unat cc = acap s root"
      "array_capacity s1 root = Some cc1" "unat cc1 = acap s1 root"
    using array_capacity_ok [OF s(2) ok] array_capacity_ok [OF s1(2) ok1] by blast
  have "unat (w32 s1 root 4088 + 1) = Suc (alen s1 root)"
    using c len1 u32_eqI [of "w32 s1 root 4088" "w32 s root 4088"] by (simp add: alen_def)
  then have lt: "cc < ?c" "\<not> cc1 < w32 s1 root 4088 + 1"
    using c cc full room1 by (simp_all add: word_less_nat_alt)
  have "array_push api s root d = array_push api s1 root d"
    using cc(1,3) lt r(1) ok ok1 by (simp add: array_push_def Let_def arr_access)
  moreover obtain s' where s': "array_push api s1 root d = Some (0, s')" "arr_step root s1 s'"
      "room s' = room s1" "arr s' root = arr s1 root @ [take (isz s1 root) d]"
    using array_push_room_step [OF s1(1,2) room1 d1] by blast
  ultimately show ?thesis
    using arr_step_trans [OF r(2) s'(2)] r(3,5) s1(3) by auto
qed

end

subsection \<open>Resizing to any capacity\<close>

text \<open>The length is cut when it exceeds the new capacity.\<close>

definition cut :: "edb \<Rightarrow> u32 \<Rightarrow> edb" where
  "cut s root = (if acap s root < alen s root
     then set32 s root 4088 (word_of_nat (acap s root)) else s)"

lemma acap_bound_shape:
  assumes "arr_shape P s root"
  shows "acap s root \<le> PT_MAX * 4096"
proof -
  have sz: "0 < isz s root" using assms by (simp add: arr_shape_def)
  show ?thesis
  proof (cases "pt_n s root = 0")
    case True
    then show ?thesis using ipb_bounds(5) [OF sz] by (simp add: acap_def PT_MAX_def)
  next
    case False
    then have "pt_n s root \<le> PT_MAX" using assms by (simp add: arr_shape_def pt_ok_def)
    then show ?thesis using False mult_le_mono [OF _ ipb_bounds(2) [OF sz]] by (simp add: acap_def)
  qed
qed

lemma cut_ok:
  assumes ok: "arr_shape P s root"
  shows "arr_ok P (cut s root) root" "writes_only s (cut s root) root"
    "alen (cut s root) root = min (alen s root) (acap s root)"
    "isz (cut s root) root = isz s root" "acap (cut s root) root = acap s root"
    "afoot (cut s root) root = afoot s root"
    "\<And>i. i < acap s root \<Longrightarrow> item (cut s root) root i = item s root i"
proof -
  have u: "unat (word_of_nat (acap s root) :: u32) = acap s root"
    using acap_bound_shape [OF ok] by (intro unat_of_nat_u32) (simp add: PT_MAX_def)
  then have le: "unat (word_of_nat (acap s root) :: u32) \<le> acap s root" by simp
  note f = set_length [OF ok le]
  show "arr_ok P (cut s root) root" "alen (cut s root) root = min (alen s root) (acap s root)"
    "isz (cut s root) root = isz s root" "acap (cut s root) root = acap s root"
    "afoot (cut s root) root = afoot s root"
    "\<And>i. i < acap s root \<Longrightarrow> item (cut s root) root i = item s root i"
    using f u ok by (auto simp: cut_def arr_ok_def)
  show "writes_only s (cut s root) root"
    unfolding cut_def by (simp add: writes_only_set)
qed

context block_alloc begin

text \<open>
  An array has moved to other blocks, its length perhaps not cut yet: the items that fit the
  old and the new capacity are the same.
\<close>

definition arr_move :: "u32 \<Rightarrow> edb \<Rightarrow> edb \<Rightarrow> bool" where
  "arr_move root s s' \<longleftrightarrow>
     inv s' \<and> arr_shape (priv s') s' root \<and> isz s' root = isz s root \<and>
     alen s' root = alen s root \<and> priv s' - afoot s' root = priv s - afoot s root \<and>
     objlist s' = objlist s \<and> txn_id s' = txn_id s \<and>
     (\<forall>c \<in> priv s - afoot s root. blk s' c = blk s c) \<and>
     (\<forall>i < min (acap s root) (acap s' root). item s' root i = item s root i)"

lemma cut_step:
  assumes ok: "arr_ok (priv s) s root" and m: "arr_move root s s'"
  shows "arr_step root s (cut s' root)" "room (cut s' root) = room s'"
    "arr (cut s' root) root = take (acap s' root) (arr s root)" "acap (cut s' root) root = acap s' root"
proof -
  have shape: "arr_shape (priv s') s' root" and inv: "inv s'" using m by (simp_all add: arr_move_def)
  note c = cut_ok [OF shape]
  have root: "root \<in> priv s'" using shape by (simp add: arr_shape_def)
  note i = inv_writes [OF inv root c(2)] and p = priv_writes [OF inv root c(2)]
  show "room (cut s' root) = room s'" by (rule room_writes [OF inv root c(2)])
  show "acap (cut s' root) root = acap s' root" by (rule c(5))
  have "blk (cut s' root) c = blk s c" if cc: "c \<in> priv s - afoot s root" for c
  proof -
    have "c \<in> priv s' - afoot s' root" using m cc by (simp add: arr_move_def)
    then have "c \<noteq> root" by (auto simp: afoot_def)
    then have "blk (cut s' root) c = blk s' c" using writes_only_blk [OF c(2)] by metis
    also have "\<dots> = blk s c" using m cc by (simp add: arr_move_def)
    finally show ?thesis .
  qed
  then show "arr_step root s (cut s' root)"
    unfolding arr_step_def using m i p c writes_only_fields [OF c(2)] by (simp add: arr_move_def)
  have le: "alen s root \<le> acap s root" using ok by (simp add: arr_ok_def)
  show "arr (cut s' root) root = take (acap s' root) (arr s root)"
  proof (rule nth_equalityI)
    show "length (arr (cut s' root) root) = length (take (acap s' root) (arr s root))"
      using c(3) m by (simp add: arr_move_def)
    fix j assume "j < length (arr (cut s' root) root)"
    then have j: "j < alen s root" "j < acap s' root" "j < alen (cut s' root) root"
      using c(3) m by (simp_all add: arr_move_def)
    then have "item s' root j = item s root j" using m le by (simp add: arr_move_def)
    then show "arr (cut s' root) root ! j = take (acap s' root) (arr s root) ! j"
      using j c(7) by (simp add: nth_arr)
  qed
qed

end

context block_device begin

lemma shrinksD:
  assumes "shrinks root s s' bs ixs"
  shows "inv s'" "pt_ok (priv s') s' root" "pages s root = pages s' root @ bs"
    "index_pages s root = index_pages s' root @ ixs" "priv s' = priv s - set bs - set ixs"
    "room s \<le> room s'" "objlist s' = objlist s" "txn_id s' = txn_id s"
    "bytes s' root 4084 8 = bytes s root 4084 8"
    "\<forall>c \<in> priv s' - insert root (set (index_pages s root)). blk s' c = blk s c"
  using assms unfolding shrinks_def by blast+

lemma shrinks_foot:
  assumes pt: "pt_ok (priv s) s root" and h: "shrinks root s s' bs ixs"
  shows "priv s' - afoot s' root = priv s - afoot s root"
proof -
  note d = shrinksD [OF h]
  have "distinct (root # (index_pages s' root @ ixs) @ pages s' root @ bs)"
    using pt unfolding pt_ok_def d(3,4) by blast
  then show ?thesis unfolding afoot_def d(3-5) by auto
qed

lemma shrinks_pages:
  assumes ok: "arr_ok (priv s) s root" and n: "pt_n s root \<noteq> 0" "pt_n s' root \<noteq> 0"
    and h: "shrinks root s s' bs ixs"
  shows "arr_move root s s'"
proof -
  have sz: "0 < isz s root" using ok by (simp add: arr_ok_defs)
  have pt: "pt_ok (priv s) s root" using ok n by (simp add: arr_ok_defs)
  note d = shrinksD [OF h]
  note hd = arr_header_frame [OF d(9)]
  have ipb': "ipb s' root = ipb s root" by (simp add: ipb_def hd)
  have cap: "acap s' root = pt_n s' root * ipb s root" using n ipb' by (simp add: acap_def)
  have items: "item s' root i = item s root i" if i: "i < acap s root" "i < acap s' root" for i
  proof -
    have q': "i div ipb s root < pt_n s' root"
      using i(2) cap by (simp add: less_mult_imp_div_less)
    have pl: "place s' root i = place s root i"
      using q' n ipb' hd d(3) by (simp add: place_def nth_append)
    have in': "fst (place s root i) \<in> set (pages s' root)"
      using q' n d(3) by (simp add: place_def nth_append)
    then have "fst (place s root i) \<in> priv s'" using d(2) by (auto simp: pt_ok_def)
    moreover have "fst (place s root i) \<notin> insert root (set (index_pages s root))"
      using in' pt d(3) by (auto simp: pt_ok_def)
    ultimately have "blk s' (fst (place s root i)) = blk s (fst (place s root i))" using d(10) by blast
    moreover have "snd (place s root i) + isz s root \<le> 4096"
      using place_props(2) [OF arr_ok_shape [OF ok] i(1)] n by simp
    ultimately show ?thesis unfolding item_def pl hd by (rule blk_bytes)
  qed
  have "arr_shape (priv s') s' root"
    using ok d(2) n(2) hd sz by (auto simp: arr_ok_defs pt_ok_def)
  moreover have foot: "priv s' - afoot s' root = priv s - afoot s root" by (rule shrinks_foot [OF pt h])
  moreover have "blk s' c = blk s c" if "c \<in> priv s - afoot s root" for c
  proof -
    have "c \<in> priv s'" using that foot by blast
    moreover have "c \<notin> insert root (set (index_pages s root))" using that by (simp add: afoot_def)
    ultimately show ?thesis using d(10) by blast
  qed
  ultimately show ?thesis using d hd items by (simp add: arr_move_def)
qed

end

lemma w8_of_w32_zero: "w32 s b off = 0 \<Longrightarrow> i < 4 \<Longrightarrow> w8 s b (off + i) = 0"
  using ld32_zero [of "data s" "4096 * unat b + off" i] by (simp add: w8_def w32_def add.assoc)

context block_device begin

lemma shrink_small_items:
  assumes ok: "arr_ok (priv s) s root" and n: "pt_n s root \<noteq> 0" "pt_n s2 root = 0"
    and h: "shrinks root s s2 bs ixs"
  defines "s3 \<equiv> set_bytes s2 root 0 (bytes s (pages s root ! 0) 0 (small s root * isz s root))"
  shows "arr_move root s s3" "pt_n s3 root = 0" "room s \<le> room s3"
proof -
  let ?p = "pages s root ! 0" and ?m = "small s root * isz s root"
  have sz: "0 < isz s root" using ok by (simp add: arr_ok_defs)
  have pt: "pt_ok (priv s) s root" using ok n by (simp add: arr_ok_defs)
  note ib = ipb_bounds [OF sz] and d = shrinksD [OF h]
  note hd2 = arr_header_frame [OF d(9)]
  have root: "root \<in> priv s2" using d(2) by (simp add: pt_ok_def)
  have w: "writes_only s2 s3 root" unfolding s3_def using ib(4) by (intro writes_only_set) simp
  note i3 = inv_writes [OF d(1) root w] and p3 = priv_writes [OF d(1) root w]
  show "room s \<le> room s3" using room_writes [OF d(1) root w] d(6) by simp
  show n3: "pt_n s3 root = 0" using n(2) ib(4) by (simp add: s3_def pt_n_def)
  have b3: "bytes s3 root 4084 8 = bytes s2 root 4084 8" using ib(4) by (simp add: s3_def)
  have hd: "isz s3 root = isz s root" "alen s3 root = alen s root"
    using arr_header_frame [OF b3] hd2 by simp_all
  have small3: "small s3 root = small s root" by (simp add: small_def hd)
  have tail: "w8 s3 root off = 0" if off: "?m \<le> off" "off < 4084" for off
  proof -
    have w8: "w8 s3 root off = w8 s2 root off" using off ib(4) by (simp add: s3_def)
    have "4084 < isz s root + ?m"
      unfolding small_def using dividend_less_times_div [OF sz, of 4084] by (simp add: mult.commute)
    then have "2048 \<le> off" using off(1) isz_bound [of s root] by linarith
    then obtain k where k: "off = 2048 + k" "k < 2036" using off(2) le_Suc_ex by fastforce
    have "4 * (k div 4) + k mod 4 = k" by (rule mult_div_mod_eq)
    then have off': "off = 2048 + 4 * (k div 4) + k mod 4" using k(1) by linarith
    have "index_page s2 root (k div 4) = 0" using d(2) n(2) k(2) by (simp add: pt_ok_def)
    then have "w32 s2 root (2048 + 4 * (k div 4)) = 0" by (simp add: index_page_def)
    then have "w8 s2 root (2048 + 4 * (k div 4) + k mod 4) = 0" by (rule w8_of_w32_zero) simp
    then show ?thesis using w8 off' by simp
  qed
  have shape: "arr_shape (priv s3) s3 root"
    using n3 sz hd small3 tail root p3 by (simp add: arr_shape_def)
  have items: "item s3 root i = item s root i" if i: "i < small s root" for i
  proof -
    have fit: "i * isz s root + isz s root \<le> ?m" by (rule slot_fits [OF i order_refl])
    have "item s3 root i = bytes s3 root (i * isz s root) (isz s root)"
      using n3 hd by (simp add: item_def place_def)
    also have "\<dots> = bytes s ?p (i * isz s root) (isz s root)"
      using bytes_set_inside [of "i * isz s root" "isz s root"] bytes_sub fit by (simp add: s3_def)
    also have "\<dots> = item s root i" using n i ib(6) by (simp add: item_def place_def)
    finally show ?thesis .
  qed
  have foot: "priv s3 - afoot s3 root = priv s - afoot s root"
    using shrinks_foot [OF pt h] p3 n n3 by (simp add: afoot_small)
  have "blk s3 c = blk s c" if c: "c \<in> priv s - afoot s root" for c
  proof -
    have "c \<in> priv s2" "c \<noteq> root" using c foot p3 by (auto simp: afoot_def)
    moreover have "c \<notin> insert root (set (index_pages s root))" using c by (simp add: afoot_def)
    ultimately have "blk s2 c = blk s c" using d(10) by blast
    then show ?thesis using writes_only_blk [OF w] \<open>c \<noteq> root\<close> by metis
  qed
  then show "arr_move root s s3"
    using i3 shape hd foot d(7,8) items n3 small3 writes_only_fields [OF w]
    by (simp add: arr_move_def acap_def)
qed

lemma array_shrink_small_ok:
  assumes s: "inv s" "arr_ok (priv s) s root" and n: "pt_n s root \<noteq> 0"
  shows "\<exists>s'. array_shrink_small api s root (word_of_nat (small s root)) = Some (0, s') \<and>
    arr_move root s s' \<and> pt_n s' root = 0 \<and> room s \<le> room s'"
proof -
  let ?p = "pages s root ! 0" and ?m = "small s root * isz s root"
  have sz: "0 < isz s root" and root: "root \<in> priv s" using s(2) by (simp_all add: arr_ok_defs)
  have pt: "pt_ok (priv s) s root" using s(2) n by (simp add: arr_ok_defs)
  note ib = ipb_bounds [OF sz]
  have ok: "block_ok s root" by (rule priv_ok [OF s(1) root])
  have "?p \<in> set (pages s root)" using n by simp
  then have okp: "block_ok s ?p" using priv_ok [OF s(1)] pt by (auto simp: pt_ok_def)
  have wr: "page_write_host_index api s root 0 = Some (0, ?p, s)"
    using page_write_host_index_ok [OF s(1) pt, of 0] n by simp
  obtain s2 bs ixs where r: "page_resize api s root 0 = Some (0, s2)" "shrinks root s s2 bs ixs"
      "pt_n s2 root = 0"
    using page_resize_shrink [OF s(1) pt, of 0] by auto
  note d = shrinksD [OF r(2)]
  have ok2: "block_ok s2 root" using priv_ok [OF d(1)] d(2) by (simp add: pt_ok_def)
  have "w8 s2 root 4084 = w8 s root 4084"
    using arr_header_frame(1) [OF d(9)] by (simp add: isz_def word_unat_eq_iff)
  then have "array_shrink_small api s root (word_of_nat (small s root)) =
      Some (0, set_bytes s2 root 0 (bytes s ?p 0 ?m))"
    using wr r(1) ok okp ok2 ib(4) small_bytes [OF sz]
    by (simp add: array_shrink_small_def Let_def arr_access rd_bytes_ok wr_bytes_ok copy_back_def)
  then show ?thesis using shrink_small_items [OF s(2) n r(3,2)] by blast
qed

lemma array_resize_blocks_shrink:
  assumes s: "inv s" "arr_ok (priv s) s root" and nb: "unat nb < pt_n s root" "0 < unat nb"
  shows "\<exists>s'. array_resize_blocks api s root small' nb = Some (0, BLOCK s' root, s') \<and>
    arr_move root s s' \<and> pt_n s' root = unat nb \<and> room s \<le> room s'"
proof -
  have root: "root \<in> priv s" and n: "pt_n s root \<noteq> 0" using s(2) nb by (simp_all add: arr_ok_defs)
  have ok: "block_ok s root" by (rule priv_ok [OF s(1) root])
  have pt: "pt_ok (priv s) s root" using s(2) n by (simp add: arr_ok_defs)
  have w0: "w32 s root 4092 \<noteq> 0" using n by (auto simp: pt_n_def)
  obtain s2 bs ixs where r: "page_resize api s root nb = Some (0, s2)" "shrinks root s s2 bs ixs"
      "pt_n s2 root = unat nb"
    using page_resize_shrink [OF s(1) pt, of nb] nb(1) by auto
  have "array_resize_blocks api s root small' nb = Some (0, BLOCK s2 root, s2)"
    using ok w0 r(1) by (simp add: array_resize_blocks_def Let_def pt_access arr_access)
  moreover have "arr_move root s s2"
    by (rule shrinks_pages [OF s(2) n _ r(2)]) (use r(3) nb(2) in simp)
  ultimately show ?thesis using r(3) shrinksD(6) [OF r(2)] by blast
qed

end

context block_device begin

text \<open>The capacity that \<open>array_resize\<close> provides for a request of \<open>c\<close> items.\<close>

definition new_cap :: "edb \<Rightarrow> u32 \<Rightarrow> nat \<Rightarrow> nat" where
  "new_cap s root c = (if c \<le> small s root then small s root else blocks_for s root c * ipb s root)"

lemma small_le_acap: "0 < isz s root \<Longrightarrow> small s root \<le> acap s root"
  using ipb_bounds(6) [of s root] by (cases "pt_n s root") (auto simp: acap_def)

lemma blocks_for_exact: "0 < isz s root \<Longrightarrow> blocks_for s root (n * ipb s root) = n"
  using blocks_for_bounds(1) [of s root "n * ipb s root"] blocks_for_bounds(2) [of s root _ n]
    ipb_bounds(1) [of s root] by (simp add: le_antisym)

lemma array_resize_to_small:
  assumes s: "inv s" "arr_ok (priv s) s root" and c: "unat c < acap s root" "unat c \<le> small s root"
  shows "\<exists>s'. array_resize api s root c = Some (0, s') \<and> arr_step root s s' \<and>
    acap s' root = small s root \<and> arr s' root = take (small s root) (arr s root) \<and> room s \<le> room s'"
proof -
  have sz: "0 < isz s root" and root: "root \<in> priv s" using s(2) by (simp_all add: arr_ok_defs)
  note cp = capacity_access [OF sz]
  have ok: "block_ok s root" by (rule priv_ok [OF s(1) root])
  obtain cc where cc: "array_capacity s root = Some cc" "unat cc = acap s root"
    using array_capacity_ok [OF s(2) ok] by blast
  have cmp: "c \<noteq> cc" "c \<le> word_of_nat (small s root)"
    using c cc(2) cp(3) by (auto simp: word_le_nat_alt)
  show ?thesis
  proof (cases "pt_n s root = 0")
    case True
    then have w0: "w32 s root 4092 = 0" by (simp add: pt_n_def unat_eq_zero)
    have le: "alen s root \<le> small s root" using s(2) True by (simp add: arr_ok_def acap_def)
    then have "\<not> word_of_nat (small s root) < w32 s root 4088"
      using cp(3) by (simp add: word_less_nat_alt alen_def)
    then have "array_resize api s root c = Some (0, s)"
      using ok cc(1) cmp cp(1) w0 by (simp add: array_resize_def Let_def arr_access pt_access)
    then show ?thesis using arr_step_refl [OF s] True le by (simp add: acap_def)
  next
    case False
    then have w0: "w32 s root 4092 \<noteq> 0" by (auto simp: pt_n_def)
    obtain s2 where r: "array_shrink_small api s root (word_of_nat (small s root)) = Some (0, s2)"
        "arr_move root s s2" "pt_n s2 root = 0" "room s \<le> room s2"
      using array_shrink_small_ok [OF s False] by blast
    have m: "inv s2" "root \<in> priv s2" "isz s2 root = isz s root"
      using r(2) by (simp_all add: arr_move_def arr_shape_def)
    have ok2: "block_ok s2 root" by (rule priv_ok [OF m(1,2)])
    have cap2: "acap s2 root = small s root" using r(3) m(3) by (simp add: acap_def small_def)
    have "word_of_nat (small s root) < w32 s2 root 4088 \<longleftrightarrow> acap s2 root < alen s2 root"
      using cp(3) cap2 by (simp add: word_less_nat_alt alen_def)
    then have "array_resize api s root c = Some (0, cut s2 root)"
      using ok ok2 cc(1) cmp cp(1) w0 r(1) cap2
      by (simp add: array_resize_def Let_def arr_access pt_access cut_def)
    then show ?thesis using cut_step [OF s(2) r(2)] cap2 r(4) by simp
  qed
qed

lemma array_resize_fewer:
  assumes s: "inv s" "arr_ok (priv s) s root" and c: "unat c < acap s root" "small s root < unat c"
    and max: "unat c \<le> PT_MAX * ipb s root"
  shows "\<exists>s'. array_resize api s root c = Some (0, s') \<and> arr_step root s s' \<and>
    acap s' root = blocks_for s root (unat c) * ipb s root \<and>
    arr s' root = take (blocks_for s root (unat c) * ipb s root) (arr s root) \<and> room s \<le> room s'"
proof -
  have sz: "0 < isz s root" and root: "root \<in> priv s" using s(2) by (simp_all add: arr_ok_defs)
  note ib = ipb_bounds [OF sz] and cp = capacity_access [OF sz]
  have n: "pt_n s root \<noteq> 0" and w0: "w32 s root 4092 \<noteq> 0"
    using c by (auto simp: acap_def pt_n_def split: if_splits)
  let ?w = "word_of_nat (ipb s root) :: u32"
  define nb where "nb = (c + ?w - 1) div ?w"
  have c0: "0 < unat c" using c(2) by simp
  note nbw = blocks_for_word [OF sz max c0, folded nb_def] and bf = blocks_for_bounds [OF sz]
  have ok: "block_ok s root" by (rule priv_ok [OF s(1) root])
  obtain cc where cc: "array_capacity s root = Some cc" "unat cc = acap s root"
    using array_capacity_ok [OF s(2) ok] by blast
  have cmp: "c \<noteq> cc" "\<not> c \<le> word_of_nat (small s root)"
    using c cc(2) cp(3) by (auto simp: word_le_nat_alt)
  have nb: "unat nb \<le> pt_n s root" "0 < unat nb"
    unfolding nbw(1) using c n bf(2) [of "unat c" "pt_n s root"] bf(3) [of 0 "unat c"] c0
    by (simp_all add: acap_def)
  show ?thesis
  proof (cases "unat nb = pt_n s root")
    case True
    then have same: "w32 s root 4092 = nb" "acap s root = blocks_for s root (unat c) * ipb s root"
      using n nbw(1) by (simp_all add: pt_n_def word_unat_eq_iff acap_def)
    have "\<not> nb * ?w < w32 s root 4088"
      using s(2) same(2) nbw(2) by (simp add: word_less_nat_alt alen_def arr_ok_def)
    then have "array_resize api s root c = Some (0, s)"
      using ok cc(1) cmp cp(1,2) same(1)
      by (simp add: array_resize_def Let_def arr_access pt_access flip: nb_def)
    moreover have "alen s root \<le> acap s root" using s(2) by (simp add: arr_ok_def)
    ultimately show ?thesis using arr_step_refl [OF s] same(2) by simp
  next
    case False
    then have lt: "unat nb < pt_n s root" using nb(1) by simp
    obtain s2 where r: "array_resize_blocks api s root (word_of_nat (small s root)) nb = Some (0, BLOCK s2 root, s2)"
        "arr_move root s s2" "pt_n s2 root = unat nb" "room s \<le> room s2"
      using array_resize_blocks_shrink [OF s lt nb(2)] by blast
    have m: "inv s2" "root \<in> priv s2" "isz s2 root = isz s root"
      using r(2) by (simp_all add: arr_move_def arr_shape_def)
    have ok2: "block_ok s2 root" by (rule priv_ok [OF m(1,2)])
    have cap2: "acap s2 root = blocks_for s root (unat c) * ipb s root"
      using r(3) m(3) nb(2) nbw(1) by (simp add: acap_def ipb_def)
    have ne: "w32 s root 4092 \<noteq> nb" using False by (auto simp: pt_n_def)
    have lt2: "nb * ?w < w32 s2 root 4088 \<longleftrightarrow> acap s2 root < alen s2 root"
      using nbw(2) cap2 by (simp add: word_less_nat_alt alen_def)
    have "nb * ?w = word_of_nat (acap s2 root)"
      unfolding cap2 nbw(2) [symmetric] by simp
    then have "array_resize api s root c = Some (0, cut s2 root)"
      using ok ok2 cc(1) cmp cp(1,2) ne r(1) lt2
      by (simp add: array_resize_def Let_def arr_access pt_access cut_def flip: nb_def)
    then show ?thesis using cut_step [OF s(2) r(2)] cap2 r(4) by simp
  qed
qed

text \<open>\<open>array_resize\<close> to any capacity keeps the items that fit.\<close>

lemma array_resize_ok:
  assumes s: "inv s" "arr_ok (priv s) s root" and max: "unat c \<le> PT_MAX * ipb s root"
    and room: "acap s root < unat c \<longrightarrow> grow_cost (pt_n s root) (blocks_for s root (unat c)) \<le> room s"
  shows "\<exists>s'. array_resize api s root c = Some (0, s') \<and> arr_step root s s' \<and>
    acap s' root = new_cap s root (unat c) \<and> arr s' root = take (new_cap s root (unat c)) (arr s root)"
proof -
  have sz: "0 < isz s root" and root: "root \<in> priv s" and len: "alen s root \<le> acap s root"
    using s(2) by (simp_all add: arr_ok_defs)
  note bf = blocks_for_bounds [OF sz] and sm = small_le_acap [OF sz]
  consider "acap s root < unat c" | "unat c = acap s root" | "unat c < acap s root" by linarith
  then show ?thesis
  proof cases
    case 1
    then have "new_cap s root (unat c) = blocks_for s root (unat c) * ipb s root"
      using sm by (simp add: new_cap_def)
    moreover have "alen s root \<le> blocks_for s root (unat c) * ipb s root"
      using 1 len bf(1) [of "unat c"] by linarith
    ultimately show ?thesis using array_resize_grow [OF s 1 max] room 1 by auto
  next
    case 2
    have "new_cap s root (unat c) = acap s root"
    proof (cases "unat c \<le> small s root")
      case True
      then show ?thesis using 2 sm by (simp add: new_cap_def)
    next
      case False
      then have "pt_n s root \<noteq> 0" using 2 by (auto simp: acap_def split: if_splits)
      then show ?thesis using False 2 blocks_for_exact [OF sz] by (simp add: new_cap_def acap_def)
    qed
    moreover have "array_resize api s root c = Some (0, s)"
    proof -
      obtain cc where "array_capacity s root = Some cc" "unat cc = acap s root"
        using array_capacity_ok [OF s(2) priv_ok [OF s(1) root]] by blast
      then show ?thesis using 2 by (simp add: array_resize_def Let_def word_unat_eq_iff)
    qed
    ultimately show ?thesis using arr_step_refl [OF s] len by simp
  next
    case 3
    show ?thesis
      using array_resize_to_small [OF s 3] array_resize_fewer [OF s 3 _ max]
      by (cases "unat c \<le> small s root") (auto simp: new_cap_def)
  qed
qed

end

subsection \<open>A new array\<close>

lemma w8_set8_other: "off' < off \<Longrightarrow> w8 (set8 s b off v) b off' = w8 s b off'"
  by (simp add: w8_def set8_def)

lemma array_init_ok:
  assumes b: "block_ok s root" and sz: "sz \<noteq> 0" and root: "root \<in> P"
  shows "\<exists>s'. array_init s root sz = Some (0, s') \<and> writes_only s s' root \<and> arr_ok P s' root \<and>
    arr s' root = [] \<and> isz s' root = unat sz \<and> pt_n s' root = 0"
proof -
  let ?s1 = "set_bytes s root 0 (replicate 4096 0)"
  let ?s2 = "set8 ?s1 root 4084 sz"
  have z: "w8 ?s1 root off = 0" if "off < 4096" for off using that by (simp add: bytes_zero)
  then have z32: "w32 ?s1 root off = 0" if "off + 4 \<le> 4096" for off
    by (rule w32_zero) (use that in simp)
  have "array_init s root sz = Some (0, ?s2)"
    using b by (simp add: array_init_def page_init_def wr_bytes_ok pt_set_item_size_def wr8_ok)
  moreover have "writes_only s ?s2 root" by (intro writes_only_step writes_only_refl) simp_all
  moreover have n: "pt_n ?s2 root = 0" "alen ?s2 root = 0" "isz ?s2 root = unat sz"
    using z32 by (simp_all add: pt_n_def alen_def isz_def)
  moreover have "arr_ok P ?s2 root"
    using n sz root z w8_set8_other by (auto simp: arr_ok_defs unat_gt_0)
  moreover have "arr ?s2 root = []" using n(2) by (simp add: arr_def)
  ultimately show ?thesis by blast
qed

end
