(* ===== verification/Txn_Correct.thy ===== *)
theory Txn_Correct
  imports Txn Mem_Hash_Correct Edb_Array_Correct
begin

text \<open>
  Correctness of the transaction layer for files of up to \<open>N\<close> blocks, where the freelist
  fits its root block: every block that it hands out is fresh, freed blocks come back, and
  the blocks a transaction may write in place are exactly those it allocated or copied.
  These are the laws of \<open>block_alloc\<close> and \<open>block_device\<close>, which are interpreted here on
  \<open>txn_api\<close>, so that the lemmas on page tables and arrays hold of the whole stack.
\<close>

subsection \<open>The freelist as a list of blocks\<close>

lemma bytes_u32_u32_bytes [simp]: "bytes_u32 (u32_bytes v) = Some v"
proof -
  have "(\<lambda>i. u32_bytes v ! i) i = st32 (\<lambda>_. 0) 0 v i" if "i < 4" for i
  proof -
    have "i = 0 \<or> i = 1 \<or> i = 2 \<or> i = 3" using that by auto
    then show ?thesis by (auto simp: u32_bytes_def st32_def)
  qed
  then have "ld32 (\<lambda>i. u32_bytes v ! i) 0 = ld32 (st32 (\<lambda>_. 0) 0 v) 0"
    by (intro ld32_same) (simp add: same_at_def)
  then show ?thesis by (simp add: bytes_u32_def u32_bytes_def)
qed

definition dec :: "u8 list \<Rightarrow> u32" where "dec d = ld32 (\<lambda>i. d ! i) 0"

lemma dec_bytes: "length d = 4 \<Longrightarrow> bytes_u32 d = Some (dec d)"
  by (simp add: bytes_u32_def dec_def)

lemma length_u32_bytes [simp]: "length (u32_bytes v) = 4"
  by (simp add: u32_bytes_def)

lemma dec_u32_bytes [simp]: "dec (u32_bytes v) = v"
  using bytes_u32_u32_bytes [of v] dec_bytes [of "u32_bytes v"] by simp

definition fl :: "edb \<Rightarrow> u32 list" where
  "fl s = map dec (arr s EDB_FREELIST_SECONDARY)"

definition fl_ok :: "edb \<Rightarrow> bool" where
  "fl_ok s \<longleftrightarrow> block_ok s EDB_FREELIST_SECONDARY \<and>
     arr_ok {EDB_FREELIST_SECONDARY} s EDB_FREELIST_SECONDARY \<and>
     pt_n s EDB_FREELIST_SECONDARY = 0 \<and> isz s EDB_FREELIST_SECONDARY = 4"

lemma length_fl [simp]: "length (fl s) = alen s EDB_FREELIST_SECONDARY"
  by (simp add: fl_def)

lemma fl_in_place: "fl_ok s \<Longrightarrow> in_place api {EDB_FREELIST_SECONDARY} s EDB_FREELIST_SECONDARY"
  by (simp add: fl_ok_def in_place_small)

lemma fl_cap: "fl_ok s \<Longrightarrow> acap s EDB_FREELIST_SECONDARY = 1021"
  by (simp add: fl_ok_def acap_def small_def)

text \<open>The view of a small array depends only on its block.\<close>

lemma small_frame:
  assumes ok: "arr_ok P s root" and b: "blk s' root = blk s root" and n: "pt_n s root = 0"
  shows "pt_n s' root = 0" "isz s' root = isz s root" "arr s' root = arr s root" "arr_ok P s' root"
proof -
  have w8: "w8 s' root off = w8 s root off" if "off < 4096" for off by (rule blk_w8 [OF b]) (use that in simp)
  have w32: "w32 s' root off = w32 s root off" if "off + 4 \<le> 4096" for off by (rule blk_w32 [OF b that])
  show n': "pt_n s' root = 0" and i': "isz s' root = isz s root"
    using n w32 w8 by (simp_all add: pt_n_def isz_def)
  have l': "alen s' root = alen s root" using w32 by (simp add: alen_def)
  have sm: "small s' root = small s root" by (simp add: small_def i')
  show "arr_ok P s' root"
    using ok n n' i' l' sm w8 by (simp add: arr_ok_defs acap_def)
  have "item s' root i = item s root i" if i: "i < alen s root" for i
  proof -
    have "i < acap s root" using i ok by (simp add: arr_ok_def)
    then have "i < small s root" using n by (simp add: acap_def)
    then have "i * isz s root + isz s root \<le> small s root * isz s root"
      by (rule slot_fits) simp
    also have "\<dots> \<le> 4084" using ok by (intro ipb_bounds) (simp add: arr_ok_defs)
    finally have "bytes s' root (i * isz s root) (isz s root) = bytes s root (i * isz s root) (isz s root)"
      by (intro blk_bytes [OF b]) simp
    then show ?thesis using n n' i' by (simp add: item_def place_def)
  qed
  then show "arr s' root = arr s root" using l' by (simp add: arr_def)
qed

lemma fl_frame:
  assumes ok: "fl_ok s" and b: "block_ok s' EDB_FREELIST_SECONDARY"
    and same: "blk s' EDB_FREELIST_SECONDARY = blk s EDB_FREELIST_SECONDARY"
  shows "fl_ok s'" "fl s' = fl s"
proof -
  have "arr_ok {EDB_FREELIST_SECONDARY} s EDB_FREELIST_SECONDARY" "pt_n s EDB_FREELIST_SECONDARY = 0"
    using ok by (simp_all add: fl_ok_def)
  note f = small_frame [OF this(1) same this(2)]
  show "fl_ok s'" "fl s' = fl s" using f ok b by (simp_all add: fl_ok_def fl_def)
qed

lemma block_ok_writes: "writes_only s s' b \<Longrightarrow> block_ok s' c = block_ok s c"
  using writes_only_fields [of s s' b] by (simp add: block_ok_def)

lemma fl_pop:
  assumes ok: "fl_ok s" and ne: "fl s \<noteq> []"
  defines "s' \<equiv> drop_last s EDB_FREELIST_SECONDARY"
  shows "array_pop api s EDB_FREELIST_SECONDARY = Some (0, last (arr s EDB_FREELIST_SECONDARY), s')"
    and "bytes_u32 (last (arr s EDB_FREELIST_SECONDARY)) = Some (last (fl s))"
    and "fl_ok s'" "fl s' = butlast (fl s)" "writes_only s s' EDB_FREELIST_SECONDARY"
proof -
  let ?r = EDB_FREELIST_SECONDARY
  have pos: "0 < alen s ?r" using ne by (metis length_fl length_greater_0_conv)
  have a: "arr_ok {?r} s ?r" using ok by (simp add: fl_ok_def)
  note d = drop_last_ok [OF a pos, folded s'_def]
  show "array_pop api s ?r = Some (0, last (arr s ?r), s')"
    using array_pop_ok [OF fl_in_place [OF ok]] pos by (simp add: s'_def)
  show "writes_only s s' ?r" by (rule d(7))
  show "fl_ok s'" using ok d block_ok_writes [OF d(7)] by (simp add: fl_ok_def)
  have ne': "arr s ?r \<noteq> []" using ne by (simp add: fl_def)
  show "fl s' = butlast (fl s)" using d(1) by (simp add: fl_def map_butlast)
  have "last (arr s ?r) \<in> set (arr s ?r)" using ne' by simp
  then have "length (last (arr s ?r)) = 4" using ok by (auto simp: arr_def fl_ok_def)
  then show "bytes_u32 (last (arr s ?r)) = Some (last (fl s))"
    using ne' by (simp add: dec_bytes fl_def last_map)
qed

lemma fl_push:
  assumes ok: "fl_ok s" and room: "length (fl s) < 1021"
  shows "\<exists>s'. array_push api s EDB_FREELIST_SECONDARY (u32_bytes v) = Some (0, s') \<and>
    fl_ok s' \<and> fl s' = fl s @ [v] \<and> writes_only s s' EDB_FREELIST_SECONDARY"
proof -
  let ?r = EDB_FREELIST_SECONDARY and ?s1 = "bump s EDB_FREELIST_SECONDARY"
  let ?s2 = "put_item ?s1 ?r (alen s ?r) (u32_bytes v)"
  have a: "arr_ok {?r} s ?r" and n: "pt_n s ?r = 0" "isz s ?r = 4" using ok by (simp_all add: fl_ok_def)
  have lt: "alen s ?r < acap s ?r" using room fl_cap [OF ok] by simp
  note b = bump_ok [OF a lt]
  have "fl_ok ?s1" using ok b block_ok_writes [OF b(7)] by (simp add: fl_ok_def)
  then have "array_push api s ?r (u32_bytes v) = Some (0, ?s2)"
    using array_push_room [OF fl_in_place [OF ok] fl_in_place lt] n by simp
  moreover have d: "isz s ?r \<le> length (u32_bytes v)" using n by simp
  note p = push_item_ok [OF a lt d]
  have "fst (place ?s1 ?r (alen s ?r)) = ?r" using b n by (simp add: place_def)
  then have w: "writes_only s ?s2 ?r" using p(6) writes_only_trans [OF b(7)] by simp
  moreover have "fl_ok ?s2" using ok p n block_ok_writes [OF w] by (simp add: fl_ok_def)
  moreover have "fl ?s2 = fl s @ [v]" using p(1) n by (simp add: fl_def)
  ultimately show ?thesis by blast
qed

lemma fl_push_range:
  assumes "fl_ok s" and "freelist s = EDB_FREELIST_SECONDARY" and "unat i \<le> unat (nblocks s)"
    and "length (fl s) + (unat (nblocks s) - unat i) \<le> 1021"
  shows "\<exists>s'. freelist_push_range api i s = Some (0, s') \<and> fl_ok s' \<and>
    fl s' = fl s @ map word_of_nat [unat i..<unat (nblocks s)] \<and> writes_only s s' EDB_FREELIST_SECONDARY"
  using assms
proof (induction "unat (nblocks s) - unat i" arbitrary: i s)
  case 0
  then have "\<not> i < nblocks s" by (simp add: word_less_nat_alt)
  then show ?case using 0 by (subst freelist_push_range.simps) simp
next
  case (Suc m)
  have lt: "i < nblocks s" using Suc.hyps(2) by (simp add: word_less_nat_alt)
  then have lt': "unat i < unat (nblocks s)" by (simp add: word_less_nat_alt)
  have room: "length (fl s) < 1021" using Suc.hyps(2) Suc.prems(4) by simp
  obtain s1 where p: "array_push api s EDB_FREELIST_SECONDARY (u32_bytes i) = Some (0, s1)" "fl_ok s1"
      "fl s1 = fl s @ [i]" "writes_only s s1 EDB_FREELIST_SECONDARY"
    using fl_push [OF Suc.prems(1) room, of api i] by blast
  have f: "nblocks s1 = nblocks s" "freelist s1 = freelist s" using writes_only_fields [OF p(4)] by simp_all
  have i1: "unat (i + 1) = Suc (unat i)"
    using lt' u32_lt [of "nblocks s"] by (simp add: unat_Suc_u32)
  have "\<exists>s'. freelist_push_range api (i + 1) s1 = Some (0, s') \<and> fl_ok s' \<and>
      fl s' = fl s1 @ map word_of_nat [unat (i + 1)..<unat (nblocks s1)] \<and>
      writes_only s1 s' EDB_FREELIST_SECONDARY"
    by (rule Suc.hyps(1)) (use Suc.hyps(2) Suc.prems p f i1 in auto)
  then obtain s' where s': "freelist_push_range api (i + 1) s1 = Some (0, s')" "fl_ok s'"
      "fl s' = fl s1 @ map word_of_nat [unat (i + 1)..<unat (nblocks s1)]"
      "writes_only s1 s' EDB_FREELIST_SECONDARY" by blast
  have "map word_of_nat [unat i..<unat (nblocks s)] = i # map word_of_nat [Suc (unat i)..<unat (nblocks s)]"
    using lt' by (simp add: upt_conv_Cons)
  then show ?case
    using s' p f i1 lt Suc.prems(2) writes_only_trans [OF p(4) s'(4)]
    by (subst freelist_push_range.simps) simp
qed

subsection \<open>The size of a grown file\<close>

lemma unat_two_power: "n < 32 \<Longrightarrow> unat (2 ^ n :: u32) = 2 ^ n"
proof -
  assume n: "n < 32"
  have "(2 :: nat) ^ n < 2 ^ 32" using n by (intro power_strict_increasing) simp_all
  then have "unat (word_of_nat (2 ^ n) :: u32) = 2 ^ n" by (rule unat_of_nat_u32)
  then show ?thesis by simp
qed

lemma round_down:
  assumes step: "unat (step :: u32) = 2 ^ n" and n: "n < 32"
  shows "unat (x AND NOT (step - 1)) = unat x div 2 ^ n * 2 ^ n"
proof -
  have s: "step = 2 ^ n" using step unat_two_power [OF n] by (intro u32_eqI) simp
  have "x AND NOT (step - 1) = x AND NOT (mask n)" by (simp add: s mask_eq_exp_minus_1)
  also have "\<dots> = push_bit n (drop_bit n x)" by (rule bit_eqI) (auto simp: bit_simps)
  also have "\<dots> = drop_bit n x * 2 ^ n" by (simp add: push_bit_eq_mult)
  finally have e: "x AND NOT (step - 1) = drop_bit n x * 2 ^ n" .
  have d: "unat (drop_bit n x) = unat x div 2 ^ n"
    unfolding unat_drop_bit_eq by (rule drop_bit_eq_div)
  have "unat x div 2 ^ n * 2 ^ n \<le> unat x" by simp
  then have "unat x div 2 ^ n * 2 ^ n < 2 ^ 32" using u32_lt [of x] by linarith
  then show ?thesis unfolding e using d unat_two_power [OF n] by (subst unat_mult_u32) simp_all
qed

text \<open>
  The file grows to a multiple of the step, by at least one and at most \<open>step\<close> blocks, and
  not beyond a limit that is a power of two of at most \<open>2 ^ 12\<close> blocks.
\<close>

lemma grow_size:
  fixes nb :: u32
  assumes lt: "unat nb < 2 ^ m" and m: "m \<le> 12"
  defines "step \<equiv> next_power_of_two (drop_bit 3 nb)"
  defines "new \<equiv> (nb + step) AND NOT (step - 1)"
  shows "nb < new" "unat new \<le> 2 ^ m" "unat new \<le> unat nb + 512"
proof -
  have d: "unat (drop_bit 3 nb) = unat nb div 8"
    unfolding unat_drop_bit_eq by (simp add: drop_bit_eq_div)
  obtain n where n: "unat step = 2 ^ n" "n \<le> 9" "n \<le> m"
  proof (cases "unat nb div 8 = 0")
    case True
    then have "drop_bit 3 nb = 0" using d by (simp add: unat_eq_zero)
    then show ?thesis using that [of 0] by (simp add: step_def next_power_of_two_0)
  next
    case False
    define n where "n = (LEAST n. unat nb div 8 < 2 ^ n)"
    have n: "unat nb div 8 < 2 ^ n" unfolding n_def by (rule LeastI, rule less_exp)
    have least: "n \<le> k" if "unat nb div 8 < 2 ^ k" for k
      unfolding n_def by (rule Least_le, rule that)
    have n0: "0 < n" using n False by (cases n) simp_all
    then have "\<not> unat nb div 8 < 2 ^ (n - 1)" using least [of "n - 1"] by auto
    moreover have m3: "3 \<le> m"
    proof (rule ccontr)
      assume "\<not> 3 \<le> m"
      then have "(2 :: nat) ^ m \<le> 2 ^ 2" by (intro power_increasing) simp_all
      then show False using lt False by simp
    qed
    have "unat nb < 8 * 2 ^ (m - 3)" 
    proof -
      obtain k where k: "m = 3 + k" using m3 le_Suc_ex by blast
      show ?thesis using lt unfolding k by (simp add: power_add)
    qed
    then have nm: "n \<le> m - 3" by (intro least) (simp add: less_mult_imp_div_less mult.commute)
    ultimately have "unat step = 2 ^ n"
      unfolding step_def using n n0 m by (intro next_power_of_two_range) (simp_all add: d)
    then show ?thesis using that [of n] nm m by simp
  qed
  have step512: "unat step \<le> 512"
    using n(1,2) power_increasing [of n 9 "2 :: nat"] by simp
  have "(2 :: nat) ^ m \<le> 2 ^ 12" using m by (intro power_increasing) simp_all
  then have nb4096: "unat nb < 4096" using lt by simp
  have sum: "unat (nb + step) = unat nb + 2 ^ n"
    using step512 nb4096 n(1) by (subst unat_add_u32) simp_all
  have "unat new = (unat nb + 2 ^ n) div 2 ^ n * 2 ^ n"
    unfolding new_def using round_down [OF n(1)] n(2) sum by simp
  moreover have "(unat nb + 2 ^ n) div 2 ^ n = unat nb div 2 ^ n + 1" by (rule div_add_self2) simp
  ultimately have new: "unat new = (unat nb div 2 ^ n + 1) * 2 ^ n" by simp
  have "unat nb = unat nb div 2 ^ n * 2 ^ n + unat nb mod 2 ^ n" by (rule div_mult_mod_eq [symmetric])
  moreover have "unat nb mod 2 ^ n < 2 ^ n" by simp
  moreover have "unat new = unat nb div 2 ^ n * 2 ^ n + 2 ^ n" unfolding new by simp
  ultimately have "unat nb < unat new" "unat new \<le> unat nb + 2 ^ n" by linarith+
  then show "nb < new" "unat new \<le> unat nb + 512" using step512 n(1) by (simp_all add: word_less_nat_alt)
  have "(2 :: nat) ^ m = 2 ^ (m - n) * 2 ^ n" using n(3) by (simp flip: power_add)
  then have "unat nb div 2 ^ n < 2 ^ (m - n)" using lt by (simp add: less_mult_imp_div_less)
  then have "(unat nb div 2 ^ n + 1) * 2 ^ n \<le> 2 ^ (m - n) * 2 ^ n" by (intro mult_le_mono1) simp
  then show "unat new \<le> 2 ^ m" unfolding new using \<open>(2 :: nat) ^ m = _\<close> by simp
qed

subsection \<open>The invariant of a transaction\<close>

definition os_ok :: "os \<Rightarrow> bool" where
  "os_ok os \<longleftrightarrow> (\<forall>h n. os_falloc os h n \<and> os_mmap os h n)"

text \<open>The recorded state of a block; \<open>cowed\<close> states name the block it was copied from.\<close>

definition st :: "edb \<Rightarrow> u32 \<Rightarrow> u32" where
  "st s b = mh_map (ts_blocks (hd (txn s))) b"

definition cowed :: "u32 \<Rightarrow> bool" where
  "cowed v \<longleftrightarrow> v \<noteq> 0 \<and> v \<noteq> ALLOCATED \<and> v \<noteq> FREED"

text \<open>The blocks that the transaction may write in place, the freelist's own copy aside.\<close>

definition tpriv :: "edb \<Rightarrow> u32 set" where
  "tpriv s = {b. 4 \<le> unat b \<and> unat b < unat (nblocks s) \<and> st s b \<noteq> 0 \<and> st s b \<noteq> FREED}"

definition file_ok :: "edb \<Rightarrow> bool" where
  "file_ok s \<longleftrightarrow> mapped s \<and> prot_write s \<and> \<not> readonly s \<and>
     unat (filesize s) = 4096 * unat (nblocks s) \<and> disk_len s = unat (filesize s)"

definition table_ok :: "nat \<Rightarrow> edb \<Rightarrow> bool" where
  "table_ok N s \<longleftrightarrow> length (txn s) = 1 \<and> mh_inv (ts_blocks (hd (txn s))) \<and>
     (\<forall>k \<in> mh_keys (ts_blocks (hd (txn s))). unat k < N)"

text \<open>
  A block that a copy was made from has not been handed out again and is not free; the
  freelist's root is a copy of the primary root.
\<close>

definition states_ok :: "edb \<Rightarrow> bool" where
  "states_ok s \<longleftrightarrow> st s EDB_FREELIST_SECONDARY = EDB_FREELIST_PRIMARY \<and>
     (\<forall>b. unat (nblocks s) \<le> unat b \<longrightarrow> st s b = 0) \<and>
     (\<forall>b. b \<noteq> EDB_FREELIST_SECONDARY \<longrightarrow> cowed (st s b) \<longrightarrow>
        3 \<le> unat (st s b) \<and> unat (st s b) < unat (nblocks s) \<and>
        (st s (st s b) = 0 \<or> st s (st s b) = FREED) \<and> st s b \<notin> set (fl s))"

definition fl_fresh :: "edb \<Rightarrow> bool" where
  "fl_fresh s \<longleftrightarrow> distinct (fl s) \<and>
     (\<forall>b \<in> set (fl s). 4 \<le> unat b \<and> unat b < unat (nblocks s) \<and> st s b = 0)"

definition txn_inv :: "os \<Rightarrow> nat \<Rightarrow> edb \<Rightarrow> bool" where
  "txn_inv os m s \<longleftrightarrow> os_ok os \<and> m \<le> 12 \<and> file_ok s \<and>
     4 \<le> unat (nblocks s) \<and> unat (nblocks s) \<le> 2 ^ m \<and>
     freelist s = EDB_FREELIST_SECONDARY \<and> table_ok (2 ^ m) s \<and> states_ok s \<and> fl_ok s \<and> fl_fresh s"

text \<open>How many allocations are certain to succeed.\<close>

definition troom :: "nat \<Rightarrow> edb \<Rightarrow> nat" where
  "troom m s = (2 ^ m - unat (nblocks s)) + length (fl s)"

lemma EDB_consts [simp]:
  "unat EDB_FREELIST_SECONDARY = 2" "unat EDB_FREELIST_PRIMARY = 1" "unat EDB_OBJLIST = 3"
  "unat EDB_USER_DATA = 4"
  by (simp_all add: EDB_FREELIST_SECONDARY_def EDB_FREELIST_PRIMARY_def EDB_OBJLIST_def
      EDB_USER_DATA_def)

lemma two_power_12: "m \<le> 12 \<Longrightarrow> (2 :: nat) ^ m \<le> 4096"
  using power_increasing [of m 12 "2 :: nat"] by simp

lemma small_not_special:
  assumes "unat v \<le> 4096"
  shows "v \<noteq> ALLOCATED" "v \<noteq> FREED" "v \<noteq> 0 \<Longrightarrow> cowed v"
  using assms by (auto simp: ALLOCATED_def FREED_def cowed_def)

lemma special [simp]: "ALLOCATED \<noteq> 0" "FREED \<noteq> 0" "ALLOCATED \<noteq> FREED" "FREED \<noteq> ALLOCATED"
  "\<not> cowed ALLOCATED" "\<not> cowed FREED" "\<not> cowed 0"
  by (simp_all add: ALLOCATED_def FREED_def cowed_def)

lemma table_cases:
  assumes "table_ok N s"
  obtains ts where "txn s = [ts]" "mh_inv (ts_blocks ts)" "\<forall>k \<in> mh_keys (ts_blocks ts). unat k < N"
proof -
  obtain ts where "txn s = [ts]" using assms by (auto simp: table_ok_def length_Suc_conv)
  then show ?thesis using that assms by (simp add: table_ok_def)
qed

lemma get_state_ok: "table_ok N s \<Longrightarrow> b \<noteq> 0 \<Longrightarrow> get_state s b = Some (st s b)"
  by (erule table_cases) (simp add: get_state_def st_def mem_hash_get_inv)

lemma set_state_ok:
  assumes t: "table_ok N s" and N: "N \<le> 4096" and k: "k \<noteq> 0" "unat k < N"
  shows "\<exists>t. set_state s k v = Some (s\<lparr>txn := t\<rparr>) \<and> table_ok N (s\<lparr>txn := t\<rparr>) \<and>
    st (s\<lparr>txn := t\<rparr>) = (st s)(k := v)"
proof -
  obtain ts where ts: "txn s = [ts]" "mh_inv (ts_blocks ts)" "\<forall>k \<in> mh_keys (ts_blocks ts). unat k < N"
    by (rule table_cases [OF t])
  have "unat ` mh_keys (ts_blocks ts) \<subseteq> {..<N}" using ts(3) by auto
  then have "card (unat ` mh_keys (ts_blocks ts)) \<le> N"
    by (metis card_lessThan card_mono finite_lessThan)
  moreover have "inj_on unat (mh_keys (ts_blocks ts))" by (auto intro: inj_onI u32_eqI)
  ultimately have "card (mh_keys (ts_blocks ts)) \<le> 3210341" using N by (simp add: card_image)
  then obtain t' where t': "mem_hash_set (ts_blocks ts) k v = Some t'" "mh_inv t'"
      "mh_map t' = (mh_map (ts_blocks ts))(k := v)" "mh_keys t' = insert k (mh_keys (ts_blocks ts))"
    using mem_hash_set_depth [OF ts(2) k(1)] by blast
  then show ?thesis
    using ts k(2) by (intro exI [of _ "[ts\<lparr>ts_blocks := t'\<rparr>]"])
      (auto simp: set_state_def table_ok_def st_def fun_eq_iff)
qed

text \<open>The bookkeeping of transactions does not touch the file.\<close>

lemma data_frame:
  assumes "data s' = data s"
  shows "blk s' b = blk s b" "w32 s' b off = w32 s b off" "w8 s' b off = w8 s b off"
    "bytes s' b off k = bytes s b off k"
  using assms by (simp_all add: blk_def bytes_def w32_def w8_def)

lemma txn_update_simps [simp]:
  "block_ok (s\<lparr>txn := t\<rparr>) b = block_ok s b" "file_ok (s\<lparr>txn := t\<rparr>) = file_ok s"
  "blk (s\<lparr>txn := t\<rparr>) b = blk s b"
  by (simp_all add: block_ok_def file_ok_def data_frame [of "s\<lparr>txn := t\<rparr>" s])

lemma fl_txn_update [simp]:
  assumes "fl_ok s"
  shows "fl_ok (s\<lparr>txn := t\<rparr>)" "fl (s\<lparr>txn := t\<rparr>) = fl s"
  using fl_frame [OF assms, of "s\<lparr>txn := t\<rparr>"] assms by (simp_all add: fl_ok_def)

lemma file_block_ok:
  "file_ok s \<Longrightarrow> unat (nblocks s) \<le> 4096 \<Longrightarrow> unat b < unat (nblocks s) \<Longrightarrow> block_ok s b"
  by (simp add: file_ok_def block_ok_def)

lemma st_writes: "writes_only s s' b \<Longrightarrow> st s' = st s"
  using writes_only_fields [of s s' b] by (simp add: st_def fun_eq_iff)

lemma table_writes: "writes_only s s' b \<Longrightarrow> table_ok N s' = table_ok N s"
  using writes_only_fields [of s s' b] by (simp add: table_ok_def)

lemma file_writes: "writes_only s s' b \<Longrightarrow> file_ok s' = file_ok s"
  using writes_only_fields [of s s' b] by (simp add: file_ok_def)

text \<open>What a write to a private block, and to the freelist root, keeps.\<close>

lemma txn_inv_writes:
  assumes s: "txn_inv os m s" and b: "b \<in> tpriv s" and w: "writes_only s s' b"
  shows "txn_inv os m s'" "tpriv s' = tpriv s" "troom m s' = troom m s"
proof -
  note f = writes_only_fields [OF w]
  have ok: "fl_ok s" using s by (simp add: txn_inv_def)
  have "b \<noteq> EDB_FREELIST_SECONDARY" using b by (auto simp: tpriv_def)
  then have "blk s' EDB_FREELIST_SECONDARY = blk s EDB_FREELIST_SECONDARY" using writes_only_blk [OF w] by metis
  moreover have "block_ok s' EDB_FREELIST_SECONDARY"
    using ok block_ok_writes [OF w] by (simp add: fl_ok_def)
  ultimately have fl: "fl_ok s'" "fl s' = fl s" using fl_frame [OF ok] by simp_all
  show "tpriv s' = tpriv s" "troom m s' = troom m s"
    using f st_writes [OF w] fl(2) by (simp_all add: tpriv_def troom_def del: length_fl)
  show "txn_inv os m s'"
    using s f fl st_writes [OF w] table_writes [OF w] file_writes [OF w]
    by (simp add: txn_inv_def states_ok_def fl_fresh_def)
qed

subsection \<open>Allocation\<close>

text \<open>
  What taking a block from the freelist does: the block is not in use, the states are the
  same, and nothing but the freelist's root has changed in the old part of the file.
\<close>

definition takes :: "nat \<Rightarrow> edb \<Rightarrow> u32 \<Rightarrow> edb \<Rightarrow> bool" where
  "takes m s b s' \<longleftrightarrow>
     4 \<le> unat b \<and> unat b < unat (nblocks s') \<and> st s b = 0 \<and> b \<notin> set (fl s') \<and>
     (\<forall>c. c \<noteq> EDB_FREELIST_SECONDARY \<longrightarrow> cowed (st s c) \<longrightarrow> st s c \<noteq> b) \<and>
     (b \<in> set (fl s) \<or> unat (nblocks s) \<le> unat b) \<and>
     (\<forall>c \<in> set (fl s'). c \<in> set (fl s) \<or> unat (nblocks s) \<le> unat c) \<and>
     txn s' = txn s \<and> nblocks s \<le> nblocks s' \<and> troom m s \<le> Suc (troom m s') \<and>
     objlist s' = objlist s \<and> txn_id s' = txn_id s \<and>
     (\<forall>c. unat c < unat (nblocks s) \<longrightarrow> c \<noteq> EDB_FREELIST_SECONDARY \<longrightarrow> blk s' c = blk s c)"

lemma st_txn: "txn s' = txn s \<Longrightarrow> st s' = st s"
  by (simp add: st_def fun_eq_iff)

lemma take_free_block:
  assumes s: "txn_inv os m s" and ne: "fl s \<noteq> []"
  defines "s' \<equiv> drop_last s EDB_FREELIST_SECONDARY"
  shows "txn_inv os m s'" "takes m s (last (fl s)) s'"
proof -
  have fl0: "fl_ok s" and fr: "fl_fresh s" and so: "states_ok s" using s by (simp_all add: txn_inv_def)
  note p = fl_pop [OF fl0 ne, folded s'_def]
  note f = writes_only_fields [OF p(5)]
  have d: "distinct (butlast (fl s) @ [last (fl s)])" using fr ne by (simp add: fl_fresh_def)
  have sub: "set (fl s') \<subseteq> set (fl s)" unfolding p(4) by (auto dest: in_set_butlastD)
  have lst: "last (fl s) \<in> set (fl s)" using ne by simp
  have "fl_fresh s'"
    using fr d sub p(4) f st_txn [of s' s] by (auto simp: fl_fresh_def)
  moreover have "states_ok s'"
    using so sub f st_txn [of s' s] by (auto simp: states_ok_def)
  ultimately show "txn_inv os m s'"
    using s p(3) f table_writes [OF p(5)] file_writes [OF p(5)] by (simp add: txn_inv_def)
  have "length (fl s') = length (fl s) - 1" "0 < length (fl s)" using p(4) ne by (simp_all del: length_fl)
  then have room: "troom m s \<le> Suc (troom m s')" using f unfolding troom_def by (simp del: length_fl)
  have "blk s' c = blk s c" if "c \<noteq> EDB_FREELIST_SECONDARY" for c
    using writes_only_blk [OF p(5)] that by metis
  then show "takes m s (last (fl s)) s'"
    unfolding takes_def using fr so lst d sub p(4) f room
    by (auto simp: fl_fresh_def states_ok_def)
qed

lemma grow_file:
  assumes s: "txn_inv os m s" and e: "fl s = []" and lt: "unat (nblocks s) < 2 ^ m"
  defines "step \<equiv> next_power_of_two (drop_bit 3 (nblocks s))"
  shows "\<exists>s1 s'. io_resize os s ((nblocks s + step) AND NOT (step - 1)) = (0, s1) \<and>
    freelist_push_range api (nblocks s + 1) s1 = Some (0, s') \<and>
    txn_inv os m s' \<and> takes m s (nblocks s) s'"
proof -
  let ?nb = "nblocks s" and ?new = "(nblocks s + step) AND NOT (step - 1)" and ?r = EDB_FREELIST_SECONDARY
  have m: "m \<le> 12" and fil: "file_ok s" and fl0: "fl_ok s" and so: "states_ok s" and nb4: "4 \<le> unat ?nb"
    and os: "os_ok os" and frl: "freelist s = ?r" and t: "table_ok (2 ^ m) s"
    using s by (simp_all add: txn_inv_def)
  note g = grow_size [OF lt m, folded step_def]
  have new4096: "unat ?new \<le> 4096" using g(2) two_power_12 [OF m] by linarith
  have nb4096: "unat ?nb < 4096" using lt two_power_12 [OF m] by linarith
  have lt_nat: "unat ?nb < unat ?new" using g(1) by (simp add: word_less_nat_alt)
  have ex: "\<exists>s'. io_resize os s ?new = (0, s') \<and> mapped s' \<and> prot_write s' = (\<not> readonly s) \<and>
    nblocks s' = ?new \<and> unat (filesize s') = 4096 * unat ?new \<and> disk_len s' = unat (filesize s') \<and>
    (\<forall>a < disk_len s. data s' a = data s a) \<and>
    (\<forall>a. disk_len s \<le> a \<longrightarrow> nblocks s < ?new \<longrightarrow> data s' a = 0) \<and>
    readonly s' = readonly s \<and> h_file s' = h_file s \<and> freelist s' = freelist s \<and>
    objlist s' = objlist s \<and> txn_id s' = txn_id s \<and> txn s' = txn s \<and> epoch s' = Suc (epoch s)"
    by (rule io_resize_grow) (use g new4096 lt_nat fil os in \<open>simp_all add: file_ok_def os_ok_def\<close>)
  then obtain s1 where r: "io_resize os s ?new = (0, s1)" "mapped s1" "prot_write s1 = (\<not> readonly s)"
      "nblocks s1 = ?new" "unat (filesize s1) = 4096 * unat ?new" "disk_len s1 = unat (filesize s1)"
      "\<forall>a < disk_len s. data s1 a = data s a" "readonly s1 = readonly s" "freelist s1 = freelist s"
      "objlist s1 = objlist s" "txn_id s1 = txn_id s" "txn s1 = txn s" by blast
  have file1: "file_ok s1" using r fil by (simp add: file_ok_def)
  have blk1: "blk s1 c = blk s c" if "unat c < unat ?nb" for c
    unfolding blk_same_at same_at_def using r(7) that fil by (auto simp: file_ok_def)
  have ok1: "block_ok s1 ?r"
    by (rule file_block_ok [OF file1]) (use r(4) new4096 nb4 lt_nat in simp_all)
  have same: "blk s1 ?r = blk s ?r" by (rule blk1) (use nb4 in simp)
  have fl1: "fl_ok s1" "fl s1 = []" using fl_frame [OF fl0 ok1 same] e by simp_all
  have i: "unat (?nb + 1) = Suc (unat ?nb)" using nb4096 by (simp add: unat_Suc_u32)
  have pr: "freelist s1 = ?r" "unat (?nb + 1) \<le> unat (nblocks s1)"
    using r(4,9) frl i lt_nat by simp_all
  have "unat ?new - Suc (unat ?nb) \<le> 1021" using g(3) by linarith
  then have "length (fl s1) + (unat (nblocks s1) - unat (?nb + 1)) \<le> 1021"
    unfolding fl1(2) i r(4) by simp
  note q = fl_push_range [OF fl1(1) pr this, of api, unfolded fl1(2) i r(4) append_Nil]
  obtain s' where p: "freelist_push_range api (?nb + 1) s1 = Some (0, s')" "fl_ok s'"
      "fl s' = map word_of_nat [Suc (unat ?nb)..<unat ?new]" "writes_only s1 s' ?r"
    using q by blast
  note f = writes_only_fields [OF p(4)]
  have in_fl: "b \<in> set (fl s') \<longleftrightarrow> unat ?nb < unat b \<and> unat b < unat ?new" for b
  proof -
    have "b = word_of_nat (unat b)" by simp
    then show ?thesis unfolding p(3) using new4096
      by (auto simp: unat_of_nat_u32 intro!: image_eqI [of b word_of_nat "unat b"])
  qed
  have "distinct (fl s')"
    unfolding p(3) distinct_map using new4096
    by (auto intro!: inj_onI simp: of_nat_u32_inj)
  then have fresh: "fl_fresh s'"
    using in_fl nb4 so f r(4) st_txn [of s' s] r(12) by (auto simp: fl_fresh_def states_ok_def)
  have st': "st s' = st s" using f r(12) by (intro st_txn) simp
  have nb': "unat (nblocks s') = unat ?new" using f r(4) by simp
  have states: "states_ok s'"
    unfolding states_ok_def st' in_fl nb'
  proof (intro conjI allI impI)
    show "st s ?r = EDB_FREELIST_PRIMARY" using so by (simp add: states_ok_def)
    show "st s b = 0" if "unat ?new \<le> unat b" for b
      using so that lt_nat by (simp add: states_ok_def)
    fix b assume b: "b \<noteq> ?r" "cowed (st s b)"
    then have o: "3 \<le> unat (st s b)" "unat (st s b) < unat ?nb"
      "st s (st s b) = 0 \<or> st s (st s b) = FREED"
      using so by (simp_all add: states_ok_def)
    then show "3 \<le> unat (st s b)" "unat (st s b) < unat ?new"
      "st s (st s b) = 0 \<or> st s (st s b) = FREED"
      "\<not> (unat ?nb < unat (st s b) \<and> unat (st s b) < unat ?new)"
      using lt_nat by simp_all
  qed
  have "txn_inv os m s'"
    using s fresh states p(2) f r(4,9,12) g(2) lt_nat table_writes [OF p(4)] file_writes [OF p(4)] file1
    by (simp add: txn_inv_def table_ok_def)
  moreover have "takes m s ?nb s'"
  proof -
    have len: "length (fl s') = unat ?new - Suc (unat ?nb)" using p(3) by simp
    have room: "troom m s \<le> Suc (troom m s')"
      unfolding troom_def len e using f r(4) lt_nat g(2) by simp
    have "blk s' c = blk s c" if "unat c < unat ?nb" "c \<noteq> ?r" for c
      using writes_only_blk [OF p(4)] blk1 that by metis
    moreover have "cowed (st s c) \<Longrightarrow> c \<noteq> ?r \<Longrightarrow> st s c \<noteq> ?nb" for c
      using so by (auto simp: states_ok_def)
    moreover have "st s ?nb = 0" using so by (simp add: states_ok_def)
    ultimately show ?thesis
      unfolding takes_def using nb4 f r lt_nat in_fl room by (simp add: word_le_nat_alt)
  qed
  ultimately show ?thesis using r(1) p(1) by blast
qed

lemma freelist_allocate_ok:
  assumes s: "txn_inv os m s" and room: "0 < troom m s"
    and mod: "api_modify api s EDB_FREELIST_SECONDARY = Some (0, EDB_FREELIST_SECONDARY, s)"
  shows "\<exists>b s'. freelist_allocate_block os api s = Some (0, b, s') \<and> txn_inv os m s' \<and> takes m s b s'"
proof -
  have frl: "freelist s = EDB_FREELIST_SECONDARY" and fl0: "fl_ok s" using s by (simp_all add: txn_inv_def)
  have upd: "s\<lparr>freelist := EDB_FREELIST_SECONDARY\<rparr> = s" using frl by (cases s) simp
  have ok: "block_ok s EDB_FREELIST_SECONDARY" using fl0 by (simp add: fl_ok_def)
  note unf = freelist_allocate_block_def frl mod Option.bind.bind_lunit prod.case Let_def upd
  show ?thesis
  proof (cases "fl s = []")
    case True
    then have "alen s EDB_FREELIST_SECONDARY = 0" by (metis length_fl list.size(3))
    then have len: "array_length s EDB_FREELIST_SECONDARY = Some 0"
      using ok by (simp add: array_length_def arr_access alen_def unat_eq_zero)
    have "unat (nblocks s) < 2 ^ m" using room True by (simp add: troom_def)
    from grow_file [OF s True this, of api] show ?thesis unfolding unf using len frl by auto
  next
    case False
    then have "0 < alen s EDB_FREELIST_SECONDARY" by (metis length_fl length_greater_0_conv)
    then have len: "array_length s EDB_FREELIST_SECONDARY = Some (w32 s EDB_FREELIST_SECONDARY 4088)"
      "0 < w32 s EDB_FREELIST_SECONDARY 4088"
      using ok by (simp_all add: array_length_def arr_access alen_def word_less_nat_alt)
    show ?thesis
      unfolding unf using take_free_block [OF s False] fl_pop(1,2) [OF fl0 False] frl len by simp
  qed
qed

subsection \<open>The laws of the block API\<close>

lemma modify_in_place:
  assumes s: "txn_inv os m s" and b: "b \<noteq> 0" "st s b \<noteq> 0" "st s b \<noteq> FREED"
  shows "txn_modify_block os api s b = Some (0, b, s)"
proof -
  have t: "table_ok (2 ^ m) s" using s by (simp add: txn_inv_def)
  then have "txn s \<noteq> []" by (auto simp: table_ok_def)
  then show ?thesis using get_state_ok [OF t b(1)] b by (simp add: txn_modify_block_def)
qed

lemma modify_freelist:
  assumes s: "txn_inv os m s"
  shows "api_modify (txn_api os (Suc d)) s EDB_FREELIST_SECONDARY = Some (0, EDB_FREELIST_SECONDARY, s)"
proof -
  have "st s EDB_FREELIST_SECONDARY = EDB_FREELIST_PRIMARY"
    using s by (simp add: txn_inv_def states_ok_def)
  moreover have "EDB_FREELIST_SECONDARY \<noteq> 0" "EDB_FREELIST_PRIMARY \<noteq> 0" "EDB_FREELIST_PRIMARY \<noteq> FREED"
    by (simp_all add: EDB_FREELIST_SECONDARY_def EDB_FREELIST_PRIMARY_def FREED_def)
  ultimately show ?thesis using modify_in_place [OF s] by simp
qed

text \<open>Recording a block that was just taken from the freelist makes it private.\<close>

lemma record_block:
  assumes s: "txn_inv os m s" and tk: "takes m s b s1" "txn_inv os m s1"
    and v: "v = ALLOCATED \<or> (3 \<le> unat v \<and> unat v < unat (nblocks s) \<and> st s v = 0 \<and> v \<notin> set (fl s))"
  shows "\<exists>t. set_state s1 b v = Some (s1\<lparr>txn := t\<rparr>) \<and> txn_inv os m (s1\<lparr>txn := t\<rparr>) \<and>
    tpriv (s1\<lparr>txn := t\<rparr>) = insert b (tpriv s) \<and> b \<notin> tpriv s \<and>
    st (s1\<lparr>txn := t\<rparr>) = (st s)(b := v) \<and> troom m (s1\<lparr>txn := t\<rparr>) = troom m s1"
proof -
  have m: "(2 :: nat) ^ m \<le> 4096" using s two_power_12 by (simp add: txn_inv_def)
  have i1: "table_ok (2 ^ m) s1" "states_ok s1" "fl_ok s1" "fl_fresh s1" "unat (nblocks s1) \<le> 2 ^ m"
    using tk(2) by (simp_all add: txn_inv_def)
  have st1: "st s1 = st s" using tk(1) by (intro st_txn) (simp add: takes_def)
  have b: "4 \<le> unat b" "unat b < unat (nblocks s1)" "st s b = 0" "b \<notin> set (fl s1)"
    "\<And>c. c \<noteq> EDB_FREELIST_SECONDARY \<Longrightarrow> cowed (st s c) \<Longrightarrow> st s c \<noteq> b"
    "b \<in> set (fl s) \<or> unat (nblocks s) \<le> unat b" "unat (nblocks s) \<le> unat (nblocks s1)"
    using tk(1) by (auto simp: takes_def word_le_nat_alt)
  have "b \<noteq> 0" using b(1) by auto
  then obtain t where t: "set_state s1 b v = Some (s1\<lparr>txn := t\<rparr>)" "table_ok (2 ^ m) (s1\<lparr>txn := t\<rparr>)"
      "st (s1\<lparr>txn := t\<rparr>) = (st s)(b := v)"
    using set_state_ok [OF i1(1) m, of b v] b(2) i1(5) st1 by auto
  let ?s2 = "s1\<lparr>txn := t\<rparr>"
  have fl2: "fl_ok ?s2" "fl ?s2 = fl s1" using i1(3) by simp_all
  have b2: "b \<noteq> EDB_FREELIST_SECONDARY" using b(1) by auto
  have vb: "v \<noteq> b" if "v \<noteq> ALLOCATED" using v that b(6) by auto
  have fl1: "set (fl s1) \<subseteq> set (fl s) \<union> {c. unat (nblocks s) \<le> unat c}"
    using tk(1) by (auto simp: takes_def)
  have states: "states_ok ?s2"
    unfolding states_ok_def t(3) fl2
  proof (intro conjI allI impI)
    show "((st s)(b := v)) EDB_FREELIST_SECONDARY = EDB_FREELIST_PRIMARY"
      using i1(2) b2 st1 by (simp add: states_ok_def)
    show "((st s)(b := v)) c = 0" if "unat (nblocks ?s2) \<le> unat c" for c
      using i1(2) b(2) that st1 by (auto simp: states_ok_def)
    fix c assume c: "c \<noteq> EDB_FREELIST_SECONDARY" "cowed (((st s)(b := v)) c)"
    let ?o = "((st s)(b := v)) c"
    have "3 \<le> unat ?o \<and> unat ?o < unat (nblocks s1) \<and> (st s ?o = 0 \<or> st s ?o = FREED) \<and>
        ?o \<notin> set (fl s1) \<and> ?o \<noteq> b"
    proof (cases "c = b")
      case True
      then have "v \<noteq> ALLOCATED" using c(2) by auto
      then show ?thesis using True v vb b(7) fl1 by auto
    next
      case False
      then show ?thesis using c i1(2) b(5) [OF c(1)] st1 by (auto simp: states_ok_def)
    qed
    then show "3 \<le> unat ?o" "unat ?o < unat (nblocks ?s2)"
      "((st s)(b := v)) ?o = 0 \<or> ((st s)(b := v)) ?o = FREED" "?o \<notin> set (fl s1)"
      by simp_all
  qed
  have "fl_fresh ?s2" using i1(4) b(4) st1 t(3) fl2 by (auto simp: fl_fresh_def)
  then have "txn_inv os m ?s2" using tk(2) states t(2) fl2 by (simp add: txn_inv_def)
  moreover have v0: "v \<noteq> 0" "v \<noteq> FREED"
  proof -
    have "unat (nblocks s) \<le> 4096" using s m by (simp add: txn_inv_def)
    then show "v \<noteq> 0" "v \<noteq> FREED" using v small_not_special(2) [of v] by auto
  qed
  have "tpriv ?s2 = insert b (tpriv s)"
  proof -
    have "unat c < unat (nblocks s) \<and> unat c < unat (nblocks s1)" if "st s c \<noteq> 0" for c
      using s that b(7) by (meson not_le txn_inv_def states_ok_def order_less_le_trans)
    then show ?thesis using b v0 t(3) by (auto simp: tpriv_def)
  qed
  moreover have "b \<notin> tpriv s" using b(3) by (simp add: tpriv_def)
  moreover have "troom m ?s2 = troom m s1" using fl2(2) by (simp add: troom_def del: length_fl)
  ultimately show ?thesis using t by blast
qed

lemma txn_allocate_ok:
  assumes s: "txn_inv os m s" and room: "0 < troom m s"
  shows "\<exists>b s'. txn_allocate_block os (txn_api os (Suc d)) s = Some (0, b, s') \<and> txn_inv os m s' \<and>
    b \<notin> tpriv s \<and> tpriv s' = insert b (tpriv s) \<and> troom m s \<le> Suc (troom m s') \<and>
    objlist s' = objlist s \<and> txn_id s' = txn_id s \<and> st s' = (st s)(b := ALLOCATED) \<and>
    (b \<in> set (fl s) \<or> unat (nblocks s) \<le> unat b) \<and>
    (\<forall>c. unat c < unat (nblocks s) \<longrightarrow> c \<noteq> EDB_FREELIST_SECONDARY \<longrightarrow> blk s' c = blk s c)"
proof -
  have ne: "txn s \<noteq> []" using s by (auto simp: txn_inv_def table_ok_def)
  obtain b s1 where a: "freelist_allocate_block os (txn_api os (Suc d)) s = Some (0, b, s1)"
      "txn_inv os m s1" "takes m s b s1"
    using freelist_allocate_ok [OF s room modify_freelist [OF s]] by blast
  obtain t where t: "set_state s1 b ALLOCATED = Some (s1\<lparr>txn := t\<rparr>)" "txn_inv os m (s1\<lparr>txn := t\<rparr>)"
      "tpriv (s1\<lparr>txn := t\<rparr>) = insert b (tpriv s)" "b \<notin> tpriv s"
      "st (s1\<lparr>txn := t\<rparr>) = (st s)(b := ALLOCATED)" "troom m (s1\<lparr>txn := t\<rparr>) = troom m s1"
    using record_block [OF s a(3,2), of ALLOCATED] by blast
  have "txn_allocate_block os (txn_api os (Suc d)) s = Some (0, b, s1\<lparr>txn := t\<rparr>)"
    using ne a(1) t(1) by (simp add: txn_allocate_block_def del: txn_api.simps)
  moreover have "b \<in> set (fl s) \<or> unat (nblocks s) \<le> unat b" "objlist s1 = objlist s"
    "txn_id s1 = txn_id s" "troom m s \<le> Suc (troom m s1)"
    "\<forall>c. unat c < unat (nblocks s) \<longrightarrow> c \<noteq> EDB_FREELIST_SECONDARY \<longrightarrow> blk s1 c = blk s c"
    using a(3) by (simp_all add: takes_def)
  ultimately show ?thesis using t by (intro exI [of _ b] exI [of _ "s1\<lparr>txn := t\<rparr>"]) simp
qed

text \<open>Copy on write: a block that the transaction has not touched is copied once.\<close>

lemma txn_modify_cow:
  assumes s: "txn_inv os m s" and room: "0 < troom m s"
    and v: "3 \<le> unat v" "unat v < unat (nblocks s)" "st s v = 0" "v \<notin> set (fl s)"
  shows "\<exists>b s'. txn_modify_block os (txn_api os (Suc d)) s v = Some (0, b, s') \<and> txn_inv os m s' \<and>
    b \<notin> tpriv s \<and> tpriv s' = insert b (tpriv s) \<and> b \<noteq> v \<and> blk s' b = blk s v \<and>
    st s' = (st s)(b := v) \<and> objlist s' = objlist s \<and> txn_id s' = txn_id s \<and>
    troom m s \<le> Suc (troom m s') \<and> (b \<in> set (fl s) \<or> unat (nblocks s) \<le> unat b) \<and>
    (\<forall>c. unat c < unat (nblocks s) \<longrightarrow> c \<notin> {EDB_FREELIST_SECONDARY, b} \<longrightarrow> blk s' c = blk s c)"
proof -
  have m: "(2 :: nat) ^ m \<le> 4096" using s two_power_12 by (simp add: txn_inv_def)
  have t: "table_ok (2 ^ m) s" using s by (simp add: txn_inv_def)
  have ne: "txn s \<noteq> []" using t by (auto simp: table_ok_def)
  have v0: "v \<noteq> 0" using v(1) by auto
  obtain b s1 where a: "freelist_allocate_block os (txn_api os (Suc d)) s = Some (0, b, s1)"
      "txn_inv os m s1" "takes m s b s1"
    using freelist_allocate_ok [OF s room modify_freelist [OF s]] by blast
  have tk: "4 \<le> unat b" "unat b < unat (nblocks s1)" "b \<in> set (fl s) \<or> unat (nblocks s) \<le> unat b"
    "objlist s1 = objlist s" "txn_id s1 = txn_id s" "troom m s \<le> Suc (troom m s1)"
    "unat (nblocks s) \<le> unat (nblocks s1)"
    "\<And>c. unat c < unat (nblocks s) \<Longrightarrow> c \<noteq> EDB_FREELIST_SECONDARY \<Longrightarrow> blk s1 c = blk s c"
    using a(3) by (simp_all add: takes_def word_le_nat_alt)
  have v2: "v \<noteq> EDB_FREELIST_SECONDARY" using v(1) by auto
  have vb: "b \<noteq> v" using tk(3) v(2,4) by auto
  obtain t where t1: "set_state s1 b v = Some (s1\<lparr>txn := t\<rparr>)" "txn_inv os m (s1\<lparr>txn := t\<rparr>)"
      "tpriv (s1\<lparr>txn := t\<rparr>) = insert b (tpriv s)" "b \<notin> tpriv s"
      "st (s1\<lparr>txn := t\<rparr>) = (st s)(b := v)" "troom m (s1\<lparr>txn := t\<rparr>) = troom m s1"
    using record_block [OF s a(3,2), of v] v by blast
  have n1: "unat (nblocks s1) \<le> 4096" "file_ok s1" using a(2) m by (auto simp: txn_inv_def)
  have ok: "block_ok s1 v" "block_ok s1 b"
    using file_block_ok [OF n1(2,1)] v(2) tk(2,7) by simp_all
  define s2 where "s2 = set_bytes s1 b 0 (blk s1 v)"
  have len: "length (blk s1 v) = 4096" by (simp add: blk_def)
  have copy: "copy_block s1 b v = Some s2"
    using ok len by (simp add: copy_block_def BLOCK_SIZE_def rd_bytes_ok wr_bytes_ok s2_def blk_def)
  have st2: "set_state s2 b v = Some (s2\<lparr>txn := t\<rparr>)"
    using t1(1) by (auto simp: set_state_def s2_def set_bytes_def split: list.splits bind_splits
        dest!: arg_cong [of _ _ txn])
  have w: "writes_only (s1\<lparr>txn := t\<rparr>) (s2\<lparr>txn := t\<rparr>) b"
  proof -
    have "s2\<lparr>txn := t\<rparr> = set_bytes (s1\<lparr>txn := t\<rparr>) b 0 (blk s1 v)"
      by (cases s1) (simp add: s2_def set_bytes_def)
    then show ?thesis using writes_only_set(3) [of 0 "blk s1 v"] len by simp
  qed
  have "b \<in> tpriv (s1\<lparr>txn := t\<rparr>)" using t1(3) by simp
  note i = txn_inv_writes [OF t1(2) this w]
  have res: "txn_modify_block os (txn_api os (Suc d)) s v = Some (0, b, s2\<lparr>txn := t\<rparr>)"
    using ne get_state_ok [OF t v0] v(3) a(1) copy st2
    by (simp add: txn_modify_block_def special(1,2) [symmetric] del: txn_api.simps)
  have "blk (s2\<lparr>txn := t\<rparr>) b = blk s v"
  proof -
    have "blk s2 b = blk s1 v"
      using read_back(3) [OF len, of s1 b 0] by (simp only: s2_def blk_def [of "set_bytes s1 b 0 (blk s1 v)"])
    then show ?thesis using tk(8) [OF v(2) v2] by simp
  qed
  moreover have "blk (s2\<lparr>txn := t\<rparr>) c = blk s c"
    if "unat c < unat (nblocks s)" "c \<notin> {EDB_FREELIST_SECONDARY, b}" for c
  proof -
    have "blk s2 c = blk s1 c"
      using writes_only_blk [OF writes_only_set(3) [of 0 "blk s1 v" s1 b]] that len by (metis add_0 insertI1 insertI2 le_refl s2_def)
    then show ?thesis using that tk(8) by simp
  qed
  moreover have "objlist s2 = objlist s" "txn_id s2 = txn_id s" using tk by (simp_all add: s2_def)
  moreover have "st (s2\<lparr>txn := t\<rparr>) = (st s)(b := v)"
    using t1(5) st_txn [of "s2\<lparr>txn := t\<rparr>" "s1\<lparr>txn := t\<rparr>"] by simp
  ultimately show ?thesis
    using res i t1(3,4,6) vb tk(3,6) by (intro exI [of _ b] exI [of _ "s2\<lparr>txn := t\<rparr>"]) simp
qed

text \<open>
  Freeing a private block: its number goes to the end of the freelist, and the block that
  it was copied from, if any, is marked as freed until the commit.
\<close>

lemma fl_room:
  assumes s: "txn_inv os m s" and m: "m \<le> 10" and b: "b \<in> tpriv s"
  shows "b \<notin> set (fl s)" "length (fl s) < 1021"
proof -
  have f: "distinct (fl s)" "\<And>c. c \<in> set (fl s) \<Longrightarrow> 4 \<le> unat c \<and> unat c < unat (nblocks s) \<and> st s c = 0"
    using s by (auto simp: txn_inv_def fl_fresh_def)
  show "b \<notin> set (fl s)" using f(2) b by (auto simp: tpriv_def)
  have "(2 :: nat) ^ m \<le> 2 ^ 10" using m by (intro power_increasing) simp_all
  then have n: "unat (nblocks s) \<le> 1024" using s by (simp add: txn_inv_def)
  have "unat ` set (fl s) \<subseteq> {4..<1024}" using f(2) n by fastforce
  then have "card (unat ` set (fl s)) \<le> card {4..<1024 :: nat}" by (intro card_mono) simp_all
  moreover have "inj_on unat (set (fl s))" by (auto intro: inj_onI u32_eqI)
  ultimately have "card (set (fl s)) \<le> 1020" by (simp add: card_image)
  then show "length (fl s) < 1021" using distinct_card [OF f(1)] by (simp del: length_fl)
qed

lemma freelist_same: "freelist s = b \<Longrightarrow> s\<lparr>freelist := b\<rparr> = s"
  by (cases s) simp

lemma push_freed:
  assumes s: "txn_inv os m s" and m: "m \<le> 10" and b: "b \<in> tpriv s"
    and t: "table_ok (2 ^ m) (s\<lparr>txn := t\<rparr>)"
    and F: "st (s\<lparr>txn := t\<rparr>) = (st s)(b := 0) \<or>
      cowed (st s b) \<and> st (s\<lparr>txn := t\<rparr>) = (st s)(b := 0, st s b := FREED)"
  shows "\<exists>s'. freelist_free_block (txn_api os (Suc d)) (s\<lparr>txn := t\<rparr>) b = Some (0, s') \<and>
    txn_inv os m s' \<and> tpriv s' = tpriv s - {b} \<and> fl s' = fl s @ [b] \<and>
    st s' = st (s\<lparr>txn := t\<rparr>) \<and> nblocks s' = nblocks s \<and>
    objlist s' = objlist s \<and> txn_id s' = txn_id s \<and>
    (\<forall>c. c \<noteq> EDB_FREELIST_SECONDARY \<longrightarrow> blk s' c = blk s c)"
proof -
  let ?s1 = "s\<lparr>txn := t\<rparr>"
  have i: "fl_ok s" "states_ok s" "fl_fresh s" "freelist s = EDB_FREELIST_SECONDARY"
    using s by (simp_all add: txn_inv_def)
  have b4: "4 \<le> unat b" "unat b < unat (nblocks s)" "st s b \<noteq> 0" "st s b \<noteq> FREED"
    using b by (simp_all add: tpriv_def)
  note r = fl_room [OF s m b]
  have fl1: "fl_ok ?s1" "fl ?s1 = fl s" using i(1) by simp_all
  obtain s' where p: "array_push (txn_api os (Suc d)) ?s1 EDB_FREELIST_SECONDARY (u32_bytes b) = Some (0, s')"
      "fl_ok s'" "fl s' = fl s @ [b]" "writes_only ?s1 s' EDB_FREELIST_SECONDARY"
    using fl_push [OF fl1(1), of "txn_api os (Suc d)" b] r(2) fl1(2) by metis
  note f = writes_only_fields [OF p(4)]
  have b2: "EDB_FREELIST_SECONDARY \<noteq> b" using b4(1) by auto
  have orig: "3 \<le> unat (st s c) \<and> unat (st s c) < unat (nblocks s) \<and>
      (st s (st s c) = 0 \<or> st s (st s c) = FREED) \<and> st s c \<notin> set (fl s) \<and> st s c \<noteq> b"
    if "c \<noteq> EDB_FREELIST_SECONDARY" "cowed (st s c)" for c
    using that i(2) b4 by (auto simp: states_ok_def)
  have ob: "unat (st s b) < unat (nblocks s)" "st s b \<notin> set (fl s)" "st s b \<noteq> b"
      "st s (st s b) = 0 \<or> st s (st s b) = FREED" if "cowed (st s b)"
    using orig [OF b2 [symmetric] that] by simp_all
  define v where "v = st s b"
  have v2: "cowed v \<Longrightarrow> v \<noteq> EDB_FREELIST_SECONDARY" using orig [of b] b2 by (auto simp: v_def)
  have st': "st s' = st ?s1" by (rule st_writes [OF p(4)])
  have states: "states_ok s'"
    unfolding states_ok_def st' p(3)
  proof (intro conjI allI impI)
    show "st ?s1 EDB_FREELIST_SECONDARY = EDB_FREELIST_PRIMARY"
      using F i(2) b2 v2 by (auto simp: states_ok_def v_def)
    show "st ?s1 c = 0" if "unat (nblocks s') \<le> unat c" for c
    proof -
      have "unat (nblocks s) \<le> unat c" "st s c = 0" using that f i(2) by (simp_all add: states_ok_def)
      then show ?thesis using F ob(1) by auto
    qed
    fix c assume c: "c \<noteq> EDB_FREELIST_SECONDARY" "cowed (st ?s1 c)"
    then have e: "st ?s1 c = st s c" "c \<noteq> b" using F by (auto split: if_splits)
    note o = orig [OF c(1) c(2) [unfolded e]]
    show "3 \<le> unat (st ?s1 c)" "unat (st ?s1 c) < unat (nblocks s')" "st ?s1 c \<notin> set (fl s @ [b])"
      using o e f by auto
    show "st ?s1 (st ?s1 c) = 0 \<or> st ?s1 (st ?s1 c) = FREED"
      unfolding e(1) using F o by (auto split: if_splits)
  qed
  have fresh: "fl_fresh s'"
    unfolding fl_fresh_def p(3) st'
  proof (intro conjI ballI)
    show "distinct (fl s @ [b])" using i(3) r(1) by (simp add: fl_fresh_def)
    fix c assume c: "c \<in> set (fl s @ [b])"
    show "4 \<le> unat c" "unat c < unat (nblocks s')" using c i(3) b4 f by (auto simp: fl_fresh_def)
    show "st ?s1 c = 0" using c F i(3) ob(2,3) by (auto simp: fl_fresh_def split: if_splits)
  qed
  have inv': "txn_inv os m s'"
    using s p(2) states fresh f t table_writes [OF p(4)] file_writes [OF p(4)]
    by (simp add: txn_inv_def)
  have "tpriv s' = tpriv s - {b}"
  proof -
    have "st ?s1 c \<noteq> 0 \<and> st ?s1 c \<noteq> FREED \<longleftrightarrow> c \<noteq> b \<and> st s c \<noteq> 0 \<and> st s c \<noteq> FREED" for c
      using F ob(3,4) b4(3,4) by (auto split: if_splits)
    then show ?thesis using f by (auto simp: tpriv_def st')
  qed
  moreover have "freelist_free_block (txn_api os (Suc d)) ?s1 b = Some (0, s')"
  proof -
    have "\<not> b < EDB_USER_DATA" using b4(1) by (simp add: word_less_nat_alt)
    moreover have "txn_modify_block os (txn_api os d) ?s1 EDB_FREELIST_SECONDARY = Some (0, EDB_FREELIST_SECONDARY, ?s1)"
    proof -
      have "st ?s1 EDB_FREELIST_SECONDARY = EDB_FREELIST_PRIMARY"
        using states by (simp add: states_ok_def st')
      moreover have "EDB_FREELIST_SECONDARY \<noteq> 0" "EDB_FREELIST_PRIMARY \<noteq> 0" "EDB_FREELIST_PRIMARY \<noteq> FREED"
        by (simp_all add: EDB_FREELIST_SECONDARY_def EDB_FREELIST_PRIMARY_def FREED_def)
      moreover have "t \<noteq> []" using t by (auto simp: table_ok_def)
      ultimately show ?thesis using get_state_ok [OF t] by (simp add: txn_modify_block_def)
    qed
    ultimately show ?thesis using p(1) i(4) by (simp add: freelist_free_block_def freelist_same)
  qed
  moreover have "blk s' c = blk s c" if "c \<noteq> EDB_FREELIST_SECONDARY" for c
    using writes_only_blk [OF p(4)] that by (metis txn_update_simps(3))
  ultimately show ?thesis using inv' p(3) st' f by (intro exI [of _ s']) simp
qed

lemma txn_free_ok:
  assumes s: "txn_inv os m s" and m: "m \<le> 10" and b: "b \<in> tpriv s"
  shows "\<exists>s'. txn_free_block (txn_api os (Suc d)) s b = Some (0, s') \<and>
    txn_inv os m s' \<and> tpriv s' = tpriv s - {b} \<and> fl s' = fl s @ [b] \<and>
    st s' = (if cowed (st s b) then (st s)(b := 0, st s b := FREED) else (st s)(b := 0)) \<and>
    nblocks s' = nblocks s \<and> objlist s' = objlist s \<and> txn_id s' = txn_id s \<and>
    (\<forall>c. c \<noteq> EDB_FREELIST_SECONDARY \<longrightarrow> blk s' c = blk s c)"
proof -
  have t: "table_ok (2 ^ m) s" and N: "(2 :: nat) ^ m \<le> 4096" "unat (nblocks s) \<le> 2 ^ m" and i: "states_ok s"
    using s two_power_12 by (simp_all add: txn_inv_def)
  have b4: "4 \<le> unat b" "unat b < 2 ^ m" "st s b \<noteq> 0" "st s b \<noteq> FREED"
    using b N by (simp_all add: tpriv_def)
  have b0: "b \<noteq> 0" "b \<noteq> EDB_FREELIST_SECONDARY" using b4(1) by auto
  have ne: "txn s \<noteq> []" using t by (auto simp: table_ok_def)
  obtain t1 where t1: "set_state s b 0 = Some (s\<lparr>txn := t1\<rparr>)" "table_ok (2 ^ m) (s\<lparr>txn := t1\<rparr>)"
      "st (s\<lparr>txn := t1\<rparr>) = (st s)(b := 0)"
    using set_state_ok [OF t N(1) b0(1) b4(2)] by blast
  show ?thesis
  proof (cases "st s b = ALLOCATED")
    case True
    obtain s' where s': "freelist_free_block (txn_api os (Suc d)) (s\<lparr>txn := t1\<rparr>) b = Some (0, s')"
        "txn_inv os m s'" "tpriv s' = tpriv s - {b}" "fl s' = fl s @ [b]" "st s' = (st s)(b := 0)"
        "nblocks s' = nblocks s" "objlist s' = objlist s" "txn_id s' = txn_id s"
        "\<forall>c. c \<noteq> EDB_FREELIST_SECONDARY \<longrightarrow> blk s' c = blk s c"
      using push_freed [OF s m b t1(2), of d] t1(3) by auto
    have "txn_free_block (txn_api os (Suc d)) s b = Some (0, s')"
      using ne get_state_ok [OF t b0(1)] True t1(1) s'(1) by (simp add: txn_free_block_def del: txn_api.simps)
    then show ?thesis using s' True by simp
  next
    case False
    then have c: "cowed (st s b)" using b4 by (simp add: cowed_def)
    define v where "v = st s b"
    have v: "v \<noteq> 0" "unat v < 2 ^ m" using c i b0 N by (auto simp: states_ok_def v_def)
    obtain t2 where t2: "set_state (s\<lparr>txn := t1\<rparr>) v FREED = Some (s\<lparr>txn := t2\<rparr>)"
        "table_ok (2 ^ m) (s\<lparr>txn := t2\<rparr>)" "st (s\<lparr>txn := t2\<rparr>) = (st s)(b := 0, v := FREED)"
      using set_state_ok [OF t1(2) N(1) v, of FREED] t1(3) by auto
    obtain s' where s': "freelist_free_block (txn_api os (Suc d)) (s\<lparr>txn := t2\<rparr>) b = Some (0, s')"
        "txn_inv os m s'" "tpriv s' = tpriv s - {b}" "fl s' = fl s @ [b]" "st s' = (st s)(b := 0, v := FREED)"
        "nblocks s' = nblocks s" "objlist s' = objlist s" "txn_id s' = txn_id s"
        "\<forall>c. c \<noteq> EDB_FREELIST_SECONDARY \<longrightarrow> blk s' c = blk s c"
      using push_freed [OF s m b t2(2), of d] t2(3) c by (auto simp: v_def)
    have "txn_free_block (txn_api os (Suc d)) s b = Some (0, s')"
      using ne get_state_ok [OF t b0(1)] False b4 t1(1) t2(1) s'(1)
      by (simp add: txn_free_block_def v_def del: txn_api.simps)
    then show ?thesis using s' c by (simp add: v_def)
  qed
qed

subsection \<open>The interfaces of the block layer hold\<close>

lemma tpriv_block_ok: "txn_inv os m s \<Longrightarrow> b \<in> tpriv s \<Longrightarrow> block_ok s b"
  using two_power_12 [of m] by (intro file_block_ok) (auto simp: txn_inv_def tpriv_def)

lemma tpriv_modify:
  assumes "txn_inv os m s" "b \<in> tpriv s"
  shows "txn_modify_block os api s b = Some (0, b, s)"
  using assms by (intro modify_in_place) (auto simp: tpriv_def)

lemma tpriv_frame: "b \<in> tpriv s \<Longrightarrow> unat b < unat (nblocks s) \<and> b \<noteq> EDB_FREELIST_SECONDARY"
  by (auto simp: tpriv_def)

interpretation ta: block_alloc "txn_api os (Suc (Suc d))" "txn_inv os m" tpriv "troom m"
proof (unfold_locales, goal_cases)
  case (1 s b) then show ?case by (rule tpriv_block_ok)
next
  case (2 s) then show ?case by (simp add: tpriv_def)
next
  case (3 s b s') then show ?case by (rule txn_inv_writes)
next
  case (4 s b s') then show ?case by (rule txn_inv_writes)
next
  case (5 s b s') then show ?case by (rule txn_inv_writes)
next
  case (6 s)
  then obtain b s' where "txn_allocate_block os (txn_api os (Suc d)) s = Some (0, b, s')" "txn_inv os m s'"
      "b \<notin> tpriv s" "tpriv s' = insert b (tpriv s)" "troom m s \<le> Suc (troom m s')"
      "objlist s' = objlist s" "txn_id s' = txn_id s"
      "\<forall>c. unat c < unat (nblocks s) \<longrightarrow> c \<noteq> EDB_FREELIST_SECONDARY \<longrightarrow> blk s' c = blk s c"
    using txn_allocate_ok [of os m s d] by blast
  then show ?case by (intro exI [of _ b] exI [of _ s']) (auto dest: tpriv_frame)
next
  case (7 s b) then show ?case using tpriv_modify by simp
qed

interpretation td: block_device "txn_api os (Suc (Suc d))" "\<lambda>s. m \<le> 10 \<and> txn_inv os m s" tpriv "troom m"
proof (unfold_locales, goal_cases)
  case (1 s b) then show ?case by (blast intro: tpriv_block_ok)
next
  case (2 s) then show ?case by (simp add: tpriv_def)
next
  case (3 s b s') then show ?case using txn_inv_writes(1) by metis
next
  case (4 s b s') then show ?case using txn_inv_writes(2) by metis
next
  case (5 s b s') then show ?case using txn_inv_writes(3) by metis
next
  case (6 s) then show ?case using ta.alloc_ok [of os m s d] by blast
next
  case (7 s b) then show ?case using ta.modify_ok by blast
next
  case (8 s b)
  then obtain s' where "txn_free_block (txn_api os (Suc d)) s b = Some (0, s')" "txn_inv os m s'"
      "tpriv s' = tpriv s - {b}" "fl s' = fl s @ [b]" "nblocks s' = nblocks s"
      "objlist s' = objlist s" "txn_id s' = txn_id s"
      "\<forall>c. c \<noteq> EDB_FREELIST_SECONDARY \<longrightarrow> blk s' c = blk s c"
    using txn_free_ok [of os m s b d] by blast
  moreover from this have "troom m s \<le> troom m s'" by (simp add: troom_def del: length_fl)
  ultimately show ?case using 8 by (intro exI [of _ s']) (auto dest: tpriv_frame)
qed

end
