(* ===== verification/Edb_Api.thy ===== *)
theory Edb_Api
  imports Txn
begin

text \<open>
  The public interface of the database (\<open>src/src/edb.h\<close>, \<open>src/src/edb.c\<close>): opening and
  closing a file, transactions, blocks, and arrays reached through object handles.

  \<open>api\<close> is the block API of the transaction layer, \<open>txn_api os d\<close>.  A handle caches the
  root block of its object and the number of the transaction in which it was read from the
  object list.  A pointer to a handle that the code sets to \<open>NULL\<close> is \<open>None\<close>, and so is a
  database that has been freed.
\<close>

abbreviation EDB_ERROR_FILE_OPEN :: int where "EDB_ERROR_FILE_OPEN \<equiv> 1001"
abbreviation EDB_ERROR_FILE_SIZE :: int where "EDB_ERROR_FILE_SIZE \<equiv> 1002"
abbreviation EDB_ERROR_OPEN_TXN :: int where "EDB_ERROR_OPEN_TXN \<equiv> 1003"
abbreviation EDB_ERROR_READ_ONLY :: int where "EDB_ERROR_READ_ONLY \<equiv> 1004"
abbreviation EDB_ERROR_ALREADY_OPEN :: int where "EDB_ERROR_ALREADY_OPEN \<equiv> 1005"

subsection \<open>Opening and closing\<close>

definition edb_check :: "edb \<Rightarrow> int" where
  "edb_check s = 0"

definition edb_init :: "os \<Rightarrow> edb \<Rightarrow> (int \<times> edb) option" where
  "edb_init os s =
     (let (err, s) = io_resize os s EDB_USER_DATA
      in if err \<noteq> 0 then Some (err, s)
         else do { (err, s) \<leftarrow> array_init s (freelist s) 4;
                   if err \<noteq> 0 then Some (err, s)
                   else array_init s (objlist s) 4 })"

text \<open>
  The condition \<open>overwrite || (readonly = 0 && db->nblocks == 1)\<close> of the code is an
  assignment of 0 to \<open>readonly\<close> when \<open>overwrite\<close> is 0, and false then.
\<close>

definition edb_open :: "os \<Rightarrow> string \<Rightarrow> bool \<Rightarrow> bool \<Rightarrow> (int \<times> edb option) option" where
  "edb_open os fname ro overwrite =
     (let (err, s) = io_open os fname ro overwrite
      in if err \<noteq> 0 then Some (err, None)
         else let (is_new, ro) = (if overwrite then (True, ro) else (False, False));
                  s = s\<lparr>readonly := ro, freelist := EDB_FREELIST_PRIMARY, objlist := EDB_OBJLIST\<rparr>
              in do { (err, s) \<leftarrow> (if is_new then edb_init os s else Some (edb_check s, s));
                      if err \<noteq> 0 then Some (err, None) else Some (0, Some s) })"

definition edb_close :: "edb \<Rightarrow> int \<times> edb option" where
  "edb_close s =
     (if txn s \<noteq> [] then (EDB_ERROR_OPEN_TXN, Some s)
      else let (err, s) = io_close s
           in if err \<noteq> 0 then (err, Some s) else (0, None))"

subsection \<open>Transactions and blocks\<close>

definition edb_txn_begin :: "block_api \<Rightarrow> edb \<Rightarrow> (int \<times> edb) option" where
  "edb_txn_begin api s =
     (if readonly s then Some (EDB_ERROR_READ_ONLY, s) else txn_begin api s)"

definition edb_txn_commit :: "block_api \<Rightarrow> edb \<Rightarrow> (int \<times> edb) option" where
  "edb_txn_commit api s =
     (if readonly s then Some (EDB_ERROR_READ_ONLY, s) else txn_commit api s)"

definition edb_txn_abort :: "os \<Rightarrow> block_api \<Rightarrow> edb \<Rightarrow> (int \<times> edb) option" where
  "edb_txn_abort os api s =
     (if readonly s then Some (EDB_ERROR_READ_ONLY, s) else txn_abort os api s)"

definition edb_allocate_block :: "os \<Rightarrow> nat \<Rightarrow> edb \<Rightarrow> (int \<times> u32 \<times> edb) option" where
  "edb_allocate_block os d s = txn_allocate_block os (txn_api os d) s"

definition edb_modify_block :: "os \<Rightarrow> nat \<Rightarrow> edb \<Rightarrow> u32 \<Rightarrow> (int \<times> u32 \<times> edb) option" where
  "edb_modify_block os d s block = txn_modify_block os (txn_api os d) s block"

definition edb_free_block :: "os \<Rightarrow> nat \<Rightarrow> edb \<Rightarrow> u32 \<Rightarrow> (int \<times> edb) option" where
  "edb_free_block os d s block = txn_free_block (txn_api os d) s block"

lemma txn_api_eq:
  "txn_api os (Suc d) = \<lparr>api_alloc = edb_allocate_block os d, api_modify = edb_modify_block os d,
     api_free = edb_free_block os d\<rparr>"
  by (simp add: fun_eq_iff edb_allocate_block_def edb_modify_block_def edb_free_block_def)

subsection \<open>Object handles\<close>

record obj_handle =
  h_obj_id :: u32
  h_txn_id :: u32
  h_root :: u32

text \<open>
  \<open>array_get\<close> into the four bytes of \<open>h->root\<close>: an item of fewer bytes overwrites the first
  ones only.
\<close>

definition store_root :: "obj_handle \<Rightarrow> u8 list \<Rightarrow> obj_handle option" where
  "store_root h d =
     do { r \<leftarrow> bytes_u32 (d @ drop (length d) (u32_bytes (h_root h)));
          Some (h\<lparr>h_root := r\<rparr>) }"

text \<open>The first part of \<open>obj_read\<close> and \<open>obj_write\<close>: a handle of another transaction is read again.\<close>

definition obj_upgrade ::
  "block_api \<Rightarrow> edb \<Rightarrow> obj_handle \<Rightarrow> (int \<times> obj_handle \<times> edb) option"
where
  "obj_upgrade api s h =
     (if txn_id s \<noteq> h_txn_id h
      then do { (err, d, s) \<leftarrow> array_get api s (objlist s) (h_obj_id h);
                if err \<noteq> 0 then Some (err, h, s)
                else do { h \<leftarrow> store_root h d;
                          Some (0, h\<lparr>h_txn_id := txn_id s\<rparr>, s) } }
      else Some (0, h, s))"

definition obj_read ::
  "block_api \<Rightarrow> edb \<Rightarrow> obj_handle \<Rightarrow> (int \<times> u32 \<times> obj_handle \<times> edb) option"
where
  "obj_read api s h =
     do { (err, h, s) \<leftarrow> obj_upgrade api s h;
          if err \<noteq> 0 then Some (err, -1, h, s) else Some (0, h_root h, h, s) }"

definition obj_write ::
  "block_api \<Rightarrow> edb \<Rightarrow> obj_handle \<Rightarrow> (int \<times> u32 \<times> obj_handle \<times> edb) option"
where
  "obj_write api s h =
     do { (err, h, s) \<leftarrow> obj_upgrade api s h;
          if err \<noteq> 0 then Some (err, -1, h, s)
          else do { (err, r, s) \<leftarrow> api_modify api s (h_root h);
                    if err \<noteq> 0 then Some (err, -1, h, s)
                    else Some (0, r, h\<lparr>h_root := r\<rparr>, s) } }"

definition obj_create :: "block_api \<Rightarrow> edb \<Rightarrow> (int \<times> obj_handle option \<times> edb) option" where
  "obj_create api s =
     do { (err, ol, s) \<leftarrow> api_modify api s (objlist s);
          if err \<noteq> 0 then Some (err, None, s)
          else do { let s = s\<lparr>objlist := ol\<rparr>;
                    len \<leftarrow> array_length s (objlist s);
                    let h = \<lparr>h_obj_id = len, h_txn_id = txn_id s, h_root = 0\<rparr>;
                    (err, r, s) \<leftarrow> api_alloc api s;
                    if err \<noteq> 0 then Some (err, None, s)
                    else do { let h = h\<lparr>h_root := r\<rparr>;
                              (err, s) \<leftarrow> array_push api s (objlist s) (u32_bytes r);
                              if err = 0 then Some (0, Some h, s)
                              else if r = 0 then Some (err, None, s)
                              else do { (e, s) \<leftarrow> api_free api s r;
                                        if e \<noteq> 0 then None else Some (err, None, s) } } } }"

subsection \<open>Arrays\<close>

definition edb_array_create ::
  "block_api \<Rightarrow> edb \<Rightarrow> u8 \<Rightarrow> (int \<times> obj_handle option \<times> edb) option"
where
  "edb_array_create api s item_size =
     do { (err, hp, s) \<leftarrow> obj_create api s;
          if err \<noteq> 0 then Some (err, hp, s)
          else do { h \<leftarrow> hp;
                    (err, s) \<leftarrow> array_init s (h_root h) item_size;
                    Some (err, hp, s) } }"

definition edb_array_open :: "u32 \<Rightarrow> int \<times> obj_handle" where
  "edb_array_open obj_id = (0, \<lparr>h_obj_id = obj_id, h_txn_id = -1, h_root = 0\<rparr>)"

definition edb_array_get ::
  "block_api \<Rightarrow> edb \<Rightarrow> obj_handle \<Rightarrow> u32 \<Rightarrow> (int \<times> u8 list \<times> obj_handle \<times> edb) option"
where
  "edb_array_get api s h index =
     do { (err, root, h, s) \<leftarrow> obj_read api s h;
          if err \<noteq> 0 then Some (err, [], h, s)
          else do { (err, d, s) \<leftarrow> array_get api s root index; Some (err, d, h, s) } }"

text \<open>
  As in the code, \<open>edb_array_set\<close> calls \<open>array_get\<close>: the caller's buffer is overwritten with
  the item instead of the item with the buffer.
\<close>

definition edb_array_set ::
  "block_api \<Rightarrow> edb \<Rightarrow> obj_handle \<Rightarrow> u32 \<Rightarrow> u8 list \<Rightarrow> (int \<times> u8 list \<times> obj_handle \<times> edb) option"
where
  "edb_array_set api s h index d =
     do { (err, root, h, s) \<leftarrow> obj_write api s h;
          if err \<noteq> 0 then Some (err, d, h, s)
          else do { (err, got, s) \<leftarrow> array_get api s root index;
                    if err \<noteq> 0 then Some (err, d, h, s)
                    else do { require (length got \<le> length d);
                              Some (0, got @ drop (length got) d, h, s) } } }"

definition edb_array_push ::
  "block_api \<Rightarrow> edb \<Rightarrow> obj_handle \<Rightarrow> u8 list \<Rightarrow> (int \<times> obj_handle \<times> edb) option"
where
  "edb_array_push api s h d =
     do { (err, root, h, s) \<leftarrow> obj_write api s h;
          if err \<noteq> 0 then Some (err, h, s)
          else do { (err, s) \<leftarrow> array_push api s root d; Some (err, h, s) } }"

definition edb_array_pop ::
  "block_api \<Rightarrow> edb \<Rightarrow> obj_handle \<Rightarrow> (int \<times> u8 list \<times> obj_handle \<times> edb) option"
where
  "edb_array_pop api s h =
     do { (err, root, h, s) \<leftarrow> obj_write api s h;
          if err \<noteq> 0 then Some (err, [], h, s)
          else do { (err, d, s) \<leftarrow> array_pop api s root; Some (err, d, h, s) } }"

definition edb_array_length ::
  "block_api \<Rightarrow> edb \<Rightarrow> obj_handle \<Rightarrow> (int \<times> u32 \<times> obj_handle \<times> edb) option"
where
  "edb_array_length api s h =
     do { (err, root, h, s) \<leftarrow> obj_read api s h;
          if err \<noteq> 0 then Some (err, 0, h, s)
          else do { n \<leftarrow> array_length s root; Some (0, n, h, s) } }"

definition edb_array_capacity ::
  "block_api \<Rightarrow> edb \<Rightarrow> obj_handle \<Rightarrow> (int \<times> u32 \<times> obj_handle \<times> edb) option"
where
  "edb_array_capacity api s h =
     do { (err, root, h, s) \<leftarrow> obj_read api s h;
          if err \<noteq> 0 then Some (err, 0, h, s)
          else do { n \<leftarrow> array_capacity s root; Some (0, n, h, s) } }"

end
