(* ===== verification/Txn_Master.thy ===== *)
theory Txn_Master
  imports Txn_Correct Edb_Api
begin

text \<open>
  The outermost transaction: opening a new file, \<open>txn_begin_master\<close>, \<open>txn_commit_master\<close>
  and \<open>txn_abort_master\<close>.  Between transactions the database satisfies \<open>db_ok\<close>; beginning
  one establishes \<open>txn_inv\<close>, and committing or aborting it establishes \<open>db_ok\<close> again, for
  transactions that are \<open>tidy\<close>.
\<close>

subsection \<open>A copy of a small array\<close>

lemma w32_dec: "w32 s b off = dec (bytes s b off 4)"
  by (simp add: w32_def dec_def ld32_def bytes_def ld_bytes_def)

lemma w8_bytes: "w8 s b off = hd (bytes s b off 1)"
  by (simp add: w8_def bytes_def ld_bytes_def)

lemma blk_view:
  assumes "blk s' c = blk s b"
  shows "off + n \<le> 4096 \<Longrightarrow> bytes s' c off n = bytes s b off n"
    "off + 4 \<le> 4096 \<Longrightarrow> w32 s' c off = w32 s b off"
    "off + 1 \<le> 4096 \<Longrightarrow> w8 s' c off = w8 s b off"
  using assms by (simp_all add: bytes_of_blk w32_dec w8_bytes)

lemma small_copy:
  assumes ok: "arr_ok {b} s b" and same: "blk s' c = blk s b" and n: "pt_n s b = 0"
  shows "pt_n s' c = 0" "isz s' c = isz s b" "alen s' c = alen s b" "arr s' c = arr s b" "arr_ok {c} s' c"
proof -
  note v = blk_view [OF same]
  show n': "pt_n s' c = 0" and i': "isz s' c = isz s b" and l': "alen s' c = alen s b"
    using n v by (simp_all add: pt_n_def isz_def alen_def)
  have sm: "small s' c = small s b" by (simp add: small_def i')
  show "arr_ok {c} s' c"
    using ok n n' i' l' sm v(3) by (simp add: arr_ok_defs acap_def)
  have "item s' c i = item s b i" if i: "i < alen s b" for i
  proof -
    have "i < small s b" using i ok n by (simp add: arr_ok_def acap_def)
    then have "i * isz s b + isz s b \<le> small s b * isz s b" by (rule slot_fits) simp
    also have "\<dots> \<le> 4084" using ok by (intro ipb_bounds) (simp add: arr_ok_defs)
    finally have "bytes s' c (i * isz s b) (isz s b) = bytes s b (i * isz s b) (isz s b)" by (intro v(1)) simp
    then show ?thesis using n n' i' by (simp add: item_def place_def)
  qed
  then show "arr s' c = arr s b" using l' by (simp add: arr_def)
qed

subsection \<open>Entries and the size at begin\<close>

text \<open>The blocks with an entry in the transaction's table, and the recorded size\<close>

definition tkeys :: "edb \<Rightarrow> u32 set" where
  "tkeys s = mh_keys (ts_blocks (hd (txn s)))"

definition tbase :: "edb \<Rightarrow> u32" where
  "tbase s = ts_nblocks (hd (txn s))"

text \<open>\<open>books ks s s'\<close>: the same transaction, with entries for the blocks \<open>ks\<close> added\<close>

definition books :: "u32 set \<Rightarrow> edb \<Rightarrow> edb \<Rightarrow> bool" where
  "books ks s s' \<longleftrightarrow> tkeys s' = ks \<union> tkeys s \<and> tbase s' = tbase s"

lemma books_txn: "txn s' = txn s \<Longrightarrow> books {} s s'"
  by (simp add: books_def tkeys_def tbase_def)

lemma books_trans: "books A s s1 \<Longrightarrow> books B s1 s2 \<Longrightarrow> books (A \<union> B) s s2"
  by (auto simp: books_def)

lemma set_state_books:
  assumes t: "table_ok N s" "N \<le> 4096" and k: "k \<noteq> 0" "unat k < N" and r: "set_state s k v = Some s'"
  shows "books {k} s s'" "table_ok N s'" "s' = s\<lparr>txn := txn s'\<rparr>" "st s' = (st s)(k := v)"
proof -
  obtain ts where ts: "txn s = [ts]" "mh_inv (ts_blocks ts)" "\<forall>k \<in> mh_keys (ts_blocks ts). unat k < N"
    by (rule table_cases [OF t(1)])
  obtain t' where t': "set_state s k v = Some (s\<lparr>txn := t'\<rparr>)" "table_ok N (s\<lparr>txn := t'\<rparr>)"
      "st (s\<lparr>txn := t'\<rparr>) = (st s)(k := v)"
    using set_state_ok [OF t k] by blast
  have s': "s' = s\<lparr>txn := t'\<rparr>" using r t'(1) by simp
  show "table_ok N s'" "st s' = (st s)(k := v)" "s' = s\<lparr>txn := txn s'\<rparr>" using t' s' by simp_all
  have "unat ` mh_keys (ts_blocks ts) \<subseteq> {..<N}" using ts(3) by auto
  then have "card (unat ` mh_keys (ts_blocks ts)) \<le> N"
    by (metis card_lessThan card_mono finite_lessThan)
  moreover have "inj_on unat (mh_keys (ts_blocks ts))" by (auto intro: inj_onI u32_eqI)
  ultimately have "card (mh_keys (ts_blocks ts)) \<le> 3210341" using t(2) by (simp add: card_image)
  then obtain h where "mem_hash_set (ts_blocks ts) k v = Some h" "mh_keys h = insert k (mh_keys (ts_blocks ts))"
    using mem_hash_set_depth [OF ts(2) k(1)] by blast
  moreover from this(1) have "s\<lparr>txn := [ts\<lparr>ts_blocks := h\<rparr>]\<rparr> = s'"
    using r ts(1) unfolding set_state_def by simp
  then have "txn s' = [ts\<lparr>ts_blocks := h\<rparr>]" by auto
  ultimately show "books {k} s s'" using ts(1) by (simp add: books_def tkeys_def tbase_def)
qed

subsection \<open>Between transactions\<close>

text \<open>The freelist in the primary root, and a database with no transaction\<close>

definition prim :: "edb \<Rightarrow> u32 list" where
  "prim s = map dec (arr s EDB_FREELIST_PRIMARY)"

definition db_ok :: "nat \<Rightarrow> edb \<Rightarrow> bool" where
  "db_ok m s \<longleftrightarrow> file_ok s \<and> 4 \<le> unat (nblocks s) \<and> unat (nblocks s) \<le> 2 ^ m \<and>
     freelist s = EDB_FREELIST_PRIMARY \<and> objlist s = EDB_OBJLIST \<and> txn s = [] \<and>
     arr_ok {EDB_FREELIST_PRIMARY} s EDB_FREELIST_PRIMARY \<and> pt_n s EDB_FREELIST_PRIMARY = 0 \<and>
     isz s EDB_FREELIST_PRIMARY = 4 \<and> distinct (prim s) \<and>
     (\<forall>b \<in> set (prim s). 4 \<le> unat b \<and> unat b < unat (nblocks s))"

lemma copy_block_ok:
  assumes "block_ok s to" "block_ok s from"
  shows "copy_block s to from = Some (set_bytes s to 0 (blk s from))"
  using assms by (simp add: copy_block_def BLOCK_SIZE_def rd_bytes_ok wr_bytes_ok blk_def)

lemma copied:
  shows "blk (set_bytes s b 0 (blk s a)) b = blk s a"
    "c \<noteq> b \<Longrightarrow> blk (set_bytes s b 0 (blk s a)) c = blk s c"
    "writes_only s (set_bytes s b 0 (blk s a)) b"
proof -
  have len: "length (blk s a) = 4096" by (simp add: blk_def)
  show "writes_only s (set_bytes s b 0 (blk s a)) b" using len by (intro writes_only_set(3)) simp
  then show "blk (set_bytes s b 0 (blk s a)) c = blk s c" if "c \<noteq> b"
    using writes_only_blk that by metis
  show "blk (set_bytes s b 0 (blk s a)) b = blk s a"
    unfolding blk_def [of "set_bytes s b 0 (blk s a)"] by (rule read_back(3) [OF len])
qed

lemma begin_ok:
  assumes os: "os_ok os" "m \<le> 12" and db: "db_ok m s"
  shows "\<exists>s'. txn_begin api s = Some (0, s') \<and> txn_inv os m s' \<and> fl s' = prim s \<and> tpriv s' = {} \<and>
    nblocks s' = nblocks s \<and> objlist s' = EDB_OBJLIST \<and> txn_id s' = txn_id s + 1 \<and>
    tbase s' = nblocks s \<and> tkeys s' = {EDB_FREELIST_SECONDARY} \<and>
    st s' = (\<lambda>_. 0)(EDB_FREELIST_SECONDARY := EDB_FREELIST_PRIMARY) \<and>
    (\<forall>c. c \<noteq> EDB_FREELIST_SECONDARY \<longrightarrow> blk s' c = blk s c)"
proof -
  let ?P = EDB_FREELIST_PRIMARY and ?S = EDB_FREELIST_SECONDARY
  define ts where "ts = \<lparr>ts_nblocks = nblocks s, ts_blocks = mem_hash_new\<rparr>"
  define s1 where "s1 = s\<lparr>txn := [ts]\<rparr>"
  define s2 where "s2 = set_bytes s1 ?S 0 (blk s1 ?P)"
  have N: "(2 :: nat) ^ m \<le> 4096" by (rule two_power_12 [OF os(2)])
  have nb: "4 \<le> unat (nblocks s)" "unat (nblocks s) \<le> 2 ^ m" "file_ok s" using db by (simp_all add: db_ok_def)
  have ok: "block_ok s1 ?P" "block_ok s1 ?S"
    using nb N file_block_ok [OF nb(3)] by (simp_all add: s1_def)
  have cp: "copy_block s1 ?S ?P = Some s2" by (simp add: copy_block_ok [OF ok(2,1)] s2_def)
  note c = copied [where s = s1 and b = ?S and a = ?P, folded s2_def]
  note f = writes_only_fields [OF c(3)]
  have t1: "table_ok (2 ^ m) s1" using mh_new by (simp add: s1_def ts_def table_ok_def)
  then have t2: "table_ok (2 ^ m) s2" using table_writes [OF c(3)] by simp
  have st2: "st s2 = (\<lambda>_. 0)"
    using st_writes [OF c(3)] by (simp add: st_def s1_def ts_def fun_eq_iff)
  have S: "?S \<noteq> 0" "unat ?S < 2 ^ m" "?P \<noteq> ?S" using nb
    by (simp_all add: EDB_FREELIST_SECONDARY_def EDB_FREELIST_PRIMARY_def)
  obtain t where t: "set_state s2 ?S ?P = Some (s2\<lparr>txn := t\<rparr>)" "table_ok (2 ^ m) (s2\<lparr>txn := t\<rparr>)"
      "st (s2\<lparr>txn := t\<rparr>) = (\<lambda>_. 0)(?S := ?P)"
    using set_state_ok [OF t2 N S(1,2), of ?P] st2 by auto
  define s' where "s' = s2\<lparr>txn := t, freelist := ?S, txn_id := txn_id s2 + 1\<rparr>"
  have fields: "nblocks s' = nblocks s" "objlist s' = EDB_OBJLIST" "txn_id s' = txn_id s + 1" "freelist s' = ?S"
    "mapped s' = mapped s" "prot_write s' = prot_write s" "readonly s' = readonly s"
    "filesize s' = filesize s" "disk_len s' = disk_len s" "txn s' = t" "data s' = data s2"
    using f db by (simp_all add: s'_def s1_def db_ok_def)
  have b': "blk s' ?S = blk s ?P" "\<And>c. c \<noteq> ?S \<Longrightarrow> blk s' c = blk s c"
    using data_frame(1) [OF fields(11)] c(1) c(2) by (simp_all add: s1_def)
  have arr: "arr_ok {?P} s ?P" "pt_n s ?P = 0" "isz s ?P = 4" using db by (simp_all add: db_ok_def)
  note v = small_copy [OF arr(1) b'(1) arr(2)]
  have fok: "file_ok s'" using nb(3) fields by (simp add: file_ok_def)
  have "block_ok s' ?S" using file_block_ok [OF fok] nb N fields by simp
  then have fl: "fl_ok s'" "fl s' = prim s" using v arr(3) by (simp_all add: fl_ok_def fl_def prim_def)
  have st': "st s' = (\<lambda>_. 0)(?S := ?P)"
    using t(3) st_txn [of s' "s2\<lparr>txn := t\<rparr>"] fields(10) by simp
  have tb: "table_ok (2 ^ m) s'" using t(2) fields(10) by (simp add: table_ok_def)
  have "states_ok s'" using nb fields(1) by (auto simp: states_ok_def st')
  moreover have "fl_fresh s'"
    using db fields(1) fl(2) by (auto simp: fl_fresh_def st' db_ok_def)
  ultimately have inv: "txn_inv os m s'" using os fok nb fields fl(1) tb by (simp add: txn_inv_def)
  have "books {?S} s2 (s2\<lparr>txn := t\<rparr>)" by (rule set_state_books(1) [OF t2 N S(1,2) t(1)])
  then have base: "tkeys s' = {?S}" "tbase s' = nblocks s"
    using f fields(10) by (simp_all add: books_def tkeys_def tbase_def s1_def ts_def)
  have "txn_begin_master s1 = Some (0, s2\<lparr>txn := t, freelist := ?S\<rparr>)"
    using db cp t(1) by (simp add: txn_begin_master_def s1_def db_ok_def)
  then have "txn_begin api s = Some (0, s')"
    using db by (simp add: txn_begin_def txn_state_new_def db_ok_def s1_def ts_def s'_def)
  moreover have "tpriv s' = {}" by (auto simp: tpriv_def st')
  ultimately show ?thesis
    using inv fl(2) fields b'(2) st' base by (intro exI [of _ s']) simp
qed

subsection \<open>The blocks that a commit frees\<close>

text \<open>What the loop of \<open>txn_commit_master\<close> pushes when the object list starts in block \<open>ol\<close>\<close>

fun commit_list :: "u32 \<Rightarrow> mem_hash_item list \<Rightarrow> u32 list" where
  "commit_list ol [] = []"
| "commit_list ol (e # es) =
     (let k = item_k e; x = (if item_v e = FREED then k else item_v e) in
      if k = 0 \<or> k = EDB_FREELIST_SECONDARY then commit_list ol es
      else if k = ol then k # commit_list EDB_OBJLIST es
      else if item_v e = ALLOCATED \<or> x = 0 then commit_list ol es
      else x # commit_list ol es)"

definition pushes :: "u32 \<Rightarrow> mem_hash_item \<Rightarrow> u32 \<Rightarrow> bool" where
  "pushes ol e x \<longleftrightarrow> item_k e \<noteq> 0 \<and> item_k e \<noteq> EDB_FREELIST_SECONDARY \<and>
     (if item_k e = ol then x = ol
      else item_v e \<noteq> ALLOCATED \<and> x \<noteq> 0 \<and> x = (if item_v e = FREED then item_k e else item_v e))"

definition entry_keys :: "mem_hash_item list \<Rightarrow> u32 list" where
  "entry_keys es = map item_k (filter used es)"

lemma entry_keys_simps [simp]:
  "entry_keys [] = []"
  "entry_keys (e # es) = (if item_k e = 0 then entry_keys es else item_k e # entry_keys es)"
  by (simp_all add: entry_keys_def used_def)

lemma in_entry_keys: "k \<in> set (entry_keys es) \<longleftrightarrow> k \<noteq> 0 \<and> (\<exists>e \<in> set es. item_k e = k)"
  by (auto simp: entry_keys_def used_def)

lemma pushes_other: "item_k e \<noteq> ol \<Longrightarrow> item_k e \<noteq> ol' \<Longrightarrow> pushes ol e x \<longleftrightarrow> pushes ol' e x"
  by (simp add: pushes_def)

lemma set_commit_list:
  assumes "distinct (entry_keys es)" and "EDB_OBJLIST \<notin> set (entry_keys es)"
  shows "x \<in> set (commit_list ol es) \<longleftrightarrow> (\<exists>e \<in> set es. pushes ol e x)"
  using assms
proof (induction es arbitrary: ol)
  case (Cons e es)
  have d: "distinct (entry_keys es)" "EDB_OBJLIST \<notin> set (entry_keys es)"
    using Cons.prems(1,2) by (auto split: if_splits)
  note IH = Cons.IH [OF d]
  show ?case
  proof (cases "item_k e \<noteq> 0 \<and> item_k e \<noteq> EDB_FREELIST_SECONDARY \<and> item_k e = ol")
    case True
    then have "item_k e' \<noteq> ol \<and> item_k e' \<noteq> EDB_OBJLIST" if "e' \<in> set es" "item_k e' \<noteq> 0" for e'
      using Cons.prems that by (auto simp: in_entry_keys)
    then have "pushes ol e' x \<longleftrightarrow> pushes EDB_OBJLIST e' x" if "e' \<in> set es" for e'
      using that pushes_other by (cases "item_k e' = 0") (auto simp: pushes_def)
    then have "(\<exists>e' \<in> set es. pushes ol e' x) \<longleftrightarrow> (\<exists>e' \<in> set es. pushes EDB_OBJLIST e' x)" by blast
    moreover have "pushes ol e x \<longleftrightarrow> x = ol" using True by (auto simp: pushes_def)
    ultimately show ?thesis using True IH [of EDB_OBJLIST] by (auto simp: Let_def)
  next
    case False
    then show ?thesis using IH [of ol] by (auto simp: Let_def pushes_def)
  qed
qed simp

lemma distinct_commit_list:
  assumes "distinct (entry_keys es)" and "EDB_OBJLIST \<notin> set (entry_keys es)"
    and "\<And>e e' x. e \<in> set es \<Longrightarrow> e' \<in> set es \<Longrightarrow> pushes ol e x \<Longrightarrow> pushes ol e' x \<Longrightarrow> item_k e = item_k e'"
  shows "distinct (commit_list ol es)"
  using assms
proof (induction es arbitrary: ol)
  case (Cons e es)
  have d: "distinct (entry_keys es)" "EDB_OBJLIST \<notin> set (entry_keys es)"
    using Cons.prems(1,2) by (auto split: if_splits)
  have new: "\<not> pushes ol e x" if "e' \<in> set es" "pushes ol e' x" for e' x
  proof
    assume p: "pushes ol e x"
    have k: "item_k e = item_k e'"
      by (rule Cons.prems(3) [OF list.set_intros(1) list.set_intros(2) [OF that(1)] p that(2)])
    have nz: "item_k e \<noteq> 0" using p unfolding pushes_def by (rule conjunct1)
    have "item_k e \<in> set (entry_keys es)" unfolding in_entry_keys using nz k that(1) by metis
    then show False using Cons.prems(1) nz by simp
  qed
  have inj: "item_k a = item_k b" if "a \<in> set es" "b \<in> set es" "pushes ol a x" "pushes ol b x" for a b x
    using Cons.prems(3) [of a b x] that by simp
  have IH: "distinct (commit_list ol es)" by (rule Cons.IH [OF d inj])
  show ?case
  proof (cases "item_k e \<noteq> 0 \<and> item_k e \<noteq> EDB_FREELIST_SECONDARY \<and> item_k e = ol")
    case True
    then have k: "item_k e' \<noteq> ol \<and> item_k e' \<noteq> EDB_OBJLIST" if "e' \<in> set es" "item_k e' \<noteq> 0" for e'
      using Cons.prems(1,2) that by (auto simp: in_entry_keys)
    then have eq: "pushes EDB_OBJLIST e' x \<longleftrightarrow> pushes ol e' x" if "e' \<in> set es" for e' x
      using that pushes_other by (cases "item_k e' = 0") (auto simp: pushes_def)
    have "distinct (commit_list EDB_OBJLIST es)"
    proof (rule Cons.IH [OF d])
      fix a b x assume ab: "a \<in> set es" "b \<in> set es" "pushes EDB_OBJLIST a x" "pushes EDB_OBJLIST b x"
      show "item_k a = item_k b"
        by (rule inj [OF ab(1,2) ab(3) [unfolded eq [OF ab(1)]] ab(4) [unfolded eq [OF ab(2)]]])
    qed
    moreover have "ol \<notin> set (commit_list EDB_OBJLIST es)"
    proof
      assume "ol \<in> set (commit_list EDB_OBJLIST es)"
      then obtain e' where e': "e' \<in> set es" "pushes EDB_OBJLIST e' ol"
        using set_commit_list [OF d] by blast
      moreover have "pushes ol e ol" using True by (auto simp: pushes_def)
      ultimately show False using new eq by blast
    qed
    ultimately show ?thesis using True by (auto simp: Let_def)
  next
    case False
    let ?x = "if item_v e = FREED then item_k e else item_v e"
    show ?thesis
    proof (cases "pushes ol e ?x")
      case True
      then have "?x \<notin> set (commit_list ol es)" using new set_commit_list [OF d, of ?x ol] by blast
      then show ?thesis using IH False by (simp add: Let_def split del: if_split) (auto simp: Let_def)
    next
      case no: False
      then show ?thesis using IH False by (auto simp: Let_def pushes_def split: if_splits)
    qed
  qed
qed simp

lemma commit_list_drop:
  "i < length es \<Longrightarrow> commit_list ol (drop i es) =
     (let e = es ! i; k = item_k e; x = (if item_v e = FREED then k else item_v e);
          rest = (\<lambda>ol. commit_list ol (drop (Suc i) es)) in
      if k = 0 \<or> k = EDB_FREELIST_SECONDARY then rest ol
      else if k = ol then k # rest EDB_OBJLIST
      else if item_v e = ALLOCATED \<or> x = 0 then rest ol
      else x # rest ol)"
  by (simp add: Cons_nth_drop_Suc [symmetric] Let_def)

text \<open>The state while the loop runs\<close>

definition committing :: "nat \<Rightarrow> edb \<Rightarrow> bool" where
  "committing m s \<longleftrightarrow> m \<le> 10 \<and> fl_ok s \<and> file_ok s \<and> unat (nblocks s) \<le> 2 ^ m \<and> 4 \<le> unat (nblocks s) \<and>
     freelist s = EDB_FREELIST_SECONDARY \<and> table_ok (2 ^ m) s \<and>
     st s EDB_FREELIST_SECONDARY = EDB_FREELIST_PRIMARY"

lemma commit_push_ok:
  assumes s: "committing m s" and x: "4 \<le> unat x" and room: "length (fl s) < 1021"
  shows "\<exists>s'. freelist_free_block (txn_api os (Suc d)) s x = Some (0, s') \<and> committing m s' \<and>
    fl s' = fl s @ [x] \<and> writes_only s s' EDB_FREELIST_SECONDARY"
proof -
  have i: "fl_ok s" "table_ok (2 ^ m) s" "st s EDB_FREELIST_SECONDARY = EDB_FREELIST_PRIMARY"
      "freelist s = EDB_FREELIST_SECONDARY"
    using s by (simp_all add: committing_def)
  obtain s' where s': "array_push (txn_api os (Suc d)) s EDB_FREELIST_SECONDARY (u32_bytes x) = Some (0, s')"
      "fl_ok s'" "fl s' = fl s @ [x]" "writes_only s s' EDB_FREELIST_SECONDARY"
    using fl_push [OF i(1) room] by blast
  note f = writes_only_fields [OF s'(4)]
  have c: "committing m s'"
    using s s'(2) f file_writes [OF s'(4)] table_writes [OF s'(4)] st_writes [OF s'(4)]
    by (simp add: committing_def)
  have "\<not> x < EDB_USER_DATA" using x by (simp add: word_less_nat_alt)
  moreover have "txn_modify_block os (txn_api os d) s EDB_FREELIST_SECONDARY = Some (0, EDB_FREELIST_SECONDARY, s)"
  proof -
    have "EDB_FREELIST_SECONDARY \<noteq> 0" "EDB_FREELIST_PRIMARY \<noteq> 0" "EDB_FREELIST_PRIMARY \<noteq> FREED"
      by (simp_all add: EDB_FREELIST_SECONDARY_def EDB_FREELIST_PRIMARY_def FREED_def)
    moreover have "txn s \<noteq> []" using i(2) by (auto simp: table_ok_def)
    ultimately show ?thesis using get_state_ok [OF i(2)] i(3) by (simp add: txn_modify_block_def)
  qed
  ultimately show ?thesis
    using s' c i(4) by (intro exI [of _ s']) (simp add: freelist_free_block_def freelist_same)
qed

definition es_of :: "edb \<Rightarrow> mem_hash_item list" where
  "es_of s = mh_entries (ts_blocks (hd (txn s)))"

lemma es_length:
  "table_ok N s \<Longrightarrow> length (es_of s) = unat (mh_capacity (ts_blocks (hd (txn s))))"
  by (auto simp: table_ok_def mh_inv_def mh_table_def es_of_def mem_hash_new_def)

lemma commit_loop_step:
  assumes t: "table_ok N s" and i: "i < length (es_of s)"
  defines "e \<equiv> es_of s ! i"
  shows "commit_master_loop api i s =
     (if item_k e = 0 \<or> item_k e = EDB_FREELIST_SECONDARY then commit_master_loop api (Suc i) s
      else if item_k e = objlist s
      then do { s \<leftarrow> copy_block s EDB_OBJLIST (objlist s);
                (err, s) \<leftarrow> freelist_free_block api s (item_k e);
                if err \<noteq> 0 then Some (err, s)
                else commit_master_loop api (Suc i) (s\<lparr>objlist := EDB_OBJLIST\<rparr>) }
      else if item_v e = ALLOCATED then commit_master_loop api (Suc i) s
      else do { (err, s) \<leftarrow> freelist_free_block api s (if item_v e = FREED then item_k e else item_v e);
                if err \<noteq> 0 then Some (err, s) else commit_master_loop api (Suc i) s })"
proof -
  have "txn s \<noteq> []" using t by (auto simp: table_ok_def)
  then show ?thesis using es_length [OF t] i
    by (subst commit_master_loop.simps) (simp add: es_of_def e_def Let_def)
qed

lemma free_zero: "freelist_free_block api s 0 = Some (0, s)"
  by (simp add: freelist_free_block_def EDB_USER_DATA_def)

lemma committing_objlist [simp]:
  "committing m (s\<lparr>objlist := ol\<rparr>) = committing m s" "fl (s\<lparr>objlist := ol\<rparr>) = fl s"
  "es_of (s\<lparr>objlist := ol\<rparr>) = es_of s" "blk (s\<lparr>objlist := ol\<rparr>) b = blk s b"
  "block_ok (s\<lparr>objlist := ol\<rparr>) b = block_ok s b"
proof -
  have d: "data (s\<lparr>objlist := ol\<rparr>) = data s" by simp
  note f = data_frame [OF d]
  show b: "block_ok (s\<lparr>objlist := ol\<rparr>) b = block_ok s b" for b by (simp add: block_ok_def)
  show "blk (s\<lparr>objlist := ol\<rparr>) b = blk s b" by (rule f(1))
  show e: "es_of (s\<lparr>objlist := ol\<rparr>) = es_of s" by (simp add: es_of_def)
  have fl: "fl_ok s' \<Longrightarrow> fl_ok (s'\<lparr>objlist := ol\<rparr>)" for s' ol
    using fl_frame(1) [of s' "s'\<lparr>objlist := ol\<rparr>"] data_frame(1) [of "s'\<lparr>objlist := ol\<rparr>" s']
    by (simp add: block_ok_def fl_ok_def)
  have undo: "(s\<lparr>objlist := ol\<rparr>)\<lparr>objlist := objlist s\<rparr> = s" by (cases s) simp
  have "fl_ok (s\<lparr>objlist := ol\<rparr>) = fl_ok s"
    using fl [of s ol] fl [of "s\<lparr>objlist := ol\<rparr>" "objlist s", unfolded undo] by blast
  then show "committing m (s\<lparr>objlist := ol\<rparr>) = committing m s"
    by (simp add: committing_def file_ok_def table_ok_def st_def)
  have "pages (s\<lparr>objlist := ol\<rparr>) r = pages s r" for r
    by (simp add: pages_def host_def index_page_def pt_n_def f)
  then show "fl (s\<lparr>objlist := ol\<rparr>) = fl s"
    by (simp add: fl_def arr_def item_def place_def alen_def pt_n_def isz_def f host_def
        small_def ipb_def)
qed

definition commits :: "nat \<Rightarrow> nat \<Rightarrow> edb \<Rightarrow> bool" where
  "commits m i s \<longleftrightarrow> committing m s \<and> i \<le> length (es_of s) \<and>
     block_ok s EDB_OBJLIST \<and> block_ok s (objlist s) \<and> objlist s \<noteq> EDB_FREELIST_SECONDARY \<and>
     (objlist s \<noteq> EDB_OBJLIST \<longrightarrow> 4 \<le> unat (objlist s)) \<and>
     EDB_OBJLIST \<notin> set (entry_keys (drop i (es_of s))) \<and> distinct (entry_keys (drop i (es_of s))) \<and>
     (\<forall>x \<in> set (commit_list (objlist s) (drop i (es_of s))). 4 \<le> unat x) \<and>
     length (fl s) + length (commit_list (objlist s) (drop i (es_of s))) \<le> 1021"

definition committed :: "nat \<Rightarrow> nat \<Rightarrow> edb \<Rightarrow> edb \<Rightarrow> bool" where
  "committed m i s s' \<longleftrightarrow> committing m s' \<and>
    fl s' = fl s @ commit_list (objlist s) (drop i (es_of s)) \<and>
    objlist s' = (if objlist s \<in> set (entry_keys (drop i (es_of s))) then EDB_OBJLIST else objlist s) \<and>
    blk s' EDB_OBJLIST = (if objlist s \<in> set (entry_keys (drop i (es_of s)))
       then blk s (objlist s) else blk s EDB_OBJLIST) \<and>
    (\<forall>c. c \<noteq> EDB_FREELIST_SECONDARY \<longrightarrow> c \<noteq> EDB_OBJLIST \<longrightarrow> blk s' c = blk s c) \<and>
    nblocks s' = nblocks s \<and> txn_id s' = txn_id s \<and> txn s' = txn s"

lemma writes_es: "writes_only s s' b \<Longrightarrow> es_of s' = es_of s"
  using writes_only_fields [of s s' b] by (simp add: es_of_def)

lemma commit_push_step:
  assumes s: "committing m s" and x: "4 \<le> unat x" and room: "length (fl s) < 1021"
  shows "\<exists>s'. freelist_free_block (txn_api os (Suc d)) s x = Some (0, s') \<and> committing m s' \<and>
    fl s' = fl s @ [x] \<and> es_of s' = es_of s \<and> objlist s' = objlist s \<and> nblocks s' = nblocks s \<and>
    txn_id s' = txn_id s \<and> txn s' = txn s \<and> (\<forall>c. c \<noteq> EDB_FREELIST_SECONDARY \<longrightarrow> blk s' c = blk s c) \<and>
    (\<forall>c. block_ok s' c = block_ok s c)"
proof -
  obtain s' where s': "freelist_free_block (txn_api os (Suc d)) s x = Some (0, s')" "committing m s'"
      "fl s' = fl s @ [x]" "writes_only s s' EDB_FREELIST_SECONDARY"
    using commit_push_ok [OF s x room] by blast
  have "blk s' c = blk s c" if "c \<noteq> EDB_FREELIST_SECONDARY" for c
    using writes_only_blk [OF s'(4)] that by metis
  then show ?thesis
    using s'(1-3) writes_es [OF s'(4)] writes_only_fields [OF s'(4)] block_ok_writes [OF s'(4)]
    by (intro exI [of _ s']) blast
qed

lemma commit_loop_ok:
  "commits m i s \<Longrightarrow> \<exists>s'. commit_master_loop (txn_api os (Suc d)) i s = Some (0, s') \<and> committed m i s s'"
proof (induction "length (es_of s) - i" arbitrary: i s)
  case 0
  then have t: "table_ok (2 ^ m) s" and i: "i = length (es_of s)"
    by (simp_all add: commits_def committing_def)
  have "txn s \<noteq> []" using t by (auto simp: table_ok_def)
  then have "commit_master_loop (txn_api os (Suc d)) i s = Some (0, s)"
    using es_length [OF t] i by (subst commit_master_loop.simps) (simp add: Let_def)
  then show ?case using 0 i by (simp add: committed_def commits_def)
next
  case (Suc n)
  note c = Suc.prems [unfolded commits_def]
  have t: "table_ok (2 ^ m) s" using c by (simp add: committing_def)
  have i: "i < length (es_of s)" "n = length (es_of s) - Suc i" using Suc.hyps(2) by simp_all
  let ?api = "txn_api os (Suc d)" and ?O = EDB_OBJLIST and ?S = EDB_FREELIST_SECONDARY
  define e where "e = es_of s ! i"
  define r where "r = drop (Suc i) (es_of s)"
  define k where "k = item_k e"
  define x where "x = (if item_v e = FREED then k else item_v e)"
  note step = commit_loop_step [OF t i(1), of ?api, folded e_def, folded k_def, folded x_def]
  have dr: "drop i (es_of s) = e # r" using i(1) by (simp add: e_def r_def Cons_nth_drop_Suc)
  have O2: "?O \<noteq> ?S" by (simp add: EDB_OBJLIST_def EDB_FREELIST_SECONDARY_def)
  have rest: "?O \<notin> set (entry_keys r)" "distinct (entry_keys r)" "?O \<noteq> k"
    using c O2 by (auto simp: dr k_def EDB_OBJLIST_def split: if_splits)
  have key: "objlist s \<in> set (entry_keys (e # r)) \<longleftrightarrow>
      k \<noteq> 0 \<and> k = objlist s \<or> objlist s \<in> set (entry_keys r)"
    by (auto simp: k_def)
  note c = c [unfolded dr]
  note hide = commit_list.simps(2) entry_keys_simps(2)
  consider (skip) "k = 0 \<or> k = ?S \<or> k \<noteq> objlist s \<and> item_v e = ALLOCATED"
    | (zero) "k \<noteq> 0" "k \<noteq> ?S" "k \<noteq> objlist s" "item_v e \<noteq> ALLOCATED" "x = 0"
    | (obj) "k \<noteq> 0" "k \<noteq> ?S" "k = objlist s"
    | (push) "k \<noteq> 0" "k \<noteq> ?S" "k \<noteq> objlist s" "item_v e \<noteq> ALLOCATED" "x \<noteq> 0"
    by blast
  then show ?case
  proof cases
    case skip
    then have cl: "commit_list (objlist s) (e # r) = commit_list (objlist s) r" "k \<noteq> objlist s \<or> k = 0"
      using c by (auto simp: Let_def k_def)
    have "commits m (Suc i) s" using c cl i(1) rest by (simp add: commits_def r_def [symmetric] del: hide)
    then obtain s' where s': "commit_master_loop ?api (Suc i) s = Some (0, s')" "committed m (Suc i) s s'"
      using Suc.hyps(1) [OF i(2)] by blast
    have "commit_master_loop ?api i s = Some (0, s')" using step skip s'(1) cl(2) by (auto split: if_splits)
    moreover have "committed m i s s'"
      using s'(2) cl key by (auto simp: committed_def dr r_def [symmetric] simp del: hide)
    ultimately show ?thesis by blast
  next
    case zero
    then have cl: "commit_list (objlist s) (e # r) = commit_list (objlist s) r" "k \<noteq> objlist s"
      by (auto simp: Let_def k_def x_def)
    have "commits m (Suc i) s" using c cl i(1) rest by (simp add: commits_def r_def [symmetric] del: hide)
    then obtain s' where s': "commit_master_loop ?api (Suc i) s = Some (0, s')" "committed m (Suc i) s s'"
      using Suc.hyps(1) [OF i(2)] by blast
    have "commit_master_loop ?api i s = Some (0, s')" using step zero s'(1) by (simp add: free_zero)
    moreover have "committed m i s s'"
      using s'(2) cl key by (auto simp: committed_def dr r_def [symmetric] simp del: hide)
    ultimately show ?thesis by blast
  next
    case push
    then have cl: "commit_list (objlist s) (e # r) = x # commit_list (objlist s) r"
      by (auto simp: Let_def k_def x_def)
    have cm: "committing m s" and x4: "4 \<le> unat x" and room: "length (fl s) < 1021"
      using c cl by (simp_all del: length_fl hide)
    obtain s1 where s1: "freelist_free_block ?api s x = Some (0, s1)" "committing m s1"
        "fl s1 = fl s @ [x]" "es_of s1 = es_of s" "objlist s1 = objlist s" "nblocks s1 = nblocks s"
        "txn_id s1 = txn_id s" "txn s1 = txn s" "\<And>c. c \<noteq> ?S \<Longrightarrow> blk s1 c = blk s c"
        "\<And>c. block_ok s1 c = block_ok s c"
      using commit_push_step [OF cm x4 room, where os = os and d = d] by blast
    have "commits m (Suc i) s1"
      using c cl i(1) s1(2,10) rest
      by (simp add: commits_def s1(3-5) r_def [symmetric] del: length_fl hide)
    then obtain s' where s': "commit_master_loop ?api (Suc i) s1 = Some (0, s')" "committed m (Suc i) s1 s'"
      using Suc.hyps(1) [of s1 "Suc i"] i(2) s1(4) by auto
    have "commit_master_loop ?api i s = Some (0, s')" using step push s'(1) s1(1) by (simp del: txn_api.simps)
    moreover have "committed m i s s'"
      using s'(2) cl push(3) s1 O2 c key
      by (simp add: committed_def dr r_def [symmetric] del: hide)
    ultimately show ?thesis by blast
  next
    case obj
    then have cl: "commit_list (objlist s) (e # r) = k # commit_list ?O r"
      by (auto simp: Let_def k_def)
    have kO: "k \<noteq> ?O" "k \<in> set (entry_keys (e # r))" using rest obj by (auto simp: k_def)
    have cm: "committing m s" and x4: "4 \<le> unat k" and ok: "block_ok s ?O" "block_ok s k"
        "block_ok s ?S" "fl_ok s" and room: "length (fl s) < 1021"
      using c cl kO obj by (simp_all add: committing_def fl_ok_def del: length_fl hide)
    define s0 where "s0 = set_bytes s ?O 0 (blk s k)"
    note cp = copied [where s = s and b = ?O and a = k, folded s0_def]
    note f0 = writes_only_fields [OF cp(3)]
    have copy: "copy_block s ?O k = Some s0" by (simp add: copy_block_ok [OF ok(1,2)] s0_def)
    have fl0: "fl_ok s0" "fl s0 = fl s"
      using fl_frame [OF ok(4), of s0] ok(3) block_ok_writes [OF cp(3)] cp(2) [of ?S] O2 by auto
    have cm0: "committing m s0"
      using cm fl0 f0 file_writes [OF cp(3)] table_writes [OF cp(3)] st_writes [OF cp(3)]
      by (simp add: committing_def)
    have room0: "length (fl s0) < 1021" using room unfolding fl0(2) .
    obtain s1 where s1: "freelist_free_block ?api s0 k = Some (0, s1)" "committing m s1"
        "fl s1 = fl s0 @ [k]" "es_of s1 = es_of s0" "objlist s1 = objlist s0" "nblocks s1 = nblocks s0"
        "txn_id s1 = txn_id s0" "txn s1 = txn s0" "\<And>c. c \<noteq> ?S \<Longrightarrow> blk s1 c = blk s0 c"
        "\<And>c. block_ok s1 c = block_ok s0 c"
      using commit_push_step [OF cm0 x4 room0, where os = os and d = d] by blast
    let ?s2 = "s1\<lparr>objlist := ?O\<rparr>"
    have es: "es_of s1 = es_of s" using s1(4) writes_es [OF cp(3)] by simp
    have kr: "k \<notin> set (entry_keys r)" using c obj by (auto simp: k_def)
    have "commits m (Suc i) ?s2"
      using c cl i(1) s1(2,10) block_ok_writes [OF cp(3)] O2 rest
      by (simp add: commits_def s1(3) es fl0(2) r_def [symmetric] del: length_fl hide)
    then obtain s' where s': "commit_master_loop ?api (Suc i) ?s2 = Some (0, s')" "committed m (Suc i) ?s2 s'"
      using Suc.hyps(1) [of ?s2 "Suc i"] i(2) es by auto
    have "commit_master_loop ?api i s = Some (0, s')"
      using step obj s'(1) s1(1) copy by (simp del: txn_api.simps)
    moreover have "committed m i s s'"
      using s'(2) cl obj kO s1(3,5-9) O2 rest cp(1,2) f0 es fl0(2)
      by (simp add: committed_def dr r_def [symmetric] del: hide)
    ultimately show ?thesis by blast
  qed
qed

subsection \<open>Transactions that use the blocks in order\<close>

text \<open>
  The discipline that the object list and the clients keep: only the object list is copied from block 3, the reserved blocks are not touched, and no
  block that has been copied is copied again or freed.
\<close>

definition tidy :: "edb \<Rightarrow> bool" where
  "tidy s \<longleftrightarrow>
     (objlist s = EDB_OBJLIST \<or> 4 \<le> unat (objlist s) \<and> st s (objlist s) = EDB_OBJLIST) \<and>
     (\<forall>b. b \<noteq> EDB_FREELIST_SECONDARY \<longrightarrow> st s b = EDB_OBJLIST \<longrightarrow> b = objlist s) \<and>
     (\<forall>b \<in> tkeys s. b \<noteq> EDB_FREELIST_SECONDARY \<longrightarrow> 4 \<le> unat b) \<and>
     (\<forall>b. b \<noteq> EDB_FREELIST_SECONDARY \<longrightarrow> cowed (st s b) \<longrightarrow> st s (st s b) = 0) \<and>
     (\<forall>b c. b \<noteq> EDB_FREELIST_SECONDARY \<longrightarrow> c \<noteq> EDB_FREELIST_SECONDARY \<longrightarrow> cowed (st s b) \<longrightarrow>
        st s c = st s b \<longrightarrow> b = c)"

definition released :: "edb \<Rightarrow> u32 set" where
  "released s = {b. st s b = FREED} \<union>
     {st s b | b. b \<noteq> EDB_FREELIST_SECONDARY \<and> b \<noteq> objlist s \<and> cowed (st s b)} \<union>
     (if objlist s = EDB_OBJLIST then {} else {objlist s})"

lemma tidy_facts:
  assumes "tidy s"
  shows "objlist s = EDB_OBJLIST \<or> 4 \<le> unat (objlist s) \<and> st s (objlist s) = EDB_OBJLIST"
    "\<And>b. b \<noteq> EDB_FREELIST_SECONDARY \<Longrightarrow> st s b = EDB_OBJLIST \<Longrightarrow> b = objlist s"
    "\<And>b. b \<in> tkeys s \<Longrightarrow> b \<noteq> EDB_FREELIST_SECONDARY \<Longrightarrow> 4 \<le> unat b"
    "\<And>b. b \<noteq> EDB_FREELIST_SECONDARY \<Longrightarrow> cowed (st s b) \<Longrightarrow> st s (st s b) = 0"
    "\<And>b c. b \<noteq> EDB_FREELIST_SECONDARY \<Longrightarrow> c \<noteq> EDB_FREELIST_SECONDARY \<Longrightarrow> cowed (st s b) \<Longrightarrow>
        st s c = st s b \<Longrightarrow> b = c"
  using assms unfolding tidy_def by blast+

lemma st_keys: "st s b \<noteq> 0 \<Longrightarrow> b \<in> tkeys s"
  using mh_map_outside by (auto simp: st_def tkeys_def)

lemma entries_ok:
  assumes "table_ok N s"
  shows "distinct (entry_keys (es_of s))" "set (entry_keys (es_of s)) = tkeys s"
    "\<And>e. e \<in> set (es_of s) \<Longrightarrow> item_k e \<noteq> 0 \<Longrightarrow> item_v e = st s (item_k e)"
proof -
  obtain ts where ts: "txn s = [ts]" "mh_inv (ts_blocks ts)" by (rule table_cases [OF assms])
  have e: "es_of s = mh_entries (ts_blocks ts)" using ts by (simp add: es_of_def)
  show "set (entry_keys (es_of s)) = tkeys s"
    using ts e by (simp add: entry_keys_def tkeys_def mh_keys_def)
  show "distinct (entry_keys (es_of s))"
    using ts(2) mh_table_distinct [of "ts_blocks ts"]
    unfolding e entry_keys_def mh_inv_def by (auto simp: mem_hash_new_def)
  show "item_v x = st s (item_k x)" if "x \<in> set (es_of s)" "item_k x \<noteq> 0" for x
    using ts(1,2) that mh_map_entries [of "ts_blocks ts" x]
    unfolding e mh_inv_def by (auto simp: st_def used_def mem_hash_new_def)
qed

lemma pushes_released:
  assumes t: "table_ok N s" and i: "states_ok s" and y: "tidy s"
  shows "(\<exists>e \<in> set (es_of s). pushes (objlist s) e x) \<longleftrightarrow> x \<in> released s"
proof
  assume "\<exists>e \<in> set (es_of s). pushes (objlist s) e x"
  then obtain e where e: "e \<in> set (es_of s)" "pushes (objlist s) e x" by blast
  have k: "item_k e \<noteq> 0" "item_k e \<noteq> EDB_FREELIST_SECONDARY" using e(2) by (simp_all add: pushes_def)
  have v: "item_v e = st s (item_k e)" by (rule entries_ok(3) [OF t e(1) k(1)])
  show "x \<in> released s"
  proof (cases "item_k e = objlist s")
    case True
    then have "objlist s \<in> tkeys s"
      unfolding entries_ok(2) [OF t, symmetric] in_entry_keys using e(1) k(1) by metis
    then have "objlist s \<noteq> EDB_OBJLIST" using tidy_facts(3) [OF y, of "objlist s"] k(2) True by auto
    then show ?thesis using True e(2) by (simp add: pushes_def released_def)
  next
    case False
    then have "x \<noteq> 0" "st s (item_k e) \<noteq> ALLOCATED"
      "x = (if st s (item_k e) = FREED then item_k e else st s (item_k e))"
      using e(2) False unfolding pushes_def v [symmetric] by (auto split: if_splits)
    then show ?thesis using False k by (auto simp: released_def cowed_def split: if_splits)
  qed
next
  have ent: "\<exists>e \<in> set (es_of s). item_k e = b \<and> item_v e = st s b \<and> b \<noteq> 0" if "b \<in> tkeys s" for b
  proof -
    from that obtain e where "e \<in> set (es_of s)" "item_k e = b" "b \<noteq> 0"
      unfolding entries_ok(2) [OF t, symmetric] in_entry_keys by blast
    then show ?thesis using entries_ok(3) [OF t] by blast
  qed
  have S: "st s EDB_FREELIST_SECONDARY \<noteq> FREED"
    using i by (simp add: states_ok_def EDB_FREELIST_PRIMARY_def FREED_def)
  assume "x \<in> released s"
  then consider (freed) "st s x = FREED"
    | (copy) b where "b \<noteq> EDB_FREELIST_SECONDARY" "b \<noteq> objlist s" "cowed (st s b)" "x = st s b"
    | (obj) "objlist s \<noteq> EDB_OBJLIST" "x = objlist s"
    by (auto simp: released_def split: if_splits)
  then show "\<exists>e \<in> set (es_of s). pushes (objlist s) e x"
  proof cases
    case freed
    then obtain e where e: "e \<in> set (es_of s)" "item_k e = x" "item_v e = FREED" "x \<noteq> 0"
      using ent [of x] st_keys [of s x] by auto
    moreover have x: "x \<noteq> EDB_FREELIST_SECONDARY" using S freed by auto
    moreover have "4 \<le> unat x" using tidy_facts(3) [OF y _ x] st_keys [of s x] freed by simp
    then have "x \<noteq> objlist s"
      using freed tidy_facts(1) [OF y] small_not_special(2) [of EDB_OBJLIST] by auto
    ultimately show ?thesis by (intro bexI [of _ e]) (simp_all add: pushes_def)
  next
    case copy
    then obtain e where e: "e \<in> set (es_of s)" "item_k e = b" "item_v e = st s b" "b \<noteq> 0"
      using ent [of b] st_keys [of s b] by (auto simp: cowed_def)
    then show ?thesis using copy by (intro bexI [of _ e]) (simp_all add: pushes_def cowed_def)
  next
    case obj
    then have o: "4 \<le> unat (objlist s)" "st s (objlist s) = EDB_OBJLIST" using tidy_facts(1) [OF y] by simp_all
    then have "st s (objlist s) \<noteq> 0" "objlist s \<noteq> EDB_FREELIST_SECONDARY" by (auto simp: EDB_OBJLIST_def)
    then show ?thesis using ent [of "objlist s"] st_keys [of s "objlist s"] obj
      by (auto simp: pushes_def)
  qed
qed


lemma released_facts:
  assumes s: "txn_inv os m s" and y: "tidy s" and x: "x \<in> released s"
  shows "4 \<le> unat x" "unat x < unat (nblocks s)" "x \<notin> set (fl s)"
proof -
  have i: "states_ok s" "fl_fresh s" using s by (simp_all add: txn_inv_def)
  have out: "st s b \<noteq> 0 \<Longrightarrow> unat b < unat (nblocks s)" for b
    using i(1) by (meson not_le states_ok_def)
  have fl: "st s b \<noteq> 0 \<Longrightarrow> b \<notin> set (fl s)" for b using i(2) by (auto simp: fl_fresh_def)
  consider (freed) "st s x = FREED"
    | (copy) b where "b \<noteq> EDB_FREELIST_SECONDARY" "b \<noteq> objlist s" "cowed (st s b)" "x = st s b"
    | (obj) "objlist s \<noteq> EDB_OBJLIST" "x = objlist s"
    using x by (auto simp: released_def split: if_splits)
  then have "4 \<le> unat x \<and> unat x < unat (nblocks s) \<and> x \<notin> set (fl s)"
  proof cases
    case freed
    then have "x \<noteq> EDB_FREELIST_SECONDARY"
      using i(1) by (auto simp: states_ok_def EDB_FREELIST_PRIMARY_def FREED_def)
    then show ?thesis using freed out [of x] fl [of x] st_keys [of s x] tidy_facts(3) [OF y, of x] by simp
  next
    case copy
    then have "3 \<le> unat x" "unat x < unat (nblocks s)" "x \<notin> set (fl s)" using i(1) by (auto simp: states_ok_def)
    moreover have "x \<noteq> EDB_OBJLIST" using copy tidy_facts(2) [OF y, of b] by auto
    then have "unat x \<noteq> 3" by (metis EDB_consts(3) u32_eqI)
    ultimately show ?thesis by linarith
  next
    case obj
    then have "4 \<le> unat x" "st s x \<noteq> 0" using tidy_facts(1) [OF y] by (auto simp: EDB_OBJLIST_def)
    then show ?thesis using out fl by blast
  qed
  then show "4 \<le> unat x" "unat x < unat (nblocks s)" "x \<notin> set (fl s)" by simp_all
qed

lemma pushes_inj:
  assumes t: "table_ok N s" and y: "tidy s"
    and e: "e \<in> set (es_of s)" "e' \<in> set (es_of s)" "pushes (objlist s) e x" "pushes (objlist s) e' x"
  shows "item_k e = item_k e'"
proof -
  let ?k = "item_k e" and ?k' = "item_k e'"
  have k: "?k \<noteq> 0" "?k \<noteq> EDB_FREELIST_SECONDARY" "?k' \<noteq> 0" "?k' \<noteq> EDB_FREELIST_SECONDARY"
    using e(3,4) by (simp_all add: pushes_def)
  have v: "item_v e = st s ?k" "item_v e' = st s ?k'" using entries_ok(3) [OF t] e(1,2) k(1,3) by blast+
  have what: "x = k \<and> (k = objlist s \<or> st s k = FREED) \<or> x = st s k \<and> cowed (st s k)"
    if "pushes (objlist s) e'' x" "item_v e'' = st s k" "item_k e'' = k" for e'' k
    using that by (auto simp: pushes_def cowed_def split: if_splits)
  have nz: "st s a \<noteq> 0" if "a = objlist s \<or> st s a = FREED" "a \<in> tkeys s" "a \<noteq> EDB_FREELIST_SECONDARY" for a
    using that tidy_facts(1) [OF y] tidy_facts(3) [OF y, of a] by (auto simp: EDB_OBJLIST_def FREED_def)
  have "a \<in> tkeys s" if "a = ?k \<or> a = ?k'" for a
    unfolding entries_ok(2) [OF t, symmetric] in_entry_keys using that e(1,2) k by metis
  then have keys: "?k \<in> tkeys s" "?k' \<in> tkeys s" by blast+
  note w = what [OF e(3) v(1) refl] what [OF e(4) v(2) refl]
  show ?thesis
  proof (cases "cowed (st s ?k) \<and> x = st s ?k")
    case True
    then have "st s x = 0" using tidy_facts(4) [OF y k(2)] by simp
    then have "x = st s ?k'" using w(2) nz [of ?k'] keys k by metis
    then show ?thesis using tidy_facts(5) [OF y k(2,4)] True by metis
  next
    case False
    then have x: "x = ?k" "?k = objlist s \<or> st s ?k = FREED" using w(1) by blast+
    then have "st s x \<noteq> 0" using nz keys k by metis
    then show ?thesis using w(2) x(1) tidy_facts(4) [OF y k(4)] by metis
  qed
qed

lemma commit_loop_released:
  assumes s: "txn_inv os m s" "m \<le> 10" and y: "tidy s"
  shows "\<exists>s' new. commit_master_loop (txn_api os (Suc d)) 0 s = Some (0, s') \<and> committing m s' \<and>
    fl s' = fl s @ new \<and> distinct (fl s') \<and> set new = released s \<and> objlist s' = EDB_OBJLIST \<and>
    blk s' EDB_OBJLIST = blk s (objlist s) \<and> (\<forall>c. 4 \<le> unat c \<longrightarrow> blk s' c = blk s c) \<and>
    nblocks s' = nblocks s \<and> txn_id s' = txn_id s \<and> txn s' = txn s"
proof -
  define new where "new = commit_list (objlist s) (es_of s)"
  have i: "table_ok (2 ^ m) s" "states_ok s" "fl_ok s" "fl_fresh s" "file_ok s" "unat (nblocks s) \<le> 2 ^ m"
      "4 \<le> unat (nblocks s)" "freelist s = EDB_FREELIST_SECONDARY"
    using s by (simp_all add: txn_inv_def)
  have N: "(2 :: nat) ^ m \<le> 2 ^ 10" using s(2) by (intro power_increasing) simp_all
  note ent = entries_ok [OF i(1)]
  have O: "EDB_OBJLIST \<notin> set (entry_keys (es_of s))"
    using tidy_facts(3) [OF y, of EDB_OBJLIST]
    unfolding ent(2) by (auto simp: EDB_OBJLIST_def EDB_FREELIST_SECONDARY_def)
  have new: "set new = released s"
    using set_commit_list [OF ent(1) O, of _ "objlist s"] pushes_released [OF i(1,2) y] by (auto simp: new_def)
  have dist: "distinct new"
    unfolding new_def using pushes_inj [OF i(1) y] by (intro distinct_commit_list [OF ent(1) O]) blast
  note rel = released_facts [OF s(1) y]
  have all: "distinct (fl s @ new)" using i(4) dist new rel(3) by (auto simp: fl_fresh_def)
  have "unat ` set (fl s @ new) \<subseteq> {4..<1024}"
  proof
    fix a assume "a \<in> unat ` set (fl s @ new)"
    then obtain b where b: "a = unat b" "b \<in> set (fl s) \<or> b \<in> released s" using new by auto
    then have "4 \<le> a \<and> a < unat (nblocks s)" using i(4) rel by (auto simp: fl_fresh_def)
    then show "a \<in> {4..<1024}" using i(6) N by simp
  qed
  then have "card (unat ` set (fl s @ new)) \<le> card {4..<1024 :: nat}" by (intro card_mono) simp_all
  moreover have "inj_on unat (set (fl s @ new))" by (auto intro: inj_onI u32_eqI)
  ultimately have room: "length (fl s @ new) \<le> 1021"
    using distinct_card [OF all] by (simp add: card_image del: length_fl length_append)
  have ok: "block_ok s b" if "unat b < unat (nblocks s)" for b
    using file_block_ok [OF i(5) _ that] i(6) N by simp
  have ol: "objlist s \<noteq> EDB_OBJLIST \<Longrightarrow> 4 \<le> unat (objlist s) \<and> unat (objlist s) < unat (nblocks s)"
    using rel(1,2) [of "objlist s"] by (simp add: released_def)
  have "commits m 0 s"
    unfolding commits_def drop_0 new_def [symmetric]
  proof (intro conjI)
    show "committing m s" using i s(2) by (simp add: committing_def states_ok_def)
    show "block_ok s EDB_OBJLIST" using i(7) by (intro ok) simp
    show "block_ok s (objlist s)" using ok [of "objlist s"] ol i(7) by (cases "objlist s = EDB_OBJLIST") simp_all
    show "objlist s \<noteq> EDB_FREELIST_SECONDARY" using ol by (auto simp: EDB_OBJLIST_def EDB_FREELIST_SECONDARY_def)
    show "\<forall>x \<in> set new. 4 \<le> unat x" using rel(1) new by blast
    show "length (fl s) + length new \<le> 1021" using room by (simp del: length_fl)
  qed (use ol O ent(1) in simp_all)
  then obtain s' where s': "commit_master_loop (txn_api os (Suc d)) 0 s = Some (0, s')" "committed m 0 s s'"
    using commit_loop_ok by blast
  have mem: "objlist s \<in> set (entry_keys (es_of s)) \<longleftrightarrow> objlist s \<noteq> EDB_OBJLIST"
    using O st_keys [of s "objlist s"] tidy_facts(1) [OF y] unfolding ent(2) by (auto simp: EDB_OBJLIST_def)
  have four: "c \<noteq> EDB_FREELIST_SECONDARY \<and> c \<noteq> EDB_OBJLIST" if "4 \<le> unat c" for c
    using that by auto
  show ?thesis
    using s' all new mem four
    by (intro exI [of _ s'] exI [of _ new]) (auto simp: committed_def new_def simp del: length_fl)
qed

subsection \<open>Commit\<close>

lemma db_ok_copy:
  assumes c: "committing m s" and d: "distinct (fl s)" "\<forall>b \<in> set (fl s). 4 \<le> unat b \<and> unat b < unat (nblocks s)"
    and o: "objlist s = EDB_OBJLIST"
  shows "\<exists>s'. copy_block s EDB_FREELIST_PRIMARY (freelist s) = Some s' \<and>
    writes_only s s' EDB_FREELIST_PRIMARY \<and>
    db_ok m (s'\<lparr>freelist := EDB_FREELIST_PRIMARY, txn := [], txn_id := i\<rparr>) \<and>
    prim (s'\<lparr>freelist := EDB_FREELIST_PRIMARY, txn := [], txn_id := i\<rparr>) = fl s"
proof -
  let ?P = EDB_FREELIST_PRIMARY and ?S = EDB_FREELIST_SECONDARY
  define s1 where "s1 = set_bytes s ?P 0 (blk s ?S)"
  define s' where "s' = s1\<lparr>freelist := ?P, txn := [], txn_id := i\<rparr>"
  have i: "fl_ok s" "file_ok s" "unat (nblocks s) \<le> 2 ^ m" "4 \<le> unat (nblocks s)" "m \<le> 10" "freelist s = ?S"
    using c by (simp_all add: committing_def)
  have N: "(2 :: nat) ^ m \<le> 4096" using i(5) by (intro two_power_12) simp
  have ok: "block_ok s ?P" "block_ok s ?S" using file_block_ok [OF i(2)] N i by simp_all
  note cp = copied [where s = s and b = ?P and a = ?S, folded s1_def]
  note f = writes_only_fields [OF cp(3)]
  have "blk s' ?P = blk s ?S" using data_frame(1) [of s' s1] cp(1) by (simp add: s'_def)
  have fl: "arr_ok {?S} s ?S" "pt_n s ?S = 0" "isz s ?S = 4" using i(1) by (simp_all add: fl_ok_def)
  note v = small_copy [OF fl(1) \<open>blk s' ?P = blk s ?S\<close> fl(2)]
  have p: "prim s' = fl s" using v(4) by (simp add: prim_def fl_def)
  have "db_ok m s'"
    using i(2,3,4) v fl(3) f d o p by (simp add: db_ok_def s'_def file_ok_def)
  then show ?thesis
    using copy_block_ok [OF ok] cp(3) p i(6) by (intro exI [of _ s1]) (simp add: s1_def s'_def)
qed

lemma commit_ok:
  assumes s: "txn_inv os m s" "m \<le> 10" and y: "tidy s"
  shows "\<exists>s'. txn_commit (txn_api os (Suc d)) s = Some (0, s') \<and> db_ok m s' \<and>
    set (prim s') = set (fl s) \<union> released s \<and> blk s' EDB_OBJLIST = blk s (objlist s) \<and>
    (\<forall>c. 4 \<le> unat c \<longrightarrow> blk s' c = blk s c) \<and> nblocks s' = nblocks s \<and> txn_id s' = txn_id s + 1"
proof -
  let ?P = EDB_FREELIST_PRIMARY and ?S = EDB_FREELIST_SECONDARY
  have i: "table_ok (2 ^ m) s" "st s ?S = ?P" "fl_fresh s"
    using s by (simp_all add: txn_inv_def states_ok_def)
  obtain ts where ts: "txn s = [ts]" using i(1) by (rule table_cases)
  have S0: "?S \<noteq> 0" by (simp add: EDB_FREELIST_SECONDARY_def)
  have get: "mem_hash_get (ts_blocks ts) ?S = Some ?P"
    using get_state_ok [OF i(1) S0] ts i(2) by (simp add: get_state_def)
  obtain s1 new where l: "commit_master_loop (txn_api os (Suc d)) 0 s = Some (0, s1)" "committing m s1"
      "fl s1 = fl s @ new" "distinct (fl s1)" "set new = released s" "objlist s1 = EDB_OBJLIST"
      "blk s1 EDB_OBJLIST = blk s (objlist s)" "\<forall>c. 4 \<le> unat c \<longrightarrow> blk s1 c = blk s c"
      "nblocks s1 = nblocks s" "txn_id s1 = txn_id s" "txn s1 = txn s"
    using commit_loop_released [OF s y, of d] by blast
  have "\<forall>b \<in> set (fl s1). 4 \<le> unat b \<and> unat b < unat (nblocks s1)"
    using i(3) released_facts(1,2) [OF s(1) y] l(3,5,9) by (auto simp: fl_fresh_def)
  then obtain s2 where s2: "copy_block s1 ?P (freelist s1) = Some s2" "writes_only s1 s2 ?P"
      "db_ok m (s2\<lparr>freelist := ?P, txn := [], txn_id := txn_id s1 + 1\<rparr>)"
      "prim (s2\<lparr>freelist := ?P, txn := [], txn_id := txn_id s1 + 1\<rparr>) = fl s1"
    using db_ok_copy [OF l(2,4) _ l(6), of "txn_id s1 + 1"] by blast
  let ?s' = "s2\<lparr>freelist := ?P, txn := [], txn_id := txn_id s1 + 1\<rparr>"
  note f = writes_only_fields [OF s2(2)]
  have b: "blk ?s' c = blk s1 c" if "c \<noteq> ?P" for c
  proof -
    have "blk s2 c = blk s1 c" using writes_only_blk [OF s2(2)] that by metis
    then show ?thesis using data_frame(1) [of ?s' s2 c] by simp
  qed
  have ne: "c \<noteq> ?P" if "c = EDB_OBJLIST \<or> 4 \<le> unat c" for c
    using that by (auto simp: EDB_OBJLIST_def EDB_FREELIST_PRIMARY_def)
  have "txn_commit (txn_api os (Suc d)) s = Some (0, ?s')"
    using ts get l(1) s2(1) f by (simp add: txn_commit_def txn_commit_master_def del: txn_api.simps)
  then show ?thesis
    using s2(3,4) l b ne f by (intro exI [of _ ?s']) simp
qed

subsection \<open>Abort\<close>

lemma io_resize_shrink:
  assumes nb: "nb \<le> nblocks s" "unat (nblocks s) < 2 ^ 20" "0 < unat nb"
    and s: "unat (filesize s) = 4096 * unat (nblocks s)" "disk_len s = unat (filesize s)"
    and os: "\<And>n. os_ftruncate os (h_file s) n" "\<And>n. os_mmap os (h_file s) n"
  shows "\<exists>s'. io_resize os s nb = (0, s') \<and> mapped s' \<and> prot_write s' = (\<not> readonly s) \<and>
    nblocks s' = nb \<and> unat (filesize s') = 4096 * unat nb \<and> disk_len s' = unat (filesize s') \<and>
    (\<forall>a < 4096 * unat nb. data s' a = data s a) \<and>
    readonly s' = readonly s \<and> h_file s' = h_file s \<and> freelist s' = freelist s \<and>
    objlist s' = objlist s \<and> txn_id s' = txn_id s \<and> txn s' = txn s"
proof -
  have le: "unat nb \<le> unat (nblocks s)" using nb(1) by (simp add: word_le_nat_alt)
  have f: "unat (ucast (push_bit 12 nb) :: u64) = 4096 * unat nb"
    using le nb(2) by (intro unat_push_bit_12) simp
  have max: "\<not> 0xffffff00 \<le> nb" using le nb(2) by (simp add: word_le_nat_alt)
  have c: "ucast (push_bit 12 nb) < filesize s \<longleftrightarrow> nb < nblocks s"
    "\<not> filesize s < ucast (push_bit 12 nb)"
    using f s le by (simp_all add: word_less_nat_alt)
  show ?thesis
  proof (cases "nb < nblocks s")
    case True
    then show ?thesis
      using f s nb(3) max c os
      by (simp add: io_resize_def io_map_close_def ftruncate_file_def mmap_file_def Let_def
          word_less_nat_alt)
  next
    case False
    then have "nb = nblocks s" using nb(1) by simp
    then show ?thesis
      using f s nb(3) max c os False
      by (simp add: io_resize_def io_map_close_def mmap_file_def Let_def)
  qed
qed

lemma blk_cong:
  assumes "\<forall>a < 4096 * n. data s' a = data s a" and "unat b < n"
  shows "blk s' b = blk s b"
proof -
  have "4096 * unat b + i < 4096 * n" if "i < 4096" for i using assms(2) that by linarith
  then show ?thesis using assms(1) by (simp add: blk_def bytes_def ld_bytes_def)
qed

lemma abort_ok:
  assumes s: "txn_inv os m s" and tr: "\<And>h n. os_ftruncate os h n"
    and n: "n = ts_nblocks (hd (txn s))" "4 \<le> unat n" "unat n \<le> unat (nblocks s)"
    and p: "arr_ok {EDB_FREELIST_PRIMARY} s EDB_FREELIST_PRIMARY" "pt_n s EDB_FREELIST_PRIMARY = 0"
      "isz s EDB_FREELIST_PRIMARY = 4" "distinct (prim s)" "\<forall>b \<in> set (prim s). 4 \<le> unat b \<and> unat b < unat n"
  shows "\<exists>s'. txn_abort os api s = Some (0, s') \<and> db_ok m s' \<and> prim s' = prim s \<and> nblocks s' = n \<and>
    txn_id s' = txn_id s + 1 \<and> (\<forall>c. unat c < unat n \<longrightarrow> blk s' c = blk s c)"
proof -
  let ?P = EDB_FREELIST_PRIMARY
  have i: "table_ok (2 ^ m) s" "file_ok s" "unat (nblocks s) \<le> 2 ^ m" "os_ok os"
    using s by (simp_all add: txn_inv_def)
  have N: "(2 :: nat) ^ m \<le> 4096" using s two_power_12 by (simp add: txn_inv_def)
  obtain ts where ts: "txn s = [ts]" using i(1) by (rule table_cases)
  define s0 where "s0 = s\<lparr>freelist := ?P, objlist := EDB_OBJLIST\<rparr>"
  obtain s1 where r: "io_resize os s0 n = (0, s1)" "mapped s1" "prot_write s1 = (\<not> readonly s0)"
      "nblocks s1 = n" "unat (filesize s1) = 4096 * unat n" "disk_len s1 = unat (filesize s1)"
      "\<forall>a < 4096 * unat n. data s1 a = data s0 a" "readonly s1 = readonly s0" "freelist s1 = ?P"
      "objlist s1 = EDB_OBJLIST" "txn_id s1 = txn_id s0"
    using io_resize_shrink [of n s0 os] n i N tr
    by (auto simp: s0_def file_ok_def os_ok_def word_le_nat_alt)
  define s' where "s' = s1\<lparr>txn := [], txn_id := txn_id s1 + 1\<rparr>"
  have b: "blk s' c = blk s c" if "unat c < unat n" for c
    using blk_cong [of "unat n" s' s c] r(7) that by (simp add: s'_def s0_def)
  note v = small_copy [OF p(1) b [of ?P] p(2)]
  have pr: "prim s' = prim s" using v(4) n(2) by (simp add: prim_def)
  have "db_ok m s'"
    using v n(2,3) r i(2,3) p(3-5) pr by (simp add: db_ok_def file_ok_def s'_def s0_def)
  moreover have "txn_abort os api s = Some (0, s')"
    using ts n(1) r(1) by (simp add: txn_abort_def txn_abort_master_def s'_def s0_def Let_def)
  ultimately show ?thesis using pr b r(4,11) by (intro exI [of _ s']) (simp add: s'_def s0_def)
qed

subsection \<open>A new database\<close>

lemma open_new_ok:
  assumes os: "os_ok os" and fd: "os_open os fname False True = fd" "0 \<le> fd" "0 \<le> os_fstat os fd" "os_size os fd = 0"
    and m: "2 \<le> m"
  shows "\<exists>s. edb_open os fname False True = Some (0, Some s) \<and> db_ok m s \<and> prim s = [] \<and>
    arr_ok {EDB_OBJLIST} s EDB_OBJLIST \<and> arr s EDB_OBJLIST = [] \<and> isz s EDB_OBJLIST = 4 \<and>
    pt_n s EDB_OBJLIST = 0 \<and> nblocks s = 4"
proof -
  let ?P = EDB_FREELIST_PRIMARY and ?O = EDB_OBJLIST
  define s0 where "s0 = zero_edb\<lparr>h_file := fd, filesize := 0, disk_len := 0, data := os_content os fd\<rparr>"
  have os': "\<And>n. os_falloc os h n" "\<And>n. os_mmap os h n" for h using os by (simp_all add: os_ok_def)
  have z: "nblocks s0 = 0" "filesize s0 = 0" "disk_len s0 = 0" "\<not> readonly s0" "txn s0 = []"
    by (simp_all add: s0_def zero_edb_def)
  obtain s1 where s1: "io_resize os s0 1 = (0, s1)" "nblocks s1 = 1" "unat (filesize s1) = 4096"
      "disk_len s1 = unat (filesize s1)" "\<not> readonly s1" "txn s1 = []"
    using io_resize_grow [of s0 1 os] z os' by auto
  have op: "io_open os fname False True = (0, s1)"
    using fd s1(1) by (simp add: io_open_def s0_def zero_edb_def Let_def)
  define s2 where "s2 = s1\<lparr>readonly := False, freelist := ?P, objlist := ?O\<rparr>"
  obtain s3 where s3: "io_resize os s2 EDB_USER_DATA = (0, s3)" "mapped s3" "prot_write s3" "\<not> readonly s3"
      "nblocks s3 = 4" "unat (filesize s3) = 4096 * 4" "disk_len s3 = unat (filesize s3)" "txn s3 = []"
      "freelist s3 = ?P" "objlist s3 = ?O"
    using io_resize_grow [of s2 EDB_USER_DATA os] s1 os' by (auto simp: s2_def EDB_USER_DATA_def)
  have ok: "block_ok s3 b" if "unat b < 4" for b using s3 that by (simp add: block_ok_def)
  have okP: "block_ok s3 ?P" by (rule ok) simp
  obtain s4 where s4: "array_init s3 ?P 4 = Some (0, s4)" "writes_only s3 s4 ?P" "arr_ok {?P} s4 ?P"
      "arr s4 ?P = []" "isz s4 ?P = 4" "pt_n s4 ?P = 0"
    using array_init_ok [OF okP, of 4 "{?P}"] by auto
  have okO: "block_ok s4 ?O" using ok [of ?O] block_ok_writes [OF s4(2)] by simp
  obtain s5 where s5: "array_init s4 ?O 4 = Some (0, s5)" "writes_only s4 s5 ?O" "arr_ok {?O} s5 ?O"
      "arr s5 ?O = []" "isz s5 ?O = 4" "pt_n s5 ?O = 0"
    using array_init_ok [OF okO, of 4 "{?O}"] by auto
  note f4 = writes_only_fields [OF s4(2)]
  note f5 = writes_only_fields [OF s5(2)]
  have "?O \<noteq> ?P" by (simp add: EDB_OBJLIST_def EDB_FREELIST_PRIMARY_def)
  then have "blk s5 ?P = blk s4 ?P" using writes_only_blk [OF s5(2)] by metis
  note v = small_copy [OF s4(3) this s4(6)]
  have "db_ok m s5"
  proof -
    have "(4 :: nat) \<le> 2 ^ m" using power_increasing [OF m, of "2 :: nat"] by simp
    then show ?thesis using v s3 s4 f4 f5 by (simp add: db_ok_def file_ok_def prim_def)
  qed
  moreover have "edb_open os fname False True = Some (0, Some s5)"
    using op s3(1,9,10) s4(1) s5(1) f4 by (simp add: edb_open_def edb_init_def Let_def s2_def)
  ultimately show ?thesis using s5 v(4) s4(4) f4 f5 s3(5) by (intro exI [of _ s5]) (simp add: prim_def)
qed

subsection \<open>An operating system on which every call succeeds\<close>

definition good_os :: os where
  "good_os = \<lparr>os_open = (\<lambda>_ _ _. 3), os_fstat = (\<lambda>_. 0), os_size = (\<lambda>_. 0), os_content = (\<lambda>_ _. 0),
     os_falloc = (\<lambda>_ _. True), os_ftruncate = (\<lambda>_ _. True), os_mmap = (\<lambda>_ _. True)\<rparr>"

lemma good_os [simp]: "os_ok good_os" "os_ftruncate good_os h n"
  by (simp_all add: good_os_def os_ok_def)

lemma open_good:
  "2 \<le> m \<Longrightarrow> \<exists>s. edb_open good_os ''db'' False True = Some (0, Some s) \<and> db_ok m s \<and> prim s = [] \<and>
     nblocks s = 4"
  using open_new_ok [of good_os "''db''" 3 m] by (auto simp: good_os_def os_ok_def)

end
