(* ===== verification/Txn_Client.thy ===== *)
theory Txn_Client
  imports Txn_Master
begin

text \<open>
  Clients of a transaction as a step relation: the block operations of the public interface,
  called with the blocks that a client may use.  The invariant \<open>isolated\<close> holds in every
  state that is reachable from the beginning of a transaction, and says that the blocks in
  use before it keep their content until it ends.
\<close>

subsection \<open>The bookkeeping of the block operations\<close>

lemma alloc_books:
  assumes s: "txn_inv os m s" and room: "0 < troom m s"
    and r: "txn_allocate_block os (txn_api os (Suc d)) s = Some (0, b, s')"
  shows "books {b} s s'" "\<exists>s1. takes m s b s1 \<and> nblocks s' = nblocks s1 \<and> fl s' = fl s1"
proof -
  have ne: "txn s \<noteq> []" using s by (auto simp: txn_inv_def table_ok_def)
  obtain b1 s1 where a: "freelist_allocate_block os (txn_api os (Suc d)) s = Some (0, b1, s1)"
      "txn_inv os m s1" "takes m s b1 s1"
    using freelist_allocate_ok [OF s room modify_freelist [OF s]] by blast
  have set: "set_state s1 b1 ALLOCATED = Some s'" "b1 = b"
    using r a(1) ne by (auto simp: txn_allocate_block_def simp del: txn_api.simps split: bind_splits)
  have t1: "table_ok (2 ^ m) s1" "(2 :: nat) ^ m \<le> 4096" "unat (nblocks s1) \<le> 2 ^ m"
    using a(2) two_power_12 by (simp_all add: txn_inv_def)
  have b: "b1 \<noteq> 0" "unat b1 < 2 ^ m" using a(3) t1(3) by (auto simp: takes_def)
  note bk = set_state_books [OF t1(1,2) b set(1)]
  have "txn s1 = txn s" using a(3) by (simp add: takes_def)
  then show "books {b} s s'" using books_trans [OF books_txn bk(1)] set(2) by simp
  have "fl_ok s1" using a(2) by (simp add: txn_inv_def)
  then have "fl s' = fl s1" "nblocks s' = nblocks s1"
    by (subst bk(3), simp, subst bk(3), simp)
  then show "\<exists>s1. takes m s b s1 \<and> nblocks s' = nblocks s1 \<and> fl s' = fl s1" using a(3) set(2) by metis
qed

lemma cow_books:
  assumes s: "txn_inv os m s" and room: "0 < troom m s" and v: "v \<noteq> 0" "st s v = 0"
    and nb: "unat v < unat (nblocks s)"
    and r: "txn_modify_block os (txn_api os (Suc d)) s v = Some (0, b, s')"
  shows "books {b} s s'" "\<exists>s1. takes m s b s1 \<and> nblocks s' = nblocks s1 \<and> fl s' = fl s1"
proof -
  have t: "table_ok (2 ^ m) s" using s by (simp add: txn_inv_def)
  have ne: "txn s \<noteq> []" using t by (auto simp: table_ok_def)
  obtain b1 s1 where a: "freelist_allocate_block os (txn_api os (Suc d)) s = Some (0, b1, s1)"
      "txn_inv os m s1" "takes m s b1 s1"
    using freelist_allocate_ok [OF s room modify_freelist [OF s]] by blast
  obtain s2 where c: "copy_block s1 b1 v = Some s2" "set_state s2 b1 v = Some s'" "b1 = b"
    using r a(1) ne get_state_ok [OF t v(1)] v(2)
    by (auto simp: txn_modify_block_def simp del: txn_api.simps split: bind_splits)
  have inv1: "unat (nblocks s1) \<le> 2 ^ m" "(2 :: nat) ^ m \<le> 4096" "file_ok s1" "fl_ok s1" "table_ok (2 ^ m) s1"
    using a(2) two_power_12 by (simp_all add: txn_inv_def)
  have b: "b1 \<noteq> 0" "unat b1 < 2 ^ m" "b1 \<noteq> EDB_FREELIST_SECONDARY"
    "unat b1 < unat (nblocks s1)" "unat v < unat (nblocks s1)"
    using a(3) inv1(1) nb by (auto simp: takes_def word_le_nat_alt)
  have ok: "block_ok s1 b1" "block_ok s1 v" using file_block_ok [OF inv1(3)] inv1(1,2) b(4,5) by simp_all
  have s2: "s2 = set_bytes s1 b1 0 (blk s1 v)" using c(1) copy_block_ok [OF ok] by simp
  note cp = copied [where s = s1 and b = b1 and a = v, folded s2]
  note f2 = writes_only_fields [OF cp(3)]
  have t1: "table_ok (2 ^ m) s2" using inv1(5) table_writes [OF cp(3)] by simp
  note bk = set_state_books [OF t1 inv1(2) b(1,2) c(2)]
  have "txn s2 = txn s" using a(3) f2 by (simp add: takes_def)
  then show "books {b} s s'" using books_trans [OF books_txn bk(1)] c(3) by simp
  have "block_ok s2 EDB_FREELIST_SECONDARY"
    using inv1(4) block_ok_writes [OF cp(3)] by (simp add: fl_ok_def)
  then have fl2: "fl_ok s2" "fl s2 = fl s1" using fl_frame [OF inv1(4)] cp(2) b(3) by metis+
  then have "fl s' = fl s1" "nblocks s' = nblocks s1"
    by (subst bk(3), simp, subst bk(3), simp add: f2)
  then show "\<exists>s1. takes m s b s1 \<and> nblocks s' = nblocks s1 \<and> fl s' = fl s1" using a(3) c(3) by metis
qed

lemma free_books:
  assumes s: "txn_inv os m s" "m \<le> 10" and b: "b \<in> tpriv s"
    and r: "txn_free_block (txn_api os (Suc d)) s b = Some (0, s')"
  shows "books (if cowed (st s b) then {b, st s b} else {b}) s s'"
proof -
  have t: "table_ok (2 ^ m) s" "(2 :: nat) ^ m \<le> 4096" "unat (nblocks s) \<le> 2 ^ m" and st: "states_ok s"
    using s two_power_12 by (simp_all add: txn_inv_def)
  have ne: "txn s \<noteq> []" using t by (auto simp: table_ok_def)
  have b4: "b \<noteq> 0" "unat b < 2 ^ m" "4 \<le> unat b" "b \<noteq> EDB_FREELIST_SECONDARY" "st s b \<noteq> 0" "st s b \<noteq> FREED"
    using b t(3) by (auto simp: tpriv_def)
  have push: "books {} s1 s2" if k: "table_ok (2 ^ m) s1" "s1 = s\<lparr>txn := txn s1\<rparr>"
      "st s1 EDB_FREELIST_SECONDARY = EDB_FREELIST_PRIMARY"
      "freelist_free_block (txn_api os (Suc d)) s1 b = Some (err, s2)" for s1 s2 err
  proof -
    have f: "fl_ok s1" "fl s1 = fl s" "file_ok s1" "nblocks s1 = nblocks s" "freelist s1 = freelist s"
      using s(1) k(2) fl_txn_update [of s "txn s1"] txn_update_simps(2) [of "txn s1" s]
      by (metis txn_inv_def, metis txn_inv_def, metis txn_inv_def,
          metis edb.select_convs(9) edb.surjective edb.update_convs(13),
          metis edb.select_convs(10) edb.surjective edb.update_convs(13))
    have c: "committing m s1" using s k(1,3) f by (simp add: committing_def txn_inv_def)
    have "length (fl s1) < 1021" using fl_room(2) [OF s b] f(2) by metis
    from commit_push_step [OF c b4(3) this, where os = os and d = d] obtain s3 where
      "freelist_free_block (txn_api os (Suc d)) s1 b = Some (0, s3)" "txn s3 = txn s1" by blast
    then show ?thesis using k(4) books_txn by simp
  qed
  obtain t1 where t1: "set_state s b 0 = Some (s\<lparr>txn := t1\<rparr>)"
    using set_state_ok [OF t(1,2) b4(1,2)] by blast
  note k1 = set_state_books [OF t(1,2) b4(1,2) t1]
  have S: "st s EDB_FREELIST_SECONDARY = EDB_FREELIST_PRIMARY" using st by (simp add: states_ok_def)
  show ?thesis
  proof (cases "cowed (st s b)")
    case False
    then have "st s b = ALLOCATED" using b4 by (simp add: cowed_def)
    then obtain err where "freelist_free_block (txn_api os (Suc d)) (s\<lparr>txn := t1\<rparr>) b = Some (err, s')"
      using r ne get_state_ok [OF t(1) b4(1)] t1
      by (auto simp: txn_free_block_def simp del: txn_api.simps split: bind_splits)
    then have "books {} (s\<lparr>txn := t1\<rparr>) s'" using push [OF k1(2)] k1(4) S b4(4) by simp
    then show ?thesis using books_trans [OF k1(1)] False by simp
  next
    case True
    define v where "v = st s b"
    have o: "3 \<le> unat v" "unat v < 2 ^ m" using st True b4(4) t(3) by (auto simp: states_ok_def v_def)
    then have v: "v \<noteq> 0" "unat v < 2 ^ m" "v \<noteq> EDB_FREELIST_SECONDARY" by auto
    obtain t2 where t2: "set_state (s\<lparr>txn := t1\<rparr>) v FREED = Some (s\<lparr>txn := t2\<rparr>)"
      using set_state_ok [OF k1(2) t(2) v(1,2), of FREED] by auto
    note k2 = set_state_books [OF k1(2) t(2) v(1,2) t2]
    have nz: "v \<noteq> ALLOCATED" "v \<noteq> FREED" using True by (simp_all add: cowed_def v_def)
    obtain err where "freelist_free_block (txn_api os (Suc d)) (s\<lparr>txn := t2\<rparr>) b = Some (err, s')"
      using r ne get_state_ok [OF t(1) b4(1)] t1 t2 nz v(1)
      by (auto simp: txn_free_block_def v_def [symmetric] simp del: txn_api.simps split: bind_splits)
    then have "books {} (s\<lparr>txn := t2\<rparr>) s'" using push [OF k2(2)] k1(4) k2(4) S b4(4) v(3) by simp
    then have "books ({b} \<union> {v} \<union> {}) s s'" using books_trans [OF books_trans [OF k1(1) k2(1)]] by simp
    then show ?thesis using True by (simp add: v_def insert_commute)
  qed
qed

subsection \<open>What clients do between begin and commit\<close>

text \<open>An old block that a client may still refer to: no copy of it has been handed out\<close>

definition old_block :: "edb \<Rightarrow> u32 \<Rightarrow> bool" where
  "old_block s v \<longleftrightarrow> 4 \<le> unat v \<and> unat v < unat (nblocks s) \<and> st s v = 0 \<and> v \<notin> set (fl s) \<and>
     (\<forall>b. st s b \<noteq> v)"

text \<open>
  The steps: allocating, copying an old block, the object list's copy on write of
  \<open>obj_create\<close>, writing to and freeing a block of the transaction, and freeing an old block.
  Each is the call of the code and yields whatever the code returns.
\<close>

inductive client_step :: "os \<Rightarrow> nat \<Rightarrow> nat \<Rightarrow> edb \<Rightarrow> edb \<Rightarrow> bool" for os m d where
  step_alloc: "0 < troom m s \<Longrightarrow> edb_allocate_block os (Suc d) s = Some (err, b, s') \<Longrightarrow>
    client_step os m d s s'"
| step_copy: "0 < troom m s \<Longrightarrow> old_block s v \<Longrightarrow> edb_modify_block os (Suc d) s v = Some (err, b, s') \<Longrightarrow>
    client_step os m d s s'"
| step_objlist: "0 < troom m s \<Longrightarrow> edb_modify_block os (Suc d) s (objlist s) = Some (err, b, s') \<Longrightarrow>
    client_step os m d s (s'\<lparr>objlist := b\<rparr>)"
| step_write: "b \<in> tpriv s \<Longrightarrow> writes_only s s' b \<Longrightarrow> client_step os m d s s'"
| step_free: "b \<in> tpriv s \<Longrightarrow> b \<noteq> objlist s \<Longrightarrow> edb_free_block os (Suc d) s b = Some (err, s') \<Longrightarrow>
    client_step os m d s s'"
| step_free_old: "old_block s v \<Longrightarrow> edb_free_block os (Suc d) s v = Some (err, s') \<Longrightarrow>
    client_step os m d s s'"

inductive client_steps :: "os \<Rightarrow> nat \<Rightarrow> nat \<Rightarrow> edb \<Rightarrow> edb \<Rightarrow> bool" for os m d s where
  steps_none: "client_steps os m d s s"
| steps_more: "client_steps os m d s s' \<Longrightarrow> client_step os m d s' s'' \<Longrightarrow> client_steps os m d s s''"

text \<open>
  The invariant, relative to the state \<open>s0\<close> before the transaction: only blocks that were
  free or did not exist are handed out, and the others keep their content.
\<close>

definition isolated :: "os \<Rightarrow> nat \<Rightarrow> edb \<Rightarrow> edb \<Rightarrow> bool" where
  "isolated os m s0 s \<longleftrightarrow> txn_inv os m s \<and> tidy s \<and> tbase s = nblocks s0 \<and>
     unat (nblocks s0) \<le> unat (nblocks s) \<and>
     (\<forall>b \<in> tpriv s \<union> set (fl s). b \<in> set (prim s0) \<or> unat (nblocks s0) \<le> unat b) \<and>
     (\<forall>c. unat c < unat (nblocks s0) \<longrightarrow> c \<noteq> EDB_FREELIST_SECONDARY \<longrightarrow> c \<notin> set (prim s0) \<longrightarrow>
        blk s c = blk s0 c)"

text \<open>A step of the block layer: what \<open>isolated\<close> needs to know of it\<close>

lemma isolated_step:
  assumes s: "isolated os m s0 s" and i: "txn_inv os m s'" and y: "tidy s'" and bk: "tbase s' = tbase s"
    and grow: "unat (nblocks s) \<le> unat (nblocks s')"
    and new: "\<And>b. b \<in> tpriv s' \<union> set (fl s') \<Longrightarrow>
      b \<in> tpriv s \<union> set (fl s) \<or> unat (nblocks s) \<le> unat b"
    and same: "\<And>c. unat c < unat (nblocks s) \<Longrightarrow> c \<noteq> EDB_FREELIST_SECONDARY \<Longrightarrow>
      c \<notin> tpriv s \<union> set (fl s) \<Longrightarrow> blk s' c = blk s c"
  shows "isolated os m s0 s'"
proof -
  have h: "unat (nblocks s0) \<le> unat (nblocks s)" "tbase s = nblocks s0"
    "\<And>b. b \<in> tpriv s \<union> set (fl s) \<Longrightarrow> b \<in> set (prim s0) \<or> unat (nblocks s0) \<le> unat b"
    "\<And>c. unat c < unat (nblocks s0) \<Longrightarrow> c \<noteq> EDB_FREELIST_SECONDARY \<Longrightarrow> c \<notin> set (prim s0) \<Longrightarrow>
      blk s c = blk s0 c"
    using s unfolding isolated_def by blast+
  show ?thesis
    unfolding isolated_def
  proof (intro conjI ballI allI impI)
    show "unat (nblocks s0) \<le> unat (nblocks s')" using h(1) grow by simp
    show "b \<in> set (prim s0) \<or> unat (nblocks s0) \<le> unat b" if "b \<in> tpriv s' \<union> set (fl s')" for b
      using new [OF that] h(1,3) by (meson le_trans)
    fix c assume c: "unat c < unat (nblocks s0)" "c \<noteq> EDB_FREELIST_SECONDARY" "c \<notin> set (prim s0)"
    then have "c \<notin> tpriv s \<union> set (fl s)" using h(3) [of c] by auto
    then show "blk s' c = blk s0 c" using same [of c] h(1,4) c by simp
  qed (use i y bk h(2) in simp_all)
qed

subsection \<open>The discipline is kept\<close>

lemma tidy_add:
  assumes y: "tidy s" and i: "txn_inv os m s" and bk: "tkeys s' = insert b (tkeys s)"
    and b: "4 \<le> unat b" "st s b = 0" and st: "st s' = (st s)(b := v)"
    and o: "objlist s' = (if v = EDB_OBJLIST then b else objlist s)"
    and v: "v = ALLOCATED \<or> v = EDB_OBJLIST \<and> objlist s = EDB_OBJLIST \<or>
      4 \<le> unat v \<and> unat v < 4096 \<and> st s v = 0 \<and> (\<forall>c. st s c \<noteq> v) \<and> v \<noteq> b"
    and free: "\<And>c. c \<noteq> EDB_FREELIST_SECONDARY \<Longrightarrow> cowed (st s c) \<Longrightarrow> st s c \<noteq> b"
  shows "tidy s'"
proof -
  let ?S = EDB_FREELIST_SECONDARY and ?O = EDB_OBJLIST
  note f = tidy_facts [OF y]
  have O: "unat ?O = 3" "?O \<noteq> ALLOCATED" "cowed ?O" "?O \<noteq> 0"
    using small_not_special [of ?O] by (auto simp: EDB_OBJLIST_def)
  have stO: "st s ?O = 0" using f(3) [of ?O] st_keys [of s ?O] by (auto simp: EDB_OBJLIST_def EDB_FREELIST_SECONDARY_def)
  have cv: "cowed v \<Longrightarrow> st s v = 0 \<and> v \<noteq> b" using v stO b(1) O(1) by (auto simp: cowed_def)
  have uniq: "c \<noteq> ?S \<Longrightarrow> cowed v \<Longrightarrow> st s c \<noteq> v" for c
  proof
    assume c: "c \<noteq> ?S" "cowed v" "st s c = v"
    then have "v = ?O" "objlist s = ?O" using v by (auto simp: cowed_def)
    then have "c = ?O" using f(2) c by metis
    then show False using stO c(3) \<open>v = ?O\<close> O(4) by simp
  qed
  have ol: "objlist s = ?O \<or> objlist s \<noteq> b" using f(1) b O(4) by auto
  have vO: "v = ?O \<Longrightarrow> objlist s = ?O" using v O by auto
  show ?thesis
    unfolding tidy_def st bk
  proof (intro conjI allI ballI impI)
    show "objlist s' = ?O \<or> 4 \<le> unat (objlist s') \<and> ((st s)(b := v)) (objlist s') = ?O"
      using o b(1) f(1) ol by auto
    show "c = objlist s'" if "c \<noteq> ?S" "((st s)(b := v)) c = ?O" for c
      using that o f(2) [of c] vO O(4) stO by (auto split: if_splits)
    show "4 \<le> unat c" if "c \<in> insert b (tkeys s)" "c \<noteq> ?S" for c using that b(1) f(3) by auto
    show "((st s)(b := v)) (((st s)(b := v)) c) = 0" if "c \<noteq> ?S" "cowed (((st s)(b := v)) c)" for c
      using that cv f(4) [of c] free [of c] by (auto split: if_splits)
    show "c = e" if "c \<noteq> ?S" "e \<noteq> ?S" "cowed (((st s)(b := v)) c)"
      "((st s)(b := v)) e = ((st s)(b := v)) c" for c e
    proof (cases "c = b"; cases "e = b")
      assume "c = b" "e = b" then show ?thesis by simp
    next
      assume "c = b" "e \<noteq> b"
      then have "cowed v" "st s e = v" using that(3,4) by simp_all
      then show ?thesis using uniq [OF that(2)] by blast
    next
      assume "c \<noteq> b" "e = b"
      then have "cowed (st s c)" "st s c = v" using that(3,4) by simp_all
      then show ?thesis using uniq [OF that(1)] by metis
    next
      assume "c \<noteq> b" "e \<noteq> b"
      then have "cowed (st s c)" "st s e = st s c" using that(3,4) by simp_all
      then show ?thesis by (rule f(5) [OF that(1,2)])
    qed
  qed
qed

lemma tidy_free:
  assumes y: "tidy s" and i: "txn_inv os m s" and b: "b \<in> tpriv s" "b \<noteq> objlist s"
    and bk: "tkeys s' = (if cowed (st s b) then {b, st s b} else {b}) \<union> tkeys s"
    and st: "st s' = (if cowed (st s b) then (st s)(b := 0, st s b := FREED) else (st s)(b := 0))"
    and o: "objlist s' = objlist s"
  shows "tidy s'"
proof -
  let ?S = EDB_FREELIST_SECONDARY and ?O = EDB_OBJLIST
  define v where "v = st s b"
  note f = tidy_facts [OF y]
  have b4: "4 \<le> unat b" "b \<noteq> ?S" "st s b \<noteq> 0" using b(1) by (auto simp: tpriv_def)
  have O: "?O \<noteq> 0" "?O \<noteq> FREED" using small_not_special [of ?O] by (auto simp: EDB_OBJLIST_def)
  have v: "4 \<le> unat v" "st s v = 0" "v \<noteq> b" "v \<noteq> ?S" if "cowed v"
  proof -
    have "3 \<le> unat v" using i that b4(2) by (auto simp: txn_inv_def states_ok_def v_def)
    moreover have "v \<noteq> ?O" using f(2) [OF b4(2)] b(2) by (auto simp: v_def)
    then have "unat v \<noteq> 3" by (metis EDB_consts(3) u32_eqI)
    ultimately show "4 \<le> unat v" by linarith
    then show "v \<noteq> ?S" by auto
    show "st s v = 0" using f(4) [OF b4(2)] that by (simp add: v_def)
    then show "v \<noteq> b" using b4(3) by auto
  qed
  define g where "g = st s'"
  have g: "g c = (if c = b then 0 else if cowed v \<and> c = v then FREED else st s c)" for c
    using st v(3) by (auto simp: g_def v_def)
  have ol: "objlist s \<noteq> ?O \<Longrightarrow> g (objlist s) = ?O"
    using f(1) b(2) v(2) O(1) by (auto simp: g)
  have gv: "c \<noteq> b \<and> \<not> (cowed v \<and> c = v) \<and> g c = st s c" if "g c \<noteq> 0" "g c \<noteq> FREED" for c
    using that by (auto simp: g split: if_splits)
  show ?thesis
    unfolding tidy_def bk o g_def [symmetric]
  proof (intro conjI allI ballI impI)
    show "objlist s = ?O \<or> 4 \<le> unat (objlist s) \<and> g (objlist s) = ?O" using f(1) ol by blast
    show "c = objlist s" if "c \<noteq> ?S" "g c = ?O" for c
      using gv [of c] f(2) [OF that(1)] that(2) O by metis
    show "4 \<le> unat c" if "c \<in> (if cowed (st s b) then {b, st s b} else {b}) \<union> tkeys s" "c \<noteq> ?S" for c
      using that b4(1) v(1) f(3) [of c] by (auto simp: v_def split: if_splits)
    show "g (g c) = 0" if "c \<noteq> ?S" "cowed (g c)" for c
    proof -
      have c: "c \<noteq> b" "\<not> (cowed v \<and> c = v)" "g c = st s c" "cowed (st s c)"
        using gv [of c] that(2) by (auto simp: cowed_def)
      have "st s (st s c) = 0" using f(4) [OF that(1) c(4)] .
      moreover have "\<not> (cowed v \<and> st s c = v)" using f(5) [OF that(1) b4(2) c(4)] c(1) by (metis v_def)
      ultimately show ?thesis unfolding c(3) unfolding g by auto
    qed
    show "c = e" if "c \<noteq> ?S" "e \<noteq> ?S" "cowed (g c)" "g e = g c" for c e
      using gv [of c] gv [of e] f(5) [OF that(1,2)] that(3,4) by (metis cowed_def)
  qed
qed

lemma free_old_ok:
  assumes i: "txn_inv os m s" and y: "tidy s" and v: "old_block s v"
  shows "\<exists>s'. txn_free_block api s v = Some (0, s') \<and> txn_inv os m s' \<and> tidy s' \<and>
    tbase s' = tbase s \<and> nblocks s' = nblocks s \<and> tpriv s' = tpriv s \<and> fl s' = fl s \<and>
    (\<forall>c. blk s' c = blk s c) \<and> objlist s' = objlist s"
proof -
  let ?S = EDB_FREELIST_SECONDARY and ?O = EDB_OBJLIST
  have v': "4 \<le> unat v" "unat v < unat (nblocks s)" "st s v = 0" "v \<notin> set (fl s)" "\<And>b. st s b \<noteq> v"
    using v by (simp_all add: old_block_def)
  have t: "table_ok (2 ^ m) s" "(2 :: nat) ^ m \<le> 4096" "unat (nblocks s) \<le> 2 ^ m" "states_ok s" "fl_ok s" "fl_fresh s"
    using i two_power_12 by (simp_all add: txn_inv_def)
  have ne: "txn s \<noteq> []" using t(1) by (auto simp: table_ok_def)
  have k: "v \<noteq> 0" "unat v < 2 ^ m" using v' t(3) by auto
  obtain t1 where t1: "set_state s v FREED = Some (s\<lparr>txn := t1\<rparr>)"
    using set_state_ok [OF t(1,2) k] by blast
  note b = set_state_books [OF t(1,2) k t1]
  let ?s = "s\<lparr>txn := t1\<rparr>"
  have res: "txn_free_block api s v = Some (0, ?s)"
    using ne get_state_ok [OF t(1) k(1)] v'(3) t1
    by (simp add: txn_free_block_def special(1,2) [symmetric])
  have fl: "fl_ok ?s" "fl ?s = fl s" using t(5) by simp_all
  have O: "?O \<noteq> 0" "?O \<noteq> FREED" using small_not_special [of ?O] by (auto simp: EDB_OBJLIST_def)
  have vS: "v \<noteq> ?S" using v'(1) by auto
  have st: "states_ok ?s"
    unfolding states_ok_def b(4) fl(2)
  proof (intro conjI allI impI)
    fix c assume c: "c \<noteq> ?S" "cowed (((st s)(v := FREED)) c)"
    then have "c \<noteq> v" "cowed (st s c)" by (auto split: if_splits)
    moreover from this have "3 \<le> unat (st s c) \<and> unat (st s c) < unat (nblocks s) \<and>
        (st s (st s c) = 0 \<or> st s (st s c) = FREED) \<and> st s c \<notin> set (fl s)"
      using t(4) c(1) by (auto simp: states_ok_def)
    ultimately show "3 \<le> unat (((st s)(v := FREED)) c)" "unat (((st s)(v := FREED)) c) < unat (nblocks ?s)"
      "((st s)(v := FREED)) (((st s)(v := FREED)) c) = 0 \<or> ((st s)(v := FREED)) (((st s)(v := FREED)) c) = FREED"
      "((st s)(v := FREED)) c \<notin> set (fl s)"
      by simp_all
  qed (use t(4) v' vS in \<open>auto simp: states_ok_def\<close>)
  have fresh: "fl_fresh ?s" using t(6) v'(4) by (auto simp: fl_fresh_def b(4) fl(2))
  have inv: "txn_inv os m ?s" using i st fresh fl b(2) by (simp add: txn_inv_def)
  have priv: "tpriv ?s = tpriv s" using v'(3) by (auto simp: tpriv_def b(4))
  note f = tidy_facts [OF y]
  define g where "g = st ?s"
  have g: "g c = (if c = v then FREED else st s c)" for c using b(4) by (simp add: g_def)
  have keys: "tkeys ?s = insert v (tkeys s)" "tbase ?s = tbase s" using b(1) by (simp_all add: books_def)
  have gv: "c \<noteq> v \<and> g c = st s c" if "cowed (g c) \<or> g c = ?O" for c
    using that O(2) by (auto simp: g split: if_splits)
  have ol: "objlist s \<noteq> ?O \<Longrightarrow> g (objlist s) = ?O" using f(1) v'(3) O(1) by (auto simp: g)
  have o: "objlist ?s = objlist s" by simp
  have "tidy ?s"
    unfolding tidy_def g_def [symmetric] keys o
  proof (intro conjI allI ballI impI)
    show "objlist s = ?O \<or> 4 \<le> unat (objlist s) \<and> g (objlist s) = ?O" using f(1) ol by blast
    show "c = objlist s" if "c \<noteq> ?S" "g c = ?O" for c
      using gv [of c] f(2) [OF that(1)] that(2) by metis
    show "4 \<le> unat c" if "c \<in> insert v (tkeys s)" "c \<noteq> ?S" for c
      using that v'(1) f(3) [of c] by auto
    show "g (g c) = 0" if "c \<noteq> ?S" "cowed (g c)" for c
    proof -
      have c: "g c = st s c" "cowed (st s c)" using gv [of c] that(2) by auto
      then show ?thesis using f(4) [OF that(1)] v'(5) [of c] by (simp add: g)
    qed
    show "c = e" if "c \<noteq> ?S" "e \<noteq> ?S" "cowed (g c)" "g e = g c" for c e
      using gv [of c] gv [of e] f(5) [OF that(1,2)] that(3,4) by metis
  qed
  then show ?thesis
    using res inv keys(2) priv fl(2) by (intro exI [of _ ?s]) simp
qed

subsection \<open>Every step keeps the invariant\<close>

lemma isolated_facts:
  assumes "isolated os m s0 s"
  shows "txn_inv os m s" "tidy s"
  using assms unfolding isolated_def by blast+

lemma alloc_isolated:
  assumes s: "isolated os m s0 s" and room: "0 < troom m s"
    and r: "edb_allocate_block os (Suc d) s = Some (err, b, s')"
  shows "err = 0 \<and> isolated os m s0 s'"
proof -
  note f = isolated_facts [OF s]
  obtain b1 s1 where a: "txn_allocate_block os (txn_api os (Suc d)) s = Some (0, b1, s1)" "txn_inv os m s1"
      "tpriv s1 = insert b1 (tpriv s)" "objlist s1 = objlist s" "st s1 = (st s)(b1 := ALLOCATED)"
      "\<forall>c. unat c < unat (nblocks s) \<longrightarrow> c \<noteq> EDB_FREELIST_SECONDARY \<longrightarrow> blk s1 c = blk s c"
    using txn_allocate_ok [OF f(1) room, of d] by blast
  have e: "err = 0" "b1 = b" "s1 = s'" using r a(1) by (simp_all add: edb_allocate_block_def)
  note bk = alloc_books [OF f(1) room a(1)]
  obtain s2 where "takes m s b1 s2" "nblocks s1 = nblocks s2" "fl s1 = fl s2" using bk(2) by blast
  then have t: "4 \<le> unat b1" "st s b1 = 0" "unat (nblocks s) \<le> unat (nblocks s1)"
    "\<And>c. c \<noteq> EDB_FREELIST_SECONDARY \<Longrightarrow> cowed (st s c) \<Longrightarrow> st s c \<noteq> b1"
    "b1 \<in> set (fl s) \<or> unat (nblocks s) \<le> unat b1"
    "\<And>c. c \<in> set (fl s1) \<Longrightarrow> c \<in> set (fl s) \<or> unat (nblocks s) \<le> unat c"
    by (auto simp: takes_def word_le_nat_alt)
  have "ALLOCATED \<noteq> EDB_OBJLIST" using small_not_special(1) [of EDB_OBJLIST] by auto
  then have y: "tidy s1"
    using bk(1) a(4) by (intro tidy_add [OF f(2,1) _ t(1,2) a(5) _ _ t(4)]) (auto simp: books_def)
  have "isolated os m s0 s1"
  proof (rule isolated_step [OF s a(2) y _ t(3)])
    show "tbase s1 = tbase s" using bk(1) by (simp add: books_def)
    show "c \<in> tpriv s \<union> set (fl s) \<or> unat (nblocks s) \<le> unat c" if "c \<in> tpriv s1 \<union> set (fl s1)" for c
      using that a(3) t(5,6) by auto
  qed (use a(6) in blast)
  then show ?thesis using e by simp
qed

lemma copy_isolated:
  assumes s: "isolated os m s0 s" and room: "0 < troom m s"
    and v: "old_block s v \<or> v = EDB_OBJLIST \<and> objlist s = EDB_OBJLIST"
    and r: "edb_modify_block os (Suc d) s v = Some (err, b, s')"
    and o: "s'' = (if v = EDB_OBJLIST then s'\<lparr>objlist := b\<rparr> else s')"
  shows "err = 0 \<and> isolated os m s0 s''"
proof -
  note f = isolated_facts [OF s]
  have n4: "4 \<le> unat (nblocks s)" "unat (nblocks s) \<le> 2 ^ m" "m \<le> 12" "fl_fresh s"
    using f(1) by (simp_all add: txn_inv_def)
  have O: "unat EDB_OBJLIST = 3" "EDB_OBJLIST \<noteq> EDB_FREELIST_SECONDARY"
    by (simp_all add: EDB_OBJLIST_def EDB_FREELIST_SECONDARY_def)
  have st0: "st s EDB_OBJLIST = 0" using tidy_facts(3) [OF f(2), of EDB_OBJLIST] st_keys [of s EDB_OBJLIST] O by auto
  have flO: "EDB_OBJLIST \<notin> set (fl s)" using n4(4) O(1) by (auto simp: fl_fresh_def)
  have v': "3 \<le> unat v" "unat v < unat (nblocks s)" "st s v = 0" "v \<notin> set (fl s)"
    using v O(1) n4(1) st0 flO by (auto simp: old_block_def)
  obtain b1 s1 where a: "txn_modify_block os (txn_api os (Suc d)) s v = Some (0, b1, s1)" "txn_inv os m s1"
      "tpriv s1 = insert b1 (tpriv s)" "b1 \<noteq> v" "st s1 = (st s)(b1 := v)" "objlist s1 = objlist s"
      "\<forall>c. unat c < unat (nblocks s) \<longrightarrow> c \<notin> {EDB_FREELIST_SECONDARY, b1} \<longrightarrow> blk s1 c = blk s c"
    using txn_modify_cow [OF f(1) room v', of d] by blast
  have e: "err = 0" "b1 = b" "s1 = s'" using r a(1) by (simp_all add: edb_modify_block_def)
  have v0: "v \<noteq> 0" using v'(1) by auto
  note bk = cow_books [OF f(1) room v0 v'(3,2) a(1)]
  obtain s2 where "takes m s b1 s2" "nblocks s1 = nblocks s2" "fl s1 = fl s2" using bk(2) by blast
  then have t: "4 \<le> unat b1" "st s b1 = 0" "unat (nblocks s) \<le> unat (nblocks s1)"
    "\<And>c. c \<noteq> EDB_FREELIST_SECONDARY \<Longrightarrow> cowed (st s c) \<Longrightarrow> st s c \<noteq> b1"
    "b1 \<in> set (fl s) \<or> unat (nblocks s) \<le> unat b1"
    "\<And>c. c \<in> set (fl s1) \<Longrightarrow> c \<in> set (fl s) \<or> unat (nblocks s) \<le> unat c"
    by (auto simp: takes_def word_le_nat_alt)
  let ?s = "s1\<lparr>objlist := objlist s''\<rparr>"
  have s'': "s'' = ?s" "objlist s'' = (if v = EDB_OBJLIST then b1 else objlist s)"
    using o e a(6) by simp_all
  have d: "data ?s = data s1" "txn ?s = txn s1" "nblocks ?s = nblocks s1" by simp_all
  have fls: "fl ?s = fl s1" "txn_inv os m ?s" "tpriv ?s = tpriv s1" "st ?s = st s1"
    "tkeys ?s = tkeys s1" "tbase ?s = tbase s1"
  proof -
    have fo: "fl_ok s1" using a(2) by (simp add: txn_inv_def)
    have bo: "block_ok ?s EDB_FREELIST_SECONDARY" using fo by (simp add: fl_ok_def)
    note ff = fl_frame [OF fo bo data_frame(1) [OF d(1)]]
    show "fl ?s = fl s1" by (rule ff(2))
    show st: "st ?s = st s1" "tkeys ?s = tkeys s1" "tbase ?s = tbase s1"
      by (simp_all add: st_def tkeys_def tbase_def fun_eq_iff)
    show "tpriv ?s = tpriv s1" by (simp add: tpriv_def st(1))
    show "txn_inv os m ?s"
      using a(2) ff by (simp add: txn_inv_def file_ok_def table_ok_def states_ok_def fl_fresh_def st(1))
  qed
  have N: "(2 :: nat) ^ m \<le> 4096" by (rule two_power_12 [OF n4(3)])
  have y: "tidy ?s"
  proof (rule tidy_add [OF f(2,1) _ t(1,2) _ _ _ t(4)])
    show "tkeys ?s = insert b1 (tkeys s)" using bk(1) fls(5) by (simp add: books_def)
    show "st ?s = (st s)(b1 := v)" using a(5) fls(4) by simp
    show "objlist ?s = (if v = EDB_OBJLIST then b1 else objlist s)" using s''(2) by simp
    show "v = ALLOCATED \<or> v = EDB_OBJLIST \<and> objlist s = EDB_OBJLIST \<or>
      4 \<le> unat v \<and> unat v < 4096 \<and> st s v = 0 \<and> (\<forall>c. st s c \<noteq> v) \<and> v \<noteq> b1"
      using v a(4) v'(2) n4(2) N by (auto simp: old_block_def)
  qed
  have "isolated os m s0 ?s"
  proof (rule isolated_step [OF s fls(2) y])
    show "tbase ?s = tbase s" using bk(1) fls(6) by (simp add: books_def)
    show "unat (nblocks s) \<le> unat (nblocks ?s)" using t(3) by simp
    show "c \<in> tpriv s \<union> set (fl s) \<or> unat (nblocks s) \<le> unat c" if "c \<in> tpriv ?s \<union> set (fl ?s)" for c
      using that a(3) t(5,6) fls(1,3) by auto
    show "blk ?s c = blk s c" if "unat c < unat (nblocks s)" "c \<noteq> EDB_FREELIST_SECONDARY"
      "c \<notin> tpriv s \<union> set (fl s)" for c
      using that a(7) t(5) data_frame(1) [OF d(1), of c] by auto
  qed
  then show ?thesis using e s''(1) by simp
qed

lemma write_isolated:
  assumes s: "isolated os m s0 s" and b: "b \<in> tpriv s" and w: "writes_only s s' b"
  shows "isolated os m s0 s'"
proof -
  note f = isolated_facts [OF s]
  note i = txn_inv_writes [OF f(1) b w]
  note wf = writes_only_fields [OF w]
  have bS: "b \<noteq> EDB_FREELIST_SECONDARY" using b by (auto simp: tpriv_def)
  have fo: "fl_ok s" "fl_ok s'" using f(1) i(1) by (simp_all add: txn_inv_def)
  have bo: "block_ok s' EDB_FREELIST_SECONDARY" using fo(2) by (simp add: fl_ok_def)
  have same: "blk s' c = blk s c" if "c \<noteq> b" for c using writes_only_blk [OF w] that by metis
  have fl: "fl s' = fl s" by (rule fl_frame(2) [OF fo(1) bo]) (use same bS in metis)
  have k: "st s' = st s" "tkeys s' = tkeys s" "tbase s' = tbase s" "objlist s' = objlist s"
    using wf st_txn [of s' s] by (simp_all add: tkeys_def tbase_def)
  have y: "tidy s'" using f(2) by (simp add: tidy_def k)
  show ?thesis
  proof (rule isolated_step [OF s i(1) y k(3)])
    show "unat (nblocks s) \<le> unat (nblocks s')" using wf by simp
    show "c \<in> tpriv s \<union> set (fl s) \<or> unat (nblocks s) \<le> unat c" if "c \<in> tpriv s' \<union> set (fl s')" for c
      using that i(2) fl by simp
    show "blk s' c = blk s c" if "c \<notin> tpriv s \<union> set (fl s)" for c using that b by (intro same) auto
  qed
qed

lemma free_isolated:
  assumes s: "isolated os m s0 s" "m \<le> 10" and b: "b \<in> tpriv s" "b \<noteq> objlist s"
    and r: "edb_free_block os (Suc d) s b = Some (err, s')"
  shows "err = 0 \<and> isolated os m s0 s'"
proof -
  note f = isolated_facts [OF s(1)]
  obtain s1 where a: "txn_free_block (txn_api os (Suc d)) s b = Some (0, s1)" "txn_inv os m s1"
      "tpriv s1 = tpriv s - {b}" "fl s1 = fl s @ [b]"
      "st s1 = (if cowed (st s b) then (st s)(b := 0, st s b := FREED) else (st s)(b := 0))"
      "nblocks s1 = nblocks s" "objlist s1 = objlist s"
      "\<forall>c. c \<noteq> EDB_FREELIST_SECONDARY \<longrightarrow> blk s1 c = blk s c"
    using txn_free_ok [OF f(1) s(2) b(1), of d] by blast
  have e: "err = 0" "s1 = s'" using r a(1) by (simp_all add: edb_free_block_def)
  note bk = free_books [OF f(1) s(2) b(1) a(1)]
  have y: "tidy s1" using bk by (intro tidy_free [OF f(2,1) b _ a(5,7)]) (simp add: books_def)
  have "isolated os m s0 s1"
  proof (rule isolated_step [OF s(1) a(2) y])
    show "tbase s1 = tbase s" using bk by (simp add: books_def)
    show "unat (nblocks s) \<le> unat (nblocks s1)" using a(6) by simp
    show "c \<in> tpriv s \<union> set (fl s) \<or> unat (nblocks s) \<le> unat c" if "c \<in> tpriv s1 \<union> set (fl s1)" for c
      using that a(3,4) b(1) by auto
  qed (use a(8) in blast)
  then show ?thesis using e by simp
qed

lemma free_old_isolated:
  assumes s: "isolated os m s0 s" and v: "old_block s v"
    and r: "edb_free_block os (Suc d) s v = Some (err, s')"
  shows "err = 0 \<and> isolated os m s0 s'"
proof -
  note f = isolated_facts [OF s]
  obtain s1 where a: "txn_free_block (txn_api os (Suc d)) s v = Some (0, s1)" "txn_inv os m s1" "tidy s1"
      "tbase s1 = tbase s" "nblocks s1 = nblocks s" "tpriv s1 = tpriv s" "fl s1 = fl s"
      "\<forall>c. blk s1 c = blk s c"
    using free_old_ok [OF f v, of "txn_api os (Suc d)"] by blast
  have e: "err = 0" "s1 = s'" using r a(1) by (simp_all add: edb_free_block_def)
  have "isolated os m s0 s1"
    by (rule isolated_step [OF s a(2,3,4)]) (use a(5-8) in simp_all)
  then show ?thesis using e by simp
qed

lemma objlist_isolated:
  assumes s: "isolated os m s0 s" and room: "0 < troom m s"
    and r: "edb_modify_block os (Suc d) s (objlist s) = Some (err, b, s')"
  shows "err = 0 \<and> isolated os m s0 (s'\<lparr>objlist := b\<rparr>)"
proof (cases "objlist s = EDB_OBJLIST")
  case True
  then show ?thesis using copy_isolated [OF s room _ r] by simp
next
  case False
  note f = isolated_facts [OF s]
  have o: "4 \<le> unat (objlist s)" "st s (objlist s) = EDB_OBJLIST" using tidy_facts(1) [OF f(2)] False by auto
  then have nz: "objlist s \<noteq> 0" "st s (objlist s) \<noteq> 0" "st s (objlist s) \<noteq> FREED"
    using small_not_special [of EDB_OBJLIST] by (auto simp: EDB_OBJLIST_def)
  have "edb_modify_block os (Suc d) s (objlist s) = Some (0, objlist s, s)"
    unfolding edb_modify_block_def by (rule modify_in_place [OF f(1) nz])
  moreover have "s\<lparr>objlist := objlist s\<rparr> = s" by (cases s) simp
  ultimately show ?thesis using r s by simp
qed

lemma step_isolated:
  assumes "client_step os m d s s'" and "isolated os m s0 s" and "m \<le> 10"
  shows "isolated os m s0 s'"
  using assms
proof (induction rule: client_step.induct)
  case step_alloc then show ?case using alloc_isolated by blast
next
  case (step_copy s v err b s')
  have "v \<noteq> EDB_OBJLIST" using step_copy(2) by (auto simp: old_block_def)
  then show ?case using copy_isolated [OF step_copy(4,1) _ step_copy(3)] step_copy(2) by simp
next
  case step_objlist then show ?case using objlist_isolated by blast
next
  case step_write then show ?case using write_isolated by blast
next
  case step_free then show ?case using free_isolated by blast
next
  case step_free_old then show ?case using free_old_isolated by blast
qed

lemma steps_isolated:
  "client_steps os m d s s' \<Longrightarrow> isolated os m s0 s \<Longrightarrow> m \<le> 10 \<Longrightarrow> isolated os m s0 s'"
  by (induction rule: client_steps.induct) (auto intro: step_isolated)

lemma begin_isolated:
  assumes os: "os_ok os" "m \<le> 12" and db: "db_ok m s0" and r: "txn_begin api s0 = Some (err, s)"
  shows "err = 0 \<and> isolated os m s0 s"
proof -
  obtain s' where b: "txn_begin api s0 = Some (0, s')" "txn_inv os m s'" "fl s' = prim s0" "tpriv s' = {}"
      "nblocks s' = nblocks s0" "objlist s' = EDB_OBJLIST" "tbase s' = nblocks s0"
      "st s' = (\<lambda>_. 0)(EDB_FREELIST_SECONDARY := EDB_FREELIST_PRIMARY)" "tkeys s' = {EDB_FREELIST_SECONDARY}"
      "\<forall>c. c \<noteq> EDB_FREELIST_SECONDARY \<longrightarrow> blk s' c = blk s0 c"
    using begin_ok [OF os db, of api] by blast
  then have e: "err = 0" "s' = s" using r by simp_all
  have O: "EDB_OBJLIST \<noteq> 0" "EDB_OBJLIST \<noteq> EDB_FREELIST_SECONDARY" "EDB_OBJLIST \<noteq> EDB_FREELIST_PRIMARY"
    by (simp_all add: EDB_OBJLIST_def EDB_FREELIST_SECONDARY_def EDB_FREELIST_PRIMARY_def)
  have "tidy s'" using b(6,8,9) O by (auto simp: tidy_def cowed_def)
  then have "isolated os m s0 s'" using b by (auto simp: isolated_def)
  then show ?thesis using e by simp
qed

end
