(* ===== verification/Txn_Sessions.thy ===== *)
theory Txn_Sessions
  imports Txn_Client
begin

text \<open>
  Transactions through the public interface: a transaction from its begin on, what a commit
  keeps, and the array operations of \<open>array.c\<close> over the block API of \<open>txn.c\<close>.  The
  \<open>example_\<close> lemmas show concrete states: a new file, its first transaction, its first
  array, a second transaction.
\<close>

subsection \<open>A new file and its first transaction\<close>

lemma example_begin:
  "\<exists>s0 s. edb_open good_os ''db'' False True = Some (0, Some s0) \<and> db_ok 10 s0 \<and> prim s0 = [] \<and>
     nblocks s0 = 4 \<and> txn_begin api s0 = Some (0, s) \<and> txn_inv good_os 10 s \<and> tpriv s = {} \<and>
     troom 10 s = 1020 \<and> fl s = [] \<and> nblocks s = 4 \<and> objlist s = EDB_OBJLIST \<and>
     st s = (\<lambda>_. 0)(EDB_FREELIST_SECONDARY := EDB_FREELIST_PRIMARY) \<and> readonly s0 = False \<and> readonly s = False"
proof -
  obtain s0 where s0: "edb_open good_os ''db'' False True = Some (0, Some s0)" "db_ok 10 s0"
      "prim s0 = []" "nblocks s0 = 4"
    using open_good [of 10] by auto
  obtain s where s: "txn_begin api s0 = Some (0, s)" "txn_inv good_os 10 s" "fl s = prim s0" "tpriv s = {}"
      "nblocks s = nblocks s0" "objlist s = EDB_OBJLIST"
      "st s = (\<lambda>_. 0)(EDB_FREELIST_SECONDARY := EDB_FREELIST_PRIMARY)"
    using begin_ok [of good_os 10 s0 api] s0 by auto
  have r: "\<not> readonly s0" "\<not> readonly s" using s0(2) s(2) by (auto simp: db_ok_def txn_inv_def file_ok_def)
  have len: "length (fl s) = 0" using s(3) s0(3) by (metis list.size(3))
  have "troom 10 s = 1020" unfolding troom_def len s(5) s0(4) by simp
  then show ?thesis using s0 s r by (intro exI [of _ s0] exI [of _ s]) simp
qed

text \<open>A transaction in which a block has been allocated and made an empty array of u32\<close>

lemma example_array:
  "\<exists>s0 s b s1 s2. edb_open good_os ''db'' False True = Some (0, Some s0) \<and>
     txn_begin api s0 = Some (0, s) \<and> edb_allocate_block good_os (Suc d) s = Some (0, b, s1) \<and>
     array_init s1 b 4 = Some (0, s2) \<and> txn_inv good_os 10 s2 \<and> arr_ok (tpriv s2) s2 b \<and>
     arr s2 b = [] \<and> isz s2 b = 4 \<and> pt_n s2 b = 0 \<and> 1000 \<le> troom 10 s2"
proof -
  obtain s0 s where s: "edb_open good_os ''db'' False True = Some (0, Some s0)" "txn_begin api s0 = Some (0, s)"
      "txn_inv good_os 10 s" "troom 10 s = 1020"
    using example_begin [of api] by blast
  obtain b s1 where s1: "txn_allocate_block good_os (txn_api good_os (Suc d)) s = Some (0, b, s1)"
      "txn_inv good_os 10 s1" "tpriv s1 = insert b (tpriv s)" "troom 10 s \<le> Suc (troom 10 s1)"
    using txn_allocate_ok [OF s(3), of d] s(4) by auto
  have b: "b \<in> tpriv s1" using s1(3) by simp
  obtain s2 where s2: "array_init s1 b 4 = Some (0, s2)" "writes_only s1 s2 b" "arr_ok (tpriv s1) s2 b"
      "arr s2 b = []" "isz s2 b = unat (4 :: u8)" "pt_n s2 b = 0"
    using array_init_ok [OF tpriv_block_ok [OF s1(2) b], of 4 "tpriv s1"] b by auto
  note w = txn_inv_writes [OF s1(2) b s2(2)]
  show ?thesis
    using s(1,2,4) s1(1,4) s2 w by (intro exI [of _ s0] exI [of _ s] exI [of _ b] exI [of _ s1] exI [of _ s2])
      (simp add: edb_allocate_block_def)
qed


text \<open>A push takes at most two blocks from the freelist: a data page and an index page\<close>

context block_alloc begin

lemma push_cost_two:
  assumes "arr_ok P s root" shows "push_cost s root \<le> 2"
proof (cases "alen s root < acap s root")
  case True then show ?thesis by (simp add: push_cost_def)
next
  case False
  have sz: "0 < isz s root" and full: "alen s root = acap s root"
    using assms False by (simp_all add: arr_ok_defs)
  show ?thesis
  proof (cases "pt_n s root = 0")
    case True
    have "Suc (small s root) \<le> 2 * ipb s root" using ipb_bounds [OF sz] by linarith
    then have "blocks_for s root (Suc (acap s root)) \<le> 2"
      using blocks_for_bounds(2) [OF sz, of "Suc (acap s root)" 2] True by (simp add: acap_def)
    then show ?thesis using True False full by (simp add: push_cost_def grow_cost_def)
  next
    case n: False
    have i: "0 < ipb s root" by (rule ipb_bounds(1) [OF sz])
    have "blocks_for s root (Suc (acap s root)) \<le> Suc (pt_n s root)"
      using i n by (intro blocks_for_bounds(2) [OF sz]) (simp add: acap_def)
    moreover have "pt_n s root < blocks_for s root (Suc (acap s root))"
      using n by (intro blocks_for_bounds(3) [OF sz]) (simp add: acap_def)
    ultimately have b: "blocks_for s root (Suc (acap s root)) = Suc (pt_n s root)" by simp
    have "n_index (Suc (pt_n s root)) \<le> Suc (n_index (pt_n s root))"
      by (simp add: n_index_def)
    then show ?thesis using False full b by (simp add: push_cost_def grow_cost_def)
  qed
qed

end

subsection \<open>Arrays in a transaction\<close>

lemma txn_array_push:
  assumes s: "txn_inv os m s" "arr_ok (tpriv s) s root" "alen s root < PT_MAX * ipb s root" "2 \<le> troom m s"
    and d: "isz s root \<le> length d"
  shows "\<exists>s'. array_push (txn_api os (Suc (Suc k))) s root d = Some (0, s') \<and> txn_inv os m s' \<and>
    arr_ok (tpriv s') s' root \<and> isz s' root = isz s root \<and> arr s' root = arr s root @ [take (isz s root) d] \<and>
    (\<forall>c \<in> tpriv s - afoot s root. blk s' c = blk s c)"
proof -
  have "ta.push_cost s root \<le> troom m s" using ta.push_cost_two [OF s(2)] s(4) by linarith
  from ta.array_push_step [OF s(1-3) this d, of k] show ?thesis unfolding ta.arr_step_def by blast
qed

lemma txn_array_pop:
  assumes s: "txn_inv os m s" "arr_ok (tpriv s) s root"
  shows "array_pop (txn_api os (Suc (Suc k))) s root = (if arr s root = [] then Some (ERR_ARRAY_INDEX_OUT_OF_BOUNDS, [], s)
      else Some (0, last (arr s root), drop_last s root))"
    "arr s root \<noteq> [] \<Longrightarrow> txn_inv os m (drop_last s root)"
    "arr s root \<noteq> [] \<Longrightarrow> arr_ok (tpriv (drop_last s root)) (drop_last s root) root"
    "arr s root \<noteq> [] \<Longrightarrow> arr (drop_last s root) root = butlast (arr s root)"
proof -
  have ip: "in_place (txn_api os (Suc (Suc k))) (tpriv s) s root" for k by (rule ta.in_place_priv [OF s])
  have e: "arr s root = [] \<longleftrightarrow> alen s root = 0" unfolding length_0_conv [symmetric] by simp
  show "array_pop (txn_api os (Suc (Suc k))) s root = (if arr s root = [] then Some (ERR_ARRAY_INDEX_OUT_OF_BOUNDS, [], s)
      else Some (0, last (arr s root), drop_last s root))"
    using array_pop_ok [OF ip] by (simp add: e)
  show "txn_inv os m (drop_last s root)" "arr_ok (tpriv (drop_last s root)) (drop_last s root) root"
    "arr (drop_last s root) root = butlast (arr s root)" if ne: "arr s root \<noteq> []"
  proof -
    have p: "array_pop (txn_api os (Suc (Suc 0))) s root = Some (0, last (arr s root), drop_last s root)"
      using array_pop_ok [OF ip [of 0]] ne e by simp
    then show "txn_inv os m (drop_last s root)" "arr_ok (tpriv (drop_last s root)) (drop_last s root) root"
        "arr (drop_last s root) root = butlast (arr s root)"
      using ta.array_pop_step [OF s, of 0] ne e unfolding ta.arr_step_def by auto
  qed
qed

lemma txn_array_get:
  assumes s: "txn_inv os m s" "arr_ok (tpriv s) s root"
  shows "array_get (txn_api os (Suc (Suc k))) s root i = (if unat i < length (arr s root)
    then Some (0, arr s root ! unat i, s) else Some (ERR_ARRAY_INDEX_OUT_OF_BOUNDS, [], s))"
  using array_get_ok [OF ta.in_place_priv [OF s, of k]] by simp

lemma txn_array_set:
  assumes "txn_inv os m s" and "arr_ok (tpriv s) s root" and "isz s root \<le> length d"
  shows "\<exists>err s'. array_set (txn_api os (Suc (Suc k))) s root i d = Some (err, s') \<and>
      (if unat i < length (arr s root)
       then err = 0 \<and> txn_inv os m s' \<and> arr_ok (tpriv s') s' root \<and>
         arr s' root = (arr s root)[unat i := take (isz s root) d] \<and>
         (\<forall>c \<in> tpriv s - afoot s root. blk s' c = blk s c)
       else err = ERR_ARRAY_INDEX_OUT_OF_BOUNDS \<and> s' = s)"
proof (cases "unat i < alen s root")
  case True
  then show ?thesis
    using ta.array_set_step [OF assms(1,2) True assms(3), of k] unfolding ta.arr_step_def by auto
next
  case False
  then show ?thesis
    using array_set_eq [OF ta.in_place_priv [OF assms(1,2), of k] assms(3), of i] by (simp del: txn_api.simps)
qed

lemma example_item:
  "\<exists>s b. txn_inv good_os 10 s \<and> 900 \<le> troom 10 s \<and> arr_ok (tpriv s) s b \<and> isz s b = 4 \<and> b \<in> tpriv s \<and>
     arr s b = [[1, 2, 3, 4]]"
proof -
  obtain s b where e: "txn_inv good_os 10 s" "arr_ok (tpriv s) s b" "arr s b = []" "isz s b = 4" "1000 \<le> troom 10 s"
      "pt_n s b = 0"
    using example_array [of api 1] by blast
  have r: "alen s b < acap s b" using e(3,4,6) length_arr [of s b] by (simp add: acap_def small_def del: length_arr)
  obtain s' where s': "ta.arr_step good_os 10 b s s'" "troom 10 s' = troom 10 s"
      "arr s' b = arr s b @ [take (isz s b) [1, 2, 3, 4]]"
    using ta.array_push_room_step [OF e(1,2) r, of "[1, 2, 3, 4]"] e(4) by auto
  then have "txn_inv good_os 10 s'" "arr_ok (tpriv s') s' b" "isz s' b = isz s b"
    unfolding ta.arr_step_def by blast+
  moreover have "b \<in> tpriv s'" using calculation(2) by (simp add: arr_ok_defs)
  ultimately show ?thesis using s'(2,3) e(3,4,5) by (intro exI [of _ s'] exI [of _ b]) simp
qed

subsection \<open>Transactions\<close>

lemma edb_begin_ok: "db_ok m s \<Longrightarrow> edb_txn_begin api s = txn_begin api s"
  by (simp add: edb_txn_begin_def db_ok_def file_ok_def)

lemma edb_end_ok:
  assumes "txn_inv os m s"
  shows "edb_txn_commit api s = txn_commit api s" "edb_txn_abort os api s = txn_abort os api s"
  using assms by (simp_all add: edb_txn_commit_def edb_txn_abort_def txn_inv_def file_ok_def)

text \<open>A transaction from its begin on\<close>

lemma transaction_steps:
  assumes os: "os_ok os" "m \<le> 10" and db: "db_ok m s0"
  shows "\<exists>s. edb_txn_begin api s0 = Some (0, s) \<and> 
    (\<forall>s'. client_steps os m d s s' \<longrightarrow> isolated os m s0 s')"
proof -
  have m: "m \<le> 12" using os by simp
  obtain s where s: "txn_begin api s0 = Some (0, s)" using begin_ok [OF os(1) m db] by blast
  have "isolated os m s0 s" using begin_isolated [OF os(1) m db s] by simp
  then show ?thesis using s edb_begin_ok [OF db, of api] steps_isolated [OF _ _ os(2)] by auto
qed

lemma isolatedD:
  assumes "isolated os m s0 s"
  shows "txn_inv os m s" "tidy s" "tbase s = nblocks s0" "unat (nblocks s0) \<le> unat (nblocks s)"
    "\<And>b. b \<in> tpriv s \<or> b \<in> set (fl s) \<Longrightarrow> b \<in> set (prim s0) \<or> unat (nblocks s0) \<le> unat b"
    "\<And>c. unat c < unat (nblocks s0) \<Longrightarrow> c \<noteq> EDB_FREELIST_SECONDARY \<Longrightarrow> c \<notin> set (prim s0) \<Longrightarrow>
        blk s c = blk s0 c"
  using assms unfolding isolated_def by blast+

text \<open>A first transaction that allocates a block\<close>

lemma example_steps:
  "\<exists>s0 s b s'. db_ok 10 s0 \<and> edb_txn_begin api s0 = Some (0, s) \<and> client_steps good_os 10 d s s' \<and>
     b \<in> tpriv s' \<and> 0 < troom 10 s' \<and> nblocks s0 = 4 \<and> prim s0 = [] \<and> objlist s' = EDB_OBJLIST \<and>
     1000 \<le> troom 10 s'"
proof -
  obtain s0 s where s: "db_ok 10 s0" "nblocks s0 = 4" "prim s0 = []" "txn_begin api s0 = Some (0, s)"
      "txn_inv good_os 10 s" "troom 10 s = 1020" "objlist s = EDB_OBJLIST" using example_begin [of api] by blast
  obtain b s' where s': "txn_allocate_block good_os (txn_api good_os (Suc d)) s = Some (0, b, s')"
      "tpriv s' = insert b (tpriv s)" "objlist s' = objlist s" "troom 10 s \<le> Suc (troom 10 s')"
    using txn_allocate_ok [OF s(5), of d] s(6) by auto
  have "client_step good_os 10 d s s'"
    using s(6) s'(1) by (intro step_alloc) (simp_all add: edb_allocate_block_def)
  then have "client_steps good_os 10 d s s'" by (rule steps_more [OF steps_none])
  then show ?thesis using s(1-4,6,7) s'(2-4) edb_begin_ok [OF s(1), of api]
    by (intro exI [of _ s0] exI [of _ s] exI [of _ b] exI [of _ s']) simp
qed

text \<open>A commit does not release the blocks that the transaction wrote\<close>

lemma private_kept:
  assumes s: "txn_inv os m s" "m \<le> 10" and b: "b \<in> tpriv s" "b \<noteq> objlist s"
  shows "b \<notin> set (fl s) \<union> released s"
proof
  assume "b \<in> set (fl s) \<union> released s"
  then have r: "b \<in> released s" using fl_room(1) [OF s b(1)] by blast
  have st: "st s b \<noteq> 0" "st s b \<noteq> FREED" using b(1) by (simp_all add: tpriv_def)
  obtain c where "c \<noteq> EDB_FREELIST_SECONDARY" "cowed (st s c)" "st s c = b"
    using r b(2) st by (auto simp: released_def split: if_splits)
  then have "st s b = 0 \<or> st s b = FREED" using s(1) by (auto simp: txn_inv_def states_ok_def)
  then show False using st by blast
qed

text \<open>A database with a block in use: one that a first transaction allocated and committed\<close>

lemma example_old_block:
  "\<exists>s0 b s. db_ok 10 s0 \<and> txn_begin api s0 = Some (0, s) \<and> isolated good_os 10 s0 s \<and>
     old_block s b \<and> 0 < troom 10 s \<and> 1000 \<le> troom 10 s"
proof -
  obtain z z1 b z2 where e: "db_ok 10 z" "edb_txn_begin api z = Some (0, z1)"
      "client_steps good_os 10 1 z1 z2" "b \<in> tpriv z2" "1000 \<le> troom 10 z2" "objlist z2 = EDB_OBJLIST"
    using example_steps [of api 1] by blast
  have i: "isolated good_os 10 z z2"
    using transaction_steps [OF good_os(1) _ e(1), of api 1] e(2,3) by auto
  note z2 = isolatedD(1,2) [OF i]
  obtain s0 where c: "db_ok 10 s0" "set (prim s0) = set (fl z2) \<union> released z2" "nblocks s0 = nblocks z2"
    using commit_ok [OF z2(1) _ z2(2), of 1] by auto
  obtain s where s: "txn_begin api s0 = Some (0, s)" "txn_inv good_os 10 s" "fl s = prim s0" "nblocks s = nblocks s0"
      "st s = (\<lambda>_. 0)(EDB_FREELIST_SECONDARY := EDB_FREELIST_PRIMARY)"
    using begin_ok [OF good_os(1) _ c(1), of api] by auto
  have b: "4 \<le> unat b" "unat b < unat (nblocks z2)" using e(4) by (simp_all add: tpriv_def)
  then have ne: "b \<noteq> EDB_FREELIST_SECONDARY" "b \<noteq> EDB_OBJLIST" "b \<noteq> EDB_FREELIST_PRIMARY" "b \<noteq> 0" by auto
  have "b \<notin> set (prim s0)" using private_kept [OF z2(1) _ e(4)] e(6) ne c(2) by simp
  then have "old_block s b" using b ne s(3,4,5) c(3) by (simp add: old_block_def)
  moreover have "isolated good_os 10 s0 s" using begin_isolated [OF good_os(1) _ c(1) s(1)] by simp
  moreover have "1000 \<le> troom 10 s"
  proof -
    have "distinct (fl z2)" "distinct (fl s)" using z2(1) s(2) by (simp_all add: txn_inv_def fl_fresh_def)
    moreover have "set (fl z2) \<subseteq> set (fl s)" using c(2) s(3) by simp
    ultimately have "length (fl z2) \<le> length (fl s)" by (metis card_mono distinct_card finite_set)
    then show ?thesis using e(5) s(4) c(3) unfolding troom_def by auto
  qed
  moreover from this have "0 < troom 10 s" by simp
  ultimately show ?thesis using c(1) s(1) by blast
qed

end
