(* ===== verification/Txn_Pages.thy ===== *)
theory Txn_Pages
  imports Txn_Sessions
begin

text \<open>
  Page tables over transactions: what a write access of \<open>page.c\<close> to a data block of an earlier
  transaction does.  The copy that \<open>edb_modify_block\<close> makes is not stored in the table.
\<close>

subsection \<open>A page table with a data block of an earlier transaction\<close>

text \<open>The table is in a block of the transaction, its entry \<open>i\<close> names \<open>v\<close>.\<close>

definition old_page :: "edb \<Rightarrow> u32 \<Rightarrow> u32 \<Rightarrow> u32 \<Rightarrow> bool" where
  "old_page s root i v \<longleftrightarrow> root \<in> tpriv s \<and> unat i < pt_n s root \<and> unat i < 512 \<and>
     host s root (unat i) = v \<and> 4 \<le> unat v \<and> unat v < unat (nblocks s) \<and> st s v = 0 \<and> v \<notin> set (fl s)"

lemma old_page_access:
  assumes s: "txn_inv os m s" and p: "old_page s root i v"
  shows "page_read_host_index s root i = Some (0, v)"
    "page_write_host_index (txn_api os (Suc d)) s root i =
      (case txn_modify_block os (txn_api os d) s v of
         None \<Rightarrow> None | Some (err, b, s') \<Rightarrow> if err \<noteq> 0 then Some (err, -1, s') else Some (0, b, s'))"
proof -
  have ok: "block_ok s root" using tpriv_block_ok [OF s] p by (simp add: old_page_def)
  have n: "\<not> w32 s root 4092 \<le> i" "w32 s root 4092 \<noteq> 0" "i < LEVEL_ONE" "w32 s root (4 * unat i) = v" "unat i < 512"
    using p by (auto simp: old_page_def pt_n_def word_le_nat_alt lt_LEVEL_ONE host_def)
  show "page_read_host_index s root i = Some (0, v)"
    using ok n by (simp add: page_read_host_index_def pt_access)
  have "txn_modify_block os (txn_api os d) s root = Some (0, root, s)"
    using tpriv_modify [OF s] p by (simp add: old_page_def)
  then show "page_write_host_index (txn_api os (Suc d)) s root i =
      (case txn_modify_block os (txn_api os d) s v of
         None \<Rightarrow> None | Some (err, b, s') \<Rightarrow> if err \<noteq> 0 then Some (err, -1, s') else Some (0, b, s'))"
    using ok n by (simp add: page_write_host_index_def pt_access split: option.split)
qed

text \<open>A block of the file is not changed by the copy, so that the table still names the original.\<close>

lemma page_copy:
  assumes s: "txn_inv os m s" "0 < troom m s" and p: "old_page s root i v"
  shows "\<exists>b s'. page_write_host_index (txn_api os (Suc (Suc d))) s root i = Some (0, b, s') \<and>
    edb_modify_block os (Suc d) s v = Some (0, b, s') \<and> txn_inv os m s' \<and> b \<noteq> v \<and> b \<notin> tpriv s \<and>
    tpriv s' = insert b (tpriv s) \<and> st s' = (st s)(b := v) \<and> blk s' b = blk s v \<and> blk s' v = blk s v \<and> blk s' root = blk s root \<and>
    v \<notin> set (fl s') \<and> unat (nblocks s) \<le> unat (nblocks s') \<and> troom m s \<le> Suc (troom m s') \<and> objlist s' = objlist s"
proof -
  have v: "3 \<le> unat v" "unat v < unat (nblocks s)" "st s v = 0" "v \<notin> set (fl s)" "v \<noteq> 0" "4 \<le> unat v"
    using p by (auto simp: old_page_def)
  have r: "root \<in> tpriv s" "unat root < unat (nblocks s)" "4 \<le> unat root" using p by (auto simp: old_page_def tpriv_def)
  obtain b s' where c: "txn_modify_block os (txn_api os (Suc d)) s v = Some (0, b, s')" "txn_inv os m s'"
      "b \<notin> tpriv s" "tpriv s' = insert b (tpriv s)" "b \<noteq> v" "blk s' b = blk s v" "st s' = (st s)(b := v)"
      "objlist s' = objlist s" "troom m s \<le> Suc (troom m s')"
      "\<forall>c. unat c < unat (nblocks s) \<longrightarrow> c \<notin> {EDB_FREELIST_SECONDARY, b} \<longrightarrow> blk s' c = blk s c"
    using txn_modify_cow [OF s v(1-4), of d] by blast
  obtain s1 where t: "takes m s b s1" "nblocks s' = nblocks s1" "fl s' = fl s1"
    using cow_books(2) [OF s v(5,3,2) c(1)] by blast
  have "v \<notin> set (fl s')" "unat (nblocks s) \<le> unat (nblocks s')"
    using t v(2,4) by (auto simp: takes_def word_le_nat_alt)
  moreover have "root \<noteq> b" using r(1) c(3) by auto
  then have "blk s' root = blk s root" "blk s' v = blk s v" using c(5,10) r(2,3) v(2,6) by auto
  ultimately show ?thesis using c old_page_access(2) [OF s(1) p, of "Suc d"]
    by (intro exI [of _ b] exI [of _ s']) (simp add: edb_modify_block_def)
qed

lemma old_page_cong:
  assumes p: "old_page s root i v" and blk: "blk t root = blk s root" and r: "root \<in> tpriv t"
    and v: "unat v < unat (nblocks t)" "st t v = 0" "v \<notin> set (fl t)"
  shows "old_page t root i v"
proof -
  have "pt_n t root = pt_n s root" using blk_w32 [OF blk, of 4092] by (simp add: pt_n_def)
  moreover have "host t root (unat i) = host s root (unat i)"
    using p blk_w32 [OF blk, of "4 * unat i"] by (simp add: old_page_def host_def)
  ultimately show ?thesis using p r v unfolding old_page_def by simp
qed

lemma page_copy_page:
  assumes s: "txn_inv os m s" "0 < troom m s" and p: "old_page s root i v"
    and w: "page_write_host_index (txn_api os (Suc (Suc d))) s root i = Some (0, b, s')"
  shows "old_page s' root i v"
proof -
  obtain b' s'' where c: "page_write_host_index (txn_api os (Suc (Suc d))) s root i = Some (0, b', s'')"
    "tpriv s'' = insert b' (tpriv s)" "st s'' = (st s)(b' := v)" "blk s'' root = blk s root" "b' \<noteq> v"
    "v \<notin> set (fl s'')" "unat (nblocks s) \<le> unat (nblocks s'')"
    using page_copy [OF s p, of d] by blast
  have "s'' = s'" using w c(1) by simp
  then show ?thesis using c p by (intro old_page_cong [OF p]) (auto simp: old_page_def)
qed

text \<open>What is written to the copy is not seen through the table.\<close>

lemma old_page_writes:
  assumes s: "txn_inv os m s" and p: "old_page s root i v" and b: "b \<in> tpriv s" "b \<noteq> root" "b \<noteq> v"
    and w: "writes_only s t b"
  shows "txn_inv os m t" "troom m t = troom m s" "old_page t root i v" "blk t v = blk s v"
proof -
  note k = txn_inv_writes [OF s b(1) w]
  show "txn_inv os m t" "troom m t = troom m s" by (rule k(1), rule k(3))
  show "blk t v = blk s v" using writes_only_blk [OF w b(3)] .
  have bS: "b \<noteq> EDB_FREELIST_SECONDARY" using b(1) by (auto simp: tpriv_def)
  have fo: "fl_ok s" "fl_ok t" using s k(1) by (simp_all add: txn_inv_def)
  have bo: "block_ok t EDB_FREELIST_SECONDARY" using fo(2) by (simp add: fl_ok_def)
  have fl: "fl t = fl s" using fl_frame(2) [OF fo(1) bo] writes_only_blk [OF w bS] .
  show "old_page t root i v"
    using p fl k(2) writes_only_fields [OF w] st_txn [of t s] writes_only_blk [OF w b(2)]
    by (intro old_page_cong [OF p]) (auto simp: old_page_def)
qed

lemma page_read_eq:
  assumes "block_ok t root" "blk t root = blk s root" "old_page s root i v"
  shows "page_read_host_index t root i = Some (0, v)"
proof -
  have n: "\<not> w32 s root 4092 \<le> i" "w32 s root 4092 \<noteq> 0" "i < LEVEL_ONE" "w32 s root (4 * unat i) = v" "unat i < 512"
    using assms(3) by (auto simp: old_page_def pt_n_def word_le_nat_alt lt_LEVEL_ONE host_def)
  have "w32 t root 4092 = w32 s root 4092" "w32 t root (4 * unat i) = w32 s root (4 * unat i)"
    using n(5) by (simp_all add: blk_w32 [OF assms(2)])
  then show ?thesis using assms(1) n by (simp add: page_read_host_index_def pt_access)
qed

lemma released_copy:
  assumes "st s b = v" "4 \<le> unat v" "unat v \<le> 4096" "b \<noteq> EDB_FREELIST_SECONDARY" "b \<noteq> objlist s"
  shows "v \<in> released s"
proof -
  have "v \<noteq> 0" "v \<noteq> EDB_OBJLIST" using assms(2) by auto
  then have "cowed (st s b)" using small_not_special(3) [OF assms(3)] assms(1) by simp
  then show ?thesis using assms(1,4,5) unfolding released_def by (auto intro!: exI [of _ b])
qed

text \<open>A page table in a first block of the second transaction, with one block of the first as its only page\<close>

lemma example_old_page:
  "\<exists>s0 s r v. isolated good_os 10 s0 s \<and> old_page s r 0 v \<and> old_block s v \<and> r \<noteq> objlist s \<and> 2 \<le> troom 10 s"
proof -
  obtain s0 v s where e: "isolated good_os 10 s0 s" "old_block s v" "1000 \<le> troom 10 s"
    using example_old_block [of "txn_api good_os 2"] by blast
  note i = isolatedD(1,2) [OF e(1)]
  have v: "unat v < unat (nblocks s)" "st s v = 0" "v \<notin> set (fl s)" "4 \<le> unat v" "\<forall>b. st s b \<noteq> v"
    using e(2) by (simp_all add: old_block_def)
  have room: "0 < troom 10 s" using e(3) by simp
  obtain r s1 where a: "txn_allocate_block good_os (txn_api good_os (Suc 0)) s = Some (0, r, s1)"
      "r \<notin> tpriv s" "tpriv s1 = insert r (tpriv s)" "troom 10 s \<le> Suc (troom 10 s1)" "objlist s1 = objlist s"
      "st s1 = (st s)(r := ALLOCATED)" "r \<in> set (fl s) \<or> unat (nblocks s) \<le> unat r"
    using txn_allocate_ok [OF i(1) room, of 0] by blast
  obtain s1' where t: "takes 10 s r s1'" "nblocks s1 = nblocks s1'" "fl s1 = fl s1'"
    using alloc_books(2) [OF i(1) room a(1)] by blast
  have "edb_allocate_block good_os (Suc 0) s = Some (0, r, s1)" using a(1) by (simp add: edb_allocate_block_def)
  from alloc_isolated [OF e(1) room this] have iso: "isolated good_os 10 s0 s1" by simp
  note j = isolatedD(1,2) [OF iso]
  have r: "r \<in> tpriv s1" "v \<noteq> r" "4 \<le> unat r" using a(3,7) v(1,3) t(1) by (auto simp: takes_def)
  define t where "t = set32 (set32 s1 r 4092 1) r 0 v"
  have w: "writes_only s1 t r" unfolding t_def by (intro writes_only_step writes_only_refl) simp_all
  note k = txn_inv_writes [OF j(1) r(1) w]
  note f = writes_only_fields [OF w]
  have n: "unat (nblocks s) \<le> unat (nblocks t)" "v \<notin> set (fl s1)"
    using t(1,2,3) v(1,3) f by (auto simp: takes_def word_le_nat_alt)
  have rS: "r \<noteq> EDB_FREELIST_SECONDARY" using r(3) by auto
  have fo: "fl_ok s1" "fl_ok t" using j(1) k(1) by (simp_all add: txn_inv_def)
  have bo: "block_ok t EDB_FREELIST_SECONDARY" using fo(2) by (simp add: fl_ok_def)
  have fl: "fl t = fl s1" using fl_frame(2) [OF fo(1) bo] writes_only_blk [OF w rS] .
  have st: "st t = (st s)(r := ALLOCATED)" using st_writes [OF w] a(6) by simp
  have "v \<noteq> ALLOCATED"
  proof
    assume "v = ALLOCATED"
    moreover have "unat (nblocks s) \<le> 2 ^ 10" using i(1) by (simp add: txn_inv_def)
    ultimately show False using v(1) by (simp add: ALLOCATED_def)
  qed
  then have ob: "old_block t v" using v n fl st r(2) by (auto simp: old_block_def)
  have "pt_n t r = 1" "host t r 0 = v" by (simp_all add: pt_n_def host_def t_def)
  then have "old_page t r 0 v" using ob r(1) k(2) by (simp add: old_page_def old_block_def)
  moreover have "r \<noteq> objlist t"
  proof
    assume "r = objlist t"
    then have "st s1 r = EDB_OBJLIST" using tidy_facts(1) [OF j(2)] f r(3) by auto
    then show False using a(6) by (simp add: ALLOCATED_def EDB_OBJLIST_def)
  qed
  moreover have "2 \<le> troom 10 t" using k(3) a(4) e(3) by simp
  ultimately show ?thesis using write_isolated [OF iso r(1) w] ob by blast
qed

end
