(* ===== verification/Btree.thy ===== *)
theory Btree
  imports Page
begin

text \<open>
  B+ trees of 32-bit keys and values (\<open>src/src/btree.h\<close>, \<open>src/src/btree.c\<close>).  A node
  is one block: a magic number that says whether it is a leaf, the number of entries, two
  unused fields, 510 keys and 510 values.  In an internal node the values are the blocks of
  the children and the keys the greatest keys below them.

  An index into \<open>key\<close> or \<open>data\<close> is an \<open>int\<close>; an access outside the 510 entries is
  undefined.  A node pointer is computed where the code computes it, so that a use after a
  nested call that remapped the file is undefined.  The recursive functions may run forever
  on a cyclic file, so they are \<open>partial_function\<close>s: that they return on a well-formed tree
  is proved in \<open>Btree_Correct\<close>.  The output pointers of the callers are not null.
\<close>

definition EDB_BTREE_SIZE :: int where "EDB_BTREE_SIZE = 510"
definition EDB_BTREE_SPLIT :: int where "EDB_BTREE_SPLIT = drop_bit 2 EDB_BTREE_SIZE"

abbreviation EDB_ERROR_BTREE_INVALID_KEY :: int where "EDB_ERROR_BTREE_INVALID_KEY \<equiv> 3351"
abbreviation EDB_ERROR_BTREE_FULL :: int where "EDB_ERROR_BTREE_FULL \<equiv> 3352"
abbreviation EDB_ERROR_BTREE_EMPTY :: int where "EDB_ERROR_BTREE_EMPTY \<equiv> 3353"
abbreviation EDB_ERROR_BTREE_REALLY_EMPTY :: int where "EDB_ERROR_BTREE_REALLY_EMPTY \<equiv> 3354"
abbreviation EDB_ERROR_DATA_CORRUPT :: int where "EDB_ERROR_DATA_CORRUPT \<equiv> 1901"

definition EDB_MAGIC_BTREE :: u32 where "EDB_MAGIC_BTREE = 3300"
definition EDB_MAGIC_BTREE_LEAF :: u32 where "EDB_MAGIC_BTREE_LEAF = 3301"

subsection \<open>Fields of a node\<close>

definition bt_magic :: "edb \<Rightarrow> ptr \<Rightarrow> u32 option" where
  "bt_magic s bt = rd32 s bt 0"

definition bt_set_magic :: "edb \<Rightarrow> ptr \<Rightarrow> u32 \<Rightarrow> edb option" where
  "bt_set_magic s bt v = wr32 s bt 0 v"

definition bt_size :: "edb \<Rightarrow> ptr \<Rightarrow> u32 option" where
  "bt_size s bt = rd32 s bt 4"

definition bt_set_size :: "edb \<Rightarrow> ptr \<Rightarrow> u32 \<Rightarrow> edb option" where
  "bt_set_size s bt v = wr32 s bt 4 v"

definition bt_key :: "edb \<Rightarrow> ptr \<Rightarrow> int \<Rightarrow> u32 option" where
  "bt_key s bt i = do { require (0 \<le> i \<and> i < EDB_BTREE_SIZE); rd32 s bt (16 + 4 * nat i) }"

definition bt_set_key :: "edb \<Rightarrow> ptr \<Rightarrow> int \<Rightarrow> u32 \<Rightarrow> edb option" where
  "bt_set_key s bt i v = do { require (0 \<le> i \<and> i < EDB_BTREE_SIZE); wr32 s bt (16 + 4 * nat i) v }"

definition bt_data :: "edb \<Rightarrow> ptr \<Rightarrow> int \<Rightarrow> u32 option" where
  "bt_data s bt i = do { require (0 \<le> i \<and> i < EDB_BTREE_SIZE); rd32 s bt (2056 + 4 * nat i) }"

definition bt_set_data :: "edb \<Rightarrow> ptr \<Rightarrow> int \<Rightarrow> u32 \<Rightarrow> edb option" where
  "bt_set_data s bt i v = do { require (0 \<le> i \<and> i < EDB_BTREE_SIZE); wr32 s bt (2056 + 4 * nat i) v }"

text \<open>The conversion of an \<open>int\<close> to u32 in a mixed comparison, and of a u32 to \<open>int\<close>.\<close>

abbreviation to_u32 :: "int \<Rightarrow> u32" where "to_u32 i \<equiv> word_of_int i"
abbreviation to_int :: "u32 \<Rightarrow> int" where "to_int w \<equiv> sint w"

text \<open>\<open>b->key[b->self_size - 1]\<close>\<close>

definition bt_last_key :: "edb \<Rightarrow> ptr \<Rightarrow> u32 option" where
  "bt_last_key s bt = do { n \<leftarrow> bt_size s bt; bt_key s bt (uint (n - 1)) }"

text \<open>\<open>dst->key[j] = src->key[i]; dst->data[j] = src->data[i];\<close>\<close>

definition copy_entry :: "edb \<Rightarrow> ptr \<Rightarrow> int \<Rightarrow> ptr \<Rightarrow> int \<Rightarrow> edb option" where
  "copy_entry s dst j src i =
     do { k \<leftarrow> bt_key s src i;
          s \<leftarrow> bt_set_key s dst j k;
          d \<leftarrow> bt_data s src i;
          bt_set_data s dst j d }"

definition btree_init :: "edb \<Rightarrow> u32 \<Rightarrow> (int \<times> edb) option" where
  "btree_init s root =
     do { s \<leftarrow> wr_bytes s (BLOCK s root) 0 (replicate BLOCK_SIZE 0);
          s \<leftarrow> bt_set_magic s (BLOCK s root) EDB_MAGIC_BTREE_LEAF;
          s \<leftarrow> bt_set_size s (BLOCK s root) 0;
          Some (0, s) }"

definition magic_ok :: "u32 \<Rightarrow> bool" where
  "magic_ok m \<longleftrightarrow> m = EDB_MAGIC_BTREE_LEAF \<or> m = EDB_MAGIC_BTREE"

subsection \<open>Searching and moving entries in a node\<close>

partial_function (option) list_find_loop :: "edb \<Rightarrow> ptr \<Rightarrow> u32 \<Rightarrow> int \<Rightarrow> int \<Rightarrow> int option" where
  "list_find_loop s bt key b e =
     (if b < e then
        do { let m = drop_bit 1 (b + e);
             k \<leftarrow> bt_key s bt m;
             if k < key then list_find_loop s bt key (m + 1) e
             else list_find_loop s bt key b m }
      else Some b)"

declare list_find_loop.simps [code]

definition list_find :: "edb \<Rightarrow> ptr \<Rightarrow> u32 \<Rightarrow> int option" where
  "list_find s bt key = do { n \<leftarrow> bt_size s bt; list_find_loop s bt key 0 (to_int n) }"

partial_function (option) list_insert_loop :: "edb \<Rightarrow> ptr \<Rightarrow> int \<Rightarrow> int \<Rightarrow> edb option" where
  "list_insert_loop s bt i j =
     (if j < i then
        do { s \<leftarrow> copy_entry s bt i bt (i - 1); list_insert_loop s bt (i - 1) j }
      else Some s)"

declare list_insert_loop.simps [code]

definition list_insert :: "edb \<Rightarrow> ptr \<Rightarrow> int \<Rightarrow> u32 \<Rightarrow> u32 \<Rightarrow> edb option" where
  "list_insert s bt j key d =
     do { n \<leftarrow> bt_size s bt;
          s \<leftarrow> list_insert_loop s bt (to_int n) j;
          s \<leftarrow> bt_set_key s bt j key;
          s \<leftarrow> bt_set_data s bt j d;
          n \<leftarrow> bt_size s bt;
          bt_set_size s bt (n + 1) }"

partial_function (option) list_remove_loop :: "edb \<Rightarrow> ptr \<Rightarrow> int \<Rightarrow> edb option" where
  "list_remove_loop s bt j =
     do { n \<leftarrow> bt_size s bt;
          if to_u32 j < n - 1 then
            do { s \<leftarrow> copy_entry s bt j bt (j + 1); list_remove_loop s bt (j + 1) }
          else Some s }"

declare list_remove_loop.simps [code]

definition list_remove :: "edb \<Rightarrow> ptr \<Rightarrow> int \<Rightarrow> edb option" where
  "list_remove s bt j =
     do { s \<leftarrow> list_remove_loop s bt j;
          n \<leftarrow> bt_size s bt;
          s \<leftarrow> bt_set_size s bt (n - 1);
          n \<leftarrow> bt_size s bt;
          s \<leftarrow> bt_set_key s bt (uint n) 0;
          bt_set_data s bt (uint n) 0 }"

text \<open>The loops that move the upper entries of \<open>src\<close>, from \<open>i\<close> on, to \<open>dst\<close>, and append all
  entries of \<open>src\<close> to \<open>dst\<close>.\<close>

partial_function (option) split_loop :: "edb \<Rightarrow> ptr \<Rightarrow> ptr \<Rightarrow> int \<Rightarrow> int \<Rightarrow> edb option" where
  "split_loop s dst src n i =
     do { sz \<leftarrow> bt_size s src;
          if to_u32 i < sz then
            do { s \<leftarrow> copy_entry s dst (i - n) src i; split_loop s dst src n (i + 1) }
          else Some s }"

declare split_loop.simps [code]

partial_function (option) merge_loop :: "edb \<Rightarrow> ptr \<Rightarrow> ptr \<Rightarrow> int \<Rightarrow> edb option" where
  "merge_loop s dst src i =
     do { sz \<leftarrow> bt_size s src;
          if to_u32 i < sz then
            do { n \<leftarrow> bt_size s dst;
                 s \<leftarrow> copy_entry s dst (uint (n + to_u32 i)) src i;
                 merge_loop s dst src (i + 1) }
          else Some s }"

declare merge_loop.simps [code]

subsection \<open>Lookups\<close>

partial_function (option) btree_first :: "edb \<Rightarrow> u32 \<Rightarrow> (int \<times> u32 \<times> u32) option" where
  "btree_first s root =
     do { let bt = BLOCK s root;
          m \<leftarrow> bt_magic s bt;
          if \<not> magic_ok m then Some (EDB_ERROR_DATA_CORRUPT, 0, 0)
          else do { n \<leftarrow> bt_size s bt;
                    if n = 0 then Some (EDB_ERROR_BTREE_INVALID_KEY, 0, 0)
                    else if m = EDB_MAGIC_BTREE_LEAF
                    then do { k \<leftarrow> bt_key s bt 0; v \<leftarrow> bt_data s bt 0; Some (0, k, v) }
                    else do { child \<leftarrow> bt_data s bt 0;
                              (err, k, v) \<leftarrow> btree_first s child;
                              if err \<noteq> 0 then Some (err, 0, 0) else Some (0, k, v) } } }"

declare btree_first.simps [code]

partial_function (option) btree_last :: "edb \<Rightarrow> u32 \<Rightarrow> (int \<times> u32 \<times> u32) option" where
  "btree_last s root =
     do { let bt = BLOCK s root;
          m \<leftarrow> bt_magic s bt;
          if \<not> magic_ok m then Some (EDB_ERROR_DATA_CORRUPT, 0, 0)
          else do { n \<leftarrow> bt_size s bt;
                    if n = 0 then Some (EDB_ERROR_BTREE_INVALID_KEY, 0, 0)
                    else if m = EDB_MAGIC_BTREE_LEAF
                    then do { k \<leftarrow> bt_key s bt (uint (n - 1));
                              v \<leftarrow> bt_data s bt (uint (n - 1));
                              Some (0, k, v) }
                    else do { child \<leftarrow> bt_data s bt (uint (n - 1));
                              (err, k, v) \<leftarrow> btree_last s child;
                              if err \<noteq> 0 then Some (err, 0, 0) else Some (0, k, v) } } }"

declare btree_last.simps [code]

partial_function (option) btree_get :: "edb \<Rightarrow> u32 \<Rightarrow> u32 \<Rightarrow> (int \<times> u32) option" where
  "btree_get s root key =
     do { let bt = BLOCK s root;
          m \<leftarrow> bt_magic s bt;
          if \<not> magic_ok m then Some (EDB_ERROR_DATA_CORRUPT, 0)
          else do { b \<leftarrow> list_find s bt key;
                    n \<leftarrow> bt_size s bt;
                    if \<not> to_u32 b < n then Some (EDB_ERROR_BTREE_INVALID_KEY, 0)
                    else if m = EDB_MAGIC_BTREE_LEAF
                    then do { k \<leftarrow> bt_key s bt b;
                              if k \<noteq> key then Some (EDB_ERROR_BTREE_INVALID_KEY, 0)
                              else do { v \<leftarrow> bt_data s bt b; Some (0, v) } }
                    else do { child \<leftarrow> bt_data s bt b; btree_get s child key } } }"

declare btree_get.simps [code]

end
