(* ===== verification/Btree_Update.thy ===== *)
theory Btree_Update
  imports Btree
begin

text \<open>
  The operations of \<open>src/src/btree.c\<close> that change a tree: \<open>btree_grow\<close>, \<open>btree_set\<close> and
  \<open>btree_pop\<close>.  They take the block API as an argument, since a child is made private to the
  transaction before it is written.
\<close>

text \<open>The magic number that is checked is that of the block in \<open>*new_root\<close>, as in the code.\<close>

definition btree_grow :: "block_api \<Rightarrow> edb \<Rightarrow> u32 \<Rightarrow> u32 \<Rightarrow> (int \<times> u32 \<times> edb) option" where
  "btree_grow api s root new_root =
     do { m \<leftarrow> bt_magic s (BLOCK s new_root);
          if \<not> magic_ok m then Some (EDB_ERROR_DATA_CORRUPT, new_root, s)
          else do { (err, root, s) \<leftarrow> api_modify api s root;
          if err \<noteq> 0 then Some (err, new_root, s)
          else do { (err, r, s) \<leftarrow> api_alloc api s;
          if err \<noteq> 0 then Some (err, new_root, s)
          else do { let new_root = r;
                    (err, child1, s) \<leftarrow> api_alloc api s;
          if err \<noteq> 0 then Some (err, new_root, s)
          else do { (_, s) \<leftarrow> btree_init s new_root;
                    (_, s) \<leftarrow> btree_init s child1;
                    let b0 = BLOCK s root;
                    let b1 = BLOCK s child1;
                    m \<leftarrow> bt_magic s b0;
                    s \<leftarrow> bt_set_magic s b1 m;
                    sz \<leftarrow> bt_size s b0;
                    let n = to_int (drop_bit 1 sz);
                    s \<leftarrow> split_loop s b1 b0 n n;
                    sz \<leftarrow> bt_size s b0;
                    s \<leftarrow> bt_set_size s b1 (sz - to_u32 n);
                    s \<leftarrow> bt_set_size s b0 (to_u32 n);
                    let bt = BLOCK s new_root;
                    s \<leftarrow> bt_set_magic s bt EDB_MAGIC_BTREE;
                    k0 \<leftarrow> bt_last_key s b0;
                    s \<leftarrow> bt_set_key s bt 0 k0;
                    k1 \<leftarrow> bt_last_key s b1;
                    s \<leftarrow> bt_set_key s bt 1 k1;
                    s \<leftarrow> bt_set_data s bt 0 root;
                    s \<leftarrow> bt_set_data s bt 1 child1;
                    s \<leftarrow> bt_set_size s bt 2;
                    Some (0, new_root, s) } } } } }"

text \<open>
  The part of \<open>btree_set\<close> on a leaf, and the split of a full child \<open>child0\<close> at position
  \<open>b\<close>: the new sibling gets the entries from \<open>EDB_BTREE_SPLIT\<close> on.
\<close>

definition btree_set_leaf :: "edb \<Rightarrow> ptr \<Rightarrow> int \<Rightarrow> u32 \<Rightarrow> u32 \<Rightarrow> (int \<times> edb) option" where
  "btree_set_leaf s bt b key v =
     do { n \<leftarrow> bt_size s bt;
          present \<leftarrow> (if to_u32 b < n then do { k \<leftarrow> bt_key s bt b; Some (k = key) } else Some False);
          if present then do { s \<leftarrow> bt_set_data s bt b v; Some (0, s) }
          else if \<not> n < to_u32 EDB_BTREE_SIZE then Some (EDB_ERROR_BTREE_FULL, s)
          else do { s \<leftarrow> list_insert s bt b key v; Some (0, s) } }"

definition btree_split_child ::
  "block_api \<Rightarrow> edb \<Rightarrow> u32 \<Rightarrow> ptr \<Rightarrow> int \<Rightarrow> u32 \<Rightarrow> (int \<times> ptr \<times> ptr \<times> ptr \<times> edb) option"
where
  "btree_split_child api s root bt b child0 =
     do { s \<leftarrow> list_insert s bt (b + 1) 0 0;
          (err, child1, s) \<leftarrow> api_alloc api s;
          if err \<noteq> 0 then Some (err, bt, bt, bt, s)
          else do { (_, s) \<leftarrow> btree_init s child1;
                    let bt = BLOCK s root;
                    let b0 = BLOCK s child0;
                    let b1 = BLOCK s child1;
                    m \<leftarrow> bt_magic s b0;
                    s \<leftarrow> bt_set_magic s b1 m;
                    s \<leftarrow> bt_set_data s bt (b + 1) child1;
                    s \<leftarrow> split_loop s b1 b0 EDB_BTREE_SPLIT EDB_BTREE_SPLIT;
                    n \<leftarrow> bt_size s b0;
                    s \<leftarrow> bt_set_size s b1 (n - to_u32 EDB_BTREE_SPLIT);
                    s \<leftarrow> bt_set_size s b0 (to_u32 EDB_BTREE_SPLIT);
                    Some (0, bt, b0, b1, s) } }"

partial_function (option) btree_set ::
  "block_api \<Rightarrow> edb \<Rightarrow> u32 \<Rightarrow> u32 \<Rightarrow> u32 \<Rightarrow> (int \<times> edb) option"
where
  "btree_set api s root key v =
     do { let bt = BLOCK s root;
          m \<leftarrow> bt_magic s bt;
          if \<not> magic_ok m then Some (EDB_ERROR_DATA_CORRUPT, s)
          else do { b \<leftarrow> list_find s bt key;
          if m = EDB_MAGIC_BTREE_LEAF then btree_set_leaf s bt b key v
          else do { n \<leftarrow> bt_size s bt;
                    let b = (if to_u32 b = n then b - 1 else b);
                    child0 \<leftarrow> bt_data s bt b;
                    (err, child0, s) \<leftarrow> api_modify api s child0;
          if err \<noteq> 0 then Some (err, s)
          else do { let bt = BLOCK s root;
                    let b0 = BLOCK s child0;
                    s \<leftarrow> bt_set_data s bt b child0;
                    (r, s) \<leftarrow> btree_set api s child0 key v;
          if r = 0
          then do { k \<leftarrow> bt_last_key s b0; s \<leftarrow> bt_set_key s bt b k; Some (0, s) }
          else if r = EDB_ERROR_BTREE_FULL
          then do { n \<leftarrow> bt_size s bt;
                    if \<not> n < to_u32 EDB_BTREE_SIZE then Some (EDB_ERROR_BTREE_FULL, s)
                    else do { (err, bt, b0, b1, s) \<leftarrow> btree_split_child api s root bt b child0;
                    if err \<noteq> 0 then Some (err, s)
                    else do { k \<leftarrow> bt_key s bt b;
                              child \<leftarrow> bt_data s bt (if key \<le> k then b else b + 1);
                              (err, s) \<leftarrow> btree_set api s child key v;
                    if err \<noteq> 0 then Some (err, s)
                    else do { k0 \<leftarrow> bt_last_key s b0;
                              s \<leftarrow> bt_set_key s bt b k0;
                              k1 \<leftarrow> bt_last_key s b1;
                              s \<leftarrow> bt_set_key s bt (b + 1) k1;
                              Some (0, s) } } } }
          else Some (r, s) } } } }"

declare btree_set.simps [code]

subsection \<open>Removal\<close>

text \<open>The part of \<open>btree_pop\<close> on a leaf; the key at \<open>b\<close> is read also when \<open>b\<close> is the size.\<close>

definition btree_pop_leaf :: "edb \<Rightarrow> ptr \<Rightarrow> int \<Rightarrow> u32 \<Rightarrow> (int \<times> u32 \<times> edb) option" where
  "btree_pop_leaf s bt b key =
     do { k \<leftarrow> bt_key s bt b;
          if k \<noteq> key then Some (EDB_ERROR_BTREE_INVALID_KEY, 0, s)
          else do { v \<leftarrow> bt_data s bt b;
                    s \<leftarrow> list_remove s bt b;
                    n \<leftarrow> bt_size s bt;
                    Some (if n < to_u32 EDB_BTREE_SPLIT then EDB_ERROR_BTREE_EMPTY else 0, v, s) } }"

text \<open>An entry moves from the sibling \<open>b1\<close> to the child \<open>b0\<close>.\<close>

definition btree_steal ::
  "edb \<Rightarrow> ptr \<Rightarrow> ptr \<Rightarrow> ptr \<Rightarrow> int \<Rightarrow> int \<Rightarrow> bool \<Rightarrow> edb option"
where
  "btree_steal s bt b0 b1 b other merge_from_left =
     do { n1 \<leftarrow> bt_size s b1;
          s \<leftarrow> (if merge_from_left
                then do { k \<leftarrow> bt_key s b1 (uint (n1 - 1));
                          d \<leftarrow> bt_data s b1 (uint (n1 - 1));
                          s \<leftarrow> list_insert s b0 0 k d;
                          n1 \<leftarrow> bt_size s b1;
                          list_remove s b1 (to_int (n1 - 1)) }
                else do { n0 \<leftarrow> bt_size s b0;
                          k \<leftarrow> bt_key s b1 0;
                          d \<leftarrow> bt_data s b1 0;
                          s \<leftarrow> list_insert s b0 (to_int n0) k d;
                          list_remove s b1 0 });
          k0 \<leftarrow> bt_last_key s b0;
          s \<leftarrow> bt_set_key s bt b k0;
          k1 \<leftarrow> bt_last_key s b1;
          bt_set_key s bt other k1 }"

text \<open>
  The node \<open>child1\<close> is appended to its left neighbour \<open>child0\<close>, freed, and deleted from the
  parent.  The last component says whether the code returns here.
\<close>

definition btree_merge ::
  "block_api \<Rightarrow> edb \<Rightarrow> ptr \<Rightarrow> int \<Rightarrow> int \<Rightarrow> int \<Rightarrow> bool \<Rightarrow> (int \<times> bool \<times> edb) option"
where
  "btree_merge api s bt b other first merge_from_left =
     do { child0 \<leftarrow> bt_data s bt (if merge_from_left then other else b);
          child1 \<leftarrow> bt_data s bt (if merge_from_left then b else other);
          let b0 = BLOCK s child0;
          let b1 = BLOCK s child1;
          s \<leftarrow> merge_loop s b0 b1 0;
          n0 \<leftarrow> bt_size s b0;
          n1 \<leftarrow> bt_size s b1;
          s \<leftarrow> bt_set_size s b0 (n0 + n1);
          (err, s) \<leftarrow> api_free api s child1;
          if err \<noteq> 0 then Some (err, False, s)
          else do { s \<leftarrow> list_remove s bt (to_int (to_u32 first + 1));
                    k \<leftarrow> bt_last_key s b0;
                    s \<leftarrow> bt_set_key s bt first k;
                    n \<leftarrow> bt_size s bt;
                    if n < to_u32 EDB_BTREE_SPLIT then Some (EDB_ERROR_BTREE_EMPTY, True, s)
                    else Some (0, False, s) } }"

partial_function (option) btree_pop ::
  "block_api \<Rightarrow> edb \<Rightarrow> u32 \<Rightarrow> u32 \<Rightarrow> (int \<times> u32 \<times> edb) option"
where
  "btree_pop api s root key =
     do { let bt = BLOCK s root;
          m \<leftarrow> bt_magic s bt;
          if \<not> magic_ok m then Some (EDB_ERROR_DATA_CORRUPT, 0, s)
          else do { b \<leftarrow> list_find s bt key;
          if m = EDB_MAGIC_BTREE_LEAF then btree_pop_leaf s bt b key
          else do { k \<leftarrow> bt_key s bt b;
          if k < key then Some (EDB_ERROR_BTREE_INVALID_KEY, 0, s)
          else do { child0 \<leftarrow> bt_data s bt b;
                    (err, child0, s) \<leftarrow> api_modify api s child0;
          if err \<noteq> 0 then Some (err, 0, s)
          else do { let bt = BLOCK s root;
                    let b0 = BLOCK s child0;
                    s \<leftarrow> bt_set_data s bt b child0;
                    (r, v, s) \<leftarrow> btree_pop api s child0 key;
          if r = 0
          then do { k \<leftarrow> bt_last_key s b0; s \<leftarrow> bt_set_key s bt b k; Some (0, v, s) }
          else if r = EDB_ERROR_BTREE_EMPTY
          then do { n \<leftarrow> bt_size s bt;
                    if \<not> 1 < n then Some (EDB_ERROR_BTREE_REALLY_EMPTY, 0, s)
                    else do { let merge_from_left = (to_u32 (b + 1) = n);
                              let other = uint (to_u32 (if merge_from_left then b - 1 else b + 1));
                              let first = (if merge_from_left then other else b);
                              child1 \<leftarrow> bt_data s bt other;
                              (err, child0, s) \<leftarrow> api_modify api s child0;
                    if err \<noteq> 0 then Some (err, 0, s)
                    else do { (err, child1, s) \<leftarrow> api_modify api s child1;
                    if err \<noteq> 0 then Some (err, 0, s)
                    else do { let bt = BLOCK s root;
                              let b0 = BLOCK s child0;
                              let b1 = BLOCK s child1;
                              s \<leftarrow> bt_set_data s bt b child0;
                              s \<leftarrow> bt_set_data s bt other child1;
                              n1 \<leftarrow> bt_size s b1;
                    if to_u32 EDB_BTREE_SPLIT < n1
                    then do { s \<leftarrow> btree_steal s bt b0 b1 b other merge_from_left;
                              Some (0, v, s) }
                    else do { (err, ret, s) \<leftarrow> btree_merge api s bt b other first merge_from_left;
                              if ret then Some (err, v, s)
                              else if err \<noteq> 0 then Some (err, 0, s)
                              else Some (r, 0, s) } } } } }
          else Some (r, 0, s) } } } } }"

declare btree_pop.simps [code]

end
