(* ===== verification/Btree_Correct.thy ===== *)
theory Btree_Correct
  imports Btree_Update Edb_Array_Correct
begin

text \<open>
  Correctness of B+ tree nodes and lookups.  \<open>list_find\<close> returns the least index whose key is
  not below the one sought, \<open>list_insert\<close> and \<open>list_remove\<close> are insertion into and deletion
  from the lists of keys and values, and the operations on a leaf implement a map.  In a
  well-formed tree of any height \<open>btree_get\<close>, \<open>btree_first\<close> and \<open>btree_last\<close> return and
  agree with the list of its entries.
\<close>

subsection \<open>Indices\<close>

lemma to_int_small: "unat n < 2 ^ 31 \<Longrightarrow> to_int n = int (unat n)"
proof -
  assume "unat n < 2 ^ 31"
  then have "int (unat n) < int (2 ^ 31)" by (simp only: of_nat_less_iff)
  then show ?thesis
    unfolding sint_uint uint_nat using uint_ge_0 [of n]
    by (intro signed_take_bit_int_eq_self) (simp_all del: uint_ge_0 add: order_trans [of _ 0])
qed

lemma unat_to_u32: "j < 2 ^ 32 \<Longrightarrow> unat (to_u32 (int j)) = j"
  by (simp add: unat_of_nat)

lemma to_u32_less: "j < 2 ^ 32 \<Longrightarrow> to_u32 (int j) < n \<longleftrightarrow> j < unat n"
  by (simp add: word_less_nat_alt unat_of_nat)

subsection \<open>The content of a node\<close>

definition nk :: "edb \<Rightarrow> u32 \<Rightarrow> nat \<Rightarrow> u32" where "nk s b i = w32 s b (16 + 4 * i)"
definition nv :: "edb \<Rightarrow> u32 \<Rightarrow> nat \<Rightarrow> u32" where "nv s b i = w32 s b (2056 + 4 * i)"
definition nsz :: "edb \<Rightarrow> u32 \<Rightarrow> nat" where "nsz s b = unat (w32 s b 4)"
definition nm :: "edb \<Rightarrow> u32 \<Rightarrow> u32" where "nm s b = w32 s b 0"

definition keys :: "edb \<Rightarrow> u32 \<Rightarrow> u32 list" where "keys s b = map (nk s b) [0..<nsz s b]"
definition vals :: "edb \<Rightarrow> u32 \<Rightarrow> u32 list" where "vals s b = map (nv s b) [0..<nsz s b]"

definition node_ok :: "edb \<Rightarrow> u32 \<Rightarrow> bool" where
  "node_ok s b \<longleftrightarrow> block_ok s b \<and> nsz s b \<le> 510"

text \<open>The same node but for the entries and their number\<close>

definition same_node :: "edb \<Rightarrow> edb \<Rightarrow> u32 \<Rightarrow> bool" where
  "same_node s s' b \<longleftrightarrow> writes_only s s' b \<and> nm s' b = nm s b"

lemma length_keys [simp]: "length (keys s b) = nsz s b" "length (vals s b) = nsz s b"
  by (simp_all add: keys_def vals_def)

lemma nth_keys [simp]: "i < nsz s b \<Longrightarrow> keys s b ! i = nk s b i" "i < nsz s b \<Longrightarrow> vals s b ! i = nv s b i"
  by (simp_all add: keys_def vals_def)

lemma keys_Nil [simp]: "keys s b = [] \<longleftrightarrow> nsz s b = 0" "vals s b = [] \<longleftrightarrow> nsz s b = 0"
  by (simp_all add: keys_def vals_def)

lemma same_node_refl [simp]: "same_node s s b" by (simp add: same_node_def)

lemma same_node_trans: "same_node s s' b \<Longrightarrow> same_node s' s'' b \<Longrightarrow> same_node s s'' b"
  unfolding same_node_def using writes_only_trans by metis

lemma same_node_ok: "same_node s s' b \<Longrightarrow> block_ok s' c = block_ok s c \<and> epoch s' = epoch s"
  using writes_only_fields [of s s' b] by (simp add: same_node_def block_ok_def)

lemma read_node [simp]:
  assumes "block_ok s b" "epoch s = epoch s0"
  shows "bt_magic s (BLOCK s0 b) = Some (nm s b)" "bt_size s (BLOCK s0 b) = Some (w32 s b 4)"
    "i < 510 \<Longrightarrow> bt_key s (BLOCK s0 b) (int i) = Some (nk s b i)"
    "i < 510 \<Longrightarrow> bt_data s (BLOCK s0 b) (int i) = Some (nv s b i)"
  using assms
  by (simp_all add: bt_magic_def bt_size_def bt_key_def bt_data_def rd32_ok nm_def nk_def nv_def EDB_BTREE_SIZE_def)

lemma write_node [simp]:
  assumes "block_ok s b" "epoch s = epoch s0"
  shows "bt_set_size s (BLOCK s0 b) n = Some (set32 s b 4 n)"
    "bt_set_magic s (BLOCK s0 b) n = Some (set32 s b 0 n)"
    "i < 510 \<Longrightarrow> bt_set_key s (BLOCK s0 b) (int i) v = Some (set32 s b (16 + 4 * i) v)"
    "i < 510 \<Longrightarrow> bt_set_data s (BLOCK s0 b) (int i) v = Some (set32 s b (2056 + 4 * i) v)"
  using assms
  by (simp_all add: bt_set_size_def bt_set_magic_def bt_set_key_def bt_set_data_def wr32_ok EDB_BTREE_SIZE_def)

lemma node_set [simp]:
  assumes "i < 510" "j < 510"
  shows "nk (set32 s b (16 + 4 * i) v) b j = (if j = i then v else nk s b j)"
    "nv (set32 s b (16 + 4 * i) v) b j = nv s b j"
    "nk (set32 s b (2056 + 4 * i) v) b j = nk s b j"
    "nv (set32 s b (2056 + 4 * i) v) b j = (if j = i then v else nv s b j)"
    "nk (set32 s b 4 v) b j = nk s b j" "nv (set32 s b 4 v) b j = nv s b j"
    "nk (set32 s b 0 v) b j = nk s b j" "nv (set32 s b 0 v) b j = nv s b j"
  using assms by (auto simp: nk_def nv_def w32_set32_aligned)

lemma size_set [simp]:
  assumes "i < 510"
  shows "nsz (set32 s b (16 + 4 * i) v) b = nsz s b" "nsz (set32 s b (2056 + 4 * i) v) b = nsz s b"
    "w32 (set32 s b (16 + 4 * i) v) b 4 = w32 s b 4" "w32 (set32 s b (2056 + 4 * i) v) b 4 = w32 s b 4"
    "nsz (set32 s b 4 w) b = unat w" "nsz (set32 s b 0 w) b = nsz s b"
    "nm (set32 s b (16 + 4 * i) v) b = nm s b" "nm (set32 s b (2056 + 4 * i) v) b = nm s b"
    "nm (set32 s b 4 w) b = nm s b" "nm (set32 s b 0 w) b = w"
  using assms by (simp_all add: nsz_def nm_def w32_set32_aligned)

lemma same_node_set [simp]:
  assumes "i < 510"
  shows "same_node s (set32 s b (16 + 4 * i) v) b" "same_node s (set32 s b (2056 + 4 * i) v) b"
    "same_node s (set32 s b 4 v) b"
  using assms by (simp_all add: same_node_def writes_only_set nm_def w32_set32_aligned)

subsection \<open>Searching\<close>

lemma list_find_loop_ok:
  assumes s: "node_ok s b" and e: "l \<le> e" "e \<le> nsz s b"
    and lo: "\<forall>i < l. nk s b i < key" and hi: "\<forall>i. e \<le> i \<longrightarrow> i < nsz s b \<longrightarrow> key \<le> nk s b i"
    and srt: "sorted_wrt (<) (keys s b)"
  shows "\<exists>j. list_find_loop s (BLOCK s b) key (int l) (int e) = Some (int j) \<and> l \<le> j \<and> j \<le> e \<and>
    (\<forall>i < j. nk s b i < key) \<and> (\<forall>i. j \<le> i \<longrightarrow> i < nsz s b \<longrightarrow> key \<le> nk s b i)"
  using e lo hi
proof (induction "e - l" arbitrary: l e rule: less_induct)
  case less
  have ok: "block_ok s b" "nsz s b \<le> 510" using s by (simp_all add: node_ok_def)
  have less': "i < j \<Longrightarrow> j < nsz s b \<Longrightarrow> nk s b i < nk s b j" for i j
    using sorted_wrt_nth_less [OF srt, of i j] by simp
  show ?case
  proof (cases "l < e")
    case False
    then have "l = e" using less.prems(1) by simp
    then show ?thesis using less.prems by (subst list_find_loop.simps) auto
  next
    case True
    define m where "m = (l + e) div 2"
    have m: "l \<le> m" "m < e" "m < 510" "m < nsz s b" using True less.prems(2) ok by (auto simp: m_def)
    have im: "drop_bit 1 (int l + int e) = int m"
      by (simp add: drop_bit_eq_div m_def zdiv_int)
    show ?thesis
    proof (cases "nk s b m < key")
      case lt: True
      have lo': "\<forall>i < Suc m. nk s b i < key"
        using lt less' [of _ m] m(4) by (metis less_Suc_eq order_less_trans)
      obtain j where j: "list_find_loop s (BLOCK s b) key (int (Suc m)) (int e) = Some (int j)"
          "Suc m \<le> j" "j \<le> e" "\<forall>i < j. nk s b i < key" "\<forall>i. j \<le> i \<longrightarrow> i < nsz s b \<longrightarrow> key \<le> nk s b i"
        using less.hyps [OF _ _ less.prems(2) lo' less.prems(4)] m True by force
      have "list_find_loop s (BLOCK s b) key (int l) (int e) = Some (int j)"
        using True im m lt ok j(1) by (subst list_find_loop.simps) (simp add: add.commute)
      then show ?thesis using j m(1) by (intro exI [of _ j]) simp
    next
      case ge: False
      have hi': "\<forall>i. m \<le> i \<longrightarrow> i < nsz s b \<longrightarrow> key \<le> nk s b i"
      proof (intro allI impI)
        fix i assume i: "m \<le> i" "i < nsz s b"
        show "key \<le> nk s b i" using ge less' [of m i] i by (cases "i = m") auto
      qed
      obtain j where j: "list_find_loop s (BLOCK s b) key (int l) (int m) = Some (int j)"
          "l \<le> j" "j \<le> m" "\<forall>i < j. nk s b i < key" "\<forall>i. j \<le> i \<longrightarrow> i < nsz s b \<longrightarrow> key \<le> nk s b i"
        using less.hyps [OF _ m(1) _ less.prems(3) hi'] m by force
      have "list_find_loop s (BLOCK s b) key (int l) (int e) = Some (int j)"
        using True im m ge ok j(1) by (subst list_find_loop.simps) simp
      then show ?thesis using j m(2) by (intro exI [of _ j]) simp
    qed
  qed
qed

lemma list_find_ok:
  assumes s: "node_ok s b" and srt: "sorted_wrt (<) (keys s b)"
  shows "\<exists>j. list_find s (BLOCK s b) key = Some (int j) \<and> j \<le> nsz s b \<and>
    (\<forall>i < j. nk s b i < key) \<and> (\<forall>i. j \<le> i \<longrightarrow> i < nsz s b \<longrightarrow> key \<le> nk s b i)"
proof -
  have ok: "block_ok s b" "nsz s b \<le> 510" using s by (simp_all add: node_ok_def)
  then have "to_int (w32 s b 4) = int (nsz s b)" by (simp add: to_int_small nsz_def)
  then show ?thesis
    using list_find_loop_ok [OF s, of 0 "nsz s b" key] srt ok by (auto simp: list_find_def)
qed

subsection \<open>Inserting and removing entries\<close>

lemma epoch_same_node: "same_node s s' b \<Longrightarrow> epoch s = epoch s0 \<Longrightarrow> epoch s' = epoch s0"
  using same_node_ok by simp

lemma copy_entry_ok:
  assumes "block_ok s b" "epoch s = epoch s0" "i < 510" "j < 510" "i \<noteq> j"
  shows "\<exists>s'. copy_entry s (BLOCK s0 b) (int j) (BLOCK s0 b) (int i) = Some s' \<and> same_node s s' b \<and>
    w32 s' b 4 = w32 s b 4 \<and>
    (\<forall>x < 510. nk s' b x = (if x = j then nk s b i else nk s b x)) \<and>
    (\<forall>x < 510. nv s' b x = (if x = j then nv s b i else nv s b x))"
proof -
  let ?s1 = "set32 s b (16 + 4 * j) (nk s b i)"
  let ?s2 = "set32 ?s1 b (2056 + 4 * j) (nv s b i)"
  have "same_node s ?s2 b" by (rule same_node_trans [OF same_node_set(1) same_node_set(2)]) (use assms in simp_all)
  moreover have "copy_entry s (BLOCK s0 b) (int j) (BLOCK s0 b) (int i) = Some ?s2"
    using assms by (simp add: copy_entry_def)
  ultimately show ?thesis using assms by (intro exI [of _ ?s2]) simp
qed

lemma list_insert_loop_ok:
  assumes "block_ok s b" "epoch s = epoch s0" "j \<le> i" "i < 510"
  shows "\<exists>s'. list_insert_loop s (BLOCK s0 b) (int i) (int j) = Some s' \<and> same_node s s' b \<and>
    w32 s' b 4 = w32 s b 4 \<and>
    (\<forall>x < 510. nk s' b x = (if j < x \<and> x \<le> i then nk s b (x - 1) else nk s b x)) \<and>
    (\<forall>x < 510. nv s' b x = (if j < x \<and> x \<le> i then nv s b (x - 1) else nv s b x))"
  using assms
proof (induction i arbitrary: s)
  case 0
  then show ?case by (subst list_insert_loop.simps) auto
next
  case (Suc i)
  show ?case
  proof (cases "j = Suc i")
    case True
    then show ?thesis by (subst list_insert_loop.simps) auto
  next
    case False
    obtain s1 where s1: "copy_entry s (BLOCK s0 b) (int (Suc i)) (BLOCK s0 b) (int i) = Some s1"
        "same_node s s1 b" "w32 s1 b 4 = w32 s b 4"
        "\<forall>x < 510. nk s1 b x = (if x = Suc i then nk s b i else nk s b x)"
        "\<forall>x < 510. nv s1 b x = (if x = Suc i then nv s b i else nv s b x)"
      using copy_entry_ok [of s b s0 i "Suc i"] Suc.prems by auto
    have ok1: "block_ok s1 b" "epoch s1 = epoch s0" using same_node_ok [OF s1(2)] Suc.prems by simp_all
    obtain s2 where s2: "list_insert_loop s1 (BLOCK s0 b) (int i) (int j) = Some s2" "same_node s1 s2 b"
        "w32 s2 b 4 = w32 s1 b 4"
        "\<forall>x < 510. nk s2 b x = (if j < x \<and> x \<le> i then nk s1 b (x - 1) else nk s1 b x)"
        "\<forall>x < 510. nv s2 b x = (if j < x \<and> x \<le> i then nv s1 b (x - 1) else nv s1 b x)"
      using Suc.IH [OF ok1] Suc.prems False by force
    have "list_insert_loop s (BLOCK s0 b) (int (Suc i)) (int j) = Some s2"
      using s1(1) s2(1) Suc.prems False by (subst list_insert_loop.simps) simp
    moreover have "same_node s s2 b" using s1(2) s2(2) by (rule same_node_trans)
    ultimately show ?thesis
      using s1(3-5) s2(3-5) False Suc.prems by (intro exI [of _ s2]) (auto simp: le_Suc_eq)
  qed
qed

definition list_ins :: "'a list \<Rightarrow> nat \<Rightarrow> 'a \<Rightarrow> 'a list" where
  "list_ins xs j x = take j xs @ x # drop j xs"

definition list_del :: "'a list \<Rightarrow> nat \<Rightarrow> 'a list" where
  "list_del xs j = take j xs @ drop (Suc j) xs"

lemma list_ins_nth:
  "j \<le> length xs \<Longrightarrow> i \<le> length xs \<Longrightarrow>
   list_ins xs j x ! i = (if i < j then xs ! i else if i = j then x else xs ! (i - 1))"
  by (auto simp: list_ins_def nth_append nth_Cons')

lemma length_list_ins [simp]: "j \<le> length xs \<Longrightarrow> length (list_ins xs j x) = Suc (length xs)"
  by (simp add: list_ins_def)

lemma length_list_del [simp]: "j < length xs \<Longrightarrow> length (list_del xs j) = length xs - 1"
  by (simp add: list_del_def)

lemma list_del_nth:
  "j < length xs \<Longrightarrow> i < length xs - 1 \<Longrightarrow> list_del xs j ! i = (if i < j then xs ! i else xs ! Suc i)"
  by (auto simp: list_del_def nth_append min_def)

lemma list_insert_ok:
  assumes s: "node_ok s b" and e: "epoch s = epoch s0" and j: "j \<le> nsz s b" and full: "nsz s b < 510"
  shows "\<exists>s'. list_insert s (BLOCK s0 b) (int j) k v = Some s' \<and> same_node s s' b \<and> node_ok s' b \<and>
    keys s' b = list_ins (keys s b) j k \<and> vals s' b = list_ins (vals s b) j v"
proof -
  have ok: "block_ok s b" using s by (simp add: node_ok_def)
  have n: "to_int (w32 s b 4) = int (nsz s b)" using full by (simp add: to_int_small nsz_def)
  obtain s1 where s1: "list_insert_loop s (BLOCK s0 b) (int (nsz s b)) (int j) = Some s1" "same_node s s1 b"
      "w32 s1 b 4 = w32 s b 4"
      "\<forall>x < 510. nk s1 b x = (if j < x \<and> x \<le> nsz s b then nk s b (x - 1) else nk s b x)"
      "\<forall>x < 510. nv s1 b x = (if j < x \<and> x \<le> nsz s b then nv s b (x - 1) else nv s b x)"
    using list_insert_loop_ok [OF ok e j full] by blast
  have ok1: "block_ok s1 b" "epoch s1 = epoch s0" using same_node_ok [OF s1(2)] ok e by simp_all
  have j5: "j < 510" using j full by simp
  define s2 where "s2 = set32 (set32 s1 b (16 + 4 * j) k) b (2056 + 4 * j) v"
  define s' where "s' = set32 s2 b 4 (w32 s b 4 + 1)"
  have sz: "unat (w32 s b 4 + 1) = Suc (nsz s b)"
    using full unat_Suc_u32 [of "w32 s b 4"] by (simp add: nsz_def)
  have res: "list_insert s (BLOCK s0 b) (int j) k v = Some s'"
    using ok e n s1(1,3) ok1 j5 by (simp add: list_insert_def s'_def s2_def)
  have sn: "same_node s s' b"
    unfolding s'_def s2_def
    by (rule same_node_trans [OF s1(2) same_node_trans [OF same_node_set(1) [OF j5]
          same_node_trans [OF same_node_set(2) [OF j5] same_node_set(3) [OF j5]]]])
  have nsz': "nsz s' b = Suc (nsz s b)" using j5 by (simp add: s'_def sz)
  have nk': "nk s' b x = (if x = j then k else nk s1 b x)" "nv s' b x = (if x = j then v else nv s1 b x)"
    if "x < 510" for x
    using that j5 by (simp_all add: s'_def s2_def)
  have "keys s' b = list_ins (keys s b) j k" "vals s' b = list_ins (vals s b) j v"
    using nk' s1(4,5) j full nsz'
    by (auto intro!: nth_equalityI simp: list_ins_nth)
  moreover have "node_ok s' b" using nsz' full same_node_ok [OF sn] ok by (simp add: node_ok_def)
  ultimately show ?thesis using res sn by blast
qed

lemma to_u32_int: "w = to_u32 (int (unat (w :: u32)))"
  by simp

lemma size_minus_one: "0 < nsz s b \<Longrightarrow> unat (w32 s b 4 - 1) = nsz s b - 1"
  by (subst unat_sub_u32) (simp_all add: nsz_def)

lemma list_remove_loop_ok:
  assumes "block_ok s b" "epoch s = epoch s0" "j < nsz s b" "nsz s b \<le> 510"
  shows "\<exists>s'. list_remove_loop s (BLOCK s0 b) (int j) = Some s' \<and> same_node s s' b \<and>
    w32 s' b 4 = w32 s b 4 \<and>
    (\<forall>x < 510. nk s' b x = (if j \<le> x \<and> x < nsz s b - 1 then nk s b (Suc x) else nk s b x)) \<and>
    (\<forall>x < 510. nv s' b x = (if j \<le> x \<and> x < nsz s b - 1 then nv s b (Suc x) else nv s b x))"
  using assms
proof (induction "nsz s b - 1 - j" arbitrary: j s)
  case 0
  have "j = nsz s b - 1" "0 < nsz s b" "j < 2 ^ 32" using 0 by simp_all
  then have "\<not> to_u32 (int j) < w32 s b 4 - 1" by (subst to_u32_less) (simp_all add: size_minus_one)
  then have "list_remove_loop s (BLOCK s0 b) (int j) = Some s"
    using 0 by (subst list_remove_loop.simps) simp
  then show ?case using \<open>j = nsz s b - 1\<close> by (intro exI [of _ s]) auto
next
  case (Suc n)
  have j: "Suc j < nsz s b" "j < 510" "Suc j < 510" using Suc.hyps(2) Suc.prems(4) by simp_all
  obtain s1 where s1: "copy_entry s (BLOCK s0 b) (int j) (BLOCK s0 b) (int (Suc j)) = Some s1"
      "same_node s s1 b" "w32 s1 b 4 = w32 s b 4"
      "\<forall>x < 510. nk s1 b x = (if x = j then nk s b (Suc j) else nk s b x)"
      "\<forall>x < 510. nv s1 b x = (if x = j then nv s b (Suc j) else nv s b x)"
    using copy_entry_ok [OF Suc.prems(1,2) j(3,2)] by auto
  have ok1: "block_ok s1 b" "epoch s1 = epoch s0" using same_node_ok [OF s1(2)] Suc.prems by simp_all
  have n1: "nsz s1 b = nsz s b" using s1(3) by (simp add: nsz_def)
  obtain s2 where s2: "list_remove_loop s1 (BLOCK s0 b) (int (Suc j)) = Some s2" "same_node s1 s2 b"
      "w32 s2 b 4 = w32 s1 b 4"
      "\<forall>x < 510. nk s2 b x = (if Suc j \<le> x \<and> x < nsz s1 b - 1 then nk s1 b (Suc x) else nk s1 b x)"
      "\<forall>x < 510. nv s2 b x = (if Suc j \<le> x \<and> x < nsz s1 b - 1 then nv s1 b (Suc x) else nv s1 b x)"
  proof -
    have a: "n = nsz s1 b - 1 - Suc j" "Suc j < nsz s1 b" "nsz s1 b \<le> 510"
      using Suc.hyps(2) j Suc.prems(4) n1 by simp_all
    show thesis using Suc.hyps(1) [OF a(1) ok1 a(2,3)] that by blast
  qed
  have "list_remove_loop s (BLOCK s0 b) (int j) = Some s2"
  proof -
    have "to_u32 (int j) < w32 s b 4 - 1" using j by (subst to_u32_less) (simp_all add: size_minus_one)
    then show ?thesis using s1(1) s2(1) Suc.prems j
      by (subst list_remove_loop.simps) (simp add: add.commute)
  qed
  moreover have "same_node s s2 b" using s1(2) s2(2) by (rule same_node_trans)
  ultimately show ?case
    using s1(3-5) s2(3-5) j Suc.prems(4) unfolding n1 by (intro exI [of _ s2]) (auto simp: Suc_le_eq)
qed

lemma list_remove_ok:
  assumes s: "node_ok s b" and e: "epoch s = epoch s0" and j: "j < nsz s b"
  shows "\<exists>s'. list_remove s (BLOCK s0 b) (int j) = Some s' \<and> same_node s s' b \<and> node_ok s' b \<and>
    keys s' b = list_del (keys s b) j \<and> vals s' b = list_del (vals s b) j"
proof -
  have ok: "block_ok s b" "nsz s b \<le> 510" using s by (simp_all add: node_ok_def)
  obtain s1 where s1: "list_remove_loop s (BLOCK s0 b) (int j) = Some s1" "same_node s s1 b"
      "w32 s1 b 4 = w32 s b 4"
      "\<forall>x < 510. nk s1 b x = (if j \<le> x \<and> x < nsz s b - 1 then nk s b (Suc x) else nk s b x)"
      "\<forall>x < 510. nv s1 b x = (if j \<le> x \<and> x < nsz s b - 1 then nv s b (Suc x) else nv s b x)"
    using list_remove_loop_ok [OF ok(1) e j ok(2)] by blast
  have ok1: "block_ok s1 b" "epoch s1 = epoch s0" using same_node_ok [OF s1(2)] ok e by simp_all
  define n where "n = nsz s b - 1"
  define w where "w = w32 s b 4 - 1"
  have n: "n < 510" "unat w = n" using j ok size_minus_one [of s b] by (simp_all add: n_def w_def)
  have u: "uint w = int n" using n(2) uint_nat [of w] by simp
  define s2 where "s2 = set32 s1 b 4 w"
  define s' where "s' = set32 (set32 s2 b (16 + 4 * n) 0) b (2056 + 4 * n) 0"
  have w4: "w32 s2 b 4 = w" by (simp add: s2_def)
  have res: "list_remove s (BLOCK s0 b) (int j) = Some s'"
    using s1(1,3) ok1 n w4 u by (simp add: list_remove_def s'_def s2_def [symmetric] w_def [symmetric])
      (simp add: s2_def)
  have sn: "same_node s s' b"
    unfolding s'_def s2_def
    by (rule same_node_trans [OF s1(2) same_node_trans [OF same_node_set(3) [OF n(1)]
          same_node_trans [OF same_node_set(1) [OF n(1)] same_node_set(2) [OF n(1)]]]])
  have nsz': "nsz s' b = nsz s b - 1" using n by (simp add: s'_def s2_def n_def)
  have nk': "nk s' b x = nk s1 b x" "nv s' b x = nv s1 b x" if "x < nsz s b - 1" for x
    using that n by (simp_all add: s'_def s2_def n_def)
  have "keys s' b = list_del (keys s b) j" "vals s' b = list_del (vals s b) j"
    using nk' s1(4,5) j ok(2) nsz'
    by (auto intro!: nth_equalityI simp: list_del_nth)
  moreover have "node_ok s' b" using nsz' ok same_node_ok [OF sn] by (simp add: node_ok_def)
  ultimately show ?thesis using res sn by blast
qed

subsection \<open>Leaves\<close>

definition leaf_ok :: "edb \<Rightarrow> u32 \<Rightarrow> bool" where
  "leaf_ok s b \<longleftrightarrow> node_ok s b \<and> nm s b = EDB_MAGIC_BTREE_LEAF \<and> sorted_wrt (<) (keys s b)"

definition entries_of :: "edb \<Rightarrow> u32 \<Rightarrow> (u32 \<times> u32) list" where
  "entries_of s b = zip (keys s b) (vals s b)"

lemma map_of_ins:
  assumes "length ks = length vs" "j \<le> length ks" "k \<notin> set ks"
  shows "map_of (zip (list_ins ks j k) (list_ins vs j v)) = (map_of (zip ks vs))(k := Some v)"
proof -
  have z: "zip ks vs = zip (take j ks) (take j vs) @ zip (drop j ks) (drop j vs)"
    using assms(1) by (metis zip_append append_take_drop_id length_take)
  have "k \<notin> set (take j ks)" using assms(3) by (meson in_set_takeD)
  then have "map_of (zip (take j ks) (take j vs)) k = None"
    using assms(1) map_of_zip_is_None [of "take j ks" "take j vs" k] by simp
  then have "k \<notin> fst ` set (zip (take j ks) (take j vs))" by (simp add: map_of_eq_None_iff)
  then have "dom (map_of (zip (take j ks) (take j vs))) \<inter> {k} = {}" by (auto simp: dom_map_of_conv_image_fst)
  then show ?thesis
    unfolding list_ins_def z using assms(1,2)
    by (simp add: map_add_upd_left dom_map_of_conv_image_fst)
qed

lemma sorted_ins:
  assumes "sorted_wrt (<) (ks :: u32 list)" "j \<le> length ks"
    "\<forall>i < j. ks ! i < k" "\<forall>i. j \<le> i \<longrightarrow> i < length ks \<longrightarrow> k < ks ! i"
  shows "sorted_wrt (<) (list_ins ks j k)"
proof -
  have "sorted_wrt (<) (take j ks @ drop j ks)" using assms(1) by simp
  then have "sorted_wrt (<) (take j ks)" "sorted_wrt (<) (drop j ks)"
    "\<forall>x \<in> set (take j ks). \<forall>y \<in> set (drop j ks). x < y"
    unfolding sorted_wrt_append by blast+
  moreover have "\<forall>x \<in> set (take j ks). x < k" using assms(2,3) by (auto simp: in_set_conv_nth)
  moreover have "\<forall>y \<in> set (drop j ks). k < y" using assms(4) by (auto simp: in_set_conv_nth)
  ultimately show ?thesis by (simp add: list_ins_def sorted_wrt_append)
qed

definition lookup :: "edb \<Rightarrow> u32 \<Rightarrow> u32 \<Rightarrow> u32 option" where
  "lookup s b = map_of (entries_of s b)"

lemma leaf_find:
  assumes l: "leaf_ok s b"
  shows "\<exists>j. list_find s (BLOCK s b) key = Some (int j) \<and> j \<le> nsz s b \<and> j < 2 ^ 32 \<and>
    (\<forall>i < j. nk s b i < key) \<and> (\<forall>i. j \<le> i \<longrightarrow> i < nsz s b \<longrightarrow> key \<le> nk s b i) \<and>
    lookup s b key = (if j < nsz s b \<and> nk s b j = key then Some (nv s b j) else None)"
proof -
  have n: "node_ok s b" "sorted_wrt (<) (keys s b)" "nsz s b \<le> 510"
    using l by (simp_all add: leaf_ok_def node_ok_def)
  obtain j where j: "list_find s (BLOCK s b) key = Some (int j)" "j \<le> nsz s b"
      "\<forall>i < j. nk s b i < key" "\<forall>i. j \<le> i \<longrightarrow> i < nsz s b \<longrightarrow> key \<le> nk s b i"
    using list_find_ok [OF n(1,2)] by blast
  have dist: "distinct (keys s b)" using n(2) strict_sorted_iff by blast
  have "lookup s b key = (if j < nsz s b \<and> nk s b j = key then Some (nv s b j) else None)"
  proof (cases "j < nsz s b \<and> nk s b j = key")
    case True
    then show ?thesis
      using map_of_zip_nth [of "keys s b" "vals s b" j] dist by (simp add: lookup_def entries_of_def)
  next
    case False
    have "key \<notin> set (keys s b)"
    proof
      assume "key \<in> set (keys s b)"
      then obtain i where i: "i < nsz s b" "nk s b i = key" by (auto simp: in_set_conv_nth)
      then have "j \<le> i" using j(3) by (meson not_le order.strict_implies_not_eq)
      moreover have "i \<noteq> j" using False i by auto
      ultimately have "nk s b j < nk s b i"
        using sorted_wrt_nth_less [OF n(2), of j i] i by simp
      then show False using j(4) i \<open>j \<le> i\<close> by (metis le_refl not_le order.strict_trans1 order_le_less_trans)
    qed
    then show ?thesis using False by (auto simp: lookup_def entries_of_def)
  qed
  then show ?thesis using j n(3) by (intro exI [of _ j]) simp
qed

lemma leaf_get_ok:
  assumes l: "leaf_ok s b"
  shows "btree_get s b key = Some (case lookup s b key of Some v \<Rightarrow> (0, v)
     | None \<Rightarrow> (EDB_ERROR_BTREE_INVALID_KEY, 0))"
proof -
  have n: "block_ok s b" "nsz s b \<le> 510" "nm s b = EDB_MAGIC_BTREE_LEAF"
    using l by (simp_all add: leaf_ok_def node_ok_def)
  obtain j where j: "list_find s (BLOCK s b) key = Some (int j)" "j \<le> nsz s b" "j < 2 ^ 32"
      "lookup s b key = (if j < nsz s b \<and> nk s b j = key then Some (nv s b j) else None)"
    using leaf_find [OF l, of key] by blast
  have less: "to_u32 (int j) < w32 s b 4 \<longleftrightarrow> j < nsz s b" using to_u32_less [OF j(3)] by (simp add: nsz_def)
  have "btree_get s b key = (if \<not> to_u32 (int j) < w32 s b 4 then Some (EDB_ERROR_BTREE_INVALID_KEY, 0)
      else do { k \<leftarrow> bt_key s (BLOCK s b) (int j);
                if k \<noteq> key then Some (EDB_ERROR_BTREE_INVALID_KEY, 0)
                else do { v \<leftarrow> bt_data s (BLOCK s b) (int j); Some (0, v) } })"
    using n(1,3) j(1) by (subst btree_get.simps) (simp add: magic_ok_def Let_def)
  then show ?thesis using n(1,2) j(2,4) less by (simp del: of_int_of_nat_eq)
qed

lemma leaf_set_ok:
  assumes l: "leaf_ok s b"
  shows "lookup s b key = None \<and> nsz s b = 510 \<and> btree_set api s b key v = Some (EDB_ERROR_BTREE_FULL, s) \<or>
    (\<exists>s'. btree_set api s b key v = Some (0, s') \<and> same_node s s' b \<and> leaf_ok s' b \<and>
       lookup s' b = (lookup s b)(key := Some v) \<and>
       nsz s' b = (if lookup s b key = None then Suc (nsz s b) else nsz s b))"
proof -
  have n: "block_ok s b" "nsz s b \<le> 510" "nm s b = EDB_MAGIC_BTREE_LEAF" "node_ok s b" "sorted_wrt (<) (keys s b)"
    using l by (simp_all add: leaf_ok_def node_ok_def)
  obtain j where j: "list_find s (BLOCK s b) key = Some (int j)" "j \<le> nsz s b" "j < 2 ^ 32"
      "\<forall>i < j. nk s b i < key" "\<forall>i. j \<le> i \<longrightarrow> i < nsz s b \<longrightarrow> key \<le> nk s b i"
      "lookup s b key = (if j < nsz s b \<and> nk s b j = key then Some (nv s b j) else None)"
    using leaf_find [OF l, of key] by blast
  have less: "to_u32 (int j) < w32 s b 4 \<longleftrightarrow> j < nsz s b" using to_u32_less [OF j(3)] by (simp add: nsz_def)
  have full: "w32 s b 4 < to_u32 EDB_BTREE_SIZE \<longleftrightarrow> nsz s b < 510"
    by (simp add: EDB_BTREE_SIZE_def word_less_nat_alt nsz_def)
  have set: "btree_set api s b key v = btree_set_leaf s (BLOCK s b) (int j) key v"
    using n(1,3) j(1) by (subst btree_set.simps) (simp add: magic_ok_def Let_def)
  have dist: "distinct (keys s b)" using n(5) strict_sorted_iff by blast
  show ?thesis
  proof (cases "j < nsz s b \<and> nk s b j = key")
    case True
    then have j5: "j < 510" using n(2) by simp
    let ?s' = "set32 s b (2056 + 4 * j) v"
    have res: "btree_set api s b key v = Some (0, ?s')"
      using set n(1) less True j5 by (simp add: btree_set_leaf_def del: of_int_of_nat_eq)
    have sn: "same_node s ?s' b" using j5 by simp
    have k: "keys ?s' b = keys s b" using j5 n(2) by (auto intro!: nth_equalityI)
    have "vals ?s' b = (vals s b)[j := v]" using j5 n(2) by (auto intro!: nth_equalityI simp: nth_list_update)
    then have e: "entries_of ?s' b = (entries_of s b)[j := (key, v)]"
      using True k by (auto intro!: nth_equalityI simp: entries_of_def nth_list_update)
    have "lookup ?s' b = (lookup s b)(key := Some v)"
    proof
      fix x
      show "lookup ?s' b x = ((lookup s b)(key := Some v)) x"
      proof (cases "x \<in> set (keys s b)")
        case False
        then have "lookup ?s' b x = None" "lookup s b x = None"
          using k map_of_zip_is_None [of "keys s b"] j5 by (simp_all add: lookup_def entries_of_def)
        moreover have "x \<noteq> key" using False True by (metis in_set_conv_nth length_keys(1) nth_keys(1))
        ultimately show ?thesis by simp
      next
        case in_keys: True
        then obtain i where i: "i < nsz s b" "x = nk s b i" by (auto simp: in_set_conv_nth)
        have "lookup ?s' b x = Some (nv ?s' b i)" "lookup s b x = Some (nv s b i)"
          using map_of_zip_nth [of "keys ?s' b" "vals ?s' b" i] map_of_zip_nth [of "keys s b" "vals s b" i]
            k dist i j5 n(2) by (simp_all add: lookup_def entries_of_def)
        moreover have "i = j \<longleftrightarrow> x = key"
          using i True dist by (metis nth_eq_iff_index_eq length_keys(1) nth_keys(1))
        ultimately show ?thesis using i n(2) j5 by auto
      qed
    qed
    moreover have "leaf_ok ?s' b" using n k j5 by (simp add: leaf_ok_def node_ok_def)
    ultimately show ?thesis using res sn j(6) True j5 by auto
  next
    case False
    then have none: "lookup s b key = None" using j(6) by auto
    have ab: "if_present = False" if "if_present = (j < nsz s b \<and> nk s b j = key)" for if_present
      using False that by simp
    have leaf: "btree_set_leaf s (BLOCK s b) (int j) key v =
        (if nsz s b < 510 then do { s \<leftarrow> list_insert s (BLOCK s b) (int j) key v; Some (0, s) }
         else Some (EDB_ERROR_BTREE_FULL, s))"
      using n(1,2) less full False by (auto simp: btree_set_leaf_def simp del: of_int_of_nat_eq)
    show ?thesis
    proof (cases "nsz s b < 510")
      case room: True
      obtain s' where s': "list_insert s (BLOCK s b) (int j) key v = Some s'" "same_node s s' b" "node_ok s' b"
          "keys s' b = list_ins (keys s b) j key" "vals s' b = list_ins (vals s b) j v"
        using list_insert_ok [OF n(4) refl j(2) room] by blast
      have gt: "\<forall>i. j \<le> i \<longrightarrow> i < length (keys s b) \<longrightarrow> key < keys s b ! i"
      proof (intro allI impI)
        fix i assume i: "j \<le> i" "i < length (keys s b)"
        then have "key \<le> nk s b i" "key \<noteq> nk s b j \<or> \<not> j < nsz s b" using j(5) False by auto
        moreover have "nk s b j < nk s b i" if "j < i"
          using sorted_wrt_nth_less [OF n(5), of j i] that i by simp
        moreover have "key \<le> nk s b j" using j(5) i by simp
        ultimately show "key < keys s b ! i" using i by (cases "j = i") auto
      qed
      have "\<forall>i < j. keys s b ! i < key" using j(2,4) by simp
      then have srt: "sorted_wrt (<) (keys s' b)"
        unfolding s'(4) using gt j(2) by (intro sorted_ins [OF n(5)]) simp_all
      have notin: "key \<notin> set (keys s b)"
        using none by (simp add: lookup_def entries_of_def map_of_zip_is_None)
      have "lookup s' b = (lookup s b)(key := Some v)"
        unfolding lookup_def entries_of_def s'(4,5) using j(2) notin by (intro map_of_ins) simp_all
      moreover have "leaf_ok s' b" using s'(2,3) srt n(3) by (simp add: leaf_ok_def same_node_def)
      moreover have "nsz s' b = Suc (nsz s b)"
        using arg_cong [OF s'(4), of length] j(2) by simp
      ultimately show ?thesis using set leaf room s'(1,2) none by auto
    next
      case False
      then show ?thesis using set leaf none n(2) by simp
    qed
  qed
qed

lemma map_of_del:
  assumes "length ks = length vs" "j < length ks" "distinct ks"
  shows "map_of (zip (list_del ks j) (list_del vs j)) = (map_of (zip ks vs))(ks ! j := None)"
proof -
  have ks: "ks = take j ks @ ks ! j # drop (Suc j) ks" and vs: "vs = take j vs @ vs ! j # drop (Suc j) vs"
    using assms(1,2) by (simp_all add: id_take_nth_drop [symmetric])
  have z: "zip ks vs = zip (take j ks) (take j vs) @ (ks ! j, vs ! j) # zip (drop (Suc j) ks) (drop (Suc j) vs)"
    by (subst ks, subst vs) (use assms(1,2) in \<open>simp add: zip_append\<close>)
  have n: "ks ! j \<notin> set (take j ks)" "ks ! j \<notin> set (drop (Suc j) ks)"
    using assms(3) ks by (metis distinct_append distinct.simps(2) not_distinct_conv_prefix,
        metis distinct_append distinct.simps(2))
  have none: "map_of (zip (take j ks) (take j vs)) (ks ! j) = None"
    "map_of (zip (drop (Suc j) ks) (drop (Suc j) vs)) (ks ! j) = None"
    using n assms(1) map_of_zip_is_None [of "take j ks" "take j vs" "ks ! j"]
      map_of_zip_is_None [of "drop (Suc j) ks" "drop (Suc j) vs" "ks ! j"] by simp_all
  have d: "zip (list_del ks j) (list_del vs j) =
      zip (take j ks) (take j vs) @ zip (drop (Suc j) ks) (drop (Suc j) vs)"
    using assms(1,2) by (simp add: list_del_def)
  have "map_of (zip (list_del ks j) (list_del vs j)) x = ((map_of (zip ks vs))(ks ! j := None)) x" for x
    unfolding z d by (cases "x = ks ! j") (simp_all add: map_add_def none split: option.split)
  then show ?thesis by blast
qed

lemma sorted_del: "sorted_wrt (<) (ks :: u32 list) \<Longrightarrow> j < length ks \<Longrightarrow> sorted_wrt (<) (list_del ks j)"
  using id_take_nth_drop [of j ks] sorted_wrt_append [of "(<)" "take j ks" "ks ! j # drop (Suc j) ks"]
  by (auto simp: list_del_def sorted_wrt_append)

lemma leaf_pop_ok:
  assumes l: "leaf_ok s b" and k: "lookup s b key = Some v"
  shows "\<exists>s'. btree_pop api s b key = Some (if nsz s' b < 127 then EDB_ERROR_BTREE_EMPTY else 0, v, s') \<and>
    same_node s s' b \<and> leaf_ok s' b \<and> lookup s' b = (lookup s b)(key := None) \<and> nsz s' b = nsz s b - 1"
proof -
  have n: "block_ok s b" "nsz s b \<le> 510" "nm s b = EDB_MAGIC_BTREE_LEAF" "node_ok s b" "sorted_wrt (<) (keys s b)"
    using l by (simp_all add: leaf_ok_def node_ok_def)
  obtain j where j: "list_find s (BLOCK s b) key = Some (int j)" "j \<le> nsz s b"
      "lookup s b key = (if j < nsz s b \<and> nk s b j = key then Some (nv s b j) else None)"
    using leaf_find [OF l, of key] by blast
  then have at: "j < nsz s b" "nk s b j = key" "nv s b j = v" "j < 510" using k n(2) by (auto split: if_splits)
  obtain s' where s': "list_remove s (BLOCK s b) (int j) = Some s'" "same_node s s' b" "node_ok s' b"
      "keys s' b = list_del (keys s b) j" "vals s' b = list_del (vals s b) j"
    using list_remove_ok [OF n(4) refl at(1)] by blast
  have e: "epoch s' = epoch s" "block_ok s' b" using same_node_ok [OF s'(2)] n(1) by simp_all
  have "w32 s' b 4 < to_u32 EDB_BTREE_SPLIT \<longleftrightarrow> nsz s' b < 127"
    by (simp add: EDB_BTREE_SPLIT_def EDB_BTREE_SIZE_def word_less_nat_alt nsz_def)
  moreover have "btree_pop api s b key = btree_pop_leaf s (BLOCK s b) (int j) key"
    using n(1,3) j(1) by (subst btree_pop.simps) (simp add: magic_ok_def Let_def)
  ultimately have res: "btree_pop api s b key = Some (if nsz s' b < 127 then EDB_ERROR_BTREE_EMPTY else 0, v, s')"
    using n(1) at s'(1) e by (simp add: btree_pop_leaf_def)
  have dist: "distinct (keys s b)" using n(5) strict_sorted_iff by blast
  have "lookup s' b = (lookup s b)(keys s b ! j := None)"
    unfolding lookup_def entries_of_def s'(4,5) using at(1) dist by (intro map_of_del) simp_all
  moreover have "leaf_ok s' b"
    using s'(2,3) n(3,5) at(1) by (simp add: leaf_ok_def same_node_def s'(4) sorted_del)
  moreover have "nsz s' b = nsz s b - 1" using arg_cong [OF s'(4), of length] at(1) by simp
  ultimately show ?thesis using res s'(2) at by (intro exI [of _ s']) simp
qed

text \<open>Removing key 0 from an empty leaf runs off the end of the node.\<close>

lemma unat_minus_one: "unat (- 1 :: u32) = 4294967295"
  by (simp add: unsigned_minus_1_eq_mask mask_eq_exp_minus_1)

lemma remove_runs_away:
  "block_ok s b \<Longrightarrow> epoch s = epoch s0 \<Longrightarrow> w32 s b 4 = 0 \<Longrightarrow> j < 510 \<Longrightarrow>
   list_remove_loop s (BLOCK s0 b) (int j) = None"
proof (induction "509 - j" arbitrary: j s)
  case 0
  then have "j = 509" by simp
  then show ?case using 0
    by (subst list_remove_loop.simps)
      (simp add: word_less_nat_alt unat_minus_one copy_entry_def bt_key_def EDB_BTREE_SIZE_def)
next
  case (Suc n)
  have j: "Suc j < 510" using Suc.hyps(2) by simp
  obtain s1 where s1: "copy_entry s (BLOCK s0 b) (int j) (BLOCK s0 b) (int (Suc j)) = Some s1"
      "same_node s s1 b" "w32 s1 b 4 = w32 s b 4"
    using copy_entry_ok [OF Suc.prems(1,2) j Suc.prems(4)] by auto
  have a: "n = 509 - Suc j" "block_ok s1 b" "epoch s1 = epoch s0" "w32 s1 b 4 = 0"
    using Suc.hyps(2) same_node_ok [OF s1(2)] s1(3) Suc.prems by simp_all
  have "list_remove_loop s1 (BLOCK s0 b) (int (Suc j)) = None" by (rule Suc.hyps(1) [OF a j])
  moreover have "to_u32 (int j) < 0 - 1"
    by (subst to_u32_less) (use j in \<open>simp_all add: unat_minus_one\<close>)
  ultimately show ?case using Suc.prems s1(1)
    by (subst list_remove_loop.simps) (simp add: add.commute)
qed

lemma btree_init_ok:
  assumes "block_ok s b"
  shows "\<exists>s'. btree_init s b = Some (0, s') \<and> writes_only s s' b \<and> leaf_ok s' b \<and> nsz s' b = 0 \<and>
    lookup s' b = (\<lambda>_. None) \<and> nk s' b 0 = 0"
proof -
  define s1 where "s1 = set_bytes s b 0 (replicate 4096 0)"
  define s' where "s' = set32 (set32 s1 b 0 EDB_MAGIC_BTREE_LEAF) b 4 0"
  have ok: "block_ok s1 b" "epoch s1 = epoch s" using assms by (simp_all add: s1_def)
  have w: "wr_bytes s (BLOCK s b) 0 (replicate BLOCK_SIZE 0) = Some s1"
    using assms by (simp add: wr_bytes_ok BLOCK_SIZE_def s1_def)
  have wo: "writes_only s s' b"
    unfolding s'_def s1_def by (intro writes_only_step writes_only_refl) simp_all
  have "nsz s' b = 0" "nm s' b = EDB_MAGIC_BTREE_LEAF" by (simp_all add: s'_def nsz_def nm_def)
  moreover have "block_ok s' b" using ok by (simp add: s'_def)
  moreover have "nk s' b 0 = 0"
  proof -
    have "w32 s1 b 16 = 0"
      by (rule w32_zero) (simp_all add: s1_def bytes_zero)
    then show ?thesis by (simp add: s'_def nk_def)
  qed
  moreover have "btree_init s b = Some (0, s')"
    using w ok by (simp add: btree_init_def s'_def)
  ultimately show ?thesis using wo
    by (intro exI [of _ s']) (simp add: leaf_ok_def node_ok_def lookup_def entries_of_def keys_def fun_eq_iff)
qed

subsection \<open>Trees\<close>

lemma last_index: "0 < nsz s b \<Longrightarrow> uint (w32 s b 4 - 1) = int (nsz s b - 1)"
  by (simp only: uint_nat size_minus_one)

lemma size_not_zero: "0 < nsz s b \<Longrightarrow> w32 s b 4 \<noteq> 0"
  by (auto simp: nsz_def)

text \<open>The entries of the tree of height \<open>h\<close> in block \<open>b\<close>, from left to right\<close>

fun tree_entries :: "edb \<Rightarrow> nat \<Rightarrow> u32 \<Rightarrow> (u32 \<times> u32) list" where
  "tree_entries s 0 b = entries_of s b"
| "tree_entries s (Suc h) b = concat (map (tree_entries s h) (vals s b))"

text \<open>The key of each child is the greatest one below it, and greater than all keys of the
  children to its left.\<close>

fun tree_ok :: "edb \<Rightarrow> nat \<Rightarrow> u32 \<Rightarrow> bool" where
  "tree_ok s 0 b \<longleftrightarrow> leaf_ok s b"
| "tree_ok s (Suc h) b \<longleftrightarrow>
     node_ok s b \<and> nm s b = EDB_MAGIC_BTREE \<and> 0 < nsz s b \<and> sorted_wrt (<) (keys s b) \<and>
     (\<forall>i < nsz s b. tree_ok s h (nv s b i) \<and> tree_entries s h (nv s b i) \<noteq> [] \<and>
        fst (last (tree_entries s h (nv s b i))) = nk s b i \<and>
        (\<forall>e \<in> set (tree_entries s h (nv s b i)). fst e \<le> nk s b i \<and> (0 < i \<longrightarrow> nk s b (i - 1) < fst e)))"

abbreviation tree_lookup :: "edb \<Rightarrow> nat \<Rightarrow> u32 \<Rightarrow> u32 \<Rightarrow> u32 option" where
  "tree_lookup s h b \<equiv> map_of (tree_entries s h b)"

lemma tree_node:
  assumes "tree_ok s h b"
  shows "node_ok s b" "block_ok s b" "nsz s b \<le> 510" "sorted_wrt (<) (keys s b)" "magic_ok (nm s b)"
    "nm s b = EDB_MAGIC_BTREE_LEAF \<longleftrightarrow> h = 0"
  using assms by (cases h; auto simp: leaf_ok_def node_ok_def magic_ok_def EDB_MAGIC_BTREE_def
      EDB_MAGIC_BTREE_LEAF_def)+

lemma tree_child:
  assumes t: "tree_ok s (Suc h) b" and j: "j < nsz s b"
    and lo: "\<forall>i < j. nk s b i < key" and hi: "key \<le> nk s b j"
  shows "tree_lookup s (Suc h) b key = tree_lookup s h (nv s b j) key"
proof -
  let ?E = "\<lambda>i. tree_entries s h (nv s b i)"
  have srt: "i < k \<Longrightarrow> k < nsz s b \<Longrightarrow> nk s b i < nk s b k" for i k
    using sorted_wrt_nth_less [OF tree_node(4) [OF t], of i k] by simp
  have bound: "\<And>e. e \<in> set (?E i) \<Longrightarrow> fst e \<le> nk s b i \<and> (0 < i \<longrightarrow> nk s b (i - 1) < fst e)" if "i < nsz s b" for i
    using t that by simp
  have left: "map_of (?E i) key = None" if "i < j" for i
  proof -
    have "fst e \<noteq> key" if "e \<in> set (?E i)" for e
      using bound [of i e] that lo \<open>i < j\<close> j by (meson less_trans not_le order.strict_trans2)
    then show ?thesis by (force simp: map_of_eq_None_iff)
  qed
  have right: "map_of (?E i) key = None" if "j < i" "i < nsz s b" for i
  proof -
    have "j = i - 1 \<or> j < i - 1" using that by linarith
    then have "nk s b j \<le> nk s b (i - 1)" using srt [of j "i - 1"] that
      by (metis less_imp_diff_less order_less_imp_le order_refl)
    then have "fst e \<noteq> key" if "e \<in> set (?E i)" for e
      using bound [of i e] that hi \<open>j < i\<close> \<open>i < nsz s b\<close>
      by (metis bot_nat_0.extremum_strict gr_zeroI leD order_trans)
    then show ?thesis by (force simp: map_of_eq_None_iff)
  qed
  have "map_of (concat (map ?E is)) key =
      (if j \<in> set is then map_of (?E j) key else None)" if "set is \<subseteq> {..<nsz s b}" for "is"
    using that
  proof (induction "is")
    case (Cons i is')
    have i: "map_of (?E i) key = (if i = j then map_of (?E j) key else None)"
    proof (cases i j rule: linorder_cases)
      case less then show ?thesis using left by simp
    next
      case greater then show ?thesis using right Cons.prems by simp
    qed simp
    have "map_of (concat (map ?E is')) key = (if j \<in> set is' then map_of (?E j) key else None)"
      using Cons.prems by (intro Cons.IH) simp
    moreover have "map_of (concat (map ?E (i # is'))) key = (case map_of (?E i) key of
        None \<Rightarrow> map_of (concat (map ?E is')) key | Some v \<Rightarrow> Some v)"
      by (simp add: map_add_def)
    ultimately show ?case unfolding i by (cases "i = j"; cases "map_of (?E j) key") simp_all
  qed simp
  from this [of "[0..<nsz s b]"] show ?thesis
    using j by (simp add: vals_def comp_def atLeast0LessThan lessThan_def)
qed

lemma tree_above:
  assumes t: "tree_ok s h b" and hi: "\<forall>i < nsz s b. nk s b i < key"
  shows "tree_lookup s h b key = None"
proof (cases h)
  case 0
  then show ?thesis using hi map_of_zip_is_None [of "keys s b" "vals s b" key]
    by (auto simp: entries_of_def in_set_conv_nth)
next
  case (Suc h')
  have "fst e \<noteq> key" if e: "e \<in> set (tree_entries s h b)" for e
  proof -
    obtain i where i: "i < nsz s b" "e \<in> set (tree_entries s h' (nv s b i))"
      using e Suc by (auto simp: vals_def)
    then have "fst e \<le> nk s b i" using t Suc by simp
    then show ?thesis using hi i(1) by (meson le_less_trans less_irrefl)
  qed
  then show ?thesis by (force simp: map_of_eq_None_iff)
qed

lemma tree_get_ok:
  "tree_ok s h b \<Longrightarrow> btree_get s b key = Some (case tree_lookup s h b key of Some v \<Rightarrow> (0, v)
     | None \<Rightarrow> (EDB_ERROR_BTREE_INVALID_KEY, 0))"
proof (induction h arbitrary: b)
  case 0
  then show ?case using leaf_get_ok [of s b key] by (simp add: lookup_def)
next
  case (Suc h)
  note n = tree_node [OF Suc.prems]
  obtain j where j: "list_find s (BLOCK s b) key = Some (int j)" "j \<le> nsz s b"
      "\<forall>i < j. nk s b i < key" "\<forall>i. j \<le> i \<longrightarrow> i < nsz s b \<longrightarrow> key \<le> nk s b i"
    using list_find_ok [OF n(1,4)] by blast
  have j32: "j < 2 ^ 32" using j(2) n(3) by simp
  have less: "to_u32 (int j) < w32 s b 4 \<longleftrightarrow> j < nsz s b" using to_u32_less [OF j32] by (simp add: nsz_def)
  show ?case
  proof (cases "j < nsz s b")
    case True
    then have child: "tree_ok s h (nv s b j)" using Suc.prems by simp
    have "btree_get s b key = btree_get s (nv s b j) key"
      using n j(1) less True by (subst btree_get.simps) (simp add: Let_def del: of_int_of_nat_eq)
    then show ?thesis
      using Suc.IH [OF child] tree_child [OF Suc.prems True j(3)] j(4) True by simp
  next
    case False
    then have "tree_lookup s (Suc h) b key = None" using tree_above [OF Suc.prems] j(2,3) by simp
    moreover have "btree_get s b key = Some (EDB_ERROR_BTREE_INVALID_KEY, 0)"
      using n j(1) less False by (subst btree_get.simps) (simp add: Let_def del: of_int_of_nat_eq)
    ultimately show ?thesis by simp
  qed
qed

lemma concat_ends:
  assumes "xs \<noteq> []" "\<forall>x \<in> set xs. x \<noteq> []"
  shows "hd (concat xs) = hd (hd xs)" "last (concat xs) = last (last xs)"
  using assms by (induction xs) (auto simp: last_append)

lemma tree_first_ok:
  "tree_ok s h b \<Longrightarrow> tree_entries s h b \<noteq> [] \<Longrightarrow> btree_first s b = Some (0, hd (tree_entries s h b))"
proof (induction h arbitrary: b)
  case 0
  note n = tree_node [OF 0(1)]
  have "0 < nsz s b" using 0(2) by (auto simp: entries_of_def)
  then have "entries_of s b \<noteq> []" "w32 s b 4 \<noteq> 0" by (auto simp: entries_of_def keys_def vals_def nsz_def)
  moreover from this(1) have "hd (entries_of s b) = (nk s b 0, nv s b 0)"
    using \<open>0 < nsz s b\<close> by (simp add: entries_of_def hd_conv_nth)
  ultimately show ?case using n read_node(3,4) [OF n(2) refl, of 0] by (subst btree_first.simps) (simp add: Let_def)
next
  case (Suc h)
  note n = tree_node [OF Suc.prems(1)]
  have c: "0 < nsz s b" "tree_ok s h (nv s b 0)" "tree_entries s h (nv s b 0) \<noteq> []"
    "\<forall>x \<in> set (map (tree_entries s h) (vals s b)). x \<noteq> []"
    using Suc.prems(1) by (auto simp: vals_def)
  have "vals s b \<noteq> []" "hd (vals s b) = nv s b 0" using c(1) by (simp_all add: vals_def hd_map)
  then have "hd (tree_entries s (Suc h) b) = hd (tree_entries s h (nv s b 0))"
    using concat_ends(1) [OF _ c(4)] by (simp add: hd_map)
  moreover have "w32 s b 4 \<noteq> 0" using c(1) by (auto simp: nsz_def)
  ultimately show ?case using n Suc.IH [OF c(2,3)] read_node(4) [OF n(2) refl, of 0]
    by (subst btree_first.simps) (simp add: Let_def case_prod_unfold)
qed

lemma tree_last_ok:
  "tree_ok s h b \<Longrightarrow> tree_entries s h b \<noteq> [] \<Longrightarrow> btree_last s b = Some (0, last (tree_entries s h b))"
proof (induction h arbitrary: b)
  case 0
  note n = tree_node [OF 0(1)]
  define m where "m = nsz s b - 1"
  have pos: "0 < nsz s b" using 0(2) by (auto simp: entries_of_def)
  then have u: "uint (w32 s b 4 - 1) = int m" "m < 510" "w32 s b 4 \<noteq> 0"
    using n(3) last_index [of s b] size_not_zero [of s b] by (auto simp: m_def)
  have ne: "entries_of s b \<noteq> []" using 0(2) by simp
  have "last (entries_of s b) = (nk s b m, nv s b m)"
    using pos unfolding last_conv_nth [OF ne] by (simp add: entries_of_def m_def)
  then show ?case using n u by (subst btree_last.simps) (simp add: Let_def)
next
  case (Suc h)
  note n = tree_node [OF Suc.prems(1)]
  define m where "m = nsz s b - 1"
  have c: "0 < nsz s b" "m < nsz s b" "tree_ok s h (nv s b m)" "tree_entries s h (nv s b m) \<noteq> []"
    "\<forall>x \<in> set (map (tree_entries s h) (vals s b)). x \<noteq> []"
    using Suc.prems(1) by (auto simp: vals_def m_def)
  have u: "uint (w32 s b 4 - 1) = int m" "m < 510" "w32 s b 4 \<noteq> 0"
    using c(1) n(3) last_index [of s b] size_not_zero [of s b] by (auto simp: m_def)
  have ne: "vals s b \<noteq> []" using c(1) by (simp add: vals_def)
  have "last (vals s b) = nv s b m" using c(1) by (simp add: last_conv_nth [OF ne] m_def)
  note this ne
  then have "last (tree_entries s (Suc h) b) = last (tree_entries s h (nv s b m))"
    using ne concat_ends(2) [OF _ c(5)] by (simp add: last_map)
  then show ?case using n u Suc.IH [OF c(3,4)]
    by (subst btree_last.simps) (simp add: Let_def case_prod_unfold)
qed

end
