(* ===== verification/Btree_Sessions.thy ===== *)
theory Btree_Sessions
  imports Btree_Correct Txn_Sessions
begin

text \<open>
  B+ trees inside a transaction: a leaf with one entry and a tree of two levels, built by
  the operations and by hand in blocks that the transaction allocated.
\<close>

lemma example_leaf:
  "\<exists>s b. txn_inv good_os 10 s \<and> 900 \<le> troom 10 s \<and> b \<in> tpriv s \<and> leaf_ok s b \<and>
     keys s b = [5] \<and> vals s b = [7] \<and> lookup s b = [5 \<mapsto> 7]"
proof -
  obtain s b where e: "txn_inv good_os 10 s" "900 \<le> troom 10 s" "b \<in> tpriv s"
    using example_item by blast
  have bo: "block_ok s b" by (rule tpriv_block_ok [OF e(1,3)])
  obtain s1 where s1: "writes_only s s1 b" "leaf_ok s1 b" "nsz s1 b = 0" "lookup s1 b = (\<lambda>_. None)"
    using btree_init_ok [OF bo] by blast
  note w1 = txn_inv_writes [OF e(1,3) s1(1)]
  obtain s2 where s2: "same_node s1 s2 b" "leaf_ok s2 b" "lookup s2 b = (lookup s1 b)(5 := Some 7)"
      "nsz s2 b = Suc (nsz s1 b)"
    using leaf_set_ok [OF s1(2), of 5 api 7] s1(3,4) by auto
  have b1: "b \<in> tpriv s1" using w1(2) e(3) by simp
  note w2 = txn_inv_writes [OF w1(1) b1 s2(1) [unfolded same_node_def, THEN conjunct1]]
  have n: "nsz s2 b = 1" using s2(4) s1(3) by simp
  have "lookup s2 b 5 = Some 7" using s2(3) by simp
  then have kv: "nk s2 b 0 = 5" "nv s2 b 0 = 7"
    using n by (auto simp: lookup_def entries_of_def keys_def vals_def split: if_splits)
  show ?thesis using w2 w1 e(2,3) s2(2,3) s1(4) n kv
    by (intro exI [of _ s2] exI [of _ b]) (simp add: keys_def vals_def)
qed

text \<open>A leaf depends on its block only\<close>

lemma leaf_cong:
  assumes "leaf_ok s b" "blk s' b = blk s b" "block_ok s' b"
  shows "leaf_ok s' b" "entries_of s' b = entries_of s b"
proof -
  note v = blk_view [OF assms(2)]
  have n: "nsz s' b = nsz s b" "nm s' b = nm s b" using v(2) by (simp_all add: nsz_def nm_def)
  have le: "nsz s b \<le> 510" using assms(1) by (simp add: leaf_ok_def node_ok_def)
  have "keys s' b = keys s b" "vals s' b = vals s b"
    using le n by (auto simp: keys_def vals_def nk_def nv_def intro!: v(2))
  then show "leaf_ok s' b" "entries_of s' b = entries_of s b"
    using assms(1,3) n by (simp_all add: leaf_ok_def node_ok_def entries_of_def)
qed

lemma example_tree:
  "\<exists>s r. tree_ok s 1 r \<and> tree_entries s 1 r = [(5, 7)]"
proof -
  obtain s b where e: "txn_inv good_os 10 s" "900 \<le> troom 10 s" "b \<in> tpriv s" "leaf_ok s b"
      "keys s b = [5]" "vals s b = [7]" using example_leaf by blast
  obtain r s1 where r: "txn_inv good_os 10 s1" "r \<notin> tpriv s" "tpriv s1 = insert r (tpriv s)" 
      "\<forall>c. unat c < unat (nblocks s) \<longrightarrow> c \<noteq> EDB_FREELIST_SECONDARY \<longrightarrow> blk s1 c = blk s c"
    using txn_allocate_ok [OF e(1), of 0] e(2) by auto
  have b: "b \<noteq> r" "b \<in> tpriv s1" "r \<in> tpriv s1" using e(3) r by auto
  have bo: "block_ok s1 r" "block_ok s1 b" using tpriv_block_ok [OF r(1)] b by auto
  have same1: "blk s1 b = blk s b" using r(4) tpriv_frame [OF e(3)] by simp
  define t where "t = set32 (set32 (set32 (set32 s1 r 0 EDB_MAGIC_BTREE) r 4 1) r (16 + 4 * 0) 5) r (2056 + 4 * 0) b"
  have w: "writes_only s1 t r"
    unfolding t_def 
    by (rule writes_only_step(1), rule writes_only_step(1), rule writes_only_step(1), rule writes_only_set(1)) simp_all
  have "blk t b = blk s b" using writes_only_blk [OF w] b(1) same1 by metis
  moreover have "block_ok t b" "block_ok t r" using block_ok_writes [OF w] bo by simp_all
  ultimately have l: "leaf_ok t b" "entries_of t b = [(5, 7)]" "block_ok t r"
    using leaf_cong [OF e(4)] e(5,6) by (simp_all add: entries_of_def)
  define t1 where "t1 = set32 (set32 s1 r 0 EDB_MAGIC_BTREE) r 4 1"
  have t: "t = set32 (set32 t1 r (16 + 4 * 0) 5) r (2056 + 4 * 0) b" by (simp add: t_def t1_def)
  have i: "(0 :: nat) < 510" by simp
  have "nsz t r = nsz t1 r" "nm t r = nm t1 r" by (simp_all only: t size_set [OF i])
  moreover have "nk t r 0 = 5" "nv t r 0 = b" by (simp_all only: t node_set [OF i i] if_True refl)
  moreover have "nsz t1 r = 1" "nm t1 r = EDB_MAGIC_BTREE" by (simp_all only: t1_def size_set [OF i] unat_1)
  ultimately have n: "nsz t r = 1" "nm t r = EDB_MAGIC_BTREE" "nk t r 0 = 5" "nv t r 0 = b" by simp_all
  have "tree_ok t 1 r" "tree_entries t 1 r = [(5, 7)]"
    using l n by (simp_all add: node_ok_def keys_def vals_def)
  then show ?thesis by blast
qed

end
