(* ===== verification/Hash_Table.thy ===== *)
theory Hash_Table
  imports Page
begin

text \<open>
  The hash table of \<open>src/src/hash.h\<close> and \<open>src/src/hash.c\<close>, as far as the code goes: a
  page table whose last words before the page header are a header with the linear-hashing
  level, the split position and the number of items.  Lookup and insertion are stubs in the
  code and always return \<open>-1\<close>.
\<close>

definition hash_header_offset :: nat where
  "hash_header_offset = BLOCK_SIZE - 12 - 4"

definition hash_hash :: "u8 list \<Rightarrow> u32 \<Rightarrow> u32" where
  "hash_hash d len = 0"

definition hash_init :: "edb \<Rightarrow> u32 \<Rightarrow> edb option" where
  "hash_init s root = page_init s root"

definition hash_nitems :: "edb \<Rightarrow> u32 \<Rightarrow> u32 option" where
  "hash_nitems s root = rd32 s (BLOCK s root) (hash_header_offset + 8)"

definition hash_get :: "edb \<Rightarrow> u32 \<Rightarrow> u8 list \<Rightarrow> u32 \<Rightarrow> int" where
  "hash_get s root key nkey = -1"

definition hash_set :: "edb \<Rightarrow> u32 \<Rightarrow> u8 list \<Rightarrow> u32 \<Rightarrow> u8 list \<Rightarrow> u32 \<Rightarrow> int \<times> edb" where
  "hash_set s root key nkey v nvalue = (-1, s)"

end
