(* ===== verification/Catch_Strings.thy ===== *)
theory Catch_Strings
  imports Prelude "HOL-Library.Char_ord" "HOL-Library.List_Lexorder" "HOL-Library.Sublist"
begin

text \<open>
  The string functions of the test framework that the repository ships
  (\<open>src/lib/catch.hpp\<close>, the parts \<open>catch_common.h\<close> and \<open>catch_common.hpp\<close>), and the
  members of \<open>std::string\<close> that they use.

  A \<open>std::string\<close> is a list of characters, a \<open>size_type\<close> a natural number and
  \<open>npos\<close> the value \<open>None\<close>.  \<open>tolower\<close> and \<open>isalnum\<close> are those of the C locale.
  Strings are compared as \<open>std::string\<close> and \<open>strcmp\<close> do: lexicographically, by
  unsigned character codes.
\<close>

subsection \<open>Members of \<open>std::string\<close>\<close>

text \<open>\<open>s.find(pat, i)\<close>: the first position from \<open>i\<close> on where \<open>pat\<close> occurs.\<close>

function find_from :: "string \<Rightarrow> string \<Rightarrow> nat \<Rightarrow> nat option" where
  "find_from s pat i =
     (if length s < i + length pat then None
      else if take (length pat) (drop i s) = pat then Some i
      else find_from s pat (Suc i))"
  by auto
termination by (relation "measure (\<lambda>(s, pat, i). Suc (length s) - i)") auto

declare find_from.simps [simp del]

definition find_first_not_of :: "string \<Rightarrow> string \<Rightarrow> nat option" where
  "find_first_not_of s cs =
     (let n = length (takeWhile (\<lambda>c. c \<in> set cs) s) in if n = length s then None else Some n)"

definition find_last_not_of :: "string \<Rightarrow> string \<Rightarrow> nat option" where
  "find_last_not_of s cs =
     map_option (\<lambda>k. length s - 1 - k) (find_first_not_of (rev s) cs)"

text \<open>\<open>s.substr(pos, n)\<close> for a position inside \<open>s\<close>\<close>

definition substr :: "string \<Rightarrow> nat \<Rightarrow> nat \<Rightarrow> string" where
  "substr s pos n = take n (drop pos s)"

subsection \<open>\<open>catch_common.hpp\<close>\<close>

definition startsWith :: "string \<Rightarrow> string \<Rightarrow> bool" where
  "startsWith s pre \<longleftrightarrow> length pre \<le> length s \<and> take (length pre) s = pre"

definition startsWithCh :: "string \<Rightarrow> char \<Rightarrow> bool" where
  "startsWithCh s c \<longleftrightarrow> s \<noteq> [] \<and> s ! 0 = c"

definition endsWith :: "string \<Rightarrow> string \<Rightarrow> bool" where
  "endsWith s suf \<longleftrightarrow> length suf \<le> length s \<and> take (length suf) (rev s) = rev suf"

definition endsWithCh :: "string \<Rightarrow> char \<Rightarrow> bool" where
  "endsWithCh s c \<longleftrightarrow> s \<noteq> [] \<and> s ! (length s - 1) = c"

definition contains :: "string \<Rightarrow> string \<Rightarrow> bool" where
  "contains s infx \<longleftrightarrow> find_from s infx 0 \<noteq> None"

definition toLowerCh :: "char \<Rightarrow> char" where
  "toLowerCh c = (if 65 \<le> (of_char c :: nat) \<and> (of_char c :: nat) \<le> 90
     then char_of ((of_char c :: nat) + 32) else c)"

definition toLower :: "string \<Rightarrow> string" where
  "toLower s = map toLowerCh s"

definition isalnum :: "char \<Rightarrow> bool" where
  "isalnum c \<longleftrightarrow> (let n = (of_char c :: nat) in
     48 \<le> n \<and> n \<le> 57 \<or> 65 \<le> n \<and> n \<le> 90 \<or> 97 \<le> n \<and> n \<le> 122)"

definition whitespaceChars :: string where
  "whitespaceChars = [CHR 0x0A, CHR 0x0D, CHR 0x09, CHR '' '']"

definition trim :: "string \<Rightarrow> string" where
  "trim str =
     (case find_first_not_of str whitespaceChars of
        None \<Rightarrow> []
      | Some start \<Rightarrow>
          (case find_last_not_of str whitespaceChars of
             None \<Rightarrow> []
           | Some e \<Rightarrow> substr str start (1 + e - start)))"

text \<open>
  The loop of \<open>replaceInPlace\<close>.  It may run forever (on an empty \<open>replaceThis\<close>), so it is a
  partial function; the lemma below says when it returns.
\<close>

partial_function (option) replace_loop ::
  "string \<Rightarrow> string \<Rightarrow> string \<Rightarrow> nat option \<Rightarrow> bool \<Rightarrow> (bool \<times> string) option"
where
  "replace_loop str replaceThis withThis i replaced =
     (case i of
        None \<Rightarrow> Some (replaced, str)
      | Some i \<Rightarrow>
          let str = substr str 0 i @ withThis @ drop (i + length replaceThis) str
          in if i < length str - length withThis
             then replace_loop str replaceThis withThis
                    (find_from str replaceThis (i + length withThis)) True
             else replace_loop str replaceThis withThis None True)"

declare replace_loop.simps [code]

definition replaceInPlace :: "string \<Rightarrow> string \<Rightarrow> string \<Rightarrow> (bool \<times> string) option" where
  "replaceInPlace str replaceThis withThis =
     replace_loop str replaceThis withThis (find_from str replaceThis 0) False"

text \<open>Writing a number to a stream in decimal.\<close>

fun show_nat :: "nat \<Rightarrow> string" where
  "show_nat n = (if n < 10 then [char_of (48 + n)] else show_nat (n div 10) @ [char_of (48 + n mod 10)])"

declare show_nat.simps [simp del]

record pluralise =
  pl_count :: nat
  pl_label :: string

definition show_pluralise :: "pluralise \<Rightarrow> string" where
  "show_pluralise p = show_nat (pl_count p) @ '' '' @ pl_label p @ (if pl_count p \<noteq> 1 then ''s'' else [])"

record SourceLineInfo =
  src_file :: string
  src_line :: nat

definition source_empty :: "SourceLineInfo \<Rightarrow> bool" where
  "source_empty i \<longleftrightarrow> src_file i = []"

definition source_eq :: "SourceLineInfo \<Rightarrow> SourceLineInfo \<Rightarrow> bool" where
  "source_eq a b \<longleftrightarrow> src_line a = src_line b \<and> src_file a = src_file b"

definition source_less :: "SourceLineInfo \<Rightarrow> SourceLineInfo \<Rightarrow> bool" where
  "source_less a b \<longleftrightarrow>
     src_line a < src_line b \<or> (src_line a = src_line b \<and> src_file a < src_file b)"

definition show_source :: "SourceLineInfo \<Rightarrow> string" where
  "show_source i = src_file i @ '':'' @ show_nat (src_line i)"

text \<open>The message of the \<open>std::logic_error\<close> that \<open>throwLogicError\<close> throws.\<close>

definition logic_error_message :: "string \<Rightarrow> SourceLineInfo \<Rightarrow> string" where
  "logic_error_message message location =
     show_source location @ '': Internal Catch error: '' @ [CHR 0x27] @ message @ [CHR 0x27]"

subsection \<open>Facts about searching\<close>

lemma find_from_Some:
  "find_from s pat i = Some k \<Longrightarrow>
     i \<le> k \<and> k + length pat \<le> length s \<and> take (length pat) (drop k s) = pat \<and>
     (\<forall>j. i \<le> j \<longrightarrow> j < k \<longrightarrow> take (length pat) (drop j s) \<noteq> pat)"
proof (induction s pat i rule: find_from.induct)
  case (1 s pat i)
  show ?case
  proof (cases "length s < i + length pat \<or> take (length pat) (drop i s) = pat")
    case True
    then show ?thesis using 1(2) by (subst (asm) find_from.simps) (auto split: if_splits)
  next
    case False
    then have "find_from s pat (Suc i) = Some k"
      using 1(2) by (subst (asm) find_from.simps) simp
    moreover have "\<not> length s < i + length pat" "take (length pat) (drop i s) \<noteq> pat"
      using False by simp_all
    ultimately have r: "Suc i \<le> k" "k + length pat \<le> length s" "take (length pat) (drop k s) = pat"
      "\<And>j. Suc i \<le> j \<Longrightarrow> j < k \<Longrightarrow> take (length pat) (drop j s) \<noteq> pat"
      using 1(1) by blast+
    have "take (length pat) (drop j s) \<noteq> pat" if "i \<le> j" "j < k" for j
      using that r(4) [of j] False by (cases "j = i") simp_all
    then show ?thesis using r(1-3) by simp
  qed
qed

lemma find_from_None:
  "find_from s pat i = None \<Longrightarrow> i \<le> j \<Longrightarrow> j + length pat \<le> length s \<Longrightarrow>
     take (length pat) (drop j s) \<noteq> pat"
proof (induction s pat i rule: find_from.induct)
  case (1 s pat i)
  have ne: "\<not> length s < i + length pat" using 1(3,4) by simp
  have h: "take (length pat) (drop i s) \<noteq> pat" "find_from s pat (Suc i) = None"
    using 1(2) ne by (subst (asm) find_from.simps, auto split: if_splits)+
  then show ?case using 1 ne by (cases "i = j") (auto simp: not_less)
qed

lemma occurrence_split:
  "k + length pat \<le> length s \<Longrightarrow> take (length pat) (drop k s) = pat \<Longrightarrow>
   s = take k s @ pat @ drop (k + length pat) s"
  by (metis add.commute append_take_drop_id drop_drop)

lemma contains_sublist: "contains s infx \<longleftrightarrow> sublist infx s"
proof
  assume "contains s infx"
  then obtain k where "find_from s infx 0 = Some k" by (auto simp: contains_def)
  then have "s = take k s @ infx @ drop (k + length infx) s"
    by (intro occurrence_split) (auto dest: find_from_Some)
  then show "sublist infx s" unfolding sublist_def by blast
next
  assume "sublist infx s"
  then obtain a b where s: "s = a @ infx @ b" by (auto simp: sublist_def)
  then have "take (length infx) (drop (length a) s) = infx" "length a + length infx \<le> length s" by simp_all
  then show "contains s infx" using find_from_None [of s infx 0 "length a"] by (auto simp: contains_def)
qed

lemma startsWith_prefix: "startsWith s pre \<longleftrightarrow> prefix pre s"
  by (auto simp: startsWith_def prefix_def dest: sym) (metis append_take_drop_id)

lemma endsWith_suffix: "endsWith s suf \<longleftrightarrow> suffix suf s"
proof -
  have "endsWith s suf \<longleftrightarrow> startsWith (rev s) (rev suf)" by (simp add: endsWith_def startsWith_def)
  then show ?thesis by (simp add: startsWith_prefix suffix_to_prefix)
qed

subsection \<open>Case folding\<close>

lemma of_char_toLowerCh:
  "(of_char (toLowerCh c) :: nat) =
     (if 65 \<le> (of_char c :: nat) \<and> (of_char c :: nat) \<le> 90 then of_char c + 32 else of_char c)"
  by (simp add: toLowerCh_def)

lemma toLowerCh_idem [simp]: "toLowerCh (toLowerCh c) = toLowerCh c"
  using of_char_toLowerCh [of c] by (subst toLowerCh_def) auto

lemma toLower_idem [simp]: "toLower (toLower s) = toLower s"
  by (simp add: toLower_def)

lemma length_toLower [simp]: "length (toLower s) = length s"
  by (simp add: toLower_def)

lemma toLower_append [simp]: "toLower (s @ t) = toLower s @ toLower t"
  by (simp add: toLower_def)

lemma toLower_Nil [simp]: "toLower [] = []" "toLower s = [] \<longleftrightarrow> s = []"
  by (simp_all add: toLower_def)

end
