(* ===== verification/Catch_Text.thy ===== *)
theory Catch_Text
  imports Catch_Strings
begin

text \<open>
  Wrapping the usage text of the command line (\<open>src/lib/catch.hpp\<close>, \<open>::Tbc::Text\<close>, the first
  of the two classes of this name in the header, the one that \<open>namespace Clara\<close> sees).

  \<open>npos\<close> is the greatest value of \<open>size_t\<close>; the places where the code compares it with a
  width or wraps around below 0 are written out.  An access behind the terminating character
  of a string and the exception that \<open>substr\<close> throws are the result \<open>None\<close>.
\<close>

definition consoleWidth :: nat where "consoleWidth = 80"

record TextAttributes =
  initialIndent :: "nat option"
  indent :: nat
  width :: nat
  tabChar :: char

definition TextAttributes_new :: TextAttributes where
  "TextAttributes_new = \<lparr>initialIndent = None, indent = 0, width = consoleWidth - 1, tabChar = CHR 0x09\<rparr>"

definition setInitialIndent :: "nat \<Rightarrow> TextAttributes \<Rightarrow> TextAttributes" where
  "setInitialIndent v a = a\<lparr>initialIndent := Some v\<rparr>"

definition setIndent :: "nat \<Rightarrow> TextAttributes \<Rightarrow> TextAttributes" where
  "setIndent v a = a\<lparr>indent := v\<rparr>"

definition setWidth :: "nat \<Rightarrow> TextAttributes \<Rightarrow> TextAttributes" where
  "setWidth v a = a\<lparr>width := v\<rparr>"

definition setTabChar :: "char \<Rightarrow> TextAttributes \<Rightarrow> TextAttributes" where
  "setTabChar v a = a\<lparr>tabChar := v\<rparr>"

text \<open>\<open>s.find_first_of(cs)\<close> and \<open>s.find_last_of(cs, pos)\<close>\<close>

definition find_first_of :: "string \<Rightarrow> string \<Rightarrow> nat option" where
  "find_first_of s cs =
     (let n = length (takeWhile (\<lambda>c. c \<notin> set cs) s) in if n = length s then None else Some n)"

definition find_last_of :: "string \<Rightarrow> string \<Rightarrow> nat \<Rightarrow> nat option" where
  "find_last_of s cs pos =
     (let t = take (Suc pos) s
      in map_option (\<lambda>k. length t - 1 - k) (find_first_of (rev t) cs))"

text \<open>\<open>s[i]\<close>, which is the terminating character at the end of the string\<close>

definition char_at :: "string \<Rightarrow> nat \<Rightarrow> char option" where
  "char_at s i = (if i < length s then Some (s ! i) else if i = length s then Some (CHR 0x00) else None)"

definition wrappableChars :: string where
  "wrappableChars = '' [({.,/|'' @ [CHR 0x5C] @ ''-''"

definition spliceLine :: "nat \<Rightarrow> string \<Rightarrow> nat \<Rightarrow> string list \<Rightarrow> (string list \<times> string) option" where
  "spliceLine ind remainder pos lns =
     (if pos \<le> length remainder
      then Some (lns @ [replicate ind (CHR '' '') @ take pos remainder], drop pos remainder)
      else None)"

record text_state =
  tx_lines :: "string list"
  tx_remainder :: string
  tx_indent :: nat

text \<open>The width of the next line, before and after a tab character is taken out.\<close>

definition line_width :: "TextAttributes \<Rightarrow> text_state \<Rightarrow> nat" where
  "line_width attr s =
     (let n = length (tx_remainder s);
          w = (if tx_indent s \<le> width attr then min n (width attr - tx_indent s) else n)
      in case find_first_of (tx_remainder s) [CHR 0x0A] of
           None \<Rightarrow> w
         | Some pos \<Rightarrow> if pos \<le> w then pos else w)"

definition take_tab :: "TextAttributes \<Rightarrow> nat \<Rightarrow> string \<Rightarrow> (nat option \<times> nat \<times> string) option" where
  "take_tab attr w remainder =
     (case find_last_of remainder [tabChar attr] w of
        None \<Rightarrow> Some (None, w, remainder)
      | Some tabPos \<Rightarrow>
          do { c \<leftarrow> char_at remainder w;
               Some (Some tabPos, if c = CHR 0x0A then w - 1 else w,
                     take tabPos remainder @ drop (Suc tabPos) remainder) })"

text \<open>The branch for a line that ends in the middle of the remaining text.\<close>

definition wrap_line ::
  "TextAttributes \<Rightarrow> nat option \<Rightarrow> nat \<Rightarrow> string \<Rightarrow> text_state \<Rightarrow> text_state option"
where
  "wrap_line attr tabPos w remainder s =
     do { (lns, r) \<leftarrow>
            (case find_last_of remainder wrappableChars w of
               Some pos \<Rightarrow>
                 if 0 < pos
                 then do { (lns, r) \<leftarrow> spliceLine (tx_indent s) remainder pos (tx_lines s);
                           Some (lns, if r \<noteq> [] \<and> r ! 0 = CHR '' '' then drop 1 r else r) }
                 else do { require (0 < w);
                           (lns, r) \<leftarrow> spliceLine (tx_indent s) remainder (w - 1) (tx_lines s);
                           Some (butlast lns @ [last lns @ ''-''], r) }
             | None \<Rightarrow>
                 do { require (0 < w);
                      (lns, r) \<leftarrow> spliceLine (tx_indent s) remainder (w - 1) (tx_lines s);
                      Some (butlast lns @ [last lns @ ''-''], r) });
          let ind = (if length lns = 1 then indent attr else tx_indent s);
          let ind = (case tabPos of None \<Rightarrow> ind | Some t \<Rightarrow> ind + t);
          Some \<lparr>tx_lines = lns, tx_remainder = r, tx_indent = ind\<rparr> }"

definition text_step :: "TextAttributes \<Rightarrow> text_state \<Rightarrow> text_state option" where
  "text_step attr s =
     do { (tabPos, w, remainder) \<leftarrow> take_tab attr (line_width attr s) (tx_remainder s);
          if w = length remainder
          then do { (lns, r) \<leftarrow> spliceLine (tx_indent s) remainder w (tx_lines s);
                    Some (s\<lparr>tx_lines := lns, tx_remainder := r\<rparr>) }
          else do { c \<leftarrow> char_at remainder w;
                    if c = CHR 0x0A
                    then do { (lns, r) \<leftarrow> spliceLine (tx_indent s) remainder w (tx_lines s);
                              Some \<lparr>tx_lines = lns,
                                    tx_remainder = (if w \<le> 1 \<or> length r \<noteq> 1 then drop 1 r else r),
                                    tx_indent = indent attr\<rparr> }
                    else wrap_line attr tabPos w remainder s } }"

lemma spliceLine_length:
  "spliceLine ind r pos lns = Some (lns', r') \<Longrightarrow> length lns' = Suc (length lns)"
  by (auto simp: spliceLine_def split: if_splits)

lemma wrap_line_length:
  "wrap_line attr t w r s = Some s' \<Longrightarrow> length (tx_lines s') = Suc (length (tx_lines s))"
  by (auto simp: wrap_line_def Let_def split: option.splits if_splits bind_splits
      dest!: spliceLine_length)

lemma text_step_length:
  "text_step attr s = Some s' \<Longrightarrow> length (tx_lines s') = Suc (length (tx_lines s))"
  by (auto simp: text_step_def split: if_splits bind_splits
      dest!: spliceLine_length wrap_line_length)

text \<open>
  The loop of the constructor; each round adds a line, and at 1000 lines the text is cut, so
  the loop ends on every input.
\<close>

function text_loop :: "TextAttributes \<Rightarrow> text_state \<Rightarrow> string list option" where
  "text_loop attr s =
     (if tx_remainder s = [] then Some (tx_lines s)
      else if 1000 \<le> length (tx_lines s)
      then Some (tx_lines s @ [''... message truncated due to excessive size''])
      else (case text_step attr s of None \<Rightarrow> None | Some s' \<Rightarrow> text_loop attr s'))"
  by auto
termination
  by (relation "measure (\<lambda>(attr, s). 1000 - length (tx_lines s))") (auto dest: text_step_length)

declare text_loop.simps [simp del]

definition Text :: "string \<Rightarrow> TextAttributes \<Rightarrow> string list option" where
  "Text str attr =
     text_loop attr \<lparr>tx_lines = [], tx_remainder = str,
       tx_indent = (case initialIndent attr of None \<Rightarrow> indent attr | Some i \<Rightarrow> i)\<rparr>"

fun show_lines :: "string list \<Rightarrow> string" where
  "show_lines [] = []"
| "show_lines [l] = l"
| "show_lines (l # m # ls) = l @ [CHR 0x0A] @ show_lines (m # ls)"

end
