(* ===== verification/Catch_Clara.thy ===== *)
theory Catch_Clara
  imports Catch_Text "HOL-Library.AList"
begin

text \<open>
  The command-line parser of the test framework (\<open>src/lib/catch.hpp\<close>, \<open>Clara\<close>): the
  tokenizer \<open>Parser\<close>, conversion of values, and \<open>CommandLine\<close>, which matches tokens with
  options and positional arguments and stores their values in a configuration.

  The configuration is a type parameter.  The function that an argument is bound to maps a
  configuration and a text to the new configuration and, when it throws, the message of the
  exception; the configuration may have changed before that.
\<close>

subsection \<open>The tokenizer\<close>

datatype token_type = Positional_token | ShortOpt_token | LongOpt_token

record Token =
  tok_type :: token_type
  tok_data :: string

datatype parser_mode = M_None | M_MaybeShortOpt | M_SlashOpt | M_ShortOpt | M_LongOpt | M_Positional

record Parser =
  ps_mode :: parser_mode
  ps_from :: nat
  ps_inQuotes :: bool
  ps_tokens :: "Token list"

definition Parser_new :: Parser where
  "Parser_new = \<lparr>ps_mode = M_None, ps_from = 0, ps_inQuotes = False, ps_tokens = []\<rparr>"

text \<open>\<open>arg.substr(from, i - from)\<close>, which throws when \<open>from\<close> is behind the end\<close>

definition sub_from :: "string \<Rightarrow> nat \<Rightarrow> nat \<Rightarrow> string option" where
  "sub_from arg from i =
     (if from \<le> length arg then Some (if from \<le> i then substr arg from (i - from) else drop from arg)
      else None)"

definition handleNone :: "nat \<Rightarrow> char \<Rightarrow> Parser \<Rightarrow> Parser" where
  "handleNone i c p =
     (if ps_inQuotes p then p\<lparr>ps_from := i, ps_mode := M_Positional\<rparr>
      else if c = CHR ''-'' then p\<lparr>ps_mode := M_MaybeShortOpt\<rparr>
      else p\<lparr>ps_from := i, ps_mode := M_Positional\<rparr>)"

definition handleMaybeShortOpt :: "nat \<Rightarrow> char \<Rightarrow> Parser \<Rightarrow> Parser" where
  "handleMaybeShortOpt i c p =
     (if c = CHR ''-'' then p\<lparr>ps_from := i + 1, ps_mode := M_LongOpt\<rparr>
      else p\<lparr>ps_from := i, ps_mode := M_ShortOpt\<rparr>)"

definition handleOpt :: "nat \<Rightarrow> char \<Rightarrow> string \<Rightarrow> Parser \<Rightarrow> Parser option" where
  "handleOpt i c arg p =
     (if c \<notin> set [CHR '':'', CHR ''='', CHR 0x00] then Some p
      else do { optName \<leftarrow> sub_from arg (ps_from p) i;
                Some (p\<lparr>ps_mode := M_None,
                  ps_tokens := ps_tokens p @
                    (if ps_mode p = M_ShortOpt
                     then map (\<lambda>d. \<lparr>tok_type = ShortOpt_token, tok_data = [d]\<rparr>) optName
                     else if ps_mode p = M_SlashOpt \<and> length optName = 1
                     then [\<lparr>tok_type = ShortOpt_token, tok_data = optName\<rparr>]
                     else [\<lparr>tok_type = LongOpt_token, tok_data = optName\<rparr>])\<rparr>) })"

definition handlePositional :: "nat \<Rightarrow> char \<Rightarrow> string \<Rightarrow> Parser \<Rightarrow> Parser option" where
  "handlePositional i c arg p =
     (if ps_inQuotes p \<or> c \<noteq> CHR 0x00 then Some p
      else do { d \<leftarrow> sub_from arg (ps_from p) i;
                Some (p\<lparr>ps_mode := M_None,
                  ps_tokens := ps_tokens p @ [\<lparr>tok_type = Positional_token, tok_data = d\<rparr>]\<rparr>) })"

definition handleMode :: "nat \<Rightarrow> char \<Rightarrow> string \<Rightarrow> Parser \<Rightarrow> Parser option" where
  "handleMode i c arg p =
     (case ps_mode p of
        M_None \<Rightarrow> Some (handleNone i c p)
      | M_MaybeShortOpt \<Rightarrow> Some (handleMaybeShortOpt i c p)
      | M_Positional \<Rightarrow> handlePositional i c arg p
      | _ \<Rightarrow> handleOpt i c arg p)"

text \<open>The loop over the characters of an argument; \<open>cs\<close> are those from position \<open>i\<close> on.\<close>

fun parse_chars :: "nat \<Rightarrow> string \<Rightarrow> string \<Rightarrow> Parser \<Rightarrow> Parser option" where
  "parse_chars i arg [] p = Some p"
| "parse_chars i arg (c # cs) p =
     (let p = (if c = CHR 0x22 then p\<lparr>ps_inQuotes := \<not> ps_inQuotes p\<rparr> else p)
      in do { p \<leftarrow> handleMode i c arg p; parse_chars (Suc i) arg cs p })"

definition parseArg :: "string \<Rightarrow> Parser \<Rightarrow> Parser option" where
  "parseArg arg p =
     do { p \<leftarrow> parse_chars 0 arg arg p; handleMode (length arg) (CHR 0x00) arg p }"

fun parseArgs :: "string list \<Rightarrow> Parser \<Rightarrow> Parser option" where
  "parseArgs [] p = Some p"
| "parseArgs (arg # args) p =
     (if arg = ''--'' then Some p else do { p \<leftarrow> parseArg arg p; parseArgs args p })"

text \<open>\<open>parseIntoTokens\<close>: the first element of \<open>argv\<close> is the name of the process.\<close>

definition parseIntoTokens :: "string list \<Rightarrow> Token list option" where
  "parseIntoTokens args = map_option ps_tokens (parseArgs (drop 1 args) Parser_new)"

subsection \<open>Conversion of values\<close>

definition convert_bool :: "string \<Rightarrow> string + bool" where
  "convert_bool source =
     (let lc = toLower source
      in if lc \<in> set [''y'', ''1'', ''true'', ''yes'', ''on''] then Inr True
         else if lc \<in> set [''n'', ''0'', ''false'', ''no'', ''off''] then Inr False
         else Inl (''Expected a boolean value but did not recognise:'' @ [CHR 0x0A] @ ''  '' @
                   [CHR 0x27] @ source @ [CHR 0x27]))"

definition is_digit :: "char \<Rightarrow> bool" where
  "is_digit c \<longleftrightarrow> 48 \<le> (of_char c :: nat) \<and> (of_char c :: nat) \<le> 57"

definition is_space :: "char \<Rightarrow> bool" where
  "is_space c \<longleftrightarrow> (of_char c :: nat) = 32 \<or> 9 \<le> (of_char c :: nat) \<and> (of_char c :: nat) \<le> 13"

fun read_digits :: "string \<Rightarrow> nat \<Rightarrow> nat" where
  "read_digits [] n = n"
| "read_digits (c # cs) n = read_digits cs (10 * n + (of_char c - 48))"

text \<open>\<open>ss >> n\<close>: blanks, a sign and decimal digits; the number as written, or failure.\<close>

definition stream_number :: "string \<Rightarrow> (bool \<times> nat) option" where
  "stream_number source =
     (let s = dropWhile is_space source;
          neg = startsWithCh s (CHR ''-'');
          s = (if neg \<or> startsWithCh s (CHR ''+'') then drop 1 s else s);
          ds = takeWhile is_digit s
      in if ds = [] then None else Some (neg, read_digits ds 0))"

definition stream_int :: "string \<Rightarrow> int option" where
  "stream_int source =
     (case stream_number source of
        None \<Rightarrow> None
      | Some (neg, n) \<Rightarrow>
          let v = (if neg then - int n else int n)
          in if - (2 ^ 31) \<le> v \<and> v < 2 ^ 31 then Some v else None)"

definition stream_unsigned :: "string \<Rightarrow> u32 option" where
  "stream_unsigned source =
     (case stream_number source of
        None \<Rightarrow> None
      | Some (neg, n) \<Rightarrow>
          if n < 2 ^ 32 then Some (if neg then - word_of_nat n else word_of_nat n) else None)"

definition convert_int :: "string \<Rightarrow> string + int" where
  "convert_int source =
     (case stream_int source of
        None \<Rightarrow> Inl (''Unable to convert '' @ source @ '' to destination type'')
      | Some v \<Rightarrow> Inr v)"

subsection \<open>Bound functions\<close>

type_synonym 'c bound = "'c \<Rightarrow> string \<Rightarrow> 'c \<times> string option"

text \<open>\<open>NullBinder\<close>, \<open>BoundDataMember\<close> and the binders of free functions\<close>

definition NullBinder :: "'c bound" where
  "NullBinder c v = (c, None)"

definition bound_string :: "('c \<Rightarrow> string \<Rightarrow> 'c) \<Rightarrow> 'c bound" where
  "bound_string setter c v = (setter c v, None)"

definition bound_bool :: "('c \<Rightarrow> bool \<Rightarrow> 'c) \<Rightarrow> 'c bound" where
  "bound_bool setter c v =
     (case convert_bool v of Inl e \<Rightarrow> (c, Some e) | Inr b \<Rightarrow> (setter c b, None))"

definition bound_unary :: "('c \<Rightarrow> 'c) \<Rightarrow> 'c bound" where
  "bound_unary f c v =
     (case convert_bool v of Inl e \<Rightarrow> (c, Some e) | Inr b \<Rightarrow> (if b then f c else c, None))"

definition bound_binary :: "(string \<Rightarrow> string + 'v) \<Rightarrow> ('c \<Rightarrow> 'v \<Rightarrow> 'c \<times> string option) \<Rightarrow> 'c bound" where
  "bound_binary convert f c v =
     (case convert v of Inl e \<Rightarrow> (c, Some e) | Inr x \<Rightarrow> f c x)"

subsection \<open>Arguments\<close>

record 'c Arg =
  boundField :: "'c bound option"
  description :: string
  detail :: string
  placeholder :: string
  shortNames :: "string list"
  longName :: string
  position :: int

definition Arg_new :: "'c Arg" where
  "Arg_new = \<lparr>boundField = None, description = [], detail = [], placeholder = [], shortNames = [],
     longName = [], position = -1\<rparr>"

definition takesArg :: "'c Arg \<Rightarrow> bool" where
  "takesArg a \<longleftrightarrow> placeholder a \<noteq> []"

definition hasShortName :: "'c Arg \<Rightarrow> string \<Rightarrow> bool" where
  "hasShortName a shortName \<longleftrightarrow> shortName \<in> set (shortNames a)"

definition hasLongName :: "'c Arg \<Rightarrow> string \<Rightarrow> bool" where
  "hasLongName a name \<longleftrightarrow> name = longName a"

definition isFixedPositional :: "'c Arg \<Rightarrow> bool" where
  "isFixedPositional a \<longleftrightarrow> position a \<noteq> -1"

definition dbgName :: "'c Arg \<Rightarrow> string" where
  "dbgName a =
     (if longName a \<noteq> [] then ''--'' @ longName a
      else if shortNames a \<noteq> [] then ''-'' @ hd (shortNames a)
      else ''positional args'')"

fun show_shortNames :: "bool \<Rightarrow> string list \<Rightarrow> string" where
  "show_shortNames first [] = []"
| "show_shortNames first (n # ns) =
     (if first then [] else '', '') @ ''-'' @ n @ show_shortNames False ns"

definition commands :: "'c Arg \<Rightarrow> string" where
  "commands a =
     show_shortNames True (shortNames a) @
     (if longName a \<noteq> [] then (if shortNames a \<noteq> [] then '', '' else []) @ ''--'' @ longName a else []) @
     (if placeholder a \<noteq> [] then '' <'' @ placeholder a @ ''>'' else [])"

definition clara_startsWith :: "string \<Rightarrow> string \<Rightarrow> bool" where
  "clara_startsWith str pre \<longleftrightarrow> length pre \<le> length str \<and> substr str 0 (length pre) = pre"

definition addOptName :: "string \<Rightarrow> 'c Arg \<Rightarrow> string + 'c Arg" where
  "addOptName optName a =
     (if optName = [] then Inr a
      else if clara_startsWith optName ''--''
      then if longName a \<noteq> []
           then Inl (''Only one long opt may be specified. '' @ [CHR 0x27] @ longName a @ [CHR 0x27] @
                     '' already specified, now attempting to add '' @ [CHR 0x27] @ optName @ [CHR 0x27])
           else Inr (a\<lparr>longName := drop 2 optName\<rparr>)
      else if clara_startsWith optName ''-'' then Inr (a\<lparr>shortNames := shortNames a @ [drop 1 optName]\<rparr>)
      else Inl (''option must begin with - or --. Option was: '' @ [CHR 0x27] @ optName @ [CHR 0x27]))"

definition setPositionalArg :: "int \<Rightarrow> 'c Arg \<Rightarrow> 'c Arg" where
  "setPositionalArg pos a = a\<lparr>position := pos\<rparr>"

text \<open>\<open>ArgBuilder\<close>: the overloads of \<open>bind\<close> with and without a placeholder\<close>

definition bind_arg :: "'c bound \<Rightarrow> string \<Rightarrow> 'c Arg \<Rightarrow> 'c Arg" where
  "bind_arg f ph a = a\<lparr>boundField := Some f, placeholder := ph\<rparr>"

definition bind_flag :: "'c bound \<Rightarrow> 'c Arg \<Rightarrow> 'c Arg" where
  "bind_flag f a = a\<lparr>boundField := Some f\<rparr>"

definition describe :: "string \<Rightarrow> 'c Arg \<Rightarrow> 'c Arg" where
  "describe d a = a\<lparr>description := d\<rparr>"

definition set_detail :: "string \<Rightarrow> 'c Arg \<Rightarrow> 'c Arg" where
  "set_detail d a = a\<lparr>detail := d\<rparr>"

subsection \<open>The command line\<close>

record 'c CommandLine =
  boundProcessName :: "'c bound"
  options :: "'c Arg list"
  positionalArgs :: "(int \<times> 'c Arg) list"
  floatingArg :: "'c Arg option"
  highestSpecifiedArgPosition :: int
  throwOnUnrecognisedTokens :: bool

definition CommandLine_new :: "'c CommandLine" where
  "CommandLine_new = \<lparr>boundProcessName = NullBinder, options = [], positionalArgs = [],
     floatingArg = None, highestSpecifiedArgPosition = 0, throwOnUnrecognisedTokens = False\<rparr>"

definition setThrowOnUnrecognisedTokens :: "bool \<Rightarrow> 'c CommandLine \<Rightarrow> 'c CommandLine" where
  "setThrowOnUnrecognisedTokens shouldThrow cli = cli\<lparr>throwOnUnrecognisedTokens := shouldThrow\<rparr>"

fun addOptNames :: "string list \<Rightarrow> 'c Arg \<Rightarrow> string + 'c Arg" where
  "addOptNames [] a = Inr a"
| "addOptNames (n # ns) a = (case addOptName n a of Inl e \<Rightarrow> Inl e | Inr a \<Rightarrow> addOptNames ns a)"

text \<open>\<open>cli[n1][n2]...\<close> for option names, \<open>cli[position]\<close> and \<open>cli[_]\<close>; \<open>build\<close> is what the
  builder that they return is used for.\<close>

definition add_option ::
  "string list \<Rightarrow> ('c Arg \<Rightarrow> 'c Arg) \<Rightarrow> 'c CommandLine \<Rightarrow> string + 'c CommandLine"
where
  "add_option names build cli =
     (case addOptNames names Arg_new of
        Inl e \<Rightarrow> Inl e
      | Inr a \<Rightarrow> Inr (cli\<lparr>options := options cli @ [build a]\<rparr>))"

definition add_positional :: "int \<Rightarrow> ('c Arg \<Rightarrow> 'c Arg) \<Rightarrow> 'c CommandLine \<Rightarrow> 'c CommandLine" where
  "add_positional pos build cli =
     (let a = (case map_of (positionalArgs cli) pos of None \<Rightarrow> Arg_new | Some a \<Rightarrow> a)
      in cli\<lparr>positionalArgs := AList.update pos (build (setPositionalArg pos a)) (positionalArgs cli),
             highestSpecifiedArgPosition := max pos (highestSpecifiedArgPosition cli)\<rparr>)"

definition add_floating :: "('c Arg \<Rightarrow> 'c Arg) \<Rightarrow> 'c CommandLine \<Rightarrow> string + 'c CommandLine" where
  "add_floating build cli =
     (if floatingArg cli \<noteq> None then Inl ''Only one unpositional argument can be added''
      else Inr (cli\<lparr>floatingArg := Some (build Arg_new)\<rparr>))"

definition validate :: "'c CommandLine \<Rightarrow> string + unit" where
  "validate cli =
     (if options cli = [] \<and> positionalArgs cli = [] \<and> floatingArg cli = None
      then Inl ''No options or arguments specified''
      else if \<exists>a \<in> set (options cli). boundField a = None then Inl ''option not bound''
      else Inr ())"

end
