(* ===== verification/Catch_Clara_Correct.thy ===== *)
theory Catch_Clara_Correct
  imports Catch_Clara
begin

text \<open>
  Correctness of the tokenizer of the command line parser: words, short options, long options and
  long options with a value give the tokens they should, in any sequence; and what a lone dash
  does to the argument after it.
\<close>

subsection \<open>Forms of arguments\<close>

text \<open>A text without quotes, delimiters and terminating characters\<close>

definition bare :: "string \<Rightarrow> bool" where
  "bare s \<longleftrightarrow> set s \<inter> {CHR 0x22, CHR '':'', CHR ''='', CHR 0x00} = {}"

definition bare_positional :: "string \<Rightarrow> bool" where
  "bare_positional s \<longleftrightarrow> s \<noteq> [] \<and> hd s \<noteq> CHR ''-'' \<and> CHR 0x22 \<notin> set s \<and> CHR 0x00 \<notin> set s"

text \<open>The parser between two arguments\<close>

definition idle :: "Parser \<Rightarrow> bool" where
  "idle p \<longleftrightarrow> ps_mode p = M_None \<and> \<not> ps_inQuotes p"

lemma parse_chars_opt:
  "bare cs \<Longrightarrow> \<not> ps_inQuotes p \<Longrightarrow> ps_mode p \<in> {M_ShortOpt, M_LongOpt} \<Longrightarrow>
   parse_chars i arg (cs @ rest) p = parse_chars (i + length cs) arg rest p"
proof (induction cs arbitrary: i)
  case (Cons c cs)
  have c: "c \<noteq> CHR 0x22" "c \<notin> {CHR '':'', CHR ''='', CHR 0x00}" and b: "bare cs"
    using Cons.prems(1) by (auto simp: bare_def)
  have "handleMode i c arg p = Some p" using c Cons.prems(3) by (auto simp: handleMode_def handleOpt_def)
  then show ?case using Cons.IH [OF b Cons.prems(2,3), of "Suc i"] c(1) by simp
qed simp

lemma parse_chars_pos:
  "CHR 0x22 \<notin> set cs \<Longrightarrow> CHR 0x00 \<notin> set cs \<Longrightarrow> \<not> ps_inQuotes p \<Longrightarrow> ps_mode p = M_Positional \<Longrightarrow>
   parse_chars i arg cs p = Some p"
proof (induction cs arbitrary: i)
  case (Cons c cs)
  then have "handleMode i c arg p = Some p" by (auto simp: handleMode_def handlePositional_def)
  then show ?case using Cons by auto
qed simp

lemma sub_from_whole: "k \<le> length arg \<Longrightarrow> sub_from arg k (length arg) = Some (drop k arg)"
  by (simp add: sub_from_def substr_def)

lemma parseArg_word:
  assumes "idle p" "bare_positional w"
  shows "\<exists>q. parseArg w p = Some q \<and> idle q \<and> ps_tokens q = ps_tokens p @ [\<lparr>tok_type = Positional_token, tok_data = w\<rparr>]"
proof -
  obtain c cs where w: "w = c # cs" "c \<noteq> CHR ''-''" "c \<noteq> CHR 0x22" "CHR 0x22 \<notin> set cs" "CHR 0x00 \<notin> set cs"
    using assms(2) by (cases w) (auto simp: bare_positional_def)
  define p1 where "p1 = p\<lparr>ps_from := 0, ps_mode := M_Positional\<rparr>"
  have "parse_chars 0 w w p = Some p1"
    using assms(1) w parse_chars_pos [of cs p1 "Suc 0" w]
    by (simp add: idle_def handleMode_def handleNone_def p1_def)
  moreover have "handleMode (length w) (CHR 0x00) w p1 = Some (p1\<lparr>ps_mode := M_None,
      ps_tokens := ps_tokens p @ [\<lparr>tok_type = Positional_token, tok_data = w\<rparr>]\<rparr>)"
    using assms(1) sub_from_whole [of 0 w] by (simp add: handleMode_def handlePositional_def p1_def idle_def)
  ultimately show ?thesis using assms(1) by (simp add: parseArg_def p1_def idle_def)
qed

lemma parseArg_short:
  assumes "idle p" "bare ns" "ns \<noteq> []" "hd ns \<noteq> CHR ''-''"
  shows "\<exists>q. parseArg (CHR ''-'' # ns) p = Some q \<and> idle q \<and>
    ps_tokens q = ps_tokens p @ map (\<lambda>c. \<lparr>tok_type = ShortOpt_token, tok_data = [c]\<rparr>) ns"
proof -
  let ?arg = "CHR ''-'' # ns"
  obtain c cs where ns: "ns = c # cs" "c \<noteq> CHR ''-''" "c \<noteq> CHR 0x22" "bare cs"
    using assms(2-4) by (cases ns) (auto simp: bare_def)
  define p1 where "p1 = p\<lparr>ps_from := 1, ps_mode := M_ShortOpt\<rparr>"
  have "parse_chars 0 ?arg ?arg p = Some p1"
    using assms(1) ns parse_chars_opt [of cs p1 "2" ?arg "[]"]
    by (simp add: idle_def handleMode_def handleNone_def handleMaybeShortOpt_def p1_def numeral_2_eq_2)
  moreover have "handleMode (length ?arg) (CHR 0x00) ?arg p1 = Some (p1\<lparr>ps_mode := M_None,
      ps_tokens := ps_tokens p @ map (\<lambda>c. \<lparr>tok_type = ShortOpt_token, tok_data = [c]\<rparr>) ns\<rparr>)"
    using sub_from_whole [of 1 ?arg] by (simp add: handleMode_def handleOpt_def p1_def)
  ultimately show ?thesis using assms(1) by (simp add: parseArg_def p1_def idle_def)
qed

lemma parse_chars_long:
  assumes "idle p" "bare name"
  shows "parse_chars 0 arg (''--'' @ name @ rest) p =
    parse_chars (2 + length name) arg rest (p\<lparr>ps_from := 2, ps_mode := M_LongOpt\<rparr>)"
  using assms parse_chars_opt [of name "p\<lparr>ps_from := 2, ps_mode := M_LongOpt\<rparr>" "2" arg rest]
  by (simp add: idle_def handleMode_def handleNone_def handleMaybeShortOpt_def numeral_2_eq_2)

lemma parseArg_long:
  assumes "idle p" "bare name"
  shows "\<exists>q. parseArg (''--'' @ name) p = Some q \<and> idle q \<and>
    ps_tokens q = ps_tokens p @ [\<lparr>tok_type = LongOpt_token, tok_data = name\<rparr>]"
  using parse_chars_long [OF assms, of "''--'' @ name" "[]"] assms(1) sub_from_whole [of 2 "''--'' @ name"]
  by (simp add: parseArg_def handleMode_def handleOpt_def idle_def)

lemma parseArg_long_value:
  assumes "idle p" "bare name" "d = CHR ''='' \<or> d = CHR '':''" "bare_positional v"
  shows "\<exists>q. parseArg (''--'' @ name @ d # v) p = Some q \<and> idle q \<and>
    ps_tokens q = ps_tokens p @ [\<lparr>tok_type = LongOpt_token, tok_data = name\<rparr>,
      \<lparr>tok_type = Positional_token, tok_data = v\<rparr>]"
proof -
  let ?arg = "''--'' @ name @ d # v" and ?i = "2 + length name"
  obtain c cs where v: "v = c # cs" "c \<noteq> CHR ''-''" "c \<noteq> CHR 0x22" "CHR 0x22 \<notin> set cs" "CHR 0x00 \<notin> set cs"
    using assms(4) by (cases v) (auto simp: bare_positional_def)
  define p1 where "p1 = p\<lparr>ps_from := 2, ps_mode := M_LongOpt\<rparr>"
  define p2 where "p2 = p1\<lparr>ps_mode := M_None, ps_tokens := ps_tokens p @ [\<lparr>tok_type = LongOpt_token, tok_data = name\<rparr>]\<rparr>"
  define p3 where "p3 = p2\<lparr>ps_from := Suc ?i, ps_mode := M_Positional\<rparr>"
  have q: "\<not> ps_inQuotes p" using assms(1) by (simp add: idle_def)
  have "sub_from ?arg 2 ?i = Some name" by (simp add: sub_from_def substr_def)
  then have s2: "handleMode ?i d ?arg p1 = Some p2"
    using assms(3) by (auto simp: handleMode_def handleOpt_def p1_def p2_def)
  have s3: "handleMode (Suc ?i) c ?arg p2 = Some p3"
    using q v by (simp add: handleMode_def handleNone_def p3_def p2_def p1_def)
  have "parse_chars 0 ?arg ?arg p = parse_chars ?i ?arg (d # v) p1"
    unfolding p1_def by (rule parse_chars_long [OF assms(1,2)])
  also have "\<dots> = parse_chars (Suc (Suc ?i)) ?arg cs p3"
    using assms(3) s2 s3 v by auto
  also have "\<dots> = Some p3"
    using q v by (intro parse_chars_pos) (simp_all add: p3_def p2_def p1_def)
  finally have "parse_chars 0 ?arg ?arg p = Some p3" .
  moreover have "handleMode (length ?arg) (CHR 0x00) ?arg p3 = Some (p3\<lparr>ps_mode := M_None,
      ps_tokens := ps_tokens p2 @ [\<lparr>tok_type = Positional_token, tok_data = v\<rparr>]\<rparr>)"
    using sub_from_whole [of "Suc ?i" ?arg] q
    by (simp add: handleMode_def handlePositional_def p3_def p2_def p1_def)
  ultimately show ?thesis using q by (simp add: parseArg_def p3_def p2_def p1_def idle_def)
qed

subsection \<open>Whole command lines\<close>

datatype cl_arg = Cl_word string | Cl_shorts string | Cl_long string | Cl_long_value string char string

primrec cl_ok :: "cl_arg \<Rightarrow> bool" where
  "cl_ok (Cl_word w) \<longleftrightarrow> bare_positional w"
| "cl_ok (Cl_shorts ns) \<longleftrightarrow> bare ns \<and> ns \<noteq> [] \<and> hd ns \<noteq> CHR ''-''"
| "cl_ok (Cl_long name) \<longleftrightarrow> bare name \<and> name \<noteq> []"
| "cl_ok (Cl_long_value name d v) \<longleftrightarrow> bare name \<and> (d = CHR ''='' \<or> d = CHR '':'') \<and> bare_positional v"

primrec cl_text :: "cl_arg \<Rightarrow> string" where
  "cl_text (Cl_word w) = w"
| "cl_text (Cl_shorts ns) = CHR ''-'' # ns"
| "cl_text (Cl_long name) = ''--'' @ name"
| "cl_text (Cl_long_value name d v) = ''--'' @ name @ d # v"

primrec cl_tokens :: "cl_arg \<Rightarrow> Token list" where
  "cl_tokens (Cl_word w) = [\<lparr>tok_type = Positional_token, tok_data = w\<rparr>]"
| "cl_tokens (Cl_shorts ns) = map (\<lambda>c. \<lparr>tok_type = ShortOpt_token, tok_data = [c]\<rparr>) ns"
| "cl_tokens (Cl_long name) = [\<lparr>tok_type = LongOpt_token, tok_data = name\<rparr>]"
| "cl_tokens (Cl_long_value name d v) = [\<lparr>tok_type = LongOpt_token, tok_data = name\<rparr>,
     \<lparr>tok_type = Positional_token, tok_data = v\<rparr>]"

lemma parseArg_cl:
  assumes "idle p" "cl_ok a"
  shows "\<exists>q. parseArg (cl_text a) p = Some q \<and> idle q \<and> ps_tokens q = ps_tokens p @ cl_tokens a"
proof (cases a)
  case (Cl_word w) then show ?thesis using parseArg_word assms by simp
next
  case (Cl_shorts ns) then show ?thesis using parseArg_short assms by simp
next
  case (Cl_long n) then show ?thesis using parseArg_long [of p n] assms by simp
next
  case (Cl_long_value n d v) then show ?thesis using parseArg_long_value [of p n d v] assms by simp
qed

lemma cl_text_dashes: "cl_ok a \<Longrightarrow> cl_text a \<noteq> ''--''"
  by (cases a) (auto simp: bare_positional_def)

lemma parseArgs_cl:
  "idle p \<Longrightarrow> \<forall>a \<in> set as. cl_ok a \<Longrightarrow>
   \<exists>q. (\<forall>rest. parseArgs (map cl_text as @ rest) p = parseArgs rest q) \<and> idle q \<and>
     ps_tokens q = ps_tokens p @ concat (map cl_tokens as)"
proof (induction as arbitrary: p)
  case (Cons a as)
  obtain q where q: "parseArg (cl_text a) p = Some q" "idle q" "ps_tokens q = ps_tokens p @ cl_tokens a"
    using parseArg_cl [OF Cons.prems(1)] Cons.prems(2) by auto
  show ?case using Cons.IH [OF q(2)] Cons.prems(2) q cl_text_dashes [of a] by auto
qed auto

text \<open>A lone dash leaves the parser inside an option: the next argument is read as one.\<close>

lemma lone_dash:
  assumes "idle p" "bare w" "w \<noteq> []" "w \<noteq> ''--''"
  shows "\<exists>q. parseArgs [''-'', w] p = Some q \<and>
    ps_tokens q = ps_tokens p @ map (\<lambda>c. \<lparr>tok_type = ShortOpt_token, tok_data = [c]\<rparr>) (tl w)"
proof -
  define p1 where "p1 = p\<lparr>ps_from := 1, ps_mode := M_ShortOpt\<rparr>"
  have "parseArg ''-'' p = Some p1"
    using assms(1) by (simp add: parseArg_def idle_def handleMode_def handleNone_def handleMaybeShortOpt_def p1_def)
  moreover have "parse_chars 0 w w p1 = Some p1"
    using parse_chars_opt [of w p1 0 w "[]"] assms by (simp add: p1_def idle_def)
  moreover have "handleMode (length w) (CHR 0x00) w p1 = Some (p1\<lparr>ps_mode := M_None,
      ps_tokens := ps_tokens p @ map (\<lambda>c. \<lparr>tok_type = ShortOpt_token, tok_data = [c]\<rparr>) (tl w)\<rparr>)"
    using sub_from_whole [of 1 w] assms(3) by (cases w) (simp_all add: handleMode_def handleOpt_def p1_def)
  ultimately show ?thesis using assms(4) by (simp add: parseArg_def)
qed

end
