(* ===== verification/Catch_CommandLine.thy ===== *)
theory Catch_CommandLine
  imports Catch_Clara
begin

text \<open>
  Parsing a command line into a configuration and printing its usage (\<open>src/lib/catch.hpp\<close>,
  the members of \<open>Clara::CommandLine\<close> after its construction).

  A parse yields the configuration, changed as far as the parse got, and either the message
  of the exception that it throws or the tokens it did not use.  \<open>None\<close> is a call through a
  function pointer that was never bound.
\<close>

type_synonym 'c parsed = "('c \<times> (string + Token list)) option"

definition set_field :: "'c Arg \<Rightarrow> 'c \<Rightarrow> string \<Rightarrow> ('c \<times> string option) option" where
  "set_field a c v = (case boundField a of None \<Rightarrow> None | Some f \<Rightarrow> Some (f c v))"

definition arg_matches :: "Token \<Rightarrow> 'c Arg \<Rightarrow> bool" where
  "arg_matches tok a \<longleftrightarrow>
     (tok_type tok = ShortOpt_token \<and> hasShortName a (tok_data tok)) \<or>
     (tok_type tok = LongOpt_token \<and> hasLongName a (tok_data tok))"

definition parse_error :: "string \<Rightarrow> 'c Arg \<Rightarrow> string" where
  "parse_error what a = what @ [CHR 0x0A] @ ''- while parsing: ('' @ commands a @ '')''"

text \<open>
  The loop over the options for one token.  \<open>rest\<close> are the tokens after it; an option that takes
  an argument consumes one of them.  An exception of a bound function is recorded, and the
  loop goes on with the next option.  The last component says whether the loop was left by
  \<open>break\<close>.
\<close>

fun match_options ::
  "Token \<Rightarrow> 'c Arg list \<Rightarrow> Token list \<Rightarrow> 'c \<Rightarrow> string list \<Rightarrow> (Token list \<times> 'c \<times> string list \<times> bool) option"
where
  "match_options tok [] rest c errors = Some (rest, c, errors, False)"
| "match_options tok (a # as) rest c errors =
     (if \<not> arg_matches tok a then match_options tok as rest c errors
      else if takesArg a
      then (case rest of
              [] \<Rightarrow> Some (rest, c, errors @ [''Expected argument to option: '' @ tok_data tok], True)
            | t # ts \<Rightarrow>
                if tok_type t \<noteq> Positional_token
                then Some (rest, c, errors @ [''Expected argument to option: '' @ tok_data tok], True)
                else (case set_field a c (tok_data t) of
                        None \<Rightarrow> None
                      | Some (c, None) \<Rightarrow> Some (ts, c, errors, True)
                      | Some (c, Some e) \<Rightarrow> match_options tok as ts c (errors @ [parse_error e a])))
      else (case set_field a c ''true'' of
              None \<Rightarrow> None
            | Some (c, None) \<Rightarrow> Some (rest, c, errors, True)
            | Some (c, Some e) \<Rightarrow> match_options tok as rest c (errors @ [parse_error e a])))"

lemma match_options_rest:
  "match_options tok as rest c errors = Some (rest', c', errors', b) \<Longrightarrow> length rest' \<le> length rest"
proof (induction tok as rest c errors rule: match_options.induct)
  case (2 tok a as rest c errors)
  then show ?case
    by (fastforce split: if_splits list.splits option.splits prod.splits)
qed simp

function populate_loop ::
  "'c CommandLine \<Rightarrow> Token list \<Rightarrow> 'c \<Rightarrow> string list \<Rightarrow> Token list \<Rightarrow> ('c \<times> string list \<times> Token list) option"
where
  "populate_loop cli [] c errors unused = Some (c, errors, unused)"
| "populate_loop cli (tok # rest) c errors unused =
     (case match_options tok (options cli) rest c errors of
        None \<Rightarrow> None
      | Some (rest, c, errors, found) \<Rightarrow>
          if found then populate_loop cli rest c errors unused
          else if tok_type tok = Positional_token \<or> \<not> throwOnUnrecognisedTokens cli
          then populate_loop cli rest c errors (unused @ [tok])
          else if errors = []
          then populate_loop cli rest c [''unrecognised option: '' @ tok_data tok] unused
          else populate_loop cli rest c errors unused)"
  by pat_completeness auto
termination
  by (relation "measure (\<lambda>(cli, toks, c, errors, unused). length toks)")
    (auto dest!: match_options_rest simp: less_Suc_eq_le)

fun join_errors :: "string list \<Rightarrow> string" where
  "join_errors [] = []"
| "join_errors [e] = e"
| "join_errors (e # f # es) = e @ [CHR 0x0A] @ join_errors (f # es)"

definition populateOptions :: "'c CommandLine \<Rightarrow> Token list \<Rightarrow> 'c \<Rightarrow> 'c parsed" where
  "populateOptions cli tokens c =
     (case populate_loop cli tokens c [] [] of
        None \<Rightarrow> None
      | Some (c, errors, unused) \<Rightarrow>
          Some (c, if errors \<noteq> [] then Inl (join_errors errors) else Inr unused))"

fun fixed_loop ::
  "'c CommandLine \<Rightarrow> Token list \<Rightarrow> 'c \<Rightarrow> Token list \<Rightarrow> int \<Rightarrow> 'c parsed"
where
  "fixed_loop cli [] c unused pos = Some (c, Inr unused)"
| "fixed_loop cli (tok # toks) c unused pos =
     (let pos' = (if tok_type tok = Positional_token then pos + 1 else pos)
      in case map_of (positionalArgs cli) pos of
           None \<Rightarrow> fixed_loop cli toks c (unused @ [tok]) pos'
         | Some a \<Rightarrow>
             (case set_field a c (tok_data tok) of
                None \<Rightarrow> None
              | Some (c, Some e) \<Rightarrow> Some (c, Inl e)
              | Some (c, None) \<Rightarrow> fixed_loop cli toks c unused pos'))"

definition populateFixedArgs :: "'c CommandLine \<Rightarrow> Token list \<Rightarrow> 'c \<Rightarrow> 'c parsed" where
  "populateFixedArgs cli tokens c = fixed_loop cli tokens c [] 1"

fun floating_loop :: "'c Arg \<Rightarrow> Token list \<Rightarrow> 'c \<Rightarrow> Token list \<Rightarrow> 'c parsed" where
  "floating_loop a [] c unused = Some (c, Inr unused)"
| "floating_loop a (tok # toks) c unused =
     (if tok_type tok = Positional_token
      then (case set_field a c (tok_data tok) of
              None \<Rightarrow> None
            | Some (c, Some e) \<Rightarrow> Some (c, Inl e)
            | Some (c, None) \<Rightarrow> floating_loop a toks c unused)
      else floating_loop a toks c (unused @ [tok]))"

definition populateFloatingArgs :: "'c CommandLine \<Rightarrow> Token list \<Rightarrow> 'c \<Rightarrow> 'c parsed" where
  "populateFloatingArgs cli tokens c =
     (case floatingArg cli of
        None \<Rightarrow> Some (c, Inr tokens)
      | Some a \<Rightarrow> floating_loop a tokens c [])"

text \<open>Sequencing two passes over the tokens\<close>

definition and_then :: "'c parsed \<Rightarrow> (Token list \<Rightarrow> 'c \<Rightarrow> 'c parsed) \<Rightarrow> 'c parsed" where
  "and_then r f = (case r of
       None \<Rightarrow> None
     | Some (c, Inl e) \<Rightarrow> Some (c, Inl e)
     | Some (c, Inr toks) \<Rightarrow> f toks c)"

definition populate :: "'c CommandLine \<Rightarrow> Token list \<Rightarrow> 'c \<Rightarrow> 'c parsed" where
  "populate cli tokens c =
     (case validate cli of
        Inl e \<Rightarrow> Some (c, Inl e)
      | Inr _ \<Rightarrow>
          and_then (and_then (populateOptions cli tokens c) (populateFixedArgs cli))
            (populateFloatingArgs cli))"

definition process_name :: "string list \<Rightarrow> string" where
  "process_name args =
     (let name = (if args = [] then [] else hd args)
      in case find_last_of name [CHR ''/'', CHR 0x5C] (length name) of
           None \<Rightarrow> name
         | Some lastSlash \<Rightarrow> drop (lastSlash + 1) name)"

text \<open>\<open>parseInto\<close>; an exception of the tokenizer is \<open>std::out_of_range\<close>, whose text is not fixed.\<close>

definition out_of_range :: string where "out_of_range = ''basic_string::substr''"

definition parseInto :: "'c CommandLine \<Rightarrow> string list \<Rightarrow> 'c \<Rightarrow> 'c parsed" where
  "parseInto cli args c =
     (case boundProcessName cli c (process_name args) of
        (c, Some e) \<Rightarrow> Some (c, Inl e)
      | (c, None) \<Rightarrow>
          (case parseIntoTokens args of
             None \<Rightarrow> Some (c, Inl out_of_range)
           | Some tokens \<Rightarrow> populate cli tokens c))"

subsection \<open>Usage\<close>

definition max_command_width :: "'c CommandLine \<Rightarrow> nat" where
  "max_command_width cli = foldl (\<lambda>w a. max w (length (commands a))) 0 (options cli)"

text \<open>
  One line of \<open>optUsage\<close>: the \<open>i\<close>-th lines of both columns.  The padding of the description is
  computed in \<open>size_t\<close>; it is undefined here where that wraps around.
\<close>

definition usage_line :: "nat \<Rightarrow> nat \<Rightarrow> string list \<Rightarrow> string list \<Rightarrow> nat \<Rightarrow> string option" where
  "usage_line ind maxWidth usage desc i =
     (let usageCol = (if i < length usage then usage ! i else [])
      in if i < length desc \<and> desc ! i \<noteq> []
         then do { require (length usageCol \<le> ind + 2 + maxWidth);
                   Some (usageCol @ replicate (ind + 2 + maxWidth - length usageCol) (CHR '' '') @
                         desc ! i @ [CHR 0x0A]) }
         else Some (usageCol @ [CHR 0x0A]))"

fun usage_lines :: "nat \<Rightarrow> nat \<Rightarrow> string list \<Rightarrow> string list \<Rightarrow> nat list \<Rightarrow> string option" where
  "usage_lines ind maxWidth usage desc [] = Some []"
| "usage_lines ind maxWidth usage desc (i # is) =
     do { l \<leftarrow> usage_line ind maxWidth usage desc i;
          ls \<leftarrow> usage_lines ind maxWidth usage desc is;
          Some (l @ ls) }"

fun opt_usages :: "nat \<Rightarrow> nat \<Rightarrow> nat \<Rightarrow> 'c Arg list \<Rightarrow> string option" where
  "opt_usages ind wid maxWidth [] = Some []"
| "opt_usages ind wid maxWidth (a # as) =
     do { usage \<leftarrow> Text (commands a) (setIndent ind (setWidth (maxWidth + ind) TextAttributes_new));
          desc \<leftarrow> Text (description a)
                    (setWidth (unat (word_of_nat wid - word_of_nat maxWidth - (3 :: 64 word))) TextAttributes_new);
          ls \<leftarrow> usage_lines ind maxWidth usage desc [0..<max (length usage) (length desc)];
          rest \<leftarrow> opt_usages ind wid maxWidth as;
          Some (ls @ rest) }"

definition optUsage :: "'c CommandLine \<Rightarrow> nat \<Rightarrow> nat \<Rightarrow> string option" where
  "optUsage cli ind wid = opt_usages ind wid (max_command_width cli) (options cli)"

fun synopsis_loop :: "'c CommandLine \<Rightarrow> int list \<Rightarrow> string + string" where
  "synopsis_loop cli [] = Inr []"
| "synopsis_loop cli (i # is) =
     (let sep = (if 1 < i then '' '' else []);
          ph = (case map_of (positionalArgs cli) i of
                  Some a \<Rightarrow> Some (placeholder a)
                | None \<Rightarrow> map_option placeholder (floatingArg cli))
      in case ph of
           None \<Rightarrow> Inl ''non consecutive positional arguments with no floating args''
         | Some ph \<Rightarrow> (case synopsis_loop cli is of
                         Inl e \<Rightarrow> Inl e
                       | Inr s \<Rightarrow> Inr (sep @ ''<'' @ ph @ ''>'' @ s)))"

definition argSynopsis :: "'c CommandLine \<Rightarrow> string + string" where
  "argSynopsis cli =
     (case synopsis_loop cli [1..highestSpecifiedArgPosition cli] of
        Inl e \<Rightarrow> Inl e
      | Inr s \<Rightarrow>
          (case floatingArg cli of
             None \<Rightarrow> Inr s
           | Some a \<Rightarrow>
               Inr (s @ (if 1 < highestSpecifiedArgPosition cli then '' '' else []) @
                    ''[<'' @ placeholder a @ ''> ...]'')))"

definition usage :: "'c CommandLine \<Rightarrow> string \<Rightarrow> (string + string) option" where
  "usage cli procName =
     (case validate cli of
        Inl e \<Rightarrow> Some (Inl e)
      | Inr _ \<Rightarrow>
          (case argSynopsis cli of
             Inl e \<Rightarrow> Some (Inl e)
           | Inr syn \<Rightarrow>
               do { opts \<leftarrow> (if options cli = [] then Some []
                           else map_option (\<lambda>u. '' [options]'' @ [CHR 0x0A, CHR 0x0A] @
                                  ''where options are: '' @ [CHR 0x0A] @ u)
                                (optUsage cli 2 consoleWidth));
                    Some (Inr (''usage:'' @ [CHR 0x0A] @ ''  '' @ procName @ '' '' @ syn @ opts @
                               [CHR 0x0A])) }))"

end
