(* ===== verification/Catch_Test_Case.thy ===== *)
theory Catch_Test_Case
  imports Catch_Strings
begin

text \<open>
  Test cases, their tags and special properties, and tag aliases in the test framework
  (\<open>src/lib/catch.hpp\<close>, the parts \<open>catch_test_case_info.hpp\<close> and
  \<open>catch_tag_alias_registry.hpp\<close>).

  A \<open>std::set\<close> of strings is its sorted list of elements, a \<open>std::map\<close> its sorted list of
  entries.  An exception is \<open>Inl\<close> of its message; the colour objects in a message do not
  put characters into it.
\<close>

subsection \<open>Ordered sets and maps\<close>

fun set_insert :: "'a :: linorder \<Rightarrow> 'a list \<Rightarrow> 'a list" where
  "set_insert x [] = [x]"
| "set_insert x (y # ys) =
     (if x < y then x # y # ys else if x = y then y # ys else y # set_insert x ys)"

fun map_insert :: "'a :: linorder \<Rightarrow> 'b \<Rightarrow> ('a \<times> 'b) list \<Rightarrow> ('a \<times> 'b) list" where
  "map_insert k v [] = [(k, v)]"
| "map_insert k v ((l, w) # es) =
     (if k < l then (k, v) # (l, w) # es
      else if k = l then (l, w) # es
      else (l, w) # map_insert k v es)"

lemma set_set_insert [simp]: "set (set_insert x ys) = insert x (set ys)"
  by (induction ys) auto

lemma sorted_set_insert:
  "sorted_wrt (<) ys \<Longrightarrow> sorted_wrt (<) (set_insert x ys)"
proof (induction ys)
  case (Cons y ys)
  then show ?case by (cases x y rule: linorder_cases) (auto dest: less_trans)
qed simp

lemma map_of_map_insert:
  "sorted_wrt (<) (map fst es) \<Longrightarrow>
   map_of (map_insert k v es) = (if k \<in> dom (map_of es) then map_of es else (map_of es)(k \<mapsto> v))"
proof (induction es)
  case (Cons e es)
  obtain l w where e: "e = (l, w)" by (cases e)
  have "map_of es k = None" if "k < l"
  proof -
    have "k \<notin> set (map fst es)" using Cons.prems e that by auto
    then show ?thesis by (metis map_of_eq_None_iff set_map)
  qed
  then show ?case using Cons e by (cases k l rule: linorder_cases) (auto simp: fun_eq_iff)
qed (simp add: fun_eq_iff)

lemma keys_map_insert [simp]: "map fst (map_insert k v es) = set_insert k (map fst es)"
  by (induction k v es rule: map_insert.induct) auto

subsection \<open>Special tags\<close>

definition IsHidden :: int where "IsHidden = push_bit 1 1"
definition ShouldFail :: int where "ShouldFail = push_bit 2 1"
definition MayFail :: int where "MayFail = push_bit 3 1"
definition Throws :: int where "Throws = push_bit 4 1"
definition NonPortable :: int where "NonPortable = push_bit 5 1"
definition NoProperties :: int where "NoProperties = 0"

definition parseSpecialTag :: "string \<Rightarrow> int" where
  "parseSpecialTag tag =
     (if startsWithCh tag (CHR ''.'') \<or> tag = ''hide'' \<or> tag = ''!hide'' then IsHidden
      else if tag = ''!throws'' then Throws
      else if tag = ''!shouldfail'' then ShouldFail
      else if tag = ''!mayfail'' then MayFail
      else if tag = ''!nonportable'' then NonPortable
      else NoProperties)"

definition isReservedTag :: "string \<Rightarrow> bool" where
  "isReservedTag tag \<longleftrightarrow> parseSpecialTag tag = NoProperties \<and> 0 < length tag \<and> \<not> isalnum (tag ! 0)"

definition enforceNotReservedTag :: "string \<Rightarrow> SourceLineInfo \<Rightarrow> string + unit" where
  "enforceNotReservedTag tag location =
     (if isReservedTag tag
      then Inl (''Tag name ['' @ tag @ ''] not allowed.'' @ [CHR 0x0A] @
                ''Tag names starting with non alpha-numeric characters are reserved'' @ [CHR 0x0A] @
                show_source location @ [CHR 0x0A])
      else Inr ())"

subsection \<open>Test cases\<close>

record TestCaseInfo =
  tc_name :: string
  tc_className :: string
  tc_description :: string
  tc_tags :: "string list"
  tc_lcaseTags :: "string list"
  tc_tagsAsString :: string
  tc_lineInfo :: SourceLineInfo
  tc_properties :: int

record TestCase = TestCaseInfo +
  tc_test :: nat

text \<open>The loop of \<open>setTags\<close>, which adds to the properties that were there before.\<close>

fun setTags_loop :: "string list \<Rightarrow> string \<times> string list \<times> int \<Rightarrow> string \<times> string list \<times> int" where
  "setTags_loop [] acc = acc"
| "setTags_loop (t # ts) (oss, lcase, props) =
     (let l = toLower t
      in setTags_loop ts (oss @ ''['' @ t @ '']'', set_insert l lcase, props OR parseSpecialTag l))"

definition setTags :: "'a TestCaseInfo_scheme \<Rightarrow> string list \<Rightarrow> 'a TestCaseInfo_scheme" where
  "setTags info tags =
     (let (oss, lcase, props) = setTags_loop tags ([], [], tc_properties info)
      in info\<lparr>tc_tags := tags, tc_lcaseTags := lcase, tc_tagsAsString := oss, tc_properties := props\<rparr>)"

definition TestCaseInfo_new ::
  "string \<Rightarrow> string \<Rightarrow> string \<Rightarrow> string list \<Rightarrow> SourceLineInfo \<Rightarrow> TestCaseInfo"
where
  "TestCaseInfo_new name className description tags location =
     setTags \<lparr>tc_name = name, tc_className = className, tc_description = description,
       tc_tags = [], tc_lcaseTags = [], tc_tagsAsString = [], tc_lineInfo = location,
       tc_properties = NoProperties\<rparr> tags"

definition isHidden :: "'a TestCaseInfo_scheme \<Rightarrow> bool" where
  "isHidden info \<longleftrightarrow> tc_properties info AND IsHidden \<noteq> 0"

definition throws :: "'a TestCaseInfo_scheme \<Rightarrow> bool" where
  "throws info \<longleftrightarrow> tc_properties info AND Throws \<noteq> 0"

definition okToFail :: "'a TestCaseInfo_scheme \<Rightarrow> bool" where
  "okToFail info \<longleftrightarrow> tc_properties info AND (ShouldFail OR MayFail) \<noteq> 0"

definition expectedToFail :: "'a TestCaseInfo_scheme \<Rightarrow> bool" where
  "expectedToFail info \<longleftrightarrow> tc_properties info AND ShouldFail \<noteq> 0"

text \<open>The state of the loop of \<open>makeTestCase\<close> over the characters of \<open>_descOrTags\<close>.\<close>

record tag_scan =
  sc_desc :: string
  sc_tag :: string
  sc_inTag :: bool
  sc_tags :: "string list"
  sc_hidden :: bool

definition scan_char :: "SourceLineInfo \<Rightarrow> char \<Rightarrow> tag_scan \<Rightarrow> string + tag_scan" where
  "scan_char location c s =
     (if \<not> sc_inTag s
      then Inr (if c = CHR ''['' then s\<lparr>sc_inTag := True\<rparr> else s\<lparr>sc_desc := sc_desc s @ [c]\<rparr>)
      else if c = CHR '']''
      then let prop = parseSpecialTag (sc_tag s);
               s' = s\<lparr>sc_tags := set_insert (sc_tag s) (sc_tags s), sc_tag := [], sc_inTag := False\<rparr>
           in if prop = IsHidden then Inr (s'\<lparr>sc_hidden := True\<rparr>)
              else if prop = NoProperties
              then (case enforceNotReservedTag (sc_tag s) location of Inl e \<Rightarrow> Inl e | Inr _ \<Rightarrow> Inr s')
              else Inr s'
      else Inr (s\<lparr>sc_tag := sc_tag s @ [c]\<rparr>))"

fun scan_chars :: "SourceLineInfo \<Rightarrow> string \<Rightarrow> tag_scan \<Rightarrow> string + tag_scan" where
  "scan_chars location [] s = Inr s"
| "scan_chars location (c # cs) s =
     (case scan_char location c s of Inl e \<Rightarrow> Inl e | Inr s' \<Rightarrow> scan_chars location cs s')"

definition makeTestCase ::
  "nat \<Rightarrow> string \<Rightarrow> string \<Rightarrow> string \<Rightarrow> SourceLineInfo \<Rightarrow> string + TestCase"
where
  "makeTestCase test className name descOrTags location =
     (case scan_chars location descOrTags
             \<lparr>sc_desc = [], sc_tag = [], sc_inTag = False, sc_tags = [],
              sc_hidden = startsWith name ''./''\<rparr> of
        Inl e \<Rightarrow> Inl e
      | Inr s \<Rightarrow>
          let tags = (if sc_hidden s then set_insert ''.'' (set_insert ''hide'' (sc_tags s))
                      else sc_tags s);
              info = TestCaseInfo_new name className (sc_desc s) tags location
          in Inr (TestCaseInfo.extend info \<lparr>tc_test = test\<rparr>))"

definition withName :: "TestCase \<Rightarrow> string \<Rightarrow> TestCase" where
  "withName tc newName = tc\<lparr>tc_name := newName\<rparr>"

definition TestCase_eq :: "TestCase \<Rightarrow> TestCase \<Rightarrow> bool" where
  "TestCase_eq a b \<longleftrightarrow>
     tc_test a = tc_test b \<and> tc_name a = tc_name b \<and> tc_className a = tc_className b"

definition TestCase_less :: "TestCase \<Rightarrow> TestCase \<Rightarrow> bool" where
  "TestCase_less a b \<longleftrightarrow> tc_name a < tc_name b"

definition TestCase_swap :: "TestCase \<Rightarrow> TestCase \<Rightarrow> TestCase \<times> TestCase" where
  "TestCase_swap a b =
     (let swapped = (\<lambda>(x :: TestCase) (y :: TestCase). x\<lparr>tc_test := tc_test y, tc_name := tc_name y,
            tc_className := tc_className y, tc_description := tc_description y, tc_tags := tc_tags y,
            tc_lcaseTags := tc_lcaseTags y, tc_tagsAsString := tc_tagsAsString y,
            tc_properties := tc_properties y, tc_lineInfo := tc_lineInfo y\<rparr>)
      in (swapped a b, swapped b a))"

subsection \<open>Tag aliases\<close>

record TagAlias =
  ta_tag :: string
  ta_lineInfo :: SourceLineInfo

type_synonym alias_registry = "(string \<times> TagAlias) list"

definition alias_find :: "alias_registry \<Rightarrow> string \<Rightarrow> TagAlias option" where
  "alias_find reg al = map_of reg al"

text \<open>The loop of \<open>expandAliases\<close> replaces one occurrence of each alias.\<close>

fun expandAliases :: "alias_registry \<Rightarrow> string \<Rightarrow> string" where
  "expandAliases [] spec = spec"
| "expandAliases ((al, ta) # reg) spec =
     (case find_from spec al 0 of
        None \<Rightarrow> expandAliases reg spec
      | Some pos \<Rightarrow>
          expandAliases reg (substr spec 0 pos @ ta_tag ta @ drop (pos + length al) spec))"

definition alias_add ::
  "alias_registry \<Rightarrow> string \<Rightarrow> string \<Rightarrow> SourceLineInfo \<Rightarrow> string + alias_registry"
where
  "alias_add reg al tag location =
     (if \<not> startsWith al ''[@'' \<or> \<not> endsWithCh al (CHR '']'')
      then Inl (''error: tag alias, '' @ [CHR 0x22] @ al @ [CHR 0x22] @
                '' is not of the form [@alias name].'' @ [CHR 0x0A] @ show_source location @ [CHR 0x0A])
      else (case alias_find reg al of
              None \<Rightarrow> Inr (map_insert al \<lparr>ta_tag = tag, ta_lineInfo = location\<rparr> reg)
            | Some first \<Rightarrow>
                Inl (''error: tag alias, '' @ [CHR 0x22] @ al @ [CHR 0x22] @ '' already registered.'' @
                     [CHR 0x0A, CHR 0x09] @ ''First seen at '' @ show_source (ta_lineInfo first) @
                     [CHR 0x0A, CHR 0x09] @ ''Redefined at '' @ show_source location @ [CHR 0x0A])))"

end
