(* ===== verification/Catch_Spec.thy ===== *)
theory Catch_Spec
  imports Catch_Test_Case
begin

text \<open>
  Selecting tests by name and tag in the test framework (\<open>src/lib/catch.hpp\<close>):
  \<open>WildcardPattern\<close>, \<open>TestSpec\<close>, \<open>TestSpecParser\<close> and the string matchers.

  A position that is \<open>npos\<close> is \<open>None\<close>; the exception that \<open>substr\<close> throws for a position
  outside its string is the result \<open>None\<close> of the operation.
\<close>

datatype CaseSensitive = Yes | No

subsection \<open>Wildcard patterns\<close>

definition NoWildcard :: nat where "NoWildcard = 0"
definition WildcardAtStart :: nat where "WildcardAtStart = 1"
definition WildcardAtEnd :: nat where "WildcardAtEnd = 2"
definition WildcardAtBothEnds :: nat where "WildcardAtBothEnds = WildcardAtStart OR WildcardAtEnd"

record WildcardPattern =
  wp_caseSensitivity :: CaseSensitive
  wp_wildcard :: nat
  wp_pattern :: string

definition adjustCase :: "CaseSensitive \<Rightarrow> string \<Rightarrow> string" where
  "adjustCase cs str = (if cs = No then toLower str else str)"

definition WildcardPattern_new :: "string \<Rightarrow> CaseSensitive \<Rightarrow> WildcardPattern" where
  "WildcardPattern_new pattern caseSensitivity =
     (let w = \<lparr>wp_caseSensitivity = caseSensitivity, wp_wildcard = NoWildcard,
               wp_pattern = adjustCase caseSensitivity pattern\<rparr>;
          w = (if startsWithCh (wp_pattern w) (CHR ''*'')
               then w\<lparr>wp_pattern := drop 1 (wp_pattern w), wp_wildcard := WildcardAtStart\<rparr> else w);
          w = (if endsWithCh (wp_pattern w) (CHR ''*'')
               then w\<lparr>wp_pattern := substr (wp_pattern w) 0 (length (wp_pattern w) - 1),
                      wp_wildcard := wp_wildcard w OR WildcardAtEnd\<rparr> else w)
      in w)"

text \<open>The exception for another value of the enumeration is \<open>None\<close>.\<close>

definition wildcard_matches :: "WildcardPattern \<Rightarrow> string \<Rightarrow> bool option" where
  "wildcard_matches w str =
     (let s = adjustCase (wp_caseSensitivity w) str
      in if wp_wildcard w = NoWildcard then Some (wp_pattern w = s)
         else if wp_wildcard w = WildcardAtStart then Some (endsWith s (wp_pattern w))
         else if wp_wildcard w = WildcardAtEnd then Some (startsWith s (wp_pattern w))
         else if wp_wildcard w = WildcardAtBothEnds then Some (contains s (wp_pattern w))
         else None)"

subsection \<open>Test specifications\<close>

datatype Pattern = NamePattern WildcardPattern | TagPattern string | ExcludedPattern Pattern

definition NamePattern_new :: "string \<Rightarrow> Pattern" where
  "NamePattern_new name = NamePattern (WildcardPattern_new (toLower name) No)"

definition TagPattern_new :: "string \<Rightarrow> Pattern" where
  "TagPattern_new tag = TagPattern (toLower tag)"

primrec pattern_matches :: "Pattern \<Rightarrow> 'a TestCaseInfo_scheme \<Rightarrow> bool option" where
  "pattern_matches (NamePattern w) tc = wildcard_matches w (toLower (tc_name tc))"
| "pattern_matches (TagPattern tag) tc = Some (tag \<in> set (tc_lcaseTags tc))"
| "pattern_matches (ExcludedPattern p) tc = map_option Not (pattern_matches p tc)"

type_synonym Filter = "Pattern list"
type_synonym TestSpec = "Filter list"

fun filter_matches :: "Filter \<Rightarrow> 'a TestCaseInfo_scheme \<Rightarrow> bool option" where
  "filter_matches [] tc = Some True"
| "filter_matches (p # ps) tc =
     (case pattern_matches p tc of
        None \<Rightarrow> None
      | Some m \<Rightarrow> if \<not> m then Some False else filter_matches ps tc)"

definition hasFilters :: "TestSpec \<Rightarrow> bool" where
  "hasFilters spec \<longleftrightarrow> spec \<noteq> []"

fun spec_matches :: "TestSpec \<Rightarrow> 'a TestCaseInfo_scheme \<Rightarrow> bool option" where
  "spec_matches [] tc = Some False"
| "spec_matches (f # fs) tc =
     (case filter_matches f tc of
        None \<Rightarrow> None
      | Some m \<Rightarrow> if m then Some True else spec_matches fs tc)"

subsection \<open>The parser\<close>

datatype Mode = NoMode | Name | QuotedName | Tag | EscapedName

record TestSpecParser =
  p_mode :: Mode
  p_exclusion :: bool
  p_start :: "nat option"
  p_pos :: nat
  p_arg :: string
  p_escapeChars :: "nat list"
  p_currentFilter :: Filter
  p_testSpec :: TestSpec

definition TestSpecParser_new :: TestSpecParser where
  "TestSpecParser_new =
     \<lparr>p_mode = NoMode, p_exclusion = False, p_start = None, p_pos = 0, p_arg = [],
      p_escapeChars = [], p_currentFilter = [], p_testSpec = []\<rparr>"

definition startNewMode :: "Mode \<Rightarrow> nat \<Rightarrow> TestSpecParser \<Rightarrow> TestSpecParser" where
  "startNewMode mode start p = p\<lparr>p_mode := mode, p_start := Some start\<rparr>"

definition escape :: "TestSpecParser \<Rightarrow> TestSpecParser" where
  "escape p =
     (let p = (if p_mode p = NoMode then p\<lparr>p_start := Some (p_pos p)\<rparr> else p)
      in p\<lparr>p_mode := EscapedName, p_escapeChars := p_escapeChars p @ [p_pos p]\<rparr>)"

definition subString :: "TestSpecParser \<Rightarrow> string option" where
  "subString p =
     do { start \<leftarrow> p_start p;
          require (start \<le> length (p_arg p));
          Some (if start \<le> p_pos p then substr (p_arg p) start (p_pos p - start)
                else drop start (p_arg p)) }"

text \<open>Removing the escape characters, the \<open>i\<close>-th of which has moved \<open>i\<close> places to the left.\<close>

fun remove_escapes :: "nat \<Rightarrow> nat list \<Rightarrow> nat \<Rightarrow> string \<Rightarrow> string option" where
  "remove_escapes start [] i token = Some token"
| "remove_escapes start (e # es) i token =
     do { require (start + i \<le> e \<and> e - start - i + 1 \<le> length token);
          remove_escapes start es (Suc i)
            (substr token 0 (e - start - i) @ drop (e - start - i + 1) token) }"

text \<open>\<open>addPattern<T>\<close>; \<open>con\<close> is the constructor of \<open>T\<close>.\<close>

definition addPattern :: "(string \<Rightarrow> Pattern) \<Rightarrow> TestSpecParser \<Rightarrow> TestSpecParser option" where
  "addPattern con p =
     do { token \<leftarrow> subString p;
          start \<leftarrow> p_start p;
          token \<leftarrow> remove_escapes start (p_escapeChars p) 0 token;
          let p = p\<lparr>p_escapeChars := []\<rparr>;
          let (p, token) = (if startsWith token ''exclude:''
                            then (p\<lparr>p_exclusion := True\<rparr>, drop 8 token) else (p, token));
          let p = (if token \<noteq> []
                   then p\<lparr>p_currentFilter := p_currentFilter p @
                          [if p_exclusion p then ExcludedPattern (con token) else con token]\<rparr>
                   else p);
          Some (p\<lparr>p_exclusion := False, p_mode := NoMode\<rparr>) }"

definition addFilter :: "TestSpecParser \<Rightarrow> TestSpecParser" where
  "addFilter p =
     (if p_currentFilter p \<noteq> []
      then p\<lparr>p_testSpec := p_testSpec p @ [p_currentFilter p], p_currentFilter := []\<rparr>
      else p)"

text \<open>The part of \<open>visitChar\<close> after the switch on a parser that has no mode yet.\<close>

definition visit_in_mode :: "char \<Rightarrow> TestSpecParser \<Rightarrow> TestSpecParser option" where
  "visit_in_mode c p =
     (if p_mode p = Name
      then if c = CHR '','' then map_option addFilter (addPattern NamePattern_new p)
           else if c = CHR ''[''
           then do { sub \<leftarrow> subString p;
                     p \<leftarrow> (if sub = ''exclude:'' then Some (p\<lparr>p_exclusion := True\<rparr>)
                          else addPattern NamePattern_new p);
                     let p = p\<lparr>p_pos := Suc (p_pos p)\<rparr>;
                     Some (startNewMode Tag (p_pos p) p) }
           else if c = CHR 0x5C then Some (escape p)
           else Some p
      else if p_mode p = EscapedName then Some (p\<lparr>p_mode := Name\<rparr>)
      else if p_mode p = QuotedName \<and> c = CHR 0x22 then addPattern NamePattern_new p
      else if p_mode p = Tag \<and> c = CHR '']'' then addPattern TagPattern_new p
      else Some p)"

definition visitChar :: "char \<Rightarrow> TestSpecParser \<Rightarrow> TestSpecParser option" where
  "visitChar c p =
     (if p_mode p = NoMode
      then let q = p\<lparr>p_pos := Suc (p_pos p)\<rparr>
           in if c = CHR '' '' then Some p
              else if c = CHR ''~'' then Some (p\<lparr>p_exclusion := True\<rparr>)
              else if c = CHR ''['' then Some (startNewMode Tag (p_pos q) q)
              else if c = CHR 0x22 then Some (startNewMode QuotedName (p_pos q) q)
              else if c = CHR 0x5C then Some (escape p)
              else visit_in_mode c (startNewMode Name (p_pos p) p)
      else visit_in_mode c p)"

lemma addPattern_pos:
  "addPattern con p = Some q \<Longrightarrow> p_pos q = p_pos p \<and> p_arg q = p_arg p"
  by (auto simp: addPattern_def Let_def split: bind_splits if_splits)

lemma addFilter_pos [simp]: "p_pos (addFilter p) = p_pos p" "p_arg (addFilter p) = p_arg p"
  by (simp_all add: addFilter_def)

lemma visit_in_mode_pos:
  "visit_in_mode c p = Some q \<Longrightarrow> p_pos p \<le> p_pos q \<and> p_arg q = p_arg p"
  by (auto simp: visit_in_mode_def startNewMode_def escape_def Let_def
      split: if_splits bind_splits dest!: addPattern_pos)

lemma visitChar_pos:
  "visitChar c p = Some q \<Longrightarrow> p_pos p \<le> p_pos q \<and> p_arg q = p_arg p"
  by (auto simp: visitChar_def startNewMode_def escape_def Let_def
      split: if_splits dest!: visit_in_mode_pos)

text \<open>The loop of \<open>parse\<close>: \<open>visitChar\<close> may advance the position as well.\<close>

function parse_loop :: "TestSpecParser \<Rightarrow> TestSpecParser option" where
  "parse_loop p =
     (if p_pos p < length (p_arg p)
      then (case visitChar (p_arg p ! p_pos p) p of
              None \<Rightarrow> None
            | Some q \<Rightarrow> parse_loop (q\<lparr>p_pos := Suc (p_pos q)\<rparr>))
      else Some p)"
  by auto
termination
  by (relation "measure (\<lambda>p. length (p_arg p) - p_pos p)") (auto dest!: visitChar_pos)

declare parse_loop.simps [simp del]

definition spec_parse :: "alias_registry \<Rightarrow> string \<Rightarrow> TestSpecParser \<Rightarrow> TestSpecParser option" where
  "spec_parse reg arg p =
     do { p \<leftarrow> parse_loop (p\<lparr>p_mode := NoMode, p_exclusion := False, p_start := None,
               p_arg := expandAliases reg arg, p_escapeChars := [], p_pos := 0\<rparr>);
          if p_mode p = Name then addPattern NamePattern_new p else Some p }"

definition spec_testSpec :: "TestSpecParser \<Rightarrow> TestSpec" where
  "spec_testSpec p = p_testSpec (addFilter p)"

definition parseTestSpec :: "alias_registry \<Rightarrow> string \<Rightarrow> TestSpec option" where
  "parseTestSpec reg arg = map_option spec_testSpec (spec_parse reg arg TestSpecParser_new)"

subsection \<open>String matchers\<close>

record CasedString =
  cs_caseSensitivity :: CaseSensitive
  cs_str :: string

definition CasedString_new :: "string \<Rightarrow> CaseSensitive \<Rightarrow> CasedString" where
  "CasedString_new str cs = \<lparr>cs_caseSensitivity = cs, cs_str = adjustCase cs str\<rparr>"

definition adjustString :: "CasedString \<Rightarrow> string \<Rightarrow> string" where
  "adjustString c str = (if cs_caseSensitivity c = No then toLower str else str)"

definition caseSensitivitySuffix :: "CasedString \<Rightarrow> string" where
  "caseSensitivitySuffix c = (if cs_caseSensitivity c = No then '' (case insensitive)'' else [])"

datatype StringMatcher =
    EqualsMatcher CasedString | ContainsMatcher CasedString
  | StartsWithMatcher CasedString | EndsWithMatcher CasedString

primrec matcher_operation :: "StringMatcher \<Rightarrow> string" where
  "matcher_operation (EqualsMatcher c) = ''equals''"
| "matcher_operation (ContainsMatcher c) = ''contains''"
| "matcher_operation (StartsWithMatcher c) = ''starts with''"
| "matcher_operation (EndsWithMatcher c) = ''ends with''"

primrec matcher_comparator :: "StringMatcher \<Rightarrow> CasedString" where
  "matcher_comparator (EqualsMatcher c) = c"
| "matcher_comparator (ContainsMatcher c) = c"
| "matcher_comparator (StartsWithMatcher c) = c"
| "matcher_comparator (EndsWithMatcher c) = c"

definition matcher_describe :: "StringMatcher \<Rightarrow> string" where
  "matcher_describe m =
     matcher_operation m @ '': '' @ [CHR 0x22] @ cs_str (matcher_comparator m) @ [CHR 0x22] @
     caseSensitivitySuffix (matcher_comparator m)"

primrec string_match :: "StringMatcher \<Rightarrow> string \<Rightarrow> bool" where
  "string_match (EqualsMatcher c) source \<longleftrightarrow> adjustString c source = cs_str c"
| "string_match (ContainsMatcher c) source \<longleftrightarrow> contains (adjustString c source) (cs_str c)"
| "string_match (StartsWithMatcher c) source \<longleftrightarrow> startsWith (adjustString c source) (cs_str c)"
| "string_match (EndsWithMatcher c) source \<longleftrightarrow> endsWith (adjustString c source) (cs_str c)"

definition Equals :: "string \<Rightarrow> CaseSensitive \<Rightarrow> StringMatcher" where
  "Equals str cs = EqualsMatcher (CasedString_new str cs)"

definition Contains :: "string \<Rightarrow> CaseSensitive \<Rightarrow> StringMatcher" where
  "Contains str cs = ContainsMatcher (CasedString_new str cs)"

definition EndsWith :: "string \<Rightarrow> CaseSensitive \<Rightarrow> StringMatcher" where
  "EndsWith str cs = EndsWithMatcher (CasedString_new str cs)"

definition StartsWith :: "string \<Rightarrow> CaseSensitive \<Rightarrow> StringMatcher" where
  "StartsWith str cs = StartsWithMatcher (CasedString_new str cs)"

end
