(* ===== verification/Catch_Totals.thy ===== *)
theory Catch_Totals
  imports Catch_Strings
begin

text \<open>
  Results of assertions and their counts in the test framework (\<open>src/lib/catch.hpp\<close>, the
  parts \<open>catch_result_type.h\<close>, \<open>catch_assertionresult.h\<close> and \<open>catch_totals.hpp\<close>).
  Counters are of type \<open>std::size_t\<close>, 64-bit words that wrap around.
\<close>

type_synonym size_t = "64 word"

subsection \<open>Kinds of results\<close>

text \<open>The enumeration \<open>ResultWas::OfType\<close> and its values; \<open>FailureBit\<close> and \<open>Exception\<close> are masks.\<close>

datatype ResultWas =
    Unknown | Ok | Info | Warning | FailureBit | ExpressionFailed | ExplicitFailure
  | Exception | ThrewException | DidntThrowException | FatalErrorCondition

definition failure_bit :: int where "failure_bit = 0x10"
definition exception_bits :: int where "exception_bits = 0x100 OR failure_bit"

fun result_code :: "ResultWas \<Rightarrow> int" where
  "result_code Unknown = -1"
| "result_code Ok = 0"
| "result_code Info = 1"
| "result_code Warning = 2"
| "result_code FailureBit = failure_bit"
| "result_code ExpressionFailed = failure_bit OR 1"
| "result_code ExplicitFailure = failure_bit OR 2"
| "result_code Exception = exception_bits"
| "result_code ThrewException = exception_bits OR 1"
| "result_code DidntThrowException = exception_bits OR 2"
| "result_code FatalErrorCondition = 0x200 OR failure_bit"

definition isOk :: "ResultWas \<Rightarrow> bool" where
  "isOk resultType \<longleftrightarrow> result_code resultType AND result_code FailureBit = 0"

definition isJustInfo :: "int \<Rightarrow> bool" where
  "isJustInfo flags \<longleftrightarrow> flags = result_code Info"

text \<open>\<open>ResultDisposition::Flags\<close> are combined with the bitwise or.\<close>

definition Normal :: int where "Normal = 0x01"
definition ContinueOnFailure :: int where "ContinueOnFailure = 0x02"
definition FalseTest :: int where "FalseTest = 0x04"
definition SuppressFail :: int where "SuppressFail = 0x08"

definition disposition_or :: "int \<Rightarrow> int \<Rightarrow> int" where
  "disposition_or lhs rhs = lhs OR rhs"

definition shouldContinueOnFailure :: "int \<Rightarrow> bool" where
  "shouldContinueOnFailure flags \<longleftrightarrow> flags AND ContinueOnFailure \<noteq> 0"

definition isFalseTest :: "int \<Rightarrow> bool" where
  "isFalseTest flags \<longleftrightarrow> flags AND FalseTest \<noteq> 0"

definition shouldSuppressFailure :: "int \<Rightarrow> bool" where
  "shouldSuppressFailure flags \<longleftrightarrow> flags AND SuppressFail \<noteq> 0"

subsection \<open>Assertion results\<close>

record AssertionInfo =
  macroName :: string
  lineInfo :: SourceLineInfo
  capturedExpression :: string
  resultDisposition :: int

text \<open>
  \<open>decomposedExpression\<close> is the text that the expression object would write into its
  destination, or \<open>None\<close> for a null pointer.
\<close>

record AssertionResultData =
  decomposedExpression :: "string option"
  reconstructedExpression :: string
  message :: string
  resultType :: ResultWas
  negated :: bool
  parenthesized :: bool

definition AssertionResultData_init :: AssertionResultData where
  "AssertionResultData_init =
     \<lparr>decomposedExpression = None, reconstructedExpression = [], message = [],
      resultType = Unknown, negated = False, parenthesized = False\<rparr>"

definition negate :: "bool \<Rightarrow> AssertionResultData \<Rightarrow> AssertionResultData" where
  "negate parenthesize d =
     (let d = d\<lparr>negated := \<not> negated d, parenthesized := parenthesize\<rparr>
      in if resultType d = Ok then d\<lparr>resultType := ExpressionFailed\<rparr>
         else if resultType d = ExpressionFailed then d\<lparr>resultType := Ok\<rparr>
         else d)"

definition reconstructExpression :: "AssertionResultData \<Rightarrow> string \<times> AssertionResultData" where
  "reconstructExpression d =
     (case decomposedExpression d of
        None \<Rightarrow> (reconstructedExpression d, d)
      | Some e \<Rightarrow>
          let e = (if parenthesized d then ''('' @ e @ '')'' else e);
              e = (if negated d then ''!'' @ e else e)
          in (e, d\<lparr>reconstructedExpression := e, decomposedExpression := None\<rparr>))"

record AssertionResult =
  m_info :: AssertionInfo
  m_resultData :: AssertionResultData

definition succeeded :: "AssertionResult \<Rightarrow> bool" where
  "succeeded r \<longleftrightarrow> isOk (resultType (m_resultData r))"

definition result_isOk :: "AssertionResult \<Rightarrow> bool" where
  "result_isOk r \<longleftrightarrow>
     isOk (resultType (m_resultData r)) \<or> shouldSuppressFailure (resultDisposition (m_info r))"

definition getResultType :: "AssertionResult \<Rightarrow> ResultWas" where
  "getResultType r = resultType (m_resultData r)"

definition hasExpression :: "AssertionResult \<Rightarrow> bool" where
  "hasExpression r \<longleftrightarrow> capturedExpression (m_info r) \<noteq> []"

definition hasMessage :: "AssertionResult \<Rightarrow> bool" where
  "hasMessage r \<longleftrightarrow> message (m_resultData r) \<noteq> []"

definition getExpression :: "AssertionResult \<Rightarrow> string" where
  "getExpression r =
     (if isFalseTest (resultDisposition (m_info r)) then ''!'' @ capturedExpression (m_info r)
      else capturedExpression (m_info r))"

definition getExpressionInMacro :: "AssertionResult \<Rightarrow> string" where
  "getExpressionInMacro r =
     (if macroName (m_info r) = [] then capturedExpression (m_info r)
      else macroName (m_info r) @ ''( '' @ capturedExpression (m_info r) @ '' )'')"

definition getExpandedExpression :: "AssertionResult \<Rightarrow> string \<times> AssertionResult" where
  "getExpandedExpression r =
     (let (e, d) = reconstructExpression (m_resultData r) in (e, r\<lparr>m_resultData := d\<rparr>))"

definition hasExpandedExpression :: "AssertionResult \<Rightarrow> bool \<times> AssertionResult" where
  "hasExpandedExpression r =
     (if hasExpression r
      then let (e, r) = getExpandedExpression r in (e \<noteq> getExpression r, r)
      else (False, r))"

definition getMessage :: "AssertionResult \<Rightarrow> string" where
  "getMessage r = message (m_resultData r)"

definition discardDecomposedExpression :: "AssertionResult \<Rightarrow> AssertionResult" where
  "discardDecomposedExpression r =
     r\<lparr>m_resultData := (m_resultData r)\<lparr>decomposedExpression := None\<rparr>\<rparr>"

definition expandDecomposedExpression :: "AssertionResult \<Rightarrow> AssertionResult" where
  "expandDecomposedExpression r = snd (getExpandedExpression r)"

subsection \<open>Counts and totals\<close>

record Counts =
  passed :: size_t
  failed :: size_t
  failedButOk :: size_t

definition Counts_zero :: Counts where
  "Counts_zero = \<lparr>passed = 0, failed = 0, failedButOk = 0\<rparr>"

definition Counts_minus :: "Counts \<Rightarrow> Counts \<Rightarrow> Counts" where
  "Counts_minus c d =
     \<lparr>passed = passed c - passed d, failed = failed c - failed d,
      failedButOk = failedButOk c - failedButOk d\<rparr>"

definition Counts_plus :: "Counts \<Rightarrow> Counts \<Rightarrow> Counts" where
  "Counts_plus c d =
     \<lparr>passed = passed c + passed d, failed = failed c + failed d,
      failedButOk = failedButOk c + failedButOk d\<rparr>"

definition Counts_total :: "Counts \<Rightarrow> size_t" where
  "Counts_total c = passed c + failed c + failedButOk c"

definition allPassed :: "Counts \<Rightarrow> bool" where
  "allPassed c \<longleftrightarrow> failed c = 0 \<and> failedButOk c = 0"

definition allOk :: "Counts \<Rightarrow> bool" where
  "allOk c \<longleftrightarrow> failed c = 0"

record Totals =
  assertions :: Counts
  testCases :: Counts

definition Totals_zero :: Totals where
  "Totals_zero = \<lparr>assertions = Counts_zero, testCases = Counts_zero\<rparr>"

definition Totals_minus :: "Totals \<Rightarrow> Totals \<Rightarrow> Totals" where
  "Totals_minus t u =
     \<lparr>assertions = Counts_minus (assertions t) (assertions u),
      testCases = Counts_minus (testCases t) (testCases u)\<rparr>"

definition Totals_delta :: "Totals \<Rightarrow> Totals \<Rightarrow> Totals" where
  "Totals_delta t prevTotals =
     (let diff = Totals_minus t prevTotals; c = testCases diff
      in if 0 < failed (assertions diff) then diff\<lparr>testCases := c\<lparr>failed := failed c + 1\<rparr>\<rparr>
         else if 0 < failedButOk (assertions diff)
         then diff\<lparr>testCases := c\<lparr>failedButOk := failedButOk c + 1\<rparr>\<rparr>
         else diff\<lparr>testCases := c\<lparr>passed := passed c + 1\<rparr>\<rparr>)"

definition Totals_plus :: "Totals \<Rightarrow> Totals \<Rightarrow> Totals" where
  "Totals_plus t u =
     \<lparr>assertions = Counts_plus (assertions t) (assertions u),
      testCases = Counts_plus (testCases t) (testCases u)\<rparr>"

subsection \<open>Laws\<close>

lemma Counts_minus_plus [simp]:
  "Counts_minus (Counts_plus c d) d = c" "Counts_plus (Counts_minus c d) d = c"
  by (simp_all add: Counts_minus_def Counts_plus_def)

lemma Totals_minus_plus [simp]:
  "Totals_minus (Totals_plus t u) u = t" "Totals_plus (Totals_minus t u) u = t"
  by (simp_all add: Totals_minus_def Totals_plus_def)

lemma Counts_total_plus: "Counts_total (Counts_plus c d) = Counts_total c + Counts_total d"
  by (simp add: Counts_total_def Counts_plus_def)

text \<open>The failure bit is exactly what separates the kinds of results that are failures.\<close>

lemma isOk_iff: "isOk r \<longleftrightarrow> r \<in> {Ok, Info, Warning}"
  by (cases r) (simp_all add: isOk_def failure_bit_def exception_bits_def)

lemma negate_isOk:
  "resultType d = Ok \<or> resultType d = ExpressionFailed \<Longrightarrow>
   isOk (resultType (negate p d)) \<longleftrightarrow> \<not> isOk (resultType d)"
  by (auto simp: negate_def isOk_iff)

end
