(* ===== verification/Catch_Config.thy ===== *)
theory Catch_Config
  imports Catch_CommandLine Catch_Spec Catch_Totals
begin

text \<open>
  The configuration of a test run and the command line of the test framework
  (\<open>src/lib/catch.hpp\<close>, the parts \<open>catch_interfaces_config.h\<close>, \<open>catch_config.hpp\<close> and
  \<open>catch_commandline.hpp\<close>, and \<open>Session::applyCommandLine\<close>).

  The clock and the file system are parameters: \<open>now\<close> is what \<open>std::time(0)\<close> returns, and
  \<open>files\<close> maps the name of a file that can be opened to its content.
\<close>

datatype Verbosity = NoOutput | Quiet | NormalVerbosity | OtherVerbosity int
datatype ShowDurations = DefaultForReporter | Always | Never
datatype RunTests = InDeclarationOrder | InLexicographicalOrder | InRandomOrder
datatype UseColour = ColourAuto | ColourYes | ColourNo

definition NothingWarn :: int where "NothingWarn = 0x00"
definition NoAssertions :: int where "NoAssertions = 0x01"

record ConfigData =
  cfg_listTests :: bool
  cfg_listTags :: bool
  cfg_listReporters :: bool
  cfg_listTestNamesOnly :: bool
  cfg_showSuccessfulTests :: bool
  cfg_shouldDebugBreak :: bool
  cfg_noThrow :: bool
  cfg_showHelp :: bool
  cfg_showInvisibles :: bool
  cfg_filenamesAsTags :: bool
  cfg_abortAfter :: int
  cfg_rngSeed :: u32
  cfg_verbosity :: Verbosity
  cfg_warnings :: int
  cfg_showDurations :: ShowDurations
  cfg_runOrder :: RunTests
  cfg_useColour :: UseColour
  cfg_outputFilename :: string
  cfg_name :: string
  cfg_processName :: string
  cfg_reporterNames :: "string list"
  cfg_testsOrTags :: "string list"
  cfg_sectionsToRun :: "string list"

definition ConfigData_new :: ConfigData where
  "ConfigData_new =
     \<lparr>cfg_listTests = False, cfg_listTags = False, cfg_listReporters = False,
      cfg_listTestNamesOnly = False, cfg_showSuccessfulTests = False, cfg_shouldDebugBreak = False,
      cfg_noThrow = False, cfg_showHelp = False, cfg_showInvisibles = False,
      cfg_filenamesAsTags = False, cfg_abortAfter = -1, cfg_rngSeed = 0,
      cfg_verbosity = NormalVerbosity, cfg_warnings = NothingWarn,
      cfg_showDurations = DefaultForReporter, cfg_runOrder = InDeclarationOrder,
      cfg_useColour = ColourAuto, cfg_outputFilename = [], cfg_name = [], cfg_processName = [],
      cfg_reporterNames = [], cfg_testsOrTags = [], cfg_sectionsToRun = []\<rparr>"

subsection \<open>Functions bound to options\<close>

definition abortAfterFirst :: "ConfigData \<Rightarrow> ConfigData" where
  "abortAfterFirst c = c\<lparr>cfg_abortAfter := 1\<rparr>"

definition abortAfterX :: "ConfigData \<Rightarrow> int \<Rightarrow> ConfigData \<times> string option" where
  "abortAfterX c x =
     (if x < 1 then (c, Some ''Value after -x or --abortAfter must be greater than zero'')
      else (c\<lparr>cfg_abortAfter := x\<rparr>, None))"

definition addTestOrTags :: "ConfigData \<Rightarrow> string \<Rightarrow> ConfigData" where
  "addTestOrTags c spec = c\<lparr>cfg_testsOrTags := cfg_testsOrTags c @ [spec]\<rparr>"

definition addSectionToRun :: "ConfigData \<Rightarrow> string \<Rightarrow> ConfigData" where
  "addSectionToRun c s = c\<lparr>cfg_sectionsToRun := cfg_sectionsToRun c @ [s]\<rparr>"

definition addReporterName :: "ConfigData \<Rightarrow> string \<Rightarrow> ConfigData" where
  "addReporterName c s = c\<lparr>cfg_reporterNames := cfg_reporterNames c @ [s]\<rparr>"

definition addWarning :: "ConfigData \<Rightarrow> string \<Rightarrow> ConfigData \<times> string option" where
  "addWarning c w =
     (if w = ''NoAssertions'' then (c\<lparr>cfg_warnings := cfg_warnings c OR NoAssertions\<rparr>, None)
      else (c, Some (''Unrecognised warning: '' @ [CHR 0x27] @ w @ [CHR 0x27])))"

definition setOrder :: "ConfigData \<Rightarrow> string \<Rightarrow> ConfigData \<times> string option" where
  "setOrder c order =
     (if startsWith ''declared'' order then (c\<lparr>cfg_runOrder := InDeclarationOrder\<rparr>, None)
      else if startsWith ''lexical'' order then (c\<lparr>cfg_runOrder := InLexicographicalOrder\<rparr>, None)
      else if startsWith ''random'' order then (c\<lparr>cfg_runOrder := InRandomOrder\<rparr>, None)
      else (c, Some (''Unrecognised ordering: '' @ [CHR 0x27] @ order @ [CHR 0x27])))"

definition setRngSeed :: "u32 \<Rightarrow> ConfigData \<Rightarrow> string \<Rightarrow> ConfigData \<times> string option" where
  "setRngSeed now c seed =
     (if seed = ''time'' then (c\<lparr>cfg_rngSeed := now\<rparr>, None)
      else (case stream_number seed of
              None \<Rightarrow> (c\<lparr>cfg_rngSeed := 0\<rparr>,
                       Some (''Argument to --rng-seed should be the word '' @ [CHR 0x27] @ ''time'' @
                             [CHR 0x27] @ '' or a number''))
            | Some _ \<Rightarrow>
                (case stream_unsigned seed of
                   None \<Rightarrow> (c\<lparr>cfg_rngSeed := -1\<rparr>,
                            Some (''Argument to --rng-seed should be the word '' @ [CHR 0x27] @ ''time'' @
                                  [CHR 0x27] @ '' or a number''))
                 | Some n \<Rightarrow> (c\<lparr>cfg_rngSeed := n\<rparr>, None))))"

definition setVerbosity :: "ConfigData \<Rightarrow> int \<Rightarrow> ConfigData" where
  "setVerbosity c level =
     c\<lparr>cfg_verbosity := (if level = 0 then NoOutput else if level = 1 then Quiet
        else if level = 2 then NormalVerbosity else OtherVerbosity level)\<rparr>"

definition setShowDurations :: "ConfigData \<Rightarrow> bool \<Rightarrow> ConfigData" where
  "setShowDurations c b = c\<lparr>cfg_showDurations := (if b then Always else Never)\<rparr>"

definition setUseColour :: "ConfigData \<Rightarrow> string \<Rightarrow> ConfigData \<times> string option" where
  "setUseColour c v =
     (let mode = toLower v
      in if mode = ''yes'' then (c\<lparr>cfg_useColour := ColourYes\<rparr>, None)
         else if mode = ''no'' then (c\<lparr>cfg_useColour := ColourNo\<rparr>, None)
         else if mode = ''auto'' then (c\<lparr>cfg_useColour := ColourAuto\<rparr>, None)
         else (c, Some ''colour mode must be one of: auto, yes or no''))"

definition forceColour :: "ConfigData \<Rightarrow> ConfigData" where
  "forceColour c = c\<lparr>cfg_useColour := ColourYes\<rparr>"

text \<open>The lines that \<open>std::getline\<close> reads from a text.\<close>

function text_lines :: "string \<Rightarrow> string list" where
  "text_lines s =
     (if s = [] then []
      else takeWhile (\<lambda>c. c \<noteq> CHR 0x0A) s # text_lines (drop 1 (dropWhile (\<lambda>c. c \<noteq> CHR 0x0A) s)))"
  by auto
termination
proof (relation "measure length")
  fix s :: string assume "s \<noteq> []"
  then show "(drop 1 (dropWhile (\<lambda>c. c \<noteq> CHR 0x0A) s), s) \<in> measure length"
    using length_dropWhile_le [of "\<lambda>c. c \<noteq> CHR 0x0A" s] by (cases s) auto
qed simp

declare text_lines.simps [simp del]

fun load_lines :: "string list \<Rightarrow> ConfigData \<Rightarrow> ConfigData" where
  "load_lines [] c = c"
| "load_lines (l # ls) c =
     (let l = trim l
      in if l \<noteq> [] \<and> \<not> startsWithCh l (CHR ''#'')
         then let l = (if \<not> startsWithCh l (CHR 0x22) then [CHR 0x22] @ l @ [CHR 0x22] else l)
              in load_lines ls (addTestOrTags c (l @ '',''))
         else load_lines ls c)"

definition loadTestNamesFromFile ::
  "(string \<Rightarrow> string option) \<Rightarrow> ConfigData \<Rightarrow> string \<Rightarrow> ConfigData \<times> string option"
where
  "loadTestNamesFromFile files c fname =
     (case files fname of
        None \<Rightarrow> (c, Some (''Unable to load input file: '' @ fname))
      | Some text \<Rightarrow> (load_lines (text_lines text) c, None))"

subsection \<open>The command line\<close>

definition flag :: "(ConfigData \<Rightarrow> bool \<Rightarrow> ConfigData) \<Rightarrow> string \<Rightarrow> ConfigData Arg \<Rightarrow> ConfigData Arg" where
  "flag setter d a = bind_flag (bound_bool setter) (describe d a)"

definition arg_of :: "ConfigData bound \<Rightarrow> string \<Rightarrow> string \<Rightarrow> ConfigData Arg \<Rightarrow> ConfigData Arg" where
  "arg_of f d ph a = bind_arg f ph (describe d a)"

definition option_table ::
  "u32 \<Rightarrow> (string \<Rightarrow> string option) \<Rightarrow> (string list \<times> (ConfigData Arg \<Rightarrow> ConfigData Arg)) list"
where
  "option_table now files =
    [([''-?'', ''-h'', ''--help''],
        flag (\<lambda>c b. c\<lparr>cfg_showHelp := b\<rparr>) ''display usage information''),
     ([''-l'', ''--list-tests''],
        flag (\<lambda>c b. c\<lparr>cfg_listTests := b\<rparr>) ''list all/matching test cases''),
     ([''-t'', ''--list-tags''],
        flag (\<lambda>c b. c\<lparr>cfg_listTags := b\<rparr>) ''list all/matching tags''),
     ([''-s'', ''--success''],
        flag (\<lambda>c b. c\<lparr>cfg_showSuccessfulTests := b\<rparr>) ''include successful tests in output''),
     ([''-b'', ''--break''],
        flag (\<lambda>c b. c\<lparr>cfg_shouldDebugBreak := b\<rparr>) ''break into debugger on failure''),
     ([''-e'', ''--nothrow''],
        flag (\<lambda>c b. c\<lparr>cfg_noThrow := b\<rparr>) ''skip exception tests''),
     ([''-i'', ''--invisibles''],
        flag (\<lambda>c b. c\<lparr>cfg_showInvisibles := b\<rparr>) ''show invisibles (tabs, newlines)''),
     ([''-o'', ''--out''],
        arg_of (bound_string (\<lambda>c v. c\<lparr>cfg_outputFilename := v\<rparr>)) ''output filename'' ''filename''),
     ([''-r'', ''--reporter''],
        arg_of (bound_string addReporterName) ''reporter to use (defaults to console)'' ''name''),
     ([''-n'', ''--name''],
        arg_of (bound_string (\<lambda>c v. c\<lparr>cfg_name := v\<rparr>)) ''suite name'' ''name''),
     ([''-a'', ''--abort''],
        \<lambda>a. bind_flag (bound_unary abortAfterFirst) (describe ''abort at first failure'' a)),
     ([''-x'', ''--abortx''],
        arg_of (bound_binary convert_int abortAfterX) ''abort after x failures'' ''no. failures''),
     ([''-w'', ''--warn''],
        arg_of addWarning ''enable warnings'' ''warning name''),
     ([''-d'', ''--durations''],
        arg_of (bound_binary convert_bool (\<lambda>c b. (setShowDurations c b, None)))
          ''show test durations'' ''yes|no''),
     ([''-f'', ''--input-file''],
        arg_of (loadTestNamesFromFile files) ''load test names to run from a file'' ''filename''),
     ([''-#'', ''--filenames-as-tags''],
        flag (\<lambda>c b. c\<lparr>cfg_filenamesAsTags := b\<rparr>) ''adds a tag for the filename''),
     ([''-c'', ''--section''],
        arg_of (bound_string addSectionToRun) ''specify section to run'' ''section name''),
     ([''--list-test-names-only''],
        flag (\<lambda>c b. c\<lparr>cfg_listTestNamesOnly := b\<rparr>) ''list all/matching test cases names only''),
     ([''--list-reporters''],
        flag (\<lambda>c b. c\<lparr>cfg_listReporters := b\<rparr>) ''list all reporters''),
     ([''--order''],
        arg_of setOrder ''test case order (defaults to decl)'' ''decl|lex|rand''),
     ([''--rng-seed''],
        arg_of (setRngSeed now) ''set a specific seed for random numbers''
          ([CHR 0x27] @ ''time'' @ [CHR 0x27] @ ''|number'')),
     ([''--force-colour''],
        \<lambda>a. bind_flag (bound_unary forceColour)
              (describe ''force colourised output (deprecated)'' a)),
     ([''--use-colour''],
        arg_of setUseColour ''should output be colourised'' ''yes|no'')]"

fun add_options ::
  "(string list \<times> (ConfigData Arg \<Rightarrow> ConfigData Arg)) list \<Rightarrow> ConfigData CommandLine \<Rightarrow>
   string + ConfigData CommandLine"
where
  "add_options [] cli = Inr cli"
| "add_options ((names, build) # os) cli =
     (case add_option names build cli of Inl e \<Rightarrow> Inl e | Inr cli \<Rightarrow> add_options os cli)"

text \<open>The unpositional argument is added between two options; its place does not matter.\<close>

definition makeCommandLineParser ::
  "u32 \<Rightarrow> (string \<Rightarrow> string option) \<Rightarrow> string + ConfigData CommandLine"
where
  "makeCommandLineParser now files =
     (case add_floating (arg_of (bound_string addTestOrTags) ''which test or tests to use''
             ''test name, pattern or tags'')
             (CommandLine_new\<lparr>boundProcessName := bound_string (\<lambda>c v. c\<lparr>cfg_processName := v\<rparr>)\<rparr>) of
        Inl e \<Rightarrow> Inl e
      | Inr cli \<Rightarrow> add_options (option_table now files) cli)"

text \<open>
  \<open>Session::applyCommandLine\<close>: the exit code, the configuration and the unused tokens; a
  parse that throws gives the greatest \<open>int\<close> and leaves the unused tokens as they were.
\<close>

definition INT_MAX :: int where "INT_MAX = 2 ^ 31 - 1"

definition applyCommandLine ::
  "ConfigData CommandLine \<Rightarrow> string list \<Rightarrow> bool \<Rightarrow> ConfigData \<Rightarrow> Token list \<Rightarrow>
   (int \<times> ConfigData \<times> Token list) option"
where
  "applyCommandLine cli args failOnUnused c unused =
     (case parseInto (setThrowOnUnrecognisedTokens failOnUnused cli) args c of
        None \<Rightarrow> None
      | Some (c, Inl e) \<Rightarrow> Some (INT_MAX, c, unused)
      | Some (c, Inr toks) \<Rightarrow> Some (0, c, toks))"

subsection \<open>\<open>Config\<close>\<close>

record Config =
  config_data :: ConfigData
  config_spec :: TestSpec

fun parse_specs :: "alias_registry \<Rightarrow> string list \<Rightarrow> TestSpecParser \<Rightarrow> TestSpecParser option" where
  "parse_specs reg [] p = Some p"
| "parse_specs reg (t # ts) p = do { p \<leftarrow> spec_parse reg t p; parse_specs reg ts p }"

text \<open>Which stream \<open>openStream\<close> opens, or the message of its exception.\<close>

datatype stream = CoutStream | DebugOutStream | FileStream string

definition openStream :: "ConfigData \<Rightarrow> string + stream" where
  "openStream c =
     (let f = cfg_outputFilename c
      in if f = [] then Inr CoutStream
         else if f ! 0 = CHR ''%''
         then (if f = ''%debug'' then Inr DebugOutStream
               else Inl (''Unrecognised stream: '' @ f))
         else Inr (FileStream f))"

definition Config_new :: "alias_registry \<Rightarrow> ConfigData \<Rightarrow> Config option" where
  "Config_new reg c =
     (case openStream c of
        Inl e \<Rightarrow> None
      | Inr _ \<Rightarrow>
          if cfg_testsOrTags c = [] then Some \<lparr>config_data = c, config_spec = []\<rparr>
          else do { p \<leftarrow> parse_specs reg (cfg_testsOrTags c) TestSpecParser_new;
                    Some \<lparr>config_data = c, config_spec = spec_testSpec p\<rparr> })"

definition allowThrows :: "Config \<Rightarrow> bool" where
  "allowThrows g \<longleftrightarrow> \<not> cfg_noThrow (config_data g)"

definition config_name :: "Config \<Rightarrow> string" where
  "config_name g =
     (if cfg_name (config_data g) = [] then cfg_processName (config_data g) else cfg_name (config_data g))"

definition warnAboutMissingAssertions :: "Config \<Rightarrow> bool" where
  "warnAboutMissingAssertions g \<longleftrightarrow> cfg_warnings (config_data g) AND NoAssertions \<noteq> 0"

end
