(* ===== verification/Catch_Wrap.thy ===== *)
theory Catch_Wrap
  imports Catch_Text
begin

text \<open>
  The text of listings and reporters (\<open>src/lib/catch.hpp\<close>, \<open>Catch::Tbc::Text\<close>).  The single
  header holds two classes of this name: \<open>::Tbc::Text\<close>, used by the command line parser, is in
  \<open>Catch_Text\<close>; this is the later one, which \<open>namespace Catch\<close> uses.

  The iterators of the constructor are offsets into what is left of the text; \<open>None\<close> is the
  exception of \<open>std::string( it, itEnd )\<close> when \<open>itEnd\<close> has been moved before \<open>it\<close>.
\<close>

record WrapAttributes =
  wrap_initialIndent :: "nat option"
  wrap_indent :: nat
  wrap_width :: nat

definition WrapAttributes_new :: WrapAttributes where
  "WrapAttributes_new = \<lparr>wrap_initialIndent = None, wrap_indent = 0, wrap_width = consoleWidth - 1\<rparr>"

definition wrap_setInitialIndent :: "nat \<Rightarrow> WrapAttributes \<Rightarrow> WrapAttributes" where
  "wrap_setInitialIndent v a = a\<lparr>wrap_initialIndent := Some v\<rparr>"

definition wrap_setIndent :: "nat \<Rightarrow> WrapAttributes \<Rightarrow> WrapAttributes" where
  "wrap_setIndent v a = a\<lparr>wrap_indent := v\<rparr>"

definition wrap_setWidth :: "nat \<Rightarrow> WrapAttributes \<Rightarrow> WrapAttributes" where
  "wrap_setWidth v a = a\<lparr>wrap_width := v\<rparr>"

definition wrappableBeforeChars :: string where
  "wrappableBeforeChars = ''[({<'' @ [CHR 0x09]"

definition wrappableAfterChars :: string where
  "wrappableAfterChars = ''])}>-,./|'' @ [CHR 0x5C]"

definition wrappableInsteadOfChars :: string where
  "wrappableInsteadOfChars = '' '' @ [CHR 0x0A, CHR 0x0D]"

text \<open>
  One look at a position \<open>findIt\<close>: the end of the line and the start of the next one, if the
  text can be broken there.
\<close>

definition wrap_here :: "string \<Rightarrow> nat \<Rightarrow> nat \<Rightarrow> (nat \<times> nat) option" where
  "wrap_here s itEnd findIt =
     (if s ! findIt \<in> set wrappableAfterChars \<and> findIt \<noteq> itEnd then Some (findIt + 1, findIt + 1)
      else if 0 < findIt \<and> s ! findIt \<in> set wrappableBeforeChars then Some (findIt, findIt)
      else if s ! findIt \<in> set wrappableInsteadOfChars then Some (findIt, findIt + 1)
      else None)"

text \<open>The search from the end of the line to its start\<close>

fun wrap_point :: "string \<Rightarrow> nat \<Rightarrow> nat \<Rightarrow> (nat \<times> nat) option" where
  "wrap_point s itEnd findIt =
     (case wrap_here s itEnd findIt of
        Some p \<Rightarrow> Some p
      | None \<Rightarrow> if findIt = 0 then None else wrap_point s itEnd (findIt - 1))"

declare wrap_point.simps [simp del]

text \<open>The end of a line without the characters that a line break replaces\<close>

fun strip_end :: "string \<Rightarrow> nat \<Rightarrow> nat" where
  "strip_end s itEnd =
     (if 0 < itEnd \<and> s ! (itEnd - 1) \<in> set wrappableInsteadOfChars then strip_end s (itEnd - 1) else itEnd)"

declare strip_end.simps [simp del]

record wrap_state =
  wr_lines :: "string list"
  wr_rest :: string
  wr_indent :: nat

text \<open>
  The end of the next line, before a place to break it is searched.  \<open>_attr.width - indent.size()\<close>
  is computed in \<open>size_t\<close>: it is larger than any text when the indent exceeds the width.
\<close>

definition wrap_end :: "WrapAttributes \<Rightarrow> wrap_state \<Rightarrow> nat" where
  "wrap_end attr w =
     (let n = length (wr_rest w);
          width = (if wr_indent w \<le> wrap_width attr then min n (wrap_width attr - wr_indent w) else n)
      in length (takeWhile (\<lambda>c. c \<noteq> CHR 0x0A) (take width (wr_rest w))))"

definition wrap_step :: "WrapAttributes \<Rightarrow> wrap_state \<Rightarrow> wrap_state option" where
  "wrap_step attr w =
     (let s = wr_rest w; itEnd = wrap_end attr w
      in do { (itEnd, itNext, suffix) \<leftarrow>
                (if itEnd \<noteq> length s
                 then (case wrap_point s itEnd itEnd of
                         Some (e, nxt) \<Rightarrow> Some (strip_end s e, nxt, [])
                       | None \<Rightarrow> if itEnd = 0 then None else Some (itEnd - 1, itEnd - 1, ''-''))
                 else Some (itEnd, length s, []));
              Some \<lparr>wr_lines = wr_lines w @ [replicate (wr_indent w) (CHR '' '') @ take itEnd s @ suffix],
                    wr_rest = drop itNext s, wr_indent = wrap_indent attr\<rparr> })"

lemma wrap_step_lines: "wrap_step attr w = Some w' \<Longrightarrow> length (wr_lines w') = Suc (length (wr_lines w))"
  by (auto simp: wrap_step_def Let_def split: bind_splits)

text \<open>
  The loop of the constructor.  It may stay where it is when a line has room for a hyphen only,
  and ends because it adds a line each time and stops at 1000 lines.
\<close>

function wrap_loop :: "WrapAttributes \<Rightarrow> wrap_state \<Rightarrow> string list option" where
  "wrap_loop attr w =
     (if wr_rest w = [] then Some (wr_lines w)
      else if 1000 \<le> length (wr_lines w)
      then Some (wr_lines w @ [''... message truncated due to excessive size''])
      else (case wrap_step attr w of None \<Rightarrow> None | Some w' \<Rightarrow> wrap_loop attr w'))"
  by auto
termination
  by (relation "measure (\<lambda>(attr, w). 1000 - length (wr_lines w))") (auto dest: wrap_step_lines)

declare wrap_loop.simps [simp del]

definition Wrap :: "string \<Rightarrow> WrapAttributes \<Rightarrow> string list option" where
  "Wrap str attr =
     wrap_loop attr \<lparr>wr_lines = [], wr_rest = str,
       wr_indent = (case wrap_initialIndent attr of None \<Rightarrow> wrap_indent attr | Some i \<Rightarrow> i)\<rparr>"

end
