(* ===== verification/Catch_Registry.thy ===== *)
theory Catch_Registry
  imports Catch_Config Catch_Wrap
begin

text \<open>
  Registering, ordering, filtering and listing test cases (\<open>src/lib/catch.hpp\<close>, the parts
  \<open>catch_test_case_registry_impl.hpp\<close> and \<open>catch_list.hpp\<close>).

  \<open>std::random_shuffle\<close> is a parameter \<open>shuffle\<close>.  \<open>std::sort\<close> leaves the order of equal
  elements open; the model keeps it, and names are distinct wherever the registry sorts.
  What is written to \<open>Catch::cout()\<close> is a component of the result.
\<close>

subsection \<open>Order and selection\<close>

definition sortTests ::
  "(TestCase list \<Rightarrow> TestCase list) \<Rightarrow> RunTests \<Rightarrow> TestCase list \<Rightarrow> TestCase list"
where
  "sortTests shuffle order unsorted =
     (case order of
        InLexicographicalOrder \<Rightarrow> sort_key tc_name unsorted
      | InRandomOrder \<Rightarrow> shuffle unsorted
      | InDeclarationOrder \<Rightarrow> unsorted)"

definition matchTest :: "TestCase \<Rightarrow> TestSpec \<Rightarrow> bool \<Rightarrow> bool option" where
  "matchTest tc spec mayThrow =
     (case spec_matches spec tc of
        None \<Rightarrow> None
      | Some m \<Rightarrow> Some (m \<and> (mayThrow \<or> \<not> throws tc)))"

definition duplicate_error :: "TestCase \<Rightarrow> TestCase \<Rightarrow> string" where
  "duplicate_error first it =
     ''error: TEST_CASE( '' @ [CHR 0x22] @ tc_name it @ [CHR 0x22] @ '' ) already defined.'' @ [CHR 0x0A] @
     [CHR 0x09] @ ''First seen at '' @ show_source (tc_lineInfo first) @ [CHR 0x0A] @
     [CHR 0x09] @ ''Redefined at '' @ show_source (tc_lineInfo it) @ [CHR 0x0A]"

text \<open>The set of the loop is ordered by name, so an equal name counts as the same element.\<close>

fun duplicates_loop :: "TestCase list \<Rightarrow> TestCase list \<Rightarrow> string + unit" where
  "duplicates_loop seen [] = Inr ()"
| "duplicates_loop seen (tc # tcs) =
     (case find (\<lambda>x. tc_name x = tc_name tc) seen of
        Some first \<Rightarrow> Inl (duplicate_error first tc)
      | None \<Rightarrow> duplicates_loop (tc # seen) tcs)"

definition enforceNoDuplicateTestCases :: "TestCase list \<Rightarrow> string + unit" where
  "enforceNoDuplicateTestCases functions = duplicates_loop [] functions"

fun filterTests :: "TestCase list \<Rightarrow> TestSpec \<Rightarrow> bool \<Rightarrow> TestCase list option" where
  "filterTests [] spec mayThrow = Some []"
| "filterTests (tc # tcs) spec mayThrow =
     (case matchTest tc spec mayThrow of
        None \<Rightarrow> None
      | Some m \<Rightarrow> map_option (\<lambda>ts. if m then tc # ts else ts) (filterTests tcs spec mayThrow))"

subsection \<open>The registry\<close>

record TestRegistry =
  rg_functions :: "TestCase list"
  rg_currentSortOrder :: RunTests
  rg_sortedFunctions :: "TestCase list"
  rg_unnamedCount :: nat

definition TestRegistry_new :: TestRegistry where
  "TestRegistry_new = \<lparr>rg_functions = [], rg_currentSortOrder = InDeclarationOrder,
     rg_sortedFunctions = [], rg_unnamedCount = 0\<rparr>"

definition registerTest :: "TestCase \<Rightarrow> TestRegistry \<Rightarrow> TestRegistry" where
  "registerTest tc r =
     (if tc_name tc = []
      then let n = Suc (rg_unnamedCount r)
           in r\<lparr>rg_unnamedCount := n,
                rg_functions := rg_functions r @ [withName tc (''Anonymous test case '' @ show_nat n)]\<rparr>
      else r\<lparr>rg_functions := rg_functions r @ [tc]\<rparr>)"

definition getAllTestsSorted ::
  "(TestCase list \<Rightarrow> TestCase list) \<Rightarrow> RunTests \<Rightarrow> TestRegistry \<Rightarrow> (string + TestCase list) \<times> TestRegistry"
where
  "getAllTestsSorted shuffle order r =
     (case (if rg_sortedFunctions r = [] then enforceNoDuplicateTestCases (rg_functions r) else Inr ()) of
        Inl e \<Rightarrow> (Inl e, r)
      | Inr _ \<Rightarrow>
          let r = (if rg_currentSortOrder r \<noteq> order \<or> rg_sortedFunctions r = []
                   then r\<lparr>rg_sortedFunctions := sortTests shuffle order (rg_functions r),
                          rg_currentSortOrder := order\<rparr>
                   else r)
          in (Inr (rg_sortedFunctions r), r))"

subsection \<open>Lists\<close>

text \<open>The specification that is listed: that of the command line, or \<open>*\<close>.\<close>

definition list_spec :: "alias_registry \<Rightarrow> Config \<Rightarrow> TestSpec option" where
  "list_spec reg g =
     (if hasFilters (config_spec g) then Some (config_spec g) else parseTestSpec reg ''*'')"

fun list_names :: "TestCase list \<Rightarrow> string option" where
  "list_names [] = Some []"
| "list_names (tc # tcs) =
     do { name \<leftarrow> Wrap (tc_name tc) (wrap_setIndent 4 (wrap_setInitialIndent 2 WrapAttributes_new));
          tags \<leftarrow> (if tc_tags tc \<noteq> []
                  then map_option (\<lambda>t. show_lines t @ [CHR 0x0A])
                         (Wrap (tc_tagsAsString tc) (wrap_setIndent 6 WrapAttributes_new))
                  else Some []);
          rest \<leftarrow> list_names tcs;
          Some (show_lines name @ [CHR 0x0A] @ tags @ rest) }"

definition listTests :: "alias_registry \<Rightarrow> Config \<Rightarrow> TestCase list \<Rightarrow> (string \<times> nat) option" where
  "listTests reg g sorted_tests =
     do { spec \<leftarrow> list_spec reg g;
          matched \<leftarrow> filterTests sorted_tests spec (allowThrows g);
          names \<leftarrow> list_names matched;
          let n = length matched;
          Some ((if hasFilters (config_spec g) then ''Matching test cases:'' else ''All available test cases:'') @
                [CHR 0x0A] @ names @
                show_pluralise \<lparr>pl_count = n,
                  pl_label = (if hasFilters (config_spec g) then ''matching test case'' else ''test case'')\<rparr> @
                [CHR 0x0A, CHR 0x0A], n) }"

definition list_name_only :: "TestCase \<Rightarrow> string" where
  "list_name_only tc =
     (if startsWithCh (tc_name tc) (CHR ''#'') then [CHR 0x22] @ tc_name tc @ [CHR 0x22] else tc_name tc) @
     [CHR 0x0A]"

definition listTestsNamesOnly ::
  "alias_registry \<Rightarrow> Config \<Rightarrow> TestCase list \<Rightarrow> (string \<times> nat) option"
where
  "listTestsNamesOnly reg g sorted_tests =
     do { spec \<leftarrow> list_spec reg g;
          matched \<leftarrow> filterTests sorted_tests spec (allowThrows g);
          Some (concat (map list_name_only matched), length matched) }"

record TagInfo =
  ti_spellings :: "string list"
  ti_count :: nat

definition TagInfo_new :: TagInfo where
  "TagInfo_new = \<lparr>ti_spellings = [], ti_count = 0\<rparr>"

definition TagInfo_add :: "string \<Rightarrow> TagInfo \<Rightarrow> TagInfo" where
  "TagInfo_add spelling i = i\<lparr>ti_count := Suc (ti_count i), ti_spellings := set_insert spelling (ti_spellings i)\<rparr>"

definition TagInfo_all :: "TagInfo \<Rightarrow> string" where
  "TagInfo_all i = concat (map (\<lambda>s. ''['' @ s @ '']'') (ti_spellings i))"

text \<open>Counting a tag under its lower-case name\<close>

definition count_tag :: "string \<Rightarrow> (string \<times> TagInfo) list \<Rightarrow> (string \<times> TagInfo) list" where
  "count_tag tag counts =
     (let l = toLower tag;
          counts = map_insert l TagInfo_new counts
      in map (\<lambda>(k, i). (k, if k = l then TagInfo_add tag i else i)) counts)"

definition tag_counts :: "TestCase list \<Rightarrow> (string \<times> TagInfo) list" where
  "tag_counts tcs = fold (\<lambda>tc. fold count_tag (tc_tags tc)) tcs []"

definition tag_line :: "TagInfo \<Rightarrow> string option" where
  "tag_line i =
     (let n = show_nat (ti_count i);
          oss = ''  '' @ replicate (2 - length n) (CHR '' '') @ n @ ''  ''
      in map_option (\<lambda>w. oss @ show_lines w @ [CHR 0x0A])
           (Wrap (TagInfo_all i)
             (wrap_setWidth (consoleWidth - 10) (wrap_setIndent (length oss) (wrap_setInitialIndent 0 WrapAttributes_new)))))"

fun tag_lines :: "(string \<times> TagInfo) list \<Rightarrow> string option" where
  "tag_lines [] = Some []"
| "tag_lines ((k, i) # cs) = do { l \<leftarrow> tag_line i; ls \<leftarrow> tag_lines cs; Some (l @ ls) }"

definition listTags :: "alias_registry \<Rightarrow> Config \<Rightarrow> TestCase list \<Rightarrow> (string \<times> nat) option" where
  "listTags reg g sorted_tests =
     do { spec \<leftarrow> list_spec reg g;
          matched \<leftarrow> filterTests sorted_tests spec (allowThrows g);
          let counts = tag_counts matched;
          ls \<leftarrow> tag_lines counts;
          Some ((if hasFilters (config_spec g) then ''Tags for matching test cases:'' else ''All available tags:'') @
                [CHR 0x0A] @ ls @
                show_pluralise \<lparr>pl_count = length counts, pl_label = ''tag''\<rparr> @ [CHR 0x0A, CHR 0x0A],
                length counts) }"

text \<open>\<open>factories\<close> are the names and descriptions of the registered reporters.\<close>

fun reporter_lines :: "nat \<Rightarrow> (string \<times> string) list \<Rightarrow> string option" where
  "reporter_lines maxNameLen [] = Some []"
| "reporter_lines maxNameLen ((name, desc) # fs) =
     do { w \<leftarrow> Wrap desc (wrap_setWidth (unat (word_of_nat consoleWidth - word_of_nat maxNameLen - (8 :: size_t)))
                 (wrap_setIndent (7 + maxNameLen) (wrap_setInitialIndent 0 WrapAttributes_new)));
          ls \<leftarrow> reporter_lines maxNameLen fs;
          Some (''  '' @ name @ '':'' @ replicate (maxNameLen - length name + 2) (CHR '' '') @ show_lines w @
                [CHR 0x0A] @ ls) }"

definition listReporters :: "(string \<times> string) list \<Rightarrow> (string \<times> nat) option" where
  "listReporters factories =
     (let maxNameLen = foldl (\<lambda>n f. max n (length (fst f))) 0 factories
      in map_option (\<lambda>ls. (''Available reporters:'' @ [CHR 0x0A] @ ls @ [CHR 0x0A], length factories))
           (reporter_lines maxNameLen factories))"

text \<open>One list request: its output and the sum of the counts so far.\<close>

definition add_list ::
  "bool \<Rightarrow> (string \<times> nat) option \<Rightarrow> string \<times> nat option \<Rightarrow> (string \<times> nat option) option"
where
  "add_list wanted listing acc =
     (if \<not> wanted then Some acc
      else map_option (\<lambda>(out, n). (fst acc @ out,
             Some ((case snd acc of None \<Rightarrow> 0 | Some k \<Rightarrow> k) + n))) listing)"

definition list_all_requested ::
  "alias_registry \<Rightarrow> (string \<times> string) list \<Rightarrow> Config \<Rightarrow> TestCase list \<Rightarrow> (string \<times> nat option) option"
where
  "list_all_requested reg factories g tests =
     (let c = config_data g
      in do { acc \<leftarrow> add_list (cfg_listTests c) (listTests reg g tests) ([], None);
              acc \<leftarrow> add_list (cfg_listTestNamesOnly c) (listTestsNamesOnly reg g tests) acc;
              acc \<leftarrow> add_list (cfg_listTags c) (listTags reg g tests) acc;
              add_list (cfg_listReporters c) (listReporters factories) acc })"

end
