(* ===== verification/Catch_Tracker.thy ===== *)
theory Catch_Tracker
  imports Catch_Strings
begin

text \<open>
  The trackers with which the test framework re-runs a test case until every section has
  been entered (\<open>src/lib/catch.hpp\<close>, the part \<open>catch_test_case_tracker.hpp\<close>).

  Trackers are shared mutable objects that point to their parent and children, so the model
  has a store: a pointer is an index into the list \<open>cx_trackers\<close>, a new object is appended to it.
  The virtual functions of \<open>ITracker\<close> are dispatched on \<open>tk_kind\<close>.  The result of an
  operation is \<open>None\<close> if it does not return, \<open>Some (Inl e)\<close> if it throws or an assertion of
  it fails, and \<open>Some (Inr x)\<close> otherwise.
\<close>

datatype tracker_error = Logic_error string | Assert_failed | Bad_pointer

type_synonym 'a outcome = "(tracker_error + 'a) option"

abbreviation returns :: "'a \<Rightarrow> 'a outcome" where "returns x \<equiv> Some (Inr x)"
abbreviation throws_error :: "tracker_error \<Rightarrow> 'a outcome" where "throws_error e \<equiv> Some (Inl e)"

datatype CycleState =
  NotStarted | Executing | ExecutingChildren | NeedsAnotherRun | CompletedSuccessfully | Failed

datatype RunState = RunNotStarted | RunExecuting | CompletedCycle

datatype kind = SectionTracker (filters: "string list") | IndexTracker (isize: int) (iindex: int)

record tracker =
  tk_name :: string
  tk_location :: SourceLineInfo
  tk_parent :: "nat option"
  tk_children :: "nat list"
  tk_state :: CycleState
  tk_kind :: kind

record TrackerContext =
  cx_trackers :: "tracker list"
  cx_root :: "nat option"
  cx_current :: "nat option"
  cx_runState :: RunState

definition TrackerContext_new :: TrackerContext where
  "TrackerContext_new = \<lparr>cx_trackers = [], cx_root = None, cx_current = None, cx_runState = RunNotStarted\<rparr>"

subsection \<open>The context\<close>

definition endRun :: "TrackerContext \<Rightarrow> TrackerContext" where
  "endRun c = c\<lparr>cx_root := None, cx_current := None, cx_runState := RunNotStarted\<rparr>"

definition startCycle :: "TrackerContext \<Rightarrow> TrackerContext" where
  "startCycle c = c\<lparr>cx_current := cx_root c, cx_runState := RunExecuting\<rparr>"

definition completeCycle :: "TrackerContext \<Rightarrow> TrackerContext" where
  "completeCycle c = c\<lparr>cx_runState := CompletedCycle\<rparr>"

definition completedCycle :: "TrackerContext \<Rightarrow> bool" where
  "completedCycle c \<longleftrightarrow> cx_runState c = CompletedCycle"

definition setCurrentTracker :: "nat \<Rightarrow> TrackerContext \<Rightarrow> TrackerContext" where
  "setCurrentTracker t c = c\<lparr>cx_current := Some t\<rparr>"

text \<open>The store\<close>

definition tracker_at :: "TrackerContext \<Rightarrow> nat \<Rightarrow> tracker option" where
  "tracker_at c t = (if t < length (cx_trackers c) then Some (cx_trackers c ! t) else None)"

definition update_tracker :: "nat \<Rightarrow> (tracker \<Rightarrow> tracker) \<Rightarrow> TrackerContext \<Rightarrow> TrackerContext" where
  "update_tracker t f c = c\<lparr>cx_trackers := (cx_trackers c)[t := f (cx_trackers c ! t)]\<rparr>"

definition new_tracker :: "tracker \<Rightarrow> TrackerContext \<Rightarrow> nat \<times> TrackerContext" where
  "new_tracker t c = (length (cx_trackers c), c\<lparr>cx_trackers := cx_trackers c @ [t]\<rparr>)"

definition put_state :: "nat \<Rightarrow> CycleState \<Rightarrow> TrackerContext \<Rightarrow> TrackerContext" where
  "put_state t st = update_tracker t (\<lambda>x. x\<lparr>tk_state := st\<rparr>)"

subsection \<open>\<open>TrackerBase\<close>: queries\<close>

definition isComplete :: "tracker \<Rightarrow> bool" where
  "isComplete t \<longleftrightarrow> tk_state t = CompletedSuccessfully \<or> tk_state t = Failed"

definition isSuccessfullyCompleted :: "tracker \<Rightarrow> bool" where
  "isSuccessfullyCompleted t \<longleftrightarrow> tk_state t = CompletedSuccessfully"

definition isOpen :: "tracker \<Rightarrow> bool" where
  "isOpen t \<longleftrightarrow> tk_state t \<noteq> NotStarted \<and> \<not> isComplete t"

definition hasChildren :: "tracker \<Rightarrow> bool" where
  "hasChildren t \<longleftrightarrow> tk_children t \<noteq> []"

definition isSectionTracker :: "tracker \<Rightarrow> bool" where
  "isSectionTracker t \<longleftrightarrow> (case tk_kind t of SectionTracker _ \<Rightarrow> True | IndexTracker _ _ \<Rightarrow> False)"

definition isIndexTracker :: "tracker \<Rightarrow> bool" where
  "isIndexTracker t \<longleftrightarrow> (case tk_kind t of SectionTracker _ \<Rightarrow> False | IndexTracker _ _ \<Rightarrow> True)"

definition TrackerHasName :: "string \<Rightarrow> SourceLineInfo \<Rightarrow> tracker \<Rightarrow> bool" where
  "TrackerHasName name location t \<longleftrightarrow> tk_name t = name \<and> source_eq (tk_location t) location"

fun find_tracker :: "TrackerContext \<Rightarrow> string \<Rightarrow> SourceLineInfo \<Rightarrow> nat list \<Rightarrow> nat option outcome" where
  "find_tracker c name location [] = returns None"
| "find_tracker c name location (t # ts) =
     (case tracker_at c t of
        None \<Rightarrow> throws_error Bad_pointer
      | Some x \<Rightarrow> if TrackerHasName name location x then returns (Some t)
                 else find_tracker c name location ts)"

definition findChild ::
  "TrackerContext \<Rightarrow> nat \<Rightarrow> string \<Rightarrow> SourceLineInfo \<Rightarrow> nat option outcome"
where
  "findChild c t name location =
     (case tracker_at c t of
        None \<Rightarrow> throws_error Bad_pointer
      | Some x \<Rightarrow> find_tracker c name location (tk_children x))"

subsection \<open>\<open>TrackerBase\<close>: actions\<close>

definition addChild :: "nat \<Rightarrow> nat \<Rightarrow> TrackerContext \<Rightarrow> TrackerContext" where
  "addChild t child = update_tracker t (\<lambda>x. x\<lparr>tk_children := tk_children x @ [child]\<rparr>)"

partial_function (option) openChild :: "nat \<Rightarrow> TrackerContext \<Rightarrow> TrackerContext outcome" where
  "openChild t c =
     (case tracker_at c t of
        None \<Rightarrow> throws_error Bad_pointer
      | Some x \<Rightarrow>
          if tk_state x \<noteq> ExecutingChildren
          then (case tk_parent x of
                  None \<Rightarrow> returns (put_state t ExecutingChildren c)
                | Some p \<Rightarrow> openChild p (put_state t ExecutingChildren c))
          else returns c)"

declare openChild.simps [code]

definition tracker_open :: "nat \<Rightarrow> TrackerContext \<Rightarrow> TrackerContext outcome" where
  "tracker_open t c =
     (case tracker_at c t of
        None \<Rightarrow> throws_error Bad_pointer
      | Some x \<Rightarrow>
          let c = setCurrentTracker t (put_state t Executing c)
          in (case tk_parent x of None \<Rightarrow> returns c | Some p \<Rightarrow> openChild p c))"

definition moveToParent :: "nat \<Rightarrow> TrackerContext \<Rightarrow> TrackerContext outcome" where
  "moveToParent t c =
     (case tracker_at c t of
        None \<Rightarrow> throws_error Bad_pointer
      | Some x \<Rightarrow> (case tk_parent x of
                    None \<Rightarrow> throws_error Assert_failed
                  | Some p \<Rightarrow> returns (setCurrentTracker p c)))"

text \<open>The switch of \<open>TrackerBase::close\<close>: the state after closing.\<close>

definition last_child_complete :: "TrackerContext \<Rightarrow> tracker \<Rightarrow> bool outcome" where
  "last_child_complete c x =
     (if tk_children x = [] then returns True
      else (case tracker_at c (last (tk_children x)) of
              None \<Rightarrow> throws_error Bad_pointer
            | Some child \<Rightarrow> returns (isComplete child)))"

definition close_state :: "TrackerContext \<Rightarrow> tracker \<Rightarrow> CycleState outcome" where
  "close_state c x =
     (case tk_state x of
        NeedsAnotherRun \<Rightarrow> returns NeedsAnotherRun
      | Executing \<Rightarrow> returns CompletedSuccessfully
      | ExecutingChildren \<Rightarrow>
          (case last_child_complete c x of
             None \<Rightarrow> None
           | Some (Inl e) \<Rightarrow> throws_error e
           | Some (Inr b) \<Rightarrow> returns (if b then CompletedSuccessfully else ExecutingChildren))
      | _ \<Rightarrow> throws_error (Logic_error ''Illogical state''))"

text \<open>\<open>IndexTracker::close\<close> goes on after the base class: an index that is not the last runs again.\<close>

definition close_index :: "nat \<Rightarrow> TrackerContext \<Rightarrow> TrackerContext" where
  "close_index t c =
     (case tk_kind (cx_trackers c ! t) of
        SectionTracker _ \<Rightarrow> c
      | IndexTracker sz i \<Rightarrow>
          if tk_state (cx_trackers c ! t) = CompletedSuccessfully \<and> i < sz - 1
          then put_state t Executing c else c)"

definition close_this :: "nat \<Rightarrow> tracker \<Rightarrow> TrackerContext \<Rightarrow> TrackerContext outcome" where
  "close_this t x c =
     (case close_state c x of
        None \<Rightarrow> None
      | Some (Inl e) \<Rightarrow> throws_error e
      | Some (Inr st) \<Rightarrow>
          (case moveToParent t (put_state t st c) of
             None \<Rightarrow> None
           | Some (Inl e) \<Rightarrow> throws_error e
           | Some (Inr c) \<Rightarrow> returns (close_index t (completeCycle c))))"

text \<open>\<open>close\<close>: while another tracker is the current one, that one is closed first.\<close>

partial_function (option) tracker_close :: "nat \<Rightarrow> TrackerContext \<Rightarrow> TrackerContext outcome" where
  "tracker_close t c =
     (case tracker_at c t of
        None \<Rightarrow> throws_error Bad_pointer
      | Some x \<Rightarrow>
          (case cx_current c of
             None \<Rightarrow> throws_error Bad_pointer
           | Some cur \<Rightarrow>
               if cur \<noteq> t
               then Option.bind (tracker_close cur c) (\<lambda>r.
                      case r of Inl e \<Rightarrow> throws_error e | Inr c \<Rightarrow> tracker_close t c)
               else close_this t x c))"

declare tracker_close.simps [code]

definition markAsNeedingAnotherRun :: "nat \<Rightarrow> TrackerContext \<Rightarrow> TrackerContext" where
  "markAsNeedingAnotherRun t = put_state t NeedsAnotherRun"

definition tracker_fail :: "nat \<Rightarrow> TrackerContext \<Rightarrow> TrackerContext outcome" where
  "tracker_fail t c =
     (case tracker_at c t of
        None \<Rightarrow> throws_error Bad_pointer
      | Some x \<Rightarrow>
          let c = put_state t Failed c;
              c = (case tk_parent x of None \<Rightarrow> c | Some p \<Rightarrow> markAsNeedingAnotherRun p c)
          in (case moveToParent t c of
                None \<Rightarrow> None
              | Some (Inl e) \<Rightarrow> throws_error e
              | Some (Inr c) \<Rightarrow> returns (completeCycle c)))"

subsection \<open>\<open>SectionTracker\<close>\<close>

definition addInitialFilters :: "nat \<Rightarrow> string list \<Rightarrow> TrackerContext \<Rightarrow> TrackerContext" where
  "addInitialFilters t fs c =
     (if fs \<noteq> []
      then update_tracker t (\<lambda>x. x\<lparr>tk_kind := SectionTracker (filters (tk_kind x) @ [[], []] @ fs)\<rparr>) c
      else c)"

definition addNextFilters :: "string list \<Rightarrow> string list \<Rightarrow> string list" where
  "addNextFilters own fs = (if 1 < length fs then own @ tl fs else own)"

text \<open>The loop of the constructor: the nearest section tracker from the parent upwards.\<close>

partial_function (option) parent_section :: "nat \<Rightarrow> TrackerContext \<Rightarrow> tracker outcome" where
  "parent_section p c =
     (case tracker_at c p of
        None \<Rightarrow> throws_error Bad_pointer
      | Some x \<Rightarrow>
          if isSectionTracker x then returns x
          else (case tk_parent x of
                  None \<Rightarrow> throws_error Assert_failed
                | Some q \<Rightarrow> parent_section q c))"

declare parent_section.simps [code]

definition SectionTracker_new ::
  "string \<Rightarrow> SourceLineInfo \<Rightarrow> nat option \<Rightarrow> TrackerContext \<Rightarrow> (nat \<times> TrackerContext) outcome"
where
  "SectionTracker_new name location parent c =
     (let t = \<lparr>tk_name = name, tk_location = location, tk_parent = parent, tk_children = [],
              tk_state = NotStarted, tk_kind = SectionTracker []\<rparr>
      in (case parent of
            None \<Rightarrow> returns (new_tracker t c)
          | Some p \<Rightarrow>
              (case parent_section p c of
                 None \<Rightarrow> None
               | Some (Inl e) \<Rightarrow> throws_error e
               | Some (Inr x) \<Rightarrow>
                   returns (new_tracker
                     (t\<lparr>tk_kind := SectionTracker (addNextFilters [] (filters (tk_kind x)))\<rparr>) c))))"

definition tryOpen :: "nat \<Rightarrow> TrackerContext \<Rightarrow> TrackerContext outcome" where
  "tryOpen t c =
     (case tracker_at c t of
        None \<Rightarrow> throws_error Bad_pointer
      | Some x \<Rightarrow>
          let fs = filters (tk_kind x)
          in if \<not> isComplete x \<and> (fs = [] \<or> hd fs = [] \<or> hd fs = tk_name x)
             then tracker_open t c else returns c)"

text \<open>The section under the current tracker, created on the first request.\<close>

definition find_or_add_section ::
  "string \<Rightarrow> SourceLineInfo \<Rightarrow> TrackerContext \<Rightarrow> (nat \<times> TrackerContext) outcome"
where
  "find_or_add_section name location c =
     (case cx_current c of
        None \<Rightarrow> throws_error Bad_pointer
      | Some cur \<Rightarrow>
          (case findChild c cur name location of
             None \<Rightarrow> None
           | Some (Inl e) \<Rightarrow> throws_error e
           | Some (Inr (Some child)) \<Rightarrow>
               (if isSectionTracker (cx_trackers c ! child) then returns (child, c)
                else throws_error Assert_failed)
           | Some (Inr None) \<Rightarrow>
               (case SectionTracker_new name location (Some cur) c of
                  None \<Rightarrow> None
                | Some (Inl e) \<Rightarrow> throws_error e
                | Some (Inr (t, c)) \<Rightarrow> returns (t, addChild cur t c))))"

definition SectionTracker_acquire ::
  "string \<Rightarrow> SourceLineInfo \<Rightarrow> TrackerContext \<Rightarrow> (nat \<times> TrackerContext) outcome"
where
  "SectionTracker_acquire name location c =
     (case find_or_add_section name location c of
        None \<Rightarrow> None
      | Some (Inl e) \<Rightarrow> throws_error e
      | Some (Inr (t, c)) \<Rightarrow>
          if completedCycle c then returns (t, c)
          else (case tryOpen t c of
                  None \<Rightarrow> None
                | Some (Inl e) \<Rightarrow> throws_error e
                | Some (Inr c) \<Rightarrow> returns (t, c)))"

subsection \<open>\<open>IndexTracker\<close>\<close>

definition moveNext :: "nat \<Rightarrow> TrackerContext \<Rightarrow> TrackerContext" where
  "moveNext t = update_tracker t (\<lambda>x. x\<lparr>tk_kind := IndexTracker (isize (tk_kind x)) (iindex (tk_kind x) + 1),
     tk_children := []\<rparr>)"

definition find_or_add_index ::
  "string \<Rightarrow> SourceLineInfo \<Rightarrow> int \<Rightarrow> TrackerContext \<Rightarrow> (nat \<times> TrackerContext) outcome"
where
  "find_or_add_index name location sz c =
     (case cx_current c of
        None \<Rightarrow> throws_error Bad_pointer
      | Some cur \<Rightarrow>
          (case findChild c cur name location of
             None \<Rightarrow> None
           | Some (Inl e) \<Rightarrow> throws_error e
           | Some (Inr (Some child)) \<Rightarrow>
               (if isIndexTracker (cx_trackers c ! child) then returns (child, c)
                else throws_error Assert_failed)
           | Some (Inr None) \<Rightarrow>
               (let (t, c) = new_tracker \<lparr>tk_name = name, tk_location = location, tk_parent = Some cur,
                               tk_children = [], tk_state = NotStarted, tk_kind = IndexTracker sz (-1)\<rparr> c
                in returns (t, addChild cur t c))))"

definition IndexTracker_acquire ::
  "string \<Rightarrow> SourceLineInfo \<Rightarrow> int \<Rightarrow> TrackerContext \<Rightarrow> (nat \<times> TrackerContext) outcome"
where
  "IndexTracker_acquire name location sz c =
     (case find_or_add_index name location sz c of
        None \<Rightarrow> None
      | Some (Inl e) \<Rightarrow> throws_error e
      | Some (Inr (t, c)) \<Rightarrow>
          (case tracker_at c t of
             None \<Rightarrow> throws_error Bad_pointer
           | Some x \<Rightarrow>
               if \<not> completedCycle c \<and> \<not> isComplete x
               then let c = (if tk_state x \<noteq> ExecutingChildren \<and> tk_state x \<noteq> NeedsAnotherRun
                             then moveNext t c else c)
                    in (case tracker_open t c of
                          None \<Rightarrow> None
                        | Some (Inl e) \<Rightarrow> throws_error e
                        | Some (Inr c) \<Rightarrow> returns (t, c))
               else returns (t, c)))"

definition tracker_index :: "tracker \<Rightarrow> int" where
  "tracker_index t = iindex (tk_kind t)"

text \<open>\<open>startRun\<close>; \<open>here\<close> is the position of its text, \<open>CATCH_INTERNAL_LINEINFO\<close>.\<close>

definition startRun :: "SourceLineInfo \<Rightarrow> TrackerContext \<Rightarrow> (nat \<times> TrackerContext) outcome" where
  "startRun here c =
     (case SectionTracker_new ''{root}'' here None c of
        None \<Rightarrow> None
      | Some (Inl e) \<Rightarrow> throws_error e
      | Some (Inr (t, c)) \<Rightarrow>
          returns (t, c\<lparr>cx_root := Some t, cx_current := None, cx_runState := RunExecuting\<rparr>))"

end
