(* ===== verification/Catch_Values.thy ===== *)
theory Catch_Values
  imports Catch_Totals "HOL-Library.AList"
begin

text \<open>
  Values in the test framework (\<open>src/lib/catch.hpp\<close>): their text in reports
  (\<open>catch_tostring.hpp\<close>), generators of values (\<open>catch_generators.hpp\<close>,
  \<open>catch_generators_impl.hpp\<close>) and matchers of vectors (\<open>catch_matchers_vector.h\<close>).  Bytes
  are printed for a little-endian machine; floating-point numbers are not modelled.
\<close>

subsection \<open>Text of values\<close>

fun show_base :: "nat \<Rightarrow> nat \<Rightarrow> string" where
  "show_base b n =
     (if b < 2 then []
      else if n < b then [char_of (if n < 10 then 48 + n else 87 + n)]
      else show_base b (n div b) @ [char_of (if n mod b < 10 then 48 + n mod b else 87 + n mod b)])"

declare show_base.simps [simp del]

definition hexThreshold :: nat where "hexThreshold = 255"

text \<open>The bytes of an object, the most significant first\<close>

definition rawMemoryToString :: "u8 list \<Rightarrow> string" where
  "rawMemoryToString object =
     ''0x'' @ concat (map (\<lambda>b. show_base 16 (unat b div 16) @ show_base 16 (unat b mod 16)) (rev object))"

text \<open>The loop over the positions of \<open>s\<close>; a replaced character is skipped.\<close>

function show_invisibles :: "nat \<Rightarrow> string \<Rightarrow> string" where
  "show_invisibles i s =
     (if i < length s
      then let subs = (if s ! i = CHR 0x0A then [CHR 0x5C, CHR ''n'']
                       else if s ! i = CHR 0x09 then [CHR 0x5C, CHR ''t''] else [])
           in if subs \<noteq> [] then show_invisibles (i + 2) (substr s 0 i @ subs @ drop (i + 1) s)
              else show_invisibles (i + 1) s
      else s)"
  by auto
termination
  by (relation "measure (\<lambda>(i, s). length s - i)") (auto simp: substr_def split: if_splits)

declare show_invisibles.simps [simp del]

definition toString_string :: "bool \<Rightarrow> string \<Rightarrow> string" where
  "toString_string showInvisibles v =
     [CHR 0x22] @ (if showInvisibles then show_invisibles 0 v else v) @ [CHR 0x22]"

definition toString_wstring :: "bool \<Rightarrow> nat list \<Rightarrow> string" where
  "toString_wstring showInvisibles v =
     toString_string showInvisibles (map (\<lambda>c. if c \<le> 0xff then char_of c else CHR ''?'') v)"

definition toString_cstring :: "bool \<Rightarrow> string option \<Rightarrow> string" where
  "toString_cstring showInvisibles v =
     (case v of None \<Rightarrow> ''{null string}'' | Some s \<Rightarrow> toString_string showInvisibles s)"

definition with_hex :: "nat \<Rightarrow> string" where
  "with_hex n = show_nat n @ (if hexThreshold < n then '' (0x'' @ show_base 16 n @ '')'' else [])"

definition toString_int :: "int \<Rightarrow> string" where
  "toString_int v = (if v < 0 then ''-'' @ show_nat (nat (- v)) else with_hex (nat v))"

definition toString_unsigned_long :: "u64 \<Rightarrow> string" where
  "toString_unsigned_long v = with_hex (unat v)"

definition toString_unsigned :: "u32 \<Rightarrow> string" where
  "toString_unsigned v = toString_unsigned_long (ucast v)"

definition toString_bool :: "bool \<Rightarrow> string" where
  "toString_bool v = (if v then ''true'' else ''false'')"

definition toString_char :: "char \<Rightarrow> string" where
  "toString_char c =
     (let q = CHR 0x27; b = CHR 0x5C
      in if c = CHR 0x0D then [q, b, CHR ''r'', q]
         else if c = CHR 0x0C then [q, b, CHR ''f'', q]
         else if c = CHR 0x0A then [q, b, CHR ''n'', q]
         else if c = CHR 0x09 then [q, b, CHR ''t'', q]
         else if (of_char c :: nat) < 32 then toString_unsigned (of_char c)
         else [q, c, q])"

subsection \<open>Generators\<close>

text \<open>A generator of integers between two bounds, or of listed values\<close>

datatype 'a generator = BetweenGenerator int int "int \<Rightarrow> 'a" | ValuesGenerator "'a list"

definition gen_size :: "'a generator \<Rightarrow> size_t" where
  "gen_size g = (case g of
       BetweenGenerator from to _ \<Rightarrow> word_of_int (1 + to - from)
     | ValuesGenerator vs \<Rightarrow> word_of_nat (length vs))"

definition gen_value :: "'a generator \<Rightarrow> size_t \<Rightarrow> 'a option" where
  "gen_value g i = (case g of
       BetweenGenerator from to f \<Rightarrow> Some (f (from + sint (ucast i :: u32)))
     | ValuesGenerator vs \<Rightarrow> if unat i < length vs then Some (vs ! unat i) else None)"

record 'a CompositeGenerator =
  cg_composed :: "'a generator list"
  cg_totalSize :: size_t

definition cg_new :: "'a CompositeGenerator" where
  "cg_new = \<lparr>cg_composed = [], cg_totalSize = 0\<rparr>"

definition cg_add :: "'a generator \<Rightarrow> 'a CompositeGenerator \<Rightarrow> 'a CompositeGenerator" where
  "cg_add g c = c\<lparr>cg_totalSize := cg_totalSize c + gen_size g, cg_composed := cg_composed c @ [g]\<rparr>"

text \<open>\<open>move\<close> leaves the total size of the other generator unchanged.\<close>

definition cg_move ::
  "'a CompositeGenerator \<Rightarrow> 'a CompositeGenerator \<Rightarrow> 'a CompositeGenerator \<times> 'a CompositeGenerator"
where
  "cg_move c other =
     (c\<lparr>cg_composed := cg_composed c @ cg_composed other, cg_totalSize := cg_totalSize c + cg_totalSize other\<rparr>,
      other\<lparr>cg_composed := []\<rparr>)"

definition cg_then_value :: "'a \<Rightarrow> 'a CompositeGenerator \<Rightarrow> 'a CompositeGenerator" where
  "cg_then_value v c = cg_add (ValuesGenerator [v]) c"

text \<open>
  The conversion to a value for the overall index; past the end of the range the code throws
  (\<open>Inl\<close>), and an index outside a vector is undefined (\<open>None\<close>).
\<close>

fun cg_find :: "'a generator list \<Rightarrow> size_t \<Rightarrow> size_t \<Rightarrow> (string + 'a) option" where
  "cg_find [] overall i = Some (Inl ''Indexed past end of generated range'')"
| "cg_find (g # gs) overall i =
     (if i \<le> overall \<and> overall < i + gen_size g
      then map_option Inr (gen_value g (overall - i))
      else cg_find gs overall (i + gen_size g))"

definition cg_value :: "'a CompositeGenerator \<Rightarrow> size_t \<Rightarrow> (string + 'a) option" where
  "cg_value c overall = cg_find (cg_composed c) overall 0"

definition between :: "int \<Rightarrow> int \<Rightarrow> int CompositeGenerator" where
  "between from to = cg_add (BetweenGenerator from to (\<lambda>i. i)) cg_new"

definition values2 :: "'a \<Rightarrow> 'a \<Rightarrow> 'a CompositeGenerator" where
  "values2 v1 v2 = cg_add (ValuesGenerator [v1, v2]) cg_new"

definition values3 :: "'a \<Rightarrow> 'a \<Rightarrow> 'a \<Rightarrow> 'a CompositeGenerator" where
  "values3 v1 v2 v3 = cg_add (ValuesGenerator [v1, v2, v3]) cg_new"

definition values4 :: "'a \<Rightarrow> 'a \<Rightarrow> 'a \<Rightarrow> 'a \<Rightarrow> 'a CompositeGenerator" where
  "values4 v1 v2 v3 v4 = cg_add (ValuesGenerator [v1, v2, v3, v4]) cg_new"

record GeneratorInfo =
  gi_size :: size_t
  gi_currentIndex :: size_t

definition GeneratorInfo_new :: "size_t \<Rightarrow> GeneratorInfo" where
  "GeneratorInfo_new sz = \<lparr>gi_size = sz, gi_currentIndex = 0\<rparr>"

definition gi_moveNext :: "GeneratorInfo \<Rightarrow> bool \<times> GeneratorInfo" where
  "gi_moveNext g =
     (let i = gi_currentIndex g + 1
      in if i = gi_size g then (False, g\<lparr>gi_currentIndex := 0\<rparr>) else (True, g\<lparr>gi_currentIndex := i\<rparr>))"

text \<open>The generators of a test, in the order in which it asked for them first\<close>

type_synonym GeneratorsForTest = "(string \<times> GeneratorInfo) list"

definition getGeneratorInfo :: "string \<Rightarrow> size_t \<Rightarrow> GeneratorsForTest \<Rightarrow> GeneratorInfo \<times> GeneratorsForTest" where
  "getGeneratorInfo fileInfo sz gs =
     (case map_of gs fileInfo of
        None \<Rightarrow> (GeneratorInfo_new sz, gs @ [(fileInfo, GeneratorInfo_new sz)])
      | Some g \<Rightarrow> (g, gs))"

text \<open>An odometer: the first generator that does not wrap around ends the loop.\<close>

fun gens_moveNext :: "GeneratorsForTest \<Rightarrow> bool \<times> GeneratorsForTest" where
  "gens_moveNext [] = (False, [])"
| "gens_moveNext ((n, g) # gs) =
     (let (more, g) = gi_moveNext g
      in if more then (True, (n, g) # gs)
         else let (more, gs) = gens_moveNext gs in (more, (n, g) # gs))"

text \<open>The generators of \<open>Context\<close>, by the name of the test\<close>

type_synonym generator_context = "(string \<times> GeneratorsForTest) list"

definition getGeneratorIndex ::
  "string \<Rightarrow> string \<Rightarrow> size_t \<Rightarrow> generator_context \<Rightarrow> size_t \<times> generator_context"
where
  "getGeneratorIndex testName fileInfo totalSize ctx =
     (let gs = (case map_of ctx testName of None \<Rightarrow> [] | Some gs \<Rightarrow> gs);
          (g, gs) = getGeneratorInfo fileInfo totalSize gs
      in (gi_currentIndex g, AList.update testName gs ctx))"

definition advanceGeneratorsForCurrentTest ::
  "string \<Rightarrow> generator_context \<Rightarrow> bool \<times> generator_context"
where
  "advanceGeneratorsForCurrentTest testName ctx =
     (case map_of ctx testName of
        None \<Rightarrow> (False, ctx)
      | Some gs \<Rightarrow> let (more, gs) = gens_moveNext gs in (more, AList.update testName gs ctx))"

subsection \<open>Matchers of vectors\<close>

definition vector_contains_element :: "'a \<Rightarrow> 'a list \<Rightarrow> bool" where
  "vector_contains_element comparator v \<longleftrightarrow> comparator \<in> set v"

fun all_found :: "'a list \<Rightarrow> 'a list \<Rightarrow> bool" where
  "all_found [] v = True"
| "all_found (c # cs) v = (if c \<notin> set v then False else all_found cs v)"

definition vector_contains :: "'a list \<Rightarrow> 'a list \<Rightarrow> bool" where
  "vector_contains comparator v =
     (if length v < length comparator then False else all_found comparator v)"

fun same_elements :: "'a list \<Rightarrow> 'a list \<Rightarrow> nat list \<Rightarrow> bool" where
  "same_elements comparator v [] = True"
| "same_elements comparator v (i # is) =
     (if comparator ! i \<noteq> v ! i then False else same_elements comparator v is)"

definition vector_equals :: "'a list \<Rightarrow> 'a list \<Rightarrow> bool" where
  "vector_equals comparator v =
     (if length comparator \<noteq> length v then False else same_elements comparator v [0..<length v])"

end
