(* ===== verification/Catch_Run.thy ===== *)
theory Catch_Run
  imports Catch_Registry Catch_Tracker Catch_Values
begin

text \<open>
  Running a test case (\<open>src/lib/catch.hpp\<close>): \<open>ResultBuilder\<close>, which turns an expression
  into an assertion result, and \<open>RunContext\<close>, which counts results, follows the sections
  through the trackers and runs a test case until its tracker is complete.

  The reporter is a list of the calls that were made to it.  The body of a test case is an
  argument, \<open>invoke\<close>: it maps the run to the run after it and the way it ended.  Durations,
  the redirected output and the seed of the random numbers are left out.
\<close>

record SectionInfo =
  si_name :: string
  si_description :: string
  si_lineInfo :: SourceLineInfo

record SectionEndInfo =
  se_sectionInfo :: SectionInfo
  se_prevAssertions :: Counts

record MessageInfo =
  mi_macroName :: string
  mi_lineInfo :: SourceLineInfo
  mi_type :: ResultWas
  mi_message :: string
  mi_sequence :: u32

datatype event =
    TestRunStarting string
  | TestGroupStarting string nat nat
  | TestGroupEnded string Totals bool
  | TestCaseStarting TestCase
  | TestCaseEnded TestCase Totals bool
  | SectionStarting SectionInfo
  | SectionEnded SectionInfo Counts bool
  | AssertionEnded AssertionResult "MessageInfo list" Totals
  | TestRunEnded Totals bool
  | SkipTest TestCase

record RunContext =
  rc_config :: Config
  rc_totals :: Totals
  rc_messages :: "MessageInfo list"
  rc_lastAssertionInfo :: AssertionInfo
  rc_lastResult :: "AssertionResult option"
  rc_unfinishedSections :: "SectionEndInfo list"
  rc_activeSections :: "nat list"
  rc_trackers :: TrackerContext
  rc_testCaseTracker :: "nat option"
  rc_activeTestCase :: "TestCase option"
  rc_shouldReportUnexpected :: bool
  rc_generators :: generator_context
  rc_events :: "event list"

definition report :: "event \<Rightarrow> RunContext \<Rightarrow> RunContext" where
  "report e r = r\<lparr>rc_events := rc_events r @ [e]\<rparr>"

definition on_assertions :: "(Counts \<Rightarrow> Counts) \<Rightarrow> RunContext \<Rightarrow> RunContext" where
  "on_assertions f r = r\<lparr>rc_totals := (rc_totals r)\<lparr>assertions := f (assertions (rc_totals r))\<rparr>\<rparr>"

definition on_testCases :: "(Counts \<Rightarrow> Counts) \<Rightarrow> RunContext \<Rightarrow> RunContext" where
  "on_testCases f r = r\<lparr>rc_totals := (rc_totals r)\<lparr>testCases := f (testCases (rc_totals r))\<rparr>\<rparr>"

definition abortAfter :: "RunContext \<Rightarrow> int" where
  "abortAfter r = cfg_abortAfter (config_data (rc_config r))"

definition aborting :: "RunContext \<Rightarrow> bool" where
  "aborting r \<longleftrightarrow> failed (assertions (rc_totals r)) = word_of_int (abortAfter r)"

subsection \<open>Assertions\<close>

definition assertionEnded :: "AssertionResult \<Rightarrow> RunContext \<Rightarrow> RunContext" where
  "assertionEnded result r =
     (let r = (if getResultType result = Ok then on_assertions (\<lambda>c. c\<lparr>passed := passed c + 1\<rparr>) r
               else if \<not> result_isOk result then on_assertions (\<lambda>c. c\<lparr>failed := failed c + 1\<rparr>) r
               else r);
          r = report (AssertionEnded result (rc_messages r) (rc_totals r)) r;
          i = rc_lastAssertionInfo r
      in r\<lparr>rc_lastAssertionInfo := i\<lparr>macroName := [],
             capturedExpression := ''{Unknown expression after the reported line}''\<rparr>,
           rc_lastResult := Some result\<rparr>)"

record ResultBuilder =
  rb_assertionInfo :: AssertionInfo
  rb_data :: AssertionResultData
  rb_stream :: string
  rb_shouldDebugBreak :: bool
  rb_shouldThrow :: bool
  rb_guardException :: bool

definition capturedExpressionWithSecondArgument :: "string \<Rightarrow> string \<Rightarrow> string" where
  "capturedExpressionWithSecondArgument captured secondArg =
     (if secondArg = [] \<or> secondArg = [CHR 0x22, CHR 0x22] then captured else captured @ '', '' @ secondArg)"

definition ResultBuilder_new ::
  "string \<Rightarrow> SourceLineInfo \<Rightarrow> string \<Rightarrow> int \<Rightarrow> string \<Rightarrow> ResultBuilder"
where
  "ResultBuilder_new macro location captured disposition secondArg =
     \<lparr>rb_assertionInfo = \<lparr>macroName = macro, lineInfo = location,
        capturedExpression = capturedExpressionWithSecondArgument captured secondArg,
        resultDisposition = disposition\<rparr>,
      rb_data = AssertionResultData_init, rb_stream = [], rb_shouldDebugBreak = False,
      rb_shouldThrow = False, rb_guardException = False\<rparr>"

definition setResultType :: "ResultWas \<Rightarrow> ResultBuilder \<Rightarrow> ResultBuilder" where
  "setResultType result b = b\<lparr>rb_data := (rb_data b)\<lparr>resultType := result\<rparr>\<rparr>"

definition setResultType_bool :: "bool \<Rightarrow> ResultBuilder \<Rightarrow> ResultBuilder" where
  "setResultType_bool result b = setResultType (if result then Ok else ExpressionFailed) b"

text \<open>\<open>build(expr)\<close>: \<open>text\<close> is what the expression reconstructs to, \<open>binary\<close> whether it is a
  binary expression.  The assertion that the result type is known fails as \<open>None\<close>.\<close>

definition build_expr :: "string \<Rightarrow> bool \<Rightarrow> ResultBuilder \<Rightarrow> AssertionResult option" where
  "build_expr text binary b =
     (if resultType (rb_data b) = Unknown then None
      else let d = rb_data b;
               d = (if isFalseTest (resultDisposition (rb_assertionInfo b)) then negate binary d else d)
           in Some \<lparr>m_info = rb_assertionInfo b,
                    m_resultData = d\<lparr>message := rb_stream b, decomposedExpression := Some text\<rparr>\<rparr>)"

definition build :: "ResultBuilder \<Rightarrow> AssertionResult option" where
  "build b = build_expr (capturedExpression (rb_assertionInfo b)) False b"

definition handleResult :: "AssertionResult \<Rightarrow> ResultBuilder \<Rightarrow> RunContext \<Rightarrow> ResultBuilder \<times> RunContext" where
  "handleResult result b r =
     (let r = assertionEnded result r
      in if \<not> result_isOk result
         then let b = (if cfg_shouldDebugBreak (config_data (rc_config r))
                       then b\<lparr>rb_shouldDebugBreak := True\<rparr> else b);
                  b = (if aborting r \<or> resultDisposition (rb_assertionInfo b) AND Normal \<noteq> 0
                       then b\<lparr>rb_shouldThrow := True\<rparr> else b)
              in (b, r)
         else (b, r))"

definition endExpression ::
  "string \<Rightarrow> bool \<Rightarrow> ResultBuilder \<Rightarrow> RunContext \<Rightarrow> (ResultBuilder \<times> RunContext) option"
where
  "endExpression text binary b r = map_option (\<lambda>result. handleResult result b r) (build_expr text binary b)"

definition captureExpression :: "ResultBuilder \<Rightarrow> RunContext \<Rightarrow> (ResultBuilder \<times> RunContext) option" where
  "captureExpression b r = map_option (\<lambda>result. handleResult result b r) (build b)"

definition captureResult :: "ResultWas \<Rightarrow> ResultBuilder \<Rightarrow> RunContext \<Rightarrow> (ResultBuilder \<times> RunContext) option" where
  "captureResult result b r = captureExpression (setResultType result b) r"

definition useActiveException ::
  "string \<Rightarrow> int \<Rightarrow> ResultBuilder \<Rightarrow> RunContext \<Rightarrow> (ResultBuilder \<times> RunContext) option"
where
  "useActiveException translated disposition b r =
     captureResult ThrewException
       (b\<lparr>rb_assertionInfo := (rb_assertionInfo b)\<lparr>resultDisposition := disposition\<rparr>,
          rb_stream := rb_stream b @ translated\<rparr>) r"

definition captureExpectedException ::
  "(string \<Rightarrow> bool) \<Rightarrow> string \<Rightarrow> ResultBuilder \<Rightarrow> RunContext \<Rightarrow> (ResultBuilder \<times> RunContext) option"
where
  "captureExpectedException matcher actual b r =
     (if isFalseTest (resultDisposition (rb_assertionInfo b)) then None
      else let d = (rb_data b)\<lparr>resultType := Ok,
                      reconstructedExpression := capturedExpression (rb_assertionInfo b)\<rparr>;
               d = (if \<not> matcher actual
                    then d\<lparr>resultType := ExpressionFailed, reconstructedExpression := actual\<rparr> else d)
           in Some (handleResult \<lparr>m_info = rb_assertionInfo b, m_resultData = d\<rparr> b r))"

text \<open>\<open>react\<close>: whether it throws the exception that ends the test\<close>

definition react :: "ResultBuilder \<Rightarrow> bool" where
  "react b \<longleftrightarrow> rb_shouldThrow b"

subsection \<open>Sections\<close>

definition sectionStarted :: "SectionInfo \<Rightarrow> Counts \<Rightarrow> RunContext \<Rightarrow> (bool \<times> Counts \<times> RunContext) outcome" where
  "sectionStarted info counts r =
     (case SectionTracker_acquire (si_name info) (si_lineInfo info) (rc_trackers r) of
        None \<Rightarrow> None
      | Some (Inl e) \<Rightarrow> throws_error e
      | Some (Inr (t, c)) \<Rightarrow>
          let r = r\<lparr>rc_trackers := c\<rparr>
          in if \<not> isOpen (cx_trackers c ! t) then returns (False, counts, r)
             else let r = r\<lparr>rc_activeSections := rc_activeSections r @ [t],
                           rc_lastAssertionInfo := (rc_lastAssertionInfo r)\<lparr>lineInfo := si_lineInfo info\<rparr>\<rparr>;
                      r = report (SectionStarting info) r
                  in returns (True, assertions (rc_totals r), r))"

definition testForMissingAssertions :: "Counts \<Rightarrow> RunContext \<Rightarrow> (bool \<times> Counts \<times> RunContext) outcome" where
  "testForMissingAssertions counts r =
     (if Counts_total counts \<noteq> 0 then returns (False, counts, r)
      else if \<not> warnAboutMissingAssertions (rc_config r) then returns (False, counts, r)
      else (case cx_current (rc_trackers r) of
              None \<Rightarrow> throws_error Bad_pointer
            | Some t \<Rightarrow>
                if hasChildren (cx_trackers (rc_trackers r) ! t) then returns (False, counts, r)
                else returns (True, counts\<lparr>failed := failed counts + 1\<rparr>,
                              on_assertions (\<lambda>c. c\<lparr>failed := failed c + 1\<rparr>) r)))"

definition close_active :: "RunContext \<Rightarrow> RunContext outcome" where
  "close_active r =
     (if rc_activeSections r = [] then returns r
      else (case tracker_close (last (rc_activeSections r)) (rc_trackers r) of
              None \<Rightarrow> None
            | Some (Inl e) \<Rightarrow> throws_error e
            | Some (Inr c) \<Rightarrow>
                returns (r\<lparr>rc_trackers := c, rc_activeSections := butlast (rc_activeSections r)\<rparr>)))"

definition sectionEnded :: "SectionEndInfo \<Rightarrow> RunContext \<Rightarrow> RunContext outcome" where
  "sectionEnded endInfo r =
     (case testForMissingAssertions
             (Counts_minus (assertions (rc_totals r)) (se_prevAssertions endInfo)) r of
        None \<Rightarrow> None
      | Some (Inl e) \<Rightarrow> throws_error e
      | Some (Inr (missing, counts, r)) \<Rightarrow>
          (case close_active r of
             None \<Rightarrow> None
           | Some (Inl e) \<Rightarrow> throws_error e
           | Some (Inr r) \<Rightarrow>
               returns ((report (SectionEnded (se_sectionInfo endInfo) counts missing) r)\<lparr>rc_messages := []\<rparr>)))"

definition sectionEndedEarly :: "SectionEndInfo \<Rightarrow> RunContext \<Rightarrow> RunContext outcome" where
  "sectionEndedEarly endInfo r =
     (if rc_activeSections r = [] then throws_error Bad_pointer
      else (case (if rc_unfinishedSections r = []
                  then tracker_fail (last (rc_activeSections r)) (rc_trackers r)
                  else tracker_close (last (rc_activeSections r)) (rc_trackers r)) of
              None \<Rightarrow> None
            | Some (Inl e) \<Rightarrow> throws_error e
            | Some (Inr c) \<Rightarrow>
                returns (r\<lparr>rc_trackers := c, rc_activeSections := butlast (rc_activeSections r),
                           rc_unfinishedSections := rc_unfinishedSections r @ [endInfo]\<rparr>)))"

definition pushScopedMessage :: "MessageInfo \<Rightarrow> RunContext \<Rightarrow> RunContext" where
  "pushScopedMessage m r = r\<lparr>rc_messages := rc_messages r @ [m]\<rparr>"

definition popScopedMessage :: "MessageInfo \<Rightarrow> RunContext \<Rightarrow> RunContext" where
  "popScopedMessage m r =
     r\<lparr>rc_messages := filter (\<lambda>x. mi_sequence x \<noteq> mi_sequence m) (rc_messages r)\<rparr>"

definition getCurrentTestName :: "RunContext \<Rightarrow> string" where
  "getCurrentTestName r = (case rc_activeTestCase r of None \<Rightarrow> [] | Some tc \<Rightarrow> tc_name tc)"

definition exceptionEarlyReported :: "RunContext \<Rightarrow> RunContext" where
  "exceptionEarlyReported r = r\<lparr>rc_shouldReportUnexpected := False\<rparr>"

fun end_unfinished :: "SectionEndInfo list \<Rightarrow> RunContext \<Rightarrow> RunContext outcome" where
  "end_unfinished [] r = returns r"
| "end_unfinished (e # es) r =
     (case sectionEnded e r of
        None \<Rightarrow> None
      | Some (Inl err) \<Rightarrow> throws_error err
      | Some (Inr r) \<Rightarrow> end_unfinished es r)"

definition handleUnfinishedSections :: "RunContext \<Rightarrow> RunContext outcome" where
  "handleUnfinishedSections r =
     (case end_unfinished (rev (rc_unfinishedSections r)) r of
        None \<Rightarrow> None
      | Some (Inl e) \<Rightarrow> throws_error e
      | Some (Inr r) \<Rightarrow> returns (r\<lparr>rc_unfinishedSections := []\<rparr>))"

definition testCase_section :: "TestCase \<Rightarrow> SectionInfo" where
  "testCase_section tc = \<lparr>si_name = tc_name tc, si_description = tc_description tc, si_lineInfo = tc_lineInfo tc\<rparr>"

definition testGroupStarting :: "string \<Rightarrow> nat \<Rightarrow> nat \<Rightarrow> RunContext \<Rightarrow> RunContext" where
  "testGroupStarting spec groupIndex groupsCount r = report (TestGroupStarting spec groupIndex groupsCount) r"

definition testGroupEnded :: "string \<Rightarrow> Totals \<Rightarrow> RunContext \<Rightarrow> RunContext" where
  "testGroupEnded spec totals r = report (TestGroupEnded spec totals (aborting r)) r"

definition handleFatalErrorCondition :: "string \<Rightarrow> RunContext \<Rightarrow> RunContext outcome" where
  "handleFatalErrorCondition msg r =
     (case rc_activeTestCase r of
        None \<Rightarrow> throws_error Bad_pointer
      | Some tc \<Rightarrow>
          (case handleUnfinishedSections (assertionEnded
                  \<lparr>m_info = rc_lastAssertionInfo r,
                   m_resultData = AssertionResultData_init\<lparr>resultType := FatalErrorCondition, message := msg\<rparr>\<rparr> r) of
             None \<Rightarrow> None
           | Some (Inl e) \<Rightarrow> throws_error e
           | Some (Inr r) \<Rightarrow>
               let r = report (SectionEnded (testCase_section tc) (Counts_zero\<lparr>failed := 1\<rparr>) False) r;
                   r = report (TestCaseEnded tc (Totals_zero\<lparr>testCases := Counts_zero\<lparr>failed := 1\<rparr>\<rparr>) False) r;
                   r = on_testCases (\<lambda>c. c\<lparr>failed := failed c + 1\<rparr>) r;
                   r = testGroupEnded [] (rc_totals r) r
               in returns (report (TestRunEnded (rc_totals r) False) r)))"

subsection \<open>Running a test case\<close>

text \<open>How the body of a test ended\<close>

datatype test_exit = Returned | TestFailure | OtherException string

type_synonym test_body = "RunContext \<Rightarrow> RunContext \<times> test_exit"

definition run_body :: "test_body \<Rightarrow> RunContext \<Rightarrow> RunContext option" where
  "run_body invoke r =
     (case invoke r of
        (r, Returned) \<Rightarrow> Some r
      | (r, TestFailure) \<Rightarrow> Some r
      | (r, OtherException msg) \<Rightarrow>
          if rc_shouldReportUnexpected r
          then let i = rc_lastAssertionInfo r
               in map_option snd (useActiveException msg Normal
                    (ResultBuilder_new (macroName i) (lineInfo i) (capturedExpression i) (resultDisposition i) []) r)
          else Some r)"

text \<open>Failures of a test that may fail are counted as failed but ok.\<close>

definition forgive :: "TestCase \<Rightarrow> Counts \<Rightarrow> RunContext \<Rightarrow> Counts \<times> RunContext" where
  "forgive tc counts r =
     (if okToFail tc
      then let counts = counts\<lparr>failedButOk := failed counts, failed := failedButOk counts\<rparr>
           in (counts, on_assertions (\<lambda>c. c\<lparr>failed := failed c - failedButOk counts,
                                           failedButOk := failedButOk c + failedButOk counts\<rparr>) r)
      else (counts, r))"

definition runCurrentTest :: "test_body \<Rightarrow> RunContext \<Rightarrow> RunContext outcome" where
  "runCurrentTest invoke r =
     (case (rc_activeTestCase r, rc_testCaseTracker r) of
        (Some tc, Some tracker) \<Rightarrow>
          let section = testCase_section tc;
              r = report (SectionStarting section) r;
              prevAssertions = assertions (rc_totals r);
              r = r\<lparr>rc_shouldReportUnexpected := True,
                    rc_lastAssertionInfo := \<lparr>macroName = ''TEST_CASE'', lineInfo = tc_lineInfo tc,
                      capturedExpression = [], resultDisposition = Normal\<rparr>\<rparr>
          in (case run_body invoke r of
                None \<Rightarrow> None
              | Some r \<Rightarrow>
                  (case tracker_close tracker (rc_trackers r) of
                     None \<Rightarrow> None
                   | Some (Inl e) \<Rightarrow> throws_error e
                   | Some (Inr c) \<Rightarrow>
                       (case handleUnfinishedSections (r\<lparr>rc_trackers := c\<rparr>) of
                          None \<Rightarrow> None
                        | Some (Inl e) \<Rightarrow> throws_error e
                        | Some (Inr r) \<Rightarrow>
                            (case testForMissingAssertions
                                    (Counts_minus (assertions (rc_totals r)) prevAssertions)
                                    (r\<lparr>rc_messages := []\<rparr>) of
                               None \<Rightarrow> None
                             | Some (Inl e) \<Rightarrow> throws_error e
                             | Some (Inr (missing, counts, r)) \<Rightarrow>
                                 let (counts, r) = forgive tc counts r
                                 in returns (report (SectionEnded section counts missing) r)))))
      | _ \<Rightarrow> throws_error Bad_pointer)"

text \<open>One cycle of the inner loop of \<open>runTest\<close>\<close>

definition run_cycle :: "test_body \<Rightarrow> TestCase \<Rightarrow> RunContext \<Rightarrow> RunContext outcome" where
  "run_cycle invoke tc r =
     (case SectionTracker_acquire (tc_name tc) (tc_lineInfo tc) (startCycle (rc_trackers r)) of
        None \<Rightarrow> None
      | Some (Inl e) \<Rightarrow> throws_error e
      | Some (Inr (t, c)) \<Rightarrow> runCurrentTest invoke (r\<lparr>rc_trackers := c, rc_testCaseTracker := Some t\<rparr>))"

definition tracker_done :: "RunContext \<Rightarrow> bool" where
  "tracker_done r = (case rc_testCaseTracker r of
       None \<Rightarrow> False
     | Some t \<Rightarrow> isSuccessfullyCompleted (cx_trackers (rc_trackers r) ! t))"

partial_function (option) cycle_loop :: "test_body \<Rightarrow> TestCase \<Rightarrow> RunContext \<Rightarrow> RunContext outcome" where
  "cycle_loop invoke tc r =
     (case run_cycle invoke tc r of
        None \<Rightarrow> None
      | Some (Inl e) \<Rightarrow> throws_error e
      | Some (Inr r) \<Rightarrow> if \<not> tracker_done r \<and> \<not> aborting r then cycle_loop invoke tc r else returns r)"

declare cycle_loop.simps [code]

partial_function (option) run_loop ::
  "SourceLineInfo \<Rightarrow> test_body \<Rightarrow> TestCase \<Rightarrow> RunContext \<Rightarrow> RunContext outcome"
where
  "run_loop here invoke tc r =
     (case startRun here (rc_trackers r) of
        None \<Rightarrow> None
      | Some (Inl e) \<Rightarrow> throws_error e
      | Some (Inr (root, c)) \<Rightarrow>
          (case cycle_loop invoke tc (r\<lparr>rc_trackers :=
                  addInitialFilters root (cfg_sectionsToRun (config_data (rc_config r))) c\<rparr>) of
             None \<Rightarrow> None
           | Some (Inl e) \<Rightarrow> throws_error e
           | Some (Inr r) \<Rightarrow>
               (let (more, gens) = advanceGeneratorsForCurrentTest (getCurrentTestName r) (rc_generators r);
                    r = r\<lparr>rc_generators := gens\<rparr>
                in if more \<and> \<not> aborting r then run_loop here invoke tc r else returns r)))"

declare run_loop.simps [code]

definition expected_failure :: "TestCase \<Rightarrow> Totals \<Rightarrow> Totals" where
  "expected_failure tc delta =
     (if expectedToFail tc \<and> 0 < passed (testCases delta)
      then let a = assertions delta; t = testCases delta
           in delta\<lparr>assertions := a\<lparr>failed := failed a + 1\<rparr>,
                    testCases := t\<lparr>passed := passed t - 1, failed := failed t + 1\<rparr>\<rparr>
      else delta)"

definition runTest :: "SourceLineInfo \<Rightarrow> test_body \<Rightarrow> TestCase \<Rightarrow> RunContext \<Rightarrow> (Totals \<times> RunContext) outcome" where
  "runTest here invoke tc r =
     (let prevTotals = rc_totals r;
          r = report (TestCaseStarting tc) r
      in case run_loop here invoke tc (r\<lparr>rc_activeTestCase := Some tc\<rparr>) of
           None \<Rightarrow> None
         | Some (Inl e) \<Rightarrow> throws_error e
         | Some (Inr r) \<Rightarrow>
             let delta = expected_failure tc (Totals_delta (rc_totals r) prevTotals);
                 r = on_testCases (\<lambda>c. Counts_plus c (testCases delta)) r;
                 r = report (TestCaseEnded tc delta (aborting r)) r
             in returns (delta, r\<lparr>rc_activeTestCase := None, rc_testCaseTracker := None\<rparr>))"

text \<open>
  The constructor and the destructor of the run.  \<open>disposition\<close> is what the uninitialised
  member of the default \<open>AssertionInfo\<close> holds; the pointer to the tracker of the test case,
  which is not initialised either, is not read before it is set.
\<close>

definition RunContext_new :: "int \<Rightarrow> Config \<Rightarrow> RunContext" where
  "RunContext_new disposition g =
     report (TestRunStarting (config_name g))
       \<lparr>rc_config = g, rc_totals = Totals_zero, rc_messages = [],
        rc_lastAssertionInfo = \<lparr>macroName = [], lineInfo = \<lparr>src_file = [], src_line = 0\<rparr>,
          capturedExpression = [], resultDisposition = disposition\<rparr>,
        rc_lastResult = None, rc_unfinishedSections = [], rc_activeSections = [],
        rc_trackers = TrackerContext_new, rc_testCaseTracker = None, rc_activeTestCase = None,
        rc_shouldReportUnexpected = True, rc_generators = [], rc_events = []\<rparr>"

definition RunContext_destroy :: "RunContext \<Rightarrow> RunContext" where
  "RunContext_destroy r = report (TestRunEnded (rc_totals r) (aborting r)) r"

text \<open>The loop of \<open>runTests\<close> over the sorted test cases; \<open>bodies\<close> gives the body of each.\<close>

fun run_tests_loop ::
  "SourceLineInfo \<Rightarrow> (TestCase \<Rightarrow> test_body) \<Rightarrow> TestSpec \<Rightarrow> TestCase list \<Rightarrow> Totals \<Rightarrow> RunContext \<Rightarrow>
   (Totals \<times> RunContext) outcome"
where
  "run_tests_loop here bodies spec [] totals r = returns (totals, r)"
| "run_tests_loop here bodies spec (tc # tcs) totals r =
     (case matchTest tc spec (allowThrows (rc_config r)) of
        None \<Rightarrow> None
      | Some m \<Rightarrow>
          if \<not> aborting r \<and> m
          then (case runTest here (bodies tc) tc r of
                  None \<Rightarrow> None
                | Some (Inl e) \<Rightarrow> throws_error e
                | Some (Inr (delta, r)) \<Rightarrow> run_tests_loop here bodies spec tcs (Totals_plus totals delta) r)
          else run_tests_loop here bodies spec tcs totals (report (SkipTest tc) r))"

text \<open>\<open>applyFilenamesAsTags\<close> for one test case\<close>

definition filename_tag :: "string \<Rightarrow> string" where
  "filename_tag fname =
     (let f = (case find_last_of fname [CHR 0x5C, CHR ''/''] (length fname) of
                 None \<Rightarrow> fname | Some lastSlash \<Rightarrow> drop (lastSlash + 1) fname)
      in ''#'' @ (case find_last_of f ''.'' (length f) of None \<Rightarrow> f | Some lastDot \<Rightarrow> substr f 0 lastDot))"

definition applyFilenameAsTag :: "TestCase \<Rightarrow> TestCase" where
  "applyFilenameAsTag tc =
     setTags tc (set_insert (filename_tag (src_file (tc_lineInfo tc))) (tc_tags tc))"

end
