(* ===== verification/Catch_Reporter.thy ===== *)
theory Catch_Reporter
  imports Catch_Run
begin

text \<open>
  What the reporters of the test framework share (\<open>src/lib/catch.hpp\<close>, the parts
  \<open>catch_message.hpp\<close>, \<open>catch_interfaces_reporter.h\<close>, \<open>catch_reporter_bases.hpp\<close>,
  \<open>catch_reporter_multi.hpp\<close>, \<open>catch_legacy_reporter_adapter.hpp\<close>): the values that the run
  passes to a reporter, the base class of the streaming reporters, the reporter that passes
  every call on to several others, and the adapter for the old reporter interface.

  A call to a reporter is an \<open>event\<close> of the run.  What the run does not keep, the printed
  durations, the redirected output, the time of day and the counter of messages, is the argument
  \<open>env\<close>.  Colours put no characters into the output.  Undefined behaviour, such as popping an
  empty stack or reading an absent value, is \<open>None\<close>.
\<close>

record report_env =
  re_seconds :: string
  re_stdOut :: string
  re_stdErr :: string
  re_timestamp :: string
  re_globalCount :: u32

subsection \<open>Messages\<close>

definition MessageInfo_new :: "string \<Rightarrow> SourceLineInfo \<Rightarrow> ResultWas \<Rightarrow> u32 \<Rightarrow> MessageInfo \<times> u32" where
  "MessageInfo_new macro location result_type globalCount =
     (let n = globalCount + 1
      in (\<lparr>mi_macroName = macro, mi_lineInfo = location, mi_type = result_type, mi_message = [],
           mi_sequence = n\<rparr>, n))"

text \<open>A scoped message is pushed when it is made and popped unless an exception is on its way.\<close>

definition ScopedMessage_new :: "MessageInfo \<Rightarrow> string \<Rightarrow> RunContext \<Rightarrow> MessageInfo \<times> RunContext" where
  "ScopedMessage_new builder_info text r =
     (let m = builder_info\<lparr>mi_message := text\<rparr> in (m, pushScopedMessage m r))"

definition ScopedMessage_destroy :: "bool \<Rightarrow> MessageInfo \<Rightarrow> RunContext \<Rightarrow> RunContext" where
  "ScopedMessage_destroy uncaught_exception m r =
     (if \<not> uncaught_exception then popScopedMessage m r else r)"

record AssertionStats =
  as_result :: AssertionResult
  as_infoMessages :: "MessageInfo list"
  as_totals :: Totals

text \<open>The message of the assertion itself is appended to the messages.\<close>

definition AssertionStats_new ::
  "u32 \<Rightarrow> AssertionResult \<Rightarrow> MessageInfo list \<Rightarrow> Totals \<Rightarrow> AssertionStats \<times> u32"
where
  "AssertionStats_new globalCount result messages totals =
     (if hasMessage result
      then let (m, n) = MessageInfo_new (macroName (m_info result)) (lineInfo (m_info result))
                          (getResultType result) globalCount
           in (\<lparr>as_result = result, as_infoMessages = messages @ [m\<lparr>mi_message := getMessage result\<rparr>],
                as_totals = totals\<rparr>, n)
      else (\<lparr>as_result = result, as_infoMessages = messages, as_totals = totals\<rparr>, globalCount))"

subsection \<open>Sections as objects\<close>

record Section =
  sec_info :: SectionInfo
  sec_assertions :: Counts
  sec_included :: bool

definition Section_new :: "SectionInfo \<Rightarrow> RunContext \<Rightarrow> (Section \<times> RunContext) outcome" where
  "Section_new info r =
     (case sectionStarted info Counts_zero r of
        None \<Rightarrow> None
      | Some (Inl e) \<Rightarrow> throws_error e
      | Some (Inr (included, counts, r)) \<Rightarrow>
          returns (\<lparr>sec_info = info, sec_assertions = counts, sec_included = included\<rparr>, r))"

definition Section_destroy :: "bool \<Rightarrow> Section \<Rightarrow> RunContext \<Rightarrow> RunContext outcome" where
  "Section_destroy uncaught_exception sec r =
     (if sec_included sec
      then let endInfo = \<lparr>se_sectionInfo = sec_info sec, se_prevAssertions = sec_assertions sec\<rparr>
           in if uncaught_exception then sectionEndedEarly endInfo r else sectionEnded endInfo r
      else returns r)"

subsection \<open>\<open>StreamingReporterBase\<close>\<close>

record 'a LazyStat =
  ls_value :: "'a option"
  ls_used :: bool

definition lazy_empty :: "'a LazyStat" where
  "lazy_empty = \<lparr>ls_value = None, ls_used = False\<rparr>"

definition lazy_set :: "'a \<Rightarrow> 'a LazyStat" where
  "lazy_set v = \<lparr>ls_value = Some v, ls_used = False\<rparr>"

record GroupInfo =
  gr_name :: string
  gr_groupIndex :: nat
  gr_groupsCounts :: nat

record StreamingReporterBase =
  sb_config :: Config
  sb_stream :: string
  sb_currentTestRunInfo :: "string LazyStat"
  sb_currentGroupInfo :: "GroupInfo LazyStat"
  sb_currentTestCaseInfo :: "TestCase LazyStat"
  sb_sectionStack :: "SectionInfo list"
  sb_shouldRedirectStdOut :: bool

definition StreamingReporterBase_new :: "Config \<Rightarrow> string \<Rightarrow> StreamingReporterBase" where
  "StreamingReporterBase_new g out =
     \<lparr>sb_config = g, sb_stream = out, sb_currentTestRunInfo = lazy_empty, sb_currentGroupInfo = lazy_empty,
      sb_currentTestCaseInfo = lazy_empty, sb_sectionStack = [], sb_shouldRedirectStdOut = False\<rparr>"

fun streaming_base :: "event \<Rightarrow> StreamingReporterBase \<Rightarrow> StreamingReporterBase option" where
  "streaming_base (TestRunStarting name) b = Some (b\<lparr>sb_currentTestRunInfo := lazy_set name\<rparr>)"
| "streaming_base (TestGroupStarting name index count) b =
     Some (b\<lparr>sb_currentGroupInfo := lazy_set \<lparr>gr_name = name, gr_groupIndex = index, gr_groupsCounts = count\<rparr>\<rparr>)"
| "streaming_base (TestCaseStarting tc) b = Some (b\<lparr>sb_currentTestCaseInfo := lazy_set tc\<rparr>)"
| "streaming_base (SectionStarting info) b = Some (b\<lparr>sb_sectionStack := sb_sectionStack b @ [info]\<rparr>)"
| "streaming_base (SectionEnded info counts missing) b =
     (if sb_sectionStack b = [] then None else Some (b\<lparr>sb_sectionStack := butlast (sb_sectionStack b)\<rparr>))"
| "streaming_base (TestCaseEnded tc totals aborted) b = Some (b\<lparr>sb_currentTestCaseInfo := lazy_empty\<rparr>)"
| "streaming_base (TestGroupEnded name totals aborted) b = Some (b\<lparr>sb_currentGroupInfo := lazy_empty\<rparr>)"
| "streaming_base (TestRunEnded totals aborted) b =
     Some (b\<lparr>sb_currentTestCaseInfo := lazy_empty, sb_currentGroupInfo := lazy_empty,
             sb_currentTestRunInfo := lazy_empty\<rparr>)"
| "streaming_base (AssertionEnded result messages totals) b = Some b"
| "streaming_base (SkipTest tc) b = Some b"

definition print :: "string \<Rightarrow> StreamingReporterBase \<Rightarrow> StreamingReporterBase" where
  "print s b = b\<lparr>sb_stream := sb_stream b @ s\<rparr>"

definition includeSuccessfulResults :: "Config \<Rightarrow> bool" where
  "includeSuccessfulResults g = cfg_showSuccessfulTests (config_data g)"

definition showDurations :: "Config \<Rightarrow> ShowDurations" where
  "showDurations g = cfg_showDurations (config_data g)"

definition getLineOfChars :: "char \<Rightarrow> string" where
  "getLineOfChars c = replicate (consoleWidth - 1) c"

subsection \<open>Several reporters\<close>

text \<open>
  A reporter of states \<open>'r\<close> maps a call to its result; the second component says whether the
  messages should be cleared.
\<close>

type_synonym 'r reporter_op = "report_env \<Rightarrow> event \<Rightarrow> 'r \<Rightarrow> (bool \<times> 'r) option"

datatype 'r reporter = Single 'r | MultipleReporters "'r list"

definition addReporter :: "'r reporter option \<Rightarrow> 'r \<Rightarrow> 'r reporter" where
  "addReporter existing additional =
     (case existing of
        None \<Rightarrow> Single additional
      | Some (Single r) \<Rightarrow> MultipleReporters [r, additional]
      | Some (MultipleReporters rs) \<Rightarrow> MultipleReporters (rs @ [additional]))"

fun multi_call :: "'r reporter_op \<Rightarrow> report_env \<Rightarrow> event \<Rightarrow> 'r list \<Rightarrow> bool \<Rightarrow> (bool \<times> 'r list) option" where
  "multi_call step env e [] clearBuffer = Some (clearBuffer, [])"
| "multi_call step env e (r # rs) clearBuffer =
     do { (c, r) \<leftarrow> step env e r;
          (clearBuffer, rs) \<leftarrow> multi_call step env e rs (clearBuffer \<or> c);
          Some (clearBuffer, r # rs) }"

definition reporter_call :: "'r reporter_op \<Rightarrow> report_env \<Rightarrow> event \<Rightarrow> 'r reporter \<Rightarrow> (bool \<times> 'r reporter) option" where
  "reporter_call step env e r =
     (case r of
        Single r \<Rightarrow> map_option (\<lambda>(c, r). (c, Single r)) (step env e r)
      | MultipleReporters rs \<Rightarrow> map_option (\<lambda>(c, rs). (c, MultipleReporters rs)) (multi_call step env e rs False))"

subsection \<open>The registry of reporters\<close>

record 'f ReporterRegistry =
  rr_factories :: "(string \<times> 'f) list"
  rr_listeners :: "'f list"

definition reporter_create :: "string \<Rightarrow> 'f ReporterRegistry \<Rightarrow> 'f option" where
  "reporter_create name reg = map_of (rr_factories reg) name"

definition registerReporter :: "string \<Rightarrow> 'f \<Rightarrow> 'f ReporterRegistry \<Rightarrow> 'f ReporterRegistry" where
  "registerReporter name factory reg = reg\<lparr>rr_factories := map_insert name factory (rr_factories reg)\<rparr>"

definition registerListener :: "'f \<Rightarrow> 'f ReporterRegistry \<Rightarrow> 'f ReporterRegistry" where
  "registerListener factory reg = reg\<lparr>rr_listeners := rr_listeners reg @ [factory]\<rparr>"

subsection \<open>The adapter for old reporters\<close>

datatype legacy_call =
    StartTesting | EndTesting Totals | StartGroup string | EndGroup string Totals
  | StartTestCase TestCase | EndTestCase TestCase Totals string string
  | StartSection string string | EndSection string Counts
  | NoAssertionsInSection string | NoAssertionsInTestCase string | Aborted | Result AssertionResult

text \<open>The information that is reported before an assertion that is not simply ok\<close>

definition legacy_info :: "MessageInfo \<Rightarrow> legacy_call list option" where
  "legacy_info m =
     (if mi_type m = Info
      then let rb = ResultBuilder_new (mi_macroName m) (mi_lineInfo m) [] Normal [];
               rb = rb\<lparr>rb_stream := rb_stream rb @ mi_message m\<rparr>
           in map_option (\<lambda>r. [Result r]) (build (setResultType Info rb))
      else Some [])"

fun legacy_infos :: "MessageInfo list \<Rightarrow> legacy_call list option" where
  "legacy_infos [] = Some []"
| "legacy_infos (m # ms) = do { c \<leftarrow> legacy_info m; cs \<leftarrow> legacy_infos ms; Some (c @ cs) }"

text \<open>The calls to the old reporter that an event gives rise to\<close>

fun legacy_adapter :: "report_env \<Rightarrow> event \<Rightarrow> legacy_call list option" where
  "legacy_adapter env (TestRunStarting name) = Some [StartTesting]"
| "legacy_adapter env (TestGroupStarting name index count) = Some [StartGroup name]"
| "legacy_adapter env (TestCaseStarting tc) = Some [StartTestCase tc]"
| "legacy_adapter env (SectionStarting info) = Some [StartSection (si_name info) (si_description info)]"
| "legacy_adapter env (AssertionEnded result messages totals) =
     (let stats = fst (AssertionStats_new (re_globalCount env) result messages totals)
      in map_option (\<lambda>cs. cs @ [Result result])
           (if getResultType result \<noteq> Ok then legacy_infos (as_infoMessages stats) else Some []))"
| "legacy_adapter env (SectionEnded info counts missing) =
     Some ((if missing then [NoAssertionsInSection (si_name info)] else []) @ [EndSection (si_name info) counts])"
| "legacy_adapter env (TestCaseEnded tc totals aborted) =
     Some [EndTestCase tc totals (re_stdOut env) (re_stdErr env)]"
| "legacy_adapter env (TestGroupEnded name totals aborted) =
     Some ((if aborted then [Aborted] else []) @ [EndGroup name totals])"
| "legacy_adapter env (TestRunEnded totals aborted) = Some [EndTesting totals]"
| "legacy_adapter env (SkipTest tc) = Some []"

end
