(* ===== verification/Catch_Xml.thy ===== *)
theory Catch_Xml
  imports Catch_Strings
begin

text \<open>
  Writing XML in the test framework (\<open>src/lib/catch.hpp\<close>, \<open>catch_xmlwriter.hpp\<close>):
  \<open>XmlEncode\<close>, and \<open>XmlWriter\<close> with its stack of open elements.  The stream that it writes
  to is the string \<open>xw_os\<close>.  \<open>char\<close> is signed, so codes from 128 on are negative.
\<close>

datatype for_what = ForTextNodes | ForAttributes

definition hex_digit :: "nat \<Rightarrow> char" where
  "hex_digit n = (if n < 10 then char_of (48 + n) else char_of (55 + n))"

definition hex2 :: "nat \<Rightarrow> string" where
  "hex2 n = [hex_digit (n div 16), hex_digit (n mod 16)]"

text \<open>Whether \<open>c\<close> is escaped as a control character\<close>

definition is_control :: "char \<Rightarrow> bool" where
  "is_control c \<longleftrightarrow> (let n = (of_char c :: nat) in n < 9 \<or> 13 < n \<and> n < 32 \<or> n = 127)"

text \<open>The output for the character at position \<open>i\<close> of \<open>str\<close>\<close>

definition encode_char :: "for_what \<Rightarrow> string \<Rightarrow> nat \<Rightarrow> string" where
  "encode_char forWhat str i =
     (let c = str ! i
      in if c = CHR ''<'' then ''&lt;''
         else if c = CHR ''&'' then ''&amp;''
         else if c = CHR ''>''
         then (if 2 < i \<and> str ! (i - 1) = CHR '']'' \<and> str ! (i - 2) = CHR '']'' then ''&gt;'' else [c])
         else if c = CHR 0x22 then (if forWhat = ForAttributes then ''&quot;'' else [c])
         else if is_control c then [CHR 0x5C, CHR ''x''] @ hex2 (of_char c)
         else [c])"

fun encode_from :: "for_what \<Rightarrow> string \<Rightarrow> nat list \<Rightarrow> string" where
  "encode_from forWhat str [] = []"
| "encode_from forWhat str (i # is) = encode_char forWhat str i @ encode_from forWhat str is"

definition XmlEncode :: "for_what \<Rightarrow> string \<Rightarrow> string" where
  "XmlEncode forWhat str = encode_from forWhat str [0..<length str]"

subsection \<open>\<open>XmlWriter\<close>\<close>

record XmlWriter =
  xw_tagIsOpen :: bool
  xw_needsNewline :: bool
  xw_tags :: "string list"
  xw_indent :: string
  xw_os :: string

definition emit :: "string \<Rightarrow> XmlWriter \<Rightarrow> XmlWriter" where
  "emit s w = w\<lparr>xw_os := xw_os w @ s\<rparr>"

definition writeDeclaration :: "XmlWriter \<Rightarrow> XmlWriter" where
  "writeDeclaration w =
     emit (''<?xml version='' @ [CHR 0x22] @ ''1.0'' @ [CHR 0x22] @ '' encoding='' @ [CHR 0x22] @ ''UTF-8'' @
           [CHR 0x22] @ ''?>'' @ [CHR 0x0A]) w"

definition XmlWriter_new :: "string \<Rightarrow> XmlWriter" where
  "XmlWriter_new os =
     writeDeclaration \<lparr>xw_tagIsOpen = False, xw_needsNewline = False, xw_tags = [], xw_indent = [], xw_os = os\<rparr>"

definition ensureTagClosed :: "XmlWriter \<Rightarrow> XmlWriter" where
  "ensureTagClosed w =
     (if xw_tagIsOpen w then (emit (''>'' @ [CHR 0x0A]) w)\<lparr>xw_tagIsOpen := False\<rparr> else w)"

definition newlineIfNecessary :: "XmlWriter \<Rightarrow> XmlWriter" where
  "newlineIfNecessary w =
     (if xw_needsNewline w then (emit [CHR 0x0A] w)\<lparr>xw_needsNewline := False\<rparr> else w)"

definition startElement :: "string \<Rightarrow> XmlWriter \<Rightarrow> XmlWriter" where
  "startElement name w =
     (let w = newlineIfNecessary (ensureTagClosed w);
          w = emit (xw_indent w @ ''<'' @ name) w
      in w\<lparr>xw_tags := xw_tags w @ [name], xw_indent := xw_indent w @ ''  '', xw_tagIsOpen := True\<rparr>)"

text \<open>\<open>endElement\<close> without an open element reads past the stack: \<open>None\<close>.\<close>

definition endElement :: "XmlWriter \<Rightarrow> XmlWriter option" where
  "endElement w =
     (if xw_tags w = [] then None
      else let w = newlineIfNecessary w;
               w = w\<lparr>xw_indent := (if 2 \<le> length (xw_indent w)
                                  then substr (xw_indent w) 0 (length (xw_indent w) - 2)
                                  else xw_indent w)\<rparr>;
               w = (if xw_tagIsOpen w then (emit ''/>'' w)\<lparr>xw_tagIsOpen := False\<rparr>
                    else emit (xw_indent w @ ''</'' @ last (xw_tags w) @ ''>'') w);
               w = emit [CHR 0x0A] w
           in Some (w\<lparr>xw_tags := butlast (xw_tags w)\<rparr>))"

text \<open>The destructor ends every element that is still open.\<close>

fun end_elements :: "nat \<Rightarrow> XmlWriter \<Rightarrow> XmlWriter option" where
  "end_elements 0 w = Some w"
| "end_elements (Suc n) w = (case endElement w of None \<Rightarrow> None | Some w \<Rightarrow> end_elements n w)"

definition XmlWriter_destroy :: "XmlWriter \<Rightarrow> XmlWriter option" where
  "XmlWriter_destroy w = end_elements (length (xw_tags w)) w"

definition writeAttribute :: "string \<Rightarrow> string \<Rightarrow> XmlWriter \<Rightarrow> XmlWriter" where
  "writeAttribute name attribute w =
     (if name \<noteq> [] \<and> attribute \<noteq> []
      then emit ('' '' @ name @ ''='' @ [CHR 0x22] @ XmlEncode ForAttributes attribute @ [CHR 0x22]) w
      else w)"

definition writeAttribute_bool :: "string \<Rightarrow> bool \<Rightarrow> XmlWriter \<Rightarrow> XmlWriter" where
  "writeAttribute_bool name attribute w =
     emit ('' '' @ name @ ''='' @ [CHR 0x22] @ (if attribute then ''true'' else ''false'') @ [CHR 0x22]) w"

definition writeText :: "string \<Rightarrow> bool \<Rightarrow> XmlWriter \<Rightarrow> XmlWriter" where
  "writeText text ind w =
     (if text \<noteq> []
      then let tagWasOpen = xw_tagIsOpen w;
               w = ensureTagClosed w;
               w = (if tagWasOpen \<and> ind then emit (xw_indent w) w else w)
           in (emit (XmlEncode ForTextNodes text) w)\<lparr>xw_needsNewline := True\<rparr>
      else w)"

definition writeComment :: "string \<Rightarrow> XmlWriter \<Rightarrow> XmlWriter" where
  "writeComment text w =
     (let w = ensureTagClosed w
      in (emit (xw_indent w @ ''<!--'' @ text @ ''-->'') w)\<lparr>xw_needsNewline := True\<rparr>)"

definition writeStylesheetRef :: "string \<Rightarrow> XmlWriter \<Rightarrow> XmlWriter" where
  "writeStylesheetRef url w =
     emit (''<?xml-stylesheet type='' @ [CHR 0x22] @ ''text/xsl'' @ [CHR 0x22] @ '' href='' @ [CHR 0x22] @ url @
           [CHR 0x22] @ ''?>'' @ [CHR 0x0A]) w"

definition writeBlankLine :: "XmlWriter \<Rightarrow> XmlWriter" where
  "writeBlankLine w = emit [CHR 0x0A] (ensureTagClosed w)"

end
