(* ===== verification/Catch_Reporter_Xml.thy ===== *)
theory Catch_Reporter_Xml
  imports Catch_Reporter Catch_Xml
begin

text \<open>
  The reporter that writes an XML document (\<open>src/lib/catch.hpp\<close>, the part
  \<open>catch_reporter_xml.hpp\<close>).  The destructor of a scoped element ends it; it is written out
  where it runs.
\<close>

record XmlReporter =
  xr_base :: StreamingReporterBase
  xr_xml :: XmlWriter
  xr_sectionDepth :: int

definition XmlReporter_new :: "Config \<Rightarrow> string \<Rightarrow> XmlReporter" where
  "XmlReporter_new g out =
     \<lparr>xr_base = (StreamingReporterBase_new g out)\<lparr>sb_shouldRedirectStdOut := True\<rparr>,
      xr_xml = XmlWriter_new out, xr_sectionDepth = 0\<rparr>"

definition writeAttribute_nat :: "string \<Rightarrow> nat \<Rightarrow> XmlWriter \<Rightarrow> XmlWriter" where
  "writeAttribute_nat name n = writeAttribute name (show_nat n)"

definition writeSourceInfo :: "SourceLineInfo \<Rightarrow> XmlWriter \<Rightarrow> XmlWriter" where
  "writeSourceInfo i w = writeAttribute_nat ''line'' (src_line i) (writeAttribute ''filename'' (src_file i) w)"

text \<open>\<open>scopedElement( name ).writeText( text, indent )\<close>\<close>

definition scoped_text :: "string \<Rightarrow> string \<Rightarrow> bool \<Rightarrow> XmlWriter \<Rightarrow> XmlWriter option" where
  "scoped_text name text ind w = endElement (writeText text ind (startElement name w))"

definition xml_testRunStarting :: "XmlReporter \<Rightarrow> XmlWriter \<Rightarrow> XmlWriter" where
  "xml_testRunStarting r w =
     (let name = config_name (sb_config (xr_base r)); w = startElement ''Catch'' w
      in if name \<noteq> [] then writeAttribute ''name'' name w else w)"

definition xml_testCaseStarting :: "TestCase \<Rightarrow> XmlWriter \<Rightarrow> XmlWriter" where
  "xml_testCaseStarting tc w =
     ensureTagClosed (writeSourceInfo (tc_lineInfo tc)
       (writeAttribute ''tags'' (tc_tagsAsString tc)
         (writeAttribute ''description'' (tc_description tc)
           (writeAttribute ''name'' (trim (tc_name tc)) (startElement ''TestCase'' w)))))"

definition xml_sectionStarting :: "SectionInfo \<Rightarrow> XmlReporter \<Rightarrow> XmlReporter" where
  "xml_sectionStarting info r =
     (let deep = 0 < xr_sectionDepth r; r = r\<lparr>xr_sectionDepth := xr_sectionDepth r + 1\<rparr>
      in if deep
         then r\<lparr>xr_xml := ensureTagClosed (writeSourceInfo (si_lineInfo info)
                (writeAttribute ''description'' (si_description info)
                  (writeAttribute ''name'' (trim (si_name info)) (startElement ''Section'' (xr_xml r)))))\<rparr>
         else r)"

text \<open>The messages of an assertion\<close>

fun xml_messages :: "MessageInfo list \<Rightarrow> XmlWriter \<Rightarrow> XmlWriter option" where
  "xml_messages [] w = Some w"
| "xml_messages (m # ms) w =
     do { w \<leftarrow> (if mi_type m = Info then scoped_text ''Info'' (mi_message m) True w
               else if mi_type m = Warning then scoped_text ''Warning'' (mi_message m) True w
               else Some w);
          xml_messages ms w }"

definition xml_expression :: "AssertionResult \<Rightarrow> XmlWriter \<Rightarrow> XmlWriter option" where
  "xml_expression result w =
     (let w = writeSourceInfo (lineInfo (m_info result))
                (writeAttribute ''type'' (macroName (m_info result))
                  (writeAttribute_bool ''success'' (succeeded result) (startElement ''Expression'' w)))
      in do { w \<leftarrow> scoped_text ''Original'' (getExpression result) True w;
              scoped_text ''Expanded'' (fst (getExpandedExpression result)) True w })"

definition located_text :: "string \<Rightarrow> AssertionResult \<Rightarrow> XmlWriter \<Rightarrow> XmlWriter option" where
  "located_text name result w =
     endElement (writeText (getMessage result) True
       (writeSourceInfo (lineInfo (m_info result)) (startElement name w)))"

definition xml_result :: "AssertionResult \<Rightarrow> XmlWriter \<Rightarrow> XmlWriter option" where
  "xml_result result w =
     (case getResultType result of
        ThrewException \<Rightarrow> located_text ''Exception'' result w
      | FatalErrorCondition \<Rightarrow> located_text ''FatalErrorCondition'' result w
      | Info \<Rightarrow> scoped_text ''Info'' (getMessage result) True w
      | ExplicitFailure \<Rightarrow> located_text ''Failure'' result w
      | _ \<Rightarrow> Some w)"

definition xml_assertionEnded :: "Config \<Rightarrow> AssertionStats \<Rightarrow> XmlWriter \<Rightarrow> XmlWriter option" where
  "xml_assertionEnded g stats w =
     (let result = as_result stats;
          includeResults = (includeSuccessfulResults g \<or> \<not> result_isOk result)
      in do { w \<leftarrow> (if includeResults then xml_messages (as_infoMessages stats) w else Some w);
              if \<not> includeResults \<and> getResultType result \<noteq> Warning then Some w
              else do { w \<leftarrow> (if hasExpression result then xml_expression result w else Some w);
                        w \<leftarrow> xml_result result w;
                        if hasExpression result then endElement w else Some w } })"

definition counts_attributes :: "Counts \<Rightarrow> XmlWriter \<Rightarrow> XmlWriter" where
  "counts_attributes c w =
     writeAttribute_nat ''expectedFailures'' (unat (failedButOk c))
       (writeAttribute_nat ''failures'' (unat (failed c)) (writeAttribute_nat ''successes'' (unat (passed c)) w))"

definition duration_attribute :: "Config \<Rightarrow> report_env \<Rightarrow> XmlWriter \<Rightarrow> XmlWriter" where
  "duration_attribute g env w =
     (if showDurations g = Always then writeAttribute ''durationInSeconds'' (re_seconds env) w else w)"

definition xml_sectionEnded :: "report_env \<Rightarrow> Counts \<Rightarrow> XmlReporter \<Rightarrow> XmlReporter option" where
  "xml_sectionEnded env counts r =
     (let r = r\<lparr>xr_sectionDepth := xr_sectionDepth r - 1\<rparr>
      in if 0 < xr_sectionDepth r
         then do { w \<leftarrow> endElement (duration_attribute (sb_config (xr_base r)) env
                         (counts_attributes counts (startElement ''OverallResults'' (xr_xml r))));
                   w \<leftarrow> endElement w;
                   Some (r\<lparr>xr_xml := w\<rparr>) }
         else Some r)"

definition xml_testCaseEnded :: "Config \<Rightarrow> report_env \<Rightarrow> Totals \<Rightarrow> XmlWriter \<Rightarrow> XmlWriter option" where
  "xml_testCaseEnded g env totals w =
     (let w = duration_attribute g env
                (writeAttribute_bool ''success'' (allOk (assertions totals)) (startElement ''OverallResult'' w))
      in do { w \<leftarrow> (if re_stdOut env \<noteq> [] then scoped_text ''StdOut'' (trim (re_stdOut env)) False w else Some w);
              w \<leftarrow> (if re_stdErr env \<noteq> [] then scoped_text ''StdErr'' (trim (re_stdErr env)) False w else Some w);
              w \<leftarrow> endElement w;
              endElement w })"

text \<open>The end of a group and that of the run\<close>

definition xml_totals :: "Totals \<Rightarrow> XmlWriter \<Rightarrow> XmlWriter option" where
  "xml_totals totals w =
     do { w \<leftarrow> endElement (counts_attributes (assertions totals) (startElement ''OverallResults'' w));
          endElement w }"

text \<open>The call of the base class comes first in every operation.\<close>

definition xml_reporter :: "XmlReporter reporter_op" where
  "xml_reporter env e r =
     do { b \<leftarrow> streaming_base e (xr_base r);
          let r = r\<lparr>xr_base := b\<rparr>;
          let w = xr_xml r;
          let g = sb_config b;
          r \<leftarrow> (case e of
                 TestRunStarting name \<Rightarrow> Some (r\<lparr>xr_xml := xml_testRunStarting r w\<rparr>)
               | TestGroupStarting name index count \<Rightarrow>
                   Some (r\<lparr>xr_xml := writeAttribute ''name'' name (startElement ''Group'' w)\<rparr>)
               | TestCaseStarting tc \<Rightarrow> Some (r\<lparr>xr_xml := xml_testCaseStarting tc w\<rparr>)
               | SectionStarting info \<Rightarrow> Some (xml_sectionStarting info r)
               | AssertionEnded result messages totals \<Rightarrow>
                   map_option (\<lambda>w. r\<lparr>xr_xml := w\<rparr>) (xml_assertionEnded g
                     (fst (AssertionStats_new (re_globalCount env) result messages totals)) w)
               | SectionEnded info counts missing \<Rightarrow> xml_sectionEnded env counts r
               | TestCaseEnded tc totals aborted \<Rightarrow>
                   map_option (\<lambda>w. r\<lparr>xr_xml := w\<rparr>) (xml_testCaseEnded g env totals w)
               | TestGroupEnded name totals aborted \<Rightarrow> map_option (\<lambda>w. r\<lparr>xr_xml := w\<rparr>) (xml_totals totals w)
               | TestRunEnded totals aborted \<Rightarrow> map_option (\<lambda>w. r\<lparr>xr_xml := w\<rparr>) (xml_totals totals w)
               | SkipTest tc \<Rightarrow> Some r);
          Some (case e of AssertionEnded _ _ _ \<Rightarrow> True | _ \<Rightarrow> False, r) }"

end
