(* ===== verification/Catch_Report_Correct.thy ===== *)
theory Catch_Report_Correct
  imports Catch_Wrap Catch_Xml
begin

text \<open>
  Correctness of text output: \<open>Catch_Text\<close> and \<open>Catch_Wrap\<close> wrap every line within the
  width and lose no visible character; what \<open>XmlEncode\<close> writes decodes to its argument, with control
  characters in hexadecimal, never closes a tag or an attribute, and closes a section of character data
  only where the argument begins with that; a well-nested sequence of operations of \<open>XmlWriter\<close> keeps the indent at
  two spaces for each open element.
\<close>

subsection \<open>Wrapping text\<close>

text \<open>What a line break may drop or add: spaces, newlines and hyphens\<close>

definition ink :: "string \<Rightarrow> string" where
  "ink s = filter (\<lambda>c. c \<notin> {CHR '' '', CHR 0x0A, CHR ''-''}) s"

lemma ink_simps [simp]:
  "ink [] = []" "ink (a @ b) = ink a @ ink b" "ink (replicate n (CHR '' '')) = []" "ink ''-'' = []"
  by (simp_all add: ink_def)

lemma ink_drop_space: "r \<noteq> [] \<Longrightarrow> r ! 0 = CHR '' '' \<Longrightarrow> ink (drop 1 r) = ink r"
  "r \<noteq> [] \<Longrightarrow> r ! 0 = CHR 0x0A \<Longrightarrow> ink (drop 1 r) = ink r"
  by (cases r; simp add: ink_def)+

definition text_ok :: "TextAttributes \<Rightarrow> string \<Rightarrow> text_state \<Rightarrow> bool" where
  "text_ok attr str s \<longleftrightarrow> tx_indent s < width attr \<and> tabChar attr \<notin> set (tx_remainder s) \<and>
     (\<forall>l \<in> set (tx_lines s). length l \<le> width attr) \<and>
     ink (concat (tx_lines s)) @ ink (tx_remainder s) = ink str"

lemma find_last_of_le: "find_last_of s cs pos = Some k \<Longrightarrow> k \<le> pos \<and> k < length s"
  using length_takeWhile_le [of "\<lambda>c. c \<notin> set cs" "rev (take (Suc pos) s)"]
  by (auto simp: find_last_of_def Let_def find_first_of_def min_def split: if_splits)

lemma find_last_of_none: "\<forall>c \<in> set cs. c \<notin> set s \<Longrightarrow> find_last_of s cs pos = None"
proof -
  assume "\<forall>c \<in> set cs. c \<notin> set s"
  then have "\<forall>x \<in> set (rev (take (Suc pos) s)). x \<notin> set cs" by (auto dest: in_set_takeD)
  then have "takeWhile (\<lambda>c. c \<notin> set cs) (rev (take (Suc pos) s)) = rev (take (Suc pos) s)"
    by (simp only: takeWhile_eq_all_conv)
  then have "length (takeWhile (\<lambda>c. c \<notin> set cs) (rev (take (Suc pos) s))) = min (length s) (Suc pos)"
    by (simp only: length_rev length_take)
  then show ?thesis by (simp add: find_last_of_def find_first_of_def Let_def)
qed

text \<open>A splice of at most the free width keeps the state well formed.\<close>

lemma splice_ok:
  assumes s: "text_ok attr str s" and pos: "pos \<le> length (tx_remainder s)" "tx_indent s + pos + length x \<le> width attr"
    and x: "ink x = []" and r: "ink r = ink (drop pos (tx_remainder s))" "set r \<subseteq> set (tx_remainder s)"
    and i: "i < width attr"
  shows "text_ok attr str \<lparr>tx_lines = tx_lines s @ [replicate (tx_indent s) (CHR '' '') @ take pos (tx_remainder s) @ x],
    tx_remainder = r, tx_indent = i\<rparr>"
proof -
  have "ink (take pos (tx_remainder s)) @ ink (drop pos (tx_remainder s)) = ink (tx_remainder s)"
    by (metis append_take_drop_id ink_simps(2))
  then show ?thesis using assms by (auto simp: text_ok_def)
qed

lemma line_width_ok:
  assumes "tx_indent s < width attr" "tx_remainder s \<noteq> []"
  shows "line_width attr s \<le> length (tx_remainder s)" "tx_indent s + line_width attr s \<le> width attr"
    "line_width attr s = 0 \<Longrightarrow> tx_remainder s ! 0 = CHR 0x0A"
proof -
  define w where "w = min (length (tx_remainder s)) (width attr - tx_indent s)"
  have w: "0 < w" "w \<le> length (tx_remainder s)" "tx_indent s + w \<le> width attr" using assms by (auto simp: w_def)
  have lw: "line_width attr s = (case find_first_of (tx_remainder s) [CHR 0x0A] of
      None \<Rightarrow> w | Some pos \<Rightarrow> if pos \<le> w then pos else w)"
    unfolding line_width_def Let_def w_def using assms(1) by simp
  show "line_width attr s \<le> length (tx_remainder s)" "tx_indent s + line_width attr s \<le> width attr"
    using w unfolding lw by (auto split: option.splits)
  show "tx_remainder s ! 0 = CHR 0x0A" if "line_width attr s = 0"
    using that w(1) assms(2) unfolding lw
    by (cases "tx_remainder s") (auto simp: find_first_of_def Let_def split: option.splits if_splits)
qed

lemma wrap_line_ok:
  assumes s: "text_ok attr str s" and i: "indent attr < width attr"
    and w: "0 < w" "w \<le> length (tx_remainder s)" "tx_indent s + w \<le> width attr"
  shows "\<exists>s'. wrap_line attr None w (tx_remainder s) s = Some s' \<and> text_ok attr str s'"
proof -
  let ?r = "tx_remainder s" and ?i = "\<lambda>lns. if length lns = 1 then indent attr else tx_indent s"
  let ?line = "\<lambda>k x. replicate (tx_indent s) (CHR '' '') @ take k ?r @ x"
  have i': "?i lns < width attr" for lns :: "string list" using i s by (simp add: text_ok_def)
  have hyph: "\<exists>s'. Some \<lparr>tx_lines = butlast (tx_lines s @ [?line (w - 1) []]) @ [last (tx_lines s @ [?line (w - 1) []]) @ ''-''],
      tx_remainder = drop (w - 1) ?r, tx_indent = j\<rparr> = Some s' \<and> text_ok attr str s'" if "j < width attr" for j
    using splice_ok [OF s, of "w - 1" "''-''" "drop (w - 1) ?r" j] w that set_drop_subset [of "w - 1" ?r]
    by simp
  show ?thesis
  proof (cases "\<exists>pos. find_last_of ?r wrappableChars w = Some pos \<and> 0 < pos")
    case True
    then obtain pos where pos: "find_last_of ?r wrappableChars w = Some pos" "0 < pos" by blast
    have le: "pos \<le> w" "pos \<le> length ?r" using find_last_of_le [OF pos(1)] w by auto
    define r where "r = (let r = drop pos ?r in if r \<noteq> [] \<and> r ! 0 = CHR '' '' then drop 1 r else r)"
    have r: "ink r = ink (drop pos ?r)" "set r \<subseteq> set ?r"
      using ink_drop_space(1) [of "drop pos ?r"] unfolding r_def Let_def by (auto dest!: in_set_dropD)
    have "wrap_line attr None w ?r s = Some \<lparr>tx_lines = tx_lines s @ [?line pos []], tx_remainder = r,
        tx_indent = ?i (tx_lines s @ [?line pos []])\<rparr>"
      using pos le by (simp add: wrap_line_def spliceLine_def r_def Let_def)
    then show ?thesis using splice_ok [OF s le(2) _ _ r i' [of "tx_lines s @ [?line pos []]"], of "[]"] le w(3)
      by simp
  next
    case False
    then have "wrap_line attr None w ?r s = Some \<lparr>tx_lines = butlast (tx_lines s @ [?line (w - 1) []]) @ [last (tx_lines s @ [?line (w - 1) []]) @ ''-''],
      tx_remainder = drop (w - 1) ?r, tx_indent = ?i (tx_lines s @ [?line (w - 1) ''-''])\<rparr>"
      using w(1,2) by (cases "find_last_of ?r wrappableChars w") (auto simp: wrap_line_def spliceLine_def Let_def)
    then show ?thesis using hyph [OF i'] by metis
  qed
qed

lemma text_step_ok:
  assumes s: "text_ok attr str s" and i: "indent attr < width attr" and ne: "tx_remainder s \<noteq> []"
  shows "\<exists>s'. text_step attr s = Some s' \<and> text_ok attr str s'"
proof -
  let ?r = "tx_remainder s" and ?w = "line_width attr s"
  have "tx_indent s < width attr" "tabChar attr \<notin> set ?r" using s by (simp_all add: text_ok_def)
  note w = line_width_ok [OF this(1) ne]
  have tab: "take_tab attr ?w ?r = Some (None, ?w, ?r)"
    using find_last_of_none [of "[tabChar attr]" ?r] \<open>tabChar attr \<notin> set ?r\<close> by (simp add: take_tab_def)
  consider "?w = length ?r" | "?w < length ?r" "?r ! ?w = CHR 0x0A" | "?w < length ?r" "?r ! ?w \<noteq> CHR 0x0A"
    using w(1) by linarith
  then show ?thesis
  proof cases
    case 1
    then show ?thesis using splice_ok [OF s, of ?w "[]" "[]" "tx_indent s"] w tab s
      by (simp add: text_step_def spliceLine_def text_ok_def)
  next
    case 2
    define r where "r = (if ?w \<le> 1 \<or> length (drop ?w ?r) \<noteq> 1 then drop 1 (drop ?w ?r) else drop ?w ?r)"
    have "ink r = ink (drop ?w ?r)" "set r \<subseteq> set ?r"
      using ink_drop_space(2) [of "drop ?w ?r"] 2 unfolding r_def by (auto dest!: in_set_dropD)
    then have "text_ok attr str \<lparr>tx_lines = tx_lines s @ [replicate (tx_indent s) (CHR '' '') @ take ?w ?r @ []],
        tx_remainder = r, tx_indent = indent attr\<rparr>"
      using w i by (intro splice_ok [OF s]) simp_all
    then show ?thesis using 2 w tab by (simp add: text_step_def spliceLine_def char_at_def r_def)
  next
    case 3
    have "0 < ?w" using w(3) 3(2) by (cases "?w = 0") auto
    from wrap_line_ok [OF s i this w(1,2)] show ?thesis using 3 tab by (simp add: text_step_def char_at_def)
  qed
qed

lemma text_loop_ok:
  "text_ok attr str s \<Longrightarrow> indent attr < width attr \<Longrightarrow> length (tx_lines s) \<le> 1000 \<Longrightarrow>
   \<exists>ls. text_loop attr s = Some ls \<and> length ls \<le> 1001 \<and>
     (\<forall>l \<in> set (take 1000 ls). length l \<le> width attr) \<and> (length ls \<le> 1000 \<longrightarrow> ink (concat ls) = ink str)"
proof (induction attr s rule: text_loop.induct)
  case (1 attr s)
  have l: "\<forall>l \<in> set (tx_lines s). length l \<le> width attr" using 1(2) by (simp add: text_ok_def)
  show ?case
  proof (cases "tx_remainder s = []")
    case True
    then show ?thesis using 1(2,4) l by (subst text_loop.simps) (auto simp: text_ok_def)
  next
    case ne: False
    show ?thesis
    proof (cases "1000 \<le> length (tx_lines s)")
      case True
      then show ?thesis using ne 1(4) l by (subst text_loop.simps) simp
    next
      case False
      obtain s' where s': "text_step attr s = Some s'" "text_ok attr str s'"
        using text_step_ok [OF 1(2,3) ne] by blast
      moreover have "length (tx_lines s') \<le> 1000" using text_step_length [OF s'(1)] False by simp
      ultimately show ?thesis using 1(1) [OF ne False s'(1) s'(2) 1(3)] ne False
        by (subst text_loop.simps) simp
    qed
  qed
qed

lemma Text_ok:
  assumes "tabChar attr \<notin> set str" "indent attr < width attr"
    "case initialIndent attr of None \<Rightarrow> True | Some i \<Rightarrow> i < width attr"
  shows "\<exists>ls. Text str attr = Some ls \<and> length ls \<le> 1001 \<and>
     (\<forall>l \<in> set (take 1000 ls). length l \<le> width attr) \<and> (length ls \<le> 1000 \<longrightarrow> ink (concat ls) = ink str)"
  unfolding Text_def using assms by (intro text_loop_ok) (auto simp: text_ok_def split: option.splits)

text \<open>What a line break of \<open>Wrap\<close> may drop or add: spaces, line ends and hyphens\<close>

definition wrap_ink :: "string \<Rightarrow> string" where
  "wrap_ink s = filter (\<lambda>c. c \<notin> {CHR '' '', CHR 0x0A, CHR 0x0D, CHR ''-''}) s"

lemma wrap_ink_simps [simp]:
  "wrap_ink [] = []" "wrap_ink (a @ b) = wrap_ink a @ wrap_ink b" "wrap_ink (replicate n (CHR '' '')) = []"
  "wrap_ink ''-'' = []"
  by (simp_all add: wrap_ink_def)

lemma wrap_ink_split: "wrap_ink (take k s) @ wrap_ink (drop k s) = wrap_ink s"
  by (metis append_take_drop_id wrap_ink_simps(2))

lemma wrap_ink_drop_Suc:
  "k < length s \<Longrightarrow> s ! k \<in> set wrappableInsteadOfChars \<Longrightarrow> wrap_ink (drop (Suc k) s) = wrap_ink (drop k s)"
  by (subst (2) Cons_nth_drop_Suc [symmetric]) (auto simp: wrap_ink_def wrappableInsteadOfChars_def)

lemma wrap_ink_take_Suc:
  "k < length s \<Longrightarrow> s ! k \<in> set wrappableInsteadOfChars \<Longrightarrow> wrap_ink (take (Suc k) s) = wrap_ink (take k s)"
  by (auto simp: take_Suc_conv_app_nth wrap_ink_def wrappableInsteadOfChars_def)

lemma wrap_here_ok:
  assumes "wrap_here s e f = Some (e', nxt)" "f \<le> e" "e < length s"
  shows "e' \<le> e" "wrap_ink (take e' s) @ wrap_ink (drop nxt s) = wrap_ink s"
  using assms wrap_ink_drop_Suc [of f s] wrap_ink_split [of f s] wrap_ink_split [of "Suc f" s]
  by (auto simp: wrap_here_def split: if_splits)

lemma wrap_point_ok:
  "wrap_point s e f = Some (e', nxt) \<Longrightarrow> f \<le> e \<Longrightarrow> e < length s \<Longrightarrow>
   e' \<le> e \<and> wrap_ink (take e' s) @ wrap_ink (drop nxt s) = wrap_ink s"
proof (induction s e f rule: wrap_point.induct)
  case (1 s e f)
  show ?case
  proof (cases "wrap_here s e f")
    case None
    then show ?thesis using 1 by (subst (asm) (2) wrap_point.simps) (auto split: if_splits)
  next
    case (Some p)
    then show ?thesis using 1 wrap_here_ok [of s e f e' nxt] by (subst (asm) (2) wrap_point.simps) auto
  qed
qed

lemma strip_end_ok: "e \<le> length s \<Longrightarrow> strip_end s e \<le> e \<and> wrap_ink (take (strip_end s e) s) = wrap_ink (take e s)"
proof (induction s e rule: strip_end.induct)
  case (1 s e)
  show ?case
  proof (cases "0 < e \<and> s ! (e - 1) \<in> set wrappableInsteadOfChars")
    case True
    then have "strip_end s e = strip_end s (e - 1)" by (subst strip_end.simps) simp
    moreover have "wrap_ink (take e s) = wrap_ink (take (e - 1) s)"
    proof -
      obtain k where "e = Suc k" using True by (cases e) auto
      then show ?thesis using wrap_ink_take_Suc [of k s] True 1(2) by simp
    qed
    moreover have "strip_end s (e - 1) \<le> e - 1 \<and> wrap_ink (take (strip_end s (e - 1)) s) = wrap_ink (take (e - 1) s)"
      using 1 True by simp
    ultimately show ?thesis using diff_le_self order_trans by metis
  next
    case False
    then have "strip_end s e = e" by (subst strip_end.simps) auto
    then show ?thesis by simp
  qed
qed

lemma wrap_end_ok:
  assumes "wr_indent w < wrap_width attr" "wr_rest w \<noteq> []"
  shows "wrap_end attr w \<le> length (wr_rest w)" "wr_indent w + wrap_end attr w \<le> wrap_width attr"
    "wrap_end attr w = 0 \<Longrightarrow> wr_rest w ! 0 = CHR 0x0A"
proof -
  define k where "k = min (length (wr_rest w)) (wrap_width attr - wr_indent w)"
  have e: "wrap_end attr w = length (takeWhile (\<lambda>c. c \<noteq> CHR 0x0A) (take k (wr_rest w)))"
    using assms(1) by (simp add: wrap_end_def k_def)
  then have "wrap_end attr w \<le> k" using length_takeWhile_le [of "\<lambda>c. c \<noteq> CHR 0x0A" "take k (wr_rest w)"] by simp
  then show "wrap_end attr w \<le> length (wr_rest w)" "wr_indent w + wrap_end attr w \<le> wrap_width attr"
    using assms(1) by (auto simp: k_def)
  show "wr_rest w ! 0 = CHR 0x0A" if "wrap_end attr w = 0"
  proof -
    have "k \<noteq> 0" using assms by (simp add: k_def)
    then show ?thesis using that assms(2) e by (cases "wr_rest w"; cases k) (auto split: if_splits)
  qed
qed

definition wrap_ok :: "WrapAttributes \<Rightarrow> string \<Rightarrow> wrap_state \<Rightarrow> bool" where
  "wrap_ok attr str w \<longleftrightarrow> wr_indent w < wrap_width attr \<and> (\<forall>l \<in> set (wr_lines w). length l \<le> wrap_width attr) \<and>
     wrap_ink (concat (wr_lines w)) @ wrap_ink (wr_rest w) = wrap_ink str"

lemma wrap_point_newline: "s \<noteq> [] \<Longrightarrow> s ! 0 = CHR 0x0A \<Longrightarrow> wrap_point s 0 0 = Some (0, 1)"
  by (subst wrap_point.simps) (simp add: wrap_here_def wrappableInsteadOfChars_def)

lemma wrap_add_line:
  assumes "wrap_ok attr str w" "wrap_indent attr < wrap_width attr" "wr_indent w + e + length x \<le> wrap_width attr"
    "wrap_ink x = []" "wrap_ink (take e (wr_rest w)) @ wrap_ink (drop nxt (wr_rest w)) = wrap_ink (wr_rest w)"
  shows "wrap_ok attr str \<lparr>wr_lines = wr_lines w @ [replicate (wr_indent w) (CHR '' '') @ take e (wr_rest w) @ x],
    wr_rest = drop nxt (wr_rest w), wr_indent = wrap_indent attr\<rparr>"
  using assms by (auto simp: wrap_ok_def)

lemma wrap_step_ok:
  assumes w: "wrap_ok attr str w" and i: "wrap_indent attr < wrap_width attr" and ne: "wr_rest w \<noteq> []"
  shows "\<exists>w'. wrap_step attr w = Some w' \<and> wrap_ok attr str w'"
proof -
  let ?s = "wr_rest w" and ?e = "wrap_end attr w"
  have ind: "wr_indent w < wrap_width attr" using w by (simp add: wrap_ok_def)
  note e = wrap_end_ok [OF ind ne]
  consider "?e = length ?s" | e' nxt where "?e < length ?s" "wrap_point ?s ?e ?e = Some (e', nxt)"
    | "?e < length ?s" "wrap_point ?s ?e ?e = None" using e(1) by fastforce
  then show ?thesis
  proof cases
    case 1
    then show ?thesis using wrap_add_line [OF w i, of ?e "[]" ?e] e(2) by (simp add: wrap_step_def Let_def)
  next
    case (2 e' nxt)
    have p: "e' \<le> ?e" "wrap_ink (take e' ?s) @ wrap_ink (drop nxt ?s) = wrap_ink ?s"
      using wrap_point_ok [OF 2(2) order_refl 2(1)] by auto
    have "strip_end ?s e' \<le> e'" "wrap_ink (take (strip_end ?s e') ?s) = wrap_ink (take e' ?s)"
      using strip_end_ok [of e' ?s] p(1) 2(1) by auto
    then show ?thesis using wrap_add_line [OF w i, of "strip_end ?s e'" "[]" nxt] p e(2) 2
      by (simp add: wrap_step_def Let_def)
  next
    case 3
    have "?e \<noteq> 0" using e(3) wrap_point_newline [OF ne] 3(2) by (metis option.distinct(1))
    then show ?thesis using wrap_add_line [OF w i, of "?e - 1" "''-''" "?e - 1"] e(2) 3 wrap_ink_split [of "?e - 1" ?s]
      by (simp add: wrap_step_def Let_def)
  qed
qed

lemma wrap_loop_ok:
  "wrap_ok attr str w \<Longrightarrow> wrap_indent attr < wrap_width attr \<Longrightarrow> length (wr_lines w) \<le> 1000 \<Longrightarrow>
   \<exists>ls. wrap_loop attr w = Some ls \<and> length ls \<le> 1001 \<and>
     (\<forall>l \<in> set (take 1000 ls). length l \<le> wrap_width attr) \<and> (length ls \<le> 1000 \<longrightarrow> wrap_ink (concat ls) = wrap_ink str)"
proof (induction attr w rule: wrap_loop.induct)
  case (1 attr w)
  have l: "\<forall>l \<in> set (wr_lines w). length l \<le> wrap_width attr" using 1(2) by (simp add: wrap_ok_def)
  consider "wr_rest w = []" | "wr_rest w \<noteq> []" "1000 \<le> length (wr_lines w)"
    | "wr_rest w \<noteq> []" "\<not> 1000 \<le> length (wr_lines w)" by blast
  then show ?case
  proof cases
    case 1
    then show ?thesis using "1.prems" l by (subst wrap_loop.simps) (auto simp: wrap_ok_def)
  next
    case 2
    then show ?thesis using "1.prems"(3) l by (subst wrap_loop.simps) simp
  next
    case 3
    obtain w' where w': "wrap_step attr w = Some w'" "wrap_ok attr str w'"
      using wrap_step_ok [OF "1.prems"(1,2) 3(1)] by blast
    have "length (wr_lines w') \<le> 1000" using wrap_step_lines [OF w'(1)] 3(2) by simp
    then show ?thesis using "1.IH" [OF 3 w'(1) w'(2) "1.prems"(2)] w'(1) 3
      by (subst wrap_loop.simps) simp
  qed
qed

lemma Wrap_ok:
  assumes "wrap_indent attr < wrap_width attr"
    "case wrap_initialIndent attr of None \<Rightarrow> True | Some i \<Rightarrow> i < wrap_width attr"
  shows "\<exists>ls. Wrap str attr = Some ls \<and> length ls \<le> 1001 \<and>
     (\<forall>l \<in> set (take 1000 ls). length l \<le> wrap_width attr) \<and> (length ls \<le> 1000 \<longrightarrow> wrap_ink (concat ls) = wrap_ink str)"
  unfolding Wrap_def using assms by (intro wrap_loop_ok) (auto simp: wrap_ok_def split: option.splits)

subsection \<open>Escaping\<close>

text \<open>A reader of XML text: the four entities that \<open>XmlEncode\<close> writes\<close>

fun xml_decode :: "string \<Rightarrow> string" where
  "xml_decode [] = []"
| "xml_decode (c # s) =
     (if c \<noteq> CHR ''&'' then c # xml_decode s
      else if take 3 s = ''lt;'' then CHR ''<'' # xml_decode (drop 3 s)
      else if take 3 s = ''gt;'' then CHR ''>'' # xml_decode (drop 3 s)
      else if take 4 s = ''amp;'' then CHR ''&'' # xml_decode (drop 4 s)
      else if take 5 s = ''quot;'' then CHR 0x22 # xml_decode (drop 5 s)
      else c # xml_decode s)"

lemma xml_decode_entities:
  "xml_decode (''&lt;'' @ s) = CHR ''<'' # xml_decode s"
  "xml_decode (''&gt;'' @ s) = CHR ''>'' # xml_decode s"
  "xml_decode (''&amp;'' @ s) = CHR ''&'' # xml_decode s"
  "xml_decode (''&quot;'' @ s) = CHR 0x22 # xml_decode s"
  by (simp_all add: numeral_3_eq_3 numeral_eq_Suc)

lemma hex2_safe:
  assumes "c \<in> set (hex2 n)" "n < 256" shows "c \<notin> {CHR ''<'', CHR ''&'', CHR 0x22}"
proof -
  have d: "(of_char (hex_digit k) :: nat) = (if k < 10 then 48 + k else 55 + k)" if "k < 16" for k
    using that by (simp add: hex_digit_def)
  have "c = hex_digit (n div 16) \<or> c = hex_digit (n mod 16)" "n div 16 < 16" "n mod 16 < 16"
    using assms by (auto simp: hex2_def)
  then obtain k where k: "k < 16" "c = hex_digit k" by blast
  have "(of_char c :: nat) \<noteq> 60" "(of_char c :: nat) \<noteq> 38" "(of_char c :: nat) \<noteq> 34"
    using d [OF k(1)] k by (auto split: if_splits)
  then show ?thesis by auto
qed

lemma encode_char_safe:
  assumes "c \<in> set (encode_char what str i)"
  shows "c \<noteq> CHR ''<''" "what = ForAttributes \<Longrightarrow> c \<noteq> CHR 0x22"
    "c = CHR ''&'' \<Longrightarrow> length (encode_char what str i) \<noteq> 1"
proof -
  have h: "of_char (str ! i) < (256 :: nat)" by simp
  have "c \<noteq> CHR ''<'' \<and> (what = ForAttributes \<longrightarrow> c \<noteq> CHR 0x22) \<and>
      (c = CHR ''&'' \<longrightarrow> length (encode_char what str i) \<noteq> 1)"
    using assms hex2_safe [OF _ h] by (auto simp: encode_char_def Let_def split: if_splits)
  then show "c \<noteq> CHR ''<''" "what = ForAttributes \<Longrightarrow> c \<noteq> CHR 0x22"
    "c = CHR ''&'' \<Longrightarrow> length (encode_char what str i) \<noteq> 1" by blast+
qed

lemma encode_from_safe:
  "c \<in> set (encode_from what str is) \<Longrightarrow> c \<noteq> CHR ''<'' \<and> (what = ForAttributes \<longrightarrow> c \<noteq> CHR 0x22)"
  by (induction "is") (auto dest: encode_char_safe)

subsection \<open>What may not stand in escaped text\<close>

text \<open>The codes that are escaped as control characters, and a character as it is shown then: its
  code as two hexadecimal digits\<close>

definition control_codes :: "nat set" where "control_codes = {0..8} \<union> {14..31} \<union> {127}"

definition xml_shown :: "char \<Rightarrow> string" where
  "xml_shown c =
     (let n = of_char c
      in if n \<in> control_codes
         then [CHR 0x5C, CHR ''x'', ''0123456789ABCDEF'' ! (n div 16), ''0123456789ABCDEF'' ! (n mod 16)]
         else [c])"

lemma hex_digit_nth: "k < 16 \<Longrightarrow> hex_digit k = ''0123456789ABCDEF'' ! k"
proof -
  have "\<forall>k \<in> set [0..<16]. hex_digit k = ''0123456789ABCDEF'' ! k" by code_simp
  then show "k < 16 \<Longrightarrow> hex_digit k = ''0123456789ABCDEF'' ! k" by simp
qed

lemma is_control_codes: "is_control c \<longleftrightarrow> of_char c \<in> control_codes"
  by (auto simp: is_control_def control_codes_def Let_def)

lemma xml_shown_control: "is_control c \<Longrightarrow> xml_shown c = [CHR 0x5C, CHR ''x''] @ hex2 (of_char c)"
  "\<not> is_control c \<Longrightarrow> xml_shown c = [c]"
proof -
  have n: "of_char c < (256 :: nat)" by simp
  then have "of_char c div 16 < (16 :: nat)" by (simp add: less_mult_imp_div_less)
  then show "is_control c \<Longrightarrow> xml_shown c = [CHR 0x5C, CHR ''x''] @ hex2 (of_char c)"
    using hex_digit_nth by (simp add: xml_shown_def is_control_codes hex2_def Let_def)
  show "\<not> is_control c \<Longrightarrow> xml_shown c = [c]" by (simp add: xml_shown_def is_control_codes Let_def)
qed

text \<open>The three forms of the output for a character\<close>

lemma encode_char_forms:
  obtains (plain) "encode_char what str i = [str ! i]" "str ! i \<noteq> CHR ''&''" "\<not> is_control (str ! i)"
      "\<not> (str ! i = CHR ''>'' \<and> 2 < i \<and> str ! (i - 1) = CHR '']'' \<and> str ! (i - 2) = CHR '']'')"
  | (entity) "(encode_char what str i, str ! i) \<in>
      {(''&lt;'', CHR ''<''), (''&gt;'', CHR ''>''), (''&amp;'', CHR ''&''), (''&quot;'', CHR 0x22)}"
  | (control) "is_control (str ! i)" "encode_char what str i = xml_shown (str ! i)"
proof -
  note e = encode_char_def [of what str i, unfolded Let_def]
  have c: "\<not> is_control (CHR ''<'')" "\<not> is_control (CHR ''&'')" "\<not> is_control (CHR ''>'')" "\<not> is_control (CHR 0x22)"
    by (simp_all add: is_control_def)
  consider "str ! i = CHR ''<''" | "str ! i = CHR ''&''" | "str ! i = CHR ''>''" | "str ! i = CHR 0x22"
    | "str ! i \<notin> {CHR ''<'', CHR ''&'', CHR ''>'', CHR 0x22}" by blast
  then show thesis
  proof cases
    case 1 then show ?thesis using entity by (simp add: e)
  next
    case 2 then show ?thesis using entity by (simp add: e)
  next
    case 3 then show ?thesis
      using plain entity c(3) by (cases "2 < i \<and> str ! (i - 1) = CHR '']'' \<and> str ! (i - 2) = CHR '']''") (simp_all add: e)
  next
    case 4
    show ?thesis
    proof (cases "what = ForAttributes")
      case True
      then have "encode_char what str i = ''&quot;''" unfolding e 4 by simp
      then show ?thesis using entity 4 by simp
    next
      case False
      then show ?thesis using plain 4 c(4) by (simp add: e)
    qed
  next
    case 5 then show ?thesis
      using plain control xml_shown_control(1) by (cases "is_control (str ! i)") (simp_all add: e)
  qed
qed

lemma xml_shown_plain:
  assumes "is_control c" "d \<in> set (xml_shown c)"
  shows "d \<notin> {CHR ''<'', CHR ''>'', CHR ''&'', CHR 0x22, CHR '']''}" "\<not> is_control d"
proof -
  define a b where "a = (of_char c :: nat) div 16" and "b = (of_char c :: nat) mod 16"
  define h where "h = ''0123456789ABCDEF''"
  have "of_char c < (256 :: nat)" by simp
  then have ab: "a < 16" "b < 16" by (simp_all add: a_def b_def less_mult_imp_div_less)
  then have "h ! a \<in> set h" "h ! b \<in> set h" by (intro nth_mem; simp add: h_def)+
  moreover have "d \<in> {CHR 0x5C, CHR ''x'', h ! a, h ! b}"
    using assms(2) ab unfolding xml_shown_control(1) [OF assms(1)] hex2_def a_def [symmetric] b_def [symmetric]
    by (simp add: hex_digit_nth h_def [symmetric])
  ultimately have "d \<in> set (CHR 0x5C # CHR ''x'' # h)" by auto
  then show "d \<notin> {CHR ''<'', CHR ''>'', CHR ''&'', CHR 0x22, CHR '']''}" "\<not> is_control d"
    unfolding h_def by (auto simp: is_control_def)
qed

lemma xml_decode_shown: "is_control c \<Longrightarrow> xml_decode (xml_shown c @ s) = xml_shown c @ xml_decode s"
proof -
  assume c: "is_control c"
  have "CHR ''&'' \<notin> set t \<Longrightarrow> xml_decode (t @ s) = t @ xml_decode s" for t by (induction t) auto
  then show ?thesis using xml_shown_plain(1) [OF c] by blast
qed

lemma XmlEncode_shown: "xml_decode (XmlEncode what str) = concat (map xml_shown str)"
proof -
  have one: "xml_decode (encode_char what str i @ s) = xml_shown (str ! i) @ xml_decode s" for i s
  proof (cases rule: encode_char_forms [of what str i])
    case control then show ?thesis by (simp only: xml_decode_shown)
  next
    case entity
    have "\<not> is_control (str ! i)" using entity by (auto simp: is_control_def)
    then have "xml_shown (str ! i) = [str ! i]" by (rule xml_shown_control(2))
    then show ?thesis using entity by (elim insertE emptyE) (simp_all add: xml_decode_entities [simplified])
  next
    case plain
    then show ?thesis using xml_shown_control(2) [of "str ! i"] by simp
  qed
  have "xml_decode (encode_from what str is) = concat (map (\<lambda>i. xml_shown (str ! i)) is)" for "is"
    by (induction "is") (simp_all add: one)
  then show ?thesis
    by (metis (no_types, lifting) XmlEncode_def map_map map_nth comp_def map_eq_conv)
qed

lemma XmlEncode_decode: "\<forall>c \<in> set str. \<not> is_control c \<Longrightarrow> xml_decode (XmlEncode what str) = str"
  unfolding XmlEncode_shown by (induction str) (simp_all add: xml_shown_control(2))

text \<open>Every ampersand begins an entity.\<close>

fun ampersands_ok :: "string \<Rightarrow> bool" where
  "ampersands_ok [] \<longleftrightarrow> True"
| "ampersands_ok (c # s) \<longleftrightarrow>
     (c = CHR ''&'' \<longrightarrow> take 3 s \<in> {''lt;'', ''gt;''} \<or> take 4 s = ''amp;'' \<or> take 5 s = ''quot;'') \<and> ampersands_ok s"

lemma ampersands_append: "CHR ''&'' \<notin> set t \<Longrightarrow> ampersands_ok (t @ s) = ampersands_ok s"
  by (induction t) auto

lemma ampersands_entities:
  "ampersands_ok (''&lt;'' @ s) = ampersands_ok s" "ampersands_ok (''&gt;'' @ s) = ampersands_ok s"
  "ampersands_ok (''&amp;'' @ s) = ampersands_ok s" "ampersands_ok (''&quot;'' @ s) = ampersands_ok s"
  by (simp_all add: numeral_3_eq_3 numeral_eq_Suc)

lemma XmlEncode_ampersands: "ampersands_ok (XmlEncode what str)"
proof -
  have "ampersands_ok (encode_char what str i @ s) = ampersands_ok s" for i s
  proof (cases rule: encode_char_forms [of what str i])
    case control
    then have "CHR ''&'' \<notin> set (encode_char what str i)" using xml_shown_plain(1) by auto
    then show ?thesis by (rule ampersands_append)
  next
    case entity
    then show ?thesis by (elim insertE emptyE) (simp_all only: ampersands_entities prod.inject)
  next
    case plain
    then show ?thesis by simp
  qed
  then have "ampersands_ok (encode_from what str is)" for "is" by (induction "is") simp_all
  then show ?thesis by (simp add: XmlEncode_def)
qed

text \<open>The end of a section of character data\<close>

definition ends_cdata :: "string \<Rightarrow> bool" where
  "ends_cdata s \<longleftrightarrow> (\<exists>a b. s = a @ '']]>'' @ b)"

lemma ends_cdata_Nil [simp]: "\<not> ends_cdata []" by (simp add: ends_cdata_def)

lemma ends_cdata_Cons: "ends_cdata (c # s) \<longleftrightarrow> take 3 (c # s) = '']]>'' \<or> ends_cdata s"
proof
  assume "ends_cdata (c # s)"
  then obtain a b where ab: "c # s = a @ '']]>'' @ b" by (auto simp: ends_cdata_def)
  then show "take 3 (c # s) = '']]>'' \<or> ends_cdata s" by (cases a) (auto simp: ends_cdata_def)
next
  assume r: "take 3 (c # s) = '']]>'' \<or> ends_cdata s"
  then show "ends_cdata (c # s)"
  proof
    assume "take 3 (c # s) = '']]>''"
    then have "c # s = [] @ '']]>'' @ drop 3 (c # s)" by (metis append_Nil append_take_drop_id)
    then show ?thesis unfolding ends_cdata_def by blast
  next
    assume "ends_cdata s"
    then obtain a b where "s = a @ '']]>'' @ b" by (auto simp: ends_cdata_def)
    then have "c # s = (c # a) @ '']]>'' @ b" by simp
    then show ?thesis unfolding ends_cdata_def by blast
  qed
qed

lemma ends_cdata_append: "CHR '']'' \<notin> set t \<Longrightarrow> ends_cdata (t @ s) = ends_cdata s"
  by (induction t) (auto simp: ends_cdata_Cons numeral_3_eq_3)

lemma encode_from_first:
  assumes "encode_from what str (i # is) = c # s" "c \<in> {CHR '']'', CHR ''>''}"
  shows "str ! i = c" "s = encode_from what str is" "\<not> (c = CHR ''>'' \<and> 2 < i \<and> str ! (i - 1) = CHR '']'' \<and> str ! (i - 2) = CHR '']'')"
proof -
  have "encode_char what str i = [c] \<and> str ! i = c \<and>
      \<not> (c = CHR ''>'' \<and> 2 < i \<and> str ! (i - 1) = CHR '']'' \<and> str ! (i - 2) = CHR '']'')"
    using assms by (cases rule: encode_char_forms [of what str i])
      (auto simp: xml_shown_control)
  then show "str ! i = c" "s = encode_from what str is"
    "\<not> (c = CHR ''>'' \<and> 2 < i \<and> str ! (i - 1) = CHR '']'' \<and> str ! (i - 2) = CHR '']'')"
    using assms by auto
qed

lemma encode_from_opens:
  assumes "take 3 (encode_from what str [k..<length str]) = '']]>''"
  shows "k = 0 \<and> take 3 str = '']]>''"
proof -
  let ?E = "\<lambda>i. encode_from what str [i..<length str]"
  have head: "i < length str \<and> str ! i = c \<and> s = ?E (Suc i) \<and>
      \<not> (c = CHR ''>'' \<and> 2 < i \<and> str ! (i - 1) = CHR '']'' \<and> str ! (i - 2) = CHR '']'')"
    if "?E i = c # s" "c \<in> {CHR '']'', CHR ''>''}" for i c s
  proof -
    have i: "i < length str" using that(1) by (cases "i < length str") simp_all
    then have "encode_from what str (i # [Suc i..<length str]) = c # s" using that(1) by (simp add: upt_conv_Cons)
    from encode_from_first [OF this that(2)] i show ?thesis by blast
  qed
  obtain t where "?E k = '']]>'' @ t" by (metis assms append_take_drop_id)
  then have 0: "?E k = CHR '']'' # CHR '']'' # CHR ''>'' # t" by simp
  from head [OF 0] have 1: "?E (Suc k) = CHR '']'' # CHR ''>'' # t" "str ! k = CHR '']''" "k < length str" by simp_all
  from head [OF 1(1)] have 2: "?E (Suc (Suc k)) = CHR ''>'' # t" "str ! Suc k = CHR '']''" by simp_all
  from head [OF 2(1)] 1 2 have 3: "k = 0" "str ! Suc (Suc k) = CHR ''>''" "Suc (Suc k) < length str" by auto
  then have "str = str ! 0 # str ! 1 # str ! 2 # drop 3 str"
    by (metis Cons_nth_drop_Suc One_nat_def Suc_1 Suc_lessD drop0 numeral_3_eq_3)
  then have "take 3 str = [str ! 0, str ! 1, str ! 2]"
    by (metis (no_types) numeral_3_eq_3 take0 take_Suc_Cons)
  then show ?thesis using 1(2) 2(2) 3 by (simp add: numeral_2_eq_2)
qed

lemma XmlEncode_cdata: "ends_cdata (XmlEncode what str) \<longleftrightarrow> take 3 str = '']]>''"
proof
  have step: "ends_cdata (encode_char what str i @ s) \<longleftrightarrow> take 3 (encode_char what str i @ s) = '']]>'' \<or> ends_cdata s" for i s
  proof (cases rule: encode_char_forms [of what str i])
    case control
    then have "CHR '']'' \<notin> set (encode_char what str i)" using xml_shown_plain(1) by auto
    then show ?thesis
      using ends_cdata_append [of "encode_char what str i" s] in_set_takeD [of "CHR '']''" 3 "encode_char what str i @ s"]
      by (cases "encode_char what str i") (auto simp: control xml_shown_control(1) numeral_3_eq_3)
  next
    case entity
    then have "CHR '']'' \<notin> set (encode_char what str i)" "encode_char what str i \<noteq> []" "hd (encode_char what str i) = CHR ''&''" by auto
    then show ?thesis using ends_cdata_append [of "encode_char what str i" s]
      by (cases "encode_char what str i") (auto simp: numeral_3_eq_3)
  qed (simp add: ends_cdata_Cons)
  have "k \<le> length str \<Longrightarrow> ends_cdata (encode_from what str [k..<length str]) \<Longrightarrow> take 3 str = '']]>''" for k
  proof (induction "length str - k" arbitrary: k)
    case (Suc n)
    have k: "[k..<length str] = k # [Suc k..<length str]" using Suc.hyps(2) by (simp add: upt_conv_Cons)
    have IH: "ends_cdata (encode_from what str [Suc k..<length str]) \<Longrightarrow> take 3 str = '']]>''"
      using Suc.hyps(1) [of "Suc k"] Suc.hyps(2) by simp
    from Suc.prems(2) step [of k "encode_from what str [Suc k..<length str]"] k
    have "take 3 (encode_from what str [k..<length str]) = '']]>'' \<or> ends_cdata (encode_from what str [Suc k..<length str])"
      by (simp only: encode_from.simps)
    then show ?case using IH encode_from_opens [of what str k] by blast
  qed simp
  then show "ends_cdata (XmlEncode what str) \<Longrightarrow> take 3 str = '']]>''" unfolding XmlEncode_def by blast
next
  assume t: "take 3 str = '']]>''"
  then obtain r where s: "str = '']]>'' @ r" by (metis append_take_drop_id)
  have n: "0 < length str" "1 < length str" "2 < length str" using s by simp_all
  have "[0..<length str] = 0 # 1 # 2 # [3..<length str]"
    using upt_conv_Cons [OF n(1)] upt_conv_Cons [OF n(2)] upt_conv_Cons [OF n(3)] by (simp add: numeral_3_eq_3 numeral_2_eq_2)
  then have "XmlEncode what str = '']]>'' @ encode_from what str [3..<length str]"
    using s by (simp add: XmlEncode_def encode_char_def is_control_def)
  then show "ends_cdata (XmlEncode what str)" unfolding ends_cdata_def by (metis append_Nil)
qed

lemma XmlEncode_controls: "c \<in> set (XmlEncode what str) \<Longrightarrow> \<not> is_control c"
proof -
  have "c \<in> set (encode_char what str i) \<Longrightarrow> \<not> is_control c" for i
  proof (cases rule: encode_char_forms [of what str i])
    case control then show "c \<in> set (encode_char what str i) \<Longrightarrow> ?thesis" using xml_shown_plain(2) by simp
  qed (auto simp: is_control_def)
  then have "c \<in> set (encode_from what str is) \<Longrightarrow> \<not> is_control c" for "is" by (induction "is") auto
  then show "c \<in> set (XmlEncode what str) \<Longrightarrow> \<not> is_control c" by (simp add: XmlEncode_def)
qed

subsection \<open>Nesting\<close>

definition xw_ok :: "XmlWriter \<Rightarrow> bool" where
  "xw_ok w \<longleftrightarrow> xw_indent w = replicate (2 * length (xw_tags w)) (CHR '' '') \<and>
     (xw_tagIsOpen w \<longrightarrow> xw_tags w \<noteq> [])"

text \<open>The operations of a client of \<open>XmlWriter\<close>\<close>

datatype xml_op = Op_start string | Op_end | Op_attribute string string | Op_attribute_bool string bool
  | Op_text string bool | Op_comment string | Op_blank_line

fun xml_do :: "xml_op \<Rightarrow> XmlWriter \<Rightarrow> XmlWriter option" where
  "xml_do (Op_start name) w = Some (startElement name w)"
| "xml_do Op_end w = endElement w"
| "xml_do (Op_attribute name a) w = Some (writeAttribute name a w)"
| "xml_do (Op_attribute_bool name b) w = Some (writeAttribute_bool name b w)"
| "xml_do (Op_text s i) w = Some (writeText s i w)"
| "xml_do (Op_comment s) w = Some (writeComment s w)"
| "xml_do Op_blank_line w = Some (writeBlankLine w)"

fun xml_do_all :: "xml_op list \<Rightarrow> XmlWriter \<Rightarrow> XmlWriter option" where
  "xml_do_all [] w = Some w"
| "xml_do_all (x # xs) w = (case xml_do x w of None \<Rightarrow> None | Some w \<Rightarrow> xml_do_all xs w)"

text \<open>The stack of open elements, and when a sequence of operations is well nested\<close>

fun xml_stack :: "xml_op list \<Rightarrow> string list \<Rightarrow> string list option" where
  "xml_stack [] st = Some st"
| "xml_stack (Op_start name # xs) st = xml_stack xs (st @ [name])"
| "xml_stack (Op_end # xs) st = (if st = [] then None else xml_stack xs (butlast st))"
| "xml_stack (_ # xs) st = xml_stack xs st"

lemma emit_simps [simp]:
  "xw_tags (emit s w) = xw_tags w" "xw_indent (emit s w) = xw_indent w"
  "xw_tagIsOpen (emit s w) = xw_tagIsOpen w" "xw_needsNewline (emit s w) = xw_needsNewline w"
  by (simp_all add: emit_def)

lemma close_simps [simp]:
  "xw_tags (ensureTagClosed w) = xw_tags w" "xw_indent (ensureTagClosed w) = xw_indent w"
  "\<not> xw_tagIsOpen (ensureTagClosed w)"
  "xw_tags (newlineIfNecessary w) = xw_tags w" "xw_indent (newlineIfNecessary w) = xw_indent w"
  "xw_tagIsOpen (newlineIfNecessary w) = xw_tagIsOpen w"
  by (simp_all add: ensureTagClosed_def newlineIfNecessary_def)

lemma replicate_two: "replicate n x @ [x, x] = replicate (Suc (Suc n)) x"
  by (induction n) simp_all

lemma startElement_ok:
  "xw_ok w \<Longrightarrow> xw_ok (startElement name w) \<and> xw_tags (startElement name w) = xw_tags w @ [name]"
  by (simp add: startElement_def xw_ok_def Let_def replicate_two mult_2 del: replicate_Suc)

lemma endElement_ok:
  assumes "xw_ok w" "xw_tags w \<noteq> []"
  shows "\<exists>w'. endElement w = Some w' \<and> xw_ok w' \<and> xw_tags w' = butlast (xw_tags w)"
proof -
  obtain n where n: "length (xw_tags w) = Suc n" using assms(2) by (cases "length (xw_tags w)") auto
  have "xw_indent w = replicate (2 + 2 * n) (CHR '' '')" using assms(1) n by (simp add: xw_ok_def)
  then show ?thesis using assms(2) n
    by (simp add: endElement_def Let_def xw_ok_def substr_def take_replicate del: replicate_Suc add_2_eq_Suc)
qed

lemma xml_do_ok:
  assumes "xw_ok w" "xml_stack [x] (xw_tags w) = Some st"
  shows "\<exists>w'. xml_do x w = Some w' \<and> xw_ok w' \<and> xw_tags w' = st"
proof (cases x)
  case Op_end
  then show ?thesis using endElement_ok [OF assms(1)] assms(2) by (auto split: if_splits)
qed (use assms startElement_ok [OF assms(1)] in \<open>auto simp: writeAttribute_def writeAttribute_bool_def writeText_def
    writeComment_def writeBlankLine_def xw_ok_def Let_def\<close>)

lemma xml_stack_Cons: "xml_stack (x # xs) st = (case xml_stack [x] st of None \<Rightarrow> None | Some st \<Rightarrow> xml_stack xs st)"
  by (cases x) simp_all

lemma xml_do_all_ok:
  "xw_ok w \<Longrightarrow> xml_stack xs (xw_tags w) = Some st \<Longrightarrow>
   \<exists>w'. xml_do_all xs w = Some w' \<and> xw_ok w' \<and> xw_tags w' = st"
proof (induction xs arbitrary: w)
  case (Cons x xs)
  obtain st1 where st1: "xml_stack [x] (xw_tags w) = Some st1" "xml_stack xs st1 = Some st"
    using Cons.prems(2) by (subst (asm) xml_stack_Cons) (auto split: option.splits)
  obtain w1 where "xml_do x w = Some w1" "xw_ok w1" "xw_tags w1 = st1" using xml_do_ok [OF Cons.prems(1) st1(1)] by blast
  then show ?case using Cons.IH [of w1] st1(2) by simp
qed simp

lemma end_elements_ok:
  "xw_ok w \<Longrightarrow> n = length (xw_tags w) \<Longrightarrow> \<exists>w'. end_elements n w = Some w' \<and> xw_ok w' \<and> xw_tags w' = []"
proof (induction n arbitrary: w)
  case (Suc n)
  then obtain w1 where "endElement w = Some w1" "xw_ok w1" "xw_tags w1 = butlast (xw_tags w)"
    using endElement_ok [of w] by (metis list.size(3) nat.distinct(1))
  then show ?case using Suc.IH [of w1] Suc.prems(2) [symmetric] by simp
qed simp

lemma xml_new_ok: "xw_ok (XmlWriter_new os)" "xw_tags (XmlWriter_new os) = []"
  by (simp_all add: XmlWriter_new_def writeDeclaration_def xw_ok_def)

end
