(* ===== verification/Catch_Session.thy ===== *)
theory Catch_Session
  imports Catch_Run
begin

text \<open>
  A session of the test framework (\<open>src/lib/catch.hpp\<close>, the part \<open>catch_session.hpp\<close>): choosing
  the reporters, running the selected tests of the registry, and the exit code.

  \<open>registered\<close> lists the names of the registered reporters.  An exception that the session
  catches is \<open>Inl\<close> of its message; \<open>None\<close> stands for undefined behaviour and failed assertions
  of the trackers.  What is written to \<open>cout\<close> and \<open>cerr\<close> is left out, except the listings.
\<close>

definition createReporter :: "string list \<Rightarrow> string \<Rightarrow> string + string" where
  "createReporter registered name =
     (if name \<in> set registered then Inr name
      else Inl (''No reporter registered with name: '' @ [CHR 0x27] @ name @ [CHR 0x27]))"

fun create_reporters :: "string list \<Rightarrow> string list \<Rightarrow> string + string list" where
  "create_reporters registered [] = Inr []"
| "create_reporters registered (name # names) =
     (case createReporter registered name of
        Inl e \<Rightarrow> Inl e
      | Inr r \<Rightarrow> (case create_reporters registered names of Inl e \<Rightarrow> Inl e | Inr rs \<Rightarrow> Inr (r # rs)))"

definition makeReporter :: "string list \<Rightarrow> string list \<Rightarrow> string + string list" where
  "makeReporter registered names =
     create_reporters registered (if names = [] then [''console''] else names)"

text \<open>The specification that a run uses: that of the command line, or all tests that are not hidden.\<close>

definition run_spec :: "alias_registry \<Rightarrow> Config \<Rightarrow> TestSpec option" where
  "run_spec reg g =
     (if hasFilters (config_spec g) then Some (config_spec g) else parseTestSpec reg ''~[.]'')"

definition runTests ::
  "SourceLineInfo \<Rightarrow> int \<Rightarrow> (TestCase \<Rightarrow> test_body) \<Rightarrow> alias_registry \<Rightarrow> (TestCase list \<Rightarrow> TestCase list) \<Rightarrow>
   string list \<Rightarrow> Config \<Rightarrow> TestRegistry \<Rightarrow> ((string + Totals \<times> RunContext) \<times> TestRegistry) option"
where
  "runTests here disposition bodies reg shuffle registered g registry =
     (case makeReporter registered (cfg_reporterNames (config_data g)) of
        Inl e \<Rightarrow> Some (Inl e, registry)
      | Inr _ \<Rightarrow>
          let r = testGroupStarting (config_name g) 1 1 (RunContext_new disposition g)
          in (case run_spec reg g of
                None \<Rightarrow> None
              | Some spec \<Rightarrow>
                  (case getAllTestsSorted shuffle (cfg_runOrder (config_data g)) registry of
                     (Inl e, registry) \<Rightarrow> Some (Inl e, registry)
                   | (Inr tcs, registry) \<Rightarrow>
                       (case run_tests_loop here bodies spec tcs Totals_zero r of
                          None \<Rightarrow> None
                        | Some (Inl (Logic_error m)) \<Rightarrow> Some (Inl m, registry)
                        | Some (Inl _) \<Rightarrow> None
                        | Some (Inr (totals, r)) \<Rightarrow>
                            Some (Inr (totals, RunContext_destroy (testGroupEnded (config_name g) totals r)),
                                  registry)))))"

definition applyFilenamesAsTags ::
  "(TestCase list \<Rightarrow> TestCase list) \<Rightarrow> Config \<Rightarrow> TestRegistry \<Rightarrow> (string + unit) \<times> TestRegistry"
where
  "applyFilenamesAsTags shuffle g registry =
     (case getAllTestsSorted shuffle (cfg_runOrder (config_data g)) registry of
        (Inl e, registry) \<Rightarrow> (Inl e, registry)
      | (Inr tcs, registry) \<Rightarrow> (Inr (), registry\<lparr>rg_sortedFunctions := map applyFilenameAsTag tcs\<rparr>))"

subsection \<open>\<open>Session\<close>\<close>

record Session =
  ss_cli :: "ConfigData CommandLine"
  ss_unusedTokens :: "Token list"
  ss_configData :: ConfigData
  ss_config :: "Config option"

text \<open>A second session is an error.\<close>

definition Session_new :: "bool \<Rightarrow> ConfigData CommandLine \<Rightarrow> string + Session" where
  "Session_new alreadyInstantiated cli =
     (if alreadyInstantiated then Inl ''Only one instance of Catch::Session can ever be used''
      else Inr \<lparr>ss_cli = cli, ss_unusedTokens = [], ss_configData = ConfigData_new, ss_config = None\<rparr>)"

definition useConfigData :: "ConfigData \<Rightarrow> Session \<Rightarrow> Session" where
  "useConfigData c s = s\<lparr>ss_configData := c, ss_config := None\<rparr>"

definition session_config :: "alias_registry \<Rightarrow> Session \<Rightarrow> (string + Config \<times> Session) option" where
  "session_config reg s =
     (case ss_config s of
        Some g \<Rightarrow> Some (Inr (g, s))
      | None \<Rightarrow>
          (case openStream (ss_configData s) of
             Inl e \<Rightarrow> Some (Inl e)
           | Inr _ \<Rightarrow> map_option (\<lambda>g. Inr (g, s\<lparr>ss_config := Some g\<rparr>)) (Config_new reg (ss_configData s))))"

text \<open>The requests to list; only those of tests and tags look at the registry.\<close>

definition session_list ::
  "alias_registry \<Rightarrow> (TestCase list \<Rightarrow> TestCase list) \<Rightarrow> (string \<times> string) list \<Rightarrow> Config \<Rightarrow> TestRegistry \<Rightarrow>
   ((string + string \<times> nat option) \<times> TestRegistry) option"
where
  "session_list reg shuffle factories g registry =
     (let c = config_data g
      in if cfg_listTests c \<or> cfg_listTestNamesOnly c \<or> cfg_listTags c
         then (case getAllTestsSorted shuffle (cfg_runOrder c) registry of
                 (Inl e, registry) \<Rightarrow> Some (Inl e, registry)
               | (Inr tcs, registry) \<Rightarrow>
                   map_option (\<lambda>l. (Inr l, registry)) (list_all_requested reg factories g tcs))
         else map_option (\<lambda>l. (Inr l, registry)) (list_all_requested reg factories g []))"

text \<open>The conversion of a \<open>size_t\<close> to an \<open>int\<close>\<close>

definition int_of_size :: "size_t \<Rightarrow> int" where
  "int_of_size n = sint (ucast n :: 32 word)"

definition session_run ::
  "SourceLineInfo \<Rightarrow> int \<Rightarrow> (TestCase \<Rightarrow> test_body) \<Rightarrow> alias_registry \<Rightarrow> (TestCase list \<Rightarrow> TestCase list) \<Rightarrow>
   (string \<times> string) list \<Rightarrow> Session \<Rightarrow> TestRegistry \<Rightarrow> (int \<times> Session \<times> TestRegistry) option"
where
  "session_run here disposition bodies reg shuffle factories s registry =
     (if cfg_showHelp (ss_configData s) then Some (0, s, registry)
      else (case session_config reg s of
              None \<Rightarrow> None
            | Some (Inl e) \<Rightarrow> Some (INT_MAX, s, registry)
            | Some (Inr (g, s)) \<Rightarrow>
                (case (if cfg_filenamesAsTags (ss_configData s) then applyFilenamesAsTags shuffle g registry
                       else (Inr (), registry)) of
                   (Inl e, registry) \<Rightarrow> Some (INT_MAX, s, registry)
                 | (Inr _, registry) \<Rightarrow>
                     (case session_list reg shuffle factories g registry of
                        None \<Rightarrow> None
                      | Some (Inl e, registry) \<Rightarrow> Some (INT_MAX, s, registry)
                      | Some (Inr (out, Some n), registry) \<Rightarrow> Some (int_of_size (word_of_nat n), s, registry)
                      | Some (Inr (out, None), registry) \<Rightarrow>
                          (case runTests here disposition bodies reg shuffle (map fst factories) g registry of
                             None \<Rightarrow> None
                           | Some (Inl e, registry) \<Rightarrow> Some (INT_MAX, s, registry)
                           | Some (Inr (totals, r), registry) \<Rightarrow>
                               Some (int_of_size (failed (assertions totals)), s, registry))))))"

definition session_applyCommandLine :: "string list \<Rightarrow> Session \<Rightarrow> (int \<times> Session) option" where
  "session_applyCommandLine args s =
     map_option (\<lambda>(code, c, unused). (code,
         let s = s\<lparr>ss_cli := setThrowOnUnrecognisedTokens True (ss_cli s), ss_configData := c,
                    ss_unusedTokens := unused\<rparr>
         in if code = 0 then s\<lparr>ss_config := None\<rparr> else s))
       (applyCommandLine (ss_cli s) args True (ss_configData s) (ss_unusedTokens s))"

definition session_run_args ::
  "SourceLineInfo \<Rightarrow> int \<Rightarrow> (TestCase \<Rightarrow> test_body) \<Rightarrow> alias_registry \<Rightarrow> (TestCase list \<Rightarrow> TestCase list) \<Rightarrow>
   (string \<times> string) list \<Rightarrow> string list \<Rightarrow> Session \<Rightarrow> TestRegistry \<Rightarrow> (int \<times> Session \<times> TestRegistry) option"
where
  "session_run_args here disposition bodies reg shuffle factories args s registry =
     (case session_applyCommandLine args s of
        None \<Rightarrow> None
      | Some (code, s) \<Rightarrow>
          if code = 0 then session_run here disposition bodies reg shuffle factories s registry
          else Some (code, s, registry))"

end
