(* ===== verification/Catch_Select_Correct.thy ===== *)
theory Catch_Select_Correct
  imports Catch_Registry
begin

text \<open>
  Correctness of the string functions of \<open>Catch_Strings\<close> and of the test selection of
  \<open>Catch_Spec\<close>: \<open>trim\<close> strips white space at both ends; \<open>replaceInPlace\<close> replaces every
  occurrence and fails to return exactly on an empty pattern in a nonempty string; the four
  forms of a wildcard are equality, suffix, prefix and containment; the parser of test
  specifications, with an invariant on its mode, start and escape positions, always returns.
\<close>

subsection \<open>Trimming\<close>

lemma find_first_not_of_dropWhile:
  "find_first_not_of s cs = (if dropWhile (\<lambda>c. c \<in> set cs) s = [] then None
     else Some (length s - length (dropWhile (\<lambda>c. c \<in> set cs) s)))"
proof -
  have "length (takeWhile (\<lambda>c. c \<in> set cs) s) + length (dropWhile (\<lambda>c. c \<in> set cs) s) = length s"
    by (metis length_append takeWhile_dropWhile_id)
  then have "length (takeWhile (\<lambda>c. c \<in> set cs) s) = length s \<longleftrightarrow> dropWhile (\<lambda>c. c \<in> set cs) s = []"
    "length (takeWhile (\<lambda>c. c \<in> set cs) s) = length s - length (dropWhile (\<lambda>c. c \<in> set cs) s)"
    unfolding length_0_conv [symmetric] by linarith+
  then show ?thesis unfolding find_first_not_of_def Let_def by simp
qed

lemma rev_dropWhile_take: "rev (dropWhile P (rev xs)) = take (length (dropWhile P (rev xs))) xs"
proof -
  have "rev (dropWhile P (rev xs)) @ rev (takeWhile P (rev xs)) = xs"
    by (metis rev_append rev_rev_ident takeWhile_dropWhile_id)
  then show ?thesis by (metis append_eq_conv_conj length_rev)
qed

lemma trim_eq:
  fixes s :: string
  defines "P \<equiv> (\<lambda>c. c \<in> set whitespaceChars)"
  shows "trim s = dropWhile P (rev (dropWhile P (rev s)))"
proof (cases "dropWhile P s = []")
  case True
  then have all: "\<forall>c \<in> set s. P c" by simp
  then have e: "dropWhile P (rev s) = []" by simp
  show ?thesis unfolding e using True by (simp add: trim_def find_first_not_of_dropWhile P_def)
next
  case False
  define a where "a = takeWhile P s"
  define d where "d = dropWhile P s"
  define e where "e = length (dropWhile P (rev s))"
  have s: "s = a @ d" by (simp add: a_def d_def)
  have d0: "d \<noteq> []" "\<not> P (hd d)" using False hd_dropWhile [of P s] by (simp_all add: d_def)
  have r: "dropWhile P (rev s) \<noteq> []" using False by simp
  then have e0: "0 < e" "e \<le> length s" using length_dropWhile_le [of P "rev s"] by (simp_all add: e_def)
  have la: "length a < e"
  proof -
    have "dropWhile P (rev s) = dropWhile P (rev d) @ rev a"
    proof -
      obtain x where "x \<in> set (rev d)" "\<not> P x" using d0 by (metis hd_in_set set_rev)
      then show ?thesis unfolding s rev_append by (rule dropWhile_append1)
    qed
    moreover have "dropWhile P (rev d) \<noteq> []" using d0 by (auto simp: dropWhile_eq_Nil_conv)
    ultimately show ?thesis by (simp add: e_def)
  qed
  have start: "length s - length d = length a" using s by simp
  have last: "length s - 1 - (length s - e) = e - 1" using e0 by simp
  have "trim s = take (e - length a) (drop (length a) s)"
    using False r start last e0 la
    by (simp add: trim_def find_first_not_of_dropWhile find_last_not_of_def substr_def P_def [symmetric]
        d_def [symmetric] e_def [symmetric] Suc_diff_le)
  also have "\<dots> = drop (length a) (take e s)" using la by (simp add: take_drop)
  also have "\<dots> = dropWhile P (take e s)"
  proof -
    have "take e s = a @ take (e - length a) d" unfolding s using la by simp
    moreover have "\<forall>x \<in> set a. P x" by (auto simp: a_def dest: set_takeWhileD)
    moreover have "dropWhile P (take (e - length a) d) = take (e - length a) d"
      using d0 la by (cases d) (auto simp: take_Cons')
    ultimately show ?thesis by (simp add: dropWhile_append2)
  qed
  also have "take e s = rev (dropWhile P (rev s))" unfolding e_def by (rule rev_dropWhile_take [symmetric])
  finally show ?thesis .
qed

subsection \<open>Replacing\<close>

text \<open>Replacing every occurrence from left to right\<close>

function replace_all :: "string \<Rightarrow> string \<Rightarrow> string \<Rightarrow> string" where
  "replace_all s p w =
     (if p = [] then s
      else case find_from s p 0 of
             None \<Rightarrow> s
           | Some k \<Rightarrow> take k s @ w @ replace_all (drop (k + length p) s) p w)"
  by auto
termination
proof (relation "measure (\<lambda>(s, p, w). length s)")
  fix s p w :: string and k
  assume "p \<noteq> []" "find_from s p 0 = Some k"
  then show "((drop (k + length p) s, p, w), s, p, w) \<in> measure (\<lambda>(s, p, w). length s)"
    using find_from_Some [of s p 0 k] by (auto intro: diff_less)
qed simp

declare replace_all.simps [simp del]

lemma find_from_append:
  "find_from (a @ b) p (length a + i) = map_option (\<lambda>k. length a + k) (find_from b p i)"
proof (induction b p i rule: find_from.induct)
  case (1 b p i)
  show ?case
    by (subst (1 2) find_from.simps) (use 1 in \<open>auto simp: add.assoc\<close>)
qed

lemma replace_loop_ok:
  assumes p: "p \<noteq> []"
  shows "replace_loop (a @ b) p w (map_option (\<lambda>k. length a + k) (find_from b p 0)) r =
     Some (r \<or> find_from b p 0 \<noteq> None, a @ replace_all b p w)"
proof (induction "length b" arbitrary: a b r rule: less_induct)
  case less
  show ?case
  proof (cases "find_from b p 0")
    case None
    then show ?thesis by (subst replace_loop.simps, subst replace_all.simps) (simp add: p)
  next
    case (Some k)
    note k = find_from_Some [OF Some]
    define c where "c = drop (k + length p) b"
    define a' where "a' = a @ take k b @ w"
    have str: "substr (a @ b) 0 (length a + k) @ w @ drop (length a + k + length p) (a @ b) = a' @ c"
      by (simp add: substr_def a'_def c_def)
    have la: "length a + k + length w = length a'" using k by (simp add: a'_def)
    have step: "replace_loop (a @ b) p w (Some (length a + k)) r =
        (if c \<noteq> [] then replace_loop (a' @ c) p w (find_from (a' @ c) p (length a' + 0)) True
         else replace_loop (a' @ c) p w None True)"
    proof -
      have "length a + k < length (a' @ c) - length w \<longleftrightarrow> c \<noteq> []"
      proof -
        have "length (a' @ c) - length w = length a + k + length c" using la by simp
        then show ?thesis by simp
      qed
      then show ?thesis
        by (subst replace_loop.simps) (simp only: option.case Let_def str la add_0_right)
    qed
    have "length c < length b" using k p by (simp add: c_def) (metis diff_less length_greater_0_conv add_gr_0 le_add2 le_less_trans less_le_trans)
    then have IH: "replace_loop (a' @ c) p w (map_option (\<lambda>k. length a' + k) (find_from c p 0)) True =
        Some (True, a' @ replace_all c p w)" using less by simp
    have "replace_all b p w = take k b @ w @ replace_all c p w"
      using Some p by (subst replace_all.simps) (simp add: c_def)
    moreover have "replace_loop (a @ b) p w (Some (length a + k)) r = Some (True, a' @ replace_all c p w)"
    proof (cases "c = []")
      case True
      have "replace_all [] p w = []"
        using p by (subst replace_all.simps, subst find_from.simps) simp
      then show ?thesis unfolding step using True by (subst replace_loop.simps) simp
    next
      case False
      then show ?thesis unfolding step using IH find_from_append [of a' c p 0] by simp
    qed
    ultimately show ?thesis using Some by (simp add: a'_def)
  qed
qed

lemma replaceInPlace_ok:
  "p \<noteq> [] \<Longrightarrow> replaceInPlace s p w = Some (contains s p, replace_all s p w)"
  using replace_loop_ok [of p "[]" s w False] by (simp add: replaceInPlace_def contains_def option.map_ident)

text \<open>An empty \<open>replaceThis\<close> occurs everywhere, so the loop does not end.\<close>

lemma find_from_empty: "i \<le> length s \<Longrightarrow> find_from s [] i = Some i"
  by (subst find_from.simps) simp

lemma replace_loop_diverges:
  assumes "replace_loop str p w i r = Some y"
  shows "\<not> (p = [] \<and> (\<exists>k. i = Some k \<and> k < length str))"
proof (rule replace_loop.raw_induct [OF _ assms])
  fix f and str p w :: string and i :: "nat option" and r :: bool and y :: "bool \<times> string"
  assume IH: "\<And>str p w i r y. f str p w i r = Some y \<Longrightarrow> \<not> (p = [] \<and> (\<exists>k. i = Some k \<and> k < length str))"
    and s: "(case i of None \<Rightarrow> Some (r, str)
      | Some i \<Rightarrow>
          let str = substr str 0 i @ w @ drop (i + length p) str
          in if i < length str - length w
             then f str p w (find_from str p (i + length w)) True
             else f str p w None True) = Some y"
  show "\<not> (p = [] \<and> (\<exists>k. i = Some k \<and> k < length str))"
  proof
    assume "p = [] \<and> (\<exists>k. i = Some k \<and> k < length str)"
    then obtain k where p: "p = []" and i: "i = Some k" and k: "k < length str" by blast
    define str' where "str' = take k str @ w @ drop k str"
    have len: "length str' = length str + length w" using k by (simp add: str'_def)
    have n: "find_from str' [] (k + length w) = Some (k + length w)"
      by (rule find_from_empty) (use len k in simp)
    have "f str' [] w (Some (k + length w)) True = Some y"
      using s k n len by (simp add: i p substr_def str'_def [symmetric])
    from IH [OF this] show False using len k by simp
  qed
qed

lemma replaceInPlace_empty:
  "replaceInPlace s [] w = (if s = [] then Some (True, w) else None)"
proof (cases "s = []")
  case True
  then show ?thesis
    by (simp add: replaceInPlace_def find_from_empty replace_loop.simps [of "[]" "[]" w "Some 0"]
        replace_loop.simps [of w "[]" w None] substr_def)
next
  case False
  have f: "find_from s [] 0 = Some 0" by (simp add: find_from_empty)
  have "replace_loop s [] w (Some 0) False = None"
    using replace_loop_diverges [of s "[]" w "Some 0" False] False
    by (cases "replace_loop s [] w (Some 0) False") auto
  then show ?thesis using False f by (simp add: replaceInPlace_def)
qed

subsection \<open>Wildcards\<close>

lemma toLowerCh_star [simp]: "toLowerCh c = CHR ''*'' \<longleftrightarrow> c = CHR ''*''"
proof -
  have "char_of (of_char c + 32 :: nat) \<noteq> CHR ''*''" if "65 \<le> (of_char c :: nat)" "(of_char c :: nat) \<le> 90"
  proof
    assume e: "char_of (of_char c + 32 :: nat) = CHR ''*''"
    have "(of_char (char_of (of_char c + 32 :: nat)) :: nat) = of_char c + 32" using that by simp
    then show False using e that by simp
  qed
  then show ?thesis by (auto simp: toLowerCh_def)
qed

lemma adjustCase_append: "adjustCase cs (a @ b) = adjustCase cs a @ adjustCase cs b"
  by (simp add: adjustCase_def toLower_def)

lemma adjustCase_star: "adjustCase cs (CHR ''*'' # x) = CHR ''*'' # adjustCase cs x" "adjustCase cs [] = []"
  using toLowerCh_star [of "CHR ''*''"] by (simp_all add: adjustCase_def toLower_def)

text \<open>A text without a star at its ends\<close>

definition plain :: "string \<Rightarrow> bool" where
  "plain p \<longleftrightarrow> p \<noteq> [] \<and> hd p \<noteq> CHR ''*'' \<and> last p \<noteq> CHR ''*''"

lemma plain_adjust: "plain p \<Longrightarrow> plain (adjustCase cs p)"
  by (auto simp: plain_def adjustCase_def toLower_def hd_map last_map)

lemma plain_facts:
  assumes "plain p"
  shows "\<not> startsWithCh p (CHR ''*'')" "\<not> endsWithCh p (CHR ''*'')" "\<not> startsWithCh (p @ x) (CHR ''*'')"
    "\<not> endsWithCh (x @ p) (CHR ''*'')"
proof -
  have e: "endsWithCh s c \<longleftrightarrow> s \<noteq> [] \<and> last s = c" for s c by (auto simp: endsWithCh_def last_conv_nth)
  have s: "startsWithCh s c \<longleftrightarrow> s \<noteq> [] \<and> hd s = c" for s c by (auto simp: startsWithCh_def hd_conv_nth)
  show "\<not> startsWithCh p (CHR ''*'')" "\<not> endsWithCh p (CHR ''*'')" "\<not> startsWithCh (p @ x) (CHR ''*'')"
    "\<not> endsWithCh (x @ p) (CHR ''*'')" using assms by (simp_all add: plain_def e s)
qed

lemma wildcard_plain:
  assumes "plain p"
  shows "wildcard_matches (WildcardPattern_new p cs) s = Some (adjustCase cs s = adjustCase cs p)"
    "wildcard_matches (WildcardPattern_new (''*'' @ p) cs) s = Some (suffix (adjustCase cs p) (adjustCase cs s))"
    "wildcard_matches (WildcardPattern_new (p @ ''*'') cs) s = Some (prefix (adjustCase cs p) (adjustCase cs s))"
    "wildcard_matches (WildcardPattern_new (''*'' @ p @ ''*'') cs) s = Some (sublist (adjustCase cs p) (adjustCase cs s))"
proof -
  define q where "q = adjustCase cs p"
  note q = plain_facts [OF plain_adjust [OF assms, of cs], folded q_def]
  have st: "startsWithCh (CHR ''*'' # x) (CHR ''*'')" "endsWithCh (x @ ''*'') (CHR ''*'')" for x
    by (simp_all add: startsWithCh_def endsWithCh_def)
  have n: "startsWithCh (q @ ''*'') (CHR ''*'') = False" using q(3) by blast
  note d = WildcardPattern_new_def wildcard_matches_def Let_def adjustCase_append adjustCase_star q_def [symmetric]
    NoWildcard_def WildcardAtStart_def WildcardAtEnd_def WildcardAtBothEnds_def substr_def
  show "wildcard_matches (WildcardPattern_new p cs) s = Some (adjustCase cs s = q)"
    using q by (auto simp: d)
  show "wildcard_matches (WildcardPattern_new (''*'' @ p) cs) s = Some (suffix q (adjustCase cs s))"
    using q(1,2) by (simp add: d st endsWith_suffix)
  show "wildcard_matches (WildcardPattern_new (p @ ''*'') cs) s = Some (prefix q (adjustCase cs s))"
    using q(1,2) by (simp add: d st n startsWith_prefix)
  show "wildcard_matches (WildcardPattern_new (''*'' @ p @ ''*'') cs) s = Some (sublist q (adjustCase cs s))"
    using q(1,2) by (simp add: d st contains_sublist)
qed

subsection \<open>The parser of test specifications never fails\<close>

text \<open>
  The positions of the escape characters of a name: in order, after its start, before the
  current position, each at a backslash.
\<close>

definition esc_ok :: "TestSpecParser \<Rightarrow> nat \<Rightarrow> bool" where
  "esc_ok p st \<longleftrightarrow> sorted_wrt (<) (p_escapeChars p) \<and>
     (\<forall>e \<in> set (p_escapeChars p). st \<le> e \<and> e < p_pos p \<and> e < length (p_arg p) \<and> p_arg p ! e = CHR 0x5C)"

definition parser_ok :: "TestSpecParser \<Rightarrow> bool" where
  "parser_ok p \<longleftrightarrow>
     (if p_mode p = NoMode then p_escapeChars p = []
      else \<exists>st. p_start p = Some st \<and> st \<le> p_pos p \<and>
        (if p_mode p = Name \<or> p_mode p = EscapedName then st \<le> length (p_arg p) \<and> esc_ok p st
         else p_escapeChars p = []))"

text \<open>
  The type of the patterns that the parser builds: one of the four wildcard forms, a lower
  case text that is compared without regard to case, and at most one exclusion, outermost.
\<close>

primrec base_ok :: "Pattern \<Rightarrow> bool" where
  "base_ok (NamePattern w) \<longleftrightarrow> wp_wildcard w \<in> {0, 1, 2, 3} \<and> wp_caseSensitivity w = No \<and>
     toLower (wp_pattern w) = wp_pattern w"
| "base_ok (TagPattern t) \<longleftrightarrow> toLower t = t"
| "base_ok (ExcludedPattern p) \<longleftrightarrow> False"

primrec pattern_ok :: "Pattern \<Rightarrow> bool" where
  "pattern_ok (NamePattern w) \<longleftrightarrow> base_ok (NamePattern w)"
| "pattern_ok (TagPattern t) \<longleftrightarrow> base_ok (TagPattern t)"
| "pattern_ok (ExcludedPattern p) \<longleftrightarrow> base_ok p"

lemma base_ok_pattern_ok: "base_ok p \<Longrightarrow> pattern_ok p"
  by (cases p) simp_all

definition built_ok :: "TestSpecParser \<Rightarrow> bool" where
  "built_ok p \<longleftrightarrow> (\<forall>x \<in> set (p_currentFilter p). pattern_ok x) \<and>
     (\<forall>f \<in> set (p_testSpec p). f \<noteq> [] \<and> (\<forall>x \<in> set f. pattern_ok x))"

lemma toLower_parts: "toLower s = s \<Longrightarrow> toLower (drop n s) = drop n s" "toLower s = s \<Longrightarrow> toLower (take n s) = take n s"
  unfolding toLower_def drop_map [symmetric] take_map [symmetric] by simp_all

lemma pattern_new_ok: "\<forall>s. base_ok (NamePattern_new s)" "\<forall>s. base_ok (TagPattern_new s)"
  by (simp_all add: NamePattern_new_def TagPattern_new_def WildcardPattern_new_def Let_def adjustCase_def
      NoWildcard_def WildcardAtStart_def WildcardAtEnd_def substr_def toLower_parts)

lemma remove_escapes_ok:
  "sorted_wrt (<) es \<Longrightarrow> \<forall>e \<in> set es. st + i \<le> e \<and> e - st - i < length token \<Longrightarrow>
   \<exists>t. remove_escapes st es i token = Some t"
proof (induction es arbitrary: i token)
  case (Cons e es)
  define t' where "t' = substr token 0 (e - st - i) @ drop (e - st - i + 1) token"
  have e: "st + i \<le> e" "e - st - i < length token" using Cons.prems(2) by simp_all
  then have len: "length t' = length token - 1" by (simp add: t'_def substr_def)
  have "\<forall>x \<in> set es. st + Suc i \<le> x \<and> x - st - Suc i < length t'"
  proof
    fix x assume x: "x \<in> set es"
    then have "e < x" "x - st - i < length token" using Cons.prems by simp_all
    then show "st + Suc i \<le> x \<and> x - st - Suc i < length t'" using e len by linarith
  qed
  then obtain t where "remove_escapes st es (Suc i) t' = Some t" using Cons.IH [of "Suc i" t'] Cons.prems(1) by auto
  then show ?case using e by (simp add: t'_def)
qed simp

lemma subString_ok:
  assumes "p_start p = Some st" "st \<le> p_pos p" "st \<le> length (p_arg p)"
  shows "subString p = Some (take (p_pos p - st) (drop st (p_arg p)))"
  using assms by (simp add: subString_def substr_def)

lemma addPattern_ok:
  assumes p: "p_start p = Some st" "st \<le> p_pos p" "st \<le> length (p_arg p)" "esc_ok p st"
    and con: "\<forall>s. base_ok (con s)" and b: "built_ok p"
  shows "\<exists>q. addPattern con p = Some q \<and> p_mode q = NoMode \<and> p_escapeChars q = [] \<and> built_ok q"
proof -
  define token where "token = take (p_pos p - st) (drop st (p_arg p))"
  have "\<forall>e \<in> set (p_escapeChars p). st + 0 \<le> e \<and> e - st - 0 < length token"
  proof
    fix e assume "e \<in> set (p_escapeChars p)"
    then have "st \<le> e" "e < p_pos p" "e < length (p_arg p)" using p(4) by (auto simp: esc_ok_def)
    then have "e - st < length (p_arg p) - st" "e - st < p_pos p - st" by linarith+
    then show "st + 0 \<le> e \<and> e - st - 0 < length token" using \<open>st \<le> e\<close> by (simp add: token_def)
  qed
  then obtain t where t: "remove_escapes st (p_escapeChars p) 0 token = Some t"
    using remove_escapes_ok [of "p_escapeChars p" st 0 token] p(4) by (auto simp: esc_ok_def)
  show ?thesis
    using t con [rule_format] base_ok_pattern_ok [OF con [rule_format]] b subString_ok [OF p(1-3), folded token_def] p(1)
    by (auto simp: addPattern_def Let_def built_ok_def)
qed

lemma addFilter_ok: "built_ok p \<Longrightarrow> built_ok (addFilter p)"
  "p_mode (addFilter p) = p_mode p" "p_escapeChars (addFilter p) = p_escapeChars p"
  by (auto simp: built_ok_def addFilter_def)

lemma addFilter_pos': "p_pos (addFilter p) = p_pos p" by simp

lemma no_escape_in_exclude:
  assumes "esc_ok p st" "st \<le> length (p_arg p)" "take (p_pos p - st) (drop st (p_arg p)) = ''exclude:''"
  shows "p_escapeChars p = []"
proof (rule ccontr)
  assume "p_escapeChars p \<noteq> []"
  then obtain e where e: "e \<in> set (p_escapeChars p)" by (meson last_in_set)
  then have b: "st \<le> e" "e < p_pos p" "e < length (p_arg p)" "p_arg p ! e = CHR 0x5C"
    using assms(1) by (auto simp: esc_ok_def)
  then have "take (p_pos p - st) (drop st (p_arg p)) ! (e - st) = CHR 0x5C" by simp
  moreover have "e - st < length (take (p_pos p - st) (drop st (p_arg p)))" using b by (simp add: diff_less_mono)
  ultimately have "CHR 0x5C \<in> set (take (p_pos p - st) (drop st (p_arg p)))" by (metis nth_mem)
  then show False unfolding assms(3) by simp
qed

text \<open>One visit leaves a state that is well formed once the position has moved on.\<close>

definition visited_ok :: "TestSpecParser \<Rightarrow> bool" where
  "visited_ok p \<longleftrightarrow> parser_ok (p\<lparr>p_pos := Suc (p_pos p)\<rparr>) \<and> built_ok p"

lemma visited_no_mode: "p_mode q = NoMode \<Longrightarrow> p_escapeChars q = [] \<Longrightarrow> built_ok q \<Longrightarrow> visited_ok q"
  by (simp add: visited_ok_def parser_ok_def)

lemma visit_in_mode_ok:
  assumes p: "parser_ok p" "built_ok p" "p_mode p \<noteq> NoMode" and pos: "p_pos p < length (p_arg p)"
    and c: "c = p_arg p ! p_pos p"
  shows "\<exists>q. visit_in_mode c p = Some q \<and> visited_ok q"
proof -
  obtain st where st: "p_start p = Some st" "st \<le> p_pos p"
    using p(1,3) by (auto simp: parser_ok_def)
  have st': "st \<le> length (p_arg p)" using st pos by simp
  show ?thesis
  proof (cases "p_mode p")
    case NoMode then show ?thesis using p(3) by simp
  next
    case Name
    then have e: "esc_ok p st" using p(1) st by (auto simp: parser_ok_def)
    note add = addPattern_ok [OF st st' e pattern_new_ok(1) p(2)]
    consider "c = CHR '',''" | "c = CHR ''[''" | "c = CHR 0x5C" | "c \<noteq> CHR '',''" "c \<noteq> CHR ''[''" "c \<noteq> CHR 0x5C" by blast
    then show ?thesis
    proof cases
      case 1
      then show ?thesis using add Name addFilter_ok
        by (auto simp: visit_in_mode_def intro!: visited_no_mode)
    next
      case 2
      have sub: "subString p = Some (take (p_pos p - st) (drop st (p_arg p)))" by (rule subString_ok [OF st st'])
      show ?thesis
      proof (cases "take (p_pos p - st) (drop st (p_arg p)) = ''exclude:''")
        case True
        then have "p_escapeChars p = []" using no_escape_in_exclude [OF e st'] by blast
        then show ?thesis using 2 Name sub True p(2)
          by (simp add: visit_in_mode_def startNewMode_def visited_ok_def parser_ok_def built_ok_def Let_def)
      next
        case False
        obtain q where q: "addPattern NamePattern_new p = Some q" "p_escapeChars q = []" "built_ok q"
          using add by blast
        then show ?thesis using 2 Name sub False
          by (simp add: visit_in_mode_def startNewMode_def visited_ok_def parser_ok_def built_ok_def Let_def)
      qed
    next
      case 3
      have "esc_ok (p\<lparr>p_mode := EscapedName, p_escapeChars := p_escapeChars p @ [p_pos p], p_pos := Suc (p_pos p)\<rparr>) st"
        using e st 3 c pos by (auto simp: esc_ok_def sorted_wrt_append)
      then show ?thesis using 3 Name st st' p(2)
        by (simp add: visit_in_mode_def escape_def visited_ok_def parser_ok_def built_ok_def)
    next
      case 4
      have "esc_ok (p\<lparr>p_pos := Suc (p_pos p)\<rparr>) st" using e by (auto simp: esc_ok_def)
      then show ?thesis using 4 Name st st' p(2)
        by (simp add: visit_in_mode_def visited_ok_def parser_ok_def built_ok_def)
    qed
  next
    case QuotedName
    then have e: "p_escapeChars p = []" "esc_ok p st" using p(1) st by (auto simp: parser_ok_def esc_ok_def)
    show ?thesis
      using addPattern_ok [OF st st' e(2) pattern_new_ok(1) p(2)] QuotedName st p(2) e(1)
      by (cases "c = CHR 0x22")
        (auto simp: visit_in_mode_def visited_ok_def parser_ok_def built_ok_def)
  next
    case Tag
    then have e: "p_escapeChars p = []" "esc_ok p st" using p(1) st by (auto simp: parser_ok_def esc_ok_def)
    show ?thesis
      using addPattern_ok [OF st st' e(2) pattern_new_ok(2) p(2)] Tag st p(2) e(1)
      by (cases "c = CHR '']''")
        (auto simp: visit_in_mode_def visited_ok_def parser_ok_def built_ok_def)
  next
    case EscapedName
    then have e: "esc_ok p st" using p(1) st by (auto simp: parser_ok_def)
    then have "esc_ok (p\<lparr>p_mode := Name, p_pos := Suc (p_pos p)\<rparr>) st" by (auto simp: esc_ok_def)
    then show ?thesis using EscapedName st st' p(2)
      by (simp add: visit_in_mode_def visited_ok_def parser_ok_def built_ok_def)
  qed
qed

lemma visitChar_ok:
  assumes p: "parser_ok p" "built_ok p" and pos: "p_pos p < length (p_arg p)"
  shows "\<exists>q. visitChar (p_arg p ! p_pos p) p = Some q \<and> visited_ok q"
proof (cases "p_mode p = NoMode")
  case False
  then show ?thesis using visit_in_mode_ok [OF p False pos refl] by (simp add: visitChar_def)
next
  case True
  then have e: "p_escapeChars p = []" using p(1) by (simp add: parser_ok_def)
  define n where "n = startNewMode Name (p_pos p) p"
  have "parser_ok n" "built_ok n" "p_mode n \<noteq> NoMode" "p_pos n < length (p_arg n)"
      "p_arg p ! p_pos p = p_arg n ! p_pos n"
    using p(2) e pos by (simp_all add: n_def startNewMode_def parser_ok_def built_ok_def esc_ok_def)
  then obtain q where q: "visit_in_mode (p_arg p ! p_pos p) n = Some q" "visited_ok q"
    using visit_in_mode_ok [of n "p_arg p ! p_pos p"] by blast
  have esc: "visited_ok (escape p)" if "p_arg p ! p_pos p = CHR 0x5C"
    using True e p(2) pos that by (simp add: escape_def visited_ok_def parser_ok_def built_ok_def esc_ok_def)
  have "visited_ok p" "visited_ok (p\<lparr>p_exclusion := True\<rparr>)"
    "visited_ok (startNewMode Tag (Suc (p_pos p)) (p\<lparr>p_pos := Suc (p_pos p)\<rparr>))"
    "visited_ok (startNewMode QuotedName (Suc (p_pos p)) (p\<lparr>p_pos := Suc (p_pos p)\<rparr>))"
    using True e p(2) by (simp_all add: visited_ok_def parser_ok_def built_ok_def startNewMode_def)
  then show ?thesis using True q esc by (auto simp: visitChar_def Let_def n_def)
qed

lemma parse_loop_ok:
  "parser_ok p \<Longrightarrow> built_ok p \<Longrightarrow>
   \<exists>q. parse_loop p = Some q \<and> parser_ok q \<and> built_ok q \<and> length (p_arg q) \<le> p_pos q"
proof (induction p rule: parse_loop.induct)
  case (1 p)
  show ?case
  proof (cases "p_pos p < length (p_arg p)")
    case False then show ?thesis using 1(2,3) by (subst parse_loop.simps) auto
  next
    case True
    obtain q where q: "visitChar (p_arg p ! p_pos p) p = Some q" "visited_ok q"
      using visitChar_ok [OF 1(2,3) True] by blast
    define q' where "q' = q\<lparr>p_pos := Suc (p_pos q)\<rparr>"
    have "parser_ok q'" "built_ok q'" using q(2) by (simp_all add: visited_ok_def q'_def built_ok_def)
    then have "\<exists>r. parse_loop q' = Some r \<and> parser_ok r \<and> built_ok r \<and> length (p_arg r) \<le> p_pos r"
      using 1(1) [OF True q(1)] by (simp add: q'_def)
    then show ?thesis using True q(1) by (subst parse_loop.simps) (simp add: q'_def)
  qed
qed

lemma spec_parse_ok:
  assumes "built_ok p0"
  shows "\<exists>r. spec_parse reg arg p0 = Some r \<and> built_ok r"
proof -
  define p where "p = p0\<lparr>p_mode := NoMode, p_exclusion := False, p_start := None,
    p_arg := expandAliases reg arg, p_escapeChars := [], p_pos := 0\<rparr>"
  have "parser_ok p" "built_ok p" using assms by (simp_all add: p_def parser_ok_def built_ok_def)
  then obtain q where q: "parse_loop p = Some q" "parser_ok q" "built_ok q" using parse_loop_ok by blast
  have "\<exists>r. (if p_mode q = Name then addPattern NamePattern_new q else Some q) = Some r \<and> built_ok r"
  proof (cases "p_mode q = Name")
    case True
    then obtain st where "p_start q = Some st" "st \<le> p_pos q" "st \<le> length (p_arg q)" "esc_ok q st"
      using q(2) by (auto simp: parser_ok_def)
    from addPattern_ok [OF this pattern_new_ok(1) q(3)] show ?thesis using True by auto
  qed (use q(3) in simp)
  then show ?thesis using q(1) by (auto simp: spec_parse_def p_def)
qed

text \<open>A well-formed specification\<close>

definition spec_ok :: "TestSpec \<Rightarrow> bool" where
  "spec_ok spec \<longleftrightarrow> (\<forall>f \<in> set spec. f \<noteq> [] \<and> (\<forall>x \<in> set f. pattern_ok x))"

lemma spec_ok_Nil [simp]: "spec_ok []"
  by (simp add: spec_ok_def)

lemma spec_testSpec_ok: "built_ok p \<Longrightarrow> spec_ok (spec_testSpec p)"
  using addFilter_ok(1) [of p] by (simp add: spec_testSpec_def built_ok_def spec_ok_def)

lemma new_built_ok: "built_ok TestSpecParser_new"
  by (simp add: built_ok_def TestSpecParser_new_def)

lemma parseTestSpec_ok: "\<exists>spec. parseTestSpec reg arg = Some spec \<and> spec_ok spec"
  using spec_parse_ok [OF new_built_ok, of reg arg] spec_testSpec_ok by (auto simp: parseTestSpec_def)

lemma parse_specs_ok: "built_ok p \<Longrightarrow> \<exists>q. parse_specs reg args p = Some q \<and> built_ok q"
proof (induction args arbitrary: p)
  case (Cons a args)
  then show ?case using spec_parse_ok [OF Cons.prems, of reg a] by auto
qed simp

lemma Config_new_ok:
  assumes "Config_new reg c = Some g"
  shows "config_data g = c" "spec_ok (config_spec g)"
  using assms parse_specs_ok [OF new_built_ok, of reg "cfg_testsOrTags c"] spec_testSpec_ok
  by (auto simp: Config_new_def split: sum.splits if_splits)

subsection \<open>Selecting\<close>

lemma wildcard_matches_ok: "wp_wildcard w \<in> {0, 1, 2, 3} \<Longrightarrow> \<exists>b. wildcard_matches w s = Some b"
  by (auto simp: wildcard_matches_def Let_def NoWildcard_def WildcardAtStart_def WildcardAtEnd_def WildcardAtBothEnds_def)

lemma base_matches_ok: "base_ok p \<Longrightarrow> \<exists>b. pattern_matches p tc = Some b"
proof (cases p)
  case (NamePattern w)
  assume "base_ok p"
  then have "wp_wildcard w \<in> {0, 1, 2, 3}" using NamePattern by simp
  from wildcard_matches_ok [OF this] show ?thesis by (simp add: NamePattern)
qed simp_all

lemma pattern_ok_cases: "pattern_ok p \<Longrightarrow> base_ok p \<or> (\<exists>q. p = ExcludedPattern q \<and> base_ok q)"
  by (cases p) simp_all

lemma pattern_matches_ok: "pattern_ok p \<Longrightarrow> \<exists>b. pattern_matches p tc = Some b"
  by (drule pattern_ok_cases, elim disjE exE conjE) (drule base_matches_ok [of _ tc], auto)+

lemma filter_matches_ok:
  "\<forall>x \<in> set f. pattern_ok x \<Longrightarrow>
   filter_matches f tc = Some (\<forall>x \<in> set f. pattern_matches x tc = Some True)"
proof (induction f)
  case (Cons p ps)
  obtain b where "pattern_matches p tc = Some b" using pattern_matches_ok [of p tc] Cons.prems by auto
  then show ?case using Cons by (cases b) auto
qed simp

text \<open>What a specification means: one of its filters, all of whose patterns match\<close>

definition selects :: "TestSpec \<Rightarrow> bool \<Rightarrow> TestCase \<Rightarrow> bool" where
  "selects spec mayThrow tc \<longleftrightarrow>
     list_ex (list_all (\<lambda>p. pattern_matches p tc = Some True)) spec \<and> (mayThrow \<or> \<not> throws tc)"

lemma spec_matches_ok:
  "\<forall>f \<in> set spec. \<forall>x \<in> set f. pattern_ok x \<Longrightarrow>
   spec_matches spec tc = Some (\<exists>f \<in> set spec. \<forall>x \<in> set f. pattern_matches x tc = Some True)"
proof (induction spec)
  case (Cons f fs)
  have "filter_matches f tc = Some (\<forall>x \<in> set f. pattern_matches x tc = Some True)"
    using filter_matches_ok Cons.prems by auto
  then show ?case using Cons by auto
qed simp

lemma matchTest_ok:
  "spec_ok spec \<Longrightarrow> matchTest tc spec mayThrow = Some (selects spec mayThrow tc)"
  by (simp add: matchTest_def spec_matches_ok spec_ok_def selects_def list_ex_iff list_all_iff)

lemma filterTests_ok:
  "spec_ok spec \<Longrightarrow> filterTests tcs spec mayThrow = Some (filter (selects spec mayThrow) tcs)"
  by (induction tcs) (simp_all add: matchTest_ok)

end
