(* ===== verification/Catch_Values_Correct.thy ===== *)
theory Catch_Values_Correct
  imports Catch_Values Catch_Registry Catch_Run "HOL-Library.Multiset"
begin

text \<open>
  Correctness of the values and counters of the framework: the generators of a test case count
  through every combination of their indices like an odometer; the first redefinition of a test is found,
  and the tests come in the requested order; numbers that are written in decimal are read back.  \<open>counter\<close> is
  the contract of a single generator and of the list of them.
\<close>

subsection \<open>The odometer of generators\<close>

text \<open>The number that the current indices stand for, the first generator being the lowest digit\<close>

fun gens_number :: "GeneratorsForTest \<Rightarrow> nat" where
  "gens_number [] = 0"
| "gens_number ((n, g) # gs) = unat (gi_currentIndex g) + unat (gi_size g) * gens_number gs"

fun gens_total :: "GeneratorsForTest \<Rightarrow> nat" where
  "gens_total [] = 1"
| "gens_total ((n, g) # gs) = unat (gi_size g) * gens_total gs"

definition gens_ok :: "GeneratorsForTest \<Rightarrow> bool" where
  "gens_ok gs \<longleftrightarrow> (\<forall>(n, g) \<in> set gs. gi_currentIndex g < gi_size g)"

lemma gens_ok_simps [simp]:
  "gens_ok []" "gens_ok ((n, g) # gs) \<longleftrightarrow> gi_currentIndex g < gi_size g \<and> gens_ok gs"
  by (auto simp: gens_ok_def)

lemma gi_moveNext_ok:
  assumes "gi_currentIndex g < gi_size g"
  shows "\<exists>g'. gi_moveNext g = (unat (gi_currentIndex g) + 1 < unat (gi_size g), g') \<and> gi_size g' = gi_size g \<and>
    unat (gi_currentIndex g') = (if unat (gi_currentIndex g) + 1 < unat (gi_size g)
      then unat (gi_currentIndex g) + 1 else 0)"
proof -
  have lt: "unat (gi_currentIndex g) < unat (gi_size g)" using assms by (simp add: word_less_nat_alt)
  have "unat (gi_size g) < 2 ^ 64" by (rule order_less_le_trans [OF unsigned_less]) simp
  then have "unat (gi_currentIndex g + 1) = unat (gi_currentIndex g) + 1"
    using lt by (simp add: unat_word_ariths)
  moreover from this have "gi_currentIndex g + 1 = gi_size g \<longleftrightarrow> \<not> unat (gi_currentIndex g) + 1 < unat (gi_size g)"
    using lt by (auto simp: word_unat_eq_iff)
  ultimately show ?thesis by (auto simp: gi_moveNext_def Let_def)
qed

lemma gens_number_lt: "gens_ok gs \<Longrightarrow> gens_number gs < gens_total gs"
proof (induction gs rule: gens_number.induct)
  case (2 n g gs)
  then have "unat (gi_currentIndex g) < unat (gi_size g)" "gens_number gs + 1 \<le> gens_total gs"
    by (auto simp: word_less_nat_alt)
  then have "unat (gi_currentIndex g) + unat (gi_size g) * gens_number gs < unat (gi_size g) * (gens_number gs + 1)"
    by (simp add: algebra_simps)
  also have "\<dots> \<le> unat (gi_size g) * gens_total gs" using \<open>gens_number gs + 1 \<le> gens_total gs\<close> by (rule mult_le_mono2)
  finally show ?case by simp
qed simp

lemma gens_moveNext_ok:
  "gens_ok gs \<Longrightarrow> \<exists>gs'. gens_moveNext gs = (gens_number gs + 1 < gens_total gs, gs') \<and> gens_ok gs' \<and>
     gens_total gs' = gens_total gs \<and> map fst gs' = map fst gs \<and>
     gens_number gs' = (if gens_number gs + 1 < gens_total gs then gens_number gs + 1 else 0)"
proof (induction gs rule: gens_number.induct)
  case (2 n g gs)
  have ok: "gi_currentIndex g < gi_size g" "gens_ok gs" using 2(2) by simp_all
  define c z where "c = unat (gi_currentIndex g)" and "z = unat (gi_size g)"
  have cz: "c < z" using ok(1) by (simp add: c_def z_def word_less_nat_alt)
  obtain g' where g': "gi_moveNext g = (c + 1 < z, g')" "gi_size g' = gi_size g"
      "unat (gi_currentIndex g') = (if c + 1 < z then c + 1 else 0)"
    using gi_moveNext_ok [OF ok(1)] unfolding c_def z_def by blast
  have okg: "gi_currentIndex g' < gi_size g'" using g'(2,3) cz by (auto simp: word_less_nat_alt z_def)
  obtain gs' where gs': "gens_moveNext gs = (gens_number gs + 1 < gens_total gs, gs')" "gens_ok gs'"
      "gens_total gs' = gens_total gs" "map fst gs' = map fst gs"
      "gens_number gs' = (if gens_number gs + 1 < gens_total gs then gens_number gs + 1 else 0)"
    using 2(1) ok(2) by blast
  have lt: "gens_number gs + 1 \<le> gens_total gs" using gens_number_lt [OF ok(2)] by simp
  show ?case
  proof (cases "c + 1 < z")
    case True
    have "c + 1 + z * gens_number gs < z * (gens_number gs + 1)" using True by (simp add: algebra_simps)
    also have "\<dots> \<le> z * gens_total gs" using lt by (rule mult_le_mono2)
    finally show ?thesis using True g' okg ok(2) by (simp add: c_def z_def)
  next
    case False
    then have c: "c + 1 = z" using cz by simp
    have n: "c + z * gens_number gs + 1 = z * (gens_number gs + 1)" using c by (simp add: algebra_simps)
    have "c + z * gens_number gs + 1 < z * gens_total gs \<longleftrightarrow> gens_number gs + 1 < gens_total gs"
      unfolding n nat_mult_less_cancel_disj using cz by simp
    moreover have "gens_number gs + 1 < gens_total gs \<Longrightarrow> z * gens_number gs' = c + z * gens_number gs + 1"
      unfolding n using gs'(5) by simp
    ultimately show ?thesis using False g' okg gs' by (auto simp: c_def z_def)
  qed
qed simp

subsection \<open>Counters\<close>

text \<open>
  The contract that a single generator and the list of the generators of a test share:
  \<open>next_step\<close> counts from 0 to \<open>total - 1\<close>, says whether it moved on, and wraps around at the end.
\<close>

locale counter =
  fixes next_step :: "'c \<Rightarrow> bool \<times> 'c" and ok :: "'c \<Rightarrow> bool" and total :: "'c \<Rightarrow> nat" and number :: "'c \<Rightarrow> nat"
  assumes in_range: "ok c \<Longrightarrow> number c < total c"
    and step: "ok c \<Longrightarrow> \<exists>c'. next_step c = (number c + 1 < total c, c') \<and> ok c' \<and> total c' = total c \<and>
      number c' = (if number c + 1 < total c then number c + 1 else 0)"
begin

primrec moves :: "nat \<Rightarrow> 'c \<Rightarrow> 'c" where
  "moves 0 c = c"
| "moves (Suc k) c = moves k (snd (next_step c))"

lemma step_ok:
  assumes "ok c"
  shows "ok (snd (next_step c))" "total (snd (next_step c)) = total c"
    "fst (next_step c) \<longleftrightarrow> number c + 1 < total c"
    "number (snd (next_step c)) = (if number c + 1 < total c then number c + 1 else 0)"
  using step [OF assms] by auto

lemma moves_ok:
  "ok c \<Longrightarrow> ok (moves k c) \<and> total (moves k c) = total c \<and> number (moves k c) = (number c + k) mod total c"
proof (induction k arbitrary: c)
  case 0
  then show ?case using in_range by simp
next
  case (Suc k)
  note s = step_ok [OF Suc.prems]
  have "number c < total c" using in_range Suc.prems by simp
  then have "(number (snd (next_step c)) + k) mod total c = (number c + Suc k) mod total c"
  proof (cases "number c + 1 < total c")
    case False
    then have e: "number c + Suc k = k + total c" using \<open>number c < total c\<close> by simp
    show ?thesis unfolding e using s(4) False by simp
  qed (use s(4) in simp)
  then show ?case using Suc.IH [OF s(1)] s(2) by simp
qed

text \<open>From 0, every number comes up once before the counter says that it has wrapped around.\<close>

lemma moves_from_zero:
  assumes "ok c" "number c = 0" "k < total c"
  shows "number (moves k c) = k" "fst (next_step (moves k c)) \<longleftrightarrow> k + 1 < total c"
  using moves_ok [OF assms(1), of k] step_ok(3) [of "moves k c"] assms by simp_all

end

interpretation gi: counter gi_moveNext "\<lambda>g. gi_currentIndex g < gi_size g" "\<lambda>g. unat (gi_size g)"
  "\<lambda>g. unat (gi_currentIndex g)"
proof unfold_locales
  fix g :: GeneratorInfo
  assume ok: "gi_currentIndex g < gi_size g"
  then show "unat (gi_currentIndex g) < unat (gi_size g)" by (simp add: word_less_nat_alt)
  obtain g' where "gi_moveNext g = (unat (gi_currentIndex g) + 1 < unat (gi_size g), g')" "gi_size g' = gi_size g"
      "unat (gi_currentIndex g') = (if unat (gi_currentIndex g) + 1 < unat (gi_size g) then unat (gi_currentIndex g) + 1 else 0)"
    using gi_moveNext_ok [OF ok] by blast
  then show "\<exists>g'. gi_moveNext g = (unat (gi_currentIndex g) + 1 < unat (gi_size g), g') \<and>
      gi_currentIndex g' < gi_size g' \<and> unat (gi_size g') = unat (gi_size g) \<and>
      unat (gi_currentIndex g') = (if unat (gi_currentIndex g) + 1 < unat (gi_size g) then unat (gi_currentIndex g) + 1 else 0)"
    using ok by (auto simp: word_less_nat_alt)
qed

interpretation gens: counter gens_moveNext gens_ok gens_total gens_number
  by unfold_locales (use gens_number_lt gens_moveNext_ok in blast)+

text \<open>The number determines the indices: no combination comes up twice, and none is left out.\<close>

definition gens_sizes :: "GeneratorsForTest \<Rightarrow> (string \<times> size_t) list" where
  "gens_sizes gs = map (\<lambda>(n, g). (n, gi_size g)) gs"

lemma gens_number_inj:
  "gens_ok gs \<Longrightarrow> gens_ok hs \<Longrightarrow> gens_sizes gs = gens_sizes hs \<Longrightarrow> gens_number gs = gens_number hs \<Longrightarrow> gs = hs"
proof (induction gs arbitrary: hs)
  case Nil
  then show ?case by (simp add: gens_sizes_def)
next
  case (Cons x gs)
  obtain n g where x: "x = (n, g)" by (cases x)
  obtain h hs' where hs: "hs = (n, h) # hs'" "gi_size h = gi_size g" "gens_sizes gs = gens_sizes hs'"
    using Cons.prems(3) x by (cases hs) (auto simp: gens_sizes_def)
  define z where "z = unat (gi_size g)"
  have lt: "unat (gi_currentIndex g) < z" "unat (gi_currentIndex h) < z"
    using Cons.prems(1,2) x hs by (simp_all add: z_def word_less_nat_alt)
  have e: "unat (gi_currentIndex g) + z * gens_number gs = unat (gi_currentIndex h) + z * gens_number hs'"
    using Cons.prems(4) x hs by (simp add: z_def)
  have "unat (gi_currentIndex g) = unat (gi_currentIndex h)" using arg_cong [OF e, of "\<lambda>k. k mod z"] lt by simp
  moreover have "gens_number gs = gens_number hs'" using calculation e lt by simp
  ultimately show ?case using Cons.IH [of hs'] Cons.prems(1,2) x hs by (cases g; cases h) (simp add: word_unat_eq_iff)
qed

lemma gens_moveNext_sizes: "gens_sizes (snd (gens_moveNext gs)) = gens_sizes gs"
proof (induction gs)
  case (Cons x gs)
  obtain n g more g' where x: "x = (n, g)" "gi_moveNext g = (more, g')" by (cases x; cases "gi_moveNext (snd x)") auto
  have "gi_size g' = gi_size g" using x(2) by (auto simp: gi_moveNext_def Let_def split: if_splits)
  then show ?case using x Cons by (auto simp: gens_sizes_def split: prod.splits)
qed simp

lemma gens_moves_sizes: "gens_sizes (gens.moves k gs) = gens_sizes gs"
  by (induction k arbitrary: gs) (simp_all add: gens_moveNext_sizes)

lemma gens_total_prod: "gens_total gs = prod_list (map (\<lambda>(n, z). unat z) (gens_sizes gs))"
  by (induction gs rule: gens_total.induct) (simp_all add: gens_sizes_def)

lemma gens_total_sizes: "gens_sizes gs = gens_sizes hs \<Longrightarrow> gens_total gs = gens_total hs"
  by (simp add: gens_total_prod)

subsection \<open>Invisible characters\<close>

definition escape_invisible :: "char \<Rightarrow> string" where
  "escape_invisible c = (if c = CHR 0x0A then [CHR 0x5C, CHR ''n'']
     else if c = CHR 0x09 then [CHR 0x5C, CHR ''t''] else [c])"

lemma show_invisibles_ok:
  "show_invisibles (length a) (a @ b) = a @ concat (map escape_invisible b)"
proof (induction b arbitrary: a)
  case Nil
  show ?case by (subst show_invisibles.simps) simp
next
  case (Cons c b)
  define e where "e = escape_invisible c"
  show ?case
  proof (cases "c = CHR 0x0A \<or> c = CHR 0x09")
    case True
    then have "show_invisibles (length a) (a @ c # b) = show_invisibles (length (a @ e)) ((a @ e) @ b)"
      by (elim disjE; subst show_invisibles.simps)
        (simp_all add: e_def escape_invisible_def nth_append substr_def Let_def)
    then show ?thesis using Cons.IH [of "a @ e"] by (simp add: e_def)
  next
    case False
    then have "show_invisibles (length a) (a @ c # b) = show_invisibles (length (a @ [c])) ((a @ [c]) @ b)"
      by (subst show_invisibles.simps) (simp add: nth_append Let_def)
    then show ?thesis using Cons.IH [of "a @ [c]"] False by (simp add: escape_invisible_def)
  qed
qed

subsection \<open>Vectors\<close>

lemma same_elements_iff: "same_elements cs v is \<longleftrightarrow> (\<forall>i \<in> set is. cs ! i = v ! i)"
  by (induction "is") auto

lemma vector_equals_iff: "vector_equals cs v \<longleftrightarrow> cs = v"
  by (auto simp: vector_equals_def same_elements_iff intro: nth_equalityI)

lemma all_found_iff: "all_found cs v \<longleftrightarrow> set cs \<subseteq> set v"
  by (induction cs) auto

subsection \<open>Duplicates and order\<close>

lemma duplicates_loop_ok:
  "duplicates_loop seen tcs = Inr () \<longleftrightarrow>
     distinct (map tc_name tcs) \<and> tc_name ` set seen \<inter> tc_name ` set tcs = {}"
proof (induction seen tcs rule: duplicates_loop.induct)
  case (2 seen tc tcs)
  show ?case
  proof (cases "find (\<lambda>x. tc_name x = tc_name tc) seen")
    case None
    then have "tc_name tc \<notin> tc_name ` set seen" by (auto simp: find_None_iff)
    then show ?thesis using None 2 by auto
  next
    case (Some x)
    then have "x \<in> set seen" "tc_name x = tc_name tc"
      by (auto simp: find_Some_iff)
    then have "tc_name tc \<in> tc_name ` set seen" by (metis imageI)
    then have "tc_name ` set seen \<inter> tc_name ` set (tc # tcs) \<noteq> {}" by auto
    then show ?thesis using Some by simp
  qed
qed simp

lemma enforce_ok: "enforceNoDuplicateTestCases tcs = Inr () \<longleftrightarrow> distinct (map tc_name tcs)"
  by (simp add: enforceNoDuplicateTestCases_def duplicates_loop_ok)

lemma enforce_first:
  assumes "enforceNoDuplicateTestCases tcs = Inl e"
  shows "\<exists>i j. i < j \<and> j < length tcs \<and> tc_name (tcs ! i) = tc_name (tcs ! j) \<and>
    distinct (map tc_name (take j tcs)) \<and> e = duplicate_error (tcs ! i) (tcs ! j)"
proof -
  have "duplicates_loop (rev seen) rest = Inl e \<Longrightarrow> distinct (map tc_name seen) \<Longrightarrow>
    \<exists>i j. i < j \<and> j < length (seen @ rest) \<and> tc_name ((seen @ rest) ! i) = tc_name ((seen @ rest) ! j) \<and>
      distinct (map tc_name (take j (seen @ rest))) \<and> e = duplicate_error ((seen @ rest) ! i) ((seen @ rest) ! j)" for seen rest
  proof (induction rest arbitrary: seen)
    case (Cons tc rest)
    show ?case
    proof (cases "find (\<lambda>x. tc_name x = tc_name tc) (rev seen)")
      case None
      then have "tc_name tc \<notin> tc_name ` set seen" by (auto simp: find_None_iff)
      then show ?thesis using Cons.IH [of "seen @ [tc]"] Cons.prems None by simp
    next
      case (Some x)
      then have "x \<in> set (rev seen)" "tc_name x = tc_name tc" by (auto simp: find_Some_iff simp del: set_rev length_rev)
      then obtain i where "i < length seen" "seen ! i = x" "tc_name (seen ! i) = tc_name tc"
        by (auto simp: in_set_conv_nth)
      then show ?thesis using Cons.prems Some
        by (intro exI [of _ i] exI [of _ "length seen"]) (simp add: nth_append)
    qed
  qed simp
  from this [of "[]" tcs] assms show ?thesis by (simp add: enforceNoDuplicateTestCases_def)
qed

lemma sortTests_ok:
  assumes "mset (shuffle tcs) = mset tcs"
  shows "mset (sortTests shuffle order tcs) = mset tcs"
    "order = InLexicographicalOrder \<Longrightarrow> sorted (map tc_name (sortTests shuffle order tcs))"
  using assms by (auto simp: sortTests_def split: RunTests.splits)

text \<open>The tests \<open>ts\<close> in the order asked for\<close>

fun in_order :: "(TestCase list \<Rightarrow> TestCase list) \<Rightarrow> RunTests \<Rightarrow> TestCase list \<Rightarrow> TestCase list \<Rightarrow> bool" where
  "in_order shuffle InDeclarationOrder ts ts' \<longleftrightarrow> ts' = ts"
| "in_order shuffle InRandomOrder ts ts' \<longleftrightarrow> ts' = shuffle ts"
| "in_order shuffle InLexicographicalOrder ts ts' \<longleftrightarrow> mset ts' = mset ts \<and> sorted (map tc_name ts')"

lemma in_order_sortTests: "in_order shuffle order ts (sortTests shuffle order ts)"
  by (cases order) (simp_all add: sortTests_def)

lemma in_order_mset: "in_order shuffle order ts ts' \<Longrightarrow> mset (shuffle ts) = mset ts \<Longrightarrow> mset ts' = mset ts"
  by (cases order) simp_all

subsection \<open>Numbers\<close>

lemma digit_of: "n < 10 \<Longrightarrow> (of_char (char_of (48 + n)) :: nat) = 48 + n" by simp

lemma show_nat_digits: "c \<in> set (show_nat n) \<Longrightarrow> is_digit c"
proof (induction n rule: show_nat.induct)
  case (1 n)
  show ?case
  proof (cases "n < 10")
    case True then show ?thesis using 1(2) by (subst (asm) show_nat.simps) (simp add: is_digit_def)
  next
    case False
    then have "c \<in> set (show_nat (n div 10)) \<or> c = char_of (48 + n mod 10)"
      using 1(2) by (subst (asm) show_nat.simps) auto
    then show ?thesis using 1(1) [OF False] by (auto simp: is_digit_def)
  qed
qed

lemma read_digits_append: "read_digits (a @ b) n = read_digits b (read_digits a n)"
  by (induction a n rule: read_digits.induct) simp_all

lemma read_show_nat: "read_digits (show_nat n) 0 = n"
proof (induction n rule: show_nat.induct)
  case (1 n)
  show ?case
  proof (cases "n < 10")
    case True then show ?thesis by (subst show_nat.simps) simp
  next
    case False
    then show ?thesis using 1 [OF False] by (subst show_nat.simps) (simp add: read_digits_append)
  qed
qed

lemma show_nat_ne: "show_nat n \<noteq> []"
  by (subst show_nat.simps) simp

lemma stream_show_nat:
  assumes "rest = [] \<or> \<not> is_digit (hd rest)"
  shows "stream_number (show_nat n @ rest) = Some (False, n)"
    "stream_number (CHR ''-'' # show_nat n @ rest) = Some (True, n)"
proof -
  obtain c cs where c: "show_nat n = c # cs" using show_nat_ne [of n] by (cases "show_nat n") auto
  have d: "is_digit c" using show_nat_digits [of c n] c by simp
  then have n: "\<not> is_space c" "c \<noteq> CHR ''-''" "c \<noteq> CHR ''+''" by (auto simp: is_digit_def is_space_def)
  have t: "takeWhile is_digit (show_nat n @ rest) = show_nat n"
    using assms show_nat_digits [of _ n] by (cases rest) (auto simp: takeWhile_append)
  show "stream_number (show_nat n @ rest) = Some (False, n)"
    using t n c read_show_nat [of n] by (simp add: stream_number_def startsWithCh_def)
  show "stream_number (CHR ''-'' # show_nat n @ rest) = Some (True, n)"
    using t c read_show_nat [of n] by (simp add: stream_number_def startsWithCh_def is_space_def)
qed

end
