(* ===== verification/Catch_Run_Correct.thy ===== *)
theory Catch_Run_Correct
  imports Catch_Session Catch_Select_Correct Catch_Values_Correct
begin

text \<open>
  Correctness of a run: a test case whose body opens no section and asks for no generator runs
  exactly once, the trackers are closed behind it and it is counted once; a suite of such tests
  runs the selected ones in the requested order and skips the others, until it aborts.
\<close>

text \<open>The part of a run that the trackers, the sections and the generators see\<close>

definition same_frame :: "RunContext \<Rightarrow> RunContext \<Rightarrow> bool" where
  "same_frame r r' \<longleftrightarrow> rc_trackers r' = rc_trackers r \<and> rc_unfinishedSections r' = rc_unfinishedSections r \<and>
     rc_config r' = rc_config r \<and> rc_testCaseTracker r' = rc_testCaseTracker r \<and>
     rc_activeTestCase r' = rc_activeTestCase r \<and> rc_generators r' = rc_generators r \<and>
     testCases (rc_totals r') = testCases (rc_totals r)"

text \<open>A body that enters no section and asks for no generator\<close>

definition plain_body :: "test_body \<Rightarrow> bool" where
  "plain_body invoke \<longleftrightarrow> (\<forall>r. same_frame r (fst (invoke r)))"

lemma same_frame_refl [simp]: "same_frame r r"
  by (simp add: same_frame_def)

lemma same_frame_trans: "same_frame r s \<Longrightarrow> same_frame s t \<Longrightarrow> same_frame r t"
  by (simp add: same_frame_def)

lemma frame_simps [simp]:
  "same_frame r (report e r)" "same_frame r (on_assertions f r)"
  "same_frame r (r\<lparr>rc_messages := m\<rparr>)" "same_frame r (r\<lparr>rc_lastAssertionInfo := i\<rparr>)"
  "same_frame r (r\<lparr>rc_shouldReportUnexpected := b\<rparr>)"
  by (simp_all add: same_frame_def report_def on_assertions_def)

lemma assertionEnded_frame: "same_frame r (assertionEnded result r)"
  by (simp add: same_frame_def assertionEnded_def Let_def report_def on_assertions_def)

lemma run_body_ok:
  assumes "plain_body invoke"
  shows "\<exists>r'. run_body invoke r = Some r' \<and> same_frame r r'"
proof -
  obtain r1 e where i: "invoke r = (r1, e)" by (cases "invoke r")
  have f: "same_frame r r1" using assms i unfolding plain_body_def by (metis fst_conv)
  show ?thesis
  proof (cases e)
    case (OtherException msg)
    show ?thesis
      using i f OtherException same_frame_trans [OF f assertionEnded_frame]
      by (simp add: run_body_def useActiveException_def captureResult_def captureExpression_def build_def
          build_expr_def setResultType_def handleResult_def Let_def)
  qed (use i f in \<open>simp_all add: run_body_def\<close>)
qed

lemma testForMissing_ok:
  assumes "cx_current (rc_trackers r) = Some t"
  shows "\<exists>b c r'. testForMissingAssertions counts r = returns (b, c, r') \<and> same_frame r r'"
  using assms by (auto simp: testForMissingAssertions_def)

lemma forgive_frame: "same_frame r (snd (forgive tc counts r))"
  by (simp add: forgive_def Let_def)

subsection \<open>The trackers of a test case without sections\<close>

definition root_tracker :: "SourceLineInfo \<Rightarrow> tracker" where
  "root_tracker here = \<lparr>tk_name = ''{root}'', tk_location = here, tk_parent = None, tk_children = [],
     tk_state = NotStarted, tk_kind = SectionTracker []\<rparr>"

definition test_tracker :: "nat \<Rightarrow> TestCase \<Rightarrow> tracker" where
  "test_tracker root tc = \<lparr>tk_name = tc_name tc, tk_location = tc_lineInfo tc, tk_parent = Some root,
     tk_children = [], tk_state = Executing, tk_kind = SectionTracker []\<rparr>"

text \<open>The store while the test case runs, and after its tracker has been closed_trackers\<close>

definition opened_trackers :: "SourceLineInfo \<Rightarrow> TestCase \<Rightarrow> tracker list \<Rightarrow> TrackerContext" where
  "opened_trackers here tc ts = \<lparr>cx_trackers = ts @ [(root_tracker here)\<lparr>tk_children := [Suc (length ts)], tk_state := ExecutingChildren\<rparr>,
       test_tracker (length ts) tc],
     cx_root = Some (length ts), cx_current = Some (Suc (length ts)), cx_runState = RunExecuting\<rparr>"

definition closed_trackers :: "SourceLineInfo \<Rightarrow> TestCase \<Rightarrow> tracker list \<Rightarrow> TrackerContext" where
  "closed_trackers here tc ts = \<lparr>cx_trackers = ts @ [(root_tracker here)\<lparr>tk_children := [Suc (length ts)], tk_state := ExecutingChildren\<rparr>,
       (test_tracker (length ts) tc)\<lparr>tk_state := CompletedSuccessfully\<rparr>],
     cx_root = Some (length ts), cx_current = Some (length ts), cx_runState = CompletedCycle\<rparr>"

lemma pair_simps [simp]:
  "(ts @ [a, b]) ! length ts = a" "(ts @ [a, b]) ! Suc (length ts) = b"
  "(ts @ [a, b])[length ts := x] = ts @ [x, b]" "(ts @ [a, b])[Suc (length ts) := x] = ts @ [a, x]"
  by (simp_all add: nth_append list_update_append)

lemma startRun_ok:
  "startRun here c = returns (length (cx_trackers c), c\<lparr>cx_trackers := cx_trackers c @ [root_tracker here],
     cx_root := Some (length (cx_trackers c)), cx_current := None, cx_runState := RunExecuting\<rparr>)"
  by (simp add: startRun_def SectionTracker_new_def new_tracker_def root_tracker_def Let_def)

lemma acquire_ok:
  assumes "cx_trackers c = ts @ [root_tracker here]" "cx_root c = Some (length ts)"
  shows "SectionTracker_acquire (tc_name tc) (tc_lineInfo tc) (startCycle c) = returns (Suc (length ts), opened_trackers here tc ts)"
proof -
  let ?c = "startCycle c"
  have p: "parent_section (length ts) ?c = returns (root_tracker here)"
    using assms by (subst parent_section.simps)
      (simp add: tracker_at_def startCycle_def isSectionTracker_def root_tracker_def)
  define t where "t = (test_tracker (length ts) tc)\<lparr>tk_state := NotStarted\<rparr>"
  define c1 where "c1 = ?c\<lparr>cx_trackers := ts @ [(root_tracker here)\<lparr>tk_children := [Suc (length ts)]\<rparr>, t]\<rparr>"
  have f: "find_or_add_section (tc_name tc) (tc_lineInfo tc) ?c = returns (Suc (length ts), c1)"
    using assms p
    by (simp add: find_or_add_section_def findChild_def tracker_at_def startCycle_def SectionTracker_new_def
        new_tracker_def addChild_def update_tracker_def root_tracker_def t_def test_tracker_def c1_def
        addNextFilters_def Let_def nth_append)
  have "openChild (length ts) (setCurrentTracker (Suc (length ts)) (put_state (Suc (length ts)) Executing c1)) =
      returns (opened_trackers here tc ts)"
    using assms by (subst openChild.simps)
      (simp add: tracker_at_def setCurrentTracker_def put_state_def update_tracker_def c1_def startCycle_def
        root_tracker_def t_def test_tracker_def opened_trackers_def nth_append)
  then have "tryOpen (Suc (length ts)) c1 = returns (opened_trackers here tc ts)"
    by (simp add: tryOpen_def tracker_open_def tracker_at_def c1_def startCycle_def t_def test_tracker_def
        isComplete_def nth_append Let_def)
  moreover have "\<not> completedCycle c1" by (simp add: completedCycle_def c1_def startCycle_def)
  ultimately show ?thesis using f by (simp add: SectionTracker_acquire_def)
qed

lemma close_ok:
  "tracker_close (Suc (length ts)) (opened_trackers here tc ts) = returns (closed_trackers here tc ts)"
  by (subst tracker_close.simps)
    (simp add: opened_trackers_def closed_trackers_def tracker_at_def test_tracker_def close_this_def close_state_def
      put_state_def update_tracker_def moveToParent_def setCurrentTracker_def completeCycle_def close_index_def nth_append)

lemma startCycle_fields [simp]: "cx_trackers (startCycle c) = cx_trackers c" "cx_root (startCycle c) = cx_root c"
  by (simp_all add: startCycle_def)

text \<open>What the test saw and reported in its only cycle\<close>

definition ran_once :: "test_body \<Rightarrow> TestCase \<Rightarrow> RunContext \<Rightarrow> RunContext \<Rightarrow> bool" where
  "ran_once invoke tc r r' \<longleftrightarrow> (\<exists>r1 r2 counts missing.
     rc_events r1 = rc_events r @ [SectionStarting (testCase_section tc)] \<and> run_body invoke r1 = Some r2 \<and>
     rc_events r' = rc_events r2 @ [SectionEnded (testCase_section tc) counts missing])"

lemma events_simps [simp]:
  "rc_events (report e r) = rc_events r @ [e]" "rc_events (on_assertions f r) = rc_events r"
  by (simp_all add: report_def on_assertions_def)

lemma testForMissing_events:
  "testForMissingAssertions counts r = returns (b, c, r') \<Longrightarrow> rc_events r' = rc_events r"
  by (auto simp: testForMissingAssertions_def split: if_splits option.splits)

lemma run_cycle_ok:
  assumes q: "plain_body invoke" and c: "cx_trackers (rc_trackers r) = ts @ [root_tracker here]"
      "cx_root (rc_trackers r) = Some (length ts)" and a: "rc_activeTestCase r = Some tc"
    and u: "rc_unfinishedSections r = []"
  shows "\<exists>r'. run_cycle invoke tc r = returns r' \<and> ran_once invoke tc r r' \<and> tracker_done r' \<and>
    rc_trackers r' = closed_trackers here tc ts \<and> rc_activeTestCase r' = Some tc \<and> rc_unfinishedSections r' = [] \<and>
    rc_config r' = rc_config r \<and> rc_generators r' = rc_generators r \<and>
    testCases (rc_totals r') = testCases (rc_totals r)"
proof -
  let ?t = "Suc (length ts)"
  define r1 where "r1 = (report (SectionStarting (testCase_section tc))
      (r\<lparr>rc_trackers := opened_trackers here tc ts, rc_testCaseTracker := Some ?t\<rparr>))
    \<lparr>rc_shouldReportUnexpected := True, rc_lastAssertionInfo := \<lparr>macroName = ''TEST_CASE'', lineInfo = tc_lineInfo tc,
       capturedExpression = [], resultDisposition = Normal\<rparr>\<rparr>"
  have r1: "rc_trackers r1 = opened_trackers here tc ts" "rc_testCaseTracker r1 = Some ?t" "rc_activeTestCase r1 = Some tc"
      "rc_unfinishedSections r1 = []" "rc_config r1 = rc_config r" "rc_generators r1 = rc_generators r"
      "testCases (rc_totals r1) = testCases (rc_totals r)"
      "rc_events r1 = rc_events r @ [SectionStarting (testCase_section tc)]"
    using a u by (simp_all add: r1_def report_def)
  obtain r2 where r2: "run_body invoke r1 = Some r2" "same_frame r1 r2" using run_body_ok [OF q] by blast
  define r3 where "r3 = r2\<lparr>rc_trackers := closed_trackers here tc ts, rc_unfinishedSections := [], rc_messages := []\<rparr>"
  have h: "handleUnfinishedSections (r2\<lparr>rc_trackers := closed_trackers here tc ts\<rparr>) =
      returns (r2\<lparr>rc_trackers := closed_trackers here tc ts, rc_unfinishedSections := []\<rparr>)"
    using r2(2) r1(4) by (simp add: handleUnfinishedSections_def same_frame_def)
  have cur: "cx_current (rc_trackers r3) = Some (length ts)" by (simp add: r3_def closed_trackers_def)
  define counts where "counts = Counts_minus (assertions (rc_totals r3)) (assertions (rc_totals
    (report (SectionStarting (testCase_section tc)) (r\<lparr>rc_trackers := opened_trackers here tc ts, rc_testCaseTracker := Some ?t\<rparr>))))"
  obtain m cs r4 where m: "testForMissingAssertions counts r3 = returns (m, cs, r4)" "same_frame r3 r4"
    using testForMissing_ok [OF cur] by blast
  obtain cs' r5 where f: "forgive tc cs r4 = (cs', r5)" by (cases "forgive tc cs r4")
  have f5: "same_frame r4 r5" using forgive_frame [of r4 tc cs] f by simp
  have e5: "rc_events r5 = rc_events r2"
  proof -
    have "rc_events r4 = rc_events r2" using testForMissing_events [OF m(1)] by (simp add: r3_def)
    moreover have "rc_events r5 = rc_events r4" using f by (auto simp: forgive_def Let_def split: if_splits)
    ultimately show ?thesis by simp
  qed
  define r' where "r' = report (SectionEnded (testCase_section tc) cs' m) r5"
  have rc: "run_cycle invoke tc r = returns r'"
  proof -
    have acq: "SectionTracker_acquire (tc_name tc) (tc_lineInfo tc) (startCycle (rc_trackers r)) =
        returns (?t, opened_trackers here tc ts)" by (rule acquire_ok [OF c])
    have "tracker_close ?t (rc_trackers r2) = returns (closed_trackers here tc ts)"
      using close_ok [of ts here tc] r2(2) r1(1) by (simp add: same_frame_def)
    then show ?thesis
      using acq a r2(1) h m(1) f
      by (simp add: run_cycle_def runCurrentTest_def Let_def r'_def r1_def r3_def counts_def report_def)
  qed
  have fr: "same_frame r3 r'" using same_frame_trans [OF m(2) same_frame_trans [OF f5 frame_simps(1)]]
    by (simp add: r'_def)
  have d: "tracker_done r'"
    using fr r2(2) r1(2) by (simp add: tracker_done_def same_frame_def r3_def closed_trackers_def test_tracker_def
        isSuccessfullyCompleted_def nth_append)
  have "ran_once invoke tc r r'" unfolding ran_once_def using r1(8) r2(1) e5 by (auto simp: r'_def)
  then show ?thesis using rc d fr r2(2) r1 by (auto simp: same_frame_def r3_def)
qed

lemma run_loop_ok:
  assumes q: "plain_body invoke" and a: "rc_activeTestCase r = Some tc" and u: "rc_unfinishedSections r = []"
    and s: "cfg_sectionsToRun (config_data (rc_config r)) = []" and g: "map_of (rc_generators r) (tc_name tc) = None"
  shows "\<exists>r'. run_loop here invoke tc r = returns r' \<and> ran_once invoke tc r r' \<and> rc_unfinishedSections r' = [] \<and>
    rc_config r' = rc_config r \<and> rc_generators r' = rc_generators r \<and>
    testCases (rc_totals r') = testCases (rc_totals r)"
proof -
  define ts where "ts = cx_trackers (rc_trackers r)"
  define r0 where "r0 = r\<lparr>rc_trackers := (rc_trackers r)\<lparr>cx_trackers := ts @ [root_tracker here],
     cx_root := Some (length ts), cx_current := None, cx_runState := RunExecuting\<rparr>\<rparr>"
  obtain r' where r': "run_cycle invoke tc r0 = returns r'" "ran_once invoke tc r0 r'" "tracker_done r'"
      "rc_activeTestCase r' = Some tc" "rc_unfinishedSections r' = []" "rc_generators r' = rc_generators r0"
      "rc_config r' = rc_config r0" "testCases (rc_totals r') = testCases (rc_totals r0)"
    using run_cycle_ok [OF q, of r0 ts here tc] a u by (auto simp: r0_def)
  have loop: "cycle_loop invoke tc r0 = returns r'" using r'(1,3) by (subst cycle_loop.simps) simp
  have gen: "advanceGeneratorsForCurrentTest (getCurrentTestName r') (rc_generators r') = (False, rc_generators r')"
    using r'(4,6) g by (simp add: advanceGeneratorsForCurrentTest_def getCurrentTestName_def r0_def)
  have "run_loop here invoke tc r = returns r'"
    using loop gen s by (subst run_loop.simps)
      (simp add: startRun_ok addInitialFilters_def r0_def ts_def)
  moreover have "ran_once invoke tc r r'" using r'(2) by (simp add: ran_once_def r0_def)
  moreover have "rc_config r' = rc_config r" "rc_generators r' = rc_generators r"
      "testCases (rc_totals r') = testCases (rc_totals r)" using r'(6-8) by (simp_all add: r0_def)
  ultimately show ?thesis using r'(5) by blast
qed


lemma Counts_total_delta:
  "testCases t = testCases p \<Longrightarrow> Counts_total (testCases (Totals_delta t p)) = 1"
  by (auto simp: Totals_delta_def Totals_minus_def Counts_minus_def Counts_total_def Let_def)

lemma Counts_total_expected: "Counts_total (testCases (expected_failure tc d)) = Counts_total (testCases d)"
  by (simp add: expected_failure_def Counts_total_def Let_def)

lemma ran_once_unfold:
  assumes "ran_once invoke tc r r'"
  obtains r1 r2 counts missing where "rc_events r1 = rc_events r @ [SectionStarting (testCase_section tc)]"
    "run_body invoke r1 = Some r2" "rc_events r' = rc_events r2 @ [SectionEnded (testCase_section tc) counts missing]"
  using assms by (auto simp: ran_once_def)

lemma runTest_ok:
  assumes q: "plain_body invoke" and u: "rc_unfinishedSections r = []"
    and s: "cfg_sectionsToRun (config_data (rc_config r)) = []" and g: "map_of (rc_generators r) (tc_name tc) = None"
  shows "\<exists>delta r1 r'. runTest here invoke tc r = returns (delta, r') \<and>
    ran_once invoke tc (report (TestCaseStarting tc) r) r1 \<and>
    rc_events r' = rc_events r1 @ [TestCaseEnded tc delta (aborting r')] \<and>
    rc_activeTestCase r' = None \<and> rc_testCaseTracker r' = None \<and> rc_unfinishedSections r' = [] \<and>
    rc_config r' = rc_config r \<and> rc_generators r' = rc_generators r \<and>
    Counts_total (testCases delta) = 1 \<and>
    testCases (rc_totals r') = Counts_plus (testCases (rc_totals r)) (testCases delta)"
proof -
  define r0 where "r0 = (report (TestCaseStarting tc) r)\<lparr>rc_activeTestCase := Some tc\<rparr>"
  obtain r1 where r1: "run_loop here invoke tc r0 = returns r1" "ran_once invoke tc r0 r1"
      "rc_unfinishedSections r1 = []" "rc_config r1 = rc_config r0" "rc_generators r1 = rc_generators r0" "testCases (rc_totals r1) = testCases (rc_totals r0)"
    using run_loop_ok [OF q, of r0 tc here] u s g by (auto simp: r0_def report_def)
  have o: "ran_once invoke tc (report (TestCaseStarting tc) r) r1"
    using r1(2) by (simp add: ran_once_def r0_def)
  define delta where "delta = expected_failure tc (Totals_delta (rc_totals r1) (rc_totals r))"
  define r2 where "r2 = on_testCases (\<lambda>c. Counts_plus c (testCases delta)) r1"
  define r' where "r' = (report (TestCaseEnded tc delta (aborting r2)) r2)\<lparr>rc_activeTestCase := None, rc_testCaseTracker := None\<rparr>"
  have "runTest here invoke tc r = returns (delta, r')"
    using r1(1) unfolding r0_def by (simp add: runTest_def Let_def delta_def r2_def r'_def)
  moreover have "rc_events r' = rc_events r1 @ [TestCaseEnded tc delta (aborting r')]" "rc_activeTestCase r' = None"
      "rc_testCaseTracker r' = None" "rc_unfinishedSections r' = []" "rc_config r' = rc_config r"
      "rc_generators r' = rc_generators r"
    using r1(3-5) by (simp_all add: r'_def r2_def r0_def on_testCases_def report_def aborting_def abortAfter_def)
  moreover have tc: "testCases (rc_totals r1) = testCases (rc_totals r)" using r1(6) by (simp add: r0_def report_def)
  moreover have "testCases (rc_totals r') = Counts_plus (testCases (rc_totals r)) (testCases delta)"
    using tc by (simp add: r'_def r2_def on_testCases_def report_def)
  moreover have "Counts_total (testCases delta) = 1"
    unfolding delta_def Counts_total_expected by (rule Counts_total_delta [OF tc])
  ultimately show ?thesis using o by blast
qed

subsection \<open>A suite of tests\<close>

text \<open>When tests were started, ended and skipped, in the order of the calls to the reporter; the end
  comes with the word whether the run aborts then\<close>

datatype verdict = Test_started TestCase | Test_ended TestCase bool | Test_skipped TestCase

fun verdicts :: "event list \<Rightarrow> verdict list" where
  "verdicts [] = []"
| "verdicts (TestCaseStarting tc # es) = Test_started tc # verdicts es"
| "verdicts (TestCaseEnded tc delta abort # es) = Test_ended tc abort # verdicts es"
| "verdicts (SkipTest tc # es) = Test_skipped tc # verdicts es"
| "verdicts (_ # es) = verdicts es"

lemma verdicts_append [simp]: "verdicts (a @ b) = verdicts a @ verdicts b"
  by (induction a rule: verdicts.induct) simp_all

text \<open>
  What a suite should do with the tests \<open>tcs\<close>, from a point where the run aborts or not, \<open>ab\<close>, to
  one where it aborts or not, \<open>ab'\<close>: a test is started if it is selected and the run does not
  abort, and ended before anything else; otherwise it is skipped.
\<close>

fun suite_runs :: "(TestCase \<Rightarrow> bool) \<Rightarrow> bool \<Rightarrow> TestCase list \<Rightarrow> verdict list \<Rightarrow> bool \<Rightarrow> bool" where
  "suite_runs sel ab [] [] ab' \<longleftrightarrow> ab' = ab"
| "suite_runs sel ab (tc # tcs) (Test_skipped t # vs) ab' \<longleftrightarrow>
     t = tc \<and> (ab \<or> \<not> sel tc) \<and> suite_runs sel ab tcs vs ab'"
| "suite_runs sel ab (tc # tcs) (Test_started t # Test_ended t' ab1 # vs) ab' \<longleftrightarrow>
     t = tc \<and> t' = tc \<and> \<not> ab \<and> sel tc \<and> suite_runs sel ab1 tcs vs ab'"
| "suite_runs sel ab _ _ ab' \<longleftrightarrow> False"

definition tests_run :: "verdict list \<Rightarrow> nat" where
  "tests_run vs = length (filter (\<lambda>v. case v of Test_started tc \<Rightarrow> True | _ \<Rightarrow> False) vs)"

lemma tests_run_simps [simp]:
  "tests_run [] = 0" "tests_run (Test_started tc # vs) = Suc (tests_run vs)"
  "tests_run (Test_ended tc ab # vs) = tests_run vs" "tests_run (Test_skipped tc # vs) = tests_run vs"
  by (simp_all add: tests_run_def)

text \<open>A body that reports neither the start nor the end nor the skipping of a test case\<close>

definition quiet_body :: "test_body \<Rightarrow> bool" where
  "quiet_body invoke \<longleftrightarrow> plain_body invoke \<and>
     (\<forall>r. verdicts (rc_events (fst (invoke r))) = verdicts (rc_events r))"

lemma assertionEnded_verdicts: "verdicts (rc_events (assertionEnded result r)) = verdicts (rc_events r)"
  by (simp add: assertionEnded_def Let_def)

lemma run_body_verdicts:
  assumes "quiet_body invoke" "run_body invoke r = Some r'"
  shows "verdicts (rc_events r') = verdicts (rc_events r)"
proof -
  obtain r1 e where i: "invoke r = (r1, e)" by (cases "invoke r")
  have v: "verdicts (rc_events r1) = verdicts (rc_events r)"
    using assms(1) i unfolding quiet_body_def by (metis fst_conv)
  show ?thesis using assms(2) i v
    by (cases e) (auto simp: run_body_def useActiveException_def captureResult_def captureExpression_def Let_def
        handleResult_def assertionEnded_verdicts split: if_splits)
qed

lemma ran_once_verdicts:
  assumes "quiet_body invoke" "ran_once invoke tc r r'"
  shows "verdicts (rc_events r') = verdicts (rc_events r)"
  using assms(2) by (rule ran_once_unfold) (simp add: run_body_verdicts [OF assms(1)])

lemma run_tests_loop_ok:
  assumes "spec_ok spec" "\<forall>tc \<in> set tcs. quiet_body (bodies tc)"
    "rc_unfinishedSections r = []" "cfg_sectionsToRun (config_data (rc_config r)) = []"
    "rc_generators r = []"
  shows "\<exists>totals' r' vs. run_tests_loop here bodies spec tcs totals r = returns (totals', r') \<and>
    verdicts (rc_events r') = verdicts (rc_events r) @ vs \<and> rc_config r' = rc_config r \<and>
    suite_runs (selects spec (allowThrows (rc_config r))) (aborting r) tcs vs (aborting r') \<and>
    Counts_total (testCases (rc_totals r')) = Counts_total (testCases (rc_totals r)) + of_nat (tests_run vs) \<and>
    Counts_total (testCases totals') = Counts_total (testCases totals) + of_nat (tests_run vs)"
  using assms(2-)
proof (induction tcs arbitrary: r totals)
  case Nil
  then show ?case by simp
next
  case (Cons tc tcs)
  note m = matchTest_ok [OF assms(1), of tc "allowThrows (rc_config r)"]
  show ?case
  proof (cases "\<not> aborting r \<and> selects spec (allowThrows (rc_config r)) tc")
    case False
    define r1 where "r1 = report (SkipTest tc) r"
    have c: "rc_config r1 = rc_config r" "aborting r1 = aborting r" "rc_totals r1 = rc_totals r"
        "verdicts (rc_events r1) = verdicts (rc_events r) @ [Test_skipped tc]"
      by (simp_all add: r1_def report_def aborting_def abortAfter_def)
    obtain totals' r' vs where IH: "run_tests_loop here bodies spec tcs totals r1 = returns (totals', r')"
        "verdicts (rc_events r') = verdicts (rc_events r1) @ vs" "rc_config r' = rc_config r1"
        "suite_runs (selects spec (allowThrows (rc_config r1))) (aborting r1) tcs vs (aborting r')"
        "Counts_total (testCases (rc_totals r')) = Counts_total (testCases (rc_totals r1)) + of_nat (tests_run vs)"
        "Counts_total (testCases totals') = Counts_total (testCases totals) + of_nat (tests_run vs)"
      using Cons.IH [of r1 totals] Cons.prems by (auto simp: r1_def report_def)
    have "run_tests_loop here bodies spec (tc # tcs) totals r = returns (totals', r')"
      using IH(1) m False by (auto simp: r1_def)
    then show ?thesis using IH(2-6) c False
      by (intro exI [of _ totals'] exI [of _ r'] exI [of _ "Test_skipped tc # vs"]) auto
  next
    case True
    have q: "quiet_body (bodies tc)" "plain_body (bodies tc)" using Cons.prems(1) by (simp_all add: quiet_body_def)
    obtain delta r0 r1 where r1: "runTest here (bodies tc) tc r = returns (delta, r1)"
        "ran_once (bodies tc) tc (report (TestCaseStarting tc) r) r0"
        "rc_events r1 = rc_events r0 @ [TestCaseEnded tc delta (aborting r1)]"
        "rc_unfinishedSections r1 = []" "rc_config r1 = rc_config r" "rc_generators r1 = rc_generators r"
        "Counts_total (testCases delta) = 1" "testCases (rc_totals r1) = Counts_plus (testCases (rc_totals r)) (testCases delta)"
      using runTest_ok [OF q(2) Cons.prems(2,3), of tc here] Cons.prems(4) by auto
    have v: "verdicts (rc_events r1) = verdicts (rc_events r) @ [Test_started tc, Test_ended tc (aborting r1)]"
      using ran_once_verdicts [OF q(1) r1(2)] r1(3) by simp
    have n: "Counts_total (testCases (rc_totals r1)) = Counts_total (testCases (rc_totals r)) + 1"
        "Counts_total (testCases (Totals_plus totals delta)) = Counts_total (testCases totals) + 1"
      using r1(7,8) by (simp_all add: Counts_total_plus Totals_plus_def)
    obtain totals' r' vs where IH: "run_tests_loop here bodies spec tcs (Totals_plus totals delta) r1 = returns (totals', r')"
        "verdicts (rc_events r') = verdicts (rc_events r1) @ vs" "rc_config r' = rc_config r1"
        "suite_runs (selects spec (allowThrows (rc_config r1))) (aborting r1) tcs vs (aborting r')"
        "Counts_total (testCases (rc_totals r')) = Counts_total (testCases (rc_totals r1)) + of_nat (tests_run vs)"
        "Counts_total (testCases totals') = Counts_total (testCases (Totals_plus totals delta)) + of_nat (tests_run vs)"
      using Cons.IH [of r1 "Totals_plus totals delta"] Cons.prems r1(4-6) by auto
    have "run_tests_loop here bodies spec (tc # tcs) totals r = returns (totals', r')"
      using IH(1) True r1(1) m by simp
    then show ?thesis using IH(2-6) True r1(5) v n
      by (intro exI [of _ totals'] exI [of _ r'] exI [of _ "Test_started tc # Test_ended tc (aborting r1) # vs"]) simp
  qed
qed

subsection \<open>A whole run\<close>

lemma run_spec_ok:
  assumes "Config_new reg c = Some g"
  shows "\<exists>spec. run_spec reg g = Some spec \<and> spec_ok spec"
  using Config_new_ok(2) [OF assms] parseTestSpec_ok [of reg "''~[.]''"] by (auto simp: run_spec_def)

lemma getAllTestsSorted_order:
  assumes "rg_sortedFunctions r = []" "distinct (map tc_name (rg_functions r))" "\<And>ts. mset (shuffle ts) = mset ts"
  shows "\<exists>ts r'. getAllTestsSorted shuffle order r = (Inr ts, r') \<and> mset ts = mset (rg_functions r) \<and>
    in_order shuffle order (rg_functions r) ts \<and> rg_functions r' = rg_functions r \<and>
    getAllTestsSorted shuffle order r' = (Inr ts, r') \<and>
    (order' \<noteq> order \<longrightarrow> (\<exists>ts' r''. getAllTestsSorted shuffle order' r' = (Inr ts', r'') \<and>
       in_order shuffle order' (rg_functions r) ts' \<and> mset ts' = mset (rg_functions r)))"
proof -
  define ts where "ts = sortTests shuffle order (rg_functions r)"
  define r' where "r' = r\<lparr>rg_sortedFunctions := ts, rg_currentSortOrder := order\<rparr>"
  have sh: "mset (shuffle (rg_functions r)) = mset (rg_functions r)" by (rule assms(3))
  note io = in_order_sortTests [of shuffle _ "rg_functions r"] sortTests_ok(1) [where shuffle = shuffle and tcs = "rg_functions r", OF sh]
  have ok: "enforceNoDuplicateTestCases (rg_functions r) = Inr ()"
    using enforce_ok [of "rg_functions r"] assms(2) by simp
  have 1: "getAllTestsSorted shuffle order r = (Inr ts, r')"
    using assms(1) ok by (simp add: getAllTestsSorted_def ts_def r'_def Let_def)
  have 2: "getAllTestsSorted shuffle order r' = (Inr ts, r')"
  proof (cases "ts = []")
    case True
    then have "rg_functions r = []" using io(2) [of order] unfolding ts_def by (metis mset_zero_iff)
    then show ?thesis using True ok by (simp add: getAllTestsSorted_def r'_def ts_def Let_def)
  qed (simp add: getAllTestsSorted_def r'_def Let_def)
  have 3: "\<exists>r''. getAllTestsSorted shuffle order' r' = (Inr (sortTests shuffle order' (rg_functions r)), r'')" if "order' \<noteq> order"
    using that ok by (simp add: getAllTestsSorted_def r'_def Let_def)
  have "rg_functions r' = rg_functions r" by (simp add: r'_def)
  then show ?thesis using 1 2 3 io [of order] io [of order'] unfolding ts_def [symmetric]
    by (intro exI [of _ ts] exI [of _ r']) auto
qed

lemma runTests_ok:
  assumes c: "Config_new reg c = Some g" and s: "cfg_sectionsToRun c = []"
    and rep: "makeReporter registered (cfg_reporterNames c) = Inr reps"
    and reg: "rg_sortedFunctions registry = []" "distinct (map tc_name (rg_functions registry))"
    and sh: "\<And>ts. mset (shuffle ts) = mset ts" and q: "\<forall>tc \<in> set (rg_functions registry). quiet_body (bodies tc)"
  shows "\<exists>totals r registry' spec tcs.
    runTests here disposition bodies reg shuffle registered g registry = Some (Inr (totals, r), registry') \<and>
    run_spec reg g = Some spec \<and> in_order shuffle (cfg_runOrder c) (rg_functions registry) tcs \<and>
    suite_runs (selects spec (allowThrows g)) (word_of_int (cfg_abortAfter c) = (0 :: size_t)) tcs (verdicts (rc_events r))
      (failed (assertions (rc_totals r)) = word_of_int (cfg_abortAfter c)) \<and>
    Counts_total (testCases (rc_totals r)) = of_nat (tests_run (verdicts (rc_events r))) \<and>
    Counts_total (testCases totals) = of_nat (tests_run (verdicts (rc_events r)))"
proof -
  define r0 where "r0 = testGroupStarting (config_name g) 1 1 (RunContext_new disposition g)"
  have g: "config_data g = c" by (rule Config_new_ok(1) [OF c])
  obtain spec where spec: "run_spec reg g = Some spec" "spec_ok spec" using run_spec_ok [OF c] by blast
  obtain tcs registry' where t: "getAllTestsSorted shuffle (cfg_runOrder c) registry = (Inr tcs, registry')"
      "mset tcs = mset (rg_functions registry)" "in_order shuffle (cfg_runOrder c) (rg_functions registry) tcs"
    using getAllTestsSorted_order [OF reg sh, of "cfg_runOrder c"] by blast
  have qs: "\<forall>tc \<in> set tcs. quiet_body (bodies tc)" using q t(2) mset_eq_setD by blast
  have r0: "rc_config r0 = g" "rc_unfinishedSections r0 = []" "rc_generators r0 = []" "verdicts (rc_events r0) = []"
    "rc_totals r0 = Totals_zero"
    by (simp_all add: r0_def testGroupStarting_def RunContext_new_def report_def)
  have ab: "aborting x \<longleftrightarrow> failed (assertions (rc_totals x)) = word_of_int (cfg_abortAfter c)" if "rc_config x = g" for x
    using that g by (simp add: aborting_def abortAfter_def)
  have "aborting r0 \<longleftrightarrow> word_of_int (cfg_abortAfter c) = (0 :: size_t)" "Counts_total (testCases (rc_totals r0)) = 0"
    "Counts_total (testCases Totals_zero) = 0"
    using r0(5) ab [OF r0(1)] by (auto simp: Totals_zero_def Counts_zero_def Counts_total_def)
  with run_tests_loop_ok [OF spec(2) qs r0(2), of here Totals_zero] r0 s g
  obtain totals r vs where l: "run_tests_loop here bodies spec tcs Totals_zero r0 = returns (totals, r)"
      "verdicts (rc_events r) = vs" "rc_config r = g"
      "suite_runs (selects spec (allowThrows g)) (word_of_int (cfg_abortAfter c) = (0 :: size_t)) tcs vs (aborting r)"
      "Counts_total (testCases (rc_totals r)) = of_nat (tests_run vs)" "Counts_total (testCases totals) = of_nat (tests_run vs)"
    by auto
  define r' where "r' = RunContext_destroy (testGroupEnded (config_name g) totals r)"
  have "runTests here disposition bodies reg shuffle registered g registry = Some (Inr (totals, r'), registry')"
    using l(1) [unfolded r0_def] t(1) spec(1) rep g by (simp add: runTests_def r'_def)
  moreover have "verdicts (rc_events r') = vs" "rc_totals r' = rc_totals r" using l(2)
    by (simp_all add: r'_def RunContext_destroy_def testGroupEnded_def report_def)
  ultimately show ?thesis using spec(1) t(3) l(4-6) ab [OF l(3)]
    by (intro exI [of _ totals] exI [of _ r'] exI [of _ registry'] exI [of _ spec] exI [of _ tcs]) simp
qed

subsection \<open>A small suite\<close>

text \<open>A test case and a body with one assertion that passes, for the instances of the properties\<close>

definition sample_test :: "string \<Rightarrow> TestCase" where
  "sample_test name = \<lparr>tc_name = name, tc_className = [], tc_description = [], tc_tags = [], tc_lcaseTags = [],
     tc_tagsAsString = [], tc_lineInfo = \<lparr>src_file = ''test.cpp'', src_line = 1\<rparr>, tc_properties = 0, tc_test = 0\<rparr>"

definition sample_body :: test_body where
  "sample_body r = (assertionEnded \<lparr>m_info = rc_lastAssertionInfo r,
     m_resultData = AssertionResultData_init\<lparr>resultType := Ok\<rparr>\<rparr> r, Returned)"

definition sample_registry :: TestRegistry where
  "sample_registry = registerTest (sample_test ''b'') (registerTest (sample_test ''a'') TestRegistry_new)"

lemma sample_body_quiet: "quiet_body sample_body"
  by (simp add: quiet_body_def plain_body_def sample_body_def assertionEnded_frame assertionEnded_verdicts)

lemma sample_registry_simps [simp]:
  "rg_functions sample_registry = [sample_test ''a'', sample_test ''b'']" "rg_sortedFunctions sample_registry = []"
  by (simp_all add: sample_registry_def registerTest_def TestRegistry_new_def sample_test_def)

lemma sample_test_name [simp]: "tc_name (sample_test name) = name"
  by (simp add: sample_test_def)

end
