(* ===== verification/Catch_Reporter_Protocol.thy ===== *)
theory Catch_Reporter_Protocol
  imports Catch_Reporter_Xml Catch_Report_Correct Catch_Run_Correct
begin

text \<open>
  The order in which a run calls its reporter, as a machine over the phases of the run, and the
  contract of a reporter: in every phase it takes the calls of the protocol that it can print
  (locale \<open>reporter_contract\<close>).  A list of reporters fulfils the contract when each does.  The base class
  of the streaming reporters and the XML reporter fulfil it, and a run of tests that only make
  assertions follows the protocol.
\<close>

subsection \<open>The protocol of the calls to a reporter\<close>

text \<open>Where a run is: \<open>Started\<close> is a test case before its first section, \<open>InCase n\<close>
  one that has entered its own section, with \<open>n\<close> open sections.\<close>

datatype phase = Outside | InRun | InGroup | Started | InCase nat

fun phase_step :: "event \<Rightarrow> phase \<Rightarrow> phase option" where
  "phase_step (TestRunStarting name) Outside = Some InRun"
| "phase_step (TestGroupStarting name index groups) InRun = Some InGroup"
| "phase_step (TestCaseStarting tc) InGroup = Some Started"
| "phase_step (SectionStarting info) Started = Some (InCase 1)"
| "phase_step (SectionStarting info) (InCase n) = Some (InCase (Suc n))"
| "phase_step (AssertionEnded result messages totals) (InCase (Suc n)) = Some (InCase (Suc n))"
| "phase_step (SectionEnded info counts missing) (InCase (Suc n)) = Some (InCase n)"
| "phase_step (TestCaseEnded tc totals aborted) (InCase 0) = Some InGroup"
| "phase_step (SkipTest tc) InGroup = Some InGroup"
| "phase_step (TestGroupEnded name totals aborted) InGroup = Some InRun"
| "phase_step (TestRunEnded totals aborted) InRun = Some Outside"
| "phase_step _ _ = None"

fun phase_steps :: "event list \<Rightarrow> phase \<Rightarrow> phase option" where
  "phase_steps [] p = Some p"
| "phase_steps (e # es) p = (case phase_step e p of None \<Rightarrow> None | Some q \<Rightarrow> phase_steps es q)"

lemma phase_steps_append:
  "phase_steps (a @ b) p = (case phase_steps a p of None \<Rightarrow> None | Some q \<Rightarrow> phase_steps b q)"
  by (induction a p rule: phase_steps.induct) (auto split: option.splits)

subsection \<open>The contract of a reporter\<close>

fun reporter_calls :: "'r reporter_op \<Rightarrow> (report_env \<times> event) list \<Rightarrow> 'r \<Rightarrow> 'r option" where
  "reporter_calls call [] r = Some r"
| "reporter_calls call ((env, e) # es) r =
     (case call env e r of None \<Rightarrow> None | Some (c, r) \<Rightarrow> reporter_calls call es r)"

fun multi_inv :: "('r \<Rightarrow> bool) \<Rightarrow> 'r reporter \<Rightarrow> bool" where
  "multi_inv good (Single r) = good r"
| "multi_inv good (MultipleReporters rs) = list_all good rs"

text \<open>A reporter takes every call of the protocol whose texts it can print, in any environment.\<close>

locale reporter_contract =
  fixes call :: "'r reporter_op" and inv :: "phase \<Rightarrow> 'r \<Rightarrow> bool" and printable :: "event \<Rightarrow> bool"
  assumes call_ok:
    "inv p r \<Longrightarrow> phase_step e p = Some q \<Longrightarrow> printable e \<Longrightarrow> \<exists>c r'. call env e r = Some (c, r') \<and> inv q r'"
begin

lemma calls_ok:
  "inv p r \<Longrightarrow> phase_steps (map snd es) p = Some q \<Longrightarrow> list_all printable (map snd es) \<Longrightarrow>
   \<exists>r'. reporter_calls call es r = Some r' \<and> inv q r'"
proof (induction es arbitrary: p r)
  case (Cons x es)
  obtain env e where x: "x = (env, e)" by (cases x)
  then obtain p1 where p1: "phase_step e p = Some p1" "phase_steps (map snd es) p1 = Some q"
    using Cons.prems(2) by (auto split: option.splits)
  have e: "printable e" using Cons.prems(3) x by simp
  obtain c r1 where "call env e r = Some (c, r1)" "inv p1 r1" using call_ok [OF Cons.prems(1) p1(1) e] by blast
  then show ?case using Cons.IH [OF _ p1(2)] Cons.prems(3) x by auto
qed auto

lemma multi_ok:
  "list_all (inv p) rs \<Longrightarrow> phase_step e p = Some q \<Longrightarrow> printable e \<Longrightarrow>
   \<exists>c rs'. multi_call call env e rs b = Some (c, rs') \<and> list_all (inv q) rs' \<and> length rs' = length rs"
proof (induction rs arbitrary: b)
  case (Cons r rs)
  obtain c r1 where r1: "call env e r = Some (c, r1)" "inv q r1" using call_ok [of p r e q env] Cons.prems by auto
  obtain c' rs' where "multi_call call env e rs (b \<or> c) = Some (c', rs')" "list_all (inv q) rs'" "length rs' = length rs"
    using Cons.IH [of "b \<or> c"] Cons.prems by auto
  then show ?case using r1 by simp
qed simp

lemma reporter_call_ok:
  "multi_inv (inv p) r \<Longrightarrow> phase_step e p = Some q \<Longrightarrow> printable e \<Longrightarrow>
   \<exists>c r'. reporter_call call env e r = Some (c, r') \<and> multi_inv (inv q) r'"
  using call_ok [of p _ e q env] multi_ok [of p _ e q env False] by (cases r) (fastforce simp: reporter_call_def)+

end

text \<open>Every call can be printed.\<close>

definition any_event :: "event \<Rightarrow> bool" where
  "any_event e = True"

lemma any_event_simps [simp]: "any_event e" "list_all any_event es"
  by (simp_all add: any_event_def list_all_iff)

subsection \<open>The base class of the streaming reporters\<close>

primrec depth :: "phase \<Rightarrow> nat" where
  "depth Outside = 0" | "depth InRun = 0" | "depth InGroup = 0" | "depth Started = 0" | "depth (InCase n) = n"

definition stack_ok :: "phase \<Rightarrow> StreamingReporterBase \<Rightarrow> bool" where
  "stack_ok p b \<longleftrightarrow> length (sb_sectionStack b) = depth p"

lemma streaming_base_ok:
  assumes "stack_ok p b" "phase_step e p = Some q"
  shows "\<exists>b'. streaming_base e b = Some b' \<and> stack_ok q b' \<and> sb_config b' = sb_config b"
  using assms by (cases "(e, p)" rule: phase_step.cases) (auto simp: stack_ok_def)

text \<open>An event listener only keeps the base class.\<close>

definition listener :: "StreamingReporterBase reporter_op" where
  "listener env e b = map_option (Pair False) (streaming_base e b)"

interpretation sb: reporter_contract listener stack_ok any_event
  by unfold_locales (use streaming_base_ok in \<open>fastforce simp: listener_def\<close>)

subsection \<open>The XML reporter\<close>

primrec phase_tags :: "phase \<Rightarrow> string list" where
  "phase_tags Outside = []"
| "phase_tags InRun = [''Catch'']"
| "phase_tags InGroup = [''Catch'', ''Group'']"
| "phase_tags Started = [''Catch'', ''Group'', ''TestCase'']"
| "phase_tags (InCase n) = [''Catch'', ''Group'', ''TestCase''] @ replicate (n - 1) ''Section''"

definition xml_ok :: "phase \<Rightarrow> XmlReporter \<Rightarrow> bool" where
  "xml_ok p r \<longleftrightarrow> stack_ok p (xr_base r) \<and> xw_ok (xr_xml r) \<and> xw_tags (xr_xml r) = phase_tags p \<and>
     xr_sectionDepth r = int (depth p)"

text \<open>A writer with well-formed state and the given open elements\<close>

definition at_tags :: "string list \<Rightarrow> XmlWriter \<Rightarrow> bool" where
  "at_tags ts w \<longleftrightarrow> xw_ok w \<and> xw_tags w = ts"

lemma at_tags_simps [simp]:
  "at_tags ts (writeAttribute name a w) \<longleftrightarrow> at_tags ts w"
  "at_tags ts (writeAttribute_nat name n w) \<longleftrightarrow> at_tags ts w"
  "at_tags ts (writeAttribute_bool name b w) \<longleftrightarrow> at_tags ts w"
  "at_tags ts (writeSourceInfo i w) \<longleftrightarrow> at_tags ts w"
  "at_tags ts (counts_attributes c w) \<longleftrightarrow> at_tags ts w"
  "at_tags ts (duration_attribute g env w) \<longleftrightarrow> at_tags ts w"
  by (simp_all add: at_tags_def writeAttribute_def writeAttribute_nat_def writeAttribute_bool_def writeSourceInfo_def
      counts_attributes_def duration_attribute_def xw_ok_def)

lemma at_tags_intros [simp, intro]:
  "at_tags ts w \<Longrightarrow> at_tags ts (writeText text i w)"
  "at_tags ts w \<Longrightarrow> at_tags ts (ensureTagClosed w)"
  "at_tags ts w \<Longrightarrow> at_tags (ts @ [name]) (startElement name w)"
  using startElement_ok [of w name] by (auto simp: at_tags_def writeText_def xw_ok_def Let_def)

lemma at_tags_two [simp]:
  "at_tags (ts @ [outer]) w \<Longrightarrow> at_tags (ts @ [outer, name]) (startElement name w)"
  using at_tags_intros(3) [of "ts @ [outer]" w name] by simp

lemma endElement_at: "at_tags (ts @ [name]) w \<Longrightarrow> \<exists>w'. endElement w = Some w' \<and> at_tags ts w'"
  using endElement_ok [of w] by (auto simp: at_tags_def)

lemma scoped_text_at: "at_tags ts w \<Longrightarrow> \<exists>w'. scoped_text name text i w = Some w' \<and> at_tags ts w'"
  unfolding scoped_text_def by (rule endElement_at [of ts name]) blast

lemma located_text_at: "at_tags ts w \<Longrightarrow> \<exists>w'. located_text name result w = Some w' \<and> at_tags ts w'"
  unfolding located_text_def by (rule endElement_at [of ts name]) auto

lemma xml_messages_at: "at_tags ts w \<Longrightarrow> \<exists>w'. xml_messages ms w = Some w' \<and> at_tags ts w'"
proof (induction ms arbitrary: w)
  case (Cons m ms)
  have "\<exists>w'. (if mi_type m = Info then scoped_text ''Info'' (mi_message m) True w
      else if mi_type m = Warning then scoped_text ''Warning'' (mi_message m) True w else Some w) = Some w' \<and> at_tags ts w'"
    using scoped_text_at [OF Cons.prems] Cons.prems by simp
  then show ?case using Cons.IH by fastforce
qed simp

lemma xml_result_at: "at_tags ts w \<Longrightarrow> \<exists>w'. xml_result result w = Some w' \<and> at_tags ts w'"
  unfolding xml_result_def using located_text_at scoped_text_at by (cases "getResultType result") auto

lemma xml_expression_at:
  "at_tags ts w \<Longrightarrow> \<exists>w'. xml_expression result w = Some w' \<and> at_tags (ts @ [''Expression'']) w'"
proof -
  assume "at_tags ts w"
  then have "at_tags (ts @ [''Expression'']) (writeSourceInfo (lineInfo (m_info result)) (writeAttribute ''type'' (macroName (m_info result))
      (writeAttribute_bool ''success'' (succeeded result) (startElement ''Expression'' w))))" by auto
  from scoped_text_at [OF this, of "''Original''" "getExpression result" True]
  show ?thesis unfolding xml_expression_def Let_def using scoped_text_at by fastforce
qed

lemma xml_assertionEnded_at: "at_tags ts w \<Longrightarrow> \<exists>w'. xml_assertionEnded g stats w = Some w' \<and> at_tags ts w'"
proof -
  assume w: "at_tags ts w"
  define result where "result = as_result stats"
  define inc where "inc \<longleftrightarrow> includeSuccessfulResults g \<or> \<not> result_isOk result"
  obtain w1 where w1: "(if inc then xml_messages (as_infoMessages stats) w else Some w) = Some w1" "at_tags ts w1"
    using xml_messages_at [OF w] w by (cases inc) auto
  obtain w2 where w2: "(if hasExpression result then xml_expression result w1 else Some w1) = Some w2"
      "at_tags (if hasExpression result then ts @ [''Expression''] else ts) w2"
    using xml_expression_at [OF w1(2)] w1(2) by (cases "hasExpression result") auto
  obtain w3 where w3: "xml_result result w2 = Some w3" "at_tags (if hasExpression result then ts @ [''Expression''] else ts) w3"
    using xml_result_at [OF w2(2)] by blast
  have "\<exists>w4. (if hasExpression result then endElement w3 else Some w3) = Some w4 \<and> at_tags ts w4"
    using w3(2) endElement_at by (cases "hasExpression result") auto
  then show ?thesis using w1 w2(1) w3(1)
    by (auto simp: xml_assertionEnded_def Let_def result_def [symmetric] inc_def [symmetric])
qed

lemma xml_totals_at: "at_tags (ts @ [name]) w \<Longrightarrow> \<exists>w'. xml_totals totals w = Some w' \<and> at_tags ts w'"
proof -
  assume "at_tags (ts @ [name]) w"
  then have "at_tags ((ts @ [name]) @ [''OverallResults'']) (counts_attributes (assertions totals) (startElement ''OverallResults'' w))" by auto
  from endElement_at [OF this] show ?thesis unfolding xml_totals_def using endElement_at by fastforce
qed

lemma xml_testCaseEnded_at:
  "at_tags (ts @ [name]) w \<Longrightarrow> \<exists>w'. xml_testCaseEnded g env totals w = Some w' \<and> at_tags ts w'"
proof -
  assume "at_tags (ts @ [name]) w"
  then have a: "at_tags ((ts @ [name]) @ [''OverallResult'']) (duration_attribute g env
      (writeAttribute_bool ''success'' (allOk (assertions totals)) (startElement ''OverallResult'' w)))" by auto
  define w0 where "w0 = duration_attribute g env
      (writeAttribute_bool ''success'' (allOk (assertions totals)) (startElement ''OverallResult'' w))"
  have opt: "\<exists>w'. (if t \<noteq> [] then scoped_text n (trim t) False v else Some v) = Some w' \<and> at_tags us w'"
    if "at_tags us v" for us v n and t :: string using scoped_text_at [OF that] that by (cases "t = []") auto
  obtain w1 where w1: "(if re_stdOut env \<noteq> [] then scoped_text ''StdOut'' (trim (re_stdOut env)) False w0 else Some w0) = Some w1"
      "at_tags ((ts @ [name]) @ [''OverallResult'']) w1" using opt [OF a [folded w0_def]] by blast
  obtain w2 where w2: "(if re_stdErr env \<noteq> [] then scoped_text ''StdErr'' (trim (re_stdErr env)) False w1 else Some w1) = Some w2"
      "at_tags ((ts @ [name]) @ [''OverallResult'']) w2" using opt [OF w1(2)] by blast
  obtain w3 where w3: "endElement w2 = Some w3" "at_tags (ts @ [name]) w3" using endElement_at [OF w2(2)] by blast
  obtain w4 where "endElement w3 = Some w4" "at_tags ts w4" using endElement_at [OF w3(2)] by blast
  then show ?thesis using w1(1) w2(1) w3(1) unfolding xml_testCaseEnded_def Let_def w0_def [symmetric] by simp
qed

lemma xml_sectionEnded_at:
  assumes "at_tags (if 1 < xr_sectionDepth r then ts @ [name] else ts) (xr_xml r)"
  shows "\<exists>r'. xml_sectionEnded env counts r = Some r' \<and> at_tags ts (xr_xml r') \<and>
    xr_sectionDepth r' = xr_sectionDepth r - 1 \<and> xr_base r' = xr_base r"
proof (cases "1 < xr_sectionDepth r")
  case True
  then have "at_tags ((ts @ [name]) @ [''OverallResults'']) (duration_attribute (sb_config (xr_base r)) env
      (counts_attributes counts (startElement ''OverallResults'' (xr_xml r))))" using assms by auto
  then obtain w1 where w1: "endElement (duration_attribute (sb_config (xr_base r)) env
      (counts_attributes counts (startElement ''OverallResults'' (xr_xml r)))) = Some w1" "at_tags (ts @ [name]) w1"
    using endElement_at by blast
  obtain w2 where "endElement w1 = Some w2" "at_tags ts w2" using endElement_at [OF w1(2)] by blast
  then show ?thesis using True w1(1) by (simp add: xml_sectionEnded_def Let_def)
next
  case False
  then show ?thesis using assms by (simp add: xml_sectionEnded_def Let_def)
qed

lemma xml_ok_at: "xml_ok p r \<longleftrightarrow> stack_ok p (xr_base r) \<and> at_tags (phase_tags p) (xr_xml r) \<and> xr_sectionDepth r = int (depth p)"
  by (auto simp: xml_ok_def at_tags_def)

lemma replicate_snoc: "replicate (Suc n) x = replicate n x @ [x]"
  by (simp add: replicate_append_same)

lemma ex_Not [simp]: "Ex Not"
  by blast

lemma xml_reporter_ok:
  assumes r: "xml_ok p r" and e: "phase_step e p = Some q"
  shows "\<exists>c r'. xml_reporter env e r = Some (c, r') \<and> xml_ok q r'"
proof -
  have ok: "stack_ok p (xr_base r)" "at_tags (phase_tags p) (xr_xml r)" "xr_sectionDepth r = int (depth p)"
    using r by (simp_all add: xml_ok_at)
  obtain b where b: "streaming_base e (xr_base r) = Some b" "stack_ok q b" using streaming_base_ok [OF ok(1) e] by blast
  show ?thesis
  proof (cases "(e, p)" rule: phase_step.cases)
    case (1 name)
    have "at_tags ([] @ [''Catch'']) (startElement ''Catch'' (xr_xml r))" using ok(2) 1 by (intro at_tags_intros) simp
    then show ?thesis using 1 e ok b by (auto simp: xml_reporter_def xml_ok_at xml_testRunStarting_def Let_def)
  next
    case (2 name index groups)
    have "at_tags ([''Catch''] @ [''Group'']) (startElement ''Group'' (xr_xml r))" using ok(2) 2 by (intro at_tags_intros) simp
    then show ?thesis using 2 e ok b by (auto simp: xml_reporter_def xml_ok_at)
  next
    case (3 tc)
    have "at_tags ([''Catch'', ''Group''] @ [''TestCase'']) (xml_testCaseStarting tc (xr_xml r))"
      unfolding xml_testCaseStarting_def using ok(2) 3 at_tags_two [of "[''Catch'']" "''Group''"] by simp
    then show ?thesis using 3 e ok b by (auto simp: xml_reporter_def xml_ok_at)
  next
    case (4 info)
    then show ?thesis using e ok b by (auto simp: xml_reporter_def xml_ok_at xml_sectionStarting_def Let_def)
  next
    case (5 info n)
    show ?thesis
    proof (cases n)
      case 0
      then show ?thesis using 5 e ok b by (auto simp: xml_reporter_def xml_ok_at xml_sectionStarting_def Let_def)
    next
      case (Suc k)
      have "at_tags (phase_tags (InCase n) @ [''Section'']) (ensureTagClosed (writeSourceInfo (si_lineInfo info)
          (writeAttribute ''description'' (si_description info) (writeAttribute ''name'' (trim (si_name info))
            (startElement ''Section'' (xr_xml r))))))"
        using ok(2) 5 by (intro at_tags_intros(2)) (simp add: at_tags_intros(3) del: phase_tags.simps)
      then show ?thesis using 5 e ok b Suc
        by (auto simp: xml_reporter_def xml_ok_at xml_sectionStarting_def Let_def replicate_append_same)
    qed
  next
    case (6 result messages totals n)
    obtain w where "xml_assertionEnded (sb_config b) (fst (AssertionStats_new (re_globalCount env) result messages totals)) (xr_xml r) = Some w"
        "at_tags (phase_tags p) w" using xml_assertionEnded_at [OF ok(2)] by blast
    then show ?thesis using 6 e ok b by (auto simp: xml_reporter_def xml_ok_at)
  next
    case (7 info counts missing n)
    define r1 where "r1 = r\<lparr>xr_base := b\<rparr>"
    have "at_tags (if 1 < xr_sectionDepth r1 then phase_tags q @ [''Section''] else phase_tags q) (xr_xml r1)"
      using ok 7 e by (cases n) (auto simp: r1_def replicate_append_same)
    from xml_sectionEnded_at [OF this, of env counts]
    show ?thesis using 7 e ok b by (auto simp: xml_reporter_def xml_ok_at r1_def)
  next
    case (8 tc totals aborted)
    have "at_tags ([''Catch'', ''Group''] @ [''TestCase'']) (xr_xml r)" using ok(2) 8 by simp
    from xml_testCaseEnded_at [OF this, of "sb_config b" env totals]
    show ?thesis using 8 e ok b by (auto simp: xml_reporter_def xml_ok_at)
  next
    case (9 tc)
    then show ?thesis using e ok b by (auto simp: xml_reporter_def xml_ok_at)
  next
    case (10 name totals aborted)
    have "at_tags ([''Catch''] @ [''Group'']) (xr_xml r)" using ok(2) 10 by simp
    from xml_totals_at [OF this, of totals]
    show ?thesis using 10 e ok b by (auto simp: xml_reporter_def xml_ok_at)
  next
    case (11 totals aborted)
    have "at_tags ([] @ [''Catch'']) (xr_xml r)" using ok(2) 11 by simp
    from xml_totals_at [OF this, of totals]
    show ?thesis using 11 e ok b by (auto simp: xml_reporter_def xml_ok_at)
  qed (use e in simp_all)
qed

interpretation xr: reporter_contract xml_reporter xml_ok any_event
  by unfold_locales (rule xml_reporter_ok)

interpretation mr: reporter_contract "reporter_call xml_reporter" "\<lambda>p. multi_inv (xml_ok p)" any_event
  by unfold_locales (rule xr.reporter_call_ok)

lemma XmlReporter_new_ok: "xml_ok Outside (XmlReporter_new g out)"
  using xml_new_ok [of out] by (simp add: xml_ok_def XmlReporter_new_def StreamingReporterBase_new_def stack_ok_def)

subsection \<open>The calls of a run\<close>

fun is_assertion :: "event \<Rightarrow> bool" where
  "is_assertion (AssertionEnded _ _ _) = True"
| "is_assertion _ = False"

text \<open>A body that only makes assertions\<close>

definition asserting_body :: "test_body \<Rightarrow> bool" where
  "asserting_body invoke \<longleftrightarrow> plain_body invoke \<and>
     (\<forall>r. \<exists>es. rc_events (fst (invoke r)) = rc_events r @ es \<and> list_all is_assertion es)"

definition follows :: "RunContext \<Rightarrow> phase \<Rightarrow> bool" where
  "follows r p \<longleftrightarrow> phase_steps (rc_events r) Outside = Some p"

lemma phase_assertions: "list_all is_assertion es \<Longrightarrow> phase_steps es (InCase (Suc n)) = Some (InCase (Suc n))"
proof (induction es)
  case (Cons e es)
  then show ?case by (cases e) auto
qed simp

lemma follows_append:
  "follows r p \<Longrightarrow> rc_events r' = rc_events r @ es \<Longrightarrow> phase_steps es p = Some q \<Longrightarrow> follows r' q"
  by (simp add: follows_def phase_steps_append)

lemma verdicts_assertions: "list_all is_assertion es \<Longrightarrow> verdicts es = []"
proof (induction es)
  case (Cons e es)
  then show ?case by (cases e) auto
qed simp

lemma asserting_quiet: "asserting_body invoke \<Longrightarrow> quiet_body invoke"
  unfolding asserting_body_def quiet_body_def using verdicts_assertions by (metis append_Nil2 verdicts_append)

lemma assertionEnded_events: "\<exists>x. rc_events (assertionEnded result r) = rc_events r @ [x] \<and> is_assertion x"
  by (simp add: assertionEnded_def Let_def)

lemma run_body_events:
  assumes "asserting_body invoke" "run_body invoke r = Some r'"
  shows "\<exists>es. rc_events r' = rc_events r @ es \<and> list_all is_assertion es"
proof -
  obtain r1 x where i: "invoke r = (r1, x)" by (cases "invoke r")
  obtain es where es: "rc_events r1 = rc_events r @ es" "list_all is_assertion es"
    using assms(1) i unfolding asserting_body_def by (metis fst_conv)
  show ?thesis
  proof (cases x)
    case (OtherException msg)
    show ?thesis
    proof (cases "rc_shouldReportUnexpected r1")
      case True
      then obtain result where "r' = assertionEnded result r1"
        using assms(2) i OtherException by (auto simp: run_body_def useActiveException_def captureResult_def
            captureExpression_def Let_def handleResult_def split: if_splits)
      then show ?thesis using es assertionEnded_events [of result r1] by auto
    qed (use assms(2) i OtherException es in \<open>auto simp: run_body_def\<close>)
  qed (use assms(2) i es in \<open>auto simp: run_body_def\<close>)
qed

lemma run_tests_loop_follows:
  "run_tests_loop here bodies spec tcs totals r = returns (totals', r') \<Longrightarrow>
   \<forall>tc \<in> set tcs. asserting_body (bodies tc) \<Longrightarrow> rc_unfinishedSections r = [] \<Longrightarrow>
   cfg_sectionsToRun (config_data (rc_config r)) = [] \<Longrightarrow> rc_generators r = [] \<Longrightarrow>
   follows r InGroup \<Longrightarrow> follows r' InGroup"
proof (induction tcs arbitrary: r totals)
  case (Cons tc tcs)
  obtain m where m: "matchTest tc spec (allowThrows (rc_config r)) = Some m"
    using Cons.prems(1) by (auto split: option.splits)
  show ?case
  proof (cases "\<not> aborting r \<and> m")
    case False
    have "follows (report (SkipTest tc) r) InGroup" using Cons.prems(6) by (rule follows_append [where es = "[SkipTest tc]"]) simp_all
    with False show ?thesis using Cons.IH [of totals "report (SkipTest tc) r"] Cons.prems m by (auto simp: report_def)
  next
    case True
    have p: "asserting_body (bodies tc)" "plain_body (bodies tc)" using Cons.prems(2) by (simp_all add: asserting_body_def)
    obtain delta r0 r1 where r1: "runTest here (bodies tc) tc r = returns (delta, r1)"
        "ran_once (bodies tc) tc (report (TestCaseStarting tc) r) r0"
        "rc_events r1 = rc_events r0 @ [TestCaseEnded tc delta (aborting r1)]"
        "rc_unfinishedSections r1 = []" "rc_config r1 = rc_config r" "rc_generators r1 = rc_generators r"
      using runTest_ok [OF p(2) Cons.prems(3,4), of tc here] Cons.prems(5) by auto
    from r1(2) obtain a b counts missing where ab:
      "rc_events a = rc_events (report (TestCaseStarting tc) r) @ [SectionStarting (testCase_section tc)]"
      "run_body (bodies tc) a = Some b" "rc_events r0 = rc_events b @ [SectionEnded (testCase_section tc) counts missing]"
      by (rule ran_once_unfold)
    obtain es where es: "rc_events b = rc_events a @ es" "list_all is_assertion es" using run_body_events [OF p(1) ab(2)] by blast
    have "follows r1 InGroup"
    proof (rule follows_append [OF Cons.prems(6)])
      show "rc_events r1 = rc_events r @ ([TestCaseStarting tc, SectionStarting (testCase_section tc)] @ es @
          [SectionEnded (testCase_section tc) counts missing, TestCaseEnded tc delta (aborting r1)])"
        using r1(3) ab es(1) by simp
      show "phase_steps ([TestCaseStarting tc, SectionStarting (testCase_section tc)] @ es @
          [SectionEnded (testCase_section tc) counts missing, TestCaseEnded tc delta (aborting r1)]) InGroup = Some InGroup"
        using phase_assertions [OF es(2), of 0] by (simp add: phase_steps_append)
    qed
    then show ?thesis using Cons.IH [of "Totals_plus totals delta" r1] Cons.prems r1 m True by auto
  qed
qed simp

lemma runTests_follows:
  assumes c: "Config_new reg c = Some g" and s: "cfg_sectionsToRun c = []"
    and run: "runTests here disposition bodies reg shuffle registered g registry = Some (Inr (totals, r), registry')"
    and tests: "rg_sortedFunctions registry = []" "\<And>ts. mset (shuffle ts) = mset ts"
    and b: "\<forall>tc \<in> set (rg_functions registry). asserting_body (bodies tc)"
  shows "phase_steps (rc_events r) Outside = Some Outside"
proof -
  define r0 where "r0 = testGroupStarting (config_name g) 1 1 (RunContext_new disposition g)"
  have g: "config_data g = c" by (rule Config_new_ok(1) [OF c])
  from run obtain spec tcs registry1 r1 where x: "getAllTestsSorted shuffle (cfg_runOrder c) registry = (Inr tcs, registry1)"
      "run_tests_loop here bodies spec tcs Totals_zero r0 = returns (totals, r1)"
      "r = RunContext_destroy (testGroupEnded (config_name g) totals r1)"
    unfolding runTests_def g r0_def [symmetric] Let_def by (auto split: sum.splits option.splits prod.splits tracker_error.splits)
  have "set tcs = set (rg_functions registry)"
  proof -
    have sh: "mset (shuffle (rg_functions registry)) = mset (rg_functions registry)" by (rule tests(2))
    have "tcs = sortTests shuffle (cfg_runOrder c) (rg_functions registry)"
      using x(1) tests(1) by (auto simp: getAllTestsSorted_def Let_def split: sum.splits if_splits)
    then show ?thesis
      using sortTests_ok(1) [where shuffle = shuffle and order = "cfg_runOrder c" and tcs = "rg_functions registry", OF sh]
      by (metis set_mset_mset)
  qed
  moreover have r0: "rc_config r0 = g" "rc_unfinishedSections r0 = []" "rc_generators r0 = []" "follows r0 InGroup"
    by (simp_all add: r0_def testGroupStarting_def RunContext_new_def report_def follows_def)
  ultimately have "follows r1 InGroup" using run_tests_loop_follows [OF x(2)] s g b by simp
  moreover have "rc_events r = rc_events r1 @ [TestGroupEnded (config_name g) totals (aborting r1),
      TestRunEnded (rc_totals r1) (aborting r1)]"
    by (simp add: x(3) RunContext_destroy_def testGroupEnded_def aborting_def abortAfter_def report_def)
  ultimately show ?thesis by (simp add: follows_def phase_steps_append)
qed

lemma sample_body_asserting: "asserting_body sample_body"
proof -
  have "\<exists>es. rc_events (assertionEnded result r) = rc_events r @ es \<and> list_all is_assertion es" for result r
    using assertionEnded_events [of result r] by auto
  then show ?thesis by (simp add: asserting_body_def plain_body_def sample_body_def assertionEnded_frame)
qed

end
