(* ===== verification/Catch_Reporter_Compact.thy ===== *)
theory Catch_Reporter_Compact
  imports Catch_Reporter
begin

text \<open>
  The reporter that writes one line for each result (\<open>src/lib/catch.hpp\<close>, the part
  \<open>catch_reporter_compact.hpp\<close>).  The messages that the iterator of the printer has not passed
  yet are a list.  The loop over them may not end, and is a partial function.
\<close>

definition compact_noMatchingTestCases :: "string \<Rightarrow> StreamingReporterBase \<Rightarrow> StreamingReporterBase" where
  "compact_noMatchingTestCases spec b =
     print (''No test cases matched '' @ [CHR 0x27] @ spec @ [CHR 0x27, CHR 0x0A]) b"

definition failedString :: string where "failedString = ''failed''"
definition passedString :: string where "passedString = ''passed''"

definition compact_resultType :: "string \<Rightarrow> string" where
  "compact_resultType passOrFail = (if passOrFail \<noteq> [] then '' '' @ passOrFail @ '':'' else [])"

definition printIssue :: "string \<Rightarrow> string" where
  "printIssue issue = '' '' @ issue"

definition compact_originalExpression :: "AssertionResult \<Rightarrow> string" where
  "compact_originalExpression result = (if hasExpression result then '' '' @ getExpression result else [])"

definition printExpressionWas :: "AssertionResult \<Rightarrow> string" where
  "printExpressionWas result =
     (if hasExpression result then '';'' @ '' expression was:'' @ compact_originalExpression result else [])"

definition compact_reconstructedExpression :: "AssertionResult \<Rightarrow> string" where
  "compact_reconstructedExpression result =
     (if fst (hasExpandedExpression result) then '' for: '' @ fst (getExpandedExpression result) else [])"

definition quote_message :: "MessageInfo \<Rightarrow> string" where
  "quote_message m = '' '' @ [CHR 0x27] @ mi_message m @ [CHR 0x27]"

text \<open>\<open>printMessage\<close> and what is left of the messages\<close>

definition compact_message :: "MessageInfo list \<Rightarrow> string \<times> MessageInfo list" where
  "compact_message ms = (case ms of [] \<Rightarrow> ([], []) | m # ms \<Rightarrow> (quote_message m, ms))"

text \<open>The iterator moves on only past a message that is printed.\<close>

partial_function (option) message_loop :: "bool \<Rightarrow> MessageInfo list \<Rightarrow> string option" where
  "message_loop printInfoMessages ms =
     (case ms of
        [] \<Rightarrow> Some []
      | m # rest \<Rightarrow>
          if printInfoMessages \<or> mi_type m \<noteq> Info
          then do { t \<leftarrow> message_loop printInfoMessages rest;
                    Some (quote_message m @ (if rest \<noteq> [] then '' and'' else []) @ t) }
          else message_loop printInfoMessages ms)"

declare message_loop.simps [code]

definition printRemainingMessages :: "bool \<Rightarrow> MessageInfo list \<Rightarrow> string option" where
  "printRemainingMessages printInfoMessages ms =
     (if ms = [] then Some []
      else map_option (\<lambda>t. '' with '' @ show_pluralise \<lparr>pl_count = length ms, pl_label = ''message''\<rparr> @ '':'' @ t)
             (message_loop printInfoMessages ms))"

definition compact_assertion :: "AssertionStats \<Rightarrow> bool \<Rightarrow> string option" where
  "compact_assertion stats printInfoMessages =
     (let result = as_result stats; ms = as_infoMessages stats; (m, rest) = compact_message ms
      in map_option (\<lambda>t. show_source (lineInfo (m_info result)) @ '':'' @ t)
         (case getResultType result of
            Ok \<Rightarrow> map_option (\<lambda>t. compact_resultType passedString @ compact_originalExpression result @
                   compact_reconstructedExpression result @ t) (printRemainingMessages printInfoMessages ms)
          | ExpressionFailed \<Rightarrow> map_option (\<lambda>t.
                   compact_resultType (if result_isOk result then failedString @ '' - but was ok'' else failedString) @
                   compact_originalExpression result @ compact_reconstructedExpression result @ t)
                 (printRemainingMessages printInfoMessages ms)
          | ThrewException \<Rightarrow> map_option (\<lambda>t. compact_resultType failedString @
                   printIssue ''unexpected exception with message:'' @ m @ printExpressionWas result @ t)
                 (printRemainingMessages printInfoMessages rest)
          | FatalErrorCondition \<Rightarrow> map_option (\<lambda>t. compact_resultType failedString @
                   printIssue ''fatal error condition with message:'' @ m @ printExpressionWas result @ t)
                 (printRemainingMessages printInfoMessages rest)
          | DidntThrowException \<Rightarrow> map_option (\<lambda>t. compact_resultType failedString @
                   printIssue ''expected exception, got none'' @ printExpressionWas result @ t)
                 (printRemainingMessages printInfoMessages ms)
          | Info \<Rightarrow> map_option (\<lambda>t. compact_resultType ''info'' @ m @ t) (printRemainingMessages printInfoMessages rest)
          | Warning \<Rightarrow> map_option (\<lambda>t. compact_resultType ''warning'' @ m @ t)
                 (printRemainingMessages printInfoMessages rest)
          | ExplicitFailure \<Rightarrow> map_option (\<lambda>t. compact_resultType failedString @ printIssue ''explicitly'' @ t)
                 (printRemainingMessages printInfoMessages ms)
          | _ \<Rightarrow> Some (compact_resultType ''** internal error **'')))"

definition compact_assertionEnded :: "AssertionStats \<Rightarrow> StreamingReporterBase \<Rightarrow> (bool \<times> StreamingReporterBase) option" where
  "compact_assertionEnded stats b =
     (let result = as_result stats; quiet = (\<not> includeSuccessfulResults (sb_config b) \<and> result_isOk result)
      in if quiet \<and> getResultType result \<noteq> Warning then Some (False, b)
         else map_option (\<lambda>t. (True, print (t @ [CHR 0x0A]) b)) (compact_assertion stats (\<not> quiet)))"

definition bothOrAll :: "size_t \<Rightarrow> string" where
  "bothOrAll count = (if count = 1 then [] else if count = 2 then ''both '' else ''all '')"

definition plural :: "size_t \<Rightarrow> string \<Rightarrow> string" where
  "plural count label = show_pluralise \<lparr>pl_count = unat count, pl_label = label\<rparr>"

definition compact_totals :: "Totals \<Rightarrow> string" where
  "compact_totals totals =
     (let t = testCases totals; a = assertions totals
      in if Counts_total t = 0 then ''No tests ran.''
         else if failed t = Counts_total t
         then ''Failed '' @ bothOrAll (failed t) @ plural (failed t) ''test case'' @ '', '' @
              ''failed '' @ (if failed a = Counts_total a then bothOrAll (failed a) else []) @
              plural (failed a) ''assertion'' @ ''.''
         else if Counts_total a = 0
         then ''Passed '' @ bothOrAll (Counts_total t) @ plural (Counts_total t) ''test case'' @ '' (no assertions).''
         else if failed a \<noteq> 0
         then ''Failed '' @ plural (failed t) ''test case'' @ '', '' @ ''failed '' @ plural (failed a) ''assertion'' @ ''.''
         else ''Passed '' @ bothOrAll (passed t) @ plural (passed t) ''test case'' @
              '' with '' @ plural (passed a) ''assertion'' @ ''.'')"

text \<open>\<open>sectionEnded\<close> does not call the base class, which would pop the stack of sections.\<close>

definition compact_reporter :: "StreamingReporterBase reporter_op" where
  "compact_reporter env e b =
     (case e of
        AssertionEnded result messages totals \<Rightarrow>
          compact_assertionEnded (fst (AssertionStats_new (re_globalCount env) result messages totals)) b
      | SectionEnded info counts missing \<Rightarrow>
          Some (False, if showDurations (sb_config b) = Always
                       then print (re_seconds env @ '' s: '' @ si_name info @ [CHR 0x0A]) b else b)
      | TestRunEnded totals aborted \<Rightarrow>
          map_option (Pair False) (streaming_base e (print (compact_totals totals @ [CHR 0x0A, CHR 0x0A]) b))
      | _ \<Rightarrow> map_option (Pair False) (streaming_base e b))"

end
