(* ===== verification/Catch_Reporter_Junit.thy ===== *)
theory Catch_Reporter_Junit
  imports Catch_Reporter_Xml
begin

text \<open>
  The base class of the reporters that collect the whole run before they write, and the JUnit
  reporter (\<open>src/lib/catch.hpp\<close>, the parts \<open>catch_reporter_bases.hpp\<close> and
  \<open>catch_reporter_junit.hpp\<close>).  The shared section nodes lie in a store; a pointer to one is
  its index.  A failed \<open>assert\<close> and a null pointer are \<open>None\<close>.
\<close>

record SectionStats =
  st_sectionInfo :: SectionInfo
  st_assertions :: Counts
  st_durationInSeconds :: string
  st_missingAssertions :: bool

record SectionNode =
  sn_stats :: SectionStats
  sn_childSections :: "nat list"
  sn_assertions :: "AssertionStats list"
  sn_stdOut :: string
  sn_stdErr :: string

definition SectionNode_new :: "SectionStats \<Rightarrow> SectionNode" where
  "SectionNode_new stats =
     \<lparr>sn_stats = stats, sn_childSections = [], sn_assertions = [], sn_stdOut = [], sn_stdErr = []\<rparr>"

text \<open>The text of a duration of 0\<close>

definition incomplete_stats :: "SectionInfo \<Rightarrow> SectionStats" where
  "incomplete_stats info =
     \<lparr>st_sectionInfo = info, st_assertions = Counts_zero, st_durationInSeconds = ''0.0'',
      st_missingAssertions = False\<rparr>"

record TestCaseNode =
  tn_testInfo :: TestCase
  tn_totals :: Totals
  tn_children :: "nat option list"

record TestGroupNode =
  gn_name :: string
  gn_totals :: Totals
  gn_children :: "TestCaseNode list"

record CumulativeReporterBase =
  cb_config :: Config
  cb_nodes :: "SectionNode list"
  cb_testCases :: "TestCaseNode list"
  cb_testGroups :: "TestGroupNode list"
  cb_testRuns :: "TestGroupNode list list"
  cb_rootSection :: "nat option"
  cb_deepestSection :: "nat option"
  cb_sectionStack :: "nat list"

definition CumulativeReporterBase_new :: "Config \<Rightarrow> CumulativeReporterBase" where
  "CumulativeReporterBase_new g =
     \<lparr>cb_config = g, cb_nodes = [], cb_testCases = [], cb_testGroups = [], cb_testRuns = [],
      cb_rootSection = None, cb_deepestSection = None, cb_sectionStack = []\<rparr>"

definition update_node :: "nat \<Rightarrow> (SectionNode \<Rightarrow> SectionNode) \<Rightarrow> CumulativeReporterBase \<Rightarrow> CumulativeReporterBase" where
  "update_node i f b = b\<lparr>cb_nodes := (cb_nodes b)[i := f (cb_nodes b ! i)]\<rparr>"

definition new_node :: "SectionInfo \<Rightarrow> CumulativeReporterBase \<Rightarrow> nat \<times> CumulativeReporterBase" where
  "new_node info b =
     (length (cb_nodes b), b\<lparr>cb_nodes := cb_nodes b @ [SectionNode_new (incomplete_stats info)]\<rparr>)"

text \<open>Sections are the same when they start on the same line.\<close>

definition find_child_section :: "SectionInfo \<Rightarrow> nat \<Rightarrow> CumulativeReporterBase \<Rightarrow> nat option" where
  "find_child_section info parent b =
     find (\<lambda>i. source_eq (si_lineInfo (st_sectionInfo (sn_stats (cb_nodes b ! i)))) (si_lineInfo info))
       (sn_childSections (cb_nodes b ! parent))"

definition cumulative_sectionStarting :: "SectionInfo \<Rightarrow> CumulativeReporterBase \<Rightarrow> CumulativeReporterBase" where
  "cumulative_sectionStarting info b =
     (let (node, b) =
        (if cb_sectionStack b = []
         then (case cb_rootSection b of
                 Some root \<Rightarrow> (root, b)
               | None \<Rightarrow> let (node, b) = new_node info b in (node, b\<lparr>cb_rootSection := Some node\<rparr>))
         else let parent = last (cb_sectionStack b)
              in (case find_child_section info parent b of
                    Some node \<Rightarrow> (node, b)
                  | None \<Rightarrow>
                      let (node, b) = new_node info b
                      in (node, update_node parent (\<lambda>p. p\<lparr>sn_childSections := sn_childSections p @ [node]\<rparr>) b)))
      in b\<lparr>cb_sectionStack := cb_sectionStack b @ [node], cb_deepestSection := Some node\<rparr>)"

definition prepareExpandedExpression :: "AssertionResult \<Rightarrow> AssertionResult" where
  "prepareExpandedExpression result =
     (if result_isOk result then discardDecomposedExpression result else expandDecomposedExpression result)"

definition cumulative_assertionEnded :: "AssertionStats \<Rightarrow> CumulativeReporterBase \<Rightarrow> CumulativeReporterBase option" where
  "cumulative_assertionEnded stats b =
     (if cb_sectionStack b = [] then None
      else Some (update_node (last (cb_sectionStack b)) (\<lambda>n. n\<lparr>sn_assertions := sn_assertions n @
             [stats\<lparr>as_result := prepareExpandedExpression (as_result stats)\<rparr>]\<rparr>) b))"

definition cumulative_sectionEnded :: "SectionStats \<Rightarrow> CumulativeReporterBase \<Rightarrow> CumulativeReporterBase option" where
  "cumulative_sectionEnded stats b =
     (if cb_sectionStack b = [] then None
      else let b = update_node (last (cb_sectionStack b)) (\<lambda>n. n\<lparr>sn_stats := stats\<rparr>) b
           in Some (b\<lparr>cb_sectionStack := butlast (cb_sectionStack b)\<rparr>))"

definition cumulative_testCaseEnded ::
  "report_env \<Rightarrow> TestCase \<Rightarrow> Totals \<Rightarrow> CumulativeReporterBase \<Rightarrow> CumulativeReporterBase option"
where
  "cumulative_testCaseEnded env tc totals b =
     (if cb_sectionStack b \<noteq> [] then None
      else let b = b\<lparr>cb_testCases := cb_testCases b @
                       [\<lparr>tn_testInfo = tc, tn_totals = totals, tn_children = [cb_rootSection b]\<rparr>],
                     cb_rootSection := None\<rparr>
           in (case cb_deepestSection b of
                 None \<Rightarrow> None
               | Some i \<Rightarrow> Some (update_node i (\<lambda>n. n\<lparr>sn_stdOut := re_stdOut env, sn_stdErr := re_stdErr env\<rparr>) b)))"

definition cumulative_testGroupEnded :: "string \<Rightarrow> Totals \<Rightarrow> CumulativeReporterBase \<Rightarrow> CumulativeReporterBase" where
  "cumulative_testGroupEnded name totals b =
     b\<lparr>cb_testGroups := cb_testGroups b @ [\<lparr>gn_name = name, gn_totals = totals, gn_children = cb_testCases b\<rparr>],
       cb_testCases := []\<rparr>"

definition cumulative_testRunEnded :: "CumulativeReporterBase \<Rightarrow> CumulativeReporterBase" where
  "cumulative_testRunEnded b = b\<lparr>cb_testRuns := cb_testRuns b @ [cb_testGroups b], cb_testGroups := []\<rparr>"

subsection \<open>The JUnit reporter\<close>

record JunitReporter =
  jr_base :: CumulativeReporterBase
  jr_xml :: XmlWriter
  jr_stdOutForSuite :: string
  jr_stdErrForSuite :: string
  jr_unexpectedExceptions :: u32
  jr_okToFail :: bool

text \<open>The counter of unexpected exceptions is not initialised; \<open>junk\<close> is what it holds.\<close>

definition JunitReporter_new :: "u32 \<Rightarrow> Config \<Rightarrow> string \<Rightarrow> JunitReporter" where
  "JunitReporter_new junk g out =
     \<lparr>jr_base = CumulativeReporterBase_new g, jr_xml = XmlWriter_new out, jr_stdOutForSuite = [],
      jr_stdErrForSuite = [], jr_unexpectedExceptions = junk, jr_okToFail = False\<rparr>"

definition junit_elementName :: "ResultWas \<Rightarrow> string" where
  "junit_elementName t =
     (case t of
        ThrewException \<Rightarrow> ''error''
      | FatalErrorCondition \<Rightarrow> ''error''
      | ExplicitFailure \<Rightarrow> ''failure''
      | ExpressionFailed \<Rightarrow> ''failure''
      | DidntThrowException \<Rightarrow> ''failure''
      | _ \<Rightarrow> ''internalError'')"

definition junit_text :: "AssertionStats \<Rightarrow> string" where
  "junit_text stats =
     (let result = as_result stats
      in (if getMessage result \<noteq> [] then getMessage result @ [CHR 0x0A] else []) @
         concat (map (\<lambda>m. if mi_type m = Info then mi_message m @ [CHR 0x0A] else []) (as_infoMessages stats)) @
         ''at '' @ show_source (lineInfo (m_info result)))"

definition writeAssertion :: "AssertionStats \<Rightarrow> XmlWriter \<Rightarrow> XmlWriter option" where
  "writeAssertion stats w =
     (let result = as_result stats
      in if result_isOk result then Some w
         else endElement (writeText (junit_text stats) False
                (writeAttribute ''type'' (macroName (m_info result))
                  (writeAttribute ''message'' (fst (getExpandedExpression result))
                    (startElement (junit_elementName (getResultType result)) w)))))"

fun writeAssertions :: "AssertionStats list \<Rightarrow> XmlWriter \<Rightarrow> XmlWriter option" where
  "writeAssertions [] w = Some w"
| "writeAssertions (a # as) w = do { w \<leftarrow> writeAssertion a w; writeAssertions as w }"

text \<open>The element of a section that has assertions or output\<close>

definition write_testcase :: "string \<Rightarrow> string \<Rightarrow> SectionNode \<Rightarrow> XmlWriter \<Rightarrow> XmlWriter option" where
  "write_testcase className name node w =
     (if sn_assertions node = [] \<and> sn_stdOut node = [] \<and> sn_stdErr node = [] then Some w
      else do { let w = startElement ''testcase'' w;
                let w = (if className = []
                         then writeAttribute ''name'' ''root'' (writeAttribute ''classname'' name w)
                         else writeAttribute ''name'' name (writeAttribute ''classname'' className w));
                let w = writeAttribute ''time'' (st_durationInSeconds (sn_stats node)) w;
                w \<leftarrow> writeAssertions (sn_assertions node) w;
                w \<leftarrow> (if sn_stdOut node \<noteq> [] then scoped_text ''system-out'' (trim (sn_stdOut node)) False w
                     else Some w);
                w \<leftarrow> (if sn_stdErr node \<noteq> [] then scoped_text ''system-err'' (trim (sn_stdErr node)) False w
                     else Some w);
                endElement w })"

text \<open>
  \<open>writeSection\<close> with its recursion over the child sections, as a list of the calls that are
  still to be made: those for the children come before those that were waiting already.
\<close>

definition section_calls :: "string \<Rightarrow> string \<Rightarrow> SectionNode \<Rightarrow> (string \<times> string \<times> nat) list" where
  "section_calls className name node =
     map (\<lambda>c. if className = [] then (name, [], c) else (className, name, c)) (sn_childSections node)"

partial_function (option) write_sections ::
  "SectionNode list \<Rightarrow> (string \<times> string \<times> nat) list \<Rightarrow> XmlWriter \<Rightarrow> XmlWriter option"
where
  "write_sections nodes calls w =
     (case calls of
        [] \<Rightarrow> Some w
      | (className, rootName, i) # calls \<Rightarrow>
          if length nodes \<le> i then None
          else let node = nodes ! i;
                   name = trim (si_name (st_sectionInfo (sn_stats node)));
                   name = (if rootName \<noteq> [] then rootName @ ''/'' @ name else name)
               in (case write_testcase className name node w of
                     None \<Rightarrow> None
                   | Some w \<Rightarrow> write_sections nodes (section_calls className name node @ calls) w))"

declare write_sections.simps [code]

definition writeSection :: "SectionNode list \<Rightarrow> string \<Rightarrow> string \<Rightarrow> nat \<Rightarrow> XmlWriter \<Rightarrow> XmlWriter option" where
  "writeSection nodes className rootName i w = write_sections nodes [(className, rootName, i)] w"

definition writeTestCase :: "SectionNode list \<Rightarrow> TestCaseNode \<Rightarrow> XmlWriter \<Rightarrow> XmlWriter option" where
  "writeTestCase nodes tc w =
     (case tn_children tc of
        [Some root] \<Rightarrow>
          if length nodes \<le> root then None
          else let className = tc_className (tn_testInfo tc);
                   className = (if className = [] \<and> sn_childSections (nodes ! root) = [] then ''global''
                                else className)
               in writeSection nodes className [] root w
      | _ \<Rightarrow> None)"

fun writeTestCases :: "SectionNode list \<Rightarrow> TestCaseNode list \<Rightarrow> XmlWriter \<Rightarrow> XmlWriter option" where
  "writeTestCases nodes [] w = Some w"
| "writeTestCases nodes (tc # tcs) w = do { w \<leftarrow> writeTestCase nodes tc w; writeTestCases nodes tcs w }"

text \<open>The number of failures is a subtraction of \<open>size_t\<close> values.\<close>

definition junit_failures :: "Totals \<Rightarrow> u32 \<Rightarrow> size_t" where
  "junit_failures totals unexpected = failed (assertions totals) - ucast unexpected"

definition writeGroup :: "report_env \<Rightarrow> TestGroupNode \<Rightarrow> JunitReporter \<Rightarrow> XmlWriter option" where
  "writeGroup env gnode r =
     do { let totals = gn_totals gnode;
          let w = startElement ''testsuite'' (jr_xml r);
          let w = writeAttribute ''name'' (gn_name gnode) w;
          let w = writeAttribute_nat ''errors'' (unat (jr_unexpectedExceptions r)) w;
          let w = writeAttribute_nat ''failures'' (unat (junit_failures totals (jr_unexpectedExceptions r))) w;
          let w = writeAttribute_nat ''tests'' (unat (Counts_total (assertions totals))) w;
          let w = writeAttribute ''hostname'' ''tbd'' w;
          let w = (if showDurations (cb_config (jr_base r)) = Never then writeAttribute ''time'' [] w
                   else writeAttribute ''time'' (re_seconds env) w);
          let w = writeAttribute ''timestamp'' (re_timestamp env) w;
          w \<leftarrow> writeTestCases (cb_nodes (jr_base r)) (gn_children gnode) w;
          w \<leftarrow> scoped_text ''system-out'' (trim (jr_stdOutForSuite r)) False w;
          w \<leftarrow> scoped_text ''system-err'' (trim (jr_stdErrForSuite r)) False w;
          endElement w }"

definition junit_assertionEnded :: "AssertionStats \<Rightarrow> JunitReporter \<Rightarrow> JunitReporter option" where
  "junit_assertionEnded stats r =
     (let r = (if getResultType (as_result stats) = ThrewException \<and> \<not> jr_okToFail r
               then r\<lparr>jr_unexpectedExceptions := jr_unexpectedExceptions r + 1\<rparr> else r)
      in map_option (\<lambda>b. r\<lparr>jr_base := b\<rparr>) (cumulative_assertionEnded stats (jr_base r)))"

definition junit_testCaseEnded :: "report_env \<Rightarrow> TestCase \<Rightarrow> Totals \<Rightarrow> JunitReporter \<Rightarrow> JunitReporter option" where
  "junit_testCaseEnded env tc totals r =
     (let r = r\<lparr>jr_stdOutForSuite := jr_stdOutForSuite r @ re_stdOut env,
                jr_stdErrForSuite := jr_stdErrForSuite r @ re_stdErr env\<rparr>
      in map_option (\<lambda>b. r\<lparr>jr_base := b\<rparr>) (cumulative_testCaseEnded env tc totals (jr_base r)))"

definition junit_testGroupEnded :: "report_env \<Rightarrow> string \<Rightarrow> Totals \<Rightarrow> JunitReporter \<Rightarrow> JunitReporter option" where
  "junit_testGroupEnded env name totals r =
     (let r = r\<lparr>jr_base := cumulative_testGroupEnded name totals (jr_base r)\<rparr>
      in map_option (\<lambda>w. r\<lparr>jr_xml := w\<rparr>) (writeGroup env (last (cb_testGroups (jr_base r))) r))"

definition junit_testRunEnded :: "JunitReporter \<Rightarrow> JunitReporter option" where
  "junit_testRunEnded r =
     (let r = r\<lparr>jr_base := cumulative_testRunEnded (jr_base r)\<rparr>
      in map_option (\<lambda>w. r\<lparr>jr_xml := w\<rparr>) (endElement (jr_xml r)))"

definition junit_reporter :: "JunitReporter reporter_op" where
  "junit_reporter env e r =
     (case e of
        TestRunStarting name \<Rightarrow> Some (False, r\<lparr>jr_xml := startElement ''testsuites'' (jr_xml r)\<rparr>)
      | TestGroupStarting name index count \<Rightarrow>
          Some (False, r\<lparr>jr_stdOutForSuite := [], jr_stdErrForSuite := [], jr_unexpectedExceptions := 0\<rparr>)
      | TestCaseStarting tc \<Rightarrow> Some (False, r\<lparr>jr_okToFail := okToFail tc\<rparr>)
      | SectionStarting info \<Rightarrow> Some (False, r\<lparr>jr_base := cumulative_sectionStarting info (jr_base r)\<rparr>)
      | AssertionEnded result messages totals \<Rightarrow>
          map_option (Pair True) (junit_assertionEnded
            (fst (AssertionStats_new (re_globalCount env) result messages totals)) r)
      | SectionEnded info counts missing \<Rightarrow>
          map_option (\<lambda>b. (False, r\<lparr>jr_base := b\<rparr>)) (cumulative_sectionEnded
            \<lparr>st_sectionInfo = info, st_assertions = counts, st_durationInSeconds = re_seconds env,
             st_missingAssertions = missing\<rparr> (jr_base r))
      | TestCaseEnded tc totals aborted \<Rightarrow> map_option (Pair False) (junit_testCaseEnded env tc totals r)
      | TestGroupEnded name totals aborted \<Rightarrow> map_option (Pair False) (junit_testGroupEnded env name totals r)
      | TestRunEnded totals aborted \<Rightarrow> map_option (Pair False) (junit_testRunEnded r)
      | SkipTest tc \<Rightarrow> Some (False, r))"

end
