(* ===== verification/Catch_Reporter_Console.thy ===== *)
theory Catch_Reporter_Console
  imports Catch_Reporter Catch_Wrap
begin

text \<open>
  The reporter that writes plain lines of text to the console (\<open>src/lib/catch.hpp\<close>, the part
  \<open>catch_reporter_console.hpp\<close>).  The layout of a long text may fail (\<open>None\<close>).  The colours
  of the output put no characters into it.
\<close>

record ConsoleReporter =
  cr_base :: StreamingReporterBase
  cr_headerPrinted :: bool

definition ConsoleReporter_new :: "Config \<Rightarrow> string \<Rightarrow> ConsoleReporter" where
  "ConsoleReporter_new g out = \<lparr>cr_base = StreamingReporterBase_new g out, cr_headerPrinted = False\<rparr>"

definition newline :: string where
  "newline = [CHR 0x0A]"

definition quoted :: "string \<Rightarrow> string" where
  "quoted s = [CHR 0x27] @ s @ [CHR 0x27]"

definition console_noMatchingTestCases :: "string \<Rightarrow> ConsoleReporter \<Rightarrow> ConsoleReporter" where
  "console_noMatchingTestCases spec r =
     r\<lparr>cr_base := print (''No test cases matched '' @ quoted spec @ newline) (cr_base r)\<rparr>"

subsection \<open>One assertion\<close>

text \<open>What is printed about an assertion: \<open>passOrFail\<close> and \<open>messageLabel\<close>\<close>

definition with_messages :: "string \<Rightarrow> nat \<Rightarrow> string" where
  "with_messages label n = (if n = 1 then label @ ''message'' else if 1 < n then label @ ''messages'' else [])"

definition console_labels :: "AssertionStats \<Rightarrow> string \<times> string" where
  "console_labels stats =
     (let result = as_result stats; n = length (as_infoMessages stats)
      in case getResultType result of
           Ok \<Rightarrow> (''PASSED'', with_messages ''with '' n)
         | ExpressionFailed \<Rightarrow>
             (if result_isOk result then ''FAILED - but was ok'' else ''FAILED'', with_messages ''with '' n)
         | ThrewException \<Rightarrow>
             (''FAILED'', ''due to unexpected exception with '' @
                (if n = 1 then ''message'' else if 1 < n then ''messages'' else []))
         | FatalErrorCondition \<Rightarrow> (''FAILED'', ''due to a fatal error condition'')
         | DidntThrowException \<Rightarrow>
             (''FAILED'', ''because no exception was thrown where one was expected'')
         | Info \<Rightarrow> ([], ''info'')
         | Warning \<Rightarrow> ([], ''warning'')
         | ExplicitFailure \<Rightarrow> (''FAILED'', with_messages ''explicitly with '' n)
         | _ \<Rightarrow> (''** internal error **'', []))"

definition printResultType :: "string \<Rightarrow> string" where
  "printResultType passOrFail = (if passOrFail \<noteq> [] then passOrFail @ '':'' @ newline else [])"

definition printOriginalExpression :: "AssertionResult \<Rightarrow> string" where
  "printOriginalExpression result =
     (if hasExpression result then ''  '' @ getExpressionInMacro result @ newline else [])"

definition printReconstructedExpression :: "AssertionResult \<Rightarrow> string option" where
  "printReconstructedExpression result =
     (if fst (hasExpandedExpression result)
      then map_option (\<lambda>t. ''with expansion:'' @ newline @ show_lines t @ newline)
             (Wrap (fst (getExpandedExpression result)) (wrap_setIndent 2 WrapAttributes_new))
      else Some [])"

fun print_messages :: "bool \<Rightarrow> MessageInfo list \<Rightarrow> string option" where
  "print_messages printInfoMessages [] = Some []"
| "print_messages printInfoMessages (m # ms) =
     do { t \<leftarrow> (if printInfoMessages \<or> mi_type m \<noteq> Info
               then map_option (\<lambda>t. show_lines t @ newline) (Wrap (mi_message m) (wrap_setIndent 2 WrapAttributes_new))
               else Some []);
          ts \<leftarrow> print_messages printInfoMessages ms;
          Some (t @ ts) }"

definition printMessage :: "string \<Rightarrow> bool \<Rightarrow> MessageInfo list \<Rightarrow> string option" where
  "printMessage messageLabel printInfoMessages messages =
     map_option (\<lambda>t. (if messageLabel \<noteq> [] then messageLabel @ '':'' @ newline else []) @ t)
       (print_messages printInfoMessages messages)"

definition console_assertion :: "AssertionStats \<Rightarrow> bool \<Rightarrow> string option" where
  "console_assertion stats printInfoMessages =
     (let result = as_result stats; (passOrFail, messageLabel) = console_labels stats
      in do { t \<leftarrow> (if 0 < Counts_total (assertions (as_totals stats))
                   then map_option (\<lambda>e. (if result_isOk result then newline else []) @ printResultType passOrFail @
                                        printOriginalExpression result @ e)
                          (printReconstructedExpression result)
                   else Some newline);
              m \<leftarrow> printMessage messageLabel printInfoMessages (as_infoMessages stats);
              Some (show_source (lineInfo (m_info result)) @ '': '' @ t @ m) })"

subsection \<open>Headers\<close>

record Version =
  v_majorVersion :: u32
  v_minorVersion :: u32
  v_patchNumber :: u32
  v_branchName :: string
  v_buildNumber :: u32

definition show_version :: "Version \<Rightarrow> string" where
  "show_version v =
     show_nat (unat (v_majorVersion v)) @ ''.'' @ show_nat (unat (v_minorVersion v)) @ ''.'' @
     show_nat (unat (v_patchNumber v)) @
     (if v_branchName v \<noteq> [] then ''-'' @ v_branchName v @ ''.'' @ show_nat (unat (v_buildNumber v)) else [])"

definition libraryVersion :: Version where
  "libraryVersion = \<lparr>v_majorVersion = 1, v_minorVersion = 9, v_patchNumber = 4, v_branchName = [], v_buildNumber = 0\<rparr>"

text \<open>If the string has a colon, further lines are indented to follow it.\<close>

definition printHeaderString :: "string \<Rightarrow> nat \<Rightarrow> string option" where
  "printHeaderString str ind =
     (let i = (case find_from str '': '' 0 of Some i \<Rightarrow> i + 2 | None \<Rightarrow> 0)
      in map_option (\<lambda>t. show_lines t @ newline)
           (Wrap str (wrap_setInitialIndent ind (wrap_setIndent (ind + i) WrapAttributes_new))))"

definition printOpenHeader :: "string \<Rightarrow> string option" where
  "printOpenHeader name =
     map_option (\<lambda>t. getLineOfChars (CHR ''-'') @ newline @ t) (printHeaderString name 0)"

definition printClosedHeader :: "string \<Rightarrow> string option" where
  "printClosedHeader name =
     map_option (\<lambda>t. t @ getLineOfChars (CHR ''.'') @ newline) (printOpenHeader name)"

fun section_headers :: "SectionInfo list \<Rightarrow> string option" where
  "section_headers [] = Some []"
| "section_headers (i # is) = do { t \<leftarrow> printHeaderString (si_name i) 2; ts \<leftarrow> section_headers is; Some (t @ ts) }"

definition printTestCaseAndSectionHeader :: "StreamingReporterBase \<Rightarrow> StreamingReporterBase option" where
  "printTestCaseAndSectionHeader b =
     (if sb_sectionStack b = [] then None
      else do { tc \<leftarrow> ls_value (sb_currentTestCaseInfo b);
                h \<leftarrow> printOpenHeader (tc_name tc);
                s \<leftarrow> section_headers (tl (sb_sectionStack b));
                let i = si_lineInfo (last (sb_sectionStack b));
                Some (print (h @ s @
                       (if \<not> source_empty i then getLineOfChars (CHR ''-'') @ newline @ show_source i @ newline else []) @
                       getLineOfChars (CHR ''.'') @ newline @ newline) b) })"

definition lazyPrintRunInfo :: "StreamingReporterBase \<Rightarrow> StreamingReporterBase option" where
  "lazyPrintRunInfo b =
     (let seed = cfg_rngSeed (config_data (sb_config b))
      in do { name \<leftarrow> ls_value (sb_currentTestRunInfo b);
              Some ((print (newline @ getLineOfChars (CHR ''~'') @ newline @ name @ '' is a Catch v'' @
                       show_version libraryVersion @ '' host application.'' @ newline @
                       ''Run with -? for options'' @ newline @ newline @
                       (if seed \<noteq> 0 then ''Randomness seeded to: '' @ show_nat (unat seed) @ newline @ newline else [])) b)
                    \<lparr>sb_currentTestRunInfo := (sb_currentTestRunInfo b)\<lparr>ls_used := True\<rparr>\<rparr>) })"

definition lazyPrintGroupInfo :: "StreamingReporterBase \<Rightarrow> StreamingReporterBase option" where
  "lazyPrintGroupInfo b =
     do { g \<leftarrow> ls_value (sb_currentGroupInfo b);
          if gr_name g \<noteq> [] \<and> 1 < gr_groupsCounts g
          then do { h \<leftarrow> printClosedHeader (''Group: '' @ gr_name g);
                    Some ((print h b)\<lparr>sb_currentGroupInfo := (sb_currentGroupInfo b)\<lparr>ls_used := True\<rparr>\<rparr>) }
          else Some b }"

definition lazyPrint :: "ConsoleReporter \<Rightarrow> ConsoleReporter option" where
  "lazyPrint r =
     do { b \<leftarrow> (if \<not> ls_used (sb_currentTestRunInfo (cr_base r)) then lazyPrintRunInfo (cr_base r) else Some (cr_base r));
          b \<leftarrow> (if \<not> ls_used (sb_currentGroupInfo b) then lazyPrintGroupInfo b else Some b);
          if \<not> cr_headerPrinted r
          then map_option (\<lambda>b. r\<lparr>cr_base := b, cr_headerPrinted := True\<rparr>) (printTestCaseAndSectionHeader b)
          else Some (r\<lparr>cr_base := b\<rparr>) }"

subsection \<open>Totals\<close>

record SummaryColumn =
  sc_label :: string
  sc_rows :: "string list"

definition SummaryColumn_new :: "string \<Rightarrow> SummaryColumn" where
  "SummaryColumn_new label = \<lparr>sc_label = label, sc_rows = []\<rparr>"

definition pad_left :: "nat \<Rightarrow> string \<Rightarrow> string" where
  "pad_left n s = replicate (n - length s) (CHR '' '') @ s"

text \<open>Each row and the new one are padded to the longer of the two.\<close>

fun pad_rows :: "string list \<Rightarrow> string \<Rightarrow> string list \<times> string" where
  "pad_rows [] row = ([], row)"
| "pad_rows (x # xs) row =
     (let y = pad_left (length row) x; row = pad_left (length y) row; (ys, row) = pad_rows xs row
      in (y # ys, row))"

definition addRow :: "size_t \<Rightarrow> SummaryColumn \<Rightarrow> SummaryColumn" where
  "addRow count c = (let (rows, row) = pad_rows (sc_rows c) (show_nat (unat count)) in c\<lparr>sc_rows := rows @ [row]\<rparr>)"

fun printSummaryRow :: "string \<Rightarrow> SummaryColumn list \<Rightarrow> nat \<Rightarrow> string" where
  "printSummaryRow label [] row = newline"
| "printSummaryRow label (c # cs) row =
     (let value = sc_rows c ! row
      in (if sc_label c = [] then label @ '': '' @ (if value \<noteq> ''0'' then value else ''- none -'')
          else if value \<noteq> ''0'' then '' | '' @ value @ '' '' @ sc_label c else []) @
         printSummaryRow label cs row)"

definition summary_columns :: "Totals \<Rightarrow> SummaryColumn list" where
  "summary_columns totals =
     (let t = testCases totals; a = assertions totals
      in [addRow (Counts_total a) (addRow (Counts_total t) (SummaryColumn_new [])),
          addRow (passed a) (addRow (passed t) (SummaryColumn_new ''passed'')),
          addRow (failed a) (addRow (failed t) (SummaryColumn_new ''failed'')),
          addRow (failedButOk a) (addRow (failedButOk t) (SummaryColumn_new ''failed as expected''))])"

definition console_totals :: "Totals \<Rightarrow> string" where
  "console_totals totals =
     (if Counts_total (testCases totals) = 0 then ''No tests ran'' @ newline
      else if 0 < Counts_total (assertions totals) \<and> allPassed (testCases totals)
      then ''All tests passed ('' @
           show_pluralise \<lparr>pl_count = unat (passed (assertions totals)), pl_label = ''assertion''\<rparr> @ '' in '' @
           show_pluralise \<lparr>pl_count = unat (passed (testCases totals)), pl_label = ''test case''\<rparr> @ '')'' @ newline
      else printSummaryRow ''test cases'' (summary_columns totals) 0 @
           printSummaryRow ''assertions'' (summary_columns totals) 1)"

definition makeRatio :: "size_t \<Rightarrow> size_t \<Rightarrow> size_t" where
  "makeRatio number whole =
     (let ratio = (if 0 < whole then word_of_nat consoleWidth * number div whole else 0)
      in if ratio = 0 \<and> 0 < number then 1 else ratio)"

text \<open>\<open>findMax\<close> returns a reference; \<open>f\<close> is what is done to it.\<close>

definition findMax :: "(size_t \<Rightarrow> size_t) \<Rightarrow> size_t \<times> size_t \<times> size_t \<Rightarrow> size_t \<times> size_t \<times> size_t" where
  "findMax f t =
     (case t of (i, j, k) \<Rightarrow>
        if j < i \<and> k < i then (f i, j, k) else if k < j then (i, f j, k) else (i, j, f k))"

definition ratio_sum :: "size_t \<times> size_t \<times> size_t \<Rightarrow> size_t" where
  "ratio_sum t = (case t of (i, j, k) \<Rightarrow> i + j + k)"

partial_function (option) grow_ratios :: "size_t \<times> size_t \<times> size_t \<Rightarrow> (size_t \<times> size_t \<times> size_t) option" where
  "grow_ratios t =
     (if ratio_sum t < word_of_nat (consoleWidth - 1) then grow_ratios (findMax (\<lambda>x. x + 1) t) else Some t)"

partial_function (option) shrink_ratios :: "size_t \<times> size_t \<times> size_t \<Rightarrow> (size_t \<times> size_t \<times> size_t) option" where
  "shrink_ratios t =
     (if word_of_nat (consoleWidth - 1) < ratio_sum t then shrink_ratios (findMax (\<lambda>x. x - 1) t) else Some t)"

declare grow_ratios.simps [code] shrink_ratios.simps [code]

definition totals_divider :: "Totals \<Rightarrow> string option" where
  "totals_divider totals =
     (let t = testCases totals; n = Counts_total t
      in if 0 < n
         then do { t \<leftarrow> grow_ratios (makeRatio (failed t) n, makeRatio (failedButOk t) n, makeRatio (passed t) n);
                   (i, j, k) \<leftarrow> shrink_ratios t;
                   Some (replicate (unat i) (CHR ''='') @ replicate (unat j) (CHR ''='') @
                         replicate (unat k) (CHR ''='') @ newline) }
         else Some (replicate (consoleWidth - 1) (CHR ''='') @ newline))"

definition summary_divider :: string where
  "summary_divider = getLineOfChars (CHR ''-'') @ newline"

subsection \<open>The reporter\<close>

definition console_print :: "string \<Rightarrow> ConsoleReporter \<Rightarrow> ConsoleReporter" where
  "console_print s r = r\<lparr>cr_base := print s (cr_base r)\<rparr>"

definition console_assertionEnded :: "AssertionStats \<Rightarrow> ConsoleReporter \<Rightarrow> (bool \<times> ConsoleReporter) option" where
  "console_assertionEnded stats r =
     (let result = as_result stats;
          includeResults = (includeSuccessfulResults (sb_config (cr_base r)) \<or> \<not> result_isOk result)
      in if \<not> includeResults \<and> getResultType result \<noteq> Warning then Some (False, r)
         else do { r \<leftarrow> lazyPrint r;
                   t \<leftarrow> console_assertion stats includeResults;
                   Some (True, console_print (t @ newline) r) })"

definition console_sectionEnded :: "report_env \<Rightarrow> SectionInfo \<Rightarrow> bool \<Rightarrow> ConsoleReporter \<Rightarrow> ConsoleReporter option" where
  "console_sectionEnded env info missing r =
     do { r \<leftarrow> (if missing
               then map_option (\<lambda>r. console_print (newline @
                      (if 1 < length (sb_sectionStack (cr_base r)) then ''No assertions in section''
                       else ''No assertions in test case'') @ '' '' @ quoted (si_name info) @ newline @ newline) r)
                    (lazyPrint r)
               else Some r);
          let r = (if showDurations (sb_config (cr_base r)) = Always
                   then console_print (re_seconds env @ '' s: '' @ si_name info @ newline) r else r);
          Some (r\<lparr>cr_headerPrinted := False\<rparr>) }"

definition console_testGroupEnded :: "string \<Rightarrow> Totals \<Rightarrow> ConsoleReporter \<Rightarrow> ConsoleReporter" where
  "console_testGroupEnded name totals r =
     (if ls_used (sb_currentGroupInfo (cr_base r))
      then console_print (summary_divider @ ''Summary for group '' @ quoted name @ '':'' @ newline @
             console_totals totals @ newline @ newline) r
      else r)"

definition console_testRunEnded :: "Totals \<Rightarrow> ConsoleReporter \<Rightarrow> ConsoleReporter option" where
  "console_testRunEnded totals r =
     map_option (\<lambda>d. console_print (d @ console_totals totals @ newline) r) (totals_divider totals)"

text \<open>The call of the base class comes last where the reporter prints, and first elsewhere.\<close>

definition console_base :: "event \<Rightarrow> ConsoleReporter \<Rightarrow> ConsoleReporter option" where
  "console_base e r = map_option (\<lambda>b. r\<lparr>cr_base := b\<rparr>) (streaming_base e (cr_base r))"

definition console_reporter :: "ConsoleReporter reporter_op" where
  "console_reporter env e r =
     (case e of
        AssertionEnded result messages totals \<Rightarrow>
          console_assertionEnded (fst (AssertionStats_new (re_globalCount env) result messages totals)) r
      | SectionStarting info \<Rightarrow> map_option (Pair False) (console_base e (r\<lparr>cr_headerPrinted := False\<rparr>))
      | SectionEnded info counts missing \<Rightarrow>
          do { r \<leftarrow> console_sectionEnded env info missing r; r \<leftarrow> console_base e r; Some (False, r) }
      | TestCaseEnded tc totals aborted \<Rightarrow>
          do { r \<leftarrow> console_base e r; Some (False, r\<lparr>cr_headerPrinted := False\<rparr>) }
      | TestGroupEnded name totals aborted \<Rightarrow>
          do { r \<leftarrow> console_base e (console_testGroupEnded name totals r); Some (False, r) }
      | TestRunEnded totals aborted \<Rightarrow>
          do { r \<leftarrow> console_testRunEnded totals r; r \<leftarrow> console_base e r; Some (False, r) }
      | _ \<Rightarrow> map_option (Pair False) (console_base e r))"

end
