(* ===== verification/Catch_Reporter_Correct.thy ===== *)
theory Catch_Reporter_Correct
  imports Catch_Reporter_Protocol Catch_Reporter_Compact Catch_Reporter_Junit Catch_Reporter_Console
begin

text \<open>
  Correctness of the JUnit, console and compact reporters.  The section nodes of the JUnit
  reporter form trees, so that writing them ends; the bar of the console reporter is 79
  characters wide whatever the totals; the compact reporter hangs on exactly the assertions that
  leave an information it does not print; all three fulfil the contract of a reporter.
\<close>

subsection \<open>Messages of the compact reporter\<close>

text \<open>The message that stops the printer: an information that is not to be printed\<close>

definition stuck :: "bool \<Rightarrow> MessageInfo list \<Rightarrow> bool" where
  "stuck printInfoMessages ms \<longleftrightarrow> \<not> printInfoMessages \<and> (\<exists>m \<in> set ms. mi_type m = Info)"

fun join_messages :: "MessageInfo list \<Rightarrow> string" where
  "join_messages [] = []"
| "join_messages [m] = quote_message m"
| "join_messages (m # n # ms) = quote_message m @ '' and'' @ join_messages (n # ms)"

lemma message_loop_stuck:
  assumes "mi_type m = Info"
  shows "message_loop False (m # ms) = None"
proof -
  have "message_loop b l = Some t \<Longrightarrow> \<not> b \<longrightarrow> l = [] \<or> mi_type (hd l) \<noteq> Info" for b l t
    by (rule message_loop.raw_induct [where P = "\<lambda>b l t. \<not> b \<longrightarrow> l = [] \<or> mi_type (hd l) \<noteq> Info"])
      (fastforce split: list.splits if_splits)+
  from this [of False "m # ms"] show ?thesis using assms by (cases "message_loop False (m # ms)") auto
qed

lemma message_loop_ok:
  "message_loop b ms = (if stuck b ms then None else Some (join_messages ms))"
proof (induction ms)
  case Nil
  then show ?case by (subst message_loop.simps) (simp add: stuck_def)
next
  case (Cons m ms)
  show ?case
  proof (cases "b \<or> mi_type m \<noteq> Info")
    case True
    then have "stuck b (m # ms) = stuck b ms" by (auto simp: stuck_def)
    then show ?thesis using True Cons by (subst message_loop.simps) (cases ms; simp)
  next
    case False
    then show ?thesis using message_loop_stuck [of m ms] by (simp add: stuck_def)
  qed
qed

text \<open>The messages that are left when the printer comes to its loop\<close>

definition left_messages :: "AssertionStats \<Rightarrow> MessageInfo list" where
  "left_messages stats =
     (if getResultType (as_result stats) \<in> {ThrewException, FatalErrorCondition, Info, Warning}
      then tl (as_infoMessages stats) else as_infoMessages stats)"

lemma printRemainingMessages_ok: "printRemainingMessages b ms = None \<longleftrightarrow> stuck b ms"
  by (auto simp: printRemainingMessages_def message_loop_ok stuck_def)

lemma compact_assertion_ok:
  assumes "getResultType (as_result stats) \<in> {Ok, ExpressionFailed, ThrewException, FatalErrorCondition, DidntThrowException,
    Info, Warning, ExplicitFailure}"
  shows "compact_assertion stats b = None \<longleftrightarrow> stuck b (left_messages stats)"
  using assms printRemainingMessages_ok
  by (cases "as_infoMessages stats") (auto simp: compact_assertion_def left_messages_def Let_def compact_message_def)

subsection \<open>The bar of the totals\<close>

lemma makeRatio_le:
  assumes "unat n \<le> unat d" "unat d < 2 ^ 57"
  shows "unat (makeRatio n d) \<le> 80"
proof -
  have "unat (80 * n :: size_t) = 80 * unat n"
    using assms by (subst unat_mult_lem [THEN iffD1]) simp_all
  then have "unat (80 * n div d) = 80 * unat n div unat d" by (simp add: unat_div)
  also have "\<dots> \<le> 80 * unat d div unat d" using assms(1) by (intro div_le_mono) simp
  also have "\<dots> \<le> 80" by simp
  finally show ?thesis by (simp add: makeRatio_def consoleWidth_def Let_def)
qed

definition usum :: "size_t \<times> size_t \<times> size_t \<Rightarrow> nat" where
  "usum t = (case t of (i, j, k) \<Rightarrow> unat i + unat j + unat k)"

lemma usum_ratio: "usum t < 2 ^ 64 \<Longrightarrow> unat (ratio_sum t) = usum t"
  by (cases t) (simp add: usum_def ratio_sum_def unat_word_ariths)

lemma findMax_up: "usum t < 2 ^ 63 \<Longrightarrow> usum (findMax (\<lambda>x. x + 1) t) = Suc (usum t)"
  by (cases t) (auto simp: usum_def findMax_def unat_word_ariths)

lemma findMax_down:
  assumes "0 < usum t"
  shows "usum (findMax (\<lambda>x. x - 1) t) = usum t - 1"
proof -
  have down: "unat (x - 1) = unat x - 1" if "0 < unat x" for x :: size_t
    using that unat_sub [of 1 x] by (simp add: word_le_nat_alt)
  show ?thesis using assms down by (cases t) (auto simp: usum_def findMax_def word_less_nat_alt)
qed

lemma grow_ok: "usum t \<le> n \<Longrightarrow> 79 \<le> n \<Longrightarrow> n < 2 ^ 63 \<Longrightarrow> \<exists>t'. grow_ratios t = Some t' \<and> 79 \<le> usum t' \<and> usum t' \<le> n"
proof (induction "79 - usum t" arbitrary: t)
  case 0
  then have "\<not> ratio_sum t < 79" using usum_ratio [of t] by (simp add: word_less_nat_alt)
  then have "grow_ratios t = Some t" by (subst grow_ratios.simps) (simp add: consoleWidth_def)
  then show ?case using 0 by simp
next
  case (Suc m)
  then have lt: "usum t < 79" by simp
  then have "ratio_sum t < 79" using usum_ratio [of t] by (simp add: word_less_nat_alt)
  then have "grow_ratios t = grow_ratios (findMax (\<lambda>x. x + 1) t)"
    by (subst grow_ratios.simps) (simp add: consoleWidth_def)
  then show ?case using Suc.hyps(1) [of "findMax (\<lambda>x. x + 1) t"] Suc.hyps(2) Suc.prems findMax_up [of t] lt by simp
qed

lemma shrink_ok: "79 \<le> usum t \<Longrightarrow> usum t < 2 ^ 63 \<Longrightarrow> \<exists>t'. shrink_ratios t = Some t' \<and> usum t' = 79"
proof (induction "usum t - 79" arbitrary: t)
  case 0
  then have "\<not> 79 < ratio_sum t" using usum_ratio [of t] by (simp add: word_less_nat_alt)
  then have "shrink_ratios t = Some t" by (subst shrink_ratios.simps) (simp add: consoleWidth_def)
  then show ?case using 0 by simp
next
  case (Suc m)
  then have "79 < ratio_sum t" using usum_ratio [of t] by (simp add: word_less_nat_alt)
  then have "shrink_ratios t = shrink_ratios (findMax (\<lambda>x. x - 1) t)"
    by (subst shrink_ratios.simps) (simp add: consoleWidth_def)
  then show ?case using Suc.hyps(1) [of "findMax (\<lambda>x. x - 1) t"] Suc.hyps(2) Suc.prems findMax_down [of t] by simp
qed

lemma totals_divider_ok:
  assumes "unat (passed t) + unat (failed t) + unat (failedButOk t) < 2 ^ 57" "t = testCases totals"
  shows "totals_divider totals = Some (replicate 79 (CHR ''='') @ [CHR 0x0A])"
proof (cases "0 < Counts_total t")
  case True
  have n: "unat (Counts_total t) = unat (passed t) + unat (failed t) + unat (failedButOk t)"
    using assms(1) by (simp add: Counts_total_def unat_word_ariths)
  let ?t = "(makeRatio (failed t) (Counts_total t), makeRatio (failedButOk t) (Counts_total t), makeRatio (passed t) (Counts_total t))"
  have "usum ?t \<le> 240" 
    using makeRatio_le [of "failed t" "Counts_total t"] makeRatio_le [of "failedButOk t" "Counts_total t"]
      makeRatio_le [of "passed t" "Counts_total t"] assms(1) n by (simp add: usum_def)
  from grow_ok [OF this] obtain t1 where t1: "grow_ratios ?t = Some t1" "79 \<le> usum t1" "usum t1 \<le> 240" by auto
  have "usum t1 < 2 ^ 63" using t1(3) by simp
  from shrink_ok [OF t1(2) this] obtain i j k where ijk: "shrink_ratios t1 = Some (i, j, k)" "usum (i, j, k) = 79" by (metis prod_cases3)
  show ?thesis using True assms(2) t1(1) ijk
    by (simp add: totals_divider_def Let_def newline_def replicate_add [symmetric] usum_def)
next
  case False
  then show ?thesis using assms(2) by (simp add: totals_divider_def Let_def consoleWidth_def newline_def)
qed

subsection \<open>The JUnit reporter\<close>

text \<open>A section is made before its children, so the pointers of the store form trees.\<close>

definition nodes_ok :: "SectionNode list \<Rightarrow> bool" where
  "nodes_ok nodes \<longleftrightarrow> (\<forall>i < length nodes. set (sn_childSections (nodes ! i)) \<subseteq> {i<..<length nodes})"

definition in_store :: "SectionNode list \<Rightarrow> nat option \<Rightarrow> bool" where
  "in_store nodes p \<longleftrightarrow> (\<forall>i. p = Some i \<longrightarrow> i < length nodes)"

definition case_ok :: "SectionNode list \<Rightarrow> TestCaseNode \<Rightarrow> bool" where
  "case_ok nodes tc \<longleftrightarrow> (\<exists>i < length nodes. tn_children tc = [Some i])"

primrec in_case :: "phase \<Rightarrow> bool" where
  "in_case Outside = False" | "in_case InRun = False" | "in_case InGroup = False" | "in_case Started = False"
| "in_case (InCase n) = True"

definition cumulative_ok :: "phase \<Rightarrow> CumulativeReporterBase \<Rightarrow> bool" where
  "cumulative_ok p b \<longleftrightarrow> nodes_ok (cb_nodes b) \<and> length (cb_sectionStack b) = depth p \<and>
     (\<forall>i \<in> set (cb_sectionStack b). i < length (cb_nodes b)) \<and>
     in_store (cb_nodes b) (cb_rootSection b) \<and> in_store (cb_nodes b) (cb_deepestSection b) \<and>
     (in_case p \<longrightarrow> cb_rootSection b \<noteq> None \<and> cb_deepestSection b \<noteq> None) \<and>
     list_all (case_ok (cb_nodes b)) (cb_testCases b)"

definition junit_tags :: "phase \<Rightarrow> string list" where
  "junit_tags p = (if p = Outside then [] else [''testsuites''])"

definition junit_ok :: "phase \<Rightarrow> JunitReporter \<Rightarrow> bool" where
  "junit_ok p r \<longleftrightarrow> cumulative_ok p (jr_base r) \<and> at_tags (junit_tags p) (jr_xml r)"

lemma nodes_ok_update:
  assumes "nodes_ok nodes" "\<And>n. set (sn_childSections (f n)) \<subseteq> set (sn_childSections n) \<union> {i<..<length nodes}"
  shows "nodes_ok (nodes[i := f (nodes ! i)])"
  unfolding nodes_ok_def
proof (intro allI impI)
  fix j assume j: "j < length (nodes[i := f (nodes ! i)])"
  have "set (sn_childSections (nodes ! j)) \<subseteq> {j<..<length nodes}" using assms(1) j by (simp add: nodes_ok_def)
  moreover have "set (sn_childSections (f (nodes ! j))) \<subseteq> set (sn_childSections (nodes ! j)) \<union> {i<..<length nodes}"
    by (rule assms(2))
  ultimately show "set (sn_childSections (nodes[i := f (nodes ! i)] ! j)) \<subseteq> {j<..<length (nodes[i := f (nodes ! i)])}"
    using j by (cases "i = j") auto
qed

lemma nodes_ok_snoc:
  assumes "nodes_ok nodes" "sn_childSections n = []"
  shows "nodes_ok (nodes @ [n])"
  unfolding nodes_ok_def
proof (intro allI impI)
  fix j assume j: "j < length (nodes @ [n])"
  show "set (sn_childSections ((nodes @ [n]) ! j)) \<subseteq> {j<..<length (nodes @ [n])}"
  proof (cases "j = length nodes")
    case False
    then have "set (sn_childSections (nodes ! j)) \<subseteq> {j<..<length nodes}" using assms(1) j by (simp add: nodes_ok_def)
    then show ?thesis using False j by (auto simp: nth_append)
  qed (use assms(2) in simp)
qed

lemma nodes_ok_child: "nodes_ok nodes \<Longrightarrow> i < length nodes \<Longrightarrow> c \<in> set (sn_childSections (nodes ! i)) \<Longrightarrow> i < c \<and> c < length nodes"
  unfolding nodes_ok_def by (metis greaterThanLessThan_iff subsetD)

lemma case_ok_mono: "case_ok nodes tc \<Longrightarrow> length nodes \<le> length nodes' \<Longrightarrow> case_ok nodes' tc"
  by (auto simp: case_ok_def)

lemma cases_ok_mono:
  "list_all (case_ok nodes) tcs \<Longrightarrow> length nodes \<le> length nodes' \<Longrightarrow> list_all (case_ok nodes') tcs"
  by (auto simp: list_all_iff intro: case_ok_mono)

lemma in_store_mono: "in_store nodes p \<Longrightarrow> length nodes \<le> length nodes' \<Longrightarrow> in_store nodes' p"
  by (auto simp: in_store_def)

lemma update_node_simps [simp]:
  "cb_sectionStack (update_node i f b) = cb_sectionStack b" "cb_rootSection (update_node i f b) = cb_rootSection b"
  "cb_deepestSection (update_node i f b) = cb_deepestSection b" "cb_testCases (update_node i f b) = cb_testCases b"
  "length (cb_nodes (update_node i f b)) = length (cb_nodes b)"
  by (simp_all add: update_node_def)

lemma case_ok_cong: "length nodes = length nodes' \<Longrightarrow> case_ok nodes = case_ok nodes'"
  by (auto simp: case_ok_def fun_eq_iff)

text \<open>A change of a node that keeps its children keeps the invariant.\<close>

lemma update_node_ok:
  assumes "cumulative_ok p b" "\<And>n. sn_childSections (f n) = sn_childSections n"
  shows "cumulative_ok p (update_node i f b)"
proof -
  have "nodes_ok (cb_nodes (update_node i f b))"
    using nodes_ok_update [of "cb_nodes b" f i] assms by (simp add: cumulative_ok_def update_node_def)
  moreover have "case_ok (cb_nodes (update_node i f b)) = case_ok (cb_nodes b)" by (rule case_ok_cong) simp
  ultimately show ?thesis using assms(1) by (simp add: cumulative_ok_def in_store_def)
qed

lemma new_node_ok:
  assumes "cumulative_ok p b" "new_node info b = (i, b')"
  shows "cumulative_ok p b'" "i = length (cb_nodes b)" "length (cb_nodes b') = Suc (length (cb_nodes b))"
    "cb_sectionStack b' = cb_sectionStack b"
proof -
  have b': "b' = b\<lparr>cb_nodes := cb_nodes b @ [SectionNode_new (incomplete_stats info)]\<rparr>" "i = length (cb_nodes b)"
    using assms(2) by (auto simp: new_node_def)
  have "nodes_ok (cb_nodes b')"
    using assms(1) nodes_ok_snoc [of "cb_nodes b"] by (simp add: b' cumulative_ok_def SectionNode_new_def)
  moreover have "list_all (case_ok (cb_nodes b')) (cb_testCases b)" "in_store (cb_nodes b') (cb_rootSection b)"
      "in_store (cb_nodes b') (cb_deepestSection b)"
    using assms(1) cases_ok_mono [of "cb_nodes b"] in_store_mono [of "cb_nodes b"] by (simp_all add: b' cumulative_ok_def)
  ultimately show "cumulative_ok p b'" using assms(1) by (simp add: b' cumulative_ok_def less_Suc_eq)
  show "i = length (cb_nodes b)" "length (cb_nodes b') = Suc (length (cb_nodes b))" "cb_sectionStack b' = cb_sectionStack b"
    by (simp_all add: b')
qed

lemma add_child_ok:
  assumes "cumulative_ok p b" "parent < c" "c < length (cb_nodes b)"
  shows "cumulative_ok p (update_node parent (\<lambda>n. n\<lparr>sn_childSections := sn_childSections n @ [c]\<rparr>) b)"
proof -
  have "nodes_ok (cb_nodes (update_node parent (\<lambda>n. n\<lparr>sn_childSections := sn_childSections n @ [c]\<rparr>) b))"
    using nodes_ok_update [of "cb_nodes b" "\<lambda>n. n\<lparr>sn_childSections := sn_childSections n @ [c]\<rparr>" parent] assms
    by (auto simp: cumulative_ok_def update_node_def)
  moreover have "case_ok (cb_nodes (update_node parent (\<lambda>n. n\<lparr>sn_childSections := sn_childSections n @ [c]\<rparr>) b)) = case_ok (cb_nodes b)"
    by (rule case_ok_cong) simp
  ultimately show ?thesis using assms(1) by (simp add: cumulative_ok_def in_store_def)
qed

text \<open>The section that is entered is put on the stack.\<close>

lemma enter_ok:
  assumes "cumulative_ok p b" "i < length (cb_nodes b)" "depth q = Suc (depth p)" "in_case q" "cb_rootSection b \<noteq> None"
  shows "cumulative_ok q (b\<lparr>cb_sectionStack := cb_sectionStack b @ [i], cb_deepestSection := Some i\<rparr>)"
  using assms by (auto simp: cumulative_ok_def in_store_def)

lemma sectionStarting_ok:
  assumes b: "cumulative_ok p b" and q: "depth q = Suc (depth p)" "in_case q"
    and root: "cb_sectionStack b \<noteq> [] \<longrightarrow> cb_rootSection b \<noteq> None"
  shows "cumulative_ok q (cumulative_sectionStarting info b)"
proof (cases "cb_sectionStack b = []")
  case True
  show ?thesis
  proof (cases "cb_rootSection b")
    case None
    obtain i b' where n: "new_node info b = (i, b')" by (cases "new_node info b")
    note n_ok = new_node_ok [OF b n]
    have "cumulative_ok p (b'\<lparr>cb_rootSection := Some i\<rparr>)" using n_ok(1,2,3) by (simp add: cumulative_ok_def in_store_def)
    from enter_ok [OF this _ q, of i] show ?thesis
      using True None n n_ok by (simp add: cumulative_sectionStarting_def)
  next
    case (Some i)
    then have "i < length (cb_nodes b)" using b by (simp add: cumulative_ok_def in_store_def)
    from enter_ok [OF b this q] show ?thesis using True Some by (simp add: cumulative_sectionStarting_def)
  qed
next
  case False
  let ?parent = "last (cb_sectionStack b)"
  have p: "?parent < length (cb_nodes b)" "cb_rootSection b \<noteq> None"
    using b False root by (auto simp: cumulative_ok_def)
  show ?thesis
  proof (cases "find_child_section info ?parent b")
    case None
    obtain i b' where n: "new_node info b = (i, b')" by (cases "new_node info b")
    note n_ok = new_node_ok [OF b n]
    have r: "cb_rootSection b' = cb_rootSection b" using n by (auto simp: new_node_def)
    have "cumulative_ok p (update_node ?parent (\<lambda>n. n\<lparr>sn_childSections := sn_childSections n @ [i]\<rparr>) b')"
      using p n_ok by (intro add_child_ok) simp_all
    from enter_ok [OF this _ q, of i] show ?thesis
      using False None n n_ok p(2) r by (simp add: cumulative_sectionStarting_def)
  next
    case (Some i)
    then have "i \<in> set (sn_childSections (cb_nodes b ! ?parent))"
      by (auto simp: find_child_section_def find_Some_iff)
    then have "i < length (cb_nodes b)" using b p(1) nodes_ok_child [of "cb_nodes b" ?parent i] by (simp add: cumulative_ok_def)
    from enter_ok [OF b this q p(2)] show ?thesis using False Some by (simp add: cumulative_sectionStarting_def)
  qed
qed

subsection \<open>Writing the sections of a test case\<close>

lemma writeAssertion_at: "at_tags ts w \<Longrightarrow> \<exists>w'. writeAssertion a w = Some w' \<and> at_tags ts w'"
proof -
  assume w: "at_tags ts w"
  show ?thesis
  proof (cases "result_isOk (as_result a)")
    case False
    let ?n = "junit_elementName (getResultType (as_result a))"
    have "at_tags (ts @ [?n]) (writeText (junit_text a) False (writeAttribute ''type'' (macroName (m_info (as_result a)))
        (writeAttribute ''message'' (fst (getExpandedExpression (as_result a))) (startElement ?n w))))" using w by simp
    from endElement_at [OF this] show ?thesis using False by (simp add: writeAssertion_def Let_def)
  qed (use w in \<open>simp add: writeAssertion_def\<close>)
qed

lemma writeAssertions_at: "at_tags ts w \<Longrightarrow> \<exists>w'. writeAssertions as w = Some w' \<and> at_tags ts w'"
proof (induction as arbitrary: w)
  case (Cons a as)
  obtain w1 where "writeAssertion a w = Some w1" "at_tags ts w1" using writeAssertion_at [OF Cons.prems] by blast
  then show ?case using Cons.IH [of w1] by simp
qed simp

lemma optional_text_at:
  "at_tags ts w \<Longrightarrow> \<exists>w'. (if s \<noteq> [] then scoped_text name (trim s) False w else Some w) = Some w' \<and> at_tags ts w'"
  using scoped_text_at by (cases "s = []") auto

lemma write_testcase_at: "at_tags ts w \<Longrightarrow> \<exists>w'. write_testcase className name node w = Some w' \<and> at_tags ts w'"
proof -
  assume w: "at_tags ts w"
  show ?thesis
  proof (cases "sn_assertions node = [] \<and> sn_stdOut node = [] \<and> sn_stdErr node = []")
    case False
    define w0 where "w0 = writeAttribute ''time'' (st_durationInSeconds (sn_stats node)) (if className = []
      then writeAttribute ''name'' ''root'' (writeAttribute ''classname'' name (startElement ''testcase'' w))
      else writeAttribute ''name'' name (writeAttribute ''classname'' className (startElement ''testcase'' w)))"
    have "at_tags (ts @ [''testcase'']) w0" using w by (simp add: w0_def)
    then obtain w1 where w1: "writeAssertions (sn_assertions node) w0 = Some w1" "at_tags (ts @ [''testcase'']) w1"
      using writeAssertions_at by blast
    obtain w2 where w2: "(if sn_stdOut node \<noteq> [] then scoped_text ''system-out'' (trim (sn_stdOut node)) False w1 else Some w1) = Some w2"
      "at_tags (ts @ [''testcase'']) w2" using optional_text_at [OF w1(2)] by blast
    obtain w3 where w3: "(if sn_stdErr node \<noteq> [] then scoped_text ''system-err'' (trim (sn_stdErr node)) False w2 else Some w2) = Some w3"
      "at_tags (ts @ [''testcase'']) w3" using optional_text_at [OF w2(2)] by blast
    obtain w4 where "endElement w3 = Some w4" "at_tags ts w4" using endElement_at [OF w3(2)] by blast
    then show ?thesis using w1(1) w2(1) w3(1) unfolding write_testcase_def Let_def w0_def if_not_P [OF False] by simp
  qed (use w in \<open>simp add: write_testcase_def\<close>)
qed

lemma write_sections_ok:
  assumes "nodes_ok nodes"
  shows "i < length nodes \<Longrightarrow> at_tags ts w \<Longrightarrow>
    \<exists>w'. at_tags ts w' \<and> (\<forall>calls. write_sections nodes ((className, rootName, i) # calls) w = write_sections nodes calls w')"
proof (induction "length nodes - i" arbitrary: i w className rootName rule: less_induct)
  case less
  let ?node = "nodes ! i"
  define name where "name = (let name = trim (si_name (st_sectionInfo (sn_stats ?node))) in
    if rootName \<noteq> [] then rootName @ ''/'' @ name else name)"
  obtain w1 where w1: "write_testcase className name ?node w = Some w1" "at_tags ts w1"
    using write_testcase_at [OF less.prems(2)] by blast
  have step: "write_sections nodes ((className, rootName, i) # calls) w =
      write_sections nodes (section_calls className name ?node @ calls) w1" for calls
    using less.prems(1) w1(1) by (subst write_sections.simps) (simp add: Let_def name_def)
  have "\<exists>w'. at_tags ts w' \<and> (\<forall>calls. write_sections nodes (cs @ calls) v = write_sections nodes calls w')"
    if "\<forall>(c, r, k) \<in> set cs. i < k \<and> k < length nodes" "at_tags ts v" for cs v
    using that
  proof (induction cs arbitrary: v)
    case (Cons x cs)
    obtain c r k where x: "x = (c, r, k)" by (cases x)
    obtain v1 where v1: "at_tags ts v1" "\<forall>calls. write_sections nodes ((c, r, k) # calls) v = write_sections nodes calls v1"
      using less.hyps [of k v c r] Cons.prems x less.prems(1) by (auto simp: diff_less_mono2)
    then show ?case using Cons.IH [of v1] Cons.prems x by auto
  qed auto
  moreover have "\<forall>(c, r, k) \<in> set (section_calls className name ?node). i < k \<and> k < length nodes"
    using nodes_ok_child [OF assms less.prems(1)] by (auto simp: section_calls_def)
  ultimately show ?case using w1(2) step by metis
qed

lemma writeTestCase_at:
  assumes "nodes_ok nodes" "case_ok nodes tc" "at_tags ts w"
  shows "\<exists>w'. writeTestCase nodes tc w = Some w' \<and> at_tags ts w'"
proof -
  obtain root where root: "tn_children tc = [Some root]" "root < length nodes" using assms(2) by (auto simp: case_ok_def)
  have "\<exists>w'. writeSection nodes c r root w = Some w' \<and> at_tags ts w'" for c r
    using write_sections_ok [OF assms(1) root(2) assms(3), of c r] write_sections.simps [of nodes "[]"]
    by (auto simp: writeSection_def)
  then show ?thesis using root by (simp add: writeTestCase_def Let_def)
qed

lemma writeTestCases_at:
  "nodes_ok nodes \<Longrightarrow> list_all (case_ok nodes) tcs \<Longrightarrow> at_tags ts w \<Longrightarrow>
   \<exists>w'. writeTestCases nodes tcs w = Some w' \<and> at_tags ts w'"
proof (induction tcs arbitrary: w)
  case (Cons tc tcs)
  obtain w1 where "writeTestCase nodes tc w = Some w1" "at_tags ts w1"
    using writeTestCase_at [OF Cons.prems(1) _ Cons.prems(3), of tc] Cons.prems(2) by auto
  then show ?case using Cons.IH [of w1] Cons.prems by simp
qed simp

lemma writeGroup_at:
  assumes "nodes_ok (cb_nodes (jr_base r))" "list_all (case_ok (cb_nodes (jr_base r))) (gn_children g)" "at_tags ts (jr_xml r)"
  shows "\<exists>w'. writeGroup env g r = Some w' \<and> at_tags ts w'"
proof -
  define w0 where "w0 = (let totals = gn_totals g;
          w = startElement ''testsuite'' (jr_xml r);
          w = writeAttribute ''name'' (gn_name g) w;
          w = writeAttribute_nat ''errors'' (unat (jr_unexpectedExceptions r)) w;
          w = writeAttribute_nat ''failures'' (unat (junit_failures totals (jr_unexpectedExceptions r))) w;
          w = writeAttribute_nat ''tests'' (unat (Counts_total (assertions totals))) w;
          w = writeAttribute ''hostname'' ''tbd'' w;
          w = (if showDurations (cb_config (jr_base r)) = Never then writeAttribute ''time'' [] w
                   else writeAttribute ''time'' (re_seconds env) w)
          in writeAttribute ''timestamp'' (re_timestamp env) w)"
  have "at_tags (ts @ [''testsuite'']) w0" using assms(3) by (simp add: w0_def Let_def)
  then obtain w1 where w1: "writeTestCases (cb_nodes (jr_base r)) (gn_children g) w0 = Some w1" "at_tags (ts @ [''testsuite'']) w1"
    using writeTestCases_at [OF assms(1,2)] by blast
  obtain w2 where w2: "scoped_text ''system-out'' (trim (jr_stdOutForSuite r)) False w1 = Some w2" "at_tags (ts @ [''testsuite'']) w2"
    using scoped_text_at [OF w1(2)] by blast
  obtain w3 where w3: "scoped_text ''system-err'' (trim (jr_stdErrForSuite r)) False w2 = Some w3" "at_tags (ts @ [''testsuite'']) w3"
    using scoped_text_at [OF w2(2)] by blast
  obtain w4 where "endElement w3 = Some w4" "at_tags ts w4" using endElement_at [OF w3(2)] by blast
  then show ?thesis using w1(1) w2(1) w3(1) unfolding writeGroup_def w0_def Let_def by simp
qed

subsection \<open>The contract\<close>

lemma junit_reporter_ok:
  assumes r: "junit_ok p r" and e: "phase_step e p = Some q"
  shows "\<exists>c r'. junit_reporter env e r = Some (c, r') \<and> junit_ok q r'"
proof -
  have b: "cumulative_ok p (jr_base r)" and x: "at_tags (junit_tags p) (jr_xml r)" using r by (simp_all add: junit_ok_def)
  show ?thesis
  proof (cases "(e, p)" rule: phase_step.cases)
    case (1 name)
    have "at_tags ([] @ [''testsuites'']) (startElement ''testsuites'' (jr_xml r))"
      using x 1 by (intro at_tags_intros(3)) (simp add: junit_tags_def)
    then show ?thesis using 1 e b by (auto simp: junit_reporter_def junit_ok_def junit_tags_def cumulative_ok_def)
  next
    case (4 info)
    then have "cumulative_ok q (cumulative_sectionStarting info (jr_base r))"
      using e by (intro sectionStarting_ok [OF b]) (use b in \<open>auto simp: cumulative_ok_def\<close>)
    then show ?thesis using 4 e x by (auto simp: junit_reporter_def junit_ok_def junit_tags_def)
  next
    case (5 info n)
    then have "cumulative_ok q (cumulative_sectionStarting info (jr_base r))"
      using e by (intro sectionStarting_ok [OF b]) (use b in \<open>auto simp: cumulative_ok_def\<close>)
    then show ?thesis using 5 e x by (auto simp: junit_reporter_def junit_ok_def junit_tags_def)
  next
    case (6 result messages totals n)
    then have "cb_sectionStack (jr_base r) \<noteq> []" using b by (auto simp: cumulative_ok_def)
    then show ?thesis using 6 e x b
      by (auto simp: junit_reporter_def junit_ok_def junit_tags_def junit_assertionEnded_def cumulative_assertionEnded_def
          Let_def intro!: update_node_ok)
  next
    case (7 info counts missing n)
    then have "cb_sectionStack (jr_base r) \<noteq> []" using b by (auto simp: cumulative_ok_def)
    moreover have "cumulative_ok p (update_node (last (cb_sectionStack (jr_base r))) (\<lambda>n. n\<lparr>sn_stats := s\<rparr>) (jr_base r))" for s
      by (rule update_node_ok [OF b]) simp
    ultimately show ?thesis using 7 e x
      by (auto simp: junit_reporter_def junit_ok_def junit_tags_def cumulative_sectionEnded_def Let_def cumulative_ok_def
          dest: in_set_butlastD)
  next
    case (8 tc totals aborted)
    define b1 where "b1 = (jr_base r)\<lparr>cb_testCases := cb_testCases (jr_base r) @
       [\<lparr>tn_testInfo = tc, tn_totals = totals, tn_children = [cb_rootSection (jr_base r)]\<rparr>], cb_rootSection := None\<rparr>"
    have "cumulative_ok InGroup b1" using b 8 by (auto simp: b1_def cumulative_ok_def in_store_def case_ok_def)
    then have "cumulative_ok InGroup (update_node i (\<lambda>n. n\<lparr>sn_stdOut := re_stdOut env, sn_stdErr := re_stdErr env\<rparr>) b1)" for i
      by (rule update_node_ok) simp
    moreover obtain i where "cb_deepestSection (jr_base r) = Some i" "cb_sectionStack (jr_base r) = []"
      using b 8 by (auto simp: cumulative_ok_def)
    ultimately show ?thesis using 8 e x
      by (auto simp: junit_reporter_def junit_ok_def junit_tags_def junit_testCaseEnded_def cumulative_testCaseEnded_def
          Let_def b1_def)
  next
    case (10 name totals aborted)
    define r1 where "r1 = r\<lparr>jr_base := cumulative_testGroupEnded name totals (jr_base r)\<rparr>"
    have "nodes_ok (cb_nodes (jr_base r1))" "at_tags (junit_tags p) (jr_xml r1)"
        "list_all (case_ok (cb_nodes (jr_base r1))) (gn_children (last (cb_testGroups (jr_base r1))))"
      using b x by (simp_all add: r1_def cumulative_testGroupEnded_def cumulative_ok_def)
    from writeGroup_at [OF this(1,3,2), of env] show ?thesis using 10 e b
      by (auto simp: junit_reporter_def junit_ok_def junit_tags_def junit_testGroupEnded_def Let_def r1_def
          cumulative_testGroupEnded_def cumulative_ok_def)
  next
    case (11 totals aborted)
    have "at_tags ([] @ [''testsuites'']) (jr_xml r)" using x 11 by (simp add: junit_tags_def)
    from endElement_at [OF this] show ?thesis using 11 e b
      by (auto simp: junit_reporter_def junit_ok_def junit_tags_def junit_testRunEnded_def Let_def
          cumulative_testRunEnded_def cumulative_ok_def)
  qed (use e b x in \<open>auto simp: junit_reporter_def junit_ok_def junit_tags_def cumulative_ok_def\<close>)
qed

interpretation jr: reporter_contract junit_reporter junit_ok any_event
  by unfold_locales (rule junit_reporter_ok)

lemma JunitReporter_new_ok: "junit_ok Outside (JunitReporter_new junk g out)"
  using xml_new_ok [of out]
  by (simp add: junit_ok_def JunitReporter_new_def CumulativeReporterBase_new_def cumulative_ok_def in_store_def
      nodes_ok_def junit_tags_def at_tags_def)

subsection \<open>Exceptions that are suppressed\<close>

text \<open>What an assertion that threw, with the disposition to suppress failures, does to the run\<close>

lemma suppressed_exception:
  assumes "shouldSuppressFailure disposition"
  shows "\<exists>result r'. useActiveException msg disposition b r = Some (b\<lparr>rb_assertionInfo := (rb_assertionInfo b)\<lparr>resultDisposition := disposition\<rparr>,
      rb_stream := rb_stream b @ msg, rb_data := (rb_data b)\<lparr>resultType := ThrewException\<rparr>\<rparr>, r') \<and>
    getResultType result = ThrewException \<and> result_isOk result \<and> rc_totals r' = rc_totals r \<and>
    rc_events r' = rc_events r @ [AssertionEnded result (rc_messages r) (rc_totals r)]"
  using assms
  by (simp add: useActiveException_def captureResult_def captureExpression_def build_def build_expr_def setResultType_def
      handleResult_def assertionEnded_def Let_def result_isOk_def getResultType_def report_def negate_def isOk_def)

text \<open>The reporter counts it all the same.\<close>

lemma junit_counts_exception:
  assumes "junit_ok (InCase (Suc n)) j" "\<not> jr_okToFail j" "getResultType result = ThrewException"
  shows "\<exists>j'. junit_reporter env (AssertionEnded result messages totals) j = Some (True, j') \<and>
    jr_unexpectedExceptions j' = jr_unexpectedExceptions j + 1 \<and> junit_ok (InCase (Suc n)) j'"
proof -
  have "as_result (fst (AssertionStats_new k result messages totals)) = result" for k
    by (simp add: AssertionStats_new_def split: prod.split)
  moreover have "cb_sectionStack (jr_base j) \<noteq> []" using assms(1) by (auto simp: junit_ok_def cumulative_ok_def)
  moreover obtain c j' where "junit_reporter env (AssertionEnded result messages totals) j = Some (c, j')" "junit_ok (InCase (Suc n)) j'"
    using jr.call_ok [OF assms(1), of "AssertionEnded result messages totals" "InCase (Suc n)" env] by auto
  ultimately show ?thesis using assms(2,3)
    by (auto simp: junit_reporter_def junit_assertionEnded_def cumulative_assertionEnded_def Let_def)
qed

subsection \<open>The console reporter\<close>

text \<open>A text is laid out when the indents leave some width.\<close>

lemma Wrap_returns:
  assumes "wrap_indent attr < wrap_width attr"
    "case wrap_initialIndent attr of None \<Rightarrow> True | Some i \<Rightarrow> i < wrap_width attr"
  shows "\<exists>ls. Wrap s attr = Some ls"
  using Wrap_ok [OF assms] by blast

lemma message_text_returns: "\<exists>ls. Wrap s (wrap_setIndent 2 WrapAttributes_new) = Some ls"
  by (rule Wrap_returns) (simp_all add: wrap_setIndent_def WrapAttributes_new_def consoleWidth_def)

text \<open>The part after the first colon must not be indented beyond the width.\<close>

definition header_ok :: "nat \<Rightarrow> string \<Rightarrow> bool" where
  "header_ok ind s \<longleftrightarrow> (case find_from s '': '' 0 of None \<Rightarrow> ind < 79 | Some i \<Rightarrow> ind + i + 2 < 79)"

lemma printHeaderString_ok: "header_ok ind s \<Longrightarrow> \<exists>t. printHeaderString s ind = Some t"
proof -
  assume h: "header_ok ind s"
  define i where "i = (case find_from s '': '' 0 of Some i \<Rightarrow> i + 2 | None \<Rightarrow> 0)"
  have "ind + i < 79" using h by (auto simp: header_ok_def i_def split: option.splits)
  then obtain ls where "Wrap s (wrap_setInitialIndent ind (wrap_setIndent (ind + i) WrapAttributes_new)) = Some ls"
    using Wrap_returns [of "wrap_setInitialIndent ind (wrap_setIndent (ind + i) WrapAttributes_new)" s]
    by (auto simp: wrap_setIndent_def wrap_setInitialIndent_def WrapAttributes_new_def consoleWidth_def)
  then show ?thesis by (simp add: printHeaderString_def i_def [symmetric])
qed

lemma section_headers_ok: "list_all (\<lambda>i. header_ok 2 (si_name i)) is \<Longrightarrow> \<exists>t. section_headers is = Some t"
proof (induction "is")
  case (Cons i "is")
  obtain t where "printHeaderString (si_name i) 2 = Some t" using printHeaderString_ok Cons.prems by auto
  then show ?case using Cons by auto
qed simp

text \<open>The calls that can be printed\<close>

fun console_event :: "event \<Rightarrow> bool" where
  "console_event (TestGroupStarting name index groups) = header_ok 0 (''Group: '' @ name)"
| "console_event (TestCaseStarting tc) = header_ok 0 (tc_name tc)"
| "console_event (SectionStarting info) = header_ok 2 (si_name info)"
| "console_event (TestRunEnded totals aborted) =
     (unat (passed (testCases totals)) + unat (failed (testCases totals)) + unat (failedButOk (testCases totals)) < 2 ^ 57)"
| "console_event _ = True"

primrec in_group :: "phase \<Rightarrow> bool" where
  "in_group Outside = False" | "in_group InRun = False" | "in_group InGroup = True" | "in_group Started = True"
| "in_group (InCase n) = True"

primrec has_test :: "phase \<Rightarrow> bool" where
  "has_test Outside = False" | "has_test InRun = False" | "has_test InGroup = False" | "has_test Started = True"
| "has_test (InCase n) = True"

definition streaming_ok :: "phase \<Rightarrow> StreamingReporterBase \<Rightarrow> bool" where
  "streaming_ok p b \<longleftrightarrow> stack_ok p b \<and> (p \<noteq> Outside \<longrightarrow> ls_value (sb_currentTestRunInfo b) \<noteq> None) \<and>
     (in_group p \<longrightarrow> (\<exists>g. ls_value (sb_currentGroupInfo b) = Some g \<and> header_ok 0 (''Group: '' @ gr_name g))) \<and>
     (has_test p \<longrightarrow> (\<exists>tc. ls_value (sb_currentTestCaseInfo b) = Some tc \<and> header_ok 0 (tc_name tc))) \<and>
     list_all (\<lambda>i. header_ok 2 (si_name i)) (sb_sectionStack b)"

definition console_ok :: "phase \<Rightarrow> ConsoleReporter \<Rightarrow> bool" where
  "console_ok p r \<longleftrightarrow> streaming_ok p (cr_base r)"

lemma streaming_step:
  assumes "streaming_ok p b" "phase_step e p = Some q" "console_event e"
  shows "\<exists>b'. streaming_base e b = Some b' \<and> streaming_ok q b'"
  using assms by (cases "(e, p)" rule: phase_step.cases)
    (auto simp: streaming_ok_def stack_ok_def lazy_set_def list_all_iff dest: in_set_butlastD)

lemma console_base_ok:
  assumes "console_ok p r" "phase_step e p = Some q" "console_event e"
  shows "\<exists>r'. console_base e r = Some r' \<and> console_ok q r'"
  using streaming_step [of p "cr_base r" e q] assms by (auto simp: console_base_def console_ok_def)

lemma streaming_print [simp]: "streaming_ok p (print s b) = streaming_ok p b"
  by (simp add: streaming_ok_def stack_ok_def print_def)

lemma console_simps [simp]:
  "console_ok p (console_print s r) = console_ok p r" "console_ok p (r\<lparr>cr_headerPrinted := h\<rparr>) = console_ok p r"
  by (simp_all add: console_ok_def console_print_def)

lemma lazyPrintRunInfo_ok:
  assumes "streaming_ok p b" "p \<noteq> Outside"
  shows "\<exists>b'. lazyPrintRunInfo b = Some b' \<and> streaming_ok p b'"
  using assms by (auto simp: lazyPrintRunInfo_def streaming_ok_def stack_ok_def print_def Let_def)

lemma printClosedHeader_ok: "header_ok 0 s \<Longrightarrow> \<exists>t. printClosedHeader s = Some t"
  using printHeaderString_ok by (auto simp: printClosedHeader_def printOpenHeader_def)

lemma lazyPrintGroupInfo_ok:
  assumes "streaming_ok p b" "in_group p"
  shows "\<exists>b'. lazyPrintGroupInfo b = Some b' \<and> streaming_ok p b'"
proof -
  obtain g where g: "ls_value (sb_currentGroupInfo b) = Some g" "header_ok 0 (''Group: '' @ gr_name g)"
    using assms by (auto simp: streaming_ok_def)
  then obtain t where "printClosedHeader (''Group: '' @ gr_name g) = Some t" using printClosedHeader_ok by blast
  then show ?thesis using assms g
    by (auto simp: lazyPrintGroupInfo_def Let_def streaming_ok_def stack_ok_def print_def)
qed

lemma printTestCaseAndSectionHeader_ok:
  assumes "streaming_ok (InCase (Suc n)) b"
  shows "\<exists>b'. printTestCaseAndSectionHeader b = Some b' \<and> streaming_ok (InCase (Suc n)) b'"
proof -
  obtain tc where tc: "ls_value (sb_currentTestCaseInfo b) = Some tc" "header_ok 0 (tc_name tc)"
    using assms by (auto simp: streaming_ok_def)
  have st: "sb_sectionStack b \<noteq> []" "list_all (\<lambda>i. header_ok 2 (si_name i)) (tl (sb_sectionStack b))"
    using assms by (cases "sb_sectionStack b"; simp add: streaming_ok_def stack_ok_def)+
  obtain h s where "printOpenHeader (tc_name tc) = Some h" "section_headers (tl (sb_sectionStack b)) = Some s"
    using printHeaderString_ok [OF tc(2)] section_headers_ok [OF st(2)] by (auto simp: printOpenHeader_def)
  then show ?thesis using assms tc(1) st(1) by (simp add: printTestCaseAndSectionHeader_def Let_def)
qed

lemma lazyPrint_ok:
  assumes "console_ok (InCase (Suc n)) r"
  shows "\<exists>r'. lazyPrint r = Some r' \<and> console_ok (InCase (Suc n)) r'"
proof -
  let ?p = "InCase (Suc n)"
  have b: "streaming_ok ?p (cr_base r)" using assms by (simp add: console_ok_def)
  obtain b1 where b1: "(if \<not> ls_used (sb_currentTestRunInfo (cr_base r)) then lazyPrintRunInfo (cr_base r) else Some (cr_base r)) = Some b1"
      "streaming_ok ?p b1" using lazyPrintRunInfo_ok [OF b] b by (cases "ls_used (sb_currentTestRunInfo (cr_base r))") auto
  obtain b2 where b2: "(if \<not> ls_used (sb_currentGroupInfo b1) then lazyPrintGroupInfo b1 else Some b1) = Some b2"
      "streaming_ok ?p b2" using lazyPrintGroupInfo_ok [OF b1(2)] b1(2) by (cases "ls_used (sb_currentGroupInfo b1)") auto
  show ?thesis using b1(1) b2 printTestCaseAndSectionHeader_ok [OF b2(2)] by (auto simp: lazyPrint_def console_ok_def)
qed

lemma print_messages_ok: "\<exists>t. print_messages b ms = Some t"
proof (induction ms)
  case (Cons m ms)
  obtain ls where "Wrap (mi_message m) (wrap_setIndent 2 WrapAttributes_new) = Some ls" using message_text_returns by blast
  then show ?case using Cons by auto
qed simp

lemma console_assertion_ok: "\<exists>t. console_assertion stats b = Some t"
proof -
  obtain e where "printReconstructedExpression (as_result stats) = Some e"
    using message_text_returns [of "fst (getExpandedExpression (as_result stats))"]
    by (cases "fst (hasExpandedExpression (as_result stats))") (auto simp: printReconstructedExpression_def)
  moreover obtain m where "print_messages b (as_infoMessages stats) = Some m" using print_messages_ok by blast
  ultimately show ?thesis by (simp add: console_assertion_def printMessage_def Let_def split: prod.split)
qed

lemma console_reporter_ok:
  assumes r: "console_ok p r" and e: "phase_step e p = Some q" and g: "console_event e"
  shows "\<exists>c r'. console_reporter env e r = Some (c, r') \<and> console_ok q r'"
proof -
  have base: "\<exists>r''. console_base e r' = Some r'' \<and> console_ok q r''" if "console_ok p r'" for r'
    by (rule console_base_ok [OF that e g])
  show ?thesis
  proof (cases e)
    case (AssertionEnded result messages totals)
    then obtain n where p: "p = InCase (Suc n)" "q = p" using e by (cases "(e, p)" rule: phase_step.cases) auto
    obtain r1 where r1: "lazyPrint r = Some r1" "console_ok p r1" using lazyPrint_ok r p by blast
    have "\<exists>t. console_assertion (fst (AssertionStats_new (re_globalCount env) result messages totals)) b = Some t" for b
      by (rule console_assertion_ok)
    then obtain f where f: "\<And>b. console_assertion (fst (AssertionStats_new (re_globalCount env) result messages totals)) b = Some (f b)"
      by metis
    show ?thesis using AssertionEnded r1 f p(2) r
      by (auto simp: console_reporter_def console_assertionEnded_def Let_def)
  next
    case (SectionEnded info counts missing)
    then obtain n where p: "p = InCase (Suc n)" using e by (cases "(e, p)" rule: phase_step.cases) auto
    obtain r1 where r1: "lazyPrint r = Some r1" "console_ok p r1" using lazyPrint_ok r p by blast
    have "\<exists>r2. console_sectionEnded env info missing r = Some r2 \<and> console_ok p r2"
      using r1 r by (cases missing) (auto simp: console_sectionEnded_def Let_def)
    then obtain r2 r3 where "console_sectionEnded env info missing r = Some r2" "console_base e r2 = Some r3" "console_ok q r3"
      using base by blast
    then show ?thesis using SectionEnded by (simp add: console_reporter_def)
  next
    case (TestRunEnded totals aborted)
    obtain r1 where r1: "console_testRunEnded totals r = Some r1" "console_ok p r1"
      using totals_divider_ok [of "testCases totals" totals] g r TestRunEnded by (simp add: console_testRunEnded_def)
    from base [OF r1(2)] show ?thesis using TestRunEnded r1(1) by (auto simp: console_reporter_def)
  next
    case (TestGroupEnded name totals aborted)
    have "console_ok p (console_testGroupEnded name totals r)" using r by (simp add: console_testGroupEnded_def)
    from base [OF this] show ?thesis using TestGroupEnded by (auto simp: console_reporter_def)
  next
    case (SectionStarting info)
    have "console_ok p (r\<lparr>cr_headerPrinted := False\<rparr>)" using r by simp
    from base [OF this] show ?thesis using SectionStarting by (auto simp: console_reporter_def)
  qed (use base [OF r] in \<open>auto simp: console_reporter_def\<close>)
qed

interpretation cr: reporter_contract console_reporter console_ok console_event
  by unfold_locales (rule console_reporter_ok)

lemma ConsoleReporter_new_ok: "console_ok Outside (ConsoleReporter_new g out)"
  by (simp add: console_ok_def ConsoleReporter_new_def streaming_ok_def stack_ok_def StreamingReporterBase_new_def)

subsection \<open>The compact reporter\<close>

text \<open>The calls that it can print, whatever its configuration\<close>

fun compact_event :: "event \<Rightarrow> bool" where
  "compact_event (AssertionEnded result messages totals) =
     (\<not> stuck False (left_messages (fst (AssertionStats_new 0 result messages totals))))"
| "compact_event _ = True"

lemma stuck_weaken: "stuck b ms \<Longrightarrow> stuck False ms"
  by (simp add: stuck_def)

lemma left_messages_types:
  "map mi_type (left_messages (fst (AssertionStats_new k result messages totals))) =
   map mi_type (left_messages (fst (AssertionStats_new 0 result messages totals)))"
  by (cases messages) (simp_all add: left_messages_def AssertionStats_new_def MessageInfo_new_def Let_def)

lemma stuck_types: "map mi_type ms = map mi_type ms' \<Longrightarrow> stuck b ms = stuck b ms'"
  unfolding stuck_def by (metis (mono_tags, opaque_lifting) imageE imageI list.set_map)

lemma compact_assertion_returns:
  assumes "\<not> stuck False (left_messages stats)"
  shows "compact_assertion stats b \<noteq> None"
proof (cases "getResultType (as_result stats) \<in> {Ok, ExpressionFailed, ThrewException, FatalErrorCondition, DidntThrowException,
    Info, Warning, ExplicitFailure}")
  case True
  then show ?thesis using compact_assertion_ok [OF True, of b] stuck_weaken assms by blast
next
  case False
  then show ?thesis
    by (cases "getResultType (as_result stats)") (simp_all add: compact_assertion_def Let_def split: prod.split)
qed

lemma compact_assertionEnded_ok:
  assumes "\<not> stuck False (left_messages stats)"
  shows "\<exists>c b'. compact_assertionEnded stats b = Some (c, b')"
proof -
  define quiet where "quiet \<longleftrightarrow> \<not> includeSuccessfulResults (sb_config b) \<and> result_isOk (as_result stats)"
  obtain t where t: "compact_assertion stats (\<not> quiet) = Some t"
    using compact_assertion_returns [OF assms, of "\<not> quiet"] by blast
  have "compact_assertionEnded stats b = (if quiet \<and> getResultType (as_result stats) \<noteq> Warning then Some (False, b)
      else map_option (\<lambda>t. (True, print (t @ [CHR 0x0A]) b)) (compact_assertion stats (\<not> quiet)))"
    unfolding compact_assertionEnded_def Let_def quiet_def by (rule refl)
  then show ?thesis unfolding t by auto
qed

lemma compact_reporter_ok:
  assumes "compact_event e"
  shows "\<exists>c b'. compact_reporter env e b = Some (c, b')"
proof (cases e)
  case (AssertionEnded result messages totals)
  have "\<not> stuck False (left_messages (fst (AssertionStats_new (re_globalCount env) result messages totals)))"
    using assms AssertionEnded stuck_types [OF left_messages_types [of "re_globalCount env" result messages totals], of False]
    by simp
  from compact_assertionEnded_ok [OF this, of b] show ?thesis using AssertionEnded by (simp add: compact_reporter_def)
qed (simp_all add: compact_reporter_def)

interpretation co: reporter_contract compact_reporter "\<lambda>p b. True" compact_event
  by unfold_locales (simp add: compact_reporter_ok)

subsection \<open>Reports of a run\<close>

lemma reporter_calls_append:
  "reporter_calls call (a @ b) r = (case reporter_calls call a r of None \<Rightarrow> None | Some r \<Rightarrow> reporter_calls call b r)"
  by (induction call a r rule: reporter_calls.induct) (auto split: option.splits)

text \<open>When the compact reporter does not come back from an assertion\<close>

lemma compact_hang:
  "compact_assertionEnded stats b = None \<longleftrightarrow> getResultType (as_result stats) = Warning \<and>
     \<not> includeSuccessfulResults (sb_config b) \<and> list_ex (\<lambda>m. mi_type m = Info) (tl (as_infoMessages stats))"
proof -
  let ?result = "as_result stats"
  define quiet where "quiet \<longleftrightarrow> \<not> includeSuccessfulResults (sb_config b) \<and> result_isOk ?result"
  have eq: "compact_assertionEnded stats b = (if quiet \<and> getResultType ?result \<noteq> Warning then Some (False, b)
      else map_option (\<lambda>t. (True, print (t @ [CHR 0x0A]) b)) (compact_assertion stats (\<not> quiet)))"
    unfolding compact_assertionEnded_def Let_def quiet_def by (rule refl)
  have loud: "compact_assertion stats True \<noteq> None"
  proof (cases "getResultType ?result \<in> {Ok, ExpressionFailed, ThrewException, FatalErrorCondition, DidntThrowException,
      Info, Warning, ExplicitFailure}")
    case True
    then show ?thesis by (simp only: compact_assertion_ok) (simp add: stuck_def)
  next
    case False
    then show ?thesis by (cases "getResultType ?result") (simp_all add: compact_assertion_def Let_def split: prod.split)
  qed
  show ?thesis
  proof (cases "getResultType ?result = Warning")
    case True
    then have "result_isOk ?result" by (simp add: result_isOk_def getResultType_def isOk_def failure_bit_def)
    then have q: "quiet \<longleftrightarrow> \<not> includeSuccessfulResults (sb_config b)" by (simp add: quiet_def)
    have "compact_assertion stats False = None \<longleftrightarrow> list_ex (\<lambda>m. mi_type m = Info) (tl (as_infoMessages stats))"
      using True by (subst compact_assertion_ok) (auto simp: stuck_def left_messages_def list_ex_iff)
    then show ?thesis using True loud q by (cases quiet) (auto simp: eq)
  next
    case False
    then show ?thesis using loud by (cases quiet) (simp_all add: eq)
  qed
qed

text \<open>What the console reporter writes last\<close>

lemma console_run_ended:
  assumes "console_ok InRun r" "console_event (TestRunEnded totals aborted)"
  shows "\<exists>r' text. console_reporter env (TestRunEnded totals aborted) r = Some (False, r') \<and>
    sb_stream (cr_base r') = text @ replicate 79 (CHR ''='') @ newline @ console_totals totals @ newline"
proof -
  have "totals_divider totals = Some (replicate 79 (CHR ''='') @ newline)"
    using totals_divider_ok [of "testCases totals" totals] assms(2) by (simp add: newline_def)
  then show ?thesis
    by (simp add: console_reporter_def console_testRunEnded_def console_base_def console_print_def print_def)
qed

lemma AssertionStats_result [simp]: "as_result (fst (AssertionStats_new k result messages totals)) = result"
  by (simp add: AssertionStats_new_def split: prod.split)

lemma AssertionStats_types:
  "map mi_type (as_infoMessages (fst (AssertionStats_new k result messages totals))) =
   map mi_type messages @ (if hasMessage result then [getResultType result] else [])"
  by (simp add: AssertionStats_new_def MessageInfo_new_def Let_def)

lemma compact_event_hang:
  "compact_reporter env (AssertionEnded result messages totals) b = None \<longleftrightarrow> getResultType result = Warning \<and>
     \<not> includeSuccessfulResults (sb_config b) \<and> list_ex (\<lambda>m. mi_type m = Info) (tl messages)"
proof -
  have ex: "list_ex (\<lambda>m. mi_type m = Info) ms \<longleftrightarrow> Info \<in> set (map mi_type ms)" for ms :: "MessageInfo list"
    unfolding list_ex_iff set_map image_iff by metis
  have "Info \<in> set (tl (map mi_type messages @ (if hasMessage result then [Warning] else []))) \<longleftrightarrow>
      Info \<in> set (tl (map mi_type messages))" by (cases messages) auto
  then show ?thesis by (auto simp: compact_reporter_def compact_hang ex map_tl AssertionStats_types)
qed

text \<open>The run of the small suite\<close>

definition sample_config :: Config where
  "sample_config = \<lparr>config_data = ConfigData_new, config_spec = []\<rparr>"

definition sample_location :: SourceLineInfo where
  "sample_location = \<lparr>src_file = ''catch.hpp'', src_line = 1\<rparr>"

lemma sample_config_ok: "Config_new [] ConfigData_new = Some sample_config" "cfg_sectionsToRun ConfigData_new = []"
  by (simp_all add: Config_new_def openStream_def ConfigData_new_def sample_config_def)

lemma sample_run:
  "\<exists>totals r registry'. runTests sample_location 0 (\<lambda>tc. sample_body) [] rev [''console''] sample_config sample_registry =
     Some (Inr (totals, r), registry')"
proof -
  have "makeReporter [''console''] (cfg_reporterNames ConfigData_new) = Inr [''console'']"
    by (simp add: makeReporter_def createReporter_def ConfigData_new_def)
  from runTests_ok [OF sample_config_ok this, of sample_registry rev "\<lambda>tc. sample_body" sample_location 0]
  show ?thesis using sample_body_quiet by auto
qed

definition sample_environment :: report_env where
  "sample_environment = \<lparr>re_seconds = ''0.1'', re_stdOut = ''out'', re_stdErr = [], re_timestamp = [], re_globalCount = 0\<rparr>"

definition sample_builder :: ResultBuilder where
  "sample_builder = ResultBuilder_new ''CHECK_NOFAIL'' sample_location ''f()'' 0 []"

definition sample_result :: AssertionResult where
  "sample_result = \<lparr>m_info = rb_assertionInfo sample_builder,
     m_resultData = AssertionResultData_init\<lparr>resultType := ExpressionFailed, message := ''text''\<rparr>\<rparr>"

text \<open>The calls of a run of one test case with one failing assertion\<close>

definition sample_events :: "event list" where
  "sample_events =
     [TestRunStarting ''run'', TestGroupStarting ''run'' 1 1, TestCaseStarting (sample_test ''a''),
      SectionStarting (testCase_section (sample_test ''a'')), AssertionEnded sample_result [] Totals_zero,
      SectionEnded (testCase_section (sample_test ''a'')) Counts_zero False, TestCaseEnded (sample_test ''a'') Totals_zero False,
      TestGroupEnded ''run'' Totals_zero False, TestRunEnded Totals_zero False]"

lemma sample_events_ok:
  "phase_steps sample_events Outside = Some Outside" "sample_events \<noteq> []" "list_all console_event sample_events"
  "last sample_events = TestRunEnded Totals_zero False"
proof -
  show "phase_steps sample_events Outside = Some Outside" "sample_events \<noteq> []" "last sample_events = TestRunEnded Totals_zero False"
    by (simp_all add: sample_events_def)
  have "header_ok 0 ''Group: run''" "header_ok 0 ''a''" "header_ok 2 ''a''" by code_simp+
  then show "list_all console_event sample_events"
    by (simp add: sample_events_def testCase_section_def Totals_zero_def Counts_zero_def)
qed

lemma sample_junit: "\<exists>j. junit_ok (InCase (Suc 0)) j \<and> \<not> jr_okToFail j \<and> jr_unexpectedExceptions j = 0"
proof -
  have ok: "junit_ok Outside (JunitReporter_new 0 sample_config [])" by (rule JunitReporter_new_ok)
  have "phase_steps (map snd (map (Pair sample_environment) (take 4 sample_events))) Outside = Some (InCase (Suc 0))"
    by (simp add: sample_events_def)
  from jr.calls_ok [OF ok this] obtain j where
    j: "reporter_calls junit_reporter (map (Pair sample_environment) (take 4 sample_events)) (JunitReporter_new 0 sample_config []) = Some j"
      "junit_ok (InCase (Suc 0)) j" by auto
  then have "\<not> jr_okToFail j \<and> jr_unexpectedExceptions j = 0"
    by (auto simp: sample_events_def junit_reporter_def sample_test_def okToFail_def Let_def)
  then show ?thesis using j(2) by blast
qed

lemma unat_max_size: "unat (- 1 :: size_t) = 18446744073709551615"
  by (subst unsigned_minus_1_eq_mask) (simp add: mask_eq_exp_minus_1)

lemma new_run_failed: "failed (assertions (rc_totals (RunContext_new disposition g))) = 0"
  by (simp add: RunContext_new_def report_def Totals_zero_def Counts_zero_def)

text \<open>The name of a test with a colon just before the width cannot be laid out.\<close>

lemma header_at_width: "printHeaderString (replicate 77 (CHR ''x'') @ '': tail'') 0 = None"
  by code_simp

end
