(* ===== verification/Catch_Compare.thy ===== *)
theory Catch_Compare
  imports Catch_Values
begin

text \<open>
  Comparisons in assertions (\<open>src/lib/catch.hpp\<close>, the part \<open>catch_evaluate.hpp\<close>): the operators,
  the overloads of \<open>compare\<close> that avoid warnings about signed and unsigned operands, and the
  text of an operand.  Operands are values of the integer types, with the sizes of LP64; a
  signed operand is a word that is read with its sign.
\<close>

subsection \<open>Operands\<close>

datatype operand =
    C_bool bool | C_char u8 | C_uchar u8 | C_int u32 | C_uint u32 | C_long u64 | C_ulong u64
  | C_longlong u64 | C_ulonglong u64

primrec operand_value :: "operand \<Rightarrow> int" where
  "operand_value (C_bool b) = (if b then 1 else 0)"
| "operand_value (C_char c) = sint c"
| "operand_value (C_uchar c) = uint c"
| "operand_value (C_int w) = sint w"
| "operand_value (C_uint w) = uint w"
| "operand_value (C_long w) = sint w"
| "operand_value (C_ulong w) = uint w"
| "operand_value (C_longlong w) = sint w"
| "operand_value (C_ulonglong w) = uint w"

text \<open>The type of a promoted operand: whether it is signed, and its width\<close>

primrec promoted :: "operand \<Rightarrow> bool \<times> nat" where
  "promoted (C_bool b) = (True, 32)"
| "promoted (C_char c) = (True, 32)"
| "promoted (C_uchar c) = (True, 32)"
| "promoted (C_int w) = (True, 32)"
| "promoted (C_uint w) = (False, 32)"
| "promoted (C_long w) = (True, 64)"
| "promoted (C_ulong w) = (False, 64)"
| "promoted (C_longlong w) = (True, 64)"
| "promoted (C_ulonglong w) = (False, 64)"

text \<open>
  The usual arithmetic conversions of C++.  A signed type of the same width as an unsigned one
  cannot represent all its values, so that the common type is unsigned.
\<close>

definition common_type :: "bool \<times> nat \<Rightarrow> bool \<times> nat \<Rightarrow> bool \<times> nat" where
  "common_type s t =
     (if snd s = snd t then (fst s \<and> fst t, snd s) else if snd s < snd t then t else s)"

definition convert_to :: "bool \<times> nat \<Rightarrow> int \<Rightarrow> int" where
  "convert_to t v = (if fst t then v else v mod 2 ^ snd t)"

subsection \<open>Operators\<close>

datatype Operator =
    IsEqualTo | IsNotEqualTo | IsLessThan | IsGreaterThan | IsLessThanOrEqualTo
  | IsGreaterThanOrEqualTo

primrec getName :: "Operator \<Rightarrow> string" where
  "getName IsEqualTo = ''==''"
| "getName IsNotEqualTo = ''!=''"
| "getName IsLessThan = ''<''"
| "getName IsGreaterThan = ''>''"
| "getName IsLessThanOrEqualTo = ''<=''"
| "getName IsGreaterThanOrEqualTo = ''>=''"

primrec holds :: "Operator \<Rightarrow> 'a::linorder \<Rightarrow> 'a \<Rightarrow> bool" where
  "holds IsEqualTo a b \<longleftrightarrow> a = b"
| "holds IsNotEqualTo a b \<longleftrightarrow> a \<noteq> b"
| "holds IsLessThan a b \<longleftrightarrow> a < b"
| "holds IsGreaterThan a b \<longleftrightarrow> a > b"
| "holds IsLessThanOrEqualTo a b \<longleftrightarrow> a \<le> b"
| "holds IsGreaterThanOrEqualTo a b \<longleftrightarrow> a \<ge> b"

text \<open>\<open>Evaluator::evaluate\<close>: the operator of the language\<close>

definition applyEvaluator :: "Operator \<Rightarrow> operand \<Rightarrow> operand \<Rightarrow> bool" where
  "applyEvaluator oper lhs rhs =
     (let t = common_type (promoted lhs) (promoted rhs)
      in holds oper (convert_to t (operand_value lhs)) (convert_to t (operand_value rhs)))"

text \<open>The overloads in their order, each with its cast; the last line is the base overload.\<close>

definition compare :: "Operator \<Rightarrow> operand \<Rightarrow> operand \<Rightarrow> bool" where
  "compare oper lhs rhs =
     (case (lhs, rhs) of
        (C_uint l, C_int r) \<Rightarrow> applyEvaluator oper lhs (C_uint r)
      | (C_ulong l, C_int r) \<Rightarrow> applyEvaluator oper lhs (C_uint r)
      | (C_uchar l, C_int r) \<Rightarrow> applyEvaluator oper lhs (C_uint r)
      | (C_uint l, C_long r) \<Rightarrow> applyEvaluator oper lhs (C_ulong r)
      | (C_ulong l, C_long r) \<Rightarrow> applyEvaluator oper lhs (C_ulong r)
      | (C_uchar l, C_long r) \<Rightarrow> applyEvaluator oper lhs (C_ulong r)
      | (C_int l, C_uint r) \<Rightarrow> applyEvaluator oper (C_uint l) rhs
      | (C_int l, C_ulong r) \<Rightarrow> applyEvaluator oper (C_uint l) rhs
      | (C_int l, C_uchar r) \<Rightarrow> applyEvaluator oper (C_uint l) rhs
      | (C_long l, C_uint r) \<Rightarrow> applyEvaluator oper (C_ulong l) rhs
      | (C_long l, C_ulong r) \<Rightarrow> applyEvaluator oper (C_ulong l) rhs
      | (C_long l, C_uchar r) \<Rightarrow> applyEvaluator oper (C_ulong l) rhs
      | (C_longlong l, C_uint r) \<Rightarrow> applyEvaluator oper (C_ulong l) rhs
      | (C_longlong l, C_ulong r) \<Rightarrow> applyEvaluator oper (C_ulong l) rhs
      | (C_longlong l, C_ulonglong r) \<Rightarrow> applyEvaluator oper (C_ulong l) rhs
      | (C_longlong l, C_uchar r) \<Rightarrow> applyEvaluator oper (C_ulong l) rhs
      | (C_ulonglong l, C_int r) \<Rightarrow> applyEvaluator oper (C_long l) rhs
      | (C_ulonglong l, C_long r) \<Rightarrow> applyEvaluator oper (C_long l) rhs
      | (C_ulonglong l, C_longlong r) \<Rightarrow> applyEvaluator oper (C_long l) rhs
      | (C_ulonglong l, C_char r) \<Rightarrow> applyEvaluator oper (C_long l) rhs
      | _ \<Rightarrow> applyEvaluator oper lhs rhs)"

text \<open>
  Comparing a pointer with the null pointer or with an integer, which is cast to a pointer.
  Pointers are compared as addresses.
\<close>

datatype pointer_operand = Pointer u64 | Null_int u32 | Null_long u64 | Null_longlong u64 | Nullptr

primrec to_pointer :: "pointer_operand \<Rightarrow> u64" where
  "to_pointer (Pointer p) = p"
| "to_pointer (Null_int w) = scast w"
| "to_pointer (Null_long w) = w"
| "to_pointer (Null_longlong w) = w"
| "to_pointer Nullptr = 0"

definition compare_pointer :: "Operator \<Rightarrow> pointer_operand \<Rightarrow> pointer_operand \<Rightarrow> bool" where
  "compare_pointer oper lhs rhs = holds oper (to_pointer lhs) (to_pointer rhs)"

subsection \<open>The text of an operand\<close>

text \<open>There is no overload of \<open>toString\<close> for \<open>long\<close>: it goes through an output stream.\<close>

definition toString_long :: "int \<Rightarrow> string" where
  "toString_long v = (if v < 0 then ''-'' @ show_nat (nat (- v)) else show_nat (nat v))"

definition toString_long_long :: "int \<Rightarrow> string" where
  "toString_long_long v = toString_long v @ (if int hexThreshold < v then '' (0x'' @ show_base 16 (nat v) @ '')'' else [])"

definition toString_unsigned_long_long :: "u64 \<Rightarrow> string" where
  "toString_unsigned_long_long v =
     show_nat (unat v) @ (if hexThreshold < unat v then '' (0x'' @ show_base 16 (unat v) @ '')'' else [])"

primrec toString_operand :: "operand \<Rightarrow> string" where
  "toString_operand (C_bool b) = toString_bool b"
| "toString_operand (C_char c) = toString_char (char_of (unat c))"
| "toString_operand (C_uchar c) = toString_char (char_of (unat c))"
| "toString_operand (C_int w) = toString_int (sint w)"
| "toString_operand (C_uint w) = toString_unsigned w"
| "toString_operand (C_long w) = toString_long (sint w)"
| "toString_operand (C_ulong w) = toString_unsigned_long w"
| "toString_operand (C_longlong w) = toString_long_long (sint w)"
| "toString_operand (C_ulonglong w) = toString_unsigned_long_long w"

end
