(* ===== verification/Catch_Expression.thy ===== *)
theory Catch_Expression
  imports Catch_Compare Catch_Run Catch_Spec
begin

text \<open>
  The expressions inside an assertion (\<open>src/lib/catch.hpp\<close>, the parts \<open>catch_matchers.hpp\<close>,
  \<open>catch_expression_lhs.h\<close> and \<open>catch_result_builder.h\<close>): matchers and their combinations, and
  the objects into which \<open>CHECK( a == b )\<close> and \<open>CHECK_THAT\<close> decompose their argument.
\<close>

subsection \<open>Matchers\<close>

text \<open>
  \<open>Matcher\<close> is a matcher of a user or of the framework, with its \<open>match\<close> and \<open>describe\<close>.  The
  other constructors hold pointers to matchers that outlive them.
\<close>

datatype 'a matcher =
    Matcher "'a \<Rightarrow> bool" string
  | MatchAllOf "'a matcher list"
  | MatchAnyOf "'a matcher list"
  | MatchNotOf "'a matcher"

fun join :: "string \<Rightarrow> string list \<Rightarrow> string" where
  "join sep [] = []"
| "join sep [s] = s"
| "join sep (s # t # ts) = s @ sep @ join sep (t # ts)"

text \<open>The loops of \<open>match\<close> return at the first matcher that decides the result.\<close>

fun match :: "'a matcher \<Rightarrow> 'a \<Rightarrow> bool" where
  "match (Matcher f d) arg = f arg"
| "match (MatchAllOf ms) arg = list_all (\<lambda>m. match m arg) ms"
| "match (MatchAnyOf ms) arg = list_ex (\<lambda>m. match m arg) ms"
| "match (MatchNotOf m) arg = (\<not> match m arg)"

text \<open>\<open>toString\<close> caches what \<open>describe\<close> returns, which does not depend on any state.\<close>

fun describe :: "'a matcher \<Rightarrow> string" where
  "describe (Matcher f d) = d"
| "describe (MatchAllOf ms) = ''( '' @ join '' and '' (map describe ms) @ '' )''"
| "describe (MatchAnyOf ms) = ''( '' @ join '' or '' (map describe ms) @ '' )''"
| "describe (MatchNotOf m) = ''not '' @ describe m"

definition MatchAllOf_add :: "'a matcher list \<Rightarrow> 'a matcher \<Rightarrow> 'a matcher" where
  "MatchAllOf_add ms other = MatchAllOf (ms @ [other])"

definition MatchAnyOf_add :: "'a matcher list \<Rightarrow> 'a matcher \<Rightarrow> 'a matcher" where
  "MatchAnyOf_add ms other = MatchAnyOf (ms @ [other])"

text \<open>
  The operators: those of \<open>MatcherBase\<close>, and the ones that hide them in \<open>MatchAllOf\<close> and
  \<open>MatchAnyOf\<close> and extend the list.
\<close>

definition matcher_and :: "'a matcher \<Rightarrow> 'a matcher \<Rightarrow> 'a matcher" where
  "matcher_and m other =
     (case m of MatchAllOf ms \<Rightarrow> MatchAllOf_add ms other | _ \<Rightarrow> MatchAllOf [m, other])"

definition matcher_or :: "'a matcher \<Rightarrow> 'a matcher \<Rightarrow> 'a matcher" where
  "matcher_or m other =
     (case m of MatchAnyOf ms \<Rightarrow> MatchAnyOf_add ms other | _ \<Rightarrow> MatchAnyOf [m, other])"

definition matcher_not :: "'a matcher \<Rightarrow> 'a matcher" where
  "matcher_not m = MatchNotOf m"

definition AllOf2 :: "'a matcher \<Rightarrow> 'a matcher \<Rightarrow> 'a matcher" where
  "AllOf2 m1 m2 = matcher_and (matcher_and (MatchAllOf []) m1) m2"

definition AllOf3 :: "'a matcher \<Rightarrow> 'a matcher \<Rightarrow> 'a matcher \<Rightarrow> 'a matcher" where
  "AllOf3 m1 m2 m3 = matcher_and (matcher_and (matcher_and (MatchAllOf []) m1) m2) m3"

definition AnyOf2 :: "'a matcher \<Rightarrow> 'a matcher \<Rightarrow> 'a matcher" where
  "AnyOf2 m1 m2 = matcher_or (matcher_or (MatchAnyOf []) m1) m2"

definition AnyOf3 :: "'a matcher \<Rightarrow> 'a matcher \<Rightarrow> 'a matcher \<Rightarrow> 'a matcher" where
  "AnyOf3 m1 m2 m3 = matcher_or (matcher_or (matcher_or (MatchAnyOf []) m1) m2) m3"

definition string_matcher :: "StringMatcher \<Rightarrow> string matcher" where
  "string_matcher m = Matcher (string_match m) (matcher_describe m)"

text \<open>\<open>rangeToString\<close> and the matchers of vectors; \<open>show\<close> is \<open>toString\<close> of an element.\<close>

definition rangeToString :: "('a \<Rightarrow> string) \<Rightarrow> 'a list \<Rightarrow> string" where
  "rangeToString shw vs = ''{ '' @ join '', '' (map shw vs) @ '' }''"

text \<open>A tuple, whose elements have been converted, and a pointer, by the bytes of its address\<close>

fun tuple_elements :: "nat \<Rightarrow> string list \<Rightarrow> string" where
  "tuple_elements n [] = []"
| "tuple_elements n (t # ts) = (if n \<noteq> 0 then '', '' else '' '') @ t @ tuple_elements (Suc n) ts"

definition toString_tuple :: "string list \<Rightarrow> string" where
  "toString_tuple ts = ''{'' @ tuple_elements 0 ts @ '' }''"

definition toString_pointer :: "u64 \<Rightarrow> string" where
  "toString_pointer p =
     (if p = 0 then ''NULL'' else rawMemoryToString (map (\<lambda>i. ucast (drop_bit (8 * i) p)) [0..<8]))"

definition vector_contains_element_matcher :: "('a \<Rightarrow> string) \<Rightarrow> 'a \<Rightarrow> 'a list matcher" where
  "vector_contains_element_matcher shw comparator =
     Matcher (vector_contains_element comparator) (''Contains: '' @ shw comparator)"

definition vector_contains_matcher :: "('a \<Rightarrow> string) \<Rightarrow> 'a list \<Rightarrow> 'a list matcher" where
  "vector_contains_matcher shw comparator =
     Matcher (vector_contains comparator) (''Contains: '' @ rangeToString shw comparator)"

definition vector_equals_matcher :: "('a \<Rightarrow> string) \<Rightarrow> 'a list \<Rightarrow> 'a list matcher" where
  "vector_equals_matcher shw comparator =
     Matcher (vector_equals comparator) (''Equals: '' @ rangeToString shw comparator)"

subsection \<open>Decomposed expressions\<close>

text \<open>
  The left-hand side alone, with the field \<open>m_truthy\<close>; a comparison; and an argument with a
  matcher and the source text of the matcher.
\<close>

datatype 'a DecomposedExpression =
    ExpressionLhs operand bool
  | BinaryExpression operand Operator operand
  | MatchExpression 'a "'a matcher" string

primrec isBinaryExpression :: "'a DecomposedExpression \<Rightarrow> bool" where
  "isBinaryExpression (ExpressionLhs lhs truthy) = False"
| "isBinaryExpression (BinaryExpression lhs oper rhs) = True"
| "isBinaryExpression (MatchExpression arg m str) = True"

definition unprintableString :: string where
  "unprintableString = ''{?}''"

definition binary_delimiter :: "string \<Rightarrow> string \<Rightarrow> char" where
  "binary_delimiter lhs rhs =
     (if length lhs + length rhs < 40 \<and> CHR 0x0A \<notin> set lhs \<and> CHR 0x0A \<notin> set rhs then CHR '' '' else CHR 0x0A)"

primrec reconstruct :: "('a \<Rightarrow> string) \<Rightarrow> 'a DecomposedExpression \<Rightarrow> string" where
  "reconstruct shw (ExpressionLhs lhs truthy) = toString_bool truthy"
| "reconstruct shw (BinaryExpression lhs oper rhs) =
     (let l = toString_operand lhs; r = toString_operand rhs; delim = binary_delimiter l r
      in l @ [delim] @ getName oper @ [delim] @ r)"
| "reconstruct shw (MatchExpression arg m matcherString) =
     shw arg @ '' '' @
     (if describe m = unprintableString then matcherString else describe m)"

text \<open>\<open>endExpression\<close> of the three classes\<close>

definition lhs_endExpression ::
  "operand \<Rightarrow> ResultBuilder \<Rightarrow> RunContext \<Rightarrow> (ResultBuilder \<times> RunContext) option"
where
  "lhs_endExpression lhs b r =
     (let truthy = (operand_value lhs \<noteq> 0);
          expr = (ExpressionLhs lhs truthy :: unit DecomposedExpression)
      in endExpression (reconstruct (\<lambda>_. []) expr) (isBinaryExpression expr) (setResultType_bool truthy b) r)"

definition binary_endExpression ::
  "operand \<Rightarrow> Operator \<Rightarrow> operand \<Rightarrow> ResultBuilder \<Rightarrow> RunContext \<Rightarrow> (ResultBuilder \<times> RunContext) option"
where
  "binary_endExpression lhs oper rhs b r =
     (let expr = (BinaryExpression lhs oper rhs :: unit DecomposedExpression)
      in endExpression (reconstruct (\<lambda>_. []) expr) (isBinaryExpression expr)
           (setResultType_bool (compare oper lhs rhs) b) r)"

definition captureMatch ::
  "('a \<Rightarrow> string) \<Rightarrow> 'a \<Rightarrow> 'a matcher \<Rightarrow> string \<Rightarrow> ResultBuilder \<Rightarrow> RunContext \<Rightarrow>
   (ResultBuilder \<times> RunContext) option"
where
  "captureMatch shw arg m matcherString b r =
     (let expr = MatchExpression arg m matcherString
      in endExpression (reconstruct shw expr) (isBinaryExpression expr) (setResultType_bool (match m arg) b) r)"

end
