(* ===== verification/Catch_Platform.thy ===== *)
theory Catch_Platform
  imports Catch_Strings
begin

text \<open>
  What the framework does around the operating system (\<open>src/lib/catch.hpp\<close>): the buffer of the
  debug stream (\<open>catch_stream.hpp\<close>), translators of exceptions
  (\<open>catch_exception_translator_registry.hpp\<close>), the timer, the handlers of fatal signals
  (\<open>catch_fatal_condition.hpp\<close>), the search for a debugger on Linux, and the class name of a
  test method.
\<close>

subsection \<open>A buffered stream\<close>

text \<open>
  \<open>StreamBufImpl\<close> over the put area of \<open>std::streambuf\<close>: \<open>sb_data\<close> are the characters between
  \<open>pbase()\<close> and \<open>pptr()\<close>, \<open>sb_size\<close> is \<open>epptr() - pbase()\<close>, and \<open>sb_written\<close> the calls of the writer.
\<close>

record stream_buf =
  sbuf_data :: string
  sbuf_size :: nat
  sbuf_written :: "string list"

definition StreamBufImpl_new :: "nat \<Rightarrow> stream_buf" where
  "StreamBufImpl_new bufferSize = \<lparr>sbuf_data = [], sbuf_size = bufferSize, sbuf_written = []\<rparr>"

definition sbuf_sync :: "stream_buf \<Rightarrow> stream_buf" where
  "sbuf_sync b =
     (if sbuf_data b \<noteq> [] then b\<lparr>sbuf_written := sbuf_written b @ [sbuf_data b], sbuf_data := []\<rparr> else b)"

text \<open>\<open>c\<close> is \<open>None\<close> for \<open>EOF\<close>.  After \<open>sync\<close> the buffer is empty, so \<open>sputc\<close> stores the character.\<close>

definition sbuf_overflow :: "char option \<Rightarrow> stream_buf \<Rightarrow> stream_buf" where
  "sbuf_overflow c b =
     (let b = sbuf_sync b
      in case c of
           None \<Rightarrow> b
         | Some c \<Rightarrow> if sbuf_size b = 0 then b\<lparr>sbuf_written := sbuf_written b @ [[c]]\<rparr>
                     else b\<lparr>sbuf_data := sbuf_data b @ [c]\<rparr>)"

text \<open>\<open>std::streambuf::sputc\<close> calls \<open>overflow\<close> when there is no room.\<close>

definition sbuf_sputc :: "char \<Rightarrow> stream_buf \<Rightarrow> stream_buf" where
  "sbuf_sputc c b =
     (if length (sbuf_data b) < sbuf_size b then b\<lparr>sbuf_data := sbuf_data b @ [c]\<rparr> else sbuf_overflow (Some c) b)"

definition StreamBufImpl_destroy :: "stream_buf \<Rightarrow> stream_buf" where
  "StreamBufImpl_destroy b = sbuf_sync b"

datatype stream_op = Put char | Flush

primrec stream_do :: "stream_op \<Rightarrow> stream_buf \<Rightarrow> stream_buf" where
  "stream_do (Put c) b = sbuf_sputc c b"
| "stream_do Flush b = sbuf_sync b"

primrec stream_char :: "stream_op \<Rightarrow> string" where
  "stream_char (Put c) = [c]"
| "stream_char Flush = []"

subsection \<open>Translating exceptions\<close>

text \<open>
  An exception that is being handled.  A translator is the function that was registered for a
  type \<open>T\<close>: \<open>None\<close> if the exception is not a \<open>T\<close>, else the text, or what the function itself throws.
\<close>

datatype 'e active_exception =
    TestFailureException
  | StdException string
  | StringException string
  | CStringException string
  | OtherException 'e

type_synonym 'e translator = "'e active_exception \<Rightarrow> ('e active_exception + string) option"

text \<open>
  \<open>translate( it, itEnd )\<close> of a translator: the translators behind it are asked first, by a nested
  call; the last one throws the exception again.
\<close>

fun translate :: "'e translator \<Rightarrow> 'e translator list \<Rightarrow> 'e active_exception \<Rightarrow> 'e active_exception + string" where
  "translate t [] active = (case t active of None \<Rightarrow> Inl active | Some res \<Rightarrow> res)"
| "translate t (u # us) active =
     (case translate u us active of
        Inr s \<Rightarrow> Inr s
      | Inl thrown \<Rightarrow> (case t thrown of None \<Rightarrow> Inl thrown | Some res \<Rightarrow> res))"

definition tryTranslators :: "'e translator list \<Rightarrow> 'e active_exception \<Rightarrow> 'e active_exception + string" where
  "tryTranslators ts active = (case ts of [] \<Rightarrow> Inl active | t # ts \<Rightarrow> translate t ts active)"

definition registerTranslator :: "'e translator \<Rightarrow> 'e translator list \<Rightarrow> 'e translator list" where
  "registerTranslator t ts = ts @ [t]"

text \<open>\<open>None\<close> is a \<open>TestFailureException\<close>, which is thrown on.\<close>

definition translateActiveException :: "'e translator list \<Rightarrow> 'e active_exception \<Rightarrow> string option" where
  "translateActiveException ts active =
     (case tryTranslators ts active of
        Inr s \<Rightarrow> Some s
      | Inl TestFailureException \<Rightarrow> None
      | Inl (StdException what) \<Rightarrow> Some what
      | Inl (StringException msg) \<Rightarrow> Some msg
      | Inl (CStringException msg) \<Rightarrow> Some msg
      | Inl (OtherException e) \<Rightarrow> Some ''Unknown exception'')"

subsection \<open>The timer\<close>

text \<open>The clock is a parameter: what \<open>gettimeofday\<close> returns as seconds and microseconds.\<close>

definition getCurrentTicks :: "u64 \<Rightarrow> u64 \<Rightarrow> u64" where
  "getCurrentTicks tv_sec tv_usec = tv_sec * 1000000 + tv_usec"

record Timer =
  m_ticks :: u64

definition Timer_new :: Timer where
  "Timer_new = \<lparr>m_ticks = 0\<rparr>"

definition Timer_start :: "u64 \<Rightarrow> Timer \<Rightarrow> Timer" where
  "Timer_start ticks t = t\<lparr>m_ticks := ticks\<rparr>"

definition getElapsedMicroseconds :: "u64 \<Rightarrow> Timer \<Rightarrow> u32" where
  "getElapsedMicroseconds ticks t = ucast (ticks - m_ticks t)"

definition getElapsedMilliseconds :: "u64 \<Rightarrow> Timer \<Rightarrow> u32" where
  "getElapsedMilliseconds ticks t = getElapsedMicroseconds ticks t div 1000"

subsection \<open>Fatal signals\<close>

text \<open>
  The POSIX branch.  \<open>'h\<close> are the handlers that the program under test or the system has
  installed; the framework's own is \<open>HandleSignal\<close>.  The numbers of the signals are those of Linux.
\<close>

datatype 'h sigaction = HandleSignal | Other_action 'h

definition signalDefs :: "(int \<times> string) list" where
  "signalDefs =
     [(2, ''SIGINT - Terminal interrupt signal''),
      (4, ''SIGILL - Illegal instruction signal''),
      (8, ''SIGFPE - Floating point error signal''),
      (11, ''SIGSEGV - Segmentation violation signal''),
      (15, ''SIGTERM - Termination request signal''),
      (6, ''SIGABRT - Abort (abnormal termination) signal'')]"

text \<open>The process: its handlers and its alternative stack, and the static fields of the class\<close>

record 'h process =
  pr_actions :: "int \<Rightarrow> 'h sigaction"
  pr_altstack :: "nat option"
  fch_isSet :: bool
  fch_oldSigActions :: "'h sigaction list"
  fch_oldSigStack :: "nat option"

definition altStackMem :: "nat option" where
  "altStackMem = Some 0"

text \<open>One call of \<open>sigaction\<close> with an old action to fill in, and one without\<close>

definition install :: "'h sigaction \<Rightarrow> int \<Rightarrow> 'h process \<Rightarrow> 'h process" where
  "install sa sig p =
     p\<lparr>fch_oldSigActions := fch_oldSigActions p @ [pr_actions p sig], pr_actions := (pr_actions p)(sig := sa)\<rparr>"

definition FatalConditionHandler_new :: "'h process \<Rightarrow> 'h process" where
  "FatalConditionHandler_new p =
     fold (\<lambda>(sig, name). install HandleSignal sig) signalDefs
       (p\<lparr>fch_isSet := True, fch_oldSigStack := pr_altstack p, pr_altstack := altStackMem, fch_oldSigActions := []\<rparr>)"

definition FatalConditionHandler_reset :: "'h process \<Rightarrow> 'h process" where
  "FatalConditionHandler_reset p =
     (if fch_isSet p
      then p\<lparr>pr_actions := fold (\<lambda>((sig, name), old) f. f(sig := old)) (zip signalDefs (fch_oldSigActions p)) (pr_actions p),
             pr_altstack := fch_oldSigStack p, fch_isSet := False\<rparr>
      else p)"

text \<open>\<open>handleSignal\<close>: the message that is reported, and the process when the signal is raised again\<close>

definition handleSignal :: "int \<Rightarrow> 'h process \<Rightarrow> string \<times> 'h process" where
  "handleSignal sig p =
     (case map_of signalDefs sig of None \<Rightarrow> ''<unknown signal>'' | Some name \<Rightarrow> name,
      FatalConditionHandler_reset p)"

subsection \<open>The debugger and class names\<close>

text \<open>The lines of \<open>/proc/self/status\<close> are a parameter; the first with the prefix decides.\<close>

fun isDebuggerActive :: "string list \<Rightarrow> bool" where
  "isDebuggerActive [] = False"
| "isDebuggerActive (l # ls) =
     (if take 11 l = ''TracerPid:'' @ [CHR 0x09] then 11 < length l \<and> l ! 11 \<noteq> CHR ''0''
      else isDebuggerActive ls)"

text \<open>\<open>s.rfind(t, pos)\<close> with \<open>None\<close> for \<open>npos\<close>, which is also the greatest position\<close>

definition rfind :: "string \<Rightarrow> string \<Rightarrow> nat option \<Rightarrow> nat option" where
  "rfind s t pos =
     (let last = (case pos of None \<Rightarrow> length s | Some p \<Rightarrow> min p (length s));
          found = filter (\<lambda>i. take (length t) (drop i s) = t) [0..<Suc last]
      in if found = [] then None else Some (List.last found))"

text \<open>
  The name begins with \<open>&\<close>, so that a double colon is not at position 0; without one, \<open>npos - 1\<close> is
  behind every position of the string.
\<close>

definition extractClassName :: "string \<Rightarrow> string" where
  "extractClassName name =
     (if startsWithCh name (CHR ''&'')
      then let lastColons = rfind name ''::'' None;
               penultimateColons = rfind name ''::'' (map_option (\<lambda>n. n - 1) lastColons);
               start = (case penultimateColons of None \<Rightarrow> 1 | Some p \<Rightarrow> p)
           in (case lastColons of
                 None \<Rightarrow> drop start name
               | Some n \<Rightarrow> take (n - start) (drop start name))
      else name)"

end
