(* ===== verification/Catch_Macros.thy ===== *)
theory Catch_Macros
  imports Catch_Expression Catch_Platform Catch_Reporter
begin

text \<open>
  The macros of assertions (\<open>src/lib/catch.hpp\<close>, the part \<open>catch_capture.hpp\<close> and the public macros
  at the end of the file).

  The expression of a macro is an argument: it maps the run, in which it may make assertions of
  its own, to the run after it and a value or the exception that it throws.  \<open>captured\<close> is its
  source text and \<open>location\<close> the line.  The result of a macro is the run after it and how it
  ends: by going on, or with the exception of a failed test.  \<open>translators\<close> are the registered
  translators of exceptions.  Breaking into a debugger changes no state.
\<close>

datatype ('v, 'e) evaluated = Value 'v | Throws "'e active_exception"

type_synonym ('v, 'e) evaluation = "RunContext \<Rightarrow> RunContext \<times> ('v, 'e) evaluated"

datatype test_expr = Unary operand | Binary operand Operator operand

subsection \<open>The end of a macro\<close>

text \<open>\<open>INTERNAL_CATCH_REACT\<close>\<close>

definition INTERNAL_CATCH_REACT :: "ResultBuilder \<times> RunContext \<Rightarrow> RunContext \<times> test_exit" where
  "INTERNAL_CATCH_REACT = (\<lambda>(b, r). (r, if react b then TestFailure else Returned))"

text \<open>
  \<open>useActiveException\<close> in a handler.  Translating throws the exception of a failed test on: it
  leaves the handler and with it the macro.
\<close>

definition use_active_exception ::
  "'e translator list \<Rightarrow> int \<Rightarrow> 'e active_exception \<Rightarrow> ResultBuilder \<Rightarrow> RunContext \<Rightarrow>
   (RunContext \<times> test_exit) option"
where
  "use_active_exception translators disposition ex b r =
     (case translateActiveException translators ex of
        None \<Rightarrow> Some (r, TestFailure)
      | Some msg \<Rightarrow> map_option INTERNAL_CATCH_REACT (useActiveException msg disposition b r))"

subsection \<open>Expressions and matchers\<close>

definition test_endExpression ::
  "test_expr \<Rightarrow> ResultBuilder \<Rightarrow> RunContext \<Rightarrow> (ResultBuilder \<times> RunContext) option"
where
  "test_endExpression e b r =
     (case e of Unary lhs \<Rightarrow> lhs_endExpression lhs b r | Binary lhs oper rhs \<Rightarrow> binary_endExpression lhs oper rhs b r)"

definition INTERNAL_CATCH_TEST ::
  "'e translator list \<Rightarrow> string \<Rightarrow> SourceLineInfo \<Rightarrow> string \<Rightarrow> int \<Rightarrow> (test_expr, 'e) evaluation \<Rightarrow> RunContext \<Rightarrow>
   (RunContext \<times> test_exit) option"
where
  "INTERNAL_CATCH_TEST translators macro location captured disposition expr r =
     (let b = ResultBuilder_new macro location captured disposition []
      in (case expr r of
            (r, Value e) \<Rightarrow> map_option INTERNAL_CATCH_REACT (test_endExpression e b r)
          | (r, Throws ex) \<Rightarrow> use_active_exception translators disposition ex b r))"

text \<open>The statement that follows the macro is run when the last result says so.\<close>

definition INTERNAL_CATCH_IF ::
  "'e translator list \<Rightarrow> string \<Rightarrow> SourceLineInfo \<Rightarrow> string \<Rightarrow> int \<Rightarrow> (test_expr, 'e) evaluation \<Rightarrow>
   (RunContext \<Rightarrow> RunContext \<times> test_exit) \<Rightarrow> RunContext \<Rightarrow> (RunContext \<times> test_exit) option"
where
  "INTERNAL_CATCH_IF translators macro location captured disposition expr branch r =
     do { (r, exit) \<leftarrow> INTERNAL_CATCH_TEST translators macro location captured disposition expr r;
          if exit \<noteq> Returned then Some (r, exit)
          else do { result \<leftarrow> rc_lastResult r;
                    Some (if succeeded result then branch r else (r, Returned)) } }"

definition INTERNAL_CATCH_ELSE ::
  "'e translator list \<Rightarrow> string \<Rightarrow> SourceLineInfo \<Rightarrow> string \<Rightarrow> int \<Rightarrow> (test_expr, 'e) evaluation \<Rightarrow>
   (RunContext \<Rightarrow> RunContext \<times> test_exit) \<Rightarrow> RunContext \<Rightarrow> (RunContext \<times> test_exit) option"
where
  "INTERNAL_CATCH_ELSE translators macro location captured disposition expr branch r =
     do { (r, exit) \<leftarrow> INTERNAL_CATCH_TEST translators macro location captured disposition expr r;
          if exit \<noteq> Returned then Some (r, exit)
          else do { result \<leftarrow> rc_lastResult r;
                    Some (if \<not> succeeded result then branch r else (r, Returned)) } }"

text \<open>The argument is evaluated inside the handler, like the expression of the other macros.\<close>

definition INTERNAL_CHECK_THAT ::
  "'e translator list \<Rightarrow> string \<Rightarrow> SourceLineInfo \<Rightarrow> string \<Rightarrow> string \<Rightarrow> int \<Rightarrow> ('a \<Rightarrow> string) \<Rightarrow> 'a matcher \<Rightarrow>
   ('a, 'e) evaluation \<Rightarrow> RunContext \<Rightarrow> (RunContext \<times> test_exit) option"
where
  "INTERNAL_CHECK_THAT translators macro location argText matcherText disposition shw m arg r =
     (let b = ResultBuilder_new macro location (argText @ '', '' @ matcherText) disposition []
      in (case arg r of
            (r, Value v) \<Rightarrow> map_option INTERNAL_CATCH_REACT (captureMatch shw v m matcherText b r)
          | (r, Throws ex) \<Rightarrow> use_active_exception translators (disposition_or disposition ContinueOnFailure) ex b r))"

subsection \<open>Exceptions\<close>

definition INTERNAL_CATCH_NO_THROW ::
  "'e translator list \<Rightarrow> string \<Rightarrow> SourceLineInfo \<Rightarrow> string \<Rightarrow> int \<Rightarrow> (unit, 'e) evaluation \<Rightarrow> RunContext \<Rightarrow>
   (RunContext \<times> test_exit) option"
where
  "INTERNAL_CATCH_NO_THROW translators macro location captured disposition expr r =
     (let b = ResultBuilder_new macro location captured disposition []
      in (case expr r of
            (r, Value _) \<Rightarrow> map_option INTERNAL_CATCH_REACT (captureResult Ok b r)
          | (r, Throws ex) \<Rightarrow> use_active_exception translators disposition ex b r))"

text \<open>What the message of an exception is compared with: a string, empty for any, or a matcher\<close>

datatype expected_message = Expected_string string | Expected_matcher "string matcher"

definition expected_matcher :: "expected_message \<Rightarrow> string matcher" where
  "expected_matcher m =
     (case m of
        Expected_string s \<Rightarrow> if s = [] then MatchAllOf [] else string_matcher (Equals s Yes)
      | Expected_matcher m \<Rightarrow> m)"

definition INTERNAL_CATCH_THROWS ::
  "'e translator list \<Rightarrow> string \<Rightarrow> SourceLineInfo \<Rightarrow> string \<Rightarrow> int \<Rightarrow> string \<Rightarrow> expected_message \<Rightarrow>
   (unit, 'e) evaluation \<Rightarrow> RunContext \<Rightarrow> (RunContext \<times> test_exit) option"
where
  "INTERNAL_CATCH_THROWS translators macro location captured disposition matcherText expected expr r =
     (let b = ResultBuilder_new macro location captured disposition matcherText
      in if allowThrows (rc_config r)
         then (case expr r of
                 (r, Value _) \<Rightarrow> map_option INTERNAL_CATCH_REACT (captureResult DidntThrowException b r)
               | (r, Throws ex) \<Rightarrow>
                   (case translateActiveException translators ex of
                      None \<Rightarrow> Some (r, TestFailure)
                    | Some msg \<Rightarrow>
                        map_option INTERNAL_CATCH_REACT
                          (captureExpectedException (match (expected_matcher expected)) msg b r)))
         else map_option INTERNAL_CATCH_REACT (captureResult Ok b r))"

text \<open>\<open>catches\<close> says which exceptions the handler for the type takes.\<close>

definition INTERNAL_CATCH_THROWS_AS ::
  "'e translator list \<Rightarrow> string \<Rightarrow> SourceLineInfo \<Rightarrow> string \<Rightarrow> string \<Rightarrow> ('e active_exception \<Rightarrow> bool) \<Rightarrow> int \<Rightarrow>
   (unit, 'e) evaluation \<Rightarrow> RunContext \<Rightarrow> (RunContext \<times> test_exit) option"
where
  "INTERNAL_CATCH_THROWS_AS translators macro location captured exceptionType catches disposition expr r =
     (let b = ResultBuilder_new macro location (captured @ '', '' @ exceptionType) disposition []
      in if allowThrows (rc_config r)
         then (case expr r of
                 (r, Value _) \<Rightarrow> map_option INTERNAL_CATCH_REACT (captureResult DidntThrowException b r)
               | (r, Throws ex) \<Rightarrow>
                   if catches ex then map_option INTERNAL_CATCH_REACT (captureResult Ok b r)
                   else use_active_exception translators disposition ex b r)
         else map_option INTERNAL_CATCH_REACT (captureResult Ok b r))"

subsection \<open>Messages\<close>

definition INTERNAL_CATCH_MSG ::
  "string \<Rightarrow> SourceLineInfo \<Rightarrow> ResultWas \<Rightarrow> int \<Rightarrow> string \<Rightarrow> RunContext \<Rightarrow> (RunContext \<times> test_exit) option"
where
  "INTERNAL_CATCH_MSG macro location messageType disposition log r =
     (let b = ResultBuilder_new macro location [] disposition []
      in map_option INTERNAL_CATCH_REACT (captureResult messageType (b\<lparr>rb_stream := rb_stream b @ log\<rparr>) r))"

text \<open>The message in scope and the counter of messages after it\<close>

definition INTERNAL_CATCH_INFO ::
  "string \<Rightarrow> SourceLineInfo \<Rightarrow> string \<Rightarrow> u32 \<Rightarrow> RunContext \<Rightarrow> MessageInfo \<times> u32 \<times> RunContext"
where
  "INTERNAL_CATCH_INFO macro location log globalCount r =
     (let (info, n) = MessageInfo_new macro location Info globalCount;
          (m, r) = ScopedMessage_new info log r
      in (m, n, r))"

subsection \<open>The macros of a test\<close>

text \<open>The name and the disposition of each macro that asserts an expression, a throw or a match\<close>

datatype assert_macro = REQUIRE | REQUIRE_FALSE | CHECK | CHECK_FALSE | CHECK_NOFAIL

primrec test_macro_name :: "assert_macro \<Rightarrow> string" where
  "test_macro_name REQUIRE = ''REQUIRE''"
| "test_macro_name REQUIRE_FALSE = ''REQUIRE_FALSE''"
| "test_macro_name CHECK = ''CHECK''"
| "test_macro_name CHECK_FALSE = ''CHECK_FALSE''"
| "test_macro_name CHECK_NOFAIL = ''CHECK_NOFAIL''"

primrec test_macro_disposition :: "assert_macro \<Rightarrow> int" where
  "test_macro_disposition REQUIRE = Normal"
| "test_macro_disposition REQUIRE_FALSE = disposition_or Normal FalseTest"
| "test_macro_disposition CHECK = ContinueOnFailure"
| "test_macro_disposition CHECK_FALSE = disposition_or ContinueOnFailure FalseTest"
| "test_macro_disposition CHECK_NOFAIL = disposition_or ContinueOnFailure SuppressFail"

definition test_macro ::
  "'e translator list \<Rightarrow> assert_macro \<Rightarrow> SourceLineInfo \<Rightarrow> string \<Rightarrow> (test_expr, 'e) evaluation \<Rightarrow> RunContext \<Rightarrow>
   (RunContext \<times> test_exit) option"
where
  "test_macro translators m location captured expr =
     INTERNAL_CATCH_TEST translators (test_macro_name m) location captured (test_macro_disposition m) expr"

datatype throws_macro = REQUIRE_THROWS | REQUIRE_THROWS_WITH expected_message | CHECK_THROWS | CHECK_THROWS_WITH expected_message

text \<open>Without a matcher it is the empty string, whose source text is two quotes.\<close>

definition throw_macro ::
  "'e translator list \<Rightarrow> throws_macro \<Rightarrow> SourceLineInfo \<Rightarrow> string \<Rightarrow> string \<Rightarrow> (unit, 'e) evaluation \<Rightarrow> RunContext \<Rightarrow>
   (RunContext \<times> test_exit) option"
where
  "throw_macro translators m location captured matcherText expr =
     (let any = [CHR 0x22, CHR 0x22]
      in (case m of
            REQUIRE_THROWS \<Rightarrow>
              INTERNAL_CATCH_THROWS translators ''REQUIRE_THROWS'' location captured Normal any (Expected_string []) expr
          | REQUIRE_THROWS_WITH e \<Rightarrow>
              INTERNAL_CATCH_THROWS translators ''REQUIRE_THROWS_WITH'' location captured Normal matcherText e expr
          | CHECK_THROWS \<Rightarrow>
              INTERNAL_CATCH_THROWS translators ''CHECK_THROWS'' location captured ContinueOnFailure any (Expected_string []) expr
          | CHECK_THROWS_WITH e \<Rightarrow>
              INTERNAL_CATCH_THROWS translators ''CHECK_THROWS_WITH'' location captured ContinueOnFailure matcherText e expr))"

definition WARN :: "SourceLineInfo \<Rightarrow> string \<Rightarrow> RunContext \<Rightarrow> (RunContext \<times> test_exit) option" where
  "WARN location msg = INTERNAL_CATCH_MSG ''WARN'' location Warning ContinueOnFailure msg"

definition FAIL :: "SourceLineInfo \<Rightarrow> string \<Rightarrow> RunContext \<Rightarrow> (RunContext \<times> test_exit) option" where
  "FAIL location msg = INTERNAL_CATCH_MSG ''FAIL'' location ExplicitFailure Normal msg"

definition FAIL_CHECK :: "SourceLineInfo \<Rightarrow> string \<Rightarrow> RunContext \<Rightarrow> (RunContext \<times> test_exit) option" where
  "FAIL_CHECK location msg = INTERNAL_CATCH_MSG ''FAIL_CHECK'' location ExplicitFailure ContinueOnFailure msg"

definition SUCCEED :: "SourceLineInfo \<Rightarrow> string \<Rightarrow> RunContext \<Rightarrow> (RunContext \<times> test_exit) option" where
  "SUCCEED location msg = INTERNAL_CATCH_MSG ''SUCCEED'' location Ok ContinueOnFailure msg"

text \<open>The headings of sections in the style of behaviours\<close>

definition GIVEN :: "string \<Rightarrow> string" where "GIVEN desc = ''   Given: '' @ desc"
definition WHEN :: "string \<Rightarrow> string" where "WHEN desc = ''    When: '' @ desc"
definition AND_WHEN :: "string \<Rightarrow> string" where "AND_WHEN desc = ''And when: '' @ desc"
definition THEN_section :: "string \<Rightarrow> string" where "THEN_section desc = ''    Then: '' @ desc"
definition AND_THEN :: "string \<Rightarrow> string" where "AND_THEN desc = ''     And: '' @ desc"

end
