(* ===== verification/Catch_Expression_Correct.thy ===== *)
theory Catch_Expression_Correct
  imports Catch_Expression Catch_Values_Correct
begin

text \<open>
  Correctness of comparisons and expressions: which operands \<open>compare\<close> compares otherwise than
  the language does, what matchers mean when they are combined, and what an assertion about a
  comparison reports.
\<close>

subsection \<open>Comparisons of operands of different signedness\<close>

text \<open>
  The operands that \<open>compare\<close> does not compare as the language does.  \<open>unsigned long\<close> and \<open>int\<close>:
  the negative operand has \<open>2 ^ 32\<close> added and not \<open>2 ^ 64\<close>, which is seen if the unsigned one lies
  between.  A narrower unsigned type: the language compares with the negative operand itself.
  \<open>unsigned long long\<close>: the language compares unsigned values, \<open>compare\<close> signed ones.
\<close>

definition between_shifts :: "int \<Rightarrow> int \<Rightarrow> bool" where
  "between_shifts a b \<longleftrightarrow> b < 0 \<and> b + 2 ^ 32 \<le> a \<and> a \<le> b + 2 ^ 64"

definition surprising :: "operand \<Rightarrow> operand \<Rightarrow> bool" where
  "surprising lhs rhs =
     (let a = operand_value lhs; b = operand_value rhs
      in case (lhs, rhs) of
        (C_ulong l, C_int r) \<Rightarrow> between_shifts a b
      | (C_int l, C_ulong r) \<Rightarrow> between_shifts b a
      | (C_uchar l, C_int r) \<Rightarrow> b < 0 | (C_int l, C_uchar r) \<Rightarrow> a < 0
      | (C_uint l, C_long r) \<Rightarrow> b < 0 | (C_long l, C_uint r) \<Rightarrow> a < 0
      | (C_uchar l, C_long r) \<Rightarrow> b < 0 | (C_long l, C_uchar r) \<Rightarrow> a < 0
      | (C_longlong l, C_uint r) \<Rightarrow> a < 0 | (C_longlong l, C_uchar r) \<Rightarrow> a < 0
      | (C_ulonglong l, C_int r) \<Rightarrow> 2 ^ 63 \<le> a \<longleftrightarrow> 0 \<le> b
      | (C_ulonglong l, C_long r) \<Rightarrow> 2 ^ 63 \<le> a \<longleftrightarrow> 0 \<le> b
      | (C_ulonglong l, C_longlong r) \<Rightarrow> 2 ^ 63 \<le> a \<longleftrightarrow> 0 \<le> b
      | (C_ulonglong l, C_char r) \<Rightarrow> 2 ^ 63 \<le> a \<longleftrightarrow> 0 \<le> b
      | _ \<Rightarrow> False)"

text \<open>All six operators agree exactly if the order of the operands is the same.\<close>

lemma holds_agree:
  fixes a b c d :: int
  shows "(\<forall>oper. holds oper a b = holds oper c d) \<longleftrightarrow> (a < b \<longleftrightarrow> c < d) \<and> (a = b \<longleftrightarrow> c = d)"
proof
  assume h: "\<forall>oper. holds oper a b = holds oper c d"
  from h [rule_format, of IsLessThan] h [rule_format, of IsEqualTo]
  show "(a < b \<longleftrightarrow> c < d) \<and> (a = b \<longleftrightarrow> c = d)" by simp
next
  assume h: "(a < b \<longleftrightarrow> c < d) \<and> (a = b \<longleftrightarrow> c = d)"
  show "\<forall>oper. holds oper a b = holds oper c d"
  proof
    fix oper show "holds oper a b = holds oper c d" using h by (cases oper) auto
  qed
qed

text \<open>The unsigned reading of a word in terms of the signed one\<close>

lemma uint_by_sint: "uint (w :: 'a::len word) = (if sint w < 0 then sint w + 2 ^ LENGTH('a) else sint w)"
proof -
  have u: "uint w = sint w mod 2 ^ LENGTH('a)" by (simp add: uint_sint take_bit_eq_mod)
  have "(2 :: int) ^ (LENGTH('a) - 1) \<le> 2 ^ LENGTH('a)" by simp
  then have b: "sint w < 2 ^ LENGTH('a)" "- (2 ^ LENGTH('a)) \<le> sint w"
    using sint_lt [of w] sint_ge [of w] by linarith+
  show ?thesis
  proof (cases "sint w < 0")
    case True
    have "sint w mod 2 ^ LENGTH('a) = (sint w + 2 ^ LENGTH('a)) mod 2 ^ LENGTH('a)" by simp
    also have "\<dots> = sint w + 2 ^ LENGTH('a)" using True b by (intro mod_pos_pos_trivial) simp_all
    finally show ?thesis using True u by simp
  next
    case False
    then show ?thesis using b u by (simp add: mod_pos_pos_trivial)
  qed
qed

lemma bounds8: "0 \<le> uint (c :: u8)" "uint c < 256" "- 128 \<le> sint c" "sint c < 128"
  using sint_ge [of c] sint_lt [of c] uint_lt2p [of c] by simp_all

lemma bounds32: "0 \<le> uint (w :: u32)" "uint w < 4294967296" "- 2147483648 \<le> sint w" "sint w < 2147483648"
  using sint_ge [of w] sint_lt [of w] uint_lt2p [of w] by simp_all

lemma bounds64: "0 \<le> uint (x :: u64)" "uint x < 18446744073709551616"
  "- 9223372036854775808 \<le> sint x" "sint x < 9223372036854775808"
  using sint_ge [of x] sint_lt [of x] uint_lt2p [of x] by simp_all

lemma signs32: "uint (w :: u32) = (if sint w < 0 then sint w + 4294967296 else sint w)"
  using uint_by_sint [of w] by simp

lemma signs64: "uint (x :: u64) = (if sint x < 0 then sint x + 18446744073709551616 else sint x)"
  using uint_by_sint [of x] by simp

text \<open>The conversions of the operands\<close>

lemma convert_simps [simp]:
  fixes c :: u8 and w :: u32 and x :: u64
  shows "uint c mod 4294967296 = uint c" "uint c mod 18446744073709551616 = uint c"
    "uint w mod 4294967296 = uint w" "uint w mod 18446744073709551616 = uint w"
    "uint x mod 18446744073709551616 = uint x"
    "sint w mod 4294967296 = uint w" "sint x mod 18446744073709551616 = uint x"
  using bounds8 [of c] bounds32 [of w] bounds64 [of x] uint_sint [of w] uint_sint [of x]
  by (simp_all add: take_bit_eq_mod)

lemma convert_negative:
  "(a :: int) < 0 \<Longrightarrow> - 18446744073709551616 \<le> a \<Longrightarrow> a mod 18446744073709551616 = a + 18446744073709551616"
  "0 \<le> a \<Longrightarrow> a < 18446744073709551616 \<Longrightarrow> a mod 18446744073709551616 = a"
proof -
  assume a: "a < 0" "- 18446744073709551616 \<le> a"
  have "a mod 18446744073709551616 = (a + 18446744073709551616) mod 18446744073709551616" by simp
  also have "\<dots> = a + 18446744073709551616" using a by (intro mod_pos_pos_trivial) simp_all
  finally show "a mod 18446744073709551616 = a + 18446744073709551616" .
qed simp

lemma convert_int:
  "sint (w :: u32) mod 18446744073709551616 = (if sint w < 0 then sint w + 18446744073709551616 else sint w)"
  "sint (c :: u8) mod 18446744073709551616 = (if sint c < 0 then sint c + 18446744073709551616 else sint c)"
  using bounds8 [of c] bounds32 [of w] by (auto simp: convert_negative)

text \<open>Order and equality of two numbers\<close>

abbreviation (input) same_order :: "int \<Rightarrow> int \<Rightarrow> int \<Rightarrow> int \<Rightarrow> bool" where
  "same_order a b c d \<equiv> (a < b) = (c < d) \<and> (a = b) = (c = d)"

lemma order_shift:
  fixes a u s :: int
  assumes "0 \<le> a" "s < 0 \<Longrightarrow> a < u" "0 \<le> s \<Longrightarrow> u = s"
  shows "same_order a u a s \<longleftrightarrow> \<not> s < 0" "same_order u a s a \<longleftrightarrow> \<not> s < 0"
  using assms by (cases "s < 0"; simp)+

lemma order_narrow:
  fixes c :: u8 and w v :: u32 and x :: u64
  shows "same_order (uint c) (uint w) (uint c) (sint w) \<longleftrightarrow> \<not> sint w < 0"
    "same_order (uint w) (uint c) (sint w) (uint c) \<longleftrightarrow> \<not> sint w < 0"
    "same_order (uint c) (uint x) (uint c) (sint x) \<longleftrightarrow> \<not> sint x < 0"
    "same_order (uint x) (uint c) (sint x) (uint c) \<longleftrightarrow> \<not> sint x < 0"
    "same_order (uint v) (uint x) (uint v) (sint x) \<longleftrightarrow> \<not> sint x < 0"
    "same_order (uint x) (uint v) (sint x) (uint v) \<longleftrightarrow> \<not> sint x < 0"
  using order_shift [of "uint c" "sint w" "uint w"] order_shift [of "uint c" "sint x" "uint x"]
    order_shift [of "uint v" "sint x" "uint x"]
    bounds8 [of c] bounds32 [of w] bounds32 [of v] bounds64 [of x] signs32 [of w] signs64 [of x]
  by simp_all

lemma order_ulong_int:
  fixes w :: u32 and x :: u64
  shows "same_order (uint x) (uint w) (uint x) (sint w mod 18446744073709551616) \<longleftrightarrow> \<not> between_shifts (uint x) (sint w)"
    "same_order (uint w) (uint x) (sint w mod 18446744073709551616) (uint x) \<longleftrightarrow> \<not> between_shifts (uint x) (sint w)"
  using bounds32 [of w] bounds64 [of x] signs32 [of w] by (auto simp: between_shifts_def convert_int split: if_splits)

lemma order_ulonglong:
  fixes c :: u8 and w :: u32 and x y :: u64
  shows "same_order (sint x) (sint w) (uint x) (sint w mod 18446744073709551616) \<longleftrightarrow> \<not> (9223372036854775808 \<le> uint x \<longleftrightarrow> 0 \<le> sint w)"
    "same_order (sint x) (sint c) (uint x) (sint c mod 18446744073709551616) \<longleftrightarrow> \<not> (9223372036854775808 \<le> uint x \<longleftrightarrow> 0 \<le> sint c)"
    "same_order (sint x) (sint y) (uint x) (uint y) \<longleftrightarrow> \<not> (9223372036854775808 \<le> uint x \<longleftrightarrow> 0 \<le> sint y)"
  using bounds8 [of c] bounds32 [of w] bounds64 [of x] bounds64 [of y] signs64 [of x] signs64 [of y]
  by (auto simp: convert_int split: if_splits)

lemma surprising_iff:
  "(\<forall>oper. compare oper lhs rhs = applyEvaluator oper lhs rhs) \<longleftrightarrow> \<not> surprising lhs rhs"
  by (cases lhs; cases rhs;
      simp add: compare_def applyEvaluator_def common_type_def convert_to_def surprising_def holds_agree Let_def
        order_narrow order_ulong_int order_ulonglong del: not_less)

subsection \<open>Matchers\<close>

lemma match_operators:
  "match (matcher_and m n) x \<longleftrightarrow> match m x \<and> match n x" "match (matcher_or m n) x \<longleftrightarrow> match m x \<or> match n x"
  "match (matcher_not m) x \<longleftrightarrow> \<not> match m x"
  by (cases m; simp add: matcher_and_def matcher_or_def matcher_not_def MatchAllOf_add_def MatchAnyOf_add_def)+

lemma match_functions:
  "match (AllOf2 m n) x \<longleftrightarrow> match m x \<and> match n x" "match (AllOf3 m n k) x \<longleftrightarrow> match m x \<and> match n x \<and> match k x"
  "match (AnyOf2 m n) x \<longleftrightarrow> match m x \<or> match n x" "match (AnyOf3 m n k) x \<longleftrightarrow> match m x \<or> match n x \<or> match k x"
  by (simp_all add: AllOf2_def AllOf3_def AnyOf2_def AnyOf3_def match_operators)

subsection \<open>The text of an operand\<close>

lemma show_base_chars: "c \<in> set (show_base b n) \<Longrightarrow> b \<le> 16 \<Longrightarrow> c \<noteq> CHR 0x0A"
proof (induction b n rule: show_base.induct)
  case (1 b n)
  have digit: "char_of (if k < 10 then 48 + k else 87 + k) \<noteq> CHR 0x0A" if "k < 16" for k :: nat
  proof
    assume "char_of (if k < 10 then 48 + k else 87 + k) = CHR 0x0A"
    then have "of_char (char_of (if k < 10 then 48 + k else 87 + k) :: char) = (10 :: nat)" by simp
    then show False using that by (auto split: if_splits)
  qed
  consider "b < 2" | "2 \<le> b" "n < b" | "2 \<le> b" "b \<le> n" by linarith
  then show ?case
  proof cases
    case 1
    then show ?thesis using "1.prems" by (subst (asm) show_base.simps) simp
  next
    case 2
    then have "c = char_of (if n < 10 then 48 + n else 87 + n)" using "1.prems" by (subst (asm) show_base.simps) simp
    then show ?thesis using digit [of n] 2 "1.prems"(2) by simp
  next
    case 3
    then have "show_base b n = show_base b (n div b) @ [char_of (if n mod b < 10 then 48 + n mod b else 87 + n mod b)]"
      by (subst show_base.simps) simp
    moreover have "n mod b < 16" using 3 "1.prems"(2) mod_less_divisor [of b n] by linarith
    ultimately show ?thesis using "1.IH" 3 "1.prems" digit [of "n mod b"] by auto
  qed
qed

lemma show_nat_line: "CHR 0x0A \<notin> set (show_nat n)"
  using show_nat_digits [of "CHR 0x0A" n] by (auto simp: is_digit_def)

lemma with_hex_line: "CHR 0x0A \<notin> set (with_hex n)"
  using show_nat_line show_base_chars [of "CHR 0x0A" 16 n] by (auto simp: with_hex_def)

lemma toString_char_line: "CHR 0x0A \<notin> set (toString_char c)"
  using with_hex_line by (auto simp: toString_char_def toString_unsigned_def toString_unsigned_long_def Let_def)

lemma toString_operand_line: "CHR 0x0A \<notin> set (toString_operand v)"
  using show_nat_line with_hex_line toString_char_line show_base_chars [of "CHR 0x0A" 16]
  by (cases v) (auto simp: toString_bool_def toString_int_def toString_unsigned_def toString_unsigned_long_def
      toString_long_def toString_long_long_def toString_unsigned_long_long_def)

subsection \<open>An assertion about a comparison\<close>

definition comparison_text :: "operand \<Rightarrow> Operator \<Rightarrow> operand \<Rightarrow> string" where
  "comparison_text lhs oper rhs =
     (let l = toString_operand lhs; r = toString_operand rhs;
          d = (if length l + length r < 40 then CHR '' '' else CHR 0x0A)
      in l @ [d] @ getName oper @ [d] @ r)"

lemma binary_text: "reconstruct shw (BinaryExpression lhs oper rhs) = comparison_text lhs oper rhs"
  using toString_operand_line [of lhs] toString_operand_line [of rhs]
  by (simp add: comparison_text_def binary_delimiter_def Let_def)

lemma handleResult_counts:
  assumes "getResultType result = (if ok then Ok else ExpressionFailed)"
  shows "\<exists>b' r'. handleResult result b r = (b', r') \<and>
    rc_events r' = rc_events r @ [AssertionEnded result (rc_messages r) (rc_totals r')] \<and>
    passed (assertions (rc_totals r')) = passed (assertions (rc_totals r)) + of_bool ok \<and>
    failed (assertions (rc_totals r')) = failed (assertions (rc_totals r)) + of_bool (\<not> result_isOk result) \<and>
    (react b' \<longleftrightarrow> react b \<or> \<not> result_isOk result \<and> (aborting r' \<or> resultDisposition (rb_assertionInfo b) AND Normal \<noteq> 0))"
proof -
  define r1 where "r1 = assertionEnded result r"
  have "ok \<Longrightarrow> result_isOk result" using assms by (simp add: result_isOk_def getResultType_def isOk_def)
  then have "rc_events r1 = rc_events r @ [AssertionEnded result (rc_messages r) (rc_totals r1)]"
    "passed (assertions (rc_totals r1)) = passed (assertions (rc_totals r)) + of_bool ok"
    "failed (assertions (rc_totals r1)) = failed (assertions (rc_totals r)) + of_bool (\<not> result_isOk result)"
    using assms by (auto simp: r1_def assertionEnded_def report_def on_assertions_def Let_def)
  then show ?thesis by (auto simp: handleResult_def r1_def [symmetric] Let_def react_def)
qed

text \<open>What is built from a fresh builder, a result and a text\<close>

lemma build_result:
  assumes "b = ResultBuilder_new macro here captured disposition secondArg"
  shows "\<exists>result. build_expr text True (setResultType_bool truth b) = Some result \<and>
    getResultType result = (if truth \<noteq> isFalseTest disposition then Ok else ExpressionFailed) \<and>
    fst (getExpandedExpression result) = (if isFalseTest disposition then ''!('' @ text @ '')'' else text) \<and>
    result_isOk result = (truth \<noteq> isFalseTest disposition \<or> shouldSuppressFailure disposition)"
  unfolding assms
  by (cases truth; cases "isFalseTest disposition")
    (simp_all add: build_expr_def setResultType_bool_def setResultType_def ResultBuilder_new_def AssertionResultData_init_def
      negate_def getResultType_def getExpandedExpression_def reconstructExpression_def result_isOk_def isOk_def failure_bit_def Let_def)

end
