(* ===== verification/Catch_Macros_Correct.thy ===== *)
theory Catch_Macros_Correct
  imports Catch_Macros Catch_Expression_Correct Catch_Platform_Correct
begin

text \<open>
  Correctness of the macros of assertions: each reports one result, except when the expression is
  left by the exception of a failed test, and ends the test exactly when it should.
\<close>

definition test_verdict :: "test_expr \<Rightarrow> bool" where
  "test_verdict e = (case e of Unary v \<Rightarrow> operand_value v \<noteq> 0 | Binary l oper r \<Rightarrow> compare oper l r)"

definition wanted :: "assert_macro \<Rightarrow> bool" where
  "wanted m \<longleftrightarrow> m \<notin> {REQUIRE_FALSE, CHECK_FALSE}"

definition required :: "assert_macro \<Rightarrow> bool" where
  "required m \<longleftrightarrow> m \<in> {REQUIRE, REQUIRE_FALSE}"

text \<open>One result is reported, with the messages in scope, and counted.\<close>

definition reported_once :: "AssertionResult \<Rightarrow> RunContext \<Rightarrow> RunContext \<Rightarrow> bool" where
  "reported_once result r r' \<longleftrightarrow>
     rc_events r' = rc_events r @ [AssertionEnded result (rc_messages r) (rc_totals r')] \<and>
     passed (assertions (rc_totals r')) = passed (assertions (rc_totals r)) + of_bool (getResultType result = Ok) \<and>
     failed (assertions (rc_totals r')) = failed (assertions (rc_totals r)) + of_bool (\<not> result_isOk result) \<and>
     rc_lastResult r' = Some result"

lemma test_macro_flags:
  "isFalseTest (test_macro_disposition m) \<longleftrightarrow> \<not> wanted m"
  "shouldSuppressFailure (test_macro_disposition m) \<longleftrightarrow> m = CHECK_NOFAIL"
  "test_macro_disposition m AND Normal \<noteq> 0 \<longleftrightarrow> required m"
  by (cases m; simp add: wanted_def required_def isFalseTest_def shouldSuppressFailure_def disposition_or_def
        Normal_def ContinueOnFailure_def FalseTest_def SuppressFail_def)+

lemma handle_reported:
  assumes "\<not> react b"
  shows "\<exists>b' r'. handleResult result b r = (b', r') \<and> reported_once result r r' \<and>
    (react b' \<longleftrightarrow> \<not> result_isOk result \<and> (aborting r' \<or> resultDisposition (rb_assertionInfo b) AND Normal \<noteq> 0))"
proof -
  define r1 where "r1 = assertionEnded result r"
  have "getResultType result = Ok \<Longrightarrow> result_isOk result"
    by (simp add: result_isOk_def getResultType_def isOk_def)
  then have "reported_once result r r1"
    by (auto simp: reported_once_def r1_def assertionEnded_def report_def on_assertions_def Let_def)
  then show ?thesis using assms by (auto simp: handleResult_def r1_def [symmetric] Let_def react_def)
qed

text \<open>The result that a builder makes from a value or from an exception\<close>

lemma value_result:
  assumes "b = ResultBuilder_new macro here captured disposition secondArg"
  shows "\<exists>b' r'. \<exists>result. test_endExpression e b r = Some (b', r') \<and> reported_once result r r' \<and>
    getResultType result = (if test_verdict e \<noteq> isFalseTest disposition then Ok else ExpressionFailed) \<and>
    (react b' \<longleftrightarrow> test_verdict e = isFalseTest disposition \<and> \<not> shouldSuppressFailure disposition \<and>
       (aborting r' \<or> disposition AND Normal \<noteq> 0))"
proof -
  let ?b = "setResultType_bool (test_verdict e) b"
  define txt0 where "txt0 = (case e of Unary v \<Rightarrow> toString_bool (test_verdict e) | Binary l oper rr \<Rightarrow> comparison_text l oper rr)"
  define binary where "binary = (case e of Unary v \<Rightarrow> False | Binary l oper rr \<Rightarrow> True)"
  have e: "test_endExpression e b r = endExpression txt0 binary ?b r"
    by (cases e) (simp_all add: test_endExpression_def lhs_endExpression_def binary_endExpression_def txt0_def binary_def
        test_verdict_def binary_text Let_def del: reconstruct.simps(2))
  obtain result where res: "build_expr txt0 binary ?b = Some result"
    "getResultType result = (if test_verdict e \<noteq> isFalseTest disposition then Ok else ExpressionFailed)"
    "result_isOk result = (test_verdict e \<noteq> isFalseTest disposition \<or> shouldSuppressFailure disposition)"
    unfolding assms
    by (cases "test_verdict e"; cases "isFalseTest disposition")
      (simp_all add: build_expr_def setResultType_bool_def setResultType_def ResultBuilder_new_def AssertionResultData_init_def
        negate_def getResultType_def result_isOk_def isOk_def failure_bit_def Let_def)
  have b: "\<not> react ?b" "resultDisposition (rb_assertionInfo ?b) = disposition"
    by (simp_all add: assms setResultType_bool_def setResultType_def react_def ResultBuilder_new_def)
  show ?thesis unfolding e endExpression_def res(1) using handle_reported [OF b(1), of result r] res(2,3) b(2) by auto
qed

lemma exception_result:
  assumes "b = ResultBuilder_new macro here captured disposition secondArg"
  shows "\<exists>b' r'. \<exists>result. useActiveException msg disposition b r = Some (b', r') \<and> reported_once result r r' \<and>
    getResultType result = ThrewException \<and> getMessage result = msg \<and>
    (react b' \<longleftrightarrow> \<not> shouldSuppressFailure disposition \<and> (aborting r' \<or> disposition AND Normal \<noteq> 0))"
proof -
  let ?b = "setResultType ThrewException
    (b\<lparr>rb_assertionInfo := (rb_assertionInfo b)\<lparr>resultDisposition := disposition\<rparr>, rb_stream := rb_stream b @ msg\<rparr>)"
  obtain result where res: "build ?b = Some result" "getResultType result = ThrewException" "getMessage result = msg"
    "result_isOk result = shouldSuppressFailure disposition"
    unfolding assms
    by (cases "isFalseTest disposition")
      (simp_all add: build_def build_expr_def setResultType_def ResultBuilder_new_def AssertionResultData_init_def getMessage_def
        negate_def getResultType_def result_isOk_def isOk_def failure_bit_def exception_bits_def Let_def)
  have b: "\<not> react ?b" "resultDisposition (rb_assertionInfo ?b) = disposition"
    by (simp_all add: assms setResultType_def react_def ResultBuilder_new_def)
  show ?thesis unfolding useActiveException_def captureResult_def captureExpression_def res(1)
    using handle_reported [OF b(1), of result r] res(2,3,4) b(2) by auto
qed

end
