(* ===== verification/Catch_Hub.thy ===== *)
theory Catch_Hub
  imports Catch_Registry Catch_Reporter Catch_Platform
begin

text \<open>
  The global objects of the test framework (\<open>src/lib/catch.hpp\<close>): the hub of the registries and
  the functions that register tests, reporters, translators and aliases with it before \<open>main\<close>
  (\<open>catch_registry_hub.hpp\<close>, \<open>catch_reporter_registrars.hpp\<close>), the context of the run
  (\<open>catch_context_impl.hpp\<close>), the colours of the console (\<open>catch_console_colour_impl.hpp\<close>) and the
  redirection of output streams.

  A global pointer is an option, null until it is first used.  The factories of reporters are of
  type \<open>'f\<close> and other exceptions of type \<open>'e\<close>.
\<close>

subsection \<open>The hub of the registries\<close>

record ('f, 'e) RegistryHub =
  hub_testCaseRegistry :: TestRegistry
  hub_reporterRegistry :: "'f ReporterRegistry"
  hub_translators :: "'e translator list"
  hub_tagAliasRegistry :: alias_registry

definition RegistryHub_new :: "('f, 'e) RegistryHub" where
  "RegistryHub_new =
     \<lparr>hub_testCaseRegistry = TestRegistry_new, hub_reporterRegistry = \<lparr>rr_factories = [], rr_listeners = []\<rparr>,
      hub_translators = [], hub_tagAliasRegistry = []\<rparr>"

definition hub_registerReporter :: "string \<Rightarrow> 'f \<Rightarrow> ('f, 'e) RegistryHub \<Rightarrow> ('f, 'e) RegistryHub" where
  "hub_registerReporter name factory h =
     h\<lparr>hub_reporterRegistry := registerReporter name factory (hub_reporterRegistry h)\<rparr>"

definition hub_registerListener :: "'f \<Rightarrow> ('f, 'e) RegistryHub \<Rightarrow> ('f, 'e) RegistryHub" where
  "hub_registerListener factory h =
     h\<lparr>hub_reporterRegistry := registerListener factory (hub_reporterRegistry h)\<rparr>"

definition hub_registerTest :: "TestCase \<Rightarrow> ('f, 'e) RegistryHub \<Rightarrow> ('f, 'e) RegistryHub" where
  "hub_registerTest testInfo h = h\<lparr>hub_testCaseRegistry := registerTest testInfo (hub_testCaseRegistry h)\<rparr>"

definition hub_registerTranslator :: "'e translator \<Rightarrow> ('f, 'e) RegistryHub \<Rightarrow> ('f, 'e) RegistryHub" where
  "hub_registerTranslator t h = h\<lparr>hub_translators := registerTranslator t (hub_translators h)\<rparr>"

definition hub_registerTagAlias ::
  "string \<Rightarrow> string \<Rightarrow> SourceLineInfo \<Rightarrow> ('f, 'e) RegistryHub \<Rightarrow> string + ('f, 'e) RegistryHub"
where
  "hub_registerTagAlias al tag location h =
     (case alias_add (hub_tagAliasRegistry h) al tag location of
        Inl e \<Rightarrow> Inl e
      | Inr reg \<Rightarrow> Inr (h\<lparr>hub_tagAliasRegistry := reg\<rparr>))"

text \<open>The single instance: the hub, and the global pointer after the call\<close>

definition getTheRegistryHub ::
  "('f, 'e) RegistryHub option \<Rightarrow> ('f, 'e) RegistryHub \<times> ('f, 'e) RegistryHub option"
where
  "getTheRegistryHub p = (let h = (case p of None \<Rightarrow> RegistryHub_new | Some h \<Rightarrow> h) in (h, Some h))"

definition hub_translateActiveException ::
  "'e active_exception \<Rightarrow> ('f, 'e) RegistryHub option \<Rightarrow> string option \<times> ('f, 'e) RegistryHub option"
where
  "hub_translateActiveException active p =
     (let (h, p) = getTheRegistryHub p in (translateActiveException (hub_translators h) active, p))"

subsection \<open>Registering\<close>

text \<open>\<open>test\<close> is the function of the test; its tags may be refused.\<close>

definition registerTestCase ::
  "nat \<Rightarrow> string \<Rightarrow> string \<Rightarrow> string \<Rightarrow> SourceLineInfo \<Rightarrow> ('f, 'e) RegistryHub option \<Rightarrow>
   string + ('f, 'e) RegistryHub option"
where
  "registerTestCase test classOrQualifiedMethodName name desc location p =
     (let (h, p) = getTheRegistryHub p
      in (case makeTestCase test (extractClassName classOrQualifiedMethodName) name desc location of
            Inl e \<Rightarrow> Inl e
          | Inr tc \<Rightarrow> Inr (Some (hub_registerTest tc h))))"

definition registerTestCaseFunction ::
  "nat \<Rightarrow> SourceLineInfo \<Rightarrow> string \<Rightarrow> string \<Rightarrow> ('f, 'e) RegistryHub option \<Rightarrow> string + ('f, 'e) RegistryHub option"
where
  "registerTestCaseFunction function location name desc p =
     registerTestCase function [] name desc location p"

text \<open>The two constructors of \<open>AutoReg\<close>: for a function and for a method\<close>

definition AutoReg_function ::
  "nat \<Rightarrow> SourceLineInfo \<Rightarrow> string \<Rightarrow> string \<Rightarrow> ('f, 'e) RegistryHub option \<Rightarrow> string + ('f, 'e) RegistryHub option"
where
  "AutoReg_function function location name desc p = registerTestCaseFunction function location name desc p"

definition AutoReg_method ::
  "nat \<Rightarrow> string \<Rightarrow> string \<Rightarrow> string \<Rightarrow> SourceLineInfo \<Rightarrow> ('f, 'e) RegistryHub option \<Rightarrow>
   string + ('f, 'e) RegistryHub option"
where
  "AutoReg_method method className name desc location p =
     registerTestCase method className name desc location p"

definition ReporterRegistrar_new :: "string \<Rightarrow> 'f \<Rightarrow> ('f, 'e) RegistryHub option \<Rightarrow> ('f, 'e) RegistryHub option" where
  "ReporterRegistrar_new name factory p =
     (let (h, p) = getTheRegistryHub p in Some (hub_registerReporter name factory h))"

definition ListenerRegistrar_new :: "'f \<Rightarrow> ('f, 'e) RegistryHub option \<Rightarrow> ('f, 'e) RegistryHub option" where
  "ListenerRegistrar_new factory p = (let (h, p) = getTheRegistryHub p in Some (hub_registerListener factory h))"

definition ExceptionTranslatorRegistrar_new ::
  "'e translator \<Rightarrow> ('f, 'e) RegistryHub option \<Rightarrow> ('f, 'e) RegistryHub option"
where
  "ExceptionTranslatorRegistrar_new t p = (let (h, p) = getTheRegistryHub p in Some (hub_registerTranslator t h))"

definition RegistrarForTagAliases_new ::
  "string \<Rightarrow> string \<Rightarrow> SourceLineInfo \<Rightarrow> ('f, 'e) RegistryHub option \<Rightarrow> string + ('f, 'e) RegistryHub option"
where
  "RegistrarForTagAliases_new al tag location p =
     (let (h, p) = getTheRegistryHub p
      in (case hub_registerTagAlias al tag location h of Inl e \<Rightarrow> Inl e | Inr h \<Rightarrow> Inr (Some h)))"

subsection \<open>The context of the run\<close>

text \<open>Runner and result capture are pointers; they are represented by addresses.\<close>

record Context =
  ctx_config :: "Config option"
  ctx_runner :: "nat option"
  ctx_resultCapture :: "nat option"
  ctx_generatorsByTestName :: generator_context

definition Context_new :: Context where
  "Context_new = \<lparr>ctx_config = None, ctx_runner = None, ctx_resultCapture = None, ctx_generatorsByTestName = []\<rparr>"

definition getCurrentMutableContext :: "Context option \<Rightarrow> Context \<times> Context option" where
  "getCurrentMutableContext p = (let c = (case p of None \<Rightarrow> Context_new | Some c \<Rightarrow> c) in (c, Some c))"

definition setResultCapture :: "nat option \<Rightarrow> Context \<Rightarrow> Context" where
  "setResultCapture capture c = c\<lparr>ctx_resultCapture := capture\<rparr>"

definition setRunner :: "nat option \<Rightarrow> Context \<Rightarrow> Context" where
  "setRunner runner c = c\<lparr>ctx_runner := runner\<rparr>"

definition setConfig :: "Config option \<Rightarrow> Context \<Rightarrow> Context" where
  "setConfig config c = c\<lparr>ctx_config := config\<rparr>"

text \<open>What the constructor of \<open>RunContext\<close> at the address \<open>this\<close> does to the context\<close>

definition RunContext_enter :: "Config \<Rightarrow> nat \<Rightarrow> Context option \<Rightarrow> Context option" where
  "RunContext_enter config this p =
     (let (c, p) = getCurrentMutableContext p
      in Some (setResultCapture (Some this) (setConfig (Some config) (setRunner (Some this) c))))"

text \<open>The global function: the capture, or the message of the exception\<close>

definition getResultCapture :: "Context option \<Rightarrow> (string + nat) \<times> Context option" where
  "getResultCapture p =
     (let (c, p) = getCurrentMutableContext p
      in (case ctx_resultCapture c of Some capture \<Rightarrow> Inr capture | None \<Rightarrow> Inl ''No result capture instance'', p))"

definition cleanUpContext :: "Context option \<Rightarrow> Context option" where
  "cleanUpContext p = None"

definition cleanUp :: "('f, 'e) RegistryHub option \<times> Context option \<Rightarrow> ('f, 'e) RegistryHub option \<times> Context option" where
  "cleanUp = (\<lambda>(hub, context). (None, cleanUpContext context))"

subsection \<open>Colours\<close>

datatype Colour_Code =
    Colour_None | Colour_White | Colour_Red | Colour_Green | Colour_Blue | Colour_Cyan | Colour_Yellow | Colour_Grey
  | Colour_Bright | Colour_BrightRed | Colour_BrightGreen | Colour_LightGrey | Colour_BrightWhite

text \<open>\<open>PosixColourImpl\<close>: what is written to the output, or the message of the exception\<close>

definition setColour :: "string \<Rightarrow> string" where
  "setColour escapeCode = CHR 0x1B # escapeCode"

primrec PosixColourImpl_use :: "Colour_Code \<Rightarrow> string + string" where
  "PosixColourImpl_use Colour_None = Inr (setColour ''[0m'')"
| "PosixColourImpl_use Colour_White = Inr (setColour ''[0m'')"
| "PosixColourImpl_use Colour_Red = Inr (setColour ''[0;31m'')"
| "PosixColourImpl_use Colour_Green = Inr (setColour ''[0;32m'')"
| "PosixColourImpl_use Colour_Blue = Inr (setColour ''[0;34m'')"
| "PosixColourImpl_use Colour_Cyan = Inr (setColour ''[0;36m'')"
| "PosixColourImpl_use Colour_Yellow = Inr (setColour ''[0;33m'')"
| "PosixColourImpl_use Colour_Grey = Inr (setColour ''[1;30m'')"
| "PosixColourImpl_use Colour_LightGrey = Inr (setColour ''[0;37m'')"
| "PosixColourImpl_use Colour_BrightRed = Inr (setColour ''[1;31m'')"
| "PosixColourImpl_use Colour_BrightGreen = Inr (setColour ''[1;32m'')"
| "PosixColourImpl_use Colour_BrightWhite = Inr (setColour ''[1;37m'')"
| "PosixColourImpl_use Colour_Bright = Inl ''not a colour''"

text \<open>Whether colours are used: by configuration, else on a terminal that is not debugged\<close>

definition platformColourInstance :: "Config option \<Rightarrow> bool \<Rightarrow> bool \<Rightarrow> bool" where
  "platformColourInstance config debuggerActive tty =
     (let colourMode = (case config of Some g \<Rightarrow> cfg_useColour (config_data g) | None \<Rightarrow> ColourAuto);
          colourMode = (if colourMode = ColourAuto
                        then (if \<not> debuggerActive \<and> tty then ColourYes else ColourNo) else colourMode)
      in colourMode = ColourYes)"

text \<open>
  \<open>Colour::use\<close>: the static pointer to the implementation, set by the first call from \<open>platform\<close>,
  and what has been written
\<close>

record colour_state =
  col_impl :: "bool option"
  col_out :: string

definition Colour_use :: "bool \<Rightarrow> Colour_Code \<Rightarrow> colour_state \<Rightarrow> string + colour_state" where
  "Colour_use platform code s =
     (let posix = (case col_impl s of None \<Rightarrow> platform | Some i \<Rightarrow> i);
          s = s\<lparr>col_impl := Some posix\<rparr>
      in if posix
         then (case PosixColourImpl_use code of Inl e \<Rightarrow> Inl e | Inr t \<Rightarrow> Inr (s\<lparr>col_out := col_out s @ t\<rparr>))
         else Inr s)"

text \<open>A guard: whether it was copied from, which leaves it to the copy to end the colour\<close>

definition Colour_new :: "bool \<Rightarrow> Colour_Code \<Rightarrow> colour_state \<Rightarrow> string + bool \<times> colour_state" where
  "Colour_new platform code s = (case Colour_use platform code s of Inl e \<Rightarrow> Inl e | Inr s \<Rightarrow> Inr (False, s))"

text \<open>The copy and the guard that it was copied from\<close>

definition Colour_copy :: "bool \<Rightarrow> bool \<times> bool" where
  "Colour_copy other = (False, True)"

definition Colour_destroy :: "bool \<Rightarrow> bool \<Rightarrow> colour_state \<Rightarrow> string + colour_state" where
  "Colour_destroy platform moved s = (if \<not> moved then Colour_use platform Colour_None s else Inr s)"

subsection \<open>Redirecting output\<close>

text \<open>
  A stream is its current buffer; the buffers have numbers.  \<open>StreamRedirect\<close> gives the stream a
  fresh buffer; its destructor appends the content of that to a string and restores the old one.
\<close>

record ostreams =
  os_rdbuf :: nat
  os_buffers :: "nat \<Rightarrow> string"

definition os_write :: "string \<Rightarrow> ostreams \<Rightarrow> ostreams" where
  "os_write t s = s\<lparr>os_buffers := (os_buffers s)(os_rdbuf s := os_buffers s (os_rdbuf s) @ t)\<rparr>"

definition StreamRedirect_new :: "nat \<Rightarrow> ostreams \<Rightarrow> nat \<times> ostreams" where
  "StreamRedirect_new oss s = (os_rdbuf s, s\<lparr>os_rdbuf := oss, os_buffers := (os_buffers s)(oss := [])\<rparr>)"

definition StreamRedirect_destroy :: "nat \<Rightarrow> nat \<Rightarrow> string \<Rightarrow> ostreams \<Rightarrow> string \<times> ostreams" where
  "StreamRedirect_destroy oss prevBuf targetString s = (targetString @ os_buffers s oss, s\<lparr>os_rdbuf := prevBuf\<rparr>)"

text \<open>\<open>CoutStream\<close> keeps the buffer that the stream has when it is made, and writes there.\<close>

definition CoutStream_new :: "ostreams \<Rightarrow> nat" where
  "CoutStream_new s = os_rdbuf s"

definition CoutStream_write :: "nat \<Rightarrow> string \<Rightarrow> ostreams \<Rightarrow> ostreams" where
  "CoutStream_write buf t s = s\<lparr>os_buffers := (os_buffers s)(buf := os_buffers s buf @ t)\<rparr>"

subsection \<open>What the global objects guarantee\<close>

text \<open>The first reporter that is registered under a name stays.\<close>

lemma first_reporter_stays:
  "sorted_wrt (<) (map fst (rr_factories (hub_reporterRegistry h))) \<Longrightarrow>
   reporter_create name (hub_reporterRegistry (hub_registerReporter name f h)) =
     (case reporter_create name (hub_reporterRegistry h) of None \<Rightarrow> Some f | Some g \<Rightarrow> Some g)"
  by (auto simp: reporter_create_def hub_registerReporter_def registerReporter_def map_of_map_insert split: option.splits)

lemma run_is_capture:
  "fst (getResultCapture (RunContext_enter config this p)) = Inr this"
  "fst (getResultCapture (cleanUpContext p)) = Inl ''No result capture instance''"
  by (simp_all add: getResultCapture_def RunContext_enter_def getCurrentMutableContext_def setResultCapture_def
      cleanUpContext_def Context_new_def Let_def split: option.splits prod.splits)

text \<open>A guard is ended once, by the copy that owns the colour; the implementation does not change.\<close>

lemma colour_guard:
  "case Colour_new platform code s of
     Inl e \<Rightarrow> code = Colour_Bright \<and> e = ''not a colour''
   | Inr (moved, s1) \<Rightarrow>
       (let (copy, moved) = Colour_copy moved
        in Colour_destroy platform moved s1 = Inr s1 \<and>
           (\<exists>s2 t. Colour_destroy platform copy s1 = Inr s2 \<and> col_impl s2 = col_impl s1 \<and>
              col_out s2 = (if col_impl s1 = Some True then col_out s @ t @ setColour ''[0m'' else col_out s)))"
  by (cases code; cases "col_impl s"; cases platform)
    (auto simp: Colour_new_def Colour_use_def Colour_copy_def Colour_destroy_def Let_def split: sum.splits if_splits)

lemma redirected:
  assumes "oss \<noteq> os_rdbuf s"
  shows "let (prev, s1) = StreamRedirect_new oss s; (target, s2) = StreamRedirect_destroy oss prev old (os_write t s1)
         in target = old @ t \<and> os_rdbuf s2 = os_rdbuf s \<and> os_buffers s2 (os_rdbuf s) = os_buffers s (os_rdbuf s)"
  using assms by (simp add: StreamRedirect_new_def StreamRedirect_destroy_def os_write_def)

text \<open>A reporter that writes through a \<open>CoutStream\<close> is not redirected.\<close>

lemma report_not_redirected:
  assumes "oss \<noteq> os_rdbuf s"
  shows "let c = CoutStream_new s; (prev, s1) = StreamRedirect_new oss s
         in os_buffers (CoutStream_write c t s1) (os_rdbuf s) = os_buffers s (os_rdbuf s) @ t \<and>
            fst (StreamRedirect_destroy oss prev [] (CoutStream_write c t s1)) = []"
  using assms by (simp add: StreamRedirect_new_def StreamRedirect_destroy_def CoutStream_new_def CoutStream_write_def)

end
