(* ===== verification/Catch_Shared.thy ===== *)
theory Catch_Shared
  imports Prelude
begin

text \<open>
  Shared objects of the test framework (\<open>src/lib/catch.hpp\<close>, the part \<open>catch_ptr.hpp\<close>):
  \<open>SharedImpl\<close>, an object with an intrusive counter of its references, and \<open>Ptr\<close>, the pointer
  that counts.

  An object is at an address; of its members only the \<open>Ptr\<close>s matter here, in the order in which
  its destructor destroys them.  The heap maps the addresses of the objects that exist.  A \<open>Ptr\<close>
  is the value of its field \<open>m_p\<close>, and \<open>None\<close> is the null pointer.  The result of an operation is
  \<open>None\<close> when it accesses an object that does not exist any more or does not return.
\<close>

subsection \<open>The counter\<close>

record shared_obj =
  m_rc :: u32
  sh_members :: "nat option list"

type_synonym shared_heap = "nat \<Rightarrow> shared_obj option"

definition SharedImpl_new :: "nat option list \<Rightarrow> shared_obj" where
  "SharedImpl_new ms = \<lparr>m_rc = 0, sh_members = ms\<rparr>"

definition addRef :: "nat \<Rightarrow> shared_heap \<Rightarrow> shared_heap option" where
  "addRef a h = (case h a of None \<Rightarrow> None | Some ob \<Rightarrow> Some (h(a \<mapsto> ob\<lparr>m_rc := m_rc ob + 1\<rparr>)))"

text \<open>
  Destroying \<open>Ptr\<close>s one after the other.  Each that is not null releases its object; when the
  counter of that is 0, \<open>delete this\<close> destroys the members of the object, which may release
  further objects, and then frees its memory.
\<close>

partial_function (option) destroy_ptrs :: "nat option list \<Rightarrow> shared_heap \<Rightarrow> shared_heap option" where
  "destroy_ptrs ps h =
     (case ps of
        [] \<Rightarrow> Some h
      | p # ps \<Rightarrow>
          Option.bind
            (case p of
               None \<Rightarrow> Some h
             | Some a \<Rightarrow>
                 (case h a of
                    None \<Rightarrow> None
                  | Some ob \<Rightarrow>
                      if m_rc ob - 1 = 0
                      then Option.bind (destroy_ptrs (sh_members ob) (h(a \<mapsto> ob\<lparr>m_rc := m_rc ob - 1\<rparr>)))
                             (\<lambda>h. Some (h(a := None)))
                      else Some (h(a \<mapsto> ob\<lparr>m_rc := m_rc ob - 1\<rparr>))))
            (destroy_ptrs ps))"

definition release :: "nat \<Rightarrow> shared_heap \<Rightarrow> shared_heap option" where
  "release a = destroy_ptrs [Some a]"

subsection \<open>The pointer\<close>

text \<open>The constructors from an address and from another \<open>Ptr\<close>\<close>

definition Ptr_new :: "nat option \<Rightarrow> shared_heap \<Rightarrow> shared_heap option" where
  "Ptr_new p h = (case p of None \<Rightarrow> Some h | Some a \<Rightarrow> addRef a h)"

definition Ptr_copy :: "nat option \<Rightarrow> shared_heap \<Rightarrow> shared_heap option" where
  "Ptr_copy other h = (case other of None \<Rightarrow> Some h | Some a \<Rightarrow> addRef a h)"

definition Ptr_destroy :: "nat option \<Rightarrow> shared_heap \<Rightarrow> shared_heap option" where
  "Ptr_destroy m_p h = (case m_p of None \<Rightarrow> Some h | Some a \<Rightarrow> release a h)"

text \<open>The pointer after \<open>reset\<close> is null.\<close>

definition Ptr_reset :: "nat option \<Rightarrow> shared_heap \<Rightarrow> (nat option \<times> shared_heap) option" where
  "Ptr_reset m_p h =
     do { h \<leftarrow> (case m_p of None \<Rightarrow> Some h | Some a \<Rightarrow> release a h); Some (None, h) }"

text \<open>
  Assignment makes a temporary pointer and swaps it with the one that is assigned to, which is a
  variable or a member of an object: \<open>store v h\<close> is the heap when it holds \<open>v\<close>.  The temporary is
  destroyed after that.
\<close>

definition Ptr_assign_raw ::
  "(nat option \<Rightarrow> shared_heap \<Rightarrow> shared_heap) \<Rightarrow> nat option \<Rightarrow> nat option \<Rightarrow> shared_heap \<Rightarrow> shared_heap option"
where
  "Ptr_assign_raw store m_p p h = do { h \<leftarrow> Ptr_new p h; let h = store p h; Ptr_destroy m_p h }"

definition Ptr_assign ::
  "(nat option \<Rightarrow> shared_heap \<Rightarrow> shared_heap) \<Rightarrow> nat option \<Rightarrow> nat option \<Rightarrow> shared_heap \<Rightarrow> shared_heap option"
where
  "Ptr_assign store m_p other h = do { h \<leftarrow> Ptr_copy other h; let h = store other h; Ptr_destroy m_p h }"

subsection \<open>Programs that use shared objects\<close>

text \<open>
  The variables of type \<open>Ptr\<close> that exist, by their position, and the heap.  An operation makes an
  object at a free address whose members are copies of variables, and a variable that points to
  it; copies a variable, or makes one from the address of another; resets, assigns, swaps or
  destroys variables; or assigns to a member of the object of a variable.
\<close>

record shared =
  sd_vars :: "nat option list"
  sd_heap :: shared_heap

datatype ptr_op =
    Make nat "nat list" | Copy nat | From_get nat | Reset nat | Assign nat nat | Assign_get nat nat
  | Swap nat nat | Destroy nat | Assign_member nat nat nat

fun copy_ptrs :: "nat option list \<Rightarrow> shared_heap \<Rightarrow> shared_heap option" where
  "copy_ptrs [] h = Some h"
| "copy_ptrs (p # ps) h = Option.bind (Ptr_copy p h) (copy_ptrs ps)"

definition set_member :: "nat \<Rightarrow> nat \<Rightarrow> nat option \<Rightarrow> shared_heap \<Rightarrow> shared_heap" where
  "set_member a k v h =
     (case h a of None \<Rightarrow> h | Some ob \<Rightarrow> h(a \<mapsto> ob\<lparr>sh_members := (sh_members ob)[k := v]\<rparr>))"

fun ptr_do :: "ptr_op \<Rightarrow> shared \<Rightarrow> shared option" where
  "ptr_do (Make a is) s =
     (let ms = map ((!) (sd_vars s)) is
      in do { h \<leftarrow> copy_ptrs ms (sd_heap s);
              h \<leftarrow> Ptr_new (Some a) (h(a \<mapsto> SharedImpl_new ms));
              Some \<lparr>sd_vars = sd_vars s @ [Some a], sd_heap = h\<rparr> })"
| "ptr_do (Copy i) s =
     do { h \<leftarrow> Ptr_copy (sd_vars s ! i) (sd_heap s);
          Some \<lparr>sd_vars = sd_vars s @ [sd_vars s ! i], sd_heap = h\<rparr> }"
| "ptr_do (From_get i) s =
     do { h \<leftarrow> Ptr_new (sd_vars s ! i) (sd_heap s);
          Some \<lparr>sd_vars = sd_vars s @ [sd_vars s ! i], sd_heap = h\<rparr> }"
| "ptr_do (Reset i) s =
     do { (p, h) \<leftarrow> Ptr_reset (sd_vars s ! i) (sd_heap s);
          Some \<lparr>sd_vars = (sd_vars s)[i := p], sd_heap = h\<rparr> }"
| "ptr_do (Assign i j) s =
     do { h \<leftarrow> Ptr_assign (\<lambda>v h. h) (sd_vars s ! i) (sd_vars s ! j) (sd_heap s);
          Some \<lparr>sd_vars = (sd_vars s)[i := sd_vars s ! j], sd_heap = h\<rparr> }"
| "ptr_do (Assign_get i j) s =
     do { h \<leftarrow> Ptr_assign_raw (\<lambda>v h. h) (sd_vars s ! i) (sd_vars s ! j) (sd_heap s);
          Some \<lparr>sd_vars = (sd_vars s)[i := sd_vars s ! j], sd_heap = h\<rparr> }"
| "ptr_do (Swap i j) s =
     Some (s\<lparr>sd_vars := (sd_vars s)[i := sd_vars s ! j, j := sd_vars s ! i]\<rparr>)"
| "ptr_do (Destroy i) s =
     do { h \<leftarrow> Ptr_destroy (sd_vars s ! i) (sd_heap s);
          Some \<lparr>sd_vars = take i (sd_vars s) @ drop (Suc i) (sd_vars s), sd_heap = h\<rparr> }"
| "ptr_do (Assign_member i k j) s =
     do { a \<leftarrow> sd_vars s ! i;
          ob \<leftarrow> sd_heap s a;
          h \<leftarrow> Ptr_assign (set_member a k) (sh_members ob ! k) (sd_vars s ! j) (sd_heap s);
          Some (s\<lparr>sd_heap := h\<rparr>) }"

fun ptr_run :: "ptr_op list \<Rightarrow> shared \<Rightarrow> shared option" where
  "ptr_run [] s = Some s"
| "ptr_run (x # xs) s = Option.bind (ptr_do x s) (ptr_run xs)"

end
