(* ===== verification/Catch_Shared_Correct.thy ===== *)
theory Catch_Shared_Correct
  imports Catch_Shared "HOL-Library.Multiset"
begin

text \<open>
  Correctness of shared objects: the counter of every object is the number of the \<open>Ptr\<close>s that
  point to it, so that no object is used after it has been freed, and releasing ends.
\<close>

subsection \<open>Counting references\<close>

definition rc_of :: "shared_heap \<Rightarrow> nat \<Rightarrow> nat" where
  "rc_of h a = (case h a of None \<Rightarrow> 0 | Some ob \<Rightarrow> unat (m_rc ob))"

definition members_of :: "shared_heap \<Rightarrow> nat \<Rightarrow> nat option list" where
  "members_of h a = (case h a of None \<Rightarrow> [] | Some ob \<Rightarrow> sh_members ob)"

definition alive :: "shared_heap \<Rightarrow> nat set" where
  "alive h = {a. rc_of h a \<noteq> 0}"

definition dying :: "shared_heap \<Rightarrow> nat set" where
  "dying h = {a. h a \<noteq> None \<and> rc_of h a = 0}"

definition references :: "nat option list \<Rightarrow> shared_heap \<Rightarrow> nat \<Rightarrow> nat" where
  "references vs h a = count_list vs (Some a) + (\<Sum>b \<in> alive h. count_list (members_of h b) (Some a))"

definition balanced :: "nat option list \<Rightarrow> shared_heap \<Rightarrow> bool" where
  "balanced vs h \<longleftrightarrow> finite (dom h) \<and> (\<forall>a. references vs h a = rc_of h a)"

lemma alive_dom: "alive h \<subseteq> dom h"
  by (auto simp: alive_def rc_of_def split: option.splits)

lemma finite_alive: "finite (dom h) \<Longrightarrow> finite (alive h)"
  using alive_dom finite_subset by blast

lemma balanced_alive: "balanced vs h \<Longrightarrow> Some a \<in> set vs \<Longrightarrow> a \<in> alive h"
proof -
  assume b: "balanced vs h" and "Some a \<in> set vs"
  then have "count_list vs (Some a) \<noteq> 0" by (simp add: count_list_0_iff)
  moreover have "references vs h a = rc_of h a" using b by (simp add: balanced_def)
  ultimately show ?thesis unfolding references_def alive_def by simp
qed

lemma references_append: "references (xs @ ys) h a = count_list xs (Some a) + references ys h a"
  by (simp add: references_def)

lemma references_Cons: "references (p # vs) h a = of_bool (p = Some a) + references vs h a"
  by (simp add: references_def)

text \<open>A change of the counter that stays positive\<close>

lemma references_counted:
  assumes "h a = Some ob" "a \<in> alive h" "n \<noteq> 0"
  shows "references vs (h(a \<mapsto> ob\<lparr>m_rc := n\<rparr>)) b = references vs h b"
    "rc_of (h(a \<mapsto> ob\<lparr>m_rc := n\<rparr>)) b = (if b = a then unat n else rc_of h b)"
    "alive (h(a \<mapsto> ob\<lparr>m_rc := n\<rparr>)) = alive h" "dying (h(a \<mapsto> ob\<lparr>m_rc := n\<rparr>)) = dying h"
proof -
  let ?h = "h(a \<mapsto> ob\<lparr>m_rc := n\<rparr>)"
  have n: "unat n \<noteq> 0" using assms(3) by (simp add: unat_eq_0)
  show r: "rc_of ?h b = (if b = a then unat n else rc_of h b)" for b by (simp add: rc_of_def)
  show s: "alive ?h = alive h" using assms(2) n by (auto simp: alive_def r)
  show "dying ?h = dying h" using assms(1,2) n by (auto simp: dying_def r alive_def)
  have "members_of ?h c = members_of h c" for c using assms(1) by (simp add: members_of_def)
  then show "references vs ?h b = references vs h b" by (simp add: references_def s)
qed

text \<open>A counter that drops to 0: its members do not count any more.\<close>

lemma references_dead:
  assumes "h a = Some ob" "a \<in> alive h" "finite (dom h)"
  shows "references (sh_members ob @ vs) (h(a \<mapsto> ob\<lparr>m_rc := 0\<rparr>)) b = references vs h b"
    "rc_of (h(a \<mapsto> ob\<lparr>m_rc := 0\<rparr>)) b = (if b = a then 0 else rc_of h b)"
    "alive (h(a \<mapsto> ob\<lparr>m_rc := 0\<rparr>)) = alive h - {a}" "dying (h(a \<mapsto> ob\<lparr>m_rc := 0\<rparr>)) = insert a (dying h)"
proof -
  let ?h = "h(a \<mapsto> ob\<lparr>m_rc := 0\<rparr>)"
  show r: "rc_of ?h b = (if b = a then 0 else rc_of h b)" for b by (simp add: rc_of_def)
  show s: "alive ?h = alive h - {a}" by (auto simp: alive_def r)
  show "dying ?h = insert a (dying h)" by (auto simp: dying_def r)
  have m: "members_of ?h c = members_of h c" for c using assms(1) by (simp add: members_of_def)
  have "members_of h a = sh_members ob" using assms(1) by (simp add: members_of_def)
  then show "references (sh_members ob @ vs) ?h b = references vs h b"
    using sum.remove [OF finite_alive [OF assms(3)] assms(2), of "\<lambda>c. count_list (members_of h c) (Some b)"]
    by (simp add: references_def s m)
qed

text \<open>Freeing an object that is dying\<close>

lemma references_freed:
  assumes "a \<in> dying h"
  shows "references vs (h(a := None)) b = references vs h b" "rc_of (h(a := None)) b = rc_of h b"
    "alive (h(a := None)) = alive h" "dying (h(a := None)) = dying h - {a}"
proof -
  have 0: "rc_of h a = 0" using assms by (simp add: dying_def)
  show r: "rc_of (h(a := None)) b = rc_of h b" for b using 0 by (simp add: rc_of_def)
  show s: "alive (h(a := None)) = alive h" by (simp add: alive_def r)
  show "dying (h(a := None)) = dying h - {a}" by (auto simp: dying_def r)
  have "members_of (h(a := None)) c = members_of h c" if "c \<in> alive h" for c
    using that 0 by (auto simp: members_of_def alive_def)
  then show "references vs (h(a := None)) b = references vs h b" by (simp add: references_def s)
qed

subsection \<open>Releasing\<close>

lemma balanced_finite: "balanced vs h \<Longrightarrow> finite (dom h)"
  by (simp add: balanced_def)

lemma balanced_None [simp]: "balanced (None # vs) h \<longleftrightarrow> balanced vs h"
  by (simp add: balanced_def references_Cons)

lemma balanced_counted:
  assumes "balanced (Some a # vs) h" "h a = Some ob" "m_rc ob - 1 \<noteq> 0"
  shows "balanced vs (h(a \<mapsto> ob\<lparr>m_rc := m_rc ob - 1\<rparr>))"
proof -
  have a: "a \<in> alive h" using balanced_alive [OF assms(1)] by simp
  have "m_rc ob \<noteq> 0" using a assms(2) by (auto simp: alive_def rc_of_def)
  then have 1: "unat (m_rc ob - 1) = unat (m_rc ob) - 1" "unat (m_rc ob) = rc_of h a"
    using assms(2) by (simp_all add: unat_minus_one rc_of_def)
  note u = references_counted [OF assms(2) a assms(3)]
  have "references vs h b + of_bool (b = a) = rc_of h b" for b
    using assms(1) by (auto simp: balanced_def references_Cons of_bool_def split: if_splits)
  then have "references vs h b = (if b = a then rc_of h a - 1 else rc_of h b)" for b
    by (metis add_diff_cancel_right' of_bool_eq add_0_right)
  then show ?thesis using assms(1) by (simp add: balanced_def u 1)
qed

lemma balanced_dead:
  assumes "balanced (Some a # vs) h" "h a = Some ob" "m_rc ob - 1 = 0"
  shows "balanced (sh_members ob @ vs) (h(a \<mapsto> ob\<lparr>m_rc := 0\<rparr>))"
proof -
  have a: "a \<in> alive h" using balanced_alive [OF assms(1)] by simp
  have "m_rc ob = 1" using assms(3) by simp
  then have 1: "rc_of h a = 1" using assms(2) by (simp add: rc_of_def)
  note u = references_dead [OF assms(2) a balanced_finite [OF assms(1)]]
  have "references vs h b + of_bool (b = a) = rc_of h b" for b
    using assms(1) by (auto simp: balanced_def references_Cons of_bool_def split: if_splits)
  then have "references vs h b = (if b = a then 0 else rc_of h b)" for b
    using 1 by (metis add_diff_cancel_right' of_bool_eq add_0_right diff_self_eq_0)
  then show ?thesis using assms(1) by (simp add: balanced_def u)
qed

text \<open>One pointer, when the rest is destroyed as it should\<close>

lemma destroy_balanced:
  "balanced (ps @ vs) h \<Longrightarrow>
   \<exists>h'. destroy_ptrs ps h = Some h' \<and> balanced vs h' \<and> alive h' \<subseteq> alive h \<and> dying h' = dying h"
proof (induction "card (alive h)" arbitrary: ps vs h rule: less_induct)
  case less
  have "card (alive g) \<le> card (alive h) \<Longrightarrow> balanced (qs @ vs) g \<Longrightarrow>
    \<exists>h'. destroy_ptrs qs g = Some h' \<and> balanced vs h' \<and> alive h' \<subseteq> alive g \<and> dying h' = dying g" for qs g
  proof (induction qs arbitrary: g)
    case Nil
    then show ?case by (simp add: destroy_ptrs.simps)
  next
    case (Cons p qs)
    show ?case
    proof (cases p)
      case None
      then show ?thesis using Cons by (subst destroy_ptrs.simps) simp
    next
      case (Some a)
      have b: "balanced (Some a # (qs @ vs)) g" using Cons.prems(2) Some by simp
      have a: "a \<in> alive g" using balanced_alive [OF b] by simp
      then obtain ob where ob: "g a = Some ob" using alive_dom by blast
      let ?g = "g(a \<mapsto> ob\<lparr>m_rc := m_rc ob - 1\<rparr>)"
      show ?thesis
      proof (cases "m_rc ob - 1 = 0")
        case False
        have "balanced (qs @ vs) ?g" by (rule balanced_counted [OF b ob False])
        note u = references_counted(3,4) [OF ob a False]
        have "\<exists>h'. destroy_ptrs qs ?g = Some h' \<and> balanced vs h' \<and> alive h' \<subseteq> alive g \<and> dying h' = dying g"
          using Cons.IH [of ?g] Cons.prems(1) \<open>balanced (qs @ vs) ?g\<close> unfolding u by blast
        then show ?thesis using False ob Some by (subst destroy_ptrs.simps) simp
      next
        case True
        have g: "?g = g(a \<mapsto> ob\<lparr>m_rc := 0\<rparr>)" using True by simp
        note u = references_dead(3,4) [OF ob a balanced_finite [OF b]]
        have "balanced (sh_members ob @ (qs @ vs)) ?g" unfolding g by (rule balanced_dead [OF b ob True])
        moreover have "card (alive ?g) < card (alive h)"
          using Cons.prems(1) a finite_alive [OF balanced_finite [OF b]] unfolding g u
          by (metis card_Diff1_less less_le_trans)
        ultimately obtain h2 where h2: "destroy_ptrs (sh_members ob) ?g = Some h2" "balanced (qs @ vs) h2"
          "alive h2 \<subseteq> alive g - {a}" "dying h2 = insert a (dying g)"
          using less.hyps [of ?g "sh_members ob" "qs @ vs"] unfolding g u by blast
        have d: "a \<in> dying h2" using h2(4) by simp
        note f = references_freed [OF d]
        have "a \<notin> dying g" using a by (simp add: alive_def dying_def)
        then have f4: "dying (h2(a := None)) = dying g" using f(4) h2(4) by simp
        have "balanced (qs @ vs) (h2(a := None))"
          using h2(2) by (simp add: balanced_def f)
        moreover have "card (alive (h2(a := None))) \<le> card (alive h)"
          using card_mono [OF finite_alive [OF balanced_finite [OF b]], of "alive h2"] h2(3) Cons.prems(1)
          unfolding f(3) by fastforce
        ultimately have "\<exists>h'. destroy_ptrs qs (h2(a := None)) = Some h' \<and> balanced vs h' \<and> alive h' \<subseteq> alive g \<and> dying h' = dying g"
          using Cons.IH [of "h2(a := None)"] h2(3) unfolding f4 f(3) by blast
        then show ?thesis using True ob Some h2(1) by (subst destroy_ptrs.simps) simp
      qed
    qed
  qed
  then show ?case using less.prems by blast
qed

subsection \<open>Counting a new pointer\<close>

definition room :: "nat \<Rightarrow> shared_heap \<Rightarrow> bool" where
  "room n h \<longleftrightarrow> (\<forall>a. rc_of h a + n < 2 ^ 32)"

lemma Ptr_copy_ok:
  assumes "balanced vs h" "p \<in> set vs" "room (Suc n) h"
  shows "\<exists>h'. Ptr_copy p h = Some h' \<and> balanced (p # vs) h' \<and> dying h' = dying h \<and> dom h' = dom h \<and>
    alive h' = alive h \<and> members_of h' = members_of h \<and> room n h'"
proof (cases p)
  case None
  have "room n h" using assms(3) unfolding room_def by (metis add_Suc_right Suc_lessD)
  then show ?thesis using None assms(1) by (simp add: Ptr_copy_def)
next
  case (Some a)
  have a: "a \<in> alive h" using balanced_alive [OF assms(1)] assms(2) Some by simp
  then obtain ob where ob: "h a = Some ob" using alive_dom by blast
  let ?h = "h(a \<mapsto> ob\<lparr>m_rc := m_rc ob + 1\<rparr>)"
  have "rc_of h a + Suc n < 2 ^ 32" using assms(3) by (simp add: room_def)
  then have lt: "unat (m_rc ob) + 1 < 2 ^ 32" using ob by (simp add: rc_of_def)
  then have n: "unat (m_rc ob + 1) = unat (m_rc ob) + 1" by (simp add: unat_word_ariths)
  then have 0: "m_rc ob + 1 \<noteq> 0" by (metis add_is_0 unat_0 one_neq_zero)
  note u = references_counted [OF ob a 0]
  have "references vs h b = rc_of h b" for b using assms(1) by (simp add: balanced_def)
  then have "references (p # vs) ?h b = rc_of ?h b" for b
    using ob n unfolding references_Cons u by (auto simp: Some rc_of_def)
  then have "balanced (p # vs) ?h" using balanced_finite [OF assms(1)] by (simp add: balanced_def)
  moreover have "rc_of ?h b + n < 2 ^ 32" for b
  proof -
    have "rc_of h b + Suc n < 2 ^ 32" using assms(3) by (simp add: room_def)
    then show ?thesis using ob n by (cases "b = a") (simp_all add: u(2) rc_of_def)
  qed
  then have "room n ?h" unfolding room_def by blast
  moreover have "members_of ?h = members_of h" using ob by (auto simp: members_of_def)
  moreover have "dom ?h = dom h" using ob by auto
  moreover have "Ptr_copy p h = Some ?h" using Some ob by (simp add: Ptr_copy_def addRef_def)
  ultimately show ?thesis using u(3,4) by blast
qed

lemma Ptr_new_copy: "Ptr_new = Ptr_copy"
  by (simp add: Ptr_new_def Ptr_copy_def fun_eq_iff)

lemma copy_ptrs_ok:
  "balanced vs h \<Longrightarrow> set ps \<subseteq> set vs \<Longrightarrow> room (length ps + n) h \<Longrightarrow>
   \<exists>h'. copy_ptrs ps h = Some h' \<and> balanced (ps @ vs) h' \<and> dying h' = dying h \<and> dom h' = dom h \<and> room n h'"
proof (induction ps arbitrary: vs h)
  case (Cons p ps)
  obtain h1 where h1: "Ptr_copy p h = Some h1" "balanced (p # vs) h1" "dying h1 = dying h" "dom h1 = dom h"
    "room (length ps + n) h1"
    using Ptr_copy_ok [OF Cons.prems(1), of p "length ps + n"] Cons.prems(2,3) by auto
  have sub: "set ps \<subseteq> set (p # vs)" using Cons.prems(2) by auto
  obtain h2 where h2: "copy_ptrs ps h1 = Some h2" "balanced (ps @ p # vs) h2" "dying h2 = dying h1" "dom h2 = dom h1"
    "room n h2"
    using Cons.IH [OF h1(2) sub h1(5)] by blast
  have "balanced ((p # ps) @ vs) h2" using h2(2) by (simp add: balanced_def references_append references_Cons add_ac)
  then show ?case using h1 h2 by auto
qed simp

subsection \<open>Programs\<close>

definition pointers_to :: "shared \<Rightarrow> nat \<Rightarrow> nat" where
  "pointers_to s a =
     count_list (sd_vars s) (Some a) + (\<Sum>b \<in> dom (sd_heap s). count_list (members_of (sd_heap s) b) (Some a))"

definition counted :: "shared \<Rightarrow> bool" where
  "counted s \<longleftrightarrow> finite (dom (sd_heap s)) \<and>
     (\<forall>a. case sd_heap s a of
            None \<Rightarrow> pointers_to s a = 0
          | Some ob \<Rightarrow> m_rc ob \<noteq> 0 \<and> unat (m_rc ob) = pointers_to s a)"

lemma all_alive: "dying h = {} \<Longrightarrow> alive h = dom h"
proof (rule equalityI [OF alive_dom], rule subsetI)
  fix a assume d: "dying h = {}" and a: "a \<in> dom h"
  have "a \<notin> dying h" unfolding d by simp
  then show "a \<in> alive h" using a unfolding dying_def alive_def mem_Collect_eq by (metis domIff)
qed

lemma counted_object:
  assumes "dying h = {}"
  shows "(case h a of None \<Rightarrow> n = 0 | Some ob \<Rightarrow> m_rc ob \<noteq> 0 \<and> unat (m_rc ob) = n) \<longleftrightarrow> n = rc_of h a"
proof (cases "h a")
  case (Some ob)
  then have "a \<in> alive h" using all_alive [OF assms] by blast
  then have "m_rc ob \<noteq> 0" using Some by (auto simp: alive_def rc_of_def)
  then show ?thesis using Some by (auto simp: rc_of_def)
qed (simp add: rc_of_def)

lemma counted_not_dying: "counted s \<Longrightarrow> dying (sd_heap s) = {}"
proof (rule equals0I)
  fix a assume c: "counted s" and a: "a \<in> dying (sd_heap s)"
  obtain ob where ob: "sd_heap s a = Some ob" "rc_of (sd_heap s) a = 0"
    using a by (auto simp: dying_def)
  have "case sd_heap s a of None \<Rightarrow> pointers_to s a = 0
    | Some ob \<Rightarrow> m_rc ob \<noteq> 0 \<and> unat (m_rc ob) = pointers_to s a"
    using c unfolding counted_def by (elim conjE allE [of _ a])
  then show False using ob by (simp add: rc_of_def unat_eq_0)
qed

lemma counted_iff: "counted s \<longleftrightarrow> balanced (sd_vars s) (sd_heap s) \<and> dying (sd_heap s) = {}"
proof (cases "dying (sd_heap s) = {}")
  case True
  have "references (sd_vars s) (sd_heap s) a = pointers_to s a" for a
    unfolding references_def pointers_to_def all_alive [OF True] ..
  then show ?thesis unfolding counted_def balanced_def counted_object [OF True] using True by simp
next
  case False
  then have "\<not> counted s" by (rule contrapos_nn) (rule counted_not_dying)
  with False show ?thesis by simp
qed

fun ptr_ok :: "ptr_op \<Rightarrow> shared \<Rightarrow> bool" where
  "ptr_ok (Make a is) s \<longleftrightarrow> sd_heap s a = None \<and> (\<forall>i \<in> set is. i < length (sd_vars s)) \<and> room (length is) (sd_heap s)"
| "ptr_ok (Copy i) s \<longleftrightarrow> i < length (sd_vars s) \<and> room 1 (sd_heap s)"
| "ptr_ok (From_get i) s \<longleftrightarrow> i < length (sd_vars s) \<and> room 1 (sd_heap s)"
| "ptr_ok (Reset i) s \<longleftrightarrow> i < length (sd_vars s)"
| "ptr_ok (Assign i j) s \<longleftrightarrow> i < length (sd_vars s) \<and> j < length (sd_vars s) \<and> room 1 (sd_heap s)"
| "ptr_ok (Assign_get i j) s \<longleftrightarrow> i < length (sd_vars s) \<and> j < length (sd_vars s) \<and> room 1 (sd_heap s)"
| "ptr_ok (Swap i j) s \<longleftrightarrow> i < length (sd_vars s) \<and> j < length (sd_vars s)"
| "ptr_ok (Destroy i) s \<longleftrightarrow> i < length (sd_vars s)"
| "ptr_ok (Assign_member i k j) s \<longleftrightarrow> i < length (sd_vars s) \<and> j < length (sd_vars s) \<and> room 1 (sd_heap s) \<and>
     (case sd_vars s ! i of None \<Rightarrow> False | Some a \<Rightarrow> k < length (members_of (sd_heap s) a))"

fun run_ok :: "ptr_op list \<Rightarrow> shared \<Rightarrow> bool" where
  "run_ok [] s \<longleftrightarrow> True"
| "run_ok (x # xs) s \<longleftrightarrow> ptr_ok x s \<and> (case ptr_do x s of None \<Rightarrow> True | Some s \<Rightarrow> run_ok xs s)"

lemma balanced_cong: "(\<And>a. count_list vs (Some a) = count_list ws (Some a)) \<Longrightarrow> balanced vs h = balanced ws h"
  by (simp add: balanced_def references_def)

lemma count_list_update:
  "k < length xs \<Longrightarrow> count_list (xs[k := v]) x + of_bool (xs ! k = x) = count_list xs x + of_bool (v = x)"
proof (induction xs arbitrary: k)
  case (Cons y ys)
  then show ?case using Cons.IH [of "k - 1"] by (cases k) auto
qed simp

lemma balanced_update: "i < length vs \<Longrightarrow> balanced (vs ! i # vs[i := v]) h = balanced (v # vs) h"
proof (rule balanced_cong)
  fix a assume i: "i < length vs"
  show "count_list (vs ! i # vs[i := v]) (Some a) = count_list (v # vs) (Some a)"
    using count_list_update [OF i, of v "Some a"] by (auto split: if_splits)
qed

text \<open>Destroying one pointer\<close>

lemma destroy_ok:
  assumes "balanced (p # vs) h"
  shows "\<exists>h'. Ptr_destroy p h = Some h' \<and> balanced vs h' \<and> dying h' = dying h"
proof -
  obtain h' where h': "destroy_ptrs [p] h = Some h'" "balanced vs h'" "dying h' = dying h"
    using destroy_balanced [of "[p]" vs h] assms by auto
  have "Ptr_destroy p h = destroy_ptrs [p] h"
    by (cases p) (simp_all add: Ptr_destroy_def release_def destroy_ptrs.simps)
  then show ?thesis using h' by simp
qed

lemma set_member_ok:
  assumes "balanced (v # vs) h" "a \<in> alive h" "k < length (members_of h a)"
  shows "balanced (members_of h a ! k # vs) (set_member a k v h)" "dying (set_member a k v h) = dying h"
proof -
  obtain ob where ob: "h a = Some ob" using assms(2) alive_dom by blast
  let ?h = "set_member a k v h"
  have h: "?h = h(a \<mapsto> ob\<lparr>sh_members := (sh_members ob)[k := v]\<rparr>)" using ob by (simp add: set_member_def)
  have r: "rc_of ?h b = rc_of h b" for b using ob by (simp add: h rc_of_def)
  have al: "alive ?h = alive h" by (simp add: alive_def r)
  show "dying ?h = dying h" unfolding dying_def r using ob by (auto simp: h)
  have m: "members_of ?h b = (if b = a then (members_of h a)[k := v] else members_of h b)" for b
    using ob by (simp add: h members_of_def)
  have f: "finite (alive h)" using finite_alive [OF balanced_finite [OF assms(1)]] .
  have "references (members_of h a ! k # vs) ?h x = references (v # vs) h x" for x
    using sum.remove [OF f assms(2), of "\<lambda>b. count_list (members_of ?h b) (Some x)"]
      sum.remove [OF f assms(2), of "\<lambda>b. count_list (members_of h b) (Some x)"]
      count_list_update [OF assms(3), of v "Some x"]
    by (auto simp: references_def al m split: if_splits)
  moreover have "finite (dom ?h)" using balanced_finite [OF assms(1)] by (simp add: h)
  ultimately show "balanced (members_of h a ! k # vs) ?h" using assms(1) unfolding balanced_def r by simp
qed

text \<open>Assigning: the value is copied, stored, and the old one is destroyed.\<close>

lemma assign_ok:
  assumes "balanced vs h" "p \<in> set vs" "room 1 h"
    and store: "\<And>g. balanced (p # vs) g \<Longrightarrow> alive g = alive h \<Longrightarrow> members_of g = members_of h \<Longrightarrow>
      balanced (old # ws) (store p g) \<and> dying (store p g) = dying g"
  shows "\<exists>h'. Ptr_assign store old p h = Some h' \<and> balanced ws h' \<and> dying h' = dying h"
proof -
  obtain g where g: "Ptr_copy p h = Some g" "balanced (p # vs) g" "dying g = dying h" "alive g = alive h"
    "members_of g = members_of h"
    using Ptr_copy_ok [OF assms(1,2), of 0] assms(3) by auto
  note s = store [OF g(2,4,5)]
  then obtain h' where "Ptr_destroy old (store p g) = Some h'" "balanced ws h'" "dying h' = dying (store p g)"
    using destroy_ok by blast
  then show ?thesis using g(1,3) s by (simp add: Ptr_assign_def Let_def)
qed

lemma assign_var_ok:
  assumes "balanced vs h" "i < length vs" "p \<in> set vs" "room 1 h"
  shows "\<exists>h'. Ptr_assign (\<lambda>v h. h) (vs ! i) p h = Some h' \<and> balanced (vs[i := p]) h' \<and> dying h' = dying h"
proof (rule assign_ok [OF assms(1,3,4)])
  fix g assume "balanced (p # vs) g"
  then show "balanced (vs ! i # vs[i := p]) g \<and> dying g = dying g" using balanced_update [OF assms(2)] by simp
qed

lemma assign_raw: "Ptr_assign_raw = Ptr_assign"
  by (simp add: fun_eq_iff Ptr_assign_def Ptr_assign_raw_def Ptr_new_copy)

lemma drop_var: "i < length vs \<Longrightarrow> balanced (vs ! i # take i vs @ drop (Suc i) vs) h = balanced vs h"
proof (rule balanced_cong)
  fix a assume "i < length vs"
  then show "count_list (vs ! i # take i vs @ drop (Suc i) vs) (Some a) = count_list vs (Some a)"
    using arg_cong [OF id_take_nth_drop, of i vs "\<lambda>xs. count_list xs (Some a)"] by simp
qed

text \<open>A new object: the pointers that were copied for its members become its members.\<close>

lemma make_ok:
  assumes "balanced (ms @ vs) h" "h a = None"
  shows "\<exists>h'. Ptr_new (Some a) (h(a \<mapsto> SharedImpl_new ms)) = Some h' \<and> balanced (vs @ [Some a]) h' \<and> dying h' = dying h"
proof -
  let ?h = "h(a \<mapsto> \<lparr>m_rc = 1, sh_members = ms\<rparr>)"
  have n: "Ptr_new (Some a) (h(a \<mapsto> SharedImpl_new ms)) = Some ?h"
    by (simp add: Ptr_new_def addRef_def SharedImpl_new_def)
  have r: "rc_of ?h b = (if b = a then 1 else rc_of h b)" for b by (simp add: rc_of_def)
  have al: "alive ?h = insert a (alive h)" by (auto simp: alive_def r)
  have m: "members_of ?h b = (if b = a then ms else members_of h b)" for b by (simp add: members_of_def)
  have na: "a \<notin> alive h" using assms(2) by (simp add: alive_def rc_of_def)
  have "references (vs @ [Some a]) ?h x = of_bool (x = a) + references (ms @ vs) h x" for x
  proof -
    have "(\<Sum>b \<in> alive h. count_list (members_of ?h b) (Some x)) = (\<Sum>b \<in> alive h. count_list (members_of h b) (Some x))"
      using na by (intro sum.cong) (auto simp: m)
    then show ?thesis using na finite_alive [OF balanced_finite [OF assms(1)]] by (simp add: references_def al m)
  qed
  moreover have "references (ms @ vs) h a = 0" using assms by (simp add: balanced_def rc_of_def)
  ultimately have "balanced (vs @ [Some a]) ?h" using assms(1) by (simp add: balanced_def r)
  moreover have "dying ?h = dying h" using assms(2) unfolding dying_def r by auto
  ultimately show ?thesis using n by blast
qed

lemma Ptr_reset_destroy: "Ptr_reset p h = map_option (Pair None) (Ptr_destroy p h)"
  by (cases p) (auto simp: Ptr_reset_def Ptr_destroy_def split: bind_splits option.splits)

lemma ptr_do_counted:
  assumes "counted s" "ptr_ok x s"
  shows "\<exists>s'. ptr_do x s = Some s' \<and> counted s'"
proof -
  let ?vs = "sd_vars s" and ?h = "sd_heap s"
  have b: "balanced ?vs ?h" and d: "dying ?h = {}" using assms(1) by (simp_all add: counted_iff)
  have app: "balanced (vs @ [p]) h = balanced (p # vs) h" for p vs h by (rule balanced_cong) simp
  show ?thesis
  proof (cases x)
    case (Make a ks)
    let ?ms = "map ((!) ?vs) ks"
    have ok: "?h a = None" "set ?ms \<subseteq> set ?vs" "room (length ?ms + 0) ?h" using assms(2) Make by auto
    obtain h1 where h1: "copy_ptrs ?ms ?h = Some h1" "balanced (?ms @ ?vs) h1" "dying h1 = {}" "dom h1 = dom ?h"
      using copy_ptrs_ok [OF b ok(2,3)] d by auto
    have "h1 a = None" using h1(4) ok(1) by blast
    from make_ok [OF h1(2) this] obtain h2 where
      "Ptr_new (Some a) (h1(a \<mapsto> SharedImpl_new ?ms)) = Some h2" "balanced (?vs @ [Some a]) h2" "dying h2 = {}"
      using h1(3) by auto
    then show ?thesis using h1(1) Make by (auto simp: counted_iff Let_def)
  next
    case (Copy i)
    then show ?thesis using Ptr_copy_ok [OF b, of "?vs ! i" 0] assms(2) d by (auto simp: counted_iff app)
  next
    case (From_get i)
    then show ?thesis using Ptr_copy_ok [OF b, of "?vs ! i" 0] assms(2) d by (auto simp: counted_iff app Ptr_new_copy)
  next
    case (Reset i)
    then have "balanced (?vs ! i # ?vs[i := None]) ?h" using assms(2) b by (simp add: balanced_update)
    from destroy_ok [OF this] show ?thesis using Reset d by (auto simp: counted_iff Ptr_reset_destroy)
  next
    case (Assign i j)
    then show ?thesis using assign_var_ok [OF b, of i "?vs ! j"] assms(2) d by (auto simp: counted_iff)
  next
    case (Assign_get i j)
    then show ?thesis using assign_var_ok [OF b, of i "?vs ! j"] assms(2) d by (auto simp: counted_iff assign_raw)
  next
    case (Swap i j)
    then have "balanced (?vs[i := ?vs ! j, j := ?vs ! i]) ?h = balanced ?vs ?h"
      using assms(2) by (intro balanced_cong) (metis ptr_ok.simps(7) mset_swap count_mset)
    then show ?thesis using Swap b d by (simp add: counted_iff)
  next
    case (Destroy i)
    then have "balanced (?vs ! i # take i ?vs @ drop (Suc i) ?vs) ?h" using assms(2) b by (simp add: drop_var)
    from destroy_ok [OF this] show ?thesis using Destroy d by (auto simp: counted_iff)
  next
    case (Assign_member i k j)
    then obtain a where a: "?vs ! i = Some a" "k < length (members_of ?h a)" "i < length ?vs" "j < length ?vs" "room 1 ?h"
      using assms(2) by (auto split: option.splits)
    have al: "a \<in> alive ?h" using balanced_alive [OF b] a(1,3) by (metis nth_mem)
    then obtain ob where ob: "?h a = Some ob" using alive_dom by blast
    have "\<exists>h'. Ptr_assign (set_member a k) (members_of ?h a ! k) (?vs ! j) ?h = Some h' \<and> balanced ?vs h' \<and> dying h' = dying ?h"
    proof (rule assign_ok [OF b _ a(5)])
      show "?vs ! j \<in> set ?vs" using a(4) by simp
      fix g assume g: "balanced (?vs ! j # ?vs) g" "alive g = alive ?h" "members_of g = members_of ?h"
      show "balanced (members_of ?h a ! k # ?vs) (set_member a k (?vs ! j) g) \<and> dying (set_member a k (?vs ! j) g) = dying g"
        using set_member_ok [OF g(1), of a k] al a(2) g(2,3) by simp
    qed
    then show ?thesis using Assign_member a(1) ob d by (auto simp: counted_iff members_of_def)
  qed
qed

lemma ptr_run_counted: "counted s \<Longrightarrow> run_ok xs s \<Longrightarrow> \<exists>s'. ptr_run xs s = Some s' \<and> counted s'"
proof (induction xs arbitrary: s)
  case (Cons x xs)
  obtain s1 where "ptr_do x s = Some s1" "counted s1" using ptr_do_counted [OF Cons.prems(1)] Cons.prems(2) by auto
  then show ?case using Cons by simp
qed simp

definition no_objects :: shared where
  "no_objects = \<lparr>sd_vars = [], sd_heap = (\<lambda>_. None)\<rparr>"

lemma no_objects_counted: "counted no_objects"
  by (simp add: counted_def no_objects_def pointers_to_def)

end
