(* ===== verification/Spec2Isabelle.thy ===== *)
theory Spec2Isabelle
  imports Txn_Pages Btree_Sessions Hash_Table Catch_Clara_Correct Catch_Reporter_Correct
    Catch_Macros_Correct Catch_Hub Catch_Shared_Correct
begin

text \<open>
  A verification development for everdb-native, an embedded database that keeps its blocks in one
  memory-mapped file, and for the test framework that the repository ships and builds its tests
  with.

  \<^bold>\<open>The program.\<close>  The database (\<open>src/src\<close>) is a stack of C files.  \<open>io.c\<close> opens, sizes and maps the
  file; \<open>core.h\<close> is the handle and the layout of a block of 4096 bytes.  \<open>txn.c\<close> gives out blocks:
  a transaction may write blocks that it allocated or copied, and notes what it did to each block
  in the hash table of \<open>mem_hash.h\<close>.  Free blocks are kept by \<open>freelist.c\<close> in an array, which is an
  object of the database itself, so that the allocator is a client of the arrays that it serves.
  \<open>page.c\<close> are two-level page tables, \<open>array.c\<close> arrays of fixed-size items on top of them, and
  \<open>btree.c\<close> B+ trees of one block for each node.  All three get their blocks from the three functions
  \<open>edb_allocate_block\<close>, \<open>edb_modify_block\<close> and \<open>edb_free_block\<close>.  \<open>edb.c\<close> is the public
  interface: opening, closing, transactions, and arrays behind handles.  The file
  \<open>src/lib/catch.hpp\<close> is the test framework: command line, selection of tests, running, assertions,
  reporters.

  \<^bold>\<open>Conventions.\<close>  A C function is a HOL function that returns its code, its output parameters and
  the new state inside an option; \<open>None\<close> is an execution without a defined result: an access outside
  the mapping or through a pointer that a remapping has made stale, a division by zero, an endless
  loop.  A theorem with \<open>Some\<close> in its conclusion therefore says that the code is memory safe and
  terminates.  Machine integers are words of their width (\<open>u8\<close>, \<open>u32\<close>, \<open>u64\<close>).  In the test
  framework an exception is the left side of a sum where the code catches it, otherwise \<open>None\<close>,
  \<open>size_t\<close> is a 64-bit word where its overflow can be seen and a natural number elsewhere, and a
  position in a string or an iterator is a natural number.

  \<^bold>\<open>The database, theory by theory.\<close>
  \<^item> \<open>Prelude\<close>: word types, the collections of simplification rules, facts on words and lists.
  \<^item> \<open>Math\<close> (\<open>math.h\<close>): \<open>next_power_of_two\<close>, the step by which the file grows.
  \<^item> \<open>Mem_Hash\<close>, \<open>Mem_Hash_Correct\<close> (\<open>mem_hash.h\<close>): open addressing; the probe sequence visits every
    slot, so that the loops end, and setting is map update, through growth and rehashing.
  \<^item> \<open>Memory\<close>, \<open>Core\<close> (\<open>core.h\<close>, \<open>util.h\<close>): bytes, loads and stores, the record \<open>edb\<close>, pointers with
    the epoch of their mapping, and the block interface.  Its two locales are \<open>block_alloc\<close> (a
    provider keeps its invariant, hands out fresh blocks and makes blocks writable) and its extension
    \<open>block_device\<close> (it also takes blocks back).
  \<^item> \<open>Io\<close> (\<open>io.c\<close>): opening, sizing, mapping and closing, over the operating system as an argument.
  \<^item> \<open>Page\<close>, \<open>Page_Correct\<close> (\<open>page.c\<close>): \<open>pages s root\<close> is the list of blocks of a table; the operations
    index, extend and cut it.  Proved in the two locales.
  \<^item> \<open>Edb_Array\<close>, \<open>Edb_Array_Correct\<close> (\<open>array.c\<close>): \<open>arr s root\<close> is the list of items; the operations
    refine the list operations in both layouts.  Proved in the two locales.
  \<^item> \<open>Txn\<close> (\<open>freelist.c\<close>, \<open>txn.c\<close>), \<open>Txn_Correct\<close>: the freelist, the block operations, their
    invariant \<open>txn_inv\<close>, and the interpretations \<open>ta\<close> and \<open>td\<close> of the two locales on \<open>txn_api\<close>, by
    which the lemmas on page tables and arrays hold of the whole stack.
  \<^item> \<open>Edb_Api\<close> (\<open>edb.c\<close>), \<open>Txn_Master\<close>: opening a new file; beginning, committing and aborting the
    outermost transaction on a database that is \<open>db_ok\<close>.
  \<^item> \<open>Txn_Client\<close>, \<open>Txn_Sessions\<close>, \<open>Txn_Pages\<close>: clients as a step relation and the invariant
    \<open>isolated\<close>, by rule induction; whole sessions on concrete databases; page tables whose blocks belong
    to an earlier transaction.
  \<^item> \<open>Btree\<close>, \<open>Btree_Update\<close>, \<open>Btree_Correct\<close>, \<open>Btree_Sessions\<close> (\<open>btree.c\<close>): search, lookup, insertion and
    removal; lookups in trees of any height and updates of a leaf agree with maps.
  \<^item> \<open>Hash_Table\<close> (\<open>hash.c\<close>): the stubs that the code has.

  \<^bold>\<open>The test framework, theory by theory\<close> (all of \<open>catch.hpp\<close>).
  \<^item> \<open>Catch_Strings\<close>, \<open>Catch_Totals\<close>, \<open>Catch_Values\<close>, \<open>Catch_Values_Correct\<close>: string functions, results
    and counts, the text of values, generators.  Generators are odometers: the locale \<open>counter\<close>,
    interpreted on a single generator and on a list of them.
  \<^item> \<open>Catch_Text\<close>, \<open>Catch_Wrap\<close>: the two classes called \<open>Text\<close>, one in the command line library, one for
    listings and reporters.
  \<^item> \<open>Catch_Test_Case\<close>, \<open>Catch_Spec\<close>, \<open>Catch_Registry\<close>, \<open>Catch_Select_Correct\<close>: tags, test specifications and
    their parser, the registry, its order and its listings.
  \<^item> \<open>Catch_Clara\<close>, \<open>Catch_Clara_Correct\<close>, \<open>Catch_CommandLine\<close>, \<open>Catch_Config\<close>: tokens, options, the command
    line and the configuration.
  \<^item> \<open>Catch_Compare\<close>, \<open>Catch_Expression\<close>, \<open>Catch_Expression_Correct\<close>: the overloads that compare two
    operands, with the conversions of the language written out, matchers and their combinators, and
    the expressions of an assertion.
  \<^item> \<open>Catch_Macros\<close>, \<open>Catch_Macros_Correct\<close>: the macros of assertions, over the evaluation of their
    expression, which may assert something itself or throw.
  \<^item> \<open>Catch_Tracker\<close>, \<open>Catch_Run\<close>, \<open>Catch_Session\<close>, \<open>Catch_Run_Correct\<close>: the trackers in a store, assertion
    results, the run of a test case, of the selected tests, of a session.
  \<^item> \<open>Catch_Xml\<close>, \<open>Catch_Reporter\<close>, \<open>Catch_Reporter_Xml\<close>, \<open>Catch_Reporter_Junit\<close>, \<open>Catch_Reporter_Console\<close>,
    \<open>Catch_Reporter_Compact\<close>: the XML writer, the reporter interface and the four reporters.
  \<^item> \<open>Catch_Report_Correct\<close>, \<open>Catch_Reporter_Protocol\<close>, \<open>Catch_Reporter_Correct\<close>: escaping and wrapping; the
    phases of a run as a machine; the locale \<open>reporter_contract\<close>, interpreted on the base class, on the
    four reporters and on lists of reporters, whose lemma \<open>calls_ok\<close> carries the properties on reports.
  \<^item> \<open>Catch_Platform\<close>, \<open>Catch_Platform_Correct\<close>: the buffered stream, exception translators, the timer, the
    signal handlers, the debugger check.
  \<^item> \<open>Catch_Shared\<close>, \<open>Catch_Shared_Correct\<close>: objects with a counter of their references and the pointer that
    counts; \<open>balanced\<close> equates every counter with the pointers that are still to be destroyed or kept.
  \<^item> \<open>Catch_Hub\<close>: the global hub of the registries, the context, registration before \<open>main\<close>, colours and
    redirected output.

  \<^bold>\<open>Bounds.\<close>  The block API calls itself through the freelist; \<open>txn_api os d\<close> cuts this after \<open>d\<close> calls,
  and two are enough, which \<open>txn_api os (Suc (Suc d))\<close> in the statements says: deeper ones give the
  same results.  The theorems on transactions are for files of up to \<open>2 ^ m\<close> blocks, with
  \<open>m \<le> 12\<close> for the invariant and allocations and \<open>m \<le> 10\<close> for frees and commits: the freelist is
  kept in its root block, which holds 1021 numbers, so that its growth asks for no block.  \<open>troom m s\<close> is the number of
  allocations that are certain to succeed.  Page tables have at most \<open>PT_MAX\<close> data blocks.  A table of
  \<open>mem_hash\<close> has room up to the largest of its sizes.  \<open>Text\<close> stops at 1000 lines by itself.  The bar
  of the console reporter is exact for totals below \<open>2 ^ 57\<close>, where its products fit 64 bits.  Loops
  that may run forever are partial functions into \<open>option\<close> (probing, the trees, \<open>replaceInPlace\<close>,
  the messages of the compact reporter), and that they return is part of the theorems.  The sizes of
  the C types are those of 64-bit Linux.

  \<^bold>\<open>Properties.\<close>  They start with the transactions (isolation, abort, commit, and three ways in which
  the code loses writes or frees a block twice), go on to arrays, trees, the table of blocks and the file,
  and end with the test framework, from the selection of tests to the reporters.  A property that
  shows a defect states precisely when it occurs.

  \<^bold>\<open>Not modelled.\<close>  The tests and the build files; the Windows, macOS and Objective-C branches; the
  return of memory to the C library; colours inside a report, where the reporters are modelled
  without them; streams and files as objects of the operating system; floating point numbers (their text, \<open>Approx\<close>,
  comparisons) and operands of arbitrary types, for which the framework instantiates the operators
  of the program under test.  The body of a test case is an argument of the run.  Nested transactions are modelled as the code has them, but \<open>txn_begin\<close> refuses
  to start one, so that the lemmas are about the outermost.  The lemmas on trees do not cover
  splits and merges, where the code has the defects that are listed with the findings.
\<close>

section \<open>Properties\<close>

text \<open>C1. Isolation.  On a database between transactions, \<open>edb_txn_begin\<close> succeeds, and after any
  sequence of client operations (allocating, copying on write, freeing, and writes to blocks
  the transaction may write) the transaction invariant holds, every block that it may write
  was free or beyond the end of the file when it began, and every other block of the old
  file except the secondary freelist root holds the bytes it held then.\<close>

theorem transaction_isolation:
  assumes "os_ok os" and "m \<le> 10" and "db_ok m s0"
  shows "\<exists>s. edb_txn_begin api s0 = Some (0, s) \<and> (\<forall>s'. client_steps os m d s s' \<longrightarrow>
    txn_inv os m s' \<and> tidy s' \<and>
    (\<forall>b \<in> tpriv s'. b \<in> set (prim s0) \<or> unat (nblocks s0) \<le> unat b) \<and>
    (\<forall>c. unat c < unat (nblocks s0) \<longrightarrow> c \<noteq> EDB_FREELIST_SECONDARY \<longrightarrow> c \<notin> set (prim s0) \<longrightarrow>
       blk s' c = blk s0 c))"
proof -
  obtain s where s: "edb_txn_begin api s0 = Some (0, s)" "\<forall>s'. client_steps os m d s s' \<longrightarrow> isolated os m s0 s'"
    using transaction_steps [OF assms, of api d] by blast
  show ?thesis
  proof (intro exI [of _ s] conjI allI impI, rule s(1))
    fix s' assume "client_steps os m d s s'"
    then have i: "isolated os m s0 s'" using s(2) by blast
    note i = isolatedD [OF i]
    show "txn_inv os m s'" "tidy s'" by (rule i(1), rule i(2))
    show "\<forall>b \<in> tpriv s'. b \<in> set (prim s0) \<or> unat (nblocks s0) \<le> unat b" using i(5) by blast
    show "blk s' c = blk s0 c" if "unat c < unat (nblocks s0)" "c \<noteq> EDB_FREELIST_SECONDARY"
      "c \<notin> set (prim s0)" for c using that by (rule i(6))
  qed
qed

theorem transaction_isolation_witness:
  "\<exists>s0 s b s'. db_ok 10 s0 \<and> nblocks s0 = 4 \<and> edb_txn_begin (txn_api good_os 2) s0 = Some (0, s) \<and>
     client_steps good_os 10 1 s s' \<and> txn_inv good_os 10 s' \<and> b \<in> tpriv s' \<and> 4 \<le> unat b \<and> 
     blk s' EDB_OBJLIST = blk s0 EDB_OBJLIST"
proof -
  obtain s0 s b s' where e: "db_ok 10 s0" "edb_txn_begin (txn_api good_os 2) s0 = Some (0, s)"
      "client_steps good_os 10 1 s s'" "b \<in> tpriv s'" "nblocks s0 = 4" "prim s0 = []"
    using example_steps [of "txn_api good_os 2" 1] by blast
  have "txn_inv good_os 10 s'" "blk s' EDB_OBJLIST = blk s0 EDB_OBJLIST" "4 \<le> unat b"
    using transaction_isolation [OF good_os(1) _ e(1), of "txn_api good_os 2" 1] e(2-6)
    by (auto simp: EDB_OBJLIST_def EDB_FREELIST_SECONDARY_def)
  then show ?thesis using e
    by (intro exI [of _ s0] exI [of _ s] exI [of _ b] exI [of _ s']) simp
qed

text \<open>C2. Atomicity of abort.  After any sequence of client operations, \<open>edb_txn_abort\<close> succeeds
  and restores the database: the same number of blocks, the same freelist, and the bytes of
  every block that was in use when the transaction began.\<close>

theorem abort_restores:
  assumes "os_ok os" and "\<And>h n. os_ftruncate os h n" and "m \<le> 10" and "db_ok m s0"
  shows "\<exists>s. edb_txn_begin api s0 = Some (0, s) \<and> (\<forall>s'. client_steps os m d s s' \<longrightarrow>
    (\<exists>s''. edb_txn_abort os api s' = Some (0, s'') \<and> db_ok m s'' \<and> prim s'' = prim s0 \<and>
       nblocks s'' = nblocks s0 \<and>
       (\<forall>c. unat c < unat (nblocks s0) \<longrightarrow> c \<noteq> EDB_FREELIST_SECONDARY \<longrightarrow> c \<notin> set (prim s0) \<longrightarrow>
          blk s'' c = blk s0 c)))"
proof -
  obtain s where s: "edb_txn_begin api s0 = Some (0, s)" "\<forall>s'. client_steps os m d s s' \<longrightarrow> isolated os m s0 s'"
    using transaction_steps [OF assms(1,3,4), of api d] by blast
  show ?thesis
  proof (rule exI [of _ s], intro conjI allI impI, rule s(1))
    fix s' assume "client_steps os m d s s'"
    then have "isolated os m s0 s'" using s(2) by blast
    note i = isolatedD [OF this]
    have db: "4 \<le> unat (nblocks s0)" "arr_ok {EDB_FREELIST_PRIMARY} s0 EDB_FREELIST_PRIMARY"
        "pt_n s0 EDB_FREELIST_PRIMARY = 0" "isz s0 EDB_FREELIST_PRIMARY = 4" "distinct (prim s0)"
        "\<forall>b \<in> set (prim s0). 4 \<le> unat b \<and> unat b < unat (nblocks s0)"
      using assms(4) by (simp_all add: db_ok_def)
    have "EDB_FREELIST_PRIMARY \<notin> set (prim s0)" using db(6) by force
    then have "blk s' EDB_FREELIST_PRIMARY = blk s0 EDB_FREELIST_PRIMARY" using db(1)
      by (intro i(6)) (auto simp: EDB_FREELIST_PRIMARY_def EDB_FREELIST_SECONDARY_def)
    note p = small_frame [OF db(2) this db(3)]
    have pr: "prim s' = prim s0" using p(3) by (simp add: prim_def)
    obtain s'' where s'': "txn_abort os api s' = Some (0, s'')" "db_ok m s''" "prim s'' = prim s'"
        "nblocks s'' = nblocks s0" "\<forall>c. unat c < unat (nblocks s0) \<longrightarrow> blk s'' c = blk s' c"
      using abort_ok [OF i(1) assms(2), of "nblocks s0" api] i(3,4) db p pr unfolding tbase_def by auto
    then show "\<exists>s''. edb_txn_abort os api s' = Some (0, s'') \<and> db_ok m s'' \<and> prim s'' = prim s0 \<and>
       nblocks s'' = nblocks s0 \<and>
       (\<forall>c. unat c < unat (nblocks s0) \<longrightarrow> c \<noteq> EDB_FREELIST_SECONDARY \<longrightarrow> c \<notin> set (prim s0) \<longrightarrow>
          blk s'' c = blk s0 c)"
      using pr i(6) edb_end_ok(2) [OF i(1), of api] by auto
  qed
qed

theorem abort_restores_witness:
  "\<exists>s0 s b s' s''. db_ok 10 s0 \<and> edb_txn_begin (txn_api good_os 2) s0 = Some (0, s) \<and>
     client_steps good_os 10 1 s s' \<and> b \<in> tpriv s' \<and>
     edb_txn_abort good_os (txn_api good_os 2) s' = Some (0, s'') \<and> db_ok 10 s'' \<and> nblocks s'' = 4 \<and>
     prim s'' = []"
proof -
  obtain s0 s b s' where e: "db_ok 10 s0" "edb_txn_begin (txn_api good_os 2) s0 = Some (0, s)"
      "client_steps good_os 10 1 s s'" "b \<in> tpriv s'" "nblocks s0 = 4" "prim s0 = []"
    using example_steps [of "txn_api good_os 2" 1] by blast
  obtain s'' where "edb_txn_abort good_os (txn_api good_os 2) s' = Some (0, s'')" "db_ok 10 s''"
      "prim s'' = prim s0" "nblocks s'' = nblocks s0"
    using abort_restores [OF good_os(1) good_os(2) _ e(1), of "txn_api good_os 2" 1] e(2,3) by auto
  then show ?thesis using e
    by (intro exI [of _ s0] exI [of _ s] exI [of _ b] exI [of _ s'] exI [of _ s'']) (simp del: txn_api.simps)
qed

text \<open>C3. Commit.  After any sequence of client operations, \<open>edb_txn_commit\<close> succeeds and leaves a
  well-formed database whose freelist holds exactly the blocks that were free in the
  transaction and those that it released; the object list root has the contents of the
  transaction's, no block above it changes, and no block that the transaction wrote is
  on the freelist.\<close>

theorem commit_publishes:
  assumes "os_ok os" and "m \<le> 10" and "db_ok m s0"
  shows "\<exists>s. edb_txn_begin api s0 = Some (0, s) \<and> (\<forall>s'. client_steps os m d s s' \<longrightarrow>
    (\<exists>s''. edb_txn_commit (txn_api os (Suc k)) s' = Some (0, s'') \<and> db_ok m s'' \<and>
       set (prim s'') = set (fl s') \<union> released s' \<and> blk s'' EDB_OBJLIST = blk s' (objlist s') \<and>
       (\<forall>c. 4 \<le> unat c \<longrightarrow> blk s'' c = blk s' c) \<and> nblocks s'' = nblocks s' \<and>
       txn_id s'' = txn_id s' + 1 \<and> (\<forall>b \<in> tpriv s' - {objlist s'}. b \<notin> set (prim s''))))"
proof -
  obtain s where s: "edb_txn_begin api s0 = Some (0, s)" "\<forall>s'. client_steps os m d s s' \<longrightarrow> isolated os m s0 s'"
    using transaction_steps [OF assms, of api d] by blast
  show ?thesis
  proof (rule exI [of _ s], intro conjI allI impI, rule s(1))
    fix s' assume "client_steps os m d s s'"
    then have "isolated os m s0 s'" using s(2) by blast
    note i = isolatedD [OF this]
    show "\<exists>s''. edb_txn_commit (txn_api os (Suc k)) s' = Some (0, s'') \<and> db_ok m s'' \<and>
       set (prim s'') = set (fl s') \<union> released s' \<and> blk s'' EDB_OBJLIST = blk s' (objlist s') \<and>
       (\<forall>c. 4 \<le> unat c \<longrightarrow> blk s'' c = blk s' c) \<and> nblocks s'' = nblocks s' \<and>
       txn_id s'' = txn_id s' + 1 \<and> (\<forall>b \<in> tpriv s' - {objlist s'}. b \<notin> set (prim s''))"
      using commit_ok [OF i(1) assms(2) i(2), of k] private_kept [OF i(1) assms(2)]
      unfolding edb_end_ok(1) [OF i(1)] by auto
  qed
qed

theorem commit_publishes_witness:
  "\<exists>s0 s b s' s''. db_ok 10 s0 \<and> edb_txn_begin (txn_api good_os 2) s0 = Some (0, s) \<and>
     client_steps good_os 10 1 s s' \<and> b \<in> tpriv s' \<and>
     edb_txn_commit (txn_api good_os 2) s' = Some (0, s'') \<and> db_ok 10 s'' \<and> blk s'' b = blk s' b"
proof -
  obtain s0 s b s' where e: "db_ok 10 s0" "edb_txn_begin (txn_api good_os 2) s0 = Some (0, s)"
      "client_steps good_os 10 1 s s'" "b \<in> tpriv s'"
    using example_steps [of "txn_api good_os 2" 1] by blast
  obtain s'' where "edb_txn_commit (txn_api good_os (Suc 1)) s' = Some (0, s'')" "db_ok 10 s''"
      "\<forall>c. 4 \<le> unat c \<longrightarrow> blk s'' c = blk s' c"
    using commit_publishes [OF good_os(1) _ e(1), of "txn_api good_os 2" 1 1] e(2,3) by auto
  moreover have "4 \<le> unat b" using e(4) by (simp add: tpriv_def)
  ultimately show ?thesis using e
    by (intro exI [of _ s0] exI [of _ s] exI [of _ b] exI [of _ s'] exI [of _ s''])
      (simp add: numeral_2_eq_2 del: txn_api.simps)
qed

text \<open>C4. A write to an object of an earlier transaction is lost.  \<open>obj_write\<close> copies the object's
  root block and stores the copy in the handle only: after the commit the object list still
  has the contents it had, so that it names the old root, and the old root is on the freelist,
  to be given to the next allocation.\<close>

theorem modified_object_released:
  assumes "isolated os m s0 s" and "m \<le> 10" and "0 < troom m s"
    and "h_txn_id h = txn_id s" and "old_block s (h_root h)"
  shows "\<exists>b s1 s2. obj_write (txn_api os (Suc (Suc d))) s h = Some (0, b, h\<lparr>h_root := b\<rparr>, s1) \<and>
    b \<noteq> h_root h \<and> edb_txn_commit (txn_api os (Suc k)) s1 = Some (0, s2) \<and> db_ok m s2 \<and>
    h_root h \<in> set (prim s2) \<and> b \<notin> set (prim s2) \<and> blk s2 EDB_OBJLIST = blk s (objlist s)"
proof -
  note i = isolatedD(1,2) [OF assms(1)]
  define v where "v = h_root h"
  have v: "3 \<le> unat v" "4 \<le> unat v" "unat v < unat (nblocks s)" "st s v = 0" "v \<notin> set (fl s)"
    using assms(5) by (simp_all add: old_block_def v_def)
  obtain b s1 where r: "txn_modify_block os (txn_api os (Suc d)) s v = Some (0, b, s1)" "txn_inv os m s1"
      "b \<notin> tpriv s" "tpriv s1 = insert b (tpriv s)" "b \<noteq> v" "st s1 = (st s)(b := v)" "objlist s1 = objlist s"
      "\<forall>c. unat c < unat (nblocks s) \<longrightarrow> c \<notin> {EDB_FREELIST_SECONDARY, b} \<longrightarrow> blk s1 c = blk s c"
      "b \<in> set (fl s) \<or> unat (nblocks s) \<le> unat b"
    using txn_modify_cow [OF i(1) assms(3) v(1,3-5), of d] by blast
  have e: "edb_modify_block os (Suc d) s v = Some (0, b, s1)" using r(1) by (simp add: edb_modify_block_def)
  have "v \<noteq> EDB_OBJLIST" using v(2) by auto
  then have i1: "isolated os m s0 s1"
    using copy_isolated [OF assms(1,3) _ e] assms(5) unfolding v_def by auto
  note j = isolatedD(1,2) [OF i1]
  obtain s2 where s2: "txn_commit (txn_api os (Suc k)) s1 = Some (0, s2)" "db_ok m s2"
      "set (prim s2) = set (fl s1) \<union> released s1" "blk s2 EDB_OBJLIST = blk s1 (objlist s1)"
    using commit_ok [OF j(1) assms(2) j(2), of k] by blast
  have bp: "b \<in> tpriv s1" using r(4) by simp
  have small: "unat v \<le> 4096"
    using v(3) i(1) two_power_12 [of m] assms(2) unfolding txn_inv_def by linarith
  have b4: "4 \<le> unat b" using bp by (simp add: tpriv_def)
  have "b \<noteq> objlist s" 
  proof
    assume "b = objlist s"
    then have "st s1 b = EDB_OBJLIST" using tidy_facts(1) [OF j(2)] r(7) b4 by auto
    then show False using r(6) \<open>v \<noteq> EDB_OBJLIST\<close> by simp
  qed
  then have "b \<notin> set (prim s2)" using private_kept [OF j(1) assms(2) bp] r(7) s2(3) by simp
  moreover have "v \<in> released s1"
  proof -
    have "v \<noteq> 0" using v(2) by auto
    then have "cowed (st s1 b)" using small_not_special(3) [OF small] r(6) by simp
    moreover have "b \<noteq> EDB_FREELIST_SECONDARY" using b4 by auto
    ultimately show ?thesis using r(6,7) \<open>b \<noteq> objlist s\<close> unfolding released_def
      by (auto intro!: exI [of _ b])
  qed
  moreover have "blk s1 (objlist s) = blk s (objlist s)"
  proof -
    have "unat (objlist s) < unat (nblocks s)"
      using tidy_facts(1) [OF i(2)] i(1) 
      by (auto simp: txn_inv_def states_ok_def not_le [symmetric] EDB_OBJLIST_def)
    moreover have "objlist s \<noteq> EDB_FREELIST_SECONDARY"
      using tidy_facts(1) [OF i(2)] by (auto simp: EDB_OBJLIST_def EDB_FREELIST_SECONDARY_def)
    ultimately show ?thesis using r(8) \<open>b \<noteq> objlist s\<close> by auto
  qed
  moreover have "obj_write (txn_api os (Suc (Suc d))) s h = Some (0, b, h\<lparr>h_root := b\<rparr>, s1)"
    using r(1) assms(4) by (simp add: obj_write_def obj_upgrade_def v_def)
  ultimately show ?thesis
    using r(5,7) s2 edb_end_ok(1) [OF j(1), of "txn_api os (Suc k)"] unfolding v_def by auto
qed

theorem modified_object_released_witness:
  "\<exists>s0 s h b s1 s2. db_ok 10 s0 \<and> edb_txn_begin (txn_api good_os 2) s0 = Some (0, s) \<and> old_block s (h_root h) \<and>
     obj_write (txn_api good_os 2) s h = Some (0, b, h\<lparr>h_root := b\<rparr>, s1) \<and>
     edb_txn_commit (txn_api good_os 2) s1 = Some (0, s2) \<and>
     h_root h \<in> set (prim s2) \<and> blk s2 EDB_OBJLIST = blk s (objlist s)"
proof -
  obtain s0 v s where e: "db_ok 10 s0" "txn_begin (txn_api good_os 2) s0 = Some (0, s)"
      "isolated good_os 10 s0 s" "old_block s v" "0 < troom 10 s"
    using example_old_block [of "txn_api good_os 2"] by blast
  define h where "h = \<lparr>h_obj_id = 0, h_txn_id = txn_id s, h_root = v\<rparr>"
  obtain b s1 s2 where "obj_write (txn_api good_os (Suc (Suc 0))) s h = Some (0, b, h\<lparr>h_root := b\<rparr>, s1)"
      "edb_txn_commit (txn_api good_os (Suc 1)) s1 = Some (0, s2)" "h_root h \<in> set (prim s2)"
      "blk s2 EDB_OBJLIST = blk s (objlist s)"
    using modified_object_released [OF e(3) _ e(5), of h 0 1] e(4) by (auto simp: h_def simp del: txn_api.simps)
  then show ?thesis using e edb_begin_ok [OF e(1), of "txn_api good_os 2"]
    by (intro exI [of _ s0] exI [of _ s] exI [of _ h] exI [of _ b] exI [of _ s1] exI [of _ s2])
      (simp add: h_def numeral_2_eq_2 del: txn_api.simps)
qed

text \<open>C5. A write to a data block of an earlier transaction is lost.  The copy that
  \<open>page_write_host_index\<close> returns is not stored in the page table: whatever is written to it,
  a read through the table finds the old block with its old bytes, another write access makes
  another copy of those, and after the commit the table, still in use, names a block that is on
  the freelist.\<close>

theorem page_write_lost:
  assumes "isolated os m s0 s" and "m \<le> 10" and "2 \<le> troom m s"
    and "old_page s root i v" and "old_block s v" and "root \<noteq> objlist s"
  shows "\<exists>b s1. page_write_host_index (txn_api os (Suc (Suc d))) s root i = Some (0, b, s1) \<and> b \<noteq> v \<and>
    (\<forall>t. writes_only s1 t b \<longrightarrow>
       page_read_host_index t root i = Some (0, v) \<and> blk t v = blk s v \<and>
       (\<exists>b' s2. page_write_host_index (txn_api os (Suc (Suc d))) t root i = Some (0, b', s2) \<and> b' \<noteq> b \<and>
          blk s2 b' = blk s v) \<and>
       (\<exists>s3. edb_txn_commit (txn_api os (Suc k)) t = Some (0, s3) \<and> db_ok m s3 \<and> v \<in> set (prim s3) \<and>
          root \<notin> set (prim s3) \<and> page_read_host_index s3 root i = Some (0, v)))"
proof -
  note i = isolatedD(1,2) [OF assms(1)]
  obtain b s1 where w: "page_write_host_index (txn_api os (Suc (Suc d))) s root i = Some (0, b, s1)"
      "edb_modify_block os (Suc d) s v = Some (0, b, s1)" "txn_inv os m s1" "b \<noteq> v" "b \<notin> tpriv s"
      "tpriv s1 = insert b (tpriv s)" "st s1 = (st s)(b := v)" "blk s1 v = blk s v" "blk s1 root = blk s root"
      "troom m s \<le> Suc (troom m s1)" "objlist s1 = objlist s"
    using page_copy [OF i(1) _ assms(4), of d] assms(3) by auto
  have p1: "old_page s1 root i v" using page_copy_page [OF i(1) _ assms(4) w(1)] assms(3) by simp
  have b: "b \<in> tpriv s1" "b \<noteq> root" using w(5,6) assms(4) by (auto simp: old_page_def)
  have v: "4 \<le> unat v" "unat v \<le> 4096"
    using assms(4) i(1) two_power_12 [of m] unfolding txn_inv_def old_page_def by linarith+
  have "v \<noteq> EDB_OBJLIST" using v(1) by auto
  then have iso: "isolated os m s0 s1" using copy_isolated [OF assms(1) _ _ w(2)] assms(3,5) by auto
  have b4: "4 \<le> unat b" using b(1) by (simp add: tpriv_def)
  have bo: "b \<noteq> objlist s"
  proof
    assume "b = objlist s"
    then have "st s1 b = EDB_OBJLIST" using tidy_facts(1) [OF isolatedD(2) [OF iso]] w(11) b4 by auto
    then show False using w(7) \<open>v \<noteq> EDB_OBJLIST\<close> by simp
  qed
  have "page_read_host_index t root i = Some (0, v) \<and> blk t v = blk s v \<and>
       (\<exists>b' s2. page_write_host_index (txn_api os (Suc (Suc d))) t root i = Some (0, b', s2) \<and> b' \<noteq> b \<and>
          blk s2 b' = blk s v) \<and>
       (\<exists>s3. edb_txn_commit (txn_api os (Suc k)) t = Some (0, s3) \<and> db_ok m s3 \<and> v \<in> set (prim s3) \<and>
          root \<notin> set (prim s3) \<and> page_read_host_index s3 root i = Some (0, v))" if t: "writes_only s1 t b" for t
  proof -
    note o = old_page_writes [OF w(3) p1 b w(4) t]
    have it: "isolated os m s0 t" by (rule write_isolated [OF iso b(1) t])
    note j = isolatedD(1,2) [OF it]
    have room: "0 < troom m t" using o(2) w(10) assms(3) by simp
    obtain b' s2 where s2: "page_write_host_index (txn_api os (Suc (Suc d))) t root i = Some (0, b', s2)"
        "b' \<notin> tpriv t" "blk s2 b' = blk t v"
      using page_copy [OF j(1) room o(3), of d] by blast
    have tt: "tpriv t = insert b (tpriv s)" "objlist t = objlist s" "st t b = v"
      using txn_inv_writes(2) [OF w(3) b(1) t] writes_only_fields [OF t] st_writes [OF t] w(6,7,11) by simp_all
    obtain s3 where s3: "txn_commit (txn_api os (Suc k)) t = Some (0, s3)" "db_ok m s3"
        "set (prim s3) = set (fl t) \<union> released t" "\<forall>c. 4 \<le> unat c \<longrightarrow> blk s3 c = blk t c" "nblocks s3 = nblocks t"
      using commit_ok [OF j(1) assms(2) j(2), of k] by blast
    have r: "root \<in> tpriv t" using o(3) by (simp add: old_page_def)
    have "b \<noteq> EDB_FREELIST_SECONDARY" using b4 by auto
    then have "v \<in> released t" using released_copy [OF tt(3) v] bo tt(2) by simp
    moreover have "root \<notin> set (prim s3)" using private_kept [OF j(1) assms(2) r] tt(2) assms(6) s3(3) by simp
    moreover have "page_read_host_index s3 root i = Some (0, v)"
    proof (rule page_read_eq [OF _ _ o(3)])
      have "file_ok s3" "unat (nblocks s3) \<le> 2 ^ m" using s3(2) by (simp_all add: db_ok_def)
      moreover have "(2 :: nat) ^ m \<le> 4096" using two_power_12 [of m] assms(2) by simp
      ultimately have "unat (nblocks s3) \<le> 4096" "file_ok s3" by simp_all
      then show "block_ok s3 root" using r s3(5) by (intro file_block_ok) (simp_all add: tpriv_def)
      show "blk s3 root = blk t root" using s3(4) r by (simp add: tpriv_def)
    qed
    moreover have "page_read_host_index t root i = Some (0, v)" by (rule old_page_access(1) [OF j(1) o(3)])
    moreover have "b' \<noteq> b" using s2(2) tt(1) by auto
    ultimately show ?thesis using s2 s3 o(4) w(8) edb_end_ok(1) [OF j(1), of "txn_api os (Suc k)"] by auto
  qed
  then show ?thesis using w(1,4) by blast
qed

theorem page_write_lost_witness:
  "\<exists>s0 s root v b s1 s3. isolated good_os 10 s0 s \<and> old_page s root 0 v \<and>
     page_write_host_index (txn_api good_os 2) s root 0 = Some (0, b, s1) \<and> b \<noteq> v \<and>
     edb_txn_commit (txn_api good_os 2) s1 = Some (0, s3) \<and> v \<in> set (prim s3) \<and>
     page_read_host_index s3 root 0 = Some (0, v)"
proof -
  obtain s0 s r v where e: "isolated good_os 10 s0 s" "old_page s r 0 v" "old_block s v" "r \<noteq> objlist s" "2 \<le> troom 10 s"
    using example_old_page by blast
  obtain b s1 where w: "page_write_host_index (txn_api good_os (Suc (Suc 0))) s r 0 = Some (0, b, s1)" "b \<noteq> v"
    "\<forall>t. writes_only s1 t b \<longrightarrow> (\<exists>s3. edb_txn_commit (txn_api good_os (Suc (Suc 0))) t = Some (0, s3) \<and>
       v \<in> set (prim s3) \<and> page_read_host_index s3 r 0 = Some (0, v))"
    using page_write_lost [OF e(1) order_refl e(5,2,3,4), of 0 "Suc 0"] by blast
  from w(3) [rule_format, OF writes_only_refl] obtain s3 where
    "edb_txn_commit (txn_api good_os (Suc (Suc 0))) s1 = Some (0, s3)" "v \<in> set (prim s3)"
    "page_read_host_index s3 r 0 = Some (0, v)" by blast
  then show ?thesis using e(1,2) w(1,2) unfolding numeral_2_eq_2
    by (intro exI [of _ s0] exI [of _ s] exI [of _ r] exI [of _ v] exI [of _ b] exI [of _ s1] exI [of _ s3] conjI)
qed

text \<open>C6. Allocation.  With room in the file, \<open>edb_allocate_block\<close> returns a user block that the
  transaction could not write before, taken from the freelist or from the end of the file,
  which it grows when the freelist is empty; no block of the file changes but the freelist.\<close>

theorem allocation_is_fresh:
  assumes "txn_inv os m s" and "0 < troom m s"
  shows "\<exists>b s'. edb_allocate_block os (Suc d) s = Some (0, b, s') \<and> txn_inv os m s' \<and>
    4 \<le> unat b \<and> unat b < unat (nblocks s') \<and> b \<notin> tpriv s \<and> tpriv s' = insert b (tpriv s) \<and>
    (b \<in> set (fl s) \<or> unat (nblocks s) \<le> unat b) \<and> troom m s \<le> Suc (troom m s') \<and>
    (\<forall>c. unat c < unat (nblocks s) \<longrightarrow> c \<noteq> EDB_FREELIST_SECONDARY \<longrightarrow> blk s' c = blk s c)"
proof -
  obtain b s' where r: "txn_allocate_block os (txn_api os (Suc d)) s = Some (0, b, s')" "txn_inv os m s'"
      "b \<notin> tpriv s" "tpriv s' = insert b (tpriv s)" "b \<in> set (fl s) \<or> unat (nblocks s) \<le> unat b"
      "troom m s \<le> Suc (troom m s')"
      "\<forall>c. unat c < unat (nblocks s) \<longrightarrow> c \<noteq> EDB_FREELIST_SECONDARY \<longrightarrow> blk s' c = blk s c"
    using txn_allocate_ok [OF assms, of d] by blast
  moreover have "4 \<le> unat b \<and> unat b < unat (nblocks s')" using r(4) unfolding tpriv_def by blast
  ultimately show ?thesis unfolding edb_allocate_block_def by blast
qed

theorem allocation_is_fresh_witness:
  "\<exists>s0 s b s'. edb_open good_os ''db'' False True = Some (0, Some s0) \<and>
     edb_txn_begin (txn_api good_os 2) s0 = Some (0, s) \<and>
     edb_allocate_block good_os 1 s = Some (0, b, s') \<and> tpriv s' = {b} \<and> 4 \<le> unat b"
proof -
  obtain s0 s where s: "edb_open good_os ''db'' False True = Some (0, Some s0)" "db_ok 10 s0"
      "txn_begin (txn_api good_os 2) s0 = Some (0, s)" "txn_inv good_os 10 s" "troom 10 s = 1020" "tpriv s = {}"
    using example_begin [of "txn_api good_os 2"] by blast
  obtain b s' where "edb_allocate_block good_os (Suc 0) s = Some (0, b, s')" "tpriv s' = insert b (tpriv s)" "4 \<le> unat b"
    using allocation_is_fresh [OF s(4), of 0] s(5) by auto
  then show ?thesis using s edb_begin_ok [OF s(2), of "txn_api good_os 2"]
    by (intro exI [of _ s0] exI [of _ s] exI [of _ b] exI [of _ s']) (simp del: txn_api.simps)
qed

text \<open>C7. Copy on write.  The first \<open>edb_modify_block\<close> of a block of an earlier transaction returns
  a fresh block with the same bytes and leaves the original as it is; modifying the copy
  again returns the copy itself and changes nothing.\<close>

theorem copy_on_write:
  assumes "txn_inv os m s" and "0 < troom m s" and "old_block s v"
  shows "\<exists>b s'. edb_modify_block os (Suc d) s v = Some (0, b, s') \<and> txn_inv os m s' \<and> b \<noteq> v \<and>
    b \<notin> tpriv s \<and> tpriv s' = insert b (tpriv s) \<and> blk s' b = blk s v \<and>
    edb_modify_block os (Suc d) s' b = Some (0, b, s') \<and>
    (\<forall>c. unat c < unat (nblocks s) \<longrightarrow> c \<notin> {EDB_FREELIST_SECONDARY, b} \<longrightarrow> blk s' c = blk s c)"
proof -
  have v: "3 \<le> unat v" "unat v < unat (nblocks s)" "st s v = 0" "v \<notin> set (fl s)"
    using assms(3) by (simp_all add: old_block_def)
  obtain b s' where r: "txn_modify_block os (txn_api os (Suc d)) s v = Some (0, b, s')" "txn_inv os m s'"
      "b \<notin> tpriv s" "tpriv s' = insert b (tpriv s)" "b \<noteq> v" "blk s' b = blk s v"
      "\<forall>c. unat c < unat (nblocks s) \<longrightarrow> c \<notin> {EDB_FREELIST_SECONDARY, b} \<longrightarrow> blk s' c = blk s c"
    using txn_modify_cow [OF assms(1,2) v, of d] by blast
  have "txn_modify_block os (txn_api os (Suc d)) s' b = Some (0, b, s')"
    using r(4) by (intro tpriv_modify [OF r(2)]) simp
  then show ?thesis using r unfolding edb_modify_block_def by blast
qed

theorem copy_on_write_witness:
  "\<exists>s0 s v b s'. db_ok 10 s0 \<and> edb_txn_begin (txn_api good_os 2) s0 = Some (0, s) \<and> old_block s v \<and>
     edb_modify_block good_os 1 s v = Some (0, b, s') \<and> b \<noteq> v \<and> blk s' b = blk s v"
proof -
  obtain s0 v s where e: "db_ok 10 s0" "txn_begin (txn_api good_os 2) s0 = Some (0, s)"
      "isolated good_os 10 s0 s" "old_block s v" "0 < troom 10 s"
    using example_old_block [of "txn_api good_os 2"] by blast
  obtain b s' where "edb_modify_block good_os (Suc 0) s v = Some (0, b, s')" "b \<noteq> v" "blk s' b = blk s v"
    using copy_on_write [OF isolatedD(1) [OF e(3)] e(5,4), of 0] by blast
  then show ?thesis using e edb_begin_ok [OF e(1), of "txn_api good_os 2"]
    by (intro exI [of _ s0] exI [of _ s] exI [of _ v] exI [of _ b] exI [of _ s']) (simp del: txn_api.simps)
qed

text \<open>C8. Double free.  Freeing a block of the transaction puts it back on the freelist at once.
  The check against freeing twice looks for the mark \<open>FREED\<close>, which that free does not set:
  a second free succeeds and marks a block that is on the freelist already; only the third
  is refused with error 2003.\<close>

theorem fresh_block_freed_twice:
  assumes "txn_inv os m s" and "m \<le> 10" and "b \<in> tpriv s"
  shows "\<exists>s1 s2. edb_free_block os (Suc d) s b = Some (0, s1) \<and> txn_inv os m s1 \<and>
    tpriv s1 = tpriv s - {b} \<and> fl s1 = fl s @ [b] \<and>
    (\<forall>c. c \<noteq> EDB_FREELIST_SECONDARY \<longrightarrow> blk s1 c = blk s c) \<and>
    edb_free_block os (Suc d) s1 b = Some (0, s2) \<and> st s2 b = FREED \<and> b \<in> set (fl s2) \<and>
    edb_free_block os (Suc d) s2 b = Some (EDB_ERR_TXN_INVALID_BLOCK, s2)"
proof -
  obtain s1 where s1: "txn_free_block (txn_api os (Suc d)) s b = Some (0, s1)" "txn_inv os m s1"
      "tpriv s1 = tpriv s - {b}" "fl s1 = fl s @ [b]"
      "st s1 = (if cowed (st s b) then (st s)(b := 0, st s b := FREED) else (st s)(b := 0))"
      "\<forall>c. c \<noteq> EDB_FREELIST_SECONDARY \<longrightarrow> blk s1 c = blk s c"
      "nblocks s1 = nblocks s"
    using txn_free_ok [OF assms, of d] by blast
  have b: "4 \<le> unat b" "unat b < unat (nblocks s)" "st s b \<noteq> 0" "st s b \<noteq> FREED"
    using assms(3) by (simp_all add: tpriv_def)
  have t: "table_ok (2 ^ m) s1" "(2 :: nat) ^ m \<le> 4096" "unat b < 2 ^ m" "b \<noteq> 0" "txn s1 \<noteq> []"
    using s1(2,7) b(1,2) two_power_12 [of m] assms(2) by (auto simp: txn_inv_def table_ok_def)
  have "st s b \<noteq> b"
  proof
    assume e: "st s b = b"
    have "b \<noteq> EDB_FREELIST_SECONDARY" using b(1) by auto
    moreover have "cowed b" using b e t(3,2) small_not_special(3) [of b] t(4) by simp
    ultimately have "st s b = 0 \<or> st s b = FREED" using assms(1) e unfolding txn_inv_def states_ok_def by metis
    then show False using b(3,4) by blast
  qed
  then have z: "st s1 b = 0" using s1(5) by auto
  obtain x where x: "set_state s1 b FREED = Some (s1\<lparr>txn := x\<rparr>)" "table_ok (2 ^ m) (s1\<lparr>txn := x\<rparr>)"
      "st (s1\<lparr>txn := x\<rparr>) = (st s1)(b := FREED)"
    using set_state_ok [OF t(1,2,4,3), of FREED] by blast
  define s2 where "s2 = s1\<lparr>txn := x\<rparr>"
  have f2: "txn_free_block (txn_api os (Suc d)) s1 b = Some (0, s2)"
    using get_state_ok [OF t(1,4)] z x(1) t(5) by (simp add: txn_free_block_def s2_def)
  have F: "st s2 b = FREED" using x(3) by (simp add: s2_def)
  have "txn s2 \<noteq> []" using x(2) by (auto simp: s2_def table_ok_def)
  then have f3: "txn_free_block (txn_api os (Suc d)) s2 b = Some (EDB_ERR_TXN_INVALID_BLOCK, s2)"
    using get_state_ok [OF x(2) t(4)] F by (simp add: txn_free_block_def s2_def)
  have "fl_ok s1" using s1(2) by (simp add: txn_inv_def)
  then have "fl s2 = fl s1" by (simp add: s2_def)
  then have "b \<in> set (fl s2)" using s1(4) by simp
  then show ?thesis using s1 f2 f3 F unfolding edb_free_block_def by blast
qed

theorem fresh_block_freed_twice_witness:
  "\<exists>s0 s b s1 s2. db_ok 10 s0 \<and> edb_txn_begin (txn_api good_os 2) s0 = Some (0, s) \<and>
     client_steps good_os 10 1 s s1 \<and> edb_free_block good_os 1 s1 b = Some (0, s2) \<and> b \<in> set (fl s2) \<and>
     (\<exists>s3. edb_free_block good_os 1 s2 b = Some (0, s3) \<and> st s3 b = FREED)"
proof -
  obtain s0 s b s1 where e: "db_ok 10 s0" "edb_txn_begin (txn_api good_os 2) s0 = Some (0, s)"
      "client_steps good_os 10 1 s s1" "b \<in> tpriv s1"
    using example_steps [of "txn_api good_os 2" 1] by blast
  have "isolated good_os 10 s0 s1"
    using transaction_steps [OF good_os(1) _ e(1), of "txn_api good_os 2" 1] e(2,3) by auto
  note i = isolatedD(1) [OF this]
  obtain s2 s3 where "edb_free_block good_os (Suc 0) s1 b = Some (0, s2)" "fl s2 = fl s1 @ [b]"
      "edb_free_block good_os (Suc 0) s2 b = Some (0, s3)" "st s3 b = FREED"
    using fresh_block_freed_twice [OF i _ e(4), of 0] by auto
  then show ?thesis using e
    by (intro exI [of _ s0] exI [of _ s] exI [of _ b] exI [of _ s1] exI [of _ s2]) auto
qed

text \<open>C9. Opening with \<open>overwrite\<close>.  When the operating system opens an empty file, \<open>edb_open\<close>
  creates a database of \<open>EDB_USER_DATA\<close> blocks with an empty freelist and an empty object
  list, on which a transaction can begin and which \<open>edb_close\<close> closes and frees.\<close>

theorem open_creates_database:
  assumes "os_ok os" and "os_open os fname False True = fd" and "0 \<le> fd" and "0 \<le> os_fstat os fd"
    and "os_size os fd = 0" and "2 \<le> m"
  shows "\<exists>s. edb_open os fname False True = Some (0, Some s) \<and> db_ok m s \<and> nblocks s = EDB_USER_DATA \<and>
    prim s = [] \<and> arr_ok {EDB_OBJLIST} s EDB_OBJLIST \<and> arr s EDB_OBJLIST = [] \<and>
    (\<exists>s'. edb_txn_begin (txn_api os k) s = Some (0, s') \<and> txn_inv os (min m 12) s') \<and>
    edb_close s = (0, None)"
proof -
  obtain s where s: "edb_open os fname False True = Some (0, Some s)" "db_ok m s" "nblocks s = 4"
      "prim s = []" "arr_ok {EDB_OBJLIST} s EDB_OBJLIST" "arr s EDB_OBJLIST = []"
    using open_new_ok [OF assms(1-6)] by blast
  have s4: "db_ok (min m 12) s" using s(2,3) assms(6) unfolding db_ok_def
    by (auto simp: min_def)
  obtain s' where "txn_begin (txn_api os k) s = Some (0, s')" "txn_inv os (min m 12) s'"
    using begin_ok [OF assms(1) _ s4, of "txn_api os k"] by auto
  moreover have "txn s = []" using s(2) by (simp add: db_ok_def)
  ultimately show ?thesis
    using s edb_begin_ok [OF s(2), of "txn_api os k"]
    by (auto simp: EDB_USER_DATA_def edb_close_def io_close_def Let_def)
qed

theorem open_creates_database_witness:
  "\<exists>s. edb_open good_os ''db'' False True = Some (0, Some s) \<and> db_ok 10 s \<and> nblocks s = EDB_USER_DATA \<and>
     edb_close s = (0, None)"
proof -
  have "os_open good_os ''db'' False True = 3" "(0 :: int) \<le> 3" "0 \<le> os_fstat good_os 3" "os_size good_os 3 = 0"
    by (simp_all add: good_os_def)
  from open_creates_database [OF good_os(1) this, of 10 0] show ?thesis by auto
qed

text \<open>C10. \<open>array_push\<close> refines appending to a list, up to the maximal size of a page table.  It
  grows the array by a data page, and an index page, when the capacity is used up, moves the
  items out of the root block when they no longer fit there, and writes no other block that
  the transaction may write.\<close>

theorem array_push_appends:
  assumes "txn_inv os m s" and "2 \<le> troom m s" and "arr_ok (tpriv s) s root"
    and "length (arr s root) < PT_MAX * ipb s root" and "isz s root \<le> length d"
  shows "\<exists>s'. array_push (txn_api os (Suc (Suc k))) s root d = Some (0, s') \<and> txn_inv os m s' \<and>
    arr_ok (tpriv s') s' root \<and> isz s' root = isz s root \<and>
    arr s' root = arr s root @ [take (isz s root) d] \<and>
    (\<forall>c \<in> tpriv s - afoot s root. blk s' c = blk s c)"
  using txn_array_push [OF assms(1,3) _ assms(2,5), of k] assms(4) by simp

theorem array_push_appends_witness:
  "\<exists>s b s'. txn_inv good_os 10 s \<and> array_push (txn_api good_os 2) s b [1, 2, 3, 4] = Some (0, s') \<and>
     arr s' b = [[1, 2, 3, 4]]"
proof -
  obtain s b where e: "txn_inv good_os 10 s" "arr_ok (tpriv s) s b" "arr s b = []" "isz s b = 4" "1000 \<le> troom 10 s"
    using example_array [of api 1] by blast
  have "0 < PT_MAX * ipb s b" using e(4) by (simp add: ipb_def PT_MAX_def)
  then obtain s' where s': "array_push (txn_api good_os (Suc (Suc 0))) s b [1, 2, 3, 4] = Some (0, s')"
      "arr s' b = arr s b @ [take (isz s b) [1, 2, 3, 4]]"
    using array_push_appends [OF e(1) _ e(2), of "[1, 2, 3, 4]" 0] e(3-5) by auto
  then show ?thesis using e(1,3,4)
    by (intro exI [of _ s] exI [of _ b] exI [of _ s']) (simp add: numeral_2_eq_2 del: txn_api.simps)
qed

text \<open>C11. \<open>array_pop\<close> returns the item that \<open>array_push\<close> stored and restores the list of items.\<close>

theorem array_pop_inverts_push:
  assumes "txn_inv os m s" and "2 \<le> troom m s" and "arr_ok (tpriv s) s root"
    and "length (arr s root) < PT_MAX * ipb s root" and "length d = isz s root"
  shows "\<exists>s1 s2. array_push (txn_api os (Suc (Suc k))) s root d = Some (0, s1) \<and>
    array_pop (txn_api os (Suc (Suc k))) s1 root = Some (0, d, s2) \<and> txn_inv os m s2 \<and>
    arr_ok (tpriv s2) s2 root \<and> arr s2 root = arr s root"
proof -
  obtain s1 where s1: "array_push (txn_api os (Suc (Suc k))) s root d = Some (0, s1)" "txn_inv os m s1"
      "arr_ok (tpriv s1) s1 root" "arr s1 root = arr s root @ [take (isz s root) d]"
    using txn_array_push [OF assms(1,3) _ assms(2), of d k] assms(4,5) by auto
  have ne: "arr s1 root \<noteq> []" and l: "last (arr s1 root) = d" and bl: "butlast (arr s1 root) = arr s root"
    using s1(4) assms(5) by (metis snoc_eq_iff_butlast take_all order_refl)+
  note p = txn_array_pop [OF s1(2,3)]
  have "array_pop (txn_api os (Suc (Suc k))) s1 root = Some (0, d, drop_last s1 root)"
    using p(1) [of k] ne l by (simp del: txn_api.simps)
  moreover have "arr (drop_last s1 root) root = arr s root" using p(4) [OF ne] bl by simp
  ultimately show ?thesis using s1(1) p(2,3) [OF ne] by blast
qed

theorem array_pop_inverts_push_witness:
  "\<exists>s b s1 s2. txn_inv good_os 10 s \<and> array_push (txn_api good_os 2) s b [1, 2, 3, 4] = Some (0, s1) \<and>
     array_pop (txn_api good_os 2) s1 b = Some (0, [1, 2, 3, 4], s2) \<and> arr s2 b = arr s b"
proof -
  obtain s b where e: "txn_inv good_os 10 s" "arr_ok (tpriv s) s b" "arr s b = []" "isz s b = 4" "1000 \<le> troom 10 s"
    using example_array [of api 1] by blast
  have "0 < PT_MAX * ipb s b" using e(4) by (simp add: ipb_def PT_MAX_def)
  then obtain s1 s2 where "array_push (txn_api good_os (Suc (Suc 0))) s b [1, 2, 3, 4] = Some (0, s1)"
      "array_pop (txn_api good_os (Suc (Suc 0))) s1 b = Some (0, [1, 2, 3, 4], s2)" "arr s2 b = arr s b"
    using array_pop_inverts_push [OF e(1) _ e(2), of "[1, 2, 3, 4]" 0] e(3-5) by auto
  then show ?thesis using e(1)
    by (intro exI [of _ s] exI [of _ b] exI [of _ s1] exI [of _ s2]) (simp add: numeral_2_eq_2 del: txn_api.simps)
qed

text \<open>C12. \<open>array_get\<close> and \<open>array_set\<close> read and update the list of items at an index below the
  length and fail with error 3201 at any other index, wherever the page table keeps the item.\<close>

theorem array_access_bounds:
  assumes "txn_inv os m s" and "arr_ok (tpriv s) s root" and "isz s root \<le> length d"
  shows "array_get (txn_api os (Suc (Suc k))) s root i =
      (if unat i < length (arr s root) then Some (0, arr s root ! unat i, s)
       else Some (ERR_ARRAY_INDEX_OUT_OF_BOUNDS, [], s)) \<and>
    (\<exists>err s'. array_set (txn_api os (Suc (Suc k))) s root i d = Some (err, s') \<and>
      (if unat i < length (arr s root)
       then err = 0 \<and> txn_inv os m s' \<and> arr_ok (tpriv s') s' root \<and>
         arr s' root = (arr s root)[unat i := take (isz s root) d] \<and>
         (\<forall>c \<in> tpriv s - afoot s root. blk s' c = blk s c)
       else err = ERR_ARRAY_INDEX_OUT_OF_BOUNDS \<and> s' = s))"
  by (rule conjI [OF txn_array_get [OF assms(1,2)] txn_array_set [OF assms]])

theorem array_access_bounds_witness:
  "\<exists>s b s'. txn_inv good_os 10 s \<and> array_get (txn_api good_os 2) s b 0 = Some (0, [1, 2, 3, 4], s) \<and>
     array_set (txn_api good_os 2) s b 0 [5, 6, 7, 8] = Some (0, s') \<and> arr s' b = [[5, 6, 7, 8]]"
proof -
  obtain s b where e: "txn_inv good_os 10 s" "arr_ok (tpriv s) s b" "isz s b = 4" "arr s b = [[1, 2, 3, 4]]"
    using example_item by blast
  obtain s' where "array_get (txn_api good_os (Suc (Suc 0))) s b 0 = Some (0, [1, 2, 3, 4], s)"
      "array_set (txn_api good_os (Suc (Suc 0))) s b 0 [5, 6, 7, 8] = Some (0, s')" "arr s' b = [[5, 6, 7, 8]]"
    using array_access_bounds [OF e(1,2), of "[5, 6, 7, 8]" 0 0] e(3,4) by (auto simp del: txn_api.simps length_arr)
  then show ?thesis using e(1)
    by (intro exI [of _ s] exI [of _ b] exI [of _ s']) (simp add: numeral_2_eq_2 del: txn_api.simps)
qed

text \<open>C13. \<open>array_resize\<close> succeeds for every capacity up to the maximum for which the file has room:
  the new capacity is the requested one rounded up to whole pages (or what fits in the root
  block), the items beyond it are dropped and all others kept, whether the array grows,
  shrinks, or moves in and out of its root block.\<close>

theorem array_resize_keeps_prefix:
  assumes "m \<le> 10" and "txn_inv os m s" and "arr_ok (tpriv s) s root"
    and "unat c \<le> PT_MAX * ipb s root" and "2 * blocks_for s root (unat c) \<le> troom m s"
  shows "\<exists>s' cap. array_resize (txn_api os (Suc (Suc k))) s root c = Some (0, s') \<and> txn_inv os m s' \<and>
    arr_ok (tpriv s') s' root \<and> array_capacity s' root = Some cap \<and> unat c \<le> unat cap \<and>
    unat cap = (if unat c \<le> small s root then small s root else blocks_for s root (unat c) * ipb s root) \<and>
    arr s' root = take (unat cap) (arr s root) \<and> (\<forall>b \<in> tpriv s - afoot s root. blk s' b = blk s b)"
proof -
  have sz: "0 < isz s root" using assms(3) by (simp add: arr_ok_defs)
  have "n_index n \<le> n" for n by (simp add: n_index_def)
  then have "ta.grow_cost (pt_n s root) (blocks_for s root (unat c)) \<le> 2 * blocks_for s root (unat c)"
    unfolding ta.grow_cost_def by (smt (verit, ccfv_SIG) add_mono diff_le_self le_trans mult_2)
  then have "acap s root < unat c \<longrightarrow> ta.grow_cost (pt_n s root) (blocks_for s root (unat c)) \<le> troom m s"
    using assms(5) by linarith
  then obtain s' where s': "array_resize (txn_api os (Suc (Suc k))) s root c = Some (0, s')"
      "td.arr_step m os root s s'" "acap s' root = td.new_cap s root (unat c)"
      "arr s' root = take (td.new_cap s root (unat c)) (arr s root)"
    using td.array_resize_ok [of m os s root c k] assms(1-4) by auto
  have r: "txn_inv os m s'" "arr_ok (tpriv s') s' root" "\<forall>b \<in> tpriv s - afoot s root. blk s' b = blk s b"
    using s'(2) unfolding td.arr_step_def by blast+
  have "unat c \<le> td.new_cap s root (unat c)"
    using blocks_for_bounds(1) [OF sz] by (simp add: td.new_cap_def)
  moreover have "block_ok s' root" using r(2) tpriv_block_ok [OF r(1)] by (auto simp: arr_ok_defs)
  then obtain cap where "array_capacity s' root = Some cap" "unat cap = acap s' root"
    using array_capacity_ok [OF r(2)] by blast
  ultimately show ?thesis using s' r by (auto simp: td.new_cap_def simp del: txn_api.simps)
qed

theorem array_resize_keeps_prefix_witness:
  "\<exists>s b s' cap. txn_inv good_os 10 s \<and> array_resize (txn_api good_os 2) s b 2000 = Some (0, s') \<and>
     array_capacity s' b = Some cap \<and> unat cap = 2048 \<and> arr s' b = [[1, 2, 3, 4]]"
proof -
  obtain s b where e: "txn_inv good_os 10 s" "arr_ok (tpriv s) s b" "isz s b = 4" "arr s b = [[1, 2, 3, 4]]"
      "900 \<le> troom 10 s"
    using example_item by blast
  have n: "blocks_for s b 2000 = 2" "small s b = 1021" "ipb s b = 1024"
    using e(3) by (simp_all add: blocks_for_def ipb_def small_def)
  obtain s' cap where "array_resize (txn_api good_os (Suc (Suc 0))) s b 2000 = Some (0, s')"
      "array_capacity s' b = Some cap" "unat cap = 2048" "arr s' b = [[1, 2, 3, 4]]"
    using array_resize_keeps_prefix [OF _ e(1,2), of 2000 0] n e(4,5) by (auto simp: PT_MAX_def simp del: txn_api.simps)
  then show ?thesis using e(1)
    by (intro exI [of _ s] exI [of _ b] exI [of _ s'] exI [of _ cap]) (simp add: numeral_2_eq_2 del: txn_api.simps)
qed

text \<open>C14. \<open>edb_array_set\<close> does not set: it leaves the database as it is and overwrites the
  caller's buffer with the item.\<close>

theorem array_set_through_handle_only_reads:
  assumes "txn_inv os m s" and "arr_ok (tpriv s) s (h_root h)" and "h_txn_id h = txn_id s"
    and "length d = isz s (h_root h)"
  shows "edb_array_set (txn_api os (Suc (Suc k))) s h i d =
    (if unat i < length (arr s (h_root h)) then Some (0, arr s (h_root h) ! unat i, h, s)
     else Some (ERR_ARRAY_INDEX_OUT_OF_BOUNDS, d, h, s))"
proof -
  have "h_root h \<in> tpriv s" using assms(2) by (simp add: arr_ok_defs)
  then have m: "txn_modify_block os (txn_api os (Suc k)) s (h_root h) = Some (0, h_root h, s)"
    by (rule tpriv_modify [OF assms(1)])
  have "obj_write (txn_api os (Suc (Suc k))) s h = Some (0, h_root h, h, s)"
    using m assms(3) by (simp add: obj_write_def obj_upgrade_def)
  then show ?thesis using txn_array_get [OF assms(1,2), of k i] assms(4)
    by (simp add: edb_array_set_def nth_arr require_def del: txn_api.simps)
qed

theorem array_set_through_handle_only_reads_witness:
  "\<exists>s h. txn_inv good_os 10 s \<and> arr s (h_root h) = [[1, 2, 3, 4]] \<and>
     edb_array_set (txn_api good_os 2) s h 0 [5, 6, 7, 8] = Some (0, [1, 2, 3, 4], h, s)"
proof -
  obtain s b where e: "txn_inv good_os 10 s" "arr_ok (tpriv s) s b" "isz s b = 4" "arr s b = [[1, 2, 3, 4]]"
    using example_item by blast
  define h where "h = \<lparr>h_obj_id = 0, h_txn_id = txn_id s, h_root = b\<rparr>"
  have "edb_array_set (txn_api good_os (Suc (Suc 0))) s h 0 [5, 6, 7, 8] = Some (0, [1, 2, 3, 4], h, s)"
    using array_set_through_handle_only_reads [OF e(1), of h "[5, 6, 7, 8]" 0 0] e(2-4)
    by (simp add: h_def del: txn_api.simps length_arr)
  then show ?thesis using e
    by (intro exI [of _ s] exI [of _ h]) (simp add: h_def numeral_2_eq_2 del: txn_api.simps)
qed

text \<open>C15. \<open>btree_get\<close> returns on every well-formed tree, of any height, the value that the entries
  of its leaves give the key, and error 3351 when they give none.\<close>

theorem btree_get_looks_up:
  assumes "tree_ok s h root"
  shows "btree_get s root key = Some (case tree_lookup s h root key of
     Some v \<Rightarrow> (0, v) | None \<Rightarrow> (EDB_ERROR_BTREE_INVALID_KEY, 0))"
  by (rule tree_get_ok [OF assms])

theorem btree_get_looks_up_witness:
  "\<exists>s root. tree_ok s 1 root \<and> btree_get s root 5 = Some (0, 7) \<and>
     btree_get s root 6 = Some (EDB_ERROR_BTREE_INVALID_KEY, 0)"
proof -
  obtain s r where e: "tree_ok s 1 r" "tree_entries s 1 r = [(5, 7)]" using example_tree by blast
  have "btree_get s r 5 = Some (0, 7)" "btree_get s r 6 = Some (EDB_ERROR_BTREE_INVALID_KEY, 0)"
    using btree_get_looks_up [OF e(1)] unfolding e(2) by simp_all
  then show ?thesis using e(1) by blast
qed

text \<open>C16. \<open>btree_set\<close> on a leaf refines map update: it keeps the keys sorted and writes only the
  leaf's block, and on a full leaf a new key fails with error 3352 and changes nothing.\<close>

theorem btree_set_updates_leaf:
  assumes "leaf_ok s root"
  shows "\<exists>err s'. btree_set api s root key v = Some (err, s') \<and> leaf_ok s' root \<and>
    writes_only s s' root \<and>
    (if lookup s root key = None \<and> nsz s root = 510 then err = EDB_ERROR_BTREE_FULL \<and> s' = s
     else err = 0 \<and> lookup s' root = (lookup s root)(key \<mapsto> v))"
proof -
  let ?full = "lookup s root key = None \<and> nsz s root = 510 \<and> btree_set api s root key v = Some (EDB_ERROR_BTREE_FULL, s)"
  show ?thesis
  proof (cases ?full)
    case True then show ?thesis using assms by simp
  next
    case False
    with leaf_set_ok [OF assms, of key api v] obtain s' where s': "btree_set api s root key v = Some (0, s')"
        "same_node s s' root" "leaf_ok s' root" "lookup s' root = (lookup s root)(key := Some v)"
        "nsz s' root = (if lookup s root key = None then Suc (nsz s root) else nsz s root)"
      by (elim disjE) (blast, blast)
    have "nsz s' root \<le> 510" using s'(3) by (simp add: leaf_ok_def node_ok_def)
    then have "\<not> (lookup s root key = None \<and> nsz s root = 510)" using s'(5) by auto
    then show ?thesis using s' unfolding same_node_def by auto
  qed
qed

theorem btree_set_updates_leaf_witness:
  "\<exists>s root s'. leaf_ok s root \<and> btree_set (txn_api good_os 2) s root 3 4 = Some (0, s') \<and>
     lookup s' root = [5 \<mapsto> 7, 3 \<mapsto> 4]"
proof -
  obtain s b where e: "leaf_ok s b" "keys s b = [5]" "lookup s b = [5 \<mapsto> 7]" using example_leaf by blast
  have "nsz s b = 1" using e(2) by (metis length_keys(1) length_Cons list.size(3) One_nat_def)
  then obtain s' where "btree_set (txn_api good_os 2) s b 3 4 = Some (0, s')" "lookup s' b = [5 \<mapsto> 7, 3 \<mapsto> 4]"
    using btree_set_updates_leaf [OF e(1), of "txn_api good_os 2" 3 4] e(3) by (auto simp del: txn_api.simps)
  then show ?thesis using e(1) by blast
qed

text \<open>C17. \<open>btree_pop\<close> on a leaf refines map deletion: it returns the value of the key and removes
  its entry; the code is 3353, which asks the caller to merge, when fewer than
  \<open>EDB_BTREE_SPLIT\<close> entries are left.\<close>

theorem btree_pop_removes_from_leaf:
  assumes "leaf_ok s root" and "lookup s root key = Some v"
  shows "\<exists>s'. btree_pop api s root key = Some (if nsz s root \<le> 127 then EDB_ERROR_BTREE_EMPTY else 0, v, s') \<and>
    leaf_ok s' root \<and> writes_only s s' root \<and> lookup s' root = (lookup s root)(key := None)"
proof -
  obtain s' where s': "btree_pop api s root key = Some (if nsz s' root < 127 then EDB_ERROR_BTREE_EMPTY else 0, v, s')"
      "same_node s s' root" "leaf_ok s' root" "lookup s' root = (lookup s root)(key := None)"
      "nsz s' root = nsz s root - 1"
    using leaf_pop_ok [OF assms, of api] by blast
  have "0 < nsz s root" using assms(2) 
    by (cases "nsz s root") (simp_all add: lookup_def entries_of_def keys_def)
  then have "nsz s' root < 127 \<longleftrightarrow> nsz s root \<le> 127" using s'(5) by linarith
  then show ?thesis using s' by (auto simp: same_node_def)
qed

theorem btree_pop_removes_from_leaf_witness:
  "\<exists>s root s'. leaf_ok s root \<and> btree_pop (txn_api good_os 2) s root 5 = Some (EDB_ERROR_BTREE_EMPTY, 7, s') \<and>
     lookup s' root 5 = None"
proof -
  obtain s b where e: "leaf_ok s b" "keys s b = [5]" "lookup s b = [5 \<mapsto> 7]" using example_leaf by blast
  have "nsz s b = 1" using e(2) by (metis length_keys(1) length_Cons list.size(3) One_nat_def)
  then obtain s' where "btree_pop (txn_api good_os 2) s b 5 = Some (EDB_ERROR_BTREE_EMPTY, 7, s')" "lookup s' b 5 = None"
    using btree_pop_removes_from_leaf [OF e(1), of 5 7 "txn_api good_os 2"] e(3) by (auto simp del: txn_api.simps)
  then show ?thesis using e(1) by blast
qed

text \<open>C18. \<open>btree_first\<close> and \<open>btree_last\<close> return the first and the last entry of a well-formed
  tree of any height.\<close>

theorem btree_ends:
  assumes "tree_ok s h root" and "tree_entries s h root \<noteq> []"
  shows "btree_first s root = Some (0, hd (tree_entries s h root)) \<and>
    btree_last s root = Some (0, last (tree_entries s h root))"
  using tree_first_ok [OF assms] tree_last_ok [OF assms] by blast

theorem btree_ends_witness:
  "\<exists>s root. tree_ok s 1 root \<and> btree_first s root = Some (0, 5, 7) \<and> btree_last s root = Some (0, 5, 7)"
proof -
  obtain s r where e: "tree_ok s 1 r" "tree_entries s 1 r = [(5, 7)]" using example_tree by blast
  have "btree_first s r = Some (0, 5, 7)" "btree_last s r = Some (0, 5, 7)"
    using btree_ends [OF e(1)] unfolding e(2) by simp_all
  then show ?thesis using e(1) by blast
qed

text \<open>C19. On a leaf that \<open>btree_init\<close> has just made, \<open>btree_pop\<close> of key 0 is undefined: key 0 of
  the zeroed block passes the comparison, and the loop that closes the gap runs to index
  \<open>self_size - 1\<close>, which has wrapped around, past the end of the node.\<close>

theorem pop_from_empty_leaf_undefined:
  assumes "block_ok s b"
  shows "\<exists>s'. btree_init s b = Some (0, s') \<and> btree_pop api s' b 0 = None"
proof -
  obtain s' where s': "btree_init s b = Some (0, s')" "writes_only s s' b" "leaf_ok s' b" "nsz s' b = 0"
      "nk s' b 0 = 0" using btree_init_ok [OF assms] by blast
  have l: "node_ok s' b" "nm s' b = EDB_MAGIC_BTREE_LEAF" "sorted_wrt (<) (keys s' b)" "block_ok s' b"
    using s'(3) by (simp_all add: leaf_ok_def node_ok_def)
  obtain j where j: "list_find s' (BLOCK s' b) 0 = Some (int j)" "j \<le> nsz s' b"
    using list_find_ok [OF l(1,3)] by blast
  have z: "w32 s' b 4 = 0" using s'(4) by (simp add: nsz_def unat_eq_zero)
  have "bt_key s' (BLOCK s' b) 0 = Some 0" "bt_data s' (BLOCK s' b) 0 = Some (nv s' b 0)"
    using read_node(3,4) [OF l(4) refl, of 0] s'(5) by simp_all
  moreover have "list_remove s' (BLOCK s' b) 0 = None"
    using remove_runs_away [OF l(4) refl z, of 0] by (simp add: list_remove_def)
  ultimately have "btree_pop api s' b 0 = None"
    using j s'(4) l(2,4) by (subst btree_pop.simps) (simp add: magic_ok_def btree_pop_leaf_def Let_def)
  then show ?thesis using s'(1) by blast
qed

theorem pop_from_empty_leaf_undefined_witness:
  "\<exists>s b s'. txn_inv good_os 10 s \<and> b \<in> tpriv s \<and> btree_init s b = Some (0, s') \<and>
     btree_pop (txn_api good_os 2) s' b 0 = None"
proof -
  obtain s b where e: "txn_inv good_os 10 s" "b \<in> tpriv s" using example_item by blast
  show ?thesis
    using pop_from_empty_leaf_undefined [OF tpriv_block_ok [OF e], of "txn_api good_os 2"] e by blast
qed

text \<open>C20. A transaction's block table (\<open>mem_hash_set\<close>) behaves as map update: on a well-formed
  table with room in its largest size, setting a non-zero key returns, keeps the table well
  formed, and changes the value of that key only.\<close>

theorem mem_hash_set_updates:
  assumes "mh_inv t" and "k \<noteq> 0" and "card (mh_keys t) \<le> 3210341"
  shows "\<exists>t'. mem_hash_set t k v = Some t' \<and> mh_inv t' \<and>
    (\<forall>x. x \<noteq> 0 \<longrightarrow> mem_hash_get t' x = Some (if x = k then v else mh_map t x))"
proof -
  obtain t' where t': "mem_hash_set t k v = Some t'" "mh_inv t'" "mh_map t' = (mh_map t)(k := v)"
    using mem_hash_set_depth [OF assms] unfolding mem_hash_set_def by blast
  then have "\<forall>x. x \<noteq> 0 \<longrightarrow> mem_hash_get t' x = Some (if x = k then v else mh_map t x)"
    using mem_hash_get_inv [OF t'(2)] by simp
  with t' show ?thesis by blast
qed

theorem mem_hash_set_updates_witness:
  "\<exists>t'. mem_hash_set mem_hash_new 5 7 = Some t' \<and> mh_inv t' \<and>
    (\<forall>x. x \<noteq> 0 \<longrightarrow> mem_hash_get t' x = Some (if x = 5 then 7 else mh_map mem_hash_new x))"
  using mem_hash_set_updates [of mem_hash_new 5 7] by simp

text \<open>C21. \<open>io_resize\<close> computes the size in bytes in 32 bits: it succeeds, but the file has
  \<open>nblocks\<close> blocks only when \<open>nblocks\<close> is below \<open>2 ^ 20\<close>; beyond, the size wraps around while
  the recorded number of blocks does not.\<close>

theorem resize_size_wraps:
  assumes "os_ok os" and "\<And>h n. os_ftruncate os h n" and "nb < 0xffffff00" and "unat nb mod 2 ^ 20 \<noteq> 0"
  shows "\<exists>s'. io_resize os s nb = (0, s') \<and> nblocks s' = nb \<and>
    unat (filesize s') = 4096 * (unat nb mod 2 ^ 20) \<and>
    (unat (filesize s') = 4096 * unat (nblocks s') \<longleftrightarrow> unat nb < 2 ^ 20)"
proof -
  have n: "unat (ucast (push_bit 12 nb) :: u64) \<noteq> 0" using assms(4) unfolding push_bit_wraps by simp
  have lt: "\<not> 0xffffff00 \<le> nb" using assms(3) by simp
  have os: "os_falloc os h x" "os_mmap os h x" for h x using assms(1) by (simp_all add: os_ok_def)
  define s' where "s' = snd (io_resize os s nb)"
  have r: "io_resize os s nb = (0, s') \<and> nblocks s' = nb \<and> filesize s' = ucast (push_bit 12 nb)"
    using n lt os assms(2) unfolding s'_def by (simp add: io_resize_def Let_def mmap_file_def)
  have "4096 * (unat nb mod 2 ^ 20) = 4096 * unat nb \<longleftrightarrow> unat nb < 2 ^ 20"
    by (auto simp: mod_less_divisor dest: sym)
  then show ?thesis using r push_bit_wraps [of nb] by auto
qed

theorem resize_size_wraps_witness:
  "\<exists>s'. io_resize good_os zero_edb 0x100001 = (0, s') \<and> nblocks s' = 0x100001 \<and> unat (filesize s') = 4096"
  using resize_size_wraps [OF good_os(1,2), of "0x100001" zero_edb] by auto

text \<open>C22. Selecting tests.  The parser of test specifications returns on every argument, whatever its
  quotes, brackets and backslashes, and the specification that it returns selects: filtering
  never fails and keeps exactly the tests that match all patterns of one of the filters, less
  the ones that throw when throwing tests are disabled.\<close>

theorem selection_total:
  "\<exists>spec. parseTestSpec reg arg = Some spec \<and>
     (\<forall>tcs mayThrow. filterTests tcs spec mayThrow = Some (filter (selects spec mayThrow) tcs))"
  using parseTestSpec_ok [of reg arg] filterTests_ok by blast

text \<open>C23. The type of a parsed specification.  No filter is empty; every name pattern has one of the
  four wildcard forms and a lower-case text to be compared without regard to case, every tag is
  lower case, and exclusions do not nest.\<close>

theorem parsed_spec_typed:
  "\<exists>spec. parseTestSpec reg arg = Some spec \<and> list_all (\<lambda>f. f \<noteq> [] \<and> list_all pattern_ok f) spec"
  using parseTestSpec_ok [of reg arg] by (auto simp: list_all_iff spec_ok_def)

text \<open>C24. \<open>replaceInPlace\<close> replaces every occurrence from left to right and says whether there was one;
  on an empty \<open>replaceThis\<close> it loops forever, unless the string is empty too.\<close>

theorem replaceInPlace_returns:
  "replaceInPlace s p w =
     (if p \<noteq> [] then Some (contains s p, replace_all s p w)
      else if s = [] then Some (True, w) else None)"
  by (simp add: replaceInPlace_ok replaceInPlace_empty)

text \<open>C25. Wrapping of listings and reports.  With both indents below the width a text is broken into at
  most 1001 lines, the first 1000 of which fit the width; unless the limit of 1000 lines was
  hit, no character other than spaces, line ends and hyphens is lost or added.\<close>

theorem console_text_wraps:
  assumes "wrap_indent attr < wrap_width attr"
    "case wrap_initialIndent attr of None \<Rightarrow> True | Some i \<Rightarrow> i < wrap_width attr"
  shows "\<exists>ls. Wrap str attr = Some ls \<and> length ls \<le> 1001 \<and>
    (\<forall>l \<in> set (take 1000 ls). length l \<le> wrap_width attr) \<and> (length ls \<le> 1000 \<longrightarrow> wrap_ink (concat ls) = wrap_ink str)"
  by (rule Wrap_ok [OF assms])

theorem console_text_wraps_witness:
  "\<exists>ls. Wrap ''wrap these (long) words'' (wrap_setIndent 2 (wrap_setWidth 9 WrapAttributes_new)) = Some ls \<and>
     (\<forall>l \<in> set (take 1000 ls). length l \<le> 9)"
  using console_text_wraps [of "wrap_setIndent 2 (wrap_setWidth 9 WrapAttributes_new)" "''wrap these (long) words''"]
  by (auto simp: wrap_setIndent_def wrap_setWidth_def WrapAttributes_new_def)

text \<open>C26. XML nesting.  A well-nested sequence of operations of a new \<open>XmlWriter\<close> never fails; the open
  elements are those of the sequence, the indent is two spaces for each, and the destructor
  closes them all.\<close>

theorem xml_nesting:
  assumes "xml_stack ops [] = Some open_elements"
  shows "\<exists>w w'. xml_do_all ops (XmlWriter_new os) = Some w \<and> xw_tags w = open_elements \<and>
    xw_indent w = replicate (2 * length open_elements) (CHR '' '') \<and> (xw_tagIsOpen w \<longrightarrow> open_elements \<noteq> []) \<and>
    XmlWriter_destroy w = Some w' \<and> xw_tags w' = [] \<and> xw_indent w' = []"
proof -
  obtain w where w: "xml_do_all ops (XmlWriter_new os) = Some w" "xw_ok w" "xw_tags w = open_elements"
    using xml_do_all_ok [OF xml_new_ok(1), of ops os open_elements] assms by (auto simp: xml_new_ok)
  obtain w' where w': "end_elements (length (xw_tags w)) w = Some w'" "xw_ok w'" "xw_tags w' = []"
    using end_elements_ok [OF w(2) refl] by blast
  show ?thesis using w w' by (auto simp: XmlWriter_destroy_def xw_ok_def)
qed

theorem xml_nesting_witness:
  "\<exists>w. xml_do_all [Op_start ''a'', Op_attribute ''k'' ''v'', Op_start ''b'', Op_text ''x'' True, Op_end] (XmlWriter_new []) = Some w \<and>
     xw_tags w = [''a''] \<and> xw_indent w = ''  ''"
  using xml_nesting [of "[Op_start ''a'', Op_attribute ''k'' ''v'', Op_start ''b'', Op_text ''x'' True, Op_end]" "[''a'']" "[]"]
  by (auto simp: numeral_2_eq_2)

text \<open>C27. XML escaping.  What \<open>XmlEncode\<close> writes for a text is decoded to the text, except that a
  control character (codes 0 to 8, 14 to 31 and 127) has become its code in hexadecimal; without
  control characters the text itself comes back.  The encoded text has no opening angle bracket, no
  ampersand but at the start of an entity, no control character, and no quote when it is an
  attribute; it contains \<open>]]>\<close> exactly if the text begins with \<open>]]>\<close>.\<close>

theorem xml_roundtrip:
  "(list_all (\<lambda>c. of_char c \<notin> control_codes) s \<longrightarrow> xml_decode (XmlEncode what s) = s) \<and>
   xml_decode (XmlEncode what s) = concat (map xml_shown s) \<and>
   CHR ''<'' \<notin> set (XmlEncode what s) \<and> CHR 0x22 \<notin> set (XmlEncode ForAttributes s) \<and>
   ampersands_ok (XmlEncode what s) \<and> list_all (\<lambda>c. of_char c \<notin> control_codes) (XmlEncode what s) \<and>
   (ends_cdata (XmlEncode what s) \<longleftrightarrow> take 3 s = '']]>'')"
proof (intro conjI impI)
  assume "list_all (\<lambda>c. of_char c \<notin> control_codes) s"
  then show "xml_decode (XmlEncode what s) = s"
    by (intro XmlEncode_decode) (simp add: list_all_iff is_control_codes)
next
  show "CHR ''<'' \<notin> set (XmlEncode what s)" "CHR 0x22 \<notin> set (XmlEncode ForAttributes s)"
    using encode_from_safe unfolding XmlEncode_def by blast+
  show "list_all (\<lambda>c. of_char c \<notin> control_codes) (XmlEncode what s)"
    using XmlEncode_controls by (auto simp: list_all_iff is_control_codes)
qed (rule XmlEncode_shown XmlEncode_ampersands XmlEncode_cdata)+

theorem xml_roundtrip_witness:
  "xml_decode (XmlEncode ForAttributes ''a]]>b & c'') = ''a]]>b & c'' \<and> \<not> ends_cdata (XmlEncode ForAttributes ''a]]>b & c'')"
  using xml_roundtrip [of "''a]]>b & c''" ForAttributes] by (simp add: control_codes_def)

text \<open>C28. Generators.  Moving the generators of a test on from their first values, the \<open>k\<close>-th step is
  combination number \<open>k\<close>, the last step alone reports that there is no further one, and every
  combination of indices comes up exactly once.\<close>

theorem odometer:
  assumes "gens_ok gs" "gens_number gs = 0" "k < gens_total gs"
  shows "gens_number (gens.moves k gs) = k \<and>
    (fst (gens_moveNext (gens.moves k gs)) \<longleftrightarrow> k + 1 < gens_total gs) \<and>
    (\<forall>hs. gens_ok hs \<longrightarrow> gens_sizes hs = gens_sizes gs \<longrightarrow> (\<exists>!j. j < gens_total gs \<and> gens.moves j gs = hs))"
proof (intro conjI allI impI)
  note z = gens.moves_from_zero [OF assms(1,2)]
  show "gens_number (gens.moves k gs) = k" "fst (gens_moveNext (gens.moves k gs)) \<longleftrightarrow> k + 1 < gens_total gs"
    using z [OF assms(3)] by simp_all
  fix hs assume hs: "gens_ok hs" "gens_sizes hs = gens_sizes gs"
  have lt: "gens_number hs < gens_total gs" using gens_number_lt [OF hs(1)] gens_total_sizes [OF hs(2)] by simp
  have "gens.moves (gens_number hs) gs = hs"
    using gens.moves_ok [OF assms(1)] hs z(1) [OF lt] by (intro gens_number_inj) (simp_all add: gens_moves_sizes)
  then show "\<exists>!j. j < gens_total gs \<and> gens.moves j gs = hs" using lt z(1) by metis
qed

theorem odometer_witness:
  "gens_number (gens.moves 3 [(''a'', GeneratorInfo_new 2), (''b'', GeneratorInfo_new 3)]) = 3"
  using odometer [of "[(''a'', GeneratorInfo_new 2), (''b'', GeneratorInfo_new 3)]" 3]
  by (simp add: GeneratorInfo_new_def)

text \<open>C29. The test registry.  If two tests have the same name, the first request for the tests is an error
  about the first test whose name is that of an earlier one, with the places of both.  Otherwise it
  returns the registered tests in the requested order: as declared, as shuffled, or a permutation
  sorted by name.  A second request for that order returns the same list, and a request for
  another order sorts the registered tests anew.\<close>

theorem tests_sorted:
  assumes "rg_sortedFunctions r = []" "\<And>ts. mset (shuffle ts) = mset ts"
  shows "let fs = rg_functions r in
    if distinct (map tc_name fs)
    then \<exists>ts r'. getAllTestsSorted shuffle order r = (Inr ts, r') \<and> mset ts = mset fs \<and> in_order shuffle order fs ts \<and>
      rg_functions r' = fs \<and> getAllTestsSorted shuffle order r' = (Inr ts, r') \<and>
      (order' \<noteq> order \<longrightarrow> (\<exists>ts' r''. getAllTestsSorted shuffle order' r' = (Inr ts', r'') \<and>
         in_order shuffle order' fs ts' \<and> mset ts' = mset fs))
    else \<exists>i j. i < j \<and> j < length fs \<and> tc_name (fs ! i) = tc_name (fs ! j) \<and> distinct (map tc_name (take j fs)) \<and>
      getAllTestsSorted shuffle order r = (Inl (
        ''error: TEST_CASE( '' @ [CHR 0x22] @ tc_name (fs ! j) @ [CHR 0x22] @ '' ) already defined.'' @ [CHR 0x0A] @
        [CHR 0x09] @ ''First seen at '' @ show_source (tc_lineInfo (fs ! i)) @ [CHR 0x0A] @
        [CHR 0x09] @ ''Redefined at '' @ show_source (tc_lineInfo (fs ! j)) @ [CHR 0x0A]), r)"
proof (cases "distinct (map tc_name (rg_functions r))")
  case True
  show ?thesis unfolding Let_def if_P [OF True]
    by (rule getAllTestsSorted_order [OF assms(1) True assms(2)])
next
  case False
  then obtain e where e: "enforceNoDuplicateTestCases (rg_functions r) = Inl e"
    using enforce_ok [of "rg_functions r"] by (cases "enforceNoDuplicateTestCases (rg_functions r)") auto
  then have "getAllTestsSorted shuffle order r = (Inl e, r)" using assms(1) by (simp add: getAllTestsSorted_def)
  with enforce_first [OF e] show ?thesis unfolding Let_def if_not_P [OF False] duplicate_error_def by metis
qed

theorem tests_sorted_witness:
  "\<exists>ts r' r''. getAllTestsSorted rev InDeclarationOrder sample_registry = (Inr [sample_test ''a'', sample_test ''b''], r') \<and>
     getAllTestsSorted rev InLexicographicalOrder r' = (Inr ts, r'') \<and> sorted (map tc_name ts)"
  using tests_sorted [of sample_registry rev InDeclarationOrder InLexicographicalOrder] by (auto simp: Let_def)

text \<open>C30. Comparisons in assertions.  For all six operators \<open>compare\<close> gives the result of the language's
  own operator on the operands, except on these: an \<open>unsigned long\<close> and a negative \<open>int\<close> with the
  first between the second plus \<open>2 ^ 32\<close> and the second plus \<open>2 ^ 64\<close>; a narrower unsigned type
  and a negative number; and an \<open>unsigned long long\<close> on the left of a signed number when exactly
  one of the two has its highest bit set.\<close>

theorem mixed_comparison:
  "(\<forall>oper. compare oper lhs rhs = applyEvaluator oper lhs rhs) \<longleftrightarrow> \<not> surprising lhs rhs"
  by (rule surprising_iff)

text \<open>C31. An assertion about a comparison.  With a fresh result builder the result is the comparison, or
  its negation where the macro asserts that it is false; it is reported once, with the operands
  and the operator as its text, on one line when the operands have less than 40 characters; the
  counts of passed and failed assertions go up accordingly; and the assertion ends the test
  exactly if it failed, failures are not suppressed, and the run aborts or the disposition is
  normal.\<close>

theorem comparison_assertion:
  "let b = ResultBuilder_new macro here captured disposition secondArg;
       ok = (compare oper lhs rhs \<noteq> isFalseTest disposition);
       fails = (\<not> ok \<and> \<not> shouldSuppressFailure disposition)
   in \<exists>b' result r'. binary_endExpression lhs oper rhs b r = Some (b', r') \<and>
        rc_events r' = rc_events r @ [AssertionEnded result (rc_messages r) (rc_totals r')] \<and>
        getResultType result = (if ok then Ok else ExpressionFailed) \<and>
        fst (getExpandedExpression result) =
          (if isFalseTest disposition then ''!('' @ comparison_text lhs oper rhs @ '')'' else comparison_text lhs oper rhs) \<and>
        passed (assertions (rc_totals r')) = passed (assertions (rc_totals r)) + of_bool ok \<and>
        failed (assertions (rc_totals r')) = failed (assertions (rc_totals r)) + of_bool fails \<and>
        (react b' \<longleftrightarrow> fails \<and> (aborting r' \<or> disposition AND Normal = Normal))"
proof -
  have n: "disposition AND Normal = Normal \<longleftrightarrow> disposition AND Normal \<noteq> 0"
    by (simp add: Normal_def and_one_eq mod_2_eq_odd)
  define b where "b = ResultBuilder_new macro here captured disposition secondArg"
  define cmp where "cmp = compare oper lhs rhs"
  obtain result where res: "build_expr (comparison_text lhs oper rhs) True (setResultType_bool cmp b) = Some result"
    "getResultType result = (if cmp \<noteq> isFalseTest disposition then Ok else ExpressionFailed)"
    "fst (getExpandedExpression result) =
      (if isFalseTest disposition then ''!('' @ comparison_text lhs oper rhs @ '')'' else comparison_text lhs oper rhs)"
    "result_isOk result = (cmp \<noteq> isFalseTest disposition \<or> shouldSuppressFailure disposition)"
    using build_result [OF b_def] by blast
  have b: "\<not> react (setResultType_bool cmp b)" "resultDisposition (rb_assertionInfo (setResultType_bool cmp b)) = disposition"
    by (simp_all add: b_def setResultType_bool_def setResultType_def react_def ResultBuilder_new_def)
  have e: "binary_endExpression lhs oper rhs b r = Some (handleResult result (setResultType_bool cmp b) r)"
    using res(1) by (simp add: binary_endExpression_def binary_text endExpression_def cmp_def [symmetric] Let_def del: reconstruct.simps)
  show ?thesis unfolding Let_def b_def [symmetric] cmp_def [symmetric] e n
    using handleResult_counts [OF res(2), of "setResultType_bool cmp b" r] res(2,3,4) b by auto
qed

text \<open>C32. The macros of assertions.  Whatever the expression of \<open>REQUIRE\<close>, \<open>CHECK\<close>, their negations or
  \<open>CHECK_NOFAIL\<close> does, the macro comes to an end.  A value is reported once, as ok exactly if it is the
  one that is wanted; an exception is reported once, with its translated message; only the exception
  of a failed test inside the expression passes through unreported.  A failure ends the test in the
  \<open>REQUIRE\<close> macros and when the run aborts, and never in \<open>CHECK_NOFAIL\<close>.\<close>

theorem assertion_macros:
  "\<exists>r' exit. test_macro translators m here captured expr r = Some (r', exit) \<and>
    (case expr r of
       (r1, Value e) \<Rightarrow>
         (\<exists>result. reported_once result r1 r' \<and>
            getResultType result = (if test_verdict e = wanted m then Ok else ExpressionFailed)) \<and>
         exit = (if test_verdict e \<noteq> wanted m \<and> m \<noteq> CHECK_NOFAIL \<and> (required m \<or> aborting r') then TestFailure else Returned)
     | (r1, Throws ex) \<Rightarrow>
         (case translateActiveException translators ex of
            None \<Rightarrow> r' = r1 \<and> exit = TestFailure
          | Some msg \<Rightarrow>
              (\<exists>result. reported_once result r1 r' \<and> getResultType result = ThrewException \<and> getMessage result = msg) \<and>
              exit = (if m \<noteq> CHECK_NOFAIL \<and> (required m \<or> aborting r') then TestFailure else Returned)))"
proof -
  define b where "b = ResultBuilder_new (test_macro_name m) here captured (test_macro_disposition m) []"
  note defs = test_macro_def INTERNAL_CATCH_TEST_def b_def [symmetric] Let_def use_active_exception_def INTERNAL_CATCH_REACT_def
  obtain r1 v where r1: "expr r = (r1, v)" by (cases "expr r")
  show ?thesis
  proof (cases v)
    case (Value e)
    obtain b' r' result where h: "test_endExpression e b r1 = Some (b', r')" "reported_once result r1 r'"
      "getResultType result = (if test_verdict e \<noteq> isFalseTest (test_macro_disposition m) then Ok else ExpressionFailed)"
      "react b' \<longleftrightarrow> test_verdict e = isFalseTest (test_macro_disposition m) \<and>
         \<not> shouldSuppressFailure (test_macro_disposition m) \<and> (aborting r' \<or> test_macro_disposition m AND Normal \<noteq> 0)"
      using value_result [OF b_def, of e r1] by blast
    have "\<exists>result. reported_once result r1 r' \<and> getResultType result = (if test_verdict e = wanted m then Ok else ExpressionFailed)"
      using h(2,3) test_macro_flags(1) [of m] by (intro exI [of _ result]) auto
    moreover have "(if react b' then TestFailure else Returned) =
        (if test_verdict e \<noteq> wanted m \<and> m \<noteq> CHECK_NOFAIL \<and> (required m \<or> aborting r') then TestFailure else Returned)"
      unfolding h(4) test_macro_flags by auto
    ultimately show ?thesis unfolding defs r1 Value using h(1) by simp
  next
    case (Throws ex)
    show ?thesis
    proof (cases "translateActiveException translators ex")
      case None
      then show ?thesis unfolding defs r1 Throws by simp
    next
      case (Some msg)
      obtain b' r' result where h: "useActiveException msg (test_macro_disposition m) b r1 = Some (b', r')"
        "reported_once result r1 r'" "getResultType result = ThrewException" "getMessage result = msg"
        "react b' \<longleftrightarrow> \<not> shouldSuppressFailure (test_macro_disposition m) \<and> (aborting r' \<or> test_macro_disposition m AND Normal \<noteq> 0)"
        using exception_result [OF b_def, of msg r1] by blast
      have "(if react b' then TestFailure else Returned) =
          (if m \<noteq> CHECK_NOFAIL \<and> (required m \<or> aborting r') then TestFailure else Returned)"
        unfolding h(5) test_macro_flags by auto
      then have "test_macro translators m here captured expr r =
          Some (r', if m \<noteq> CHECK_NOFAIL \<and> (required m \<or> aborting r') then TestFailure else Returned)"
        unfolding defs r1 Throws using Some h(1) by simp
      then show ?thesis using h(2-4) Some r1 Throws by auto
    qed
  qed
qed

text \<open>C33. Shared objects.  A program that makes, copies, assigns, resets, swaps and destroys \<open>Ptr\<close>s, as
  variables and as members of shared objects, with fewer than 2^32 references to each, never
  uses an object after it has been freed, and releasing always ends; at any time the counter of
  an object is the number of the pointers to it, and an object exists exactly while there is one.\<close>

theorem shared_objects_counted:
  assumes "counted s" and "run_ok xs s"
  shows "\<exists>s'. ptr_run xs s = Some s' \<and> counted s' \<and> (\<forall>a. sd_heap s' a = None \<longleftrightarrow> pointers_to s' a = 0)"
proof -
  obtain s' where s': "ptr_run xs s = Some s'" "counted s'" using ptr_run_counted [OF assms] by blast
  have "sd_heap s' a = None \<longleftrightarrow> pointers_to s' a = 0" for a
  proof -
    have c: "case sd_heap s' a of None \<Rightarrow> pointers_to s' a = 0
      | Some ob \<Rightarrow> m_rc ob \<noteq> 0 \<and> unat (m_rc ob) = pointers_to s' a"
      using s'(2) unfolding counted_def by (elim conjE allE [of _ a])
    show ?thesis
    proof (cases "sd_heap s' a")
      case (Some ob)
      then have "m_rc ob \<noteq> 0" "unat (m_rc ob) = pointers_to s' a" using c by simp_all
      then have "pointers_to s' a \<noteq> 0" by (metis unat_eq_0)
      then show ?thesis using Some by simp
    qed (use c in simp)
  qed
  then show ?thesis using s' by blast
qed

theorem shared_objects_counted_witness:
  "\<exists>s. ptr_run [Make 7 [], Make 9 [0], Destroy 0] no_objects = Some s \<and> counted s \<and>
     (\<forall>a. sd_heap s a = None \<longleftrightarrow> pointers_to s a = 0)"
proof -
  have "run_ok [Make 7 [], Make 9 [0], Destroy 0] no_objects"
    by (simp add: no_objects_def room_def rc_of_def Ptr_new_def Ptr_copy_def addRef_def SharedImpl_new_def Let_def
        Ptr_destroy_def release_def destroy_ptrs.simps)
  from shared_objects_counted [OF no_objects_counted this] show ?thesis .
qed

text \<open>C34. Tokenizing the command line.  Any sequence of words, groups of short options, long options,
  and long options with a value after \<open>=\<close> or \<open>:\<close> gives the tokens of its members in order, and
  whatever follows \<open>--\<close> is ignored.\<close>

theorem tokenizer_forms:
  assumes "list_all cl_ok as"
  shows "parseIntoTokens (exe # map cl_text as) = Some (concat (map cl_tokens as)) \<and>
    parseIntoTokens (exe # map cl_text as @ ''--'' # rest) = Some (concat (map cl_tokens as))"
proof -
  have "idle Parser_new" "ps_tokens Parser_new = []" by (simp_all add: idle_def Parser_new_def)
  then obtain q where q: "\<forall>rest. parseArgs (map cl_text as @ rest) Parser_new = parseArgs rest q"
      "ps_tokens q = concat (map cl_tokens as)"
    using parseArgs_cl [of Parser_new as] assms by (auto simp: list_all_iff)
  show ?thesis using q(1) [rule_format, of "[]"] q(1) [rule_format, of "''--'' # rest"] q(2)
    by (simp add: parseIntoTokens_def)
qed

theorem tokenizer_forms_witness:
  "parseIntoTokens (''exe'' # map cl_text [Cl_shorts ''ab'', Cl_long_value ''order'' (CHR ''='') ''rand'', Cl_word ''test''] @ ''--'' # [''-x'']) =
     Some (concat (map cl_tokens [Cl_shorts ''ab'', Cl_long_value ''order'' (CHR ''='') ''rand'', Cl_word ''test'']))"
  using tokenizer_forms [of "[Cl_shorts ''ab'', Cl_long_value ''order'' (CHR ''='') ''rand'', Cl_word ''test'']" "''exe''" "[''-x'']"]
  by (simp add: bare_def bare_positional_def)

text \<open>C35. A test case whose body opens no section and asks for no generator runs to its end: \<open>runTest\<close>
  returns, having run the body exactly once between the start and the end of its section, and
  the totals count exactly one test case more.\<close>

theorem plain_test_runs_once:
  assumes "plain_body invoke" "rc_unfinishedSections r = []"
    "cfg_sectionsToRun (config_data (rc_config r)) = []" "map_of (rc_generators r) (tc_name tc) = None"
  shows "\<exists>delta r1 r'. runTest here invoke tc r = returns (delta, r') \<and>
    ran_once invoke tc (report (TestCaseStarting tc) r) r1 \<and>
    rc_events r' = rc_events r1 @ [TestCaseEnded tc delta (aborting r')] \<and>
    Counts_total (testCases delta) = 1 \<and>
    testCases (rc_totals r') = Counts_plus (testCases (rc_totals r)) (testCases delta) \<and>
    rc_unfinishedSections r' = [] \<and> rc_activeTestCase r' = None"
  using runTest_ok [OF assms, of here] by blast

theorem plain_test_runs_once_witness:
  "\<exists>delta r'. runTest \<lparr>src_file = ''catch.hpp'', src_line = 1\<rparr> sample_body (sample_test ''a'')
     (RunContext_new 0 \<lparr>config_data = ConfigData_new, config_spec = []\<rparr>) = returns (delta, r') \<and>
     Counts_total (testCases delta) = 1"
  using plain_test_runs_once [of sample_body "RunContext_new 0 \<lparr>config_data = ConfigData_new, config_spec = []\<rparr>" "sample_test ''a''"
      "\<lparr>src_file = ''catch.hpp'', src_line = 1\<rparr>"] sample_body_quiet
  by (auto simp: quiet_body_def RunContext_new_def report_def ConfigData_new_def)

text \<open>C36. A whole run.  With known reporters, differently named tests and bodies without sections and
  generators, \<open>runTests\<close> returns, and goes through the tests in the requested order (as declared, as
  shuffled or sorted by name).  Each test is started, and ended before the next is considered, if
  the specification selects it and the run does not abort at that point, as reported with the end of
  the test before; otherwise it is skipped.  At the end the run aborts exactly if the number of
  failed assertions is the limit of the configuration, and the number of test cases that are counted
  is the number of those started.\<close>

theorem suite_runs_selected:
  assumes "Config_new reg c = Some g" "cfg_sectionsToRun c = []"
    "makeReporter registered (cfg_reporterNames c) = Inr reps"
    "rg_sortedFunctions registry = []" "distinct (map tc_name (rg_functions registry))"
    "\<And>ts. mset (shuffle ts) = mset ts" "list_all (quiet_body \<circ> bodies) (rg_functions registry)"
  shows "\<exists>totals r registry' spec tcs.
    runTests here disposition bodies reg shuffle registered g registry = Some (Inr (totals, r), registry') \<and>
    run_spec reg g = Some spec \<and> in_order shuffle (cfg_runOrder c) (rg_functions registry) tcs \<and>
    suite_runs (selects spec (allowThrows g)) (word_of_int (cfg_abortAfter c) = (0 :: size_t)) tcs (verdicts (rc_events r))
      (failed (assertions (rc_totals r)) = word_of_int (cfg_abortAfter c)) \<and>
    Counts_total (testCases (rc_totals r)) = of_nat (tests_run (verdicts (rc_events r))) \<and>
    Counts_total (testCases totals) = of_nat (tests_run (verdicts (rc_events r)))"
  by (rule runTests_ok [OF assms(1-6)]) (use assms(7) in \<open>simp add: list_all_iff\<close>)

theorem suite_runs_selected_witness:
  "\<exists>totals r registry'. runTests \<lparr>src_file = ''catch.hpp'', src_line = 1\<rparr> 0 (\<lambda>tc. sample_body) [] rev [''console'']
     \<lparr>config_data = ConfigData_new, config_spec = []\<rparr> sample_registry = Some (Inr (totals, r), registry')"
proof -
  have "Config_new [] ConfigData_new = Some \<lparr>config_data = ConfigData_new, config_spec = []\<rparr>"
    by (simp add: Config_new_def openStream_def ConfigData_new_def)
  moreover have "cfg_sectionsToRun ConfigData_new = []" by (simp add: ConfigData_new_def)
  moreover have "makeReporter [''console''] (cfg_reporterNames ConfigData_new) = Inr [''console'']"
    by (simp add: makeReporter_def createReporter_def ConfigData_new_def)
  ultimately show ?thesis
    using suite_runs_selected [of "[]" ConfigData_new _ "[''console'']" "[''console'']" sample_registry rev "\<lambda>tc. sample_body"
        "\<lparr>src_file = ''catch.hpp'', src_line = 1\<rparr>" 0] sample_body_quiet by fastforce
qed

text \<open>C37. Reports of a run.  When the tests of a run only make assertions, its calls to the reporter open
  and close the run, the group, the test cases and the sections in order, so that the XML reporter
  and the JUnit reporter, made before the run, take every one of them, whatever is reported: no
  assertion fails, no stack is popped when it is empty, writing the tree of sections ends, and at
  the end of the run every element of both documents is closed.\<close>

theorem documents_of_run:
  assumes "Config_new reg c = Some g" "cfg_sectionsToRun c = []"
    "runTests here disposition bodies reg shuffle registered g registry = Some (Inr (totals, r), registry')"
    "rg_sortedFunctions registry = []" "\<And>ts. mset (shuffle ts) = mset ts"
    "list_all (asserting_body \<circ> bodies) (rg_functions registry)" "map snd calls = rc_events r"
  shows "\<exists>x j. reporter_calls xml_reporter calls (XmlReporter_new g out) = Some x \<and> xw_tags (xr_xml x) = [] \<and>
    xr_sectionDepth x = 0 \<and>
    reporter_calls junit_reporter calls (JunitReporter_new junk g out) = Some j \<and> xw_tags (jr_xml j) = [] \<and>
    cb_sectionStack (jr_base j) = []"
proof -
  have "\<forall>tc \<in> set (rg_functions registry). asserting_body (bodies tc)" using assms(6) by (simp add: list_all_iff)
  from runTests_follows [OF assms(1-5) this]
  have p: "phase_steps (map snd calls) Outside = Some Outside" using assms(7) by simp
  obtain x where x: "reporter_calls xml_reporter calls (XmlReporter_new g out) = Some x" "xml_ok Outside x"
    using xr.calls_ok [OF XmlReporter_new_ok [of g out] p] by auto
  obtain j where j: "reporter_calls junit_reporter calls (JunitReporter_new junk g out) = Some j" "junit_ok Outside j"
    using jr.calls_ok [OF JunitReporter_new_ok [of junk g out] p] by auto
  show ?thesis using x j by (auto simp: xml_ok_def junit_ok_def junit_tags_def at_tags_def cumulative_ok_def)
qed

theorem documents_of_run_witness:
  "\<exists>totals r registry' x j. runTests sample_location 0 (\<lambda>tc. sample_body) [] rev [''console''] sample_config sample_registry =
       Some (Inr (totals, r), registry') \<and>
     reporter_calls xml_reporter (map (Pair sample_environment) (rc_events r)) (XmlReporter_new sample_config []) = Some x \<and>
     xw_tags (xr_xml x) = [] \<and>
     reporter_calls junit_reporter (map (Pair sample_environment) (rc_events r)) (JunitReporter_new 0 sample_config []) = Some j \<and>
     xw_tags (jr_xml j) = []"
proof -
  obtain totals r registry' where run: "runTests sample_location 0 (\<lambda>tc. sample_body) [] rev [''console''] sample_config sample_registry =
      Some (Inr (totals, r), registry')" using sample_run by blast
  have "map snd (map (Pair sample_environment) (rc_events r)) = rc_events r" by (simp add: comp_def)
  from documents_of_run [OF sample_config_ok run _ _ _ this, of "[]" 0] sample_body_asserting
  obtain x j where "reporter_calls xml_reporter (map (Pair sample_environment) (rc_events r)) (XmlReporter_new sample_config []) = Some x"
      "xw_tags (xr_xml x) = []" "xw_tags (jr_xml j) = []"
      "reporter_calls junit_reporter (map (Pair sample_environment) (rc_events r)) (JunitReporter_new 0 sample_config []) = Some j"
    by auto
  then show ?thesis using run by blast
qed

text \<open>C38. The console reporter.  It takes every sequence of calls that runs from the start to the end of a
  run, with sections nested in any way, as long as names have no
  colon so far right that nothing fits behind it, and the totals are below the word size by a
  factor of 128; what it writes ends with a bar of exactly 79 characters, in whatever proportion
  tests passed and failed, and the totals.\<close>

theorem console_report:
  assumes "phase_steps (map snd calls) Outside = Some Outside" "calls \<noteq> []" "list_all (console_event \<circ> snd) calls"
  shows "\<exists>x written totals aborted. reporter_calls console_reporter calls (ConsoleReporter_new g out) = Some x \<and>
    snd (last calls) = TestRunEnded totals aborted \<and>
    sb_stream (cr_base x) = written @ replicate 79 (CHR ''='') @ newline @ console_totals totals @ newline"
proof -
  obtain calls1 env e where calls: "calls = calls1 @ [(env, e)]" using assms(2) by (cases calls rule: rev_cases) auto
  then obtain q where q: "phase_steps (map snd calls1) Outside = Some q" "phase_step e q = Some Outside"
    using assms(1) by (auto simp: phase_steps_append split: option.splits)
  then obtain totals aborted where e: "e = TestRunEnded totals aborted" "q = InRun"
    by (cases "(e, q)" rule: phase_step.cases) auto
  have p: "list_all console_event (map snd calls1)" "console_event e" using assms(3) calls by (simp_all add: list.pred_map)
  obtain x where x: "reporter_calls console_reporter calls1 (ConsoleReporter_new g out) = Some x" "console_ok InRun x"
    using cr.calls_ok [OF ConsoleReporter_new_ok [of g out] q(1) p(1)] e(2) by auto
  from console_run_ended [OF x(2), of totals aborted env] p(2) e(1)
  show ?thesis using x(1) calls by (auto simp: reporter_calls_append)
qed

theorem console_report_witness:
  "\<exists>x written. reporter_calls console_reporter (map (Pair sample_environment) sample_events) (ConsoleReporter_new sample_config []) = Some x \<and>
     sb_stream (cr_base x) = written @ replicate 79 (CHR ''='') @ newline @ console_totals Totals_zero @ newline"
  using console_report [of "map (Pair sample_environment) sample_events" sample_config "[]"] sample_events_ok
  by (auto simp: comp_def list.pred_map last_map)

text \<open>C39. The compact reporter does not come back from an assertion exactly if it is a warning, successful
  results are not to be shown, and one of the messages in scope after the first is an
  information: the loop over the messages does not move past a message that it does not print.\<close>

theorem compact_hangs:
  "compact_reporter env (AssertionEnded result messages totals) b = None \<longleftrightarrow>
     getResultType result = Warning \<and> \<not> includeSuccessfulResults (sb_config b) \<and>
     list_ex (\<lambda>m. mi_type m = Info) (tl messages)"
  by (rule compact_event_hang)

text \<open>C40. Failures below zero.  In a group without a failure so far, an expression that throws in an
  assertion that suppresses failures leaves the count of failures at zero, but the JUnit reporter
  counts the exception, so that the number of failures it would write is 2^64 - 1.\<close>

theorem suppressed_exception_wraps_failures:
  assumes "shouldSuppressFailure disposition" "junit_ok (InCase (Suc n)) j" "\<not> jr_okToFail j"
    "failed (assertions (rc_totals r)) = 0" "jr_unexpectedExceptions j = 0"
  shows "\<exists>b' r' e c j'. useActiveException msg disposition b r = Some (b', r') \<and> rc_events r' = rc_events r @ [e] \<and>
    failed (assertions (rc_totals r')) = 0 \<and> junit_reporter env e j = Some (c, j') \<and>
    unat (junit_failures (rc_totals r') (jr_unexpectedExceptions j')) = 2 ^ 64 - 1"
proof -
  obtain b' result r' where r': "useActiveException msg disposition b r = Some (b', r')" "getResultType result = ThrewException"
      "rc_totals r' = rc_totals r" "rc_events r' = rc_events r @ [AssertionEnded result (rc_messages r) (rc_totals r)]"
    using suppressed_exception [OF assms(1), of msg b r] by blast
  obtain j' where j': "junit_reporter env (AssertionEnded result (rc_messages r) (rc_totals r)) j = Some (True, j')"
      "jr_unexpectedExceptions j' = 1"
    using junit_counts_exception [OF assms(2,3) r'(2), of env "rc_messages r" "rc_totals r"] assms(5) by auto
  have "unat (junit_failures (rc_totals r') (jr_unexpectedExceptions j')) = 2 ^ 64 - 1"
    using r'(3) j'(2) assms(4) by (simp add: junit_failures_def unat_max_size)
  then show ?thesis using r' j'(1) assms(4) by (metis r'(3))
qed

theorem suppressed_exception_wraps_failures_witness:
  "\<exists>b' r' e c j' j. useActiveException ''what'' (ContinueOnFailure OR SuppressFail) sample_builder (RunContext_new 0 sample_config) = Some (b', r') \<and>
     rc_events r' = rc_events (RunContext_new 0 sample_config) @ [e] \<and> junit_reporter sample_environment e j = Some (c, j') \<and>
     unat (junit_failures (rc_totals r') (jr_unexpectedExceptions j')) = 18446744073709551615"
proof -
  obtain j where j: "junit_ok (InCase (Suc 0)) j" "\<not> jr_okToFail j" "jr_unexpectedExceptions j = 0"
    using sample_junit by blast
  have "shouldSuppressFailure (ContinueOnFailure OR SuppressFail)"
    by (simp add: shouldSuppressFailure_def ContinueOnFailure_def SuppressFail_def)
  from suppressed_exception_wraps_failures [OF this j(1,2) new_run_failed j(3), of "''what''" sample_builder 0 sample_config sample_environment]
  obtain b' r' e c j' where "useActiveException ''what'' (ContinueOnFailure OR SuppressFail) sample_builder (RunContext_new 0 sample_config) = Some (b', r')"
      "rc_events r' = rc_events (RunContext_new 0 sample_config) @ [e]" "junit_reporter sample_environment e j = Some (c, j')"
      "unat (junit_failures (rc_totals r') (jr_unexpectedExceptions j')) = 2 ^ 64 - 1" by blast
  then show ?thesis by (intro exI [of _ b'] exI [of _ r'] exI [of _ e] exI [of _ c] exI [of _ j'] exI [of _ j]) simp
qed

end
